(* ===== verification/Prelude.thy ===== *)
theory Prelude
  imports Main "HOL-Library.Word" "HOL-Library.Sublist"
begin

text \<open>Shared vocabulary of the development: names for the machine types of the
  C code (\<^verbatim>\<open>size_t\<close> is 64 bits wide, as on the POSIX target), the collection of
  rewrite rules that unfold well-formedness predicates, and lemmas on linear
  searches over fixed-size tables, on blocks of bytes and on word bounds that
  several components use.\<close>

unbundle bit_operations_syntax

type_synonym u8 = "8 word"
type_synonym u16 = "16 word"
type_synonym u32 = "32 word"
type_synonym u64 = "64 word"

type_synonym bytes = "8 word list"

named_theorems wf_defs "definitions of well-formedness predicates"
named_theorems tab_simps "rewrite rules for table searches"

section \<open>Words\<close>

lemma unat_add_1_lt:
  fixes p q :: "'a::len word"
  assumes "p < q"
  shows "unat (p + 1) = unat p + 1"
proof -
  have "unat p + 1 \<le> unat q" using assms by (simp add: word_less_nat_alt)
  then have "unat p + 1 < 2 ^ LENGTH('a)" using unsigned_less [of q, where ?'a=nat] by linarith
  then show ?thesis by (simp add: unat_word_ariths)
qed

lemma unat_add_1_bound:
  fixes p :: "'a::len word"
  assumes "unat p < c" "c < 2 ^ LENGTH('a)"
  shows "unat (p + 1) = unat p + 1"
  using assms by (simp add: unat_word_ariths)

lemma unat_ucast_up:
  fixes x :: "'a::len word"
  assumes "LENGTH('a) \<le> LENGTH('b::len)"
  shows "unat (ucast x :: 'b word) = unat x"
proof -
  have "unat x < 2 ^ LENGTH('a)" by (rule unsigned_less)
  also have "... \<le> 2 ^ LENGTH('b)" using assms by simp
  finally show ?thesis by (simp add: unsigned_ucast_eq take_bit_nat_eq_self unsigned_take_bit_eq)
qed

lemma bit_word_exp: "bit ((2 :: 'a::len word) ^ n) k = (k = n \<and> n < LENGTH('a))"
  by (auto simp: bit_exp_iff)

lemma and_push_bit_1_pos: "(0 < (w AND push_bit k (1 :: 'a::len word))) = (k < LENGTH('a) \<and> bit w k)"
proof -
  have "(w AND push_bit k 1 = 0) = (\<not> (k < LENGTH('a) \<and> bit w k))"
    by (auto simp: push_bit_eq_mult and_exp_eq_0_iff_not_bit bit_imp_le_length)
  then show ?thesis by (metis word_neq_0_conv)
qed

section \<open>First index of a list that satisfies a predicate\<close>

text \<open>The tables of the code are arrays searched from row 0; \<open>find_idx P xs\<close> is the
  row such a loop stops at.\<close>

fun find_idx :: "('a \<Rightarrow> bool) \<Rightarrow> 'a list \<Rightarrow> nat option" where
  "find_idx P [] = None"
| "find_idx P (x # xs) = (if P x then Some 0 else map_option Suc (find_idx P xs))"

lemma find_idx_None [tab_simps]: "(find_idx P xs = None) = (\<forall>x \<in> set xs. \<not> P x)"
  by (induction xs) auto

lemma find_idx_Some:
  "(find_idx P xs = Some i) = (i < length xs \<and> P (xs ! i) \<and> (\<forall>j < i. \<not> P (xs ! j)))"
proof (induction xs arbitrary: i)
  case (Cons x xs)
  show ?case
  proof (cases i)
    case 0
    then show ?thesis by simp
  next
    case (Suc k)
    then show ?thesis using Cons.IH [of k] by (auto simp: All_less_Suc2)
  qed
qed simp

lemma find_idx_lt: "find_idx P xs = Some i \<Longrightarrow> i < length xs"
  by (simp add: find_idx_Some)

lemma find_idx_holds: "find_idx P xs = Some i \<Longrightarrow> P (xs ! i)"
  by (simp add: find_idx_Some)

lemma find_idx_exists: "i < length xs \<Longrightarrow> P (xs ! i) \<Longrightarrow> \<exists>j. find_idx P xs = Some j"
  by (metis find_idx_None nth_mem option.exhaust)

lemma find_idx_replicate [tab_simps]:
  "find_idx P (replicate n x) = (if n = 0 \<or> \<not> P x then None else Some 0)"
  by (induction n) auto

lemma find_idx_cong: "(\<And>x. x \<in> set xs \<Longrightarrow> P x = Q x) \<Longrightarrow> find_idx P xs = find_idx Q xs"
  by (induction xs) auto

lemma find_idx_unique:
  assumes "i < length xs" "P (xs ! i)"
    and "\<And>j. j < length xs \<Longrightarrow> P (xs ! j) \<Longrightarrow> j = i"
  shows "find_idx P xs = Some i"
proof -
  have "\<not> P (xs ! j)" if "j < i" for j
    using that assms(1) assms(3) [of j] by linarith
  then show ?thesis using assms(1,2) by (simp add: find_idx_Some)
qed

section \<open>Blocks of bytes\<close>

text \<open>A pointer into memory is the block of bytes from the pointer on; a write past the
  end of its block is \<open>None\<close>.  \<open>cstring\<close> is the C string at a pointer.\<close>

definition cstring :: "bytes \<Rightarrow> bytes" where
  "cstring p = takeWhile (\<lambda>b. b \<noteq> 0) p"

definition strlen :: "bytes \<Rightarrow> nat" where
  "strlen p = length (cstring p)"

definition mem_write :: "bytes \<Rightarrow> nat \<Rightarrow> bytes \<Rightarrow> bytes option" where
  "mem_write dst off src =
    (if off + length src \<le> length dst
     then Some (take off dst @ src @ drop (off + length src) dst) else None)"

definition strncpy :: "bytes \<Rightarrow> nat \<Rightarrow> bytes" where
  "strncpy src n = (let s = take n (cstring src) in s @ replicate (n - length s) 0)"

text \<open>A heap allocator hands out a block of the size asked for, with arbitrary
  contents, or fails.\<close>

type_synonym allocator = "nat \<Rightarrow> bytes option"

definition malloc_ok :: "allocator \<Rightarrow> bool" where
  "malloc_ok alloc = (\<forall>n b. alloc n = Some b \<longrightarrow> length b = n)"

definition ascii :: "string \<Rightarrow> bytes" where
  "ascii s = List.map of_char s"

lemma mem_write_length: "mem_write dst off src = Some r \<Longrightarrow> length r = length dst"
  by (auto simp: mem_write_def split: if_splits)

lemma mem_write_app:
  "length xs = off \<Longrightarrow> length old = length src \<Longrightarrow>
   mem_write (xs @ old @ ys) off src = Some (xs @ src @ ys)"
  by (simp add: mem_write_def)

lemma mem_write_None: "(mem_write dst off src = None) = (length dst < off + length src)"
  by (auto simp: mem_write_def)

lemma cstring_zero [simp]: "cstring (0 # p) = []"
  by (simp add: cstring_def)

lemma cstring_Nil [simp]: "cstring [] = []"
  by (simp add: cstring_def)

lemma cstring_no_nul: "0 \<notin> set (cstring p)"
  by (auto simp: cstring_def dest: set_takeWhileD)

lemma cstring_app: "0 \<notin> set s \<Longrightarrow> cstring (s @ 0 # p) = s"
  by (induction s) (auto simp: cstring_def)

lemma cstring_id: "0 \<notin> set s \<Longrightarrow> cstring s = s"
  by (induction s) (auto simp: cstring_def)

lemma strncpy_length [simp]: "length (strncpy src n) = n"
  by (simp add: strncpy_def Let_def)

lemma strncpy_prefix: "n \<le> strlen src \<Longrightarrow> strncpy src n = take n (cstring src)"
  by (simp add: strncpy_def strlen_def)

lemma nth_list_update_if [tab_simps]:
  "i < length xs \<Longrightarrow> xs[j := x] ! i = (if i = j then x else xs ! i)"
  by (simp add: nth_list_update)

end
