(* ===== verification/Bit_Array.thy ===== *)
theory Bit_Array
  imports Prelude
begin

text \<open>The bit array of \<^verbatim>\<open>common/bit_array.h\<close>: a count of bits followed by 32-bit
  units.  The interface a client relies on (set, clear and test, with every
  operation on a number out of range a no-op) is the locale \<open>bit_store\<close>,
  interpreted on the code's own operations.\<close>

section \<open>Model\<close>

record bitarray =
  nbbits :: u32
  units :: "u32 list"

definition BITS_PER_UNIT :: u32 where
  "BITS_PER_UNIT = 32"

definition bit_of :: "u32 \<Rightarrow> nat" where
  "bit_of n = unat (n mod BITS_PER_UNIT)"

definition unit_of :: "u32 \<Rightarrow> nat" where
  "unit_of n = unat ((n - n mod BITS_PER_UNIT) div BITS_PER_UNIT)"

text \<open>\<open>ok\<close> is the outcome of \<^verbatim>\<open>pvRsMemAlloc\<close>.\<close>

definition pxBitArrayAlloc :: "bool \<Rightarrow> u32 \<Rightarrow> bitarray option" where
  "pxBitArrayAlloc ok n =
    (if ok then Some \<lparr>nbbits = n, units = replicate (unat (n div BITS_PER_UNIT) + 1) 0\<rparr> else None)"

definition vBitArraySetBit :: "bitarray \<Rightarrow> u32 \<Rightarrow> bitarray" where
  "vBitArraySetBit ba n =
    (if n < nbbits ba
     then ba\<lparr>units := (units ba)[unit_of n := (units ba ! unit_of n) OR push_bit (bit_of n) 1]\<rparr>
     else ba)"

definition vBitArrayClearBit :: "bitarray \<Rightarrow> u32 \<Rightarrow> bitarray" where
  "vBitArrayClearBit ba n =
    (if n < nbbits ba
     then ba\<lparr>units := (units ba)[unit_of n := (units ba ! unit_of n) AND NOT (push_bit (bit_of n) 1)]\<rparr>
     else ba)"

definition xBitArrayGetBit :: "bitarray \<Rightarrow> u32 \<Rightarrow> bool" where
  "xBitArrayGetBit ba n =
    (if n < nbbits ba
     then 0 < ((units ba ! unit_of n) AND push_bit (bit_of n) 1)
     else False)"

definition ba_ok :: "bitarray \<Rightarrow> bool" where [wf_defs]:
  "ba_ok ba = (length (units ba) = unat (nbbits ba) div 32 + 1)"

section \<open>Positions\<close>

lemma bit_of_nat: "bit_of n = unat n mod 32"
  by (simp add: bit_of_def BITS_PER_UNIT_def unat_mod)

lemma unit_of_nat: "unit_of n = unat n div 32"
proof -
  have "unat (n - n mod 32) = unat n - unat n mod 32"
    by (subst unat_sub) (simp_all add: unat_mod word_le_nat_alt)
  then show ?thesis
    by (simp add: unit_of_def BITS_PER_UNIT_def unat_div minus_mod_eq_div_mult)
qed

lemma bit_of_lt [simp]: "bit_of n < 32"
  by (simp add: bit_of_nat)

lemma pos_eq: "(unit_of m = unit_of n \<and> bit_of m = bit_of n) = (m = n)"
  unfolding unit_of_nat bit_of_nat
  by (metis div_mult_mod_eq word_unat_eq_iff)

lemma unit_in_range: "ba_ok ba \<Longrightarrow> n < nbbits ba \<Longrightarrow> unit_of n < length (units ba)"
  by (simp add: wf_defs unit_of_nat word_less_nat_alt less_Suc_eq_le div_le_mono)

lemma get_bit: "xBitArrayGetBit ba n = (n < nbbits ba \<and> bit (units ba ! unit_of n) (bit_of n))"
  using and_push_bit_1_pos [of "units ba ! unit_of n" "bit_of n"]
  by (simp add: xBitArrayGetBit_def del: push_bit_of_1)

lemma get_bound: "xBitArrayGetBit ba n \<Longrightarrow> n < nbbits ba"
  by (simp add: get_bit)

section \<open>Laws\<close>

lemma alloc_ok: "pxBitArrayAlloc ok n = Some ba \<Longrightarrow> ba_ok ba \<and> nbbits ba = n \<and> (\<forall>m. \<not> xBitArrayGetBit ba m)"
  by (auto simp: pxBitArrayAlloc_def wf_defs BITS_PER_UNIT_def unat_div get_bit unit_of_nat
      word_less_nat_alt less_Suc_eq_le div_le_mono nth_Cons' split: if_splits)

lemma set_ok [simp]: "ba_ok ba \<Longrightarrow> ba_ok (vBitArraySetBit ba n)"
  by (simp add: wf_defs vBitArraySetBit_def)

lemma clear_ok [simp]: "ba_ok ba \<Longrightarrow> ba_ok (vBitArrayClearBit ba n)"
  by (simp add: wf_defs vBitArrayClearBit_def)

lemma nbbits_set [simp]: "nbbits (vBitArraySetBit ba n) = nbbits ba"
  by (simp add: vBitArraySetBit_def)

lemma nbbits_clear [simp]: "nbbits (vBitArrayClearBit ba n) = nbbits ba"
  by (simp add: vBitArrayClearBit_def)

lemma get_set:
  assumes "ba_ok ba"
  shows "xBitArrayGetBit (vBitArraySetBit ba n) m = (m < nbbits ba \<and> (m = n \<or> xBitArrayGetBit ba m))"
proof (cases "n < nbbits ba \<and> unit_of m = unit_of n")
  case True
  then show ?thesis
    using unit_in_range [OF assms] pos_eq [of m n]
    by (auto simp: get_bit vBitArraySetBit_def bit_or_iff bit_word_exp)
next
  case False
  then show ?thesis by (auto simp: get_bit vBitArraySetBit_def)
qed

lemma get_clear:
  assumes "ba_ok ba"
  shows "xBitArrayGetBit (vBitArrayClearBit ba n) m = (m \<noteq> n \<and> xBitArrayGetBit ba m)"
proof (cases "n < nbbits ba \<and> unit_of m = unit_of n")
  case True
  then show ?thesis
    using unit_in_range [OF assms] pos_eq [of m n]
    by (auto simp: get_bit vBitArrayClearBit_def bit_and_iff bit_not_iff bit_word_exp)
next
  case False
  then show ?thesis by (auto simp: get_bit vBitArrayClearBit_def)
qed

section \<open>The interface\<close>

locale bit_store =
  fixes ok :: "'s \<Rightarrow> bool"
    and bound :: "'s \<Rightarrow> u32"
    and set_bit :: "'s \<Rightarrow> u32 \<Rightarrow> 's"
    and clear_bit :: "'s \<Rightarrow> u32 \<Rightarrow> 's"
    and get_bit :: "'s \<Rightarrow> u32 \<Rightarrow> bool"
  assumes set_keeps_ok: "ok s \<Longrightarrow> ok (set_bit s n) \<and> bound (set_bit s n) = bound s"
    and clear_keeps_ok: "ok s \<Longrightarrow> ok (clear_bit s n) \<and> bound (clear_bit s n) = bound s"
    and get_after_set: "ok s \<Longrightarrow> get_bit (set_bit s n) m = (m < bound s \<and> (m = n \<or> get_bit s m))"
    and get_after_clear: "ok s \<Longrightarrow> get_bit (clear_bit s n) m = (m \<noteq> n \<and> get_bit s m)"
    and get_bounded: "get_bit s n \<Longrightarrow> n < bound s"
begin

definition members :: "'s \<Rightarrow> u32 set" where
  "members s = {n. get_bit s n}"

lemma members_set: "ok s \<Longrightarrow> n < bound s \<Longrightarrow> members (set_bit s n) = insert n (members s)"
  by (auto simp: members_def get_after_set dest: get_bounded)

lemma members_clear: "ok s \<Longrightarrow> members (clear_bit s n) = members s - {n}"
  by (auto simp: members_def get_after_clear)

lemma finite_members: "finite (members s)"
  by simp

lemma card_set_fresh:
  "ok s \<Longrightarrow> n < bound s \<Longrightarrow> \<not> get_bit s n \<Longrightarrow> card (members (set_bit s n)) = Suc (card (members s))"
  by (simp add: members_set) (simp add: members_def)

lemma set_out_of_range: "ok s \<Longrightarrow> \<not> n < bound s \<Longrightarrow> members (set_bit s n) = members s"
  by (auto simp: members_def get_after_set dest: get_bounded)

end

interpretation bits: bit_store ba_ok nbbits vBitArraySetBit vBitArrayClearBit xBitArrayGetBit
  by unfold_locales (auto simp: get_set get_clear dest: get_bound)

end
