(* ===== verification/Num_Mgr.thy ===== *)
theory Num_Mgr
  imports Bit_Array
begin

text \<open>The number manager of \<^verbatim>\<open>common/num_mgr.c\<close>: it hands out the numbers 1..N (port
  ids, IPC process ids) from a bit array, resuming after the last number handed
  out.  The search loop has no bound in the code, so it is a
  \<open>partial_function\<close> and not returning is the value \<open>None\<close>.\<close>

section \<open>Model\<close>

record num_mgr =
  numCnt :: u64
  lastAllocated :: u32
  nm_ba :: bitarray

definition UINT_MAX :: u32 where
  "UINT_MAX = 0xFFFFFFFF"

definition xNumMgrInit :: "bool \<Rightarrow> u64 \<Rightarrow> num_mgr option" where
  "xNumMgrInit ok n =
    (case pxBitArrayAlloc ok (ucast (n + 1)) of
       None \<Rightarrow> None
     | Some ba \<Rightarrow> Some \<lparr>numCnt = n + 1, lastAllocated = 0, nm_ba = ba\<rparr>)"

definition pxNumMgrCreate :: "bool \<Rightarrow> bool \<Rightarrow> u64 \<Rightarrow> num_mgr option" where
  "pxNumMgrCreate ok1 ok2 n =
    (if n = ucast UINT_MAX then None
     else if \<not> ok1 then None
     else xNumMgrInit ok2 n)"

partial_function (option) alloc_loop :: "num_mgr \<Rightarrow> u32 \<Rightarrow> (u32 \<times> num_mgr) option" where
  "alloc_loop im p =
    (if p = lastAllocated im then Some (UINT_MAX, im)
     else
       let q = (if ucast p = numCnt im then 1 else p) in
       if \<not> xBitArrayGetBit (nm_ba im) q
       then Some (q, im\<lparr>nm_ba := vBitArraySetBit (nm_ba im) q, lastAllocated := q\<rparr>)
       else alloc_loop im (q + 1))"

definition ulNumMgrAllocate :: "num_mgr \<Rightarrow> (u32 \<times> num_mgr) option" where
  "ulNumMgrAllocate im = alloc_loop im (lastAllocated im + 1)"

definition xNumMgrRelease :: "num_mgr \<Rightarrow> u32 \<Rightarrow> bool \<times> num_mgr" where
  "xNumMgrRelease im n =
    (if \<not> xBitArrayGetBit (nm_ba im) n then (False, im)
     else (True, im\<lparr>nm_ba := vBitArrayClearBit (nm_ba im) n\<rparr>))"

definition xNumMgrIsAllocated :: "num_mgr \<Rightarrow> u32 \<Rightarrow> bool" where
  "xNumMgrIsAllocated im n = xBitArrayGetBit (nm_ba im) n"

section \<open>Invariant\<close>

text \<open>\<open>capacity im\<close> is the N of the creation; the invariant asks for at least one
  number, which \<^verbatim>\<open>pxNumMgrCreate\<close> does not check.\<close>

definition capacity :: "num_mgr \<Rightarrow> nat" where
  "capacity im = unat (numCnt im) - 1"

definition nm_ok :: "num_mgr \<Rightarrow> bool" where
  "nm_ok im = (ba_ok (nm_ba im) \<and> 2 \<le> unat (numCnt im) \<and> unat (numCnt im) < 2 ^ 32 \<and>
    unat (nbbits (nm_ba im)) = unat (numCnt im) \<and> unat (lastAllocated im) < unat (numCnt im) \<and>
    \<not> xBitArrayGetBit (nm_ba im) 0 \<and>
    (lastAllocated im = 0 \<longrightarrow> (\<forall>n. \<not> xBitArrayGetBit (nm_ba im) n)))"

text \<open>The numbers handed out and not released.\<close>

definition handed_out :: "num_mgr \<Rightarrow> u32 set" where
  "handed_out im = {n. xBitArrayGetBit (nm_ba im) n}"

text \<open>The order the loop tries the numbers in.  When the last number handed out is
  1 the wrap-around lands on it past the end test, so it is tried too.\<close>

definition candidates :: "num_mgr \<Rightarrow> nat list" where
  "candidates im =
    (let l = unat (lastAllocated im); c = unat (numCnt im) in
     [l + 1 ..< c] @ (if l = 1 then [1] else [1 ..< l]))"

definition take_number :: "num_mgr \<Rightarrow> u32 \<Rightarrow> num_mgr" where
  "take_number im q = im\<lparr>nm_ba := vBitArraySetBit (nm_ba im) q, lastAllocated := q\<rparr>"

definition nfree :: "num_mgr \<Rightarrow> nat \<Rightarrow> bool" where
  "nfree im n = (\<not> xBitArrayGetBit (nm_ba im) (of_nat n))"

section \<open>The search loop\<close>

lemma of_nat_unat_32 [simp]: "n < 2 ^ 32 \<Longrightarrow> unat (of_nat n :: u32) = n"
  by (simp add: unat_of_nat take_bit_nat_eq_self)

lemma u32_eq_of_nat: "n < 2 ^ 32 \<Longrightarrow> (p = (of_nat n :: u32)) = (unat p = n)"
  using of_nat_unat_32 [of n] by (metis of_nat_unat ucast_id)

lemma ucast_eq_numCnt: "(ucast (p :: u32) = numCnt im) = (unat p = unat (numCnt im))"
proof -
  have "unat (ucast p :: u64) = unat p" by (rule unat_ucast_up) simp
  then show ?thesis by (metis word_unat_eq_iff)
qed

definition search :: "num_mgr \<Rightarrow> nat list \<Rightarrow> (u32 \<times> num_mgr) option \<Rightarrow> (u32 \<times> num_mgr) option" where
  "search im ns d =
    (case find (nfree im) ns of
       Some n \<Rightarrow> Some (of_nat n, take_number im (of_nat n))
     | None \<Rightarrow> d)"

lemma find_append: "find P (xs @ ys) = (case find P xs of None \<Rightarrow> find P ys | Some x \<Rightarrow> Some x)"
  by (induction xs) auto

lemma search_append: "search im (xs @ ys) d = search im xs (search im ys d)"
  by (auto simp: search_def find_append split: option.splits)

lemma search_Nil [simp]: "search im [] d = d"
  by (simp add: search_def)

lemma search_Cons [simp]:
  "search im (n # ns) d =
    (if nfree im n then Some (of_nat n, take_number im (of_nat n)) else search im ns d)"
  by (simp add: search_def)

lemma nm_ok_bounds:
  assumes "nm_ok im"
  shows "unat (lastAllocated im) < unat (numCnt im)" "unat (numCnt im) < 2 ^ 32"
    "2 \<le> unat (numCnt im)"
  using assms by (simp_all add: nm_ok_def)

lemma loop_end:
  "alloc_loop im (lastAllocated im) = Some (UINT_MAX, im)"
  by (simp add: alloc_loop.simps)

lemma loop_step:
  assumes "nm_ok im" "k \<noteq> unat (lastAllocated im)" "k < unat (numCnt im)"
  shows "alloc_loop im (of_nat k) = search im [k] (alloc_loop im (of_nat (Suc k)))"
proof -
  have k: "k < 2 ^ 32" using assms nm_ok_bounds(2) by (meson less_trans)
  have "of_nat k \<noteq> lastAllocated im"
    using assms(2) u32_eq_of_nat [OF k, of "lastAllocated im"] by auto
  moreover have "ucast (of_nat k :: u32) \<noteq> numCnt im"
    using assms(3) k by (simp add: ucast_eq_numCnt)
  ultimately show ?thesis
    by (subst alloc_loop.simps) (simp add: Let_def nfree_def take_number_def add.commute)
qed

lemma loop_wrap:
  assumes "nm_ok im" "k = unat (numCnt im)"
  shows "alloc_loop im (of_nat k) = search im [1] (alloc_loop im 2)"
proof -
  have b: "k < 2 ^ 32" "unat (lastAllocated im) \<noteq> k"
    using nm_ok_bounds [OF assms(1)] assms(2) by auto
  have "of_nat k \<noteq> lastAllocated im"
    using b u32_eq_of_nat [of k "lastAllocated im"] by auto
  moreover have "ucast (of_nat k :: u32) = numCnt im"
    using b(1) assms(2) of_nat_unat_32 [OF b(1)] ucast_eq_numCnt [of "of_nat k" im] by argo
  ultimately show ?thesis
    by (subst alloc_loop.simps) (simp add: nfree_def take_number_def)
qed

lemma loop_up:
  assumes "nm_ok im"
  shows "unat (lastAllocated im) < k \<Longrightarrow> k \<le> unat (numCnt im) \<Longrightarrow>
    alloc_loop im (of_nat k) =
    search im [k ..< unat (numCnt im)] (alloc_loop im (of_nat (unat (numCnt im))))"
proof (induction "unat (numCnt im) - k" arbitrary: k)
  case (Suc d)
  have "k < unat (numCnt im)" using Suc.hyps(2) by linarith
  then show ?case
    using Suc.hyps(1) [of "Suc k"] Suc.hyps(2) Suc.prems loop_step [OF assms, of k]
    by (simp add: upt_conv_Cons del: of_nat_Suc)
qed simp

lemma loop_low:
  assumes "nm_ok im"
  shows "0 < k \<Longrightarrow> k \<le> unat (lastAllocated im) \<Longrightarrow>
    alloc_loop im (of_nat k) = search im [k ..< unat (lastAllocated im)] (Some (UINT_MAX, im))"
proof (induction "unat (lastAllocated im) - k" arbitrary: k)
  case 0
  then have "k = unat (lastAllocated im)" by simp
  then show ?case using loop_end [of im] by simp
next
  case (Suc d)
  have "k < unat (lastAllocated im)" using Suc.hyps(2) by linarith
  then show ?case
    using Suc.hyps(1) [of "Suc k"] Suc.hyps(2) Suc.prems loop_step [OF assms, of k]
      nm_ok_bounds(1) [OF assms]
    by (simp add: upt_conv_Cons del: of_nat_Suc)
qed

text \<open>With everything taken and the last number handed out equal to 1, the end test
  is never met: after the wrap-around the loop goes on with 2.\<close>

lemma loop_diverges:
  assumes "nm_ok im" "lastAllocated im = 1" "\<And>n. 0 < n \<Longrightarrow> n < unat (numCnt im) \<Longrightarrow> \<not> nfree im n"
  shows "1 < k \<Longrightarrow> k \<le> unat (numCnt im) \<Longrightarrow> alloc_loop im (of_nat k) = None"
proof -
  note b = nm_ok_bounds [OF assms(1)]
  let ?P = "\<lambda>jm (p :: u32) (y :: u32 \<times> num_mgr). jm = im \<longrightarrow> 1 < unat p \<longrightarrow> unat p \<le> unat (numCnt im) \<longrightarrow> False"
  have "alloc_loop im' p = Some y \<Longrightarrow> ?P im' p y" for im' p y
  proof (rule alloc_loop.raw_induct [where P = ?P])
    fix f jm p y
    assume 1: "\<And>jm p y. f jm p = Some y \<Longrightarrow> ?P jm p y"
      "(if p = lastAllocated jm then Some (UINT_MAX, jm)
        else let q = (if ucast p = numCnt jm then 1 else p)
             in if \<not> xBitArrayGetBit (nm_ba jm) q
                then Some (q, jm\<lparr>nm_ba := vBitArraySetBit (nm_ba jm) q, lastAllocated := q\<rparr>)
                else f jm (q + 1)) = Some y"
    show "?P jm p y"
    proof (intro impI)
      assume h: "jm = im" "1 < unat p" "unat p \<le> unat (numCnt im)"
      then have np: "p \<noteq> lastAllocated jm" using assms(2) by auto
      let ?q = "if ucast p = numCnt im then 1 else p"
      have q: "0 < unat ?q" "unat ?q < unat (numCnt im)" 
        using h b by (auto simp: ucast_eq_numCnt)
      then have "xBitArrayGetBit (nm_ba im) ?q"
        using assms(3) [of "unat ?q"] by (simp add: nfree_def)
      then have "f jm (?q + 1) = Some y"
        using 1(2) np h(1) by (simp add: Let_def split: if_splits)
      moreover have "unat (?q + 1) = unat ?q + 1"
        by (rule unat_add_1_bound [OF q(2)]) (use b in simp)
      ultimately show False using 1(1) [of jm "?q + 1" y] h(1) q by linarith
    qed
  qed
  from this [of im "of_nat k"] b
  show "1 < k \<Longrightarrow> k \<le> unat (numCnt im) \<Longrightarrow> alloc_loop im (of_nat k) = None"
    by (cases "alloc_loop im (of_nat k)") auto
qed

section \<open>What an allocation returns\<close>

lemma alloc_spec_high:
  assumes "nm_ok im" "lastAllocated im \<noteq> 1" "lastAllocated im \<noteq> 0"
  shows "ulNumMgrAllocate im = search im (candidates im) (Some (UINT_MAX, im))"
proof -
  define l c where "l = unat (lastAllocated im)" and "c = unat (numCnt im)"
  note b = nm_ok_bounds [OF assms(1), folded l_def c_def]
  have l: "l \<noteq> 1" "l \<noteq> 0" using assms(2,3) unfolding l_def
    by (metis unat_1 word_unat_eq_iff) (use assms(3) in \<open>simp add: unat_eq_0\<close>)
  have "ulNumMgrAllocate im = alloc_loop im (of_nat (Suc l))"
    by (simp add: ulNumMgrAllocate_def l_def add.commute)
  also have "... = search im [Suc l ..< c] (alloc_loop im (of_nat c))"
    unfolding c_def by (rule loop_up [OF assms(1)]) (use b in \<open>simp_all add: l_def c_def\<close>)
  also have "alloc_loop im (of_nat c) = search im [1] (alloc_loop im (of_nat 2))"
    using loop_wrap [OF assms(1) c_def] by simp
  also have "alloc_loop im (of_nat 2) = search im [2 ..< l] (Some (UINT_MAX, im))"
    unfolding l_def by (rule loop_low [OF assms(1)]) (use l in \<open>simp_all add: l_def\<close>)
  also have "search im [1] (search im [2 ..< l] (Some (UINT_MAX, im))) = search im [1 ..< l] (Some (UINT_MAX, im))"
    using l by (simp add: upt_conv_Cons numeral_2_eq_2)
  finally show ?thesis
    using l by (simp add: candidates_def search_append flip: l_def c_def)
qed

lemma search_all_taken:
  "find (nfree im) ns = None \<Longrightarrow> search im ns d = d"
  by (simp add: search_def)

lemma search_some:
  "find (nfree im) ns = Some n \<Longrightarrow> search im ns d = Some (of_nat n, take_number im (of_nat n))"
  by (simp add: search_def)

lemma alloc_spec_one:
  assumes "nm_ok im" "lastAllocated im = 1"
  shows "ulNumMgrAllocate im = search im (candidates im) None"
proof -
  define c where "c = unat (numCnt im)"
  note b = nm_ok_bounds [OF assms(1), folded c_def]
  have c2: "2 \<le> c" using b by simp
  have "ulNumMgrAllocate im = alloc_loop im (of_nat 2)"
    by (simp add: ulNumMgrAllocate_def assms(2))
  also have "... = search im [2 ..< c] (alloc_loop im (of_nat c))"
    unfolding c_def by (rule loop_up [OF assms(1)]) (use b c2 assms(2) in \<open>simp_all add: c_def\<close>)
  also have "alloc_loop im (of_nat c) = search im [1] (alloc_loop im (of_nat 2))"
    using loop_wrap [OF assms(1) c_def] by simp
  finally have eq: "ulNumMgrAllocate im = search im (candidates im) (alloc_loop im (of_nat 2))"
    by (simp add: candidates_def assms(2) search_append numeral_2_eq_2 flip: c_def)
  show ?thesis
  proof (cases "find (nfree im) (candidates im)")
    case None
    have "alloc_loop im (of_nat 2) = None"
    proof (rule loop_diverges [OF assms])
      fix n assume "0 < n" "n < unat (numCnt im)"
      then have "n \<in> set (candidates im)" by (cases "n = 1") (auto simp: candidates_def assms(2))
      then show "\<not> nfree im n" using None by (auto simp: find_None_iff)
    qed (use c2 in \<open>simp_all add: c_def\<close>)
    then show ?thesis using eq by simp
  next
    case (Some n)
    then show ?thesis by (simp add: eq search_some)
  qed
qed

lemma alloc_spec_zero:
  assumes "nm_ok im" "lastAllocated im = 0"
  shows "ulNumMgrAllocate im = Some (1, take_number im 1)"
    and "find (nfree im) (candidates im) = Some 1"
proof -
  note b = nm_ok_bounds [OF assms(1)]
  have f: "nfree im n" for n using assms by (simp add: nm_ok_def nfree_def)
  have "ulNumMgrAllocate im = alloc_loop im (of_nat 1)"
    by (simp add: ulNumMgrAllocate_def assms(2))
  also have "... = search im [1] (alloc_loop im (of_nat (Suc 1)))"
    by (rule loop_step [OF assms(1)]) (use b assms(2) in simp_all)
  finally show "ulNumMgrAllocate im = Some (1, take_number im 1)" using f by simp
  show "find (nfree im) (candidates im) = Some 1"
    using f b assms(2) by (simp add: candidates_def upt_conv_Cons)
qed

lemma alloc_cases:
  assumes "nm_ok im"
  shows "ulNumMgrAllocate im =
    search im (candidates im) (if lastAllocated im = 1 then None else Some (UINT_MAX, im))"
  using alloc_spec_high [OF assms] alloc_spec_one [OF assms] alloc_spec_zero [OF assms]
  by (cases "lastAllocated im = 0"; cases "lastAllocated im = 1") (auto simp: search_some)

lemma candidates_range:
  assumes "nm_ok im" "n \<in> set (candidates im)"
  shows "0 < n" "n < unat (numCnt im)"
  using assms nm_ok_bounds [OF assms(1)] by (auto simp: candidates_def Let_def split: if_splits)

lemma find_props: "find P xs = Some x \<Longrightarrow> P x \<and> x \<in> set xs"
  by (auto simp: find_Some_iff in_set_conv_nth)

lemma handed_out_simps:
  assumes "nm_ok im" "unat q < unat (numCnt im)"
  shows "handed_out (take_number im q) = insert q (handed_out im)"
  using assms bits.members_set [of "nm_ba im" q]
  by (simp add: handed_out_def bits.members_def take_number_def nm_ok_def word_less_nat_alt)

lemma take_number_ok:
  assumes "nm_ok im" "0 < n" "n < unat (numCnt im)"
  shows "nm_ok (take_number im (of_nat n))"
proof -
  have n: "n < 2 ^ 32" using assms nm_ok_bounds(2) by (meson less_trans)
  then have "of_nat n \<noteq> (0 :: u32)" using assms(2) u32_eq_of_nat [OF n, of 0] by auto
  then show ?thesis using assms n
    by (simp add: nm_ok_def take_number_def get_set)
qed

lemma alloc_result:
  assumes "nm_ok im" "ulNumMgrAllocate im = Some (q, im')"
  shows "(q = UINT_MAX \<and> im' = im) \<or>
    (\<exists>n. 0 < n \<and> n < unat (numCnt im) \<and> q = of_nat n \<and> nfree im n \<and> im' = take_number im q)"
proof (cases "find (nfree im) (candidates im)")
  case None
  then show ?thesis using assms alloc_cases [OF assms(1)] by (simp add: search_all_taken split: if_splits)
next
  case (Some n)
  then show ?thesis using assms alloc_cases [OF assms(1)] find_props [OF Some] candidates_range [OF assms(1)]
    by (intro disjI2 exI [of _ n]) (auto simp: search_some)
qed

lemma UINT_MAX_not_number:
  "n < unat (numCnt im) \<Longrightarrow> nm_ok im \<Longrightarrow> of_nat n \<noteq> UINT_MAX"
  using nm_ok_bounds(2) [of im] u32_eq_of_nat [of n UINT_MAX] by (auto simp: UINT_MAX_def)

lemma alloc_keeps:
  assumes "nm_ok im" "ulNumMgrAllocate im = Some (q, im')"
  shows "nm_ok im' \<and> numCnt im' = numCnt im"
  using alloc_result [OF assms] take_number_ok [OF assms(1)] assms(1) by (auto simp: take_number_def)

lemma release_keeps:
  assumes "nm_ok im" "xNumMgrRelease im n = (r, im')"
  shows "nm_ok im' \<and> numCnt im' = numCnt im \<and> handed_out im' = handed_out im - {n} \<and> r = (n \<in> handed_out im)"
  using assms by (auto simp: xNumMgrRelease_def nm_ok_def get_clear handed_out_def split: if_splits)

lemma init_ok:
  assumes "pxNumMgrCreate ok1 ok2 n = Some im" "1 \<le> unat n" "unat n < unat UINT_MAX"
  shows "nm_ok im \<and> handed_out im = {} \<and> capacity im = unat n"
proof -
  have s: "unat (n + 1) = unat n + 1" by (rule unat_add_1_bound [OF assms(3)]) (simp add: UINT_MAX_def)
  have "unat (ucast (n + 1) :: u32) = unat (n + 1)"
    using assms(3) s by (simp add: unsigned_ucast_eq unsigned_take_bit_eq take_bit_nat_eq_self UINT_MAX_def)
  then show ?thesis using assms s
    by (auto simp: pxNumMgrCreate_def xNumMgrInit_def nm_ok_def capacity_def handed_out_def UINT_MAX_def
        dest!: alloc_ok split: if_splits option.splits)
qed

lemma taken_nat_word:
  assumes "nm_ok im"
  shows "(\<forall>n \<in> {n. 0 < n \<and> n < unat (numCnt im)}. \<not> nfree im n) =
    (\<forall>n. 0 < n \<longrightarrow> unat n \<le> capacity im \<longrightarrow> n \<in> handed_out im)" (is "?l = ?r")
proof
  assume l: ?l
  show ?r
  proof (intro allI impI)
    fix n :: u32 assume "0 < n" "unat n \<le> capacity im"
    then have "unat n \<in> {n. 0 < n \<and> n < unat (numCnt im)}"
      using nm_ok_bounds(3) [OF assms] by (simp add: capacity_def word_less_nat_alt)
    then show "n \<in> handed_out im" using l by (force simp: nfree_def handed_out_def)
  qed
next
  assume r: ?r
  show ?l
  proof
    fix n assume "n \<in> {n. 0 < n \<and> n < unat (numCnt im)}"
    then have n: "0 < n" "n < unat (numCnt im)" "n < 2 ^ 32"
      using nm_ok_bounds(2) [OF assms] by auto
    then have "(0 :: u32) < of_nat n" by (simp add: word_less_nat_alt)
    then have "of_nat n \<in> handed_out im" using r n by (simp add: capacity_def)
    then show "\<not> nfree im n" by (simp add: nfree_def handed_out_def)
  qed
qed

section \<open>Histories\<close>

text \<open>What a client sees of a manager over time.\<close>

datatype nm_event = Given u32 | Refused | Returned u32 | NotReturned u32

inductive nm_run :: "num_mgr \<Rightarrow> nm_event list \<Rightarrow> num_mgr \<Rightarrow> bool" where
  run_nil: "nm_run im [] im"
| run_alloc: "ulNumMgrAllocate im = Some (q, im') \<Longrightarrow> nm_run im' es im'' \<Longrightarrow>
    nm_run im ((if q = UINT_MAX then Refused else Given q) # es) im''"
| run_release: "xNumMgrRelease im n = (r, im') \<Longrightarrow> nm_run im' es im'' \<Longrightarrow>
    nm_run im ((if r then Returned n else NotReturned n) # es) im''"

inductive_cases run_NilE: "nm_run im [] im'"
inductive_cases run_ConsE: "nm_run im (e # es) im'"

lemma run_keeps: "nm_run im es im' \<Longrightarrow> nm_ok im \<Longrightarrow> nm_ok im' \<and> numCnt im' = numCnt im"
proof (induction rule: nm_run.induct)
  case (run_alloc im q im' es im'')
  then show ?case using alloc_keeps [of im q im'] by simp
next
  case (run_release im n r im' es im'')
  then show ?case using release_keeps [of im n r im'] by simp
qed simp

lemma run_append: "nm_run im (as @ bs) im' \<Longrightarrow> \<exists>mid. nm_run im as mid \<and> nm_run mid bs im'"
proof (induction as arbitrary: im)
  case Nil
  then show ?case using run_nil by auto
next
  case (Cons a as)
  from Cons.prems have "nm_run im (a # (as @ bs)) im'" by simp
  then show ?case
  proof (cases rule: run_ConsE [consumes 1])
    case (1 q jm)
    from Cons.IH [OF 1(3)] obtain mid where "nm_run jm as mid" "nm_run mid bs im'" by blast
    then show ?thesis using nm_run.run_alloc [OF 1(2)] unfolding 1(1) by blast
  next
    case (2 n r jm)
    from Cons.IH [OF 2(3)] obtain mid where "nm_run jm as mid" "nm_run mid bs im'" by blast
    then show ?thesis using nm_run.run_release [OF 2(2)] unfolding 2(1) by blast
  qed
qed

lemma alloc_handed_out:
  assumes "nm_ok im" "ulNumMgrAllocate im = Some (q, im')" "q \<noteq> UINT_MAX"
  shows "q \<notin> handed_out im" "handed_out im' = insert q (handed_out im)"
  using alloc_result [OF assms(1,2)] assms(1,3) handed_out_simps [OF assms(1), of q] nm_ok_bounds [OF assms(1)]
  by (auto simp: handed_out_def nfree_def)

lemma run_keeps_number:
  "nm_run im es im' \<Longrightarrow> nm_ok im \<Longrightarrow> q \<in> handed_out im \<Longrightarrow> Returned q \<notin> set es \<Longrightarrow> q \<in> handed_out im'"
proof (induction rule: nm_run.induct)
  case (run_alloc im p im' es im'')
  have "q \<in> handed_out im'"
    using run_alloc alloc_handed_out(2) [of im p im'] alloc_result [of im p im']
    by (cases "p = UINT_MAX") (auto dest: UINT_MAX_not_number)
  then show ?case using run_alloc.IH run_alloc.prems alloc_keeps [OF run_alloc.prems(1) run_alloc.hyps(1)] by simp
next
  case (run_release im n r im' es im'')
  note k = release_keeps [OF run_release.prems(1) run_release.hyps(1)]
  have "q = n \<Longrightarrow> r" using k run_release.prems(2) by simp
  then have "q \<noteq> n" using run_release.prems(3) by auto
  then have "q \<in> handed_out im'" using k run_release.prems(2) by simp
  then show ?case using run_release.IH k run_release.prems(3) by simp
qed simp

lemma run_given:
  assumes "nm_run im (Given q # es) im'" "nm_ok im"
  obtains mid where "ulNumMgrAllocate im = Some (q, mid)" "q \<noteq> UINT_MAX" "nm_run mid es im'" "nm_ok mid"
  using assms(1) by (rule run_ConsE) (auto split: if_splits dest: alloc_keeps [OF assms(2)] intro: that)

section \<open>Properties\<close>

text \<open>\<^verbatim>\<open>ulNumMgrAllocate\<close> hands out the first number not taken in the order after the
  last number handed out, wrapping around, and takes it; when none of those is
  free it returns \<open>UINT_MAX\<close> with the state unchanged, except that it never
  returns when the last number handed out is 1.\<close>

theorem allocate_next_free:
  assumes "nm_ok im"
  shows "ulNumMgrAllocate im =
    (case find (\<lambda>n. \<not> xNumMgrIsAllocated im (of_nat n)) (candidates im) of
       Some n \<Rightarrow> Some (of_nat n, im\<lparr>nm_ba := vBitArraySetBit (nm_ba im) (of_nat n),
                                   lastAllocated := of_nat n\<rparr>)
     | None \<Rightarrow> (if lastAllocated im = 1 then None else Some (UINT_MAX, im)))"
proof -
  have "nfree im = (\<lambda>n. \<not> xNumMgrIsAllocated im (of_nat n))"
    by (simp add: fun_eq_iff nfree_def xNumMgrIsAllocated_def)
  then show ?thesis using alloc_cases [OF assms] unfolding search_def take_number_def by simp
qed

text \<open>C27. \<^verbatim>\<open>ulNumMgrAllocate\<close> fails to return in exactly one situation: every number is
  handed out and the last one was 1.  (The comment of the loop says that it stops
  when it reaches the last number again.)\<close>

theorem allocate_returns_iff:
  assumes "nm_ok im"
  shows "(ulNumMgrAllocate im = None) =
    (lastAllocated im = 1 \<and> (\<forall>n. 0 < n \<longrightarrow> unat n \<le> capacity im \<longrightarrow> n \<in> handed_out im))"
proof (cases "lastAllocated im = 1")
  case True
  have "(ulNumMgrAllocate im = None) = (find (nfree im) (candidates im) = None)"
    using alloc_cases [OF assms] True by (simp add: search_def split: option.split)
  also have "... = (\<forall>n \<in> set (candidates im). \<not> nfree im n)"
    by (auto simp: find_None_iff)
  also have "set (candidates im) = {n. 0 < n \<and> n < unat (numCnt im)}"
    using True nm_ok_bounds [OF assms] by (auto simp: candidates_def)
  also have "(\<forall>n \<in> {n. 0 < n \<and> n < unat (numCnt im)}. \<not> nfree im n) =
      (\<forall>n. 0 < n \<longrightarrow> unat n \<le> capacity im \<longrightarrow> n \<in> handed_out im)"
    by (rule taken_nat_word [OF assms])
  finally show ?thesis using True by simp
next
  case False
  then show ?thesis using alloc_cases [OF assms] by (auto simp: search_def split: option.splits)
qed

lemma allocate_returns_iff_witness:
  "ulNumMgrAllocate \<lparr>numCnt = 3, lastAllocated = 1, nm_ba = \<lparr>nbbits = 3, units = [6]\<rparr>\<rparr> = None"
proof -
  let ?im = "\<lparr>numCnt = 3, lastAllocated = 1, nm_ba = \<lparr>nbbits = 3, units = [6]\<rparr>\<rparr>"
  have g: "nm_ok ?im" by (simp add: nm_ok_def ba_ok_def xBitArrayGetBit_def bit_of_def unit_of_def BITS_PER_UNIT_def)
  have "n = 1 \<or> n = 2" if "0 < n" "unat n \<le> 2" for n :: u32
  proof -
    have "unat n = 1 \<or> unat n = 2" using that by (simp add: word_less_nat_alt) linarith
    then show ?thesis using u32_eq_of_nat [of 1 n] u32_eq_of_nat [of 2 n] by simp
  qed
  moreover have "1 \<in> handed_out ?im" "2 \<in> handed_out ?im"
    by (simp_all add: handed_out_def xBitArrayGetBit_def bit_of_def unit_of_def BITS_PER_UNIT_def)
  moreover have "capacity ?im = 2" by (simp add: capacity_def)
  ultimately have "0 < n \<longrightarrow> unat n \<le> capacity ?im \<longrightarrow> n \<in> handed_out ?im" for n by metis
  then show ?thesis using allocate_returns_iff [OF g] by simp
qed

text \<open>C24. Along any history of a number manager, a number that was handed out is handed
  out again only after it was returned in between.\<close>

theorem no_number_given_twice:
  assumes "pxNumMgrCreate ok1 ok2 n = Some im" "1 \<le> unat n" "unat n < unat UINT_MAX"
    and "nm_run im (as @ Given q # bs @ Given q # cs) im'"
  shows "Returned q \<in> set bs"
proof (rule ccontr)
  assume no: "Returned q \<notin> set bs"
  have ok: "nm_ok im" using init_ok [OF assms(1-3)] by simp
  obtain m1 where m1: "nm_run im as m1" "nm_run m1 (Given q # bs @ Given q # cs) im'"
    using run_append [OF assms(4)] by blast
  then have "nm_ok m1" using run_keeps ok by blast
  with m1(2) obtain m2 where m2: "ulNumMgrAllocate m1 = Some (q, m2)" "q \<noteq> UINT_MAX"
      "nm_run m2 (bs @ Given q # cs) im'" "nm_ok m2"
    by (rule run_given)
  then have in2: "q \<in> handed_out m2" using alloc_handed_out [OF \<open>nm_ok m1\<close>] by simp
  obtain m3 where m3: "nm_run m2 bs m3" "nm_run m3 (Given q # cs) im'"
    using run_append [OF m2(3)] by blast
  then have "nm_ok m3" "q \<in> handed_out m3"
    using run_keeps m2(4) run_keeps_number [OF _ m2(4) in2 no] by auto
  obtain m4 where "ulNumMgrAllocate m3 = Some (q, m4)" "q \<noteq> UINT_MAX"
    using run_given [OF m3(2) \<open>nm_ok m3\<close>] by blast
  then show False using alloc_handed_out(1) \<open>nm_ok m3\<close> \<open>q \<in> handed_out m3\<close> by blast
qed

lemma no_number_given_twice_witness:
  "\<exists>im im'. pxNumMgrCreate True True 1 = Some im \<and>
    nm_run im [Given 1, Returned 1, Given 1] im' \<and> Returned 1 \<in> set [Returned (1 :: u32)]"
proof -
  let ?im = "\<lparr>numCnt = 2, lastAllocated = 0, nm_ba = \<lparr>nbbits = 2, units = [0]\<rparr>\<rparr>"
  let ?u = "\<lparr>numCnt = 2, lastAllocated = 1, nm_ba = \<lparr>nbbits = 2, units = [2]\<rparr>\<rparr>"
  let ?v = "\<lparr>numCnt = 2, lastAllocated = 1, nm_ba = \<lparr>nbbits = 2, units = [0]\<rparr>\<rparr>"
  note ds = xBitArrayGetBit_def bit_of_def unit_of_def BITS_PER_UNIT_def vBitArraySetBit_def
    vBitArrayClearBit_def
  have c: "pxNumMgrCreate True True 1 = Some ?im"
    by (simp add: pxNumMgrCreate_def xNumMgrInit_def pxBitArrayAlloc_def BITS_PER_UNIT_def UINT_MAX_def)
  have a: "ulNumMgrAllocate ?im = Some (1, ?u)"
    by (simp add: ulNumMgrAllocate_def alloc_loop.simps [of ?im] ds)
  have b: "xNumMgrRelease ?u 1 = (True, ?v)"
    by (simp add: xNumMgrRelease_def ds)
  have d: "ulNumMgrAllocate ?v = Some (1, ?u)"
    by (simp add: ulNumMgrAllocate_def alloc_loop.simps [of ?v] ds)
  have "nm_run ?im ([] @ Given 1 # [Returned 1] @ Given 1 # []) ?u"
    using run_alloc [OF a run_release [OF b run_alloc [OF d run_nil]]] by (simp add: UINT_MAX_def)
  moreover from no_number_given_twice [OF c _ _ this] have "Returned 1 \<in> set [Returned (1 :: u32)]"
    by (simp add: UINT_MAX_def)
  ultimately show ?thesis using c by auto
qed

end
