(* ===== verification/Rs_Error.thy ===== *)
theory Rs_Error
  imports Prelude
begin

text \<open>Error codes (\<^verbatim>\<open>common/rinasense_errors.h\<close>), the chain of error records kept per
  thread and the message tables (\<^verbatim>\<open>common/error.c\<close>, \<^verbatim>\<open>common/rinasense_errors.c\<close>).  The
  other theories return these errors as the left summand of a result.\<close>

section \<open>Codes\<close>

datatype rs_err =
    ERR_ERR | ERR_OOM | ERR_BAD_ARG | ERR_PTHREAD | ERR_ERRNO | ERR_OVERFLOW | ERR_UNDERFLOW
  | ERR_TIMEDOUT
  | ERR_GPA_INVALID | ERR_GHA_INVALID
  | ERR_NETBUF_SPLIT_FAIL
  | ERR_SERDES_ENCODING_FAIL | ERR_SERDES_DECODING_FAIL
  | ERR_RIB_TABLE_FULL | ERR_RIB_NOT_PENDING | ERR_RIB_NEIGHBOR_NOT_FOUND
  | ERR_RIB_TOO_MANY_CONNECTIONS | ERR_RIB_NO_SUCH_CONNECTION | ERR_RIB_OBJECT_UNSUPPORTED
  | ERR_RIB_OBJECT_UNSUP_METHOD | ERR_RIB_BAD_CONNECTION_STATE | ERR_RIB_CONNECTION_EXISTS
  | ERR_RIB_TIMEOUT
  | ERR_ENROLLMENT_INBOUND_FAIL

type_synonym 'a res = "rs_err + 'a"

text \<open>What a function that only returns an error code returns: \<open>None\<close> is success.\<close>

type_synonym status = "rs_err option"

text \<open>The outcome of a function that may also leave its memory: \<open>Crash\<close> is an access outside
  of a block or through a pointer that was never set, or a failed assertion; \<open>Blocked\<close> is a function
  that waits for what its own thread would have to do, such as taking a mutex it holds.\<close>

datatype 'a outcome = Crash | Blocked | Fail rs_err | Done 'a

fun obind :: "'a outcome \<Rightarrow> ('a \<Rightarrow> 'b outcome) \<Rightarrow> 'b outcome" where
  "obind Crash f = Crash"
| "obind Blocked f = Blocked"
| "obind (Fail e) f = Fail e"
| "obind (Done x) f = f x"

definition of_res :: "'a res \<Rightarrow> 'a outcome" where
  "of_res r = (case r of Inl e \<Rightarrow> Fail e | Inr x \<Rightarrow> Done x)"

definition of_opt :: "rs_err \<Rightarrow> 'a option \<Rightarrow> 'a outcome" where
  "of_opt e r = (case r of None \<Rightarrow> Fail e | Some x \<Rightarrow> Done x)"

definition or_crash :: "'a option \<Rightarrow> 'a outcome" where
  "or_crash r = (case r of None \<Rightarrow> Crash | Some x \<Rightarrow> Done x)"

lemma outcome_simps [simp]:
  "of_res (Inl e) = Fail e" "of_res (Inr x) = Done x" "of_opt e None = Fail e" "of_opt e (Some x) = Done x"
  "or_crash None = Crash" "or_crash (Some x) = Done x"
  by (simp_all add: of_res_def of_opt_def or_crash_def)

lemma obind_Done: "(obind r f = Done y) = (\<exists>x. r = Done x \<and> f x = Done y)"
  by (cases r) auto

definition mk_cat :: "u32 \<Rightarrow> u32" where
  "mk_cat c = push_bit 24 c"

definition mk_err :: "u32 \<Rightarrow> u32 \<Rightarrow> u32" where
  "mk_err cat e = cat OR e"

fun err_c :: "rs_err \<Rightarrow> u32" where
  "err_c ERR_ERR = mk_err (mk_cat 0) 0x01"
| "err_c ERR_OOM = mk_err (mk_cat 0) 0x02"
| "err_c ERR_BAD_ARG = mk_err (mk_cat 0) 0x03"
| "err_c ERR_PTHREAD = mk_err (mk_cat 0) 0x04"
| "err_c ERR_ERRNO = mk_err (mk_cat 0) 0x05"
| "err_c ERR_OVERFLOW = mk_err (mk_cat 0) 0x06"
| "err_c ERR_UNDERFLOW = mk_err (mk_cat 0) 0x07"
| "err_c ERR_TIMEDOUT = mk_err (mk_cat 0) 0x08"
| "err_c ERR_GPA_INVALID = mk_err (mk_cat 1) 0x01"
| "err_c ERR_GHA_INVALID = mk_err (mk_cat 1) 0x02"
| "err_c ERR_NETBUF_SPLIT_FAIL = mk_err (mk_cat 2) 0x01"
| "err_c ERR_SERDES_ENCODING_FAIL = mk_err (mk_cat 3) 0x01"
| "err_c ERR_SERDES_DECODING_FAIL = mk_err (mk_cat 3) 0x02"
| "err_c ERR_RIB_TABLE_FULL = mk_err (mk_cat 4) 0x01"
| "err_c ERR_RIB_NOT_PENDING = mk_err (mk_cat 4) 0x02"
| "err_c ERR_RIB_NEIGHBOR_NOT_FOUND = mk_err (mk_cat 4) 0x03"
| "err_c ERR_RIB_TOO_MANY_CONNECTIONS = mk_err (mk_cat 4) 0x04"
| "err_c ERR_RIB_NO_SUCH_CONNECTION = mk_err (mk_cat 4) 0x05"
| "err_c ERR_RIB_OBJECT_UNSUPPORTED = mk_err (mk_cat 4) 0x06"
| "err_c ERR_RIB_OBJECT_UNSUP_METHOD = mk_err (mk_cat 4) 0x07"
| "err_c ERR_RIB_BAD_CONNECTION_STATE = mk_err (mk_cat 4) 0x08"
| "err_c ERR_RIB_CONNECTION_EXISTS = mk_err (mk_cat 4) 0x09"
| "err_c ERR_RIB_TIMEOUT = mk_err (mk_cat 4) 0x10"
| "err_c ERR_ENROLLMENT_INBOUND_FAIL = mk_err (mk_cat 5) 0x01"

definition ERR_CHK :: "u32 \<Rightarrow> bool" where
  "ERR_CHK c = (c \<noteq> 0)"

text \<open>\<open>None\<close> is the call to \<^verbatim>\<open>abort\<close>.\<close>

definition err_chk_mem :: "u32 \<Rightarrow> bool option" where
  "err_chk_mem c =
    (if c = 0 then Some False
     else if c AND err_c ERR_OOM = err_c ERR_OOM then Some True
     else None)"

section \<open>Messages\<close>

text \<open>The two literals of codes 4 and 5 of the RIB are adjacent in the source, so the
  compiler joins them into one entry.\<close>

definition GenericErrorMessages :: "string list" where
  "GenericErrorMessages =
    [''Unknown error'', ''Out of memory'', ''Bad arguments'', ''pthread error: %d'',
     ''System error: %d'', ''Overflow'', ''Underflow'', ''Timeout'']"

definition GpaErrorMessages :: "string list" where
  "GpaErrorMessages =
    [''Invalid GPA (General Protocol Address)'', ''Invalid GHA (General Hardware Address)'']"

definition NetBufsMessages :: "string list" where
  "NetBufsMessages = [''Failed to split netbufs'']"

definition SerDesMessages :: "string list" where
  "SerDesMessages = [''Encoding failed'', ''Decoding failed'']"

definition RibErrorMessages :: "string list" where
  "RibErrorMessages =
    [''RIB object table is full'',
     ''No pending RIB requests found for invoke ID %d'',
     ''Neighbor %s was not found'',
     ''Too many active connections'' @ ''No such connection'',
     ''Unsupported RIB object: '' @ [CHR 0x27] @ ''%s'' @ [CHR 0x27],
     ''Unsupported method %s on RIB object '' @ [CHR 0x27] @ ''%s'' @ [CHR 0x27],
     ''Invalid connection state'',
     ''Connection already exists'',
     ''Timed out'']"

definition EnrollmentErrorMessages :: "string list" where
  "EnrollmentErrorMessages = [''Inbound enrollment process failed'']"

definition ErrorMessages :: "string list list" where
  "ErrorMessages =
    [GenericErrorMessages, GpaErrorMessages, NetBufsMessages, SerDesMessages, RibErrorMessages,
     EnrollmentErrorMessages]"

text \<open>\<open>None\<close> is a read outside of the tables.\<close>

definition xErrorGetMsg :: "u32 \<Rightarrow> string option" where
  "xErrorGetMsg c =
    (let l1 = unat (drop_bit 24 c); l2 = unat (c AND 0xFF) in
     if l1 < length ErrorMessages \<and> 1 \<le> l2 \<and> l2 - 1 < length (ErrorMessages ! l1)
     then Some (ErrorMessages ! l1 ! (l2 - 1)) else None)"

section \<open>The error chain\<close>

record err_info =
  pcFile :: bytes
  unLine :: u32
  unErrCode :: u32
  pcErrMsg :: bytes

definition FILE_SZ :: nat where "FILE_SZ = 255"
definition MSG_SZ :: nat where "MSG_SZ = 50"

text \<open>The thread's chain, most recent error first; \<open>old\<close> is the recycled pool entry the
  new record is written into.\<close>

type_synonym err_chain = "err_info list"

definition prvErrorSetNew :: "err_info \<Rightarrow> bytes option \<Rightarrow> u32 \<Rightarrow> u32 \<Rightarrow> err_info" where
  "prvErrorSetNew old file line code =
    (let e = old\<lparr>unLine := line, unErrCode := code\<rparr> in
     case file of
       None \<Rightarrow> e
     | Some f \<Rightarrow> e\<lparr>pcFile := (strncpy f (FILE_SZ - 1) @ drop (FILE_SZ - 1) (pcFile old))[MSG_SZ - 1 := 0]\<rparr>)"

definition prvErrorSetNew_s :: "err_info \<Rightarrow> bytes option \<Rightarrow> u32 \<Rightarrow> u32 \<Rightarrow> bytes option \<Rightarrow> err_info" where
  "prvErrorSetNew_s old file line code msg =
    (let e = prvErrorSetNew old file line code in
     case msg of
       Some t \<Rightarrow> e\<lparr>pcErrMsg := (strncpy t MSG_SZ)[MSG_SZ - 1 := 0]\<rparr>
     | None \<Rightarrow> e\<lparr>pcErrMsg := 0 # drop 1 (pcErrMsg e)\<rparr>)"

definition vErrorClear :: "err_chain \<Rightarrow> err_chain" where
  "vErrorClear ch = []"

definition xErrorPush ::
  "err_info \<Rightarrow> bytes option \<Rightarrow> u32 \<Rightarrow> u32 \<Rightarrow> bytes option \<Rightarrow> err_chain \<Rightarrow> u32 \<times> err_chain" where
  "xErrorPush old file line code msg ch = (code, prvErrorSetNew_s old file line code msg # ch)"

definition xErrorSet ::
  "err_info \<Rightarrow> bytes option \<Rightarrow> u32 \<Rightarrow> u32 \<Rightarrow> bytes option \<Rightarrow> err_chain \<Rightarrow> u32 \<times> err_chain" where
  "xErrorSet old file line code msg ch =
    (let ch1 = (if ch \<noteq> [] then vErrorClear ch else ch) in
     (code, prvErrorSetNew_s old file line code msg # ch1))"

text \<open>\<open>sys\<close> is the message \<^verbatim>\<open>strerror_r\<close> gives for the number, when it has one.\<close>

definition xErrorSetErrno ::
  "(u32 \<Rightarrow> bytes option) \<Rightarrow> err_info \<Rightarrow> bytes option \<Rightarrow> u32 \<Rightarrow> u32 \<Rightarrow> err_chain \<Rightarrow> u32 \<times> err_chain" where
  "xErrorSetErrno sys old file line errno ch =
    (let ch1 = (if ch \<noteq> [] then vErrorClear ch else ch);
         code = err_c ERR_ERRNO AND push_bit 24 errno in
     case sys errno of
       Some t \<Rightarrow> (code, prvErrorSetNew_s old file line code (Some t) # ch1)
     | None \<Rightarrow> (code, prvErrorSetNew old file line code # ch1))"

definition xErrorGet :: "err_chain \<Rightarrow> err_info option" where
  "xErrorGet ch = (case ch of [] \<Rightarrow> None | e # _ \<Rightarrow> Some e)"

definition ERR_IS :: "u32 \<Rightarrow> rs_err \<Rightarrow> err_chain \<Rightarrow> bool" where
  "ERR_IS x t ch =
    (ERR_CHK x \<and> (case xErrorGet ch of None \<Rightarrow> False | Some e \<Rightarrow> unErrCode e = err_c t))"

definition ei_ok :: "err_info \<Rightarrow> bool" where [wf_defs]:
  "ei_ok e = (length (pcFile e) = FILE_SZ \<and> length (pcErrMsg e) = MSG_SZ)"

section \<open>Lemmas\<close>

declare err_c.simps [simp del]

lemma low_and_high: "take_bit 24 x AND push_bit 24 e = (0 :: u32)"
  by (rule bit_eqI) (auto simp: bit_and_iff bit_push_bit_iff bit_take_bit_iff)

lemma errno_code_zero: "err_c ERR_ERRNO AND push_bit 24 e = 0"
proof -
  have "err_c ERR_ERRNO = take_bit 24 5" by (simp add: err_c.simps mk_cat_def mk_err_def)
  then show ?thesis using low_and_high by metis
qed

lemma err_c_nonzero: "err_c t \<noteq> 0"
  by (cases t) (simp_all add: err_c.simps mk_cat_def mk_err_def)

lemma err_c_inj: "err_c s = err_c t \<Longrightarrow> s = t"
  by (cases s; cases t) (simp_all add: err_c.simps mk_cat_def mk_err_def)

lemma set_new_code: "unErrCode (prvErrorSetNew old f l c) = c"
  by (simp add: prvErrorSetNew_def Let_def split: option.split)

lemma set_new_s_code: "unErrCode (prvErrorSetNew_s old f l c t) = c"
  by (simp add: prvErrorSetNew_s_def Let_def set_new_code split: option.split)

lemma set_new_ok: "ei_ok old \<Longrightarrow> ei_ok (prvErrorSetNew old f l c)"
  by (simp add: prvErrorSetNew_def wf_defs FILE_SZ_def MSG_SZ_def Let_def split: option.split)

lemma set_new_s_ok: "ei_ok old \<Longrightarrow> ei_ok (prvErrorSetNew_s old f l c t)"
  using set_new_ok [of old f l c]
  by (auto simp: prvErrorSetNew_s_def wf_defs MSG_SZ_def Let_def split: option.split)

lemma cstring_terminated:
  assumes "n < m" "m \<le> length p"
  shows "cstring ((strncpy t m @ q)[n := 0]) = take n (cstring t)"
proof -
  let ?c = "take n (cstring t)"
  let ?s = "strncpy t m"
  have c0: "0 \<notin> set ?c" using cstring_no_nul by (metis in_set_takeD)
  have "take n ?s = strncpy t n"
    using assms(1) by (auto simp: strncpy_def Let_def min_def)
  moreover have "(?s @ q)[n := 0] = take n ?s @ 0 # drop (Suc n) (?s @ q)"
    using assms by (simp add: upd_conv_take_nth_drop)
  moreover have "cstring (strncpy t n @ 0 # r) = ?c" for r
    using c0 by (cases "n - length (cstring t)") (simp_all add: strncpy_def Let_def cstring_app)
  ultimately show ?thesis by simp
qed

section \<open>Properties\<close>

text \<open>A record set from \<^verbatim>\<open>errno\<close> always carries, and the caller always gets, the code 0:
  every function that ends with \<^verbatim>\<open>return ERR_SET_ERRNO\<close> reports success to a
  caller that tests with \<^verbatim>\<open>ERR_CHK\<close>, although the chain holds exactly one record.\<close>

theorem errno_reported_as_success:
  "\<not> ERR_CHK (fst (xErrorSetErrno sys old file line errno ch)) \<and>
   (\<exists>e. snd (xErrorSetErrno sys old file line errno ch) = [e] \<and> unErrCode e = 0 \<and> unLine e = line)"
  by (simp add: xErrorSetErrno_def ERR_CHK_def errno_code_zero vErrorClear_def prvErrorSetNew_s_def
      prvErrorSetNew_def Let_def split: option.split)

text \<open>Setting an error leaves exactly one record, pushing one keeps the earlier records
  under the new one; in both cases the caller gets the code back, \<^verbatim>\<open>ERR_IS\<close> recognises
  it, and the record holds the file name and the message as C strings cut at 49
  characters (the file name too, although its buffer has 255).\<close>

theorem error_set_and_push:
  assumes "ei_ok old" "(if push then xErrorPush else xErrorSet) old (Some f) l (err_c t) (Some msg) ch = (c, ch')"
  shows "c = err_c t \<and> ERR_IS c t ch' \<and> (s \<noteq> t \<longrightarrow> \<not> ERR_IS c s ch') \<and>
    (\<exists>e. ei_ok e \<and> unLine e = l \<and> cstring (pcFile e) = take 49 (cstring f) \<and>
      cstring (pcErrMsg e) = take 49 (cstring msg) \<and>
      ch' = (if push then e # ch else [e]))"
proof -
  let ?e = "prvErrorSetNew_s old (Some f) l (err_c t) (Some msg)"
  have ok: "ei_ok ?e" by (rule set_new_s_ok [OF assms(1)])
  have m: "cstring (pcErrMsg ?e) = take 49 (cstring msg)"
    using cstring_terminated [of 49 50 "replicate 50 0" msg "[]"]
    by (simp add: prvErrorSetNew_s_def prvErrorSetNew_def MSG_SZ_def Let_def)
  have f: "cstring (pcFile ?e) = take 49 (cstring f)"
    using cstring_terminated [of 49 254 "replicate 254 0" f "drop 254 (pcFile old)"]
    by (simp add: prvErrorSetNew_s_def prvErrorSetNew_def MSG_SZ_def FILE_SZ_def Let_def)
  have l: "unLine ?e = l" by (simp add: prvErrorSetNew_s_def prvErrorSetNew_def Let_def)
  have ch': "c = err_c t" "ch' = (if push then ?e # ch else [?e])"
    using assms(2) by (auto simp: xErrorSet_def xErrorPush_def vErrorClear_def Let_def split: if_splits)
  have "xErrorGet ch' = Some ?e" by (simp add: ch'(2) xErrorGet_def)
  then show ?thesis using ok m f l ch' err_c_nonzero err_c_inj
    by (auto simp: ERR_IS_def ERR_CHK_def set_new_s_code intro!: exI [of _ ?e])
qed

text \<open>Every code of \<^verbatim>\<open>rinasense_errors.h\<close> has a message in the tables except
  \<open>ERR_RIB_TIMEOUT\<close>, whose lookup reads past the end of the RIB's table, and the codes
  5 to 9 of the RIB get the message of the code after them.\<close>

theorem messages_of_codes:
  "(xErrorGetMsg (err_c t) = None) = (t = ERR_RIB_TIMEOUT) \<and>
   xErrorGetMsg (err_c ERR_OOM) = Some ''Out of memory'' \<and>
   xErrorGetMsg (err_c ERR_RIB_NO_SUCH_CONNECTION) = Some (RibErrorMessages ! 4) \<and>
   xErrorGetMsg (err_c ERR_RIB_BAD_CONNECTION_STATE) = Some ''Connection already exists'' \<and>
   xErrorGetMsg (err_c ERR_RIB_CONNECTION_EXISTS) = Some ''Timed out''"
  by (cases t) (simp_all add: err_c.simps xErrorGetMsg_def mk_cat_def mk_err_def ErrorMessages_def
      GenericErrorMessages_def GpaErrorMessages_def NetBufsMessages_def SerDesMessages_def
      RibErrorMessages_def EnrollmentErrorMessages_def Let_def)

end
