(* ===== verification/Netbuf.thy ===== *)
theory Netbuf
  imports Rs_Error
begin

text \<open>Network buffers (\<^verbatim>\<open>common/netbuf.c\<close>): chains of segments over shared underlying buffers.
  Segments live in a store of addresses, since operations work on one segment of a
  chain and change the others.  An access to a segment or buffer that is not there
  (never allocated, or released) is \<open>None\<close>, and so is a walk over a chain that does not end.\<close>

section \<open>Model\<close>

datatype nb_type = NB_UNKNOWN | NB_ETH_HDR | NB_ETH_DATA | NB_RINA_ARP | NB_RINA_PCI | NB_RINA_DATA

datatype nb_method = FreeNormal | FreePool | FreeButDont

record netbuf =
  pxNext :: "nat option"
  pxFirst :: nat
  eType :: nb_type
  unSz :: nat
  pxBuf :: "(nat \<times> nat) option"
  pxBufStart :: "nat option"
  xFreed :: bool
  freemethod :: "nb_method option"

type_synonym cells = "nat \<Rightarrow> netbuf option"

record nb_state =
  cells :: cells
  bufs :: "nat \<Rightarrow> bytes option"

definition put :: "nb_state \<Rightarrow> nat \<Rightarrow> netbuf \<Rightarrow> nb_state" where
  "put st a nb = st\<lparr>cells := (cells st)(a := Some nb)\<rparr>"

text \<open>The addresses a \<^verbatim>\<open>FOREACH_ALL_NETBUF\<close> loop visits.\<close>

partial_function (option) walk :: "cells \<Rightarrow> nat option \<Rightarrow> nat list option" where
  "walk h p =
    (case p of
       None \<Rightarrow> Some []
     | Some a \<Rightarrow>
         (case h a of
            None \<Rightarrow> None
          | Some nb \<Rightarrow> Option.bind (walk h (pxNext nb)) (\<lambda>xs. Some (a # xs))))"

definition chain_of :: "nb_state \<Rightarrow> nat \<Rightarrow> nat list option" where
  "chain_of st a = (case cells st a of None \<Rightarrow> None | Some nb \<Rightarrow> walk (cells st) (Some (pxFirst nb)))"

definition cell :: "nb_state \<Rightarrow> nat \<Rightarrow> netbuf" where
  "cell st a = the (cells st a)"

text \<open>The segments of a \<^verbatim>\<open>FOREACH_NETBUF\<close> loop.\<close>

definition live :: "nb_state \<Rightarrow> nat list \<Rightarrow> nat list" where
  "live st xs = List.filter (\<lambda>x. \<not> xFreed (cell st x)) xs"

text \<open>\<open>a\<close> is the address \<^verbatim>\<open>pvRsMemAlloc\<close> returned for the new segment.  A size of 0 fails an assertion
  (\<open>None\<close>).  The pool of the segments, which only a build with \<^verbatim>\<open>CONFIG_NETBUF_USES_POOLS\<close> allocates from, is not
  part of a segment here; the assertion that there is one is with the callers.\<close>

definition pxNetBufNew ::
  "nat option \<Rightarrow> nb_type \<Rightarrow> nat \<Rightarrow> nat \<Rightarrow> nb_method option \<Rightarrow> nb_state \<Rightarrow> (nat \<times> nb_state) res option" where
  "pxNetBufNew a t b sz m st =
    (if sz = 0 then None
     else Some
       (case a of
          None \<Rightarrow> Inl ERR_OOM
        | Some x \<Rightarrow> Inr (x, put st x
            \<lparr>pxNext = None, pxFirst = x, eType = t, unSz = sz, pxBuf = Some (b, 0),
             pxBufStart = Some b, xFreed = False, freemethod = m\<rparr>)))"

text \<open>\<^verbatim>\<open>eNetBufType\<close> asserts that the segment is not freed, and its callers assert the type: whether both hold.\<close>

definition nb_is :: "nb_type \<Rightarrow> netbuf \<Rightarrow> bool" where
  "nb_is t nb \<longleftrightarrow> \<not> xFreed nb \<and> eType nb = t"

fun split_loop :: "nb_state \<Rightarrow> nat option \<Rightarrow> nb_type \<Rightarrow> nat list \<Rightarrow> nat \<Rightarrow> nb_state res" where
  "split_loop st new t [] n = Inl ERR_NETBUF_SPLIT_FAIL"
| "split_loop st new t (x # xs) n =
    (let nb = cell st x in
     if unSz nb < n then split_loop st new t xs (n - unSz nb)
     else if unSz nb = n then Inr st
     else
       (case new of
          None \<Rightarrow> Inl ERR_OOM
        | Some y \<Rightarrow>
            Inr (put (put st y (nb\<lparr>eType := t, pxBuf := map_option (\<lambda>(b, off). (b, off + n)) (pxBuf nb),
                                   unSz := unSz nb - n, xFreed := False\<rparr>))
                 x (nb\<lparr>unSz := n, pxNext := Some y\<rparr>))))"

definition xNetBufSplit :: "nat option \<Rightarrow> nat \<Rightarrow> nb_type \<Rightarrow> nat \<Rightarrow> nb_state \<Rightarrow> nb_state res option" where
  "xNetBufSplit new a t n st =
    map_option (\<lambda>xs. split_loop st new t (live st xs) n) (chain_of st a)"

text \<open>A free callback; releasing a buffer that is gone is \<open>None\<close>.\<close>

definition call_free :: "nb_state \<Rightarrow> nat \<Rightarrow> nb_state option" where
  "call_free st x =
    (let nb = cell st x in
     case freemethod nb of
       None \<Rightarrow> Some st
     | Some FreeButDont \<Rightarrow> Some st
     | Some _ \<Rightarrow>
         (case pxBufStart nb of
            None \<Rightarrow> Some st
          | Some b \<Rightarrow>
              (if bufs st b = None then None
               else Some (put st x (nb\<lparr>pxBufStart := None\<rparr>)\<lparr>bufs := (bufs st)(b := None)\<rparr>))))"

fun release_all :: "nb_state \<Rightarrow> nat list \<Rightarrow> nb_state option" where
  "release_all st [] = Some st"
| "release_all st (x # xs) =
    Option.bind (if pxBufStart (cell st x) \<noteq> None then call_free st x else Some st)
      (\<lambda>st1. release_all (st1\<lparr>cells := (cells st1)(x := None)\<rparr>) xs)"

definition mark_freed :: "nb_state \<Rightarrow> nat \<Rightarrow> netbuf \<Rightarrow> nb_state" where
  "mark_freed st a nb = put st a (nb\<lparr>xFreed := True, unSz := 0, pxBuf := None\<rparr>)"

text \<open>Counting the segments of the chain on the same buffer.\<close>

definition drop_ref :: "nb_state \<Rightarrow> nat \<Rightarrow> nat list \<Rightarrow> nb_state option" where
  "drop_ref st a xs =
    (let cnt = length (List.filter (\<lambda>x. pxBufStart (cell st x) = pxBufStart (cell st a)) xs) in
     if 2 \<le> cnt then Some (put st a ((cell st a)\<lparr>pxBufStart := None\<rparr>))
     else if cnt = 0 then call_free st a
     else Some st)"

definition vNetBufFree :: "nb_state \<Rightarrow> nat \<Rightarrow> nb_state option" where
  "vNetBufFree st a =
    (case cells st a of
       None \<Rightarrow> None
     | Some nb \<Rightarrow>
         (let st1 = mark_freed st a nb in
          case walk (cells st1) (Some (pxFirst nb)) of
            None \<Rightarrow> None
          | Some xs \<Rightarrow>
              Option.bind (drop_ref st1 a xs)
                (\<lambda>st2. if list_all (\<lambda>x. xFreed (cell st1 x)) xs then release_all st2 xs else Some st2)))"

text \<open>The loop of \<^verbatim>\<open>vNetBufFreeAll\<close>: the successor is read before the segment is freed, the one
  after it when the loop moves on.\<close>

partial_function (option) free_all_loop :: "nb_state \<Rightarrow> nat option \<Rightarrow> nat option \<Rightarrow> nb_state option" where
  "free_all_loop st cur nxt =
    (case cur of
       None \<Rightarrow> Some st
     | Some a \<Rightarrow>
         (case vNetBufFree st a of
            None \<Rightarrow> None
          | Some st' \<Rightarrow>
              (case nxt of
                 None \<Rightarrow> Some st'
               | Some b \<Rightarrow>
                   (case cells st' b of
                      None \<Rightarrow> None
                    | Some nb \<Rightarrow> free_all_loop st' (Some b) (pxNext nb)))))"

definition vNetBufFreeAll :: "nb_state \<Rightarrow> nat \<Rightarrow> nb_state option" where
  "vNetBufFreeAll st a =
    (case cells st a of
       None \<Rightarrow> None
     | Some nb \<Rightarrow>
         (case cells st (pxFirst nb) of
            None \<Rightarrow> None
          | Some f \<Rightarrow> free_all_loop st (Some (pxFirst nb)) (pxNext f)))"

definition unNetBufTotalSize :: "nb_state \<Rightarrow> nat \<Rightarrow> nat option" where
  "unNetBufTotalSize st a =
    map_option (\<lambda>xs. sum_list (List.map (\<lambda>x. unSz (cell st x)) (live st xs))) (chain_of st a)"

definition unNetBufCount :: "nb_state \<Rightarrow> nat \<Rightarrow> nat option" where
  "unNetBufCount st a = map_option (\<lambda>xs. length (live st xs)) (chain_of st a)"

text \<open>\<^verbatim>\<open>memcpy\<close> from a segment; \<open>None\<close> outside of its buffer.\<close>

definition copy_from :: "nb_state \<Rightarrow> netbuf \<Rightarrow> nat \<Rightarrow> nat \<Rightarrow> bytes option" where
  "copy_from st nb off n =
    (case pxBuf nb of
       None \<Rightarrow> None
     | Some (b, o') \<Rightarrow>
         (case bufs st b of
            None \<Rightarrow> None
          | Some bs \<Rightarrow> if o' + off + n \<le> length bs then Some (take n (drop (o' + off) bs)) else None))"

text \<open>The bytes \<^verbatim>\<open>unNetBufRead\<close> stores; their number is what it returns.\<close>

fun read_loop :: "nb_state \<Rightarrow> nat list \<Rightarrow> nat \<Rightarrow> nat \<Rightarrow> bytes option" where
  "read_loop st [] off room = Some []"
| "read_loop st (x # xs) off room =
    (let nb = cell st x in
     if unSz nb \<le> off then read_loop st xs (off - unSz nb) room
     else
       (let avail = unSz nb - off; n = (if avail \<le> room then avail else room) in
        case copy_from st nb off n of
          None \<Rightarrow> None
        | Some bs \<Rightarrow>
            (if room - n = 0 then Some bs
             else Option.bind (read_loop st xs 0 (room - n)) (\<lambda>r. Some (bs @ r)))))"

definition unNetBufRead :: "nb_state \<Rightarrow> nat \<Rightarrow> nat \<Rightarrow> nat \<Rightarrow> bytes option" where
  "unNetBufRead st a off room =
    (case chain_of st a of None \<Rightarrow> None | Some xs \<Rightarrow> read_loop st (live st xs) off room)"

definition set_first :: "nat \<Rightarrow> nb_state \<Rightarrow> nat \<Rightarrow> nb_state" where
  "set_first f st x = put st x ((cell st x)\<lparr>pxFirst := f\<rparr>)"

definition vNetBufAppend :: "nb_state \<Rightarrow> nat \<Rightarrow> nat \<Rightarrow> nb_state option" where
  "vNetBufAppend st l r =
    (case (chain_of st l, cells st r) of
       (Some xs, Some nr) \<Rightarrow>
         (if xFreed (cell st l) \<or> xs = [] then None
          else
            (let lst = last xs;
                 st1 = put st lst ((cell st lst)\<lparr>pxNext := Some (pxFirst nr)\<rparr>) in
             case walk (cells st1) (Some r) of
               None \<Rightarrow> None
             | Some ys \<Rightarrow> Some (foldl (set_first (pxFirst (cell st1 l))) st1 (live st1 ys))))
     | _ \<Rightarrow> None)"

fun vNetBufLink :: "nb_state \<Rightarrow> nat \<Rightarrow> nat list \<Rightarrow> nb_state option" where
  "vNetBufLink st cur [] = Some st"
| "vNetBufLink st cur (x # xs) =
    (case vNetBufAppend st cur x of None \<Rightarrow> None | Some st' \<Rightarrow> vNetBufLink st' x xs)"

text \<open>\<open>None\<close> is the failed assertion.\<close>

definition pxNetBufNext :: "nb_state \<Rightarrow> nat \<Rightarrow> nat option option" where
  "pxNetBufNext st a =
    (case cells st a of
       None \<Rightarrow> None
     | Some nb \<Rightarrow>
         (if xFreed nb then None
          else
            (case walk (cells st) (pxNext nb) of
               None \<Rightarrow> None
             | Some xs \<Rightarrow> Some (case live st xs of [] \<Rightarrow> None | x # _ \<Rightarrow> Some x))))"

section \<open>Well-formed chains\<close>

fun linked :: "cells \<Rightarrow> nat option \<Rightarrow> nat list \<Rightarrow> bool" where
  "linked h p [] = (p = None)"
| "linked h p (x # xs) = (p = Some x \<and> (\<exists>nb. h x = Some nb \<and> linked h (pxNext nb) xs))"

definition chain_ok :: "nb_state \<Rightarrow> nat list \<Rightarrow> bool" where
  "chain_ok st xs = (xs \<noteq> [] \<and> distinct xs \<and> linked (cells st) (Some (hd xs)) xs \<and>
    (\<forall>x \<in> set xs. pxFirst (cell st x) = hd xs))"

text \<open>A live segment lies within its buffer.\<close>

definition seg_ok :: "nb_state \<Rightarrow> nat \<Rightarrow> bool" where
  "seg_ok st x =
    (\<not> xFreed (cell st x) \<longrightarrow>
     (\<exists>b off bs. pxBuf (cell st x) = Some (b, off) \<and> pxBufStart (cell st x) = Some b \<and>
        bufs st b = Some bs \<and> off + unSz (cell st x) \<le> length bs))"

definition seg_data :: "nb_state \<Rightarrow> nat \<Rightarrow> bytes" where
  "seg_data st x =
    (case pxBuf (cell st x) of
       None \<Rightarrow> []
     | Some (b, off) \<Rightarrow> (case bufs st b of None \<Rightarrow> [] | Some bs \<Rightarrow> take (unSz (cell st x)) (drop off bs)))"

text \<open>The bytes a chain stands for.\<close>

definition content :: "nb_state \<Rightarrow> nat list \<Rightarrow> bytes" where
  "content st xs = concat (List.map (seg_data st) (live st xs))"

lemma walk_linked: "linked h p xs \<Longrightarrow> walk h p = Some xs"
  by (induction xs arbitrary: p) (auto simp: walk.simps)

lemma linked_in: "linked h p xs \<Longrightarrow> x \<in> set xs \<Longrightarrow> \<exists>nb. h x = Some nb"
  by (induction xs arbitrary: p) auto

lemma linked_upd_same:
  "linked h p xs \<Longrightarrow> h x = Some nb \<Longrightarrow> pxNext nb' = pxNext nb \<Longrightarrow> linked (h(x := Some nb')) p xs"
  by (induction xs arbitrary: p) auto

lemma linked_upd_out: "x \<notin> set xs \<Longrightarrow> linked (h(x := c)) p xs = linked h p xs"
  by (induction xs arbitrary: p) auto

lemma cell_put [simp]: "cell (put st a nb) x = (if x = a then nb else cell st x)"
  by (simp add: cell_def put_def)

lemma cells_put [simp]: "cells (put st a nb) = (cells st)(a := Some nb)"
  by (simp add: put_def)

lemma bufs_put [simp]: "bufs (put st a nb) = bufs st"
  by (simp add: put_def)

lemma chain_cell: "chain_ok st xs \<Longrightarrow> x \<in> set xs \<Longrightarrow> cells st x = Some (cell st x)"
  unfolding chain_ok_def cell_def using linked_in by fastforce

lemma chain_of_ok: "chain_ok st xs \<Longrightarrow> x \<in> set xs \<Longrightarrow> chain_of st x = Some xs"
  using chain_cell [of st xs x] by (auto simp: chain_of_def chain_ok_def intro: walk_linked)

lemma seg_data_length: "seg_ok st x \<Longrightarrow> \<not> xFreed (cell st x) \<Longrightarrow> length (seg_data st x) = unSz (cell st x)"
  by (auto simp: seg_ok_def seg_data_def)

section \<open>Reading\<close>

lemma copy_from_seg:
  assumes "seg_ok st x" "\<not> xFreed (cell st x)" "off + n \<le> unSz (cell st x)"
  shows "copy_from st (cell st x) off n = Some (take n (drop off (seg_data st x)))"
  using assms by (auto simp: seg_ok_def copy_from_def seg_data_def drop_take min_def add.commute)

lemma read_loop_content:
  "\<forall>x \<in> set ys. seg_ok st x \<and> \<not> xFreed (cell st x) \<Longrightarrow>
   read_loop st ys off room = Some (take room (drop off (concat (List.map (seg_data st) ys))))"
proof (induction ys arbitrary: off room)
  case (Cons x ys)
  let ?d = "seg_data st x" and ?r = "concat (List.map (seg_data st) ys)"
  have len: "length ?d = unSz (cell st x)" using Cons.prems by (simp add: seg_data_length)
  show ?case
  proof (cases "unSz (cell st x) \<le> off")
    case True
    then show ?thesis using Cons len by (simp add: Let_def)
  next
    case False
    define n where "n = min (unSz (cell st x) - off) room"
    have n: "(if unSz (cell st x) - off \<le> room then unSz (cell st x) - off else room) = n"
      by (simp add: n_def)
    have c: "copy_from st (cell st x) off n = Some (take n (drop off ?d))"
      by (rule copy_from_seg) (use Cons.prems False n_def in auto)
    have t: "take n (drop off ?d) = take room (drop off ?d)"
      using len by (simp add: n_def min_def)
    have "take room (drop off (?d @ ?r)) = take n (drop off ?d) @ take (room - n) ?r"
      using len False t by (auto simp: n_def min_def)
    then show ?thesis using Cons False n c
      by (auto simp: Let_def)
  qed
qed simp

lemma live_in: "x \<in> set (live st xs) \<Longrightarrow> x \<in> set xs \<and> \<not> xFreed (cell st x)"
  by (simp add: live_def)

lemma read_content:
  assumes "chain_ok st xs" "\<forall>x \<in> set xs. seg_ok st x" "a \<in> set xs"
  shows "unNetBufRead st a off room = Some (take room (drop off (content st xs)))"
  using chain_of_ok [OF assms(1,3)] read_loop_content [of "live st xs" st off room] assms(2) live_in
  by (auto simp: unNetBufRead_def content_def)

lemma data_length:
  "\<forall>x \<in> set ys. seg_ok st x \<and> \<not> xFreed (cell st x) \<Longrightarrow>
    length (concat (List.map (seg_data st) ys)) = sum_list (List.map (\<lambda>x. unSz (cell st x)) ys)"
  by (induction ys) (simp_all add: seg_data_length)

lemma content_length:
  "\<forall>x \<in> set xs. seg_ok st x \<Longrightarrow> length (content st xs) = sum_list (List.map (\<lambda>x. unSz (cell st x)) (live st xs))"
  using data_length live_in by (simp add: content_def)

section \<open>Splitting\<close>

definition split_at :: "nb_state \<Rightarrow> nat \<Rightarrow> nb_type \<Rightarrow> nat \<Rightarrow> nat \<Rightarrow> nb_state" where
  "split_at st y t x k =
    (let nb = cell st x in
     put (put st y (nb\<lparr>eType := t, pxBuf := map_option (\<lambda>(b, off). (b, off + k)) (pxBuf nb),
                       unSz := unSz nb - k, xFreed := False\<rparr>))
       x (nb\<lparr>unSz := k, pxNext := Some y\<rparr>))"

abbreviation total :: "nb_state \<Rightarrow> nat list \<Rightarrow> nat" where
  "total st ys \<equiv> sum_list (List.map (\<lambda>x. unSz (cell st x)) ys)"

lemma split_loop_short: "total st ys < n \<Longrightarrow> split_loop st new t ys n = Inl ERR_NETBUF_SPLIT_FAIL"
  by (induction ys arbitrary: n) (auto simp: Let_def)

lemma split_loop_result:
  "ys \<noteq> [] \<Longrightarrow> n \<le> total st ys \<Longrightarrow>
   \<exists>us x vs k. ys = us @ x # vs \<and> n = total st us + k \<and>
     ((k = unSz (cell st x) \<and> split_loop st (Some y) t ys n = Inr st) \<or>
      (k < unSz (cell st x) \<and> split_loop st (Some y) t ys n = Inr (split_at st y t x k)))"
proof (induction ys arbitrary: n)
  case (Cons x ys)
  show ?case
  proof (cases "unSz (cell st x) < n")
    case True
    then have "ys \<noteq> []" "n - unSz (cell st x) \<le> total st ys" using Cons.prems by auto
    from Cons.IH [OF this] obtain us z vs k where z: "ys = us @ z # vs" "n - unSz (cell st x) = total st us + k"
      "(k = unSz (cell st z) \<and> split_loop st (Some y) t ys (n - unSz (cell st x)) = Inr st) \<or>
       (k < unSz (cell st z) \<and> split_loop st (Some y) t ys (n - unSz (cell st x)) = Inr (split_at st y t z k))"
      by blast
    then show ?thesis using True
      by (intro exI [of _ "x # us"] exI [of _ z] exI [of _ vs] exI [of _ k]) (auto simp: Let_def)
  next
    case False
    then show ?thesis
      by (intro exI [of _ "[]"] exI [of _ x] exI [of _ ys] exI [of _ n]) (auto simp: Let_def split_at_def)
  qed
qed simp

lemma linked_insert:
  "linked h s (p @ x # q) \<Longrightarrow> h x = Some nb \<Longrightarrow> distinct (p @ x # q) \<Longrightarrow> y \<notin> set (p @ x # q) \<Longrightarrow>
   pxNext nx = Some y \<Longrightarrow> pxNext ny = pxNext nb \<Longrightarrow>
   linked (h(y := Some ny, x := Some nx)) s (p @ x # y # q)"
  by (induction p arbitrary: s) (auto simp: linked_upd_out)

lemma split_at_ok:
  assumes "chain_ok st (p @ x # q)" "\<forall>z \<in> set (p @ x # q). seg_ok st z" "cells st y = None"
    "\<not> xFreed (cell st x)" "k < unSz (cell st x)"
    and st'_def: "st' = split_at st y t x k"
  shows "chain_ok st' (p @ x # y # q)" "\<forall>z \<in> set (p @ x # y # q). seg_ok st' z"
    "seg_data st' x = take k (seg_data st x)" "seg_data st' y = drop k (seg_data st x)"
    "\<And>z. z \<noteq> x \<Longrightarrow> z \<noteq> y \<Longrightarrow> cell st' z = cell st z \<and> seg_data st' z = seg_data st z"
    "\<not> xFreed (cell st' x)" "\<not> xFreed (cell st' y)"
proof -
  have y: "y \<notin> set (p @ x # q)" using assms(3) chain_cell [OF assms(1)] by fastforce
  then have yx: "y \<noteq> x" by auto
  have cx: "cells st x = Some (cell st x)" using chain_cell [OF assms(1)] by simp
  have cl: "cell st' z = (if z = x then (cell st x)\<lparr>unSz := k, pxNext := Some y\<rparr>
     else if z = y then (cell st x)\<lparr>eType := t, pxBuf := map_option (\<lambda>(b, off). (b, off + k)) (pxBuf (cell st x)),
                       unSz := unSz (cell st x) - k, xFreed := False\<rparr> else cell st z)" for z
    by (simp add: st'_def split_at_def Let_def)
  have b: "bufs st' = bufs st" by (simp add: st'_def split_at_def Let_def)
  have sx: "seg_ok st x" using assms(2) by simp
  have hd: "hd (p @ x # y # q) = hd (p @ x # q)" by (cases p) auto
  have lk: "linked (cells st') (Some (hd (p @ x # q))) (p @ x # y # q)"
    unfolding st'_def split_at_def Let_def cells_put
    by (rule linked_insert [where nb = "cell st x"]) (use assms(1) y cx in \<open>auto simp: chain_ok_def\<close>)
  show "chain_ok st' (p @ x # y # q)"
    using assms(1) y lk unfolding chain_ok_def hd by (auto simp: cl)
  show "\<forall>z \<in> set (p @ x # y # q). seg_ok st' z"
    using assms(2,4,5) y sx by (auto simp: seg_ok_def cl b)
  show "seg_data st' x = take k (seg_data st x)"
    using assms(5) by (auto simp: seg_data_def cl b split: option.splits)
  show "seg_data st' y = drop k (seg_data st x)"
    using yx assms(5) by (auto simp: seg_data_def cl b drop_take add.commute split: option.splits)
  show "cell st' z = cell st z \<and> seg_data st' z = seg_data st z" if "z \<noteq> x" "z \<noteq> y" for z
    using that by (auto simp: cl seg_data_def b split: option.split)
  show "\<not> xFreed (cell st' x)" "\<not> xFreed (cell st' y)" using assms(4) yx by (simp_all add: cl)
qed

lemma live_app [simp]: "live st (as @ bs) = live st as @ live st bs"
  by (simp add: live_def)

lemma live_cong: "(\<And>z. z \<in> set zs \<Longrightarrow> cell st' z = cell st z) \<Longrightarrow> live st' zs = live st zs"
  by (simp add: live_def cong: filter_cong)

lemma split_content:
  assumes "chain_ok st xs" "\<forall>z \<in> set xs. seg_ok st z" "a \<in> set xs" "cells st y = None"
    and "live st xs \<noteq> []" "n \<le> length (content st xs)"
  obtains st' xs' ps qs where "xNetBufSplit (Some y) a t n st = Some (Inr st')"
    "chain_ok st' xs'" "\<forall>z \<in> set xs'. seg_ok st' z" "set xs \<subseteq> set xs'" "hd xs' = hd xs"
    "content st' xs' = content st xs" "live st' xs' = ps @ qs"
    "concat (List.map (seg_data st') ps) = take n (content st xs)"
    "concat (List.map (seg_data st') qs) = drop n (content st xs)" "ps \<noteq> []"
proof -
  have n: "n \<le> total st (live st xs)" using assms(6) content_length [OF assms(2)] by simp
  obtain us x vs k where l: "live st xs = us @ x # vs" "n = total st us + k" and
    r: "(k = unSz (cell st x) \<and> split_loop st (Some y) t (live st xs) n = Inr st) \<or>
        (k < unSz (cell st x) \<and> split_loop st (Some y) t (live st xs) n = Inr (split_at st y t x k))"
    using split_loop_result [OF assms(5) n] by blast
  have x: "x \<in> set xs" "\<not> xFreed (cell st x)" using l(1) live_in [of x st xs] by auto
  have u: "length (concat (List.map (seg_data st) us)) = total st us"
    by (rule data_length) (use live_in [of _ st xs] l(1) assms(2) in auto)
  have sp: "xNetBufSplit (Some y) a t n st = Some (split_loop st (Some y) t (live st xs) n)"
    by (simp add: xNetBufSplit_def chain_of_ok [OF assms(1,3)])
  have dx: "length (seg_data st x) = unSz (cell st x)" using x assms(2) by (simp add: seg_data_length)
  have c: "content st xs = concat (List.map (seg_data st) us) @ seg_data st x @ concat (List.map (seg_data st) vs)"
    by (simp add: content_def l(1))
  from r show thesis
  proof (elim disjE conjE)
    assume k: "k = unSz (cell st x)" "split_loop st (Some y) t (live st xs) n = Inr st"
    show thesis
      by (rule that [of st xs "us @ [x]" vs]) (use sp k assms l u dx in \<open>auto simp: c\<close>)
  next
    assume k: "k < unSz (cell st x)" "split_loop st (Some y) t (live st xs) n = Inr (split_at st y t x k)"
    obtain p q where xs: "xs = p @ x # q" using x(1) by (meson split_list)
    define st' where "st' = split_at st y t x k"
    note so = split_at_ok [OF assms(1) [unfolded xs] assms(2) [unfolded xs] assms(4) x(2) k(1) st'_def]
    have ynot: "y \<notin> set xs" using assms(4) chain_cell [OF assms(1)] by fastforce
    have dist: "distinct xs" using assms(1) by (simp add: chain_ok_def)
    have ne: "z \<noteq> x \<and> z \<noteq> y" if "z \<in> set p \<union> set q" for z
      using that dist ynot unfolding xs by auto
    have lp: "live st' p = live st p" "live st' q = live st q"
      using so(5) ynot dist unfolding xs by (simp_all add: live_def) (metis (no_types, lifting) filter_cong)+
    have lxs: "live st p @ x # live st q = us @ x # vs" using l(1) x(2) by (simp add: xs live_def)
    have "distinct (us @ x # vs)" using dist unfolding l(1) [symmetric] live_def by simp
    then have "x \<notin> set (live st p)" "x \<notin> set (live st q)" using dist unfolding xs by (auto simp: live_def)
    then have pq: "live st p = us" "live st q = vs" using lxs by (auto simp: append_Cons_eq_iff)
    have lv: "live st' (p @ x # y # q) = (us @ [x]) @ (y # vs)"
      using so(6,7) lp pq by (simp add: live_def)
    have mu: "List.map (seg_data st') us = List.map (seg_data st) us" "List.map (seg_data st') vs = List.map (seg_data st) vs"
      using so(5) ne unfolding pq [symmetric] live_def by simp_all
    show thesis
    proof (rule that [of st' "p @ x # y # q" "us @ [x]" "y # vs"])
      show "content st' (p @ x # y # q) = content st xs"
        unfolding content_def lv l(1) by (simp add: mu so(3,4))
      show "hd (p @ x # y # q) = hd xs" by (cases p) (auto simp: xs)
      show "concat (List.map (seg_data st') (us @ [x])) = take n (content st xs)"
        using u dx k(1) by (simp add: mu so(3) c l(2))
      show "concat (List.map (seg_data st') (y # vs)) = drop n (content st xs)"
        using u dx k(1) by (simp add: mu so(4) c l(2))
    qed (use sp k so lv xs st'_def in auto)
  qed
qed

lemma split_too_short:
  assumes "chain_ok st xs" "\<forall>z \<in> set xs. seg_ok st z" "a \<in> set xs" "length (content st xs) < n"
  shows "xNetBufSplit new a t n st = Some (Inl ERR_NETBUF_SPLIT_FAIL)"
  using split_loop_short [of st "live st xs" n new t] content_length [OF assms(2)] assms(4)
  by (simp add: xNetBufSplit_def chain_of_ok [OF assms(1,3)])

section \<open>Freeing\<close>

text \<open>The state of a chain in the course of freeing its segments: the freed segments hold no
  data, a freed segment that still holds a buffer is its only holder, and no buffer of
  the original chain is lost.\<close>

definition freeing :: "nb_state \<Rightarrow> nat list \<Rightarrow> nat set \<Rightarrow> nat set \<Rightarrow> bool" where
  "freeing st xs F B =
    (chain_ok st xs \<and> (\<forall>x \<in> set xs. xFreed (cell st x) = (x \<in> F)) \<and>
     (\<forall>x \<in> set xs. x \<notin> F \<longrightarrow> pxBufStart (cell st x) \<noteq> None) \<and>
     (\<forall>x \<in> set xs. x \<in> F \<longrightarrow> unSz (cell st x) = 0) \<and>
     (\<forall>x \<in> set xs. freemethod (cell st x) = Some FreeNormal \<or> freemethod (cell st x) = Some FreePool) \<and>
     (\<forall>x \<in> set xs. \<forall>y \<in> set xs. x \<in> F \<longrightarrow> pxBufStart (cell st x) \<noteq> None \<longrightarrow>
        pxBufStart (cell st y) = pxBufStart (cell st x) \<longrightarrow> y = x) \<and>
     {b. \<exists>x \<in> set xs. pxBufStart (cell st x) = Some b} = B \<and>
     (\<forall>b \<in> B. bufs st b \<noteq> None))"

lemma chain_put:
  assumes "chain_ok st xs" "x \<in> set xs" "pxNext nb = pxNext (cell st x)" "pxFirst nb = pxFirst (cell st x)"
  shows "chain_ok (put st x nb) xs"
  using assms linked_upd_same [where x = x and nb = "cell st x" and nb' = nb] chain_cell [OF assms(1,2)]
  by (auto simp: chain_ok_def)

lemma release_all_ok:
  assumes "distinct xs" "\<forall>x \<in> set xs. freemethod (cell st x) = Some FreeNormal \<or> freemethod (cell st x) = Some FreePool"
    and "\<forall>x \<in> set xs. \<forall>y \<in> set xs. pxBufStart (cell st x) \<noteq> None \<longrightarrow>
      pxBufStart (cell st y) = pxBufStart (cell st x) \<longrightarrow> y = x"
    and "\<forall>x \<in> set xs. \<forall>b. pxBufStart (cell st x) = Some b \<longrightarrow> bufs st b \<noteq> None"
  shows "\<exists>st'. release_all st xs = Some st' \<and> (\<forall>x. cells st' x = (if x \<in> set xs then None else cells st x)) \<and>
    (\<forall>b. bufs st' b = (if \<exists>x \<in> set xs. pxBufStart (cell st x) = Some b then None else bufs st b))"
  using assms
proof (induction xs arbitrary: st)
  case (Cons x xs)
  define st1 where "st1 = (case pxBufStart (cell st x) of None \<Rightarrow> st
    | Some b \<Rightarrow> put st x ((cell st x)\<lparr>pxBufStart := None\<rparr>)\<lparr>bufs := (bufs st)(b := None)\<rparr>)"
  define st2 where "st2 = st1\<lparr>cells := (cells st1)(x := None)\<rparr>"
  have c: "(if pxBufStart (cell st x) \<noteq> None then call_free st x else Some st) = Some st1"
    using Cons.prems(2,4) by (auto simp: call_free_def st1_def Let_def split: option.splits)
  have cl: "cell st2 z = cell st z" "cells st2 z = cells st z" if "z \<noteq> x" for z
    using that by (auto simp: st2_def st1_def cell_def put_def split: option.splits)
  have b2: "bufs st2 b = (if pxBufStart (cell st x) = Some b then None else bufs st b)" for b
    by (auto simp: st2_def st1_def put_def split: option.splits)
  have xn: "x \<notin> set xs" using Cons.prems(1) by simp
  then have cx: "\<And>z. z \<in> set xs \<Longrightarrow> cell st2 z = cell st z" by (metis cl(1))
  have "\<exists>st'. release_all st2 xs = Some st' \<and> (\<forall>z. cells st' z = (if z \<in> set xs then None else cells st2 z)) \<and>
      (\<forall>b. bufs st' b = (if \<exists>z \<in> set xs. pxBufStart (cell st2 z) = Some b then None else bufs st2 b))"
  proof (rule Cons.IH)
    show "distinct xs" using Cons.prems(1) by simp
    show "\<forall>z \<in> set xs. freemethod (cell st2 z) = Some FreeNormal \<or> freemethod (cell st2 z) = Some FreePool"
      using Cons.prems(2) cx by simp
    show "\<forall>z \<in> set xs. \<forall>y \<in> set xs. pxBufStart (cell st2 z) \<noteq> None \<longrightarrow>
        pxBufStart (cell st2 y) = pxBufStart (cell st2 z) \<longrightarrow> y = z"
      using Cons.prems(3) cx by simp
    show "\<forall>z \<in> set xs. \<forall>b. pxBufStart (cell st2 z) = Some b \<longrightarrow> bufs st2 b \<noteq> None"
    proof (intro ballI allI impI)
      fix z b assume z: "z \<in> set xs" "pxBufStart (cell st2 z) = Some b"
      then have "pxBufStart (cell st x) \<noteq> Some b" using Cons.prems(3) cx xn by force
      then show "bufs st2 b \<noteq> None" using Cons.prems(4) z cx b2 by simp
    qed
  qed
  then obtain st' where st': "release_all st2 xs = Some st'"
    "\<And>z. cells st' z = (if z \<in> set xs then None else cells st2 z)"
    "\<And>b. bufs st' b = (if \<exists>z \<in> set xs. pxBufStart (cell st2 z) = Some b then None else bufs st2 b)" by blast
  have "cells st2 x = None" by (simp add: st2_def)
  then show ?case
    using st' c cl b2 cx xn by (intro exI [of _ st']) (auto simp flip: st2_def)
qed auto

lemma free_step:
  assumes fr: "freeing st xs F B" and x: "x \<in> set xs" "x \<notin> F" and more: "\<not> set xs \<subseteq> insert x F"
  shows "\<exists>st'. vNetBufFree st x = Some st' \<and> freeing st' xs (insert x F) B \<and> bufs st' = bufs st \<and>
    (\<forall>y. y \<noteq> x \<longrightarrow> cells st' y = cells st y)"
proof -
  define nb1 where "nb1 = (cell st x)\<lparr>xFreed := True, unSz := 0, pxBuf := None\<rparr>"
  define st1 where "st1 = put st x nb1"
  have ok: "chain_ok st xs" using fr by (simp add: freeing_def)
  have ok1: "chain_ok st1 xs" unfolding st1_def
    by (rule chain_put [OF ok x(1)]) (simp_all add: nb1_def)
  have cx: "cells st x = Some (cell st x)" by (rule chain_cell [OF ok x(1)])
  have cell1: "cell st1 z = (if z = x then nb1 else cell st z)" for z by (simp add: st1_def)
  have start1: "pxBufStart (cell st1 z) = pxBufStart (cell st z)" for z by (simp add: cell1 nb1_def)
  have w: "walk (cells st1) (Some (pxFirst (cell st x))) = Some xs"
    using ok ok1 x(1) by (auto simp: chain_ok_def intro: walk_linked)
  define cnt where "cnt = length (List.filter (\<lambda>z. pxBufStart (cell st1 z) = pxBufStart nb1) xs)"
  have xin: "x \<in> set (List.filter (\<lambda>z. pxBufStart (cell st1 z) = pxBufStart nb1) xs)"
    using x(1) by (simp add: cell1)
  have dist: "distinct xs" using ok by (simp add: chain_ok_def)
  have cardL: "card (set (List.filter (\<lambda>z. pxBufStart (cell st1 z) = pxBufStart nb1) xs)) = cnt"
    unfolding cnt_def by (rule distinct_card) (simp add: dist)
  have nz: "cnt \<noteq> 0" using xin unfolding cnt_def by (metis length_0_conv list.set(1) empty_iff)
  have notfull: "\<not> list_all (\<lambda>z. xFreed (cell st1 z)) xs"
    using more fr by (auto simp: list_all_iff freeing_def cell1)
  obtain b where b: "pxBufStart (cell st x) = Some b" using fr x by (auto simp: freeing_def)
  have bnb1: "pxBufStart nb1 = Some b" by (simp add: nb1_def b)
  define st2 where "st2 = (if 2 \<le> cnt then put st1 x (nb1\<lparr>pxBufStart := None\<rparr>) else st1)"
  have st1: "mark_freed st x (cell st x) = st1" by (simp add: mark_freed_def st1_def nb1_def)
  have "cell st1 x = nb1" by (simp add: cell1)
  then have "drop_ref st1 x xs = Some st2"
    using nz by (simp add: drop_ref_def st2_def cnt_def)
  then have free: "vNetBufFree st x = Some st2"
    unfolding vNetBufFree_def using cx w notfull by (simp add: st1)
  have cell2: "cell st2 z = (if z = x then (if 2 \<le> cnt then nb1\<lparr>pxBufStart := None\<rparr> else nb1) else cell st z)" for z
    by (simp add: st2_def cell1)
  have bufs2: "bufs st2 = bufs st" by (simp add: st2_def st1_def)
  have ok2: "chain_ok st2 xs"
    using chain_put [OF ok1 x(1), of "nb1\<lparr>pxBufStart := None\<rparr>"] ok1
    by (simp add: st2_def cell1)
  have other: "\<exists>y \<in> set xs. y \<noteq> x \<and> pxBufStart (cell st y) = Some b" if "2 \<le> cnt"
  proof (rule ccontr)
    assume "\<not> ?thesis"
    then have "set (List.filter (\<lambda>z. pxBufStart (cell st1 z) = pxBufStart nb1) xs) \<subseteq> {x}"
      by (auto simp: start1 bnb1)
    then have "card (set (List.filter (\<lambda>z. pxBufStart (cell st1 z) = pxBufStart nb1) xs)) \<le> card {x}"
      by (intro card_mono) simp_all
    then show False using that unfolding cardL by simp
  qed
  have alone: "y = x" if "\<not> 2 \<le> cnt" "y \<in> set xs" "pxBufStart (cell st y) = Some b" for y
  proof (rule ccontr)
    assume "y \<noteq> x"
    have "card {x, y} \<le> card (set (List.filter (\<lambda>z. pxBufStart (cell st1 z) = pxBufStart nb1) xs))"
      by (rule card_mono) (use that x(1) in \<open>auto simp: start1 bnb1 b\<close>)
    then show False using \<open>y \<noteq> x\<close> that(1) unfolding cardL by simp
  qed
  have holders: "{c. \<exists>z \<in> set xs. pxBufStart (cell st2 z) = Some c} = B"
  proof -
    have "(\<exists>z \<in> set xs. pxBufStart (cell st2 z) = Some c) = (\<exists>z \<in> set xs. pxBufStart (cell st z) = Some c)" for c
    proof
      assume "\<exists>z \<in> set xs. pxBufStart (cell st2 z) = Some c"
      then show "\<exists>z \<in> set xs. pxBufStart (cell st z) = Some c"
        by (auto simp: cell2 nb1_def split: if_splits)
    next
      assume "\<exists>z \<in> set xs. pxBufStart (cell st z) = Some c"
      then obtain z where z: "z \<in> set xs" "pxBufStart (cell st z) = Some c" by blast
      show "\<exists>z \<in> set xs. pxBufStart (cell st2 z) = Some c"
      proof (cases "z = x \<and> 2 \<le> cnt")
        case True
        then obtain y where "y \<in> set xs" "y \<noteq> x" "pxBufStart (cell st y) = Some b" using other by blast
        then show ?thesis using True z(2) b by (auto simp: cell2 intro!: bexI [of _ y])
      next
        case False
        then show ?thesis using z by (auto simp: cell2 nb1_def intro!: bexI [of _ z])
      qed
    qed
    then show ?thesis using fr by (simp add: freeing_def)
  qed
  have sole: "y = z" if "z \<in> set xs" "y \<in> set xs" "z \<in> insert x F" "pxBufStart (cell st2 z) \<noteq> None"
      "pxBufStart (cell st2 y) = pxBufStart (cell st2 z)" for y z
  proof (cases "z = x")
    case True
    have "\<not> 2 \<le> cnt" using that(4) True by (auto simp: cell2)
    have "pxBufStart (cell st y) = Some b"
      using that(5) True \<open>\<not> 2 \<le> cnt\<close> by (cases "y = x") (simp_all add: cell2 bnb1 b)
    then have "y = x" by (rule alone [OF \<open>\<not> 2 \<le> cnt\<close> that(2)])
    then show ?thesis using True by simp
  next
    case False
    then have "z \<in> F" "pxBufStart (cell st z) \<noteq> None" using that by (simp_all add: cell2)
    moreover have "pxBufStart (cell st y) = pxBufStart (cell st z)"
      using that False by (auto simp: cell2 nb1_def split: if_splits)
    ultimately show ?thesis using fr that(1,2) unfolding freeing_def by blast
  qed
  have "freeing st2 xs (insert x F) B"
    unfolding freeing_def
  proof (intro conjI)
    show "\<forall>z \<in> set xs. xFreed (cell st2 z) = (z \<in> insert x F)"
      using fr by (simp add: freeing_def cell2 nb1_def)
    show "\<forall>z \<in> set xs. z \<notin> insert x F \<longrightarrow> pxBufStart (cell st2 z) \<noteq> None"
      using fr by (simp add: freeing_def cell2)
    show "\<forall>z \<in> set xs. z \<in> insert x F \<longrightarrow> unSz (cell st2 z) = 0"
      using fr by (simp add: freeing_def cell2 nb1_def)
    show "\<forall>z \<in> set xs. freemethod (cell st2 z) = Some FreeNormal \<or> freemethod (cell st2 z) = Some FreePool"
      using fr x(1) by (simp add: freeing_def cell2 nb1_def)
    show "\<forall>b \<in> B. bufs st2 b \<noteq> None" using fr by (simp add: freeing_def bufs2)
    show "\<forall>z \<in> set xs. \<forall>y \<in> set xs. z \<in> insert x F \<longrightarrow> pxBufStart (cell st2 z) \<noteq> None \<longrightarrow>
        pxBufStart (cell st2 y) = pxBufStart (cell st2 z) \<longrightarrow> y = z" using sole by blast
  qed (rule ok2, rule holders)
  moreover have "\<forall>y. y \<noteq> x \<longrightarrow> cells st2 y = cells st y"
    by (simp add: st2_def st1_def)
  ultimately show ?thesis using free bufs2 by blast
qed

lemma singleton_list: "distinct l \<Longrightarrow> set l = {x} \<Longrightarrow> l = [x]"
  by (cases l; cases "tl l") auto

lemma free_last:
  assumes fr: "freeing st xs F B" and x: "x \<in> set xs" "x \<notin> F" and all: "set xs \<subseteq> insert x F"
  shows "\<exists>st'. vNetBufFree st x = Some st' \<and> (\<forall>y. cells st' y = (if y \<in> set xs then None else cells st y)) \<and>
    (\<forall>b. bufs st' b = (if b \<in> B then None else bufs st b))"
proof -
  define nb1 where "nb1 = (cell st x)\<lparr>xFreed := True, unSz := 0, pxBuf := None\<rparr>"
  define st1 where "st1 = put st x nb1"
  have ok: "chain_ok st xs" using fr by (simp add: freeing_def)
  have dist: "distinct xs" using ok by (simp add: chain_ok_def)
  have ok1: "chain_ok st1 xs" unfolding st1_def
    by (rule chain_put [OF ok x(1)]) (simp_all add: nb1_def)
  have cx: "cells st x = Some (cell st x)" by (rule chain_cell [OF ok x(1)])
  have cell1: "cell st1 z = (if z = x then nb1 else cell st z)" for z by (simp add: st1_def)
  have start1: "pxBufStart (cell st1 z) = pxBufStart (cell st z)" for z by (simp add: cell1 nb1_def)
  have w: "walk (cells st1) (Some (pxFirst (cell st x))) = Some xs"
    using ok ok1 x(1) by (auto simp: chain_ok_def intro: walk_linked)
  obtain b where b: "pxBufStart (cell st x) = Some b" using fr x by (auto simp: freeing_def)
  have uniq: "y = z" if "y \<in> set xs" "z \<in> set xs" "pxBufStart (cell st z) \<noteq> None"
      "pxBufStart (cell st y) = pxBufStart (cell st z)" for y z
    using fr that x all unfolding freeing_def by (metis insertE subsetD)
  have one: "List.filter (\<lambda>z. pxBufStart (cell st1 z) = pxBufStart (cell st1 x)) xs = [x]"
  proof -
    have "set (List.filter (\<lambda>z. pxBufStart (cell st1 z) = pxBufStart (cell st1 x)) xs) = {x}"
      using uniq x(1) b by (auto simp: start1)
    moreover have "distinct (List.filter (\<lambda>z. pxBufStart (cell st1 z) = pxBufStart (cell st1 x)) xs)"
      using dist by simp
    ultimately show ?thesis by (rule singleton_list [rotated])
  qed
  have d: "drop_ref st1 x xs = Some st1" by (simp add: drop_ref_def one)
  have full: "list_all (\<lambda>z. xFreed (cell st1 z)) xs"
    using fr all by (auto simp: list_all_iff freeing_def cell1 nb1_def)
  have B: "(\<exists>z \<in> set xs. pxBufStart (cell st1 z) = Some c) = (c \<in> B)" for c
    using fr by (auto simp: freeing_def start1)
  have "\<exists>st'. release_all st1 xs = Some st' \<and> (\<forall>z. cells st' z = (if z \<in> set xs then None else cells st1 z)) \<and>
      (\<forall>b. bufs st' b = (if \<exists>z \<in> set xs. pxBufStart (cell st1 z) = Some b then None else bufs st1 b))"
  proof (rule release_all_ok)
    show "\<forall>z \<in> set xs. freemethod (cell st1 z) = Some FreeNormal \<or> freemethod (cell st1 z) = Some FreePool"
      using fr x(1) by (auto simp: freeing_def cell1 nb1_def)
    show "\<forall>z \<in> set xs. \<forall>b. pxBufStart (cell st1 z) = Some b \<longrightarrow> bufs st1 b \<noteq> None"
    proof (intro ballI allI impI)
      fix z c assume "z \<in> set xs" "pxBufStart (cell st1 z) = Some c"
      then have "c \<in> B" using B by blast
      then show "bufs st1 c \<noteq> None" using fr by (simp add: freeing_def st1_def)
    qed
  qed (use dist uniq start1 in auto)
  then obtain st' where "release_all st1 xs = Some st'"
    "\<forall>z. cells st' z = (if z \<in> set xs then None else cells st1 z)"
    "\<forall>b. bufs st' b = (if b \<in> B then None else bufs st1 b)" unfolding B by blast
  then show ?thesis unfolding vNetBufFree_def using cx w d full x(1)
    by (auto simp: mark_freed_def st1_def nb1_def)
qed

text \<open>Freeing the segments of a chain one by one.\<close>

fun free_each :: "nb_state \<Rightarrow> nat list \<Rightarrow> nb_state option" where
  "free_each st [] = Some st"
| "free_each st (x # xs) = Option.bind (vNetBufFree st x) (\<lambda>st'. free_each st' xs)"

lemma free_each_chain:
  assumes "freeing st xs F B" "set ys = set xs - F" "distinct ys" "ys \<noteq> []"
  shows "\<exists>st'. free_each st ys = Some st' \<and> (\<forall>y. cells st' y = (if y \<in> set xs then None else cells st y)) \<and>
    (\<forall>b. bufs st' b = (if b \<in> B then None else bufs st b))"
  using assms
proof (induction ys arbitrary: st F)
  case (Cons y ys)
  have y: "y \<in> set xs" "y \<notin> F" using Cons.prems(2) by auto
  show ?case
  proof (cases "ys = []")
    case True
    then have "set xs \<subseteq> insert y F" using Cons.prems(2) by auto
    from free_last [OF Cons.prems(1) y this] show ?thesis using True by auto
  next
    case False
    have s: "set ys = set xs - insert y F" using Cons.prems(2,3) by auto
    then have "\<not> set xs \<subseteq> insert y F" using False by (metis Diff_eq_empty_iff set_empty)
    from free_step [OF Cons.prems(1) y this] obtain st1 where st1: "vNetBufFree st y = Some st1"
      "freeing st1 xs (insert y F) B" "bufs st1 = bufs st" "\<forall>z. z \<noteq> y \<longrightarrow> cells st1 z = cells st z" by blast
    from Cons.IH [OF st1(2) s _ False] obtain st' where "free_each st1 ys = Some st'"
      "\<forall>z. cells st' z = (if z \<in> set xs then None else cells st1 z)"
      "\<forall>b. bufs st' b = (if b \<in> B then None else bufs st1 b)" using Cons.prems(3) by auto
    then show ?thesis using st1 y(1) by auto
  qed
qed simp

lemma freeing_start:
  assumes "chain_ok st xs" "\<forall>x \<in> set xs. \<not> xFreed (cell st x) \<and> seg_ok st x \<and>
      (freemethod (cell st x) = Some FreeNormal \<or> freemethod (cell st x) = Some FreePool)"
  shows "freeing st xs {} {b. \<exists>x \<in> set xs. pxBufStart (cell st x) = Some b}"
  using assms unfolding freeing_def by (fastforce simp: seg_ok_def)

lemma bind_free_each: "free_each st (xs @ ys) = Option.bind (free_each st xs) (\<lambda>s. free_each s ys)"
  by (induction xs arbitrary: st) (auto split: bind_split simp: Option.bind_eq_None_conv)

lemma linked_cong: "linked h p zs \<Longrightarrow> \<forall>w \<in> set zs. h' w = h w \<Longrightarrow> linked h' p zs"
  by (induction zs arbitrary: p) auto

text \<open>\<^verbatim>\<open>vNetBufFreeAll\<close> visits the segments in order.\<close>

lemma free_all_loop_ok:
  assumes "freeing st xs F B" "linked (cells st) (Some y) (y # ys)" "set (y # ys) = set xs - F" "distinct (y # ys)"
  shows "free_all_loop st (Some y) (pxNext (cell st y)) = free_each st (y # ys)"
  using assms
proof (induction ys arbitrary: st F y)
  case Nil
  then have "pxNext (cell st y) = None" by (auto simp: cell_def)
  then show ?case using Nil by (subst free_all_loop.simps) (simp split: option.split)
next
  case (Cons z ys)
  have y: "y \<in> set xs" "y \<notin> F" using Cons.prems(3) by auto
  have n: "pxNext (cell st y) = Some z" "linked (cells st) (Some z) (z # ys)"
    using Cons.prems(2) by (auto simp: cell_def)
  have s: "set (z # ys) = set xs - insert y F" using Cons.prems(3,4) by auto
  then have "\<not> set xs \<subseteq> insert y F" by auto
  from free_step [OF Cons.prems(1) y this] obtain st1 where st1: "vNetBufFree st y = Some st1"
    "freeing st1 xs (insert y F) B" "\<forall>w. w \<noteq> y \<longrightarrow> cells st1 w = cells st w" by blast
  have l: "linked (cells st1) (Some z) (z # ys)"
    by (rule linked_cong [OF n(2)]) (use st1(3) Cons.prems(4) in auto)
  have cz: "cells st1 z = Some (cell st1 z)" using l by (auto simp: cell_def)
  show ?case
    using Cons.IH [OF st1(2) l s] Cons.prems(4) st1(1) n(1) cz
    by (subst free_all_loop.simps) (simp add: cz)
qed

text \<open>When the segments at the end of the chain were freed before, the last live segment
  releases the chain and the loop goes on with a released segment.\<close>

lemma free_all_loop_dangling:
  assumes "freeing st xs F B" "linked (cells st) (Some y) (y # ys @ f # fs)" "set (y # ys) = set xs - F"
    "distinct (y # ys @ f # fs)" "f \<in> set xs"
  shows "free_all_loop st (Some y) (pxNext (cell st y)) = None"
  using assms
proof (induction ys arbitrary: st F y)
  case Nil
  have y: "y \<in> set xs" "y \<notin> F" "set xs \<subseteq> insert y F" using Nil.prems(3) by auto
  have n: "pxNext (cell st y) = Some f" using Nil.prems(2) by (auto simp: cell_def)
  from free_last [OF Nil.prems(1) y] obtain st' where "vNetBufFree st y = Some st'"
    "\<forall>z. cells st' z = (if z \<in> set xs then None else cells st z)" by blast
  then show ?case using n Nil.prems(5) by (subst free_all_loop.simps) simp
next
  case (Cons z ys)
  have y: "y \<in> set xs" "y \<notin> F" using Cons.prems(3) by auto
  have n: "pxNext (cell st y) = Some z" "linked (cells st) (Some z) (z # ys @ f # fs)"
    using Cons.prems(2) by (auto simp: cell_def)
  have s: "set (z # ys) = set xs - insert y F" using Cons.prems(3,4) by auto
  then have "\<not> set xs \<subseteq> insert y F" by auto
  from free_step [OF Cons.prems(1) y this] obtain st1 where st1: "vNetBufFree st y = Some st1"
    "freeing st1 xs (insert y F) B" "\<forall>w. w \<noteq> y \<longrightarrow> cells st1 w = cells st w" by blast
  have l: "linked (cells st1) (Some z) (z # ys @ f # fs)"
    by (rule linked_cong [OF n(2)]) (use st1(3) Cons.prems(4) in auto)
  have cz: "cells st1 z = Some (cell st1 z)" using l by (auto simp: cell_def)
  show ?case
    using Cons.IH [OF st1(2) l s] Cons.prems(4,5) st1(1) n(1) cz
    by (subst free_all_loop.simps) simp
qed

section \<open>Appending\<close>

lemma foldl_set_first:
  "distinct ys \<Longrightarrow>
   bufs (foldl (set_first f) st ys) = bufs st \<and>
   (\<forall>z. cell (foldl (set_first f) st ys) z = (if z \<in> set ys then (cell st z)\<lparr>pxFirst := f\<rparr> else cell st z)) \<and>
   (\<forall>z. cells (foldl (set_first f) st ys) z = (if z \<in> set ys then Some ((cell st z)\<lparr>pxFirst := f\<rparr>) else cells st z))"
  by (induction ys arbitrary: st) (auto simp: set_first_def)

lemma linked_join:
  "linked h p xs \<Longrightarrow> distinct xs \<Longrightarrow> xs \<noteq> [] \<Longrightarrow> h (last xs) = Some nl \<Longrightarrow> set xs \<inter> set ys = {} \<Longrightarrow>
   linked h r ys \<Longrightarrow> pxNext nl' = r \<Longrightarrow> linked (h(last xs := Some nl')) p (xs @ ys)"
proof (induction xs arbitrary: p)
  case (Cons x xs)
  show ?case
  proof (cases "xs = []")
    case True
    have "x \<notin> set ys" using Cons.prems(5) by simp
    then have "linked (h(x := Some nl')) r ys" using Cons.prems(6) by (simp add: linked_upd_out del: fun_upd_apply)
    then show ?thesis using True Cons.prems(1,7) by (simp add: fun_upd_same del: fun_upd_apply)
  next
    case False
    then have "x \<noteq> last xs" using Cons.prems(2) by auto
    then show ?thesis using Cons False by auto
  qed
qed simp

lemma linked_first_change:
  "linked h p xs \<Longrightarrow> (\<And>z nb. h z = Some nb \<Longrightarrow> \<exists>nb'. h' z = Some nb' \<and> pxNext nb' = pxNext nb) \<Longrightarrow> linked h' p xs"
  by (induction xs arbitrary: p) (auto, metis)

text \<open>Appending a chain of live segments joins the bytes.\<close>

lemma append_content:
  assumes "chain_ok st xs" "chain_ok st ys" "set xs \<inter> set ys = {}" "l \<in> set xs" "\<not> xFreed (cell st l)"
    and "\<forall>y \<in> set ys. \<not> xFreed (cell st y)"
  shows "\<exists>st'. vNetBufAppend st l (hd ys) = Some st' \<and> chain_ok st' (xs @ ys) \<and>
    content st' (xs @ ys) = content st xs @ content st ys"
proof -
  define lst where "lst = last xs"
  define st1 where "st1 = put st lst ((cell st lst)\<lparr>pxNext := Some (hd ys)\<rparr>)"
  define st2 where "st2 = foldl (set_first (hd xs)) st1 ys"
  have ne: "xs \<noteq> []" "ys \<noteq> []" "distinct xs" "distinct ys" using assms(1,2) by (auto simp: chain_ok_def)
  have lin: "lst \<in> set xs" using ne by (simp add: lst_def)
  have hy: "hd ys \<in> set ys" using ne by simp
  have fy: "pxFirst (cell st (hd ys)) = hd ys" using assms(2) hy by (auto simp: chain_ok_def)
  have cl: "cells st lst = Some (cell st lst)" by (rule chain_cell [OF assms(1) lin])
  have ly: "linked (cells st1) (Some (hd ys)) ys"
  proof -
    have "lst \<notin> set ys" using assms(3) lin by blast
    then show ?thesis using assms(2) linked_upd_out [of lst ys "cells st"] by (simp add: st1_def chain_ok_def)
  qed
  have lv: "live st1 ys = ys"
    using assms(3,6) lin by (auto simp: live_def st1_def filter_id_conv)
  have f1: "pxFirst (cell st1 l) = hd xs"
    using assms(1,4) lin by (auto simp: st1_def chain_ok_def)
  have "vNetBufAppend st l (hd ys) =
      (case walk (cells st1) (Some (hd ys)) of
         None \<Rightarrow> None
       | Some zs \<Rightarrow> Some (foldl (set_first (pxFirst (cell st1 l))) st1 (live st1 zs)))"
    using chain_of_ok [OF assms(1,4)] chain_cell [OF assms(2) hy] assms(5) ne fy
    unfolding st1_def lst_def by (simp add: vNetBufAppend_def Let_def)
  then have ap: "vNetBufAppend st l (hd ys) = Some st2"
    using walk_linked [OF ly] lv f1 by (simp add: st2_def)
  note fo = foldl_set_first [OF ne(4), of "hd xs" st1, folded st2_def]
  have lk: "linked (cells st1) (Some (hd xs)) (xs @ ys)"
    unfolding st1_def cells_put lst_def
    by (rule linked_join [where nl = "cell st lst" and r = "Some (hd ys)"])
       (use assms cl ne in \<open>auto simp: chain_ok_def lst_def\<close>)
  have "linked (cells st2) (Some (hd xs)) (xs @ ys)"
    by (rule linked_first_change [OF lk]) (use fo in \<open>auto simp: cell_def\<close>)
  moreover have "\<forall>x \<in> set (xs @ ys). pxFirst (cell st2 x) = hd xs"
    using fo assms(1) by (auto simp: st1_def chain_ok_def)
  ultimately have ok: "chain_ok st2 (xs @ ys)" using ne assms(3) by (auto simp: chain_ok_def)
  have same: "xFreed (cell st2 z) = xFreed (cell st z)" "seg_data st2 z = seg_data st z" for z
    using fo by (auto simp: st1_def seg_data_def split: option.split)
  have "seg_data st2 = seg_data st" by (simp add: fun_eq_iff same)
  then have "content st2 (xs @ ys) = content st xs @ content st ys"
    by (simp add: content_def live_def same)
  then show ?thesis using ap ok by blast
qed

section \<open>Interface\<close>

text \<open>What the users of a packet rely on: reading at an offset, and a cut that does not change
  the bytes.\<close>

locale byte_chain =
  fixes ok :: "'s \<Rightarrow> 'c \<Rightarrow> bool"
    and bytes_of :: "'s \<Rightarrow> 'c \<Rightarrow> bytes"
    and read_at :: "'s \<Rightarrow> 'c \<Rightarrow> nat \<Rightarrow> nat \<Rightarrow> bytes option"
    and fresh :: "'s \<Rightarrow> 'a \<Rightarrow> bool"
    and cut :: "'s \<Rightarrow> 'c \<Rightarrow> 'a \<Rightarrow> nat \<Rightarrow> ('s \<times> 'c) option"
  assumes read_bytes: "ok s c \<Longrightarrow> read_at s c off n = Some (take n (drop off (bytes_of s c)))"
    and cut_bytes: "ok s c \<Longrightarrow> fresh s a \<Longrightarrow> cut s c a n = Some (s', c') \<Longrightarrow>
      ok s' c' \<and> bytes_of s' c' = bytes_of s c"
    and cut_works: "ok s c \<Longrightarrow> fresh s a \<Longrightarrow> bytes_of s c \<noteq> [] \<Longrightarrow> n \<le> length (bytes_of s c) \<Longrightarrow>
      cut s c a n \<noteq> None"
begin

lemma read_all: "ok s c \<Longrightarrow> length (bytes_of s c) \<le> n \<Longrightarrow> read_at s c 0 n = Some (bytes_of s c)"
  by (simp add: read_bytes)

lemma read_in_two: "ok s c \<Longrightarrow> read_at s c off n = Some a \<Longrightarrow> read_at s c (off + n) m = Some b \<Longrightarrow>
  read_at s c off (n + m) = Some (a @ b)"
  by (auto simp: read_bytes take_add add.commute [of n off])

text \<open>Cutting a header off does not disturb what is read, before or after the cut.\<close>

lemma read_after_cut:
  "ok s c \<Longrightarrow> fresh s a \<Longrightarrow> cut s c a n = Some (s', c') \<Longrightarrow> read_at s' c' off m = read_at s c off m"
  using cut_bytes [of s c a n s' c'] read_bytes by simp

end

definition nb_ok :: "nb_state \<Rightarrow> nat list \<Rightarrow> bool" where
  "nb_ok st xs = (chain_ok st xs \<and> (\<forall>x \<in> set xs. seg_ok st x))"

definition nb_cut :: "nb_type \<Rightarrow> nb_state \<Rightarrow> nat list \<Rightarrow> nat \<Rightarrow> nat \<Rightarrow> (nb_state \<times> nat list) option" where
  "nb_cut t st xs y n =
    (case xNetBufSplit (Some y) (hd xs) t n st of
       Some (Inr st') \<Rightarrow> map_option (\<lambda>xs'. (st', xs')) (chain_of st' (hd xs))
     | _ \<Rightarrow> None)"

lemma nb_hd: "nb_ok st xs \<Longrightarrow> hd xs \<in> set xs"
  by (simp add: nb_ok_def chain_ok_def)

lemma nb_cut_cases:
  assumes "nb_ok st xs" "cells st y = None" "live st xs \<noteq> []" "n \<le> length (content st xs)"
  obtains st' xs' where "nb_cut t st xs y n = Some (st', xs')" "nb_ok st' xs'" "content st' xs' = content st xs"
proof -
  note h = nb_hd [OF assms(1)]
  obtain st' xs' where r: "xNetBufSplit (Some y) (hd xs) t n st = Some (Inr st')" "chain_ok st' xs'"
    "\<forall>z \<in> set xs'. seg_ok st' z" "set xs \<subseteq> set xs'" "content st' xs' = content st xs"
    using split_content [of st xs "hd xs" y n t] assms h unfolding nb_ok_def by metis
  have "chain_of st' (hd xs) = Some xs'" using chain_of_ok [OF r(2)] r(4) h by blast
  then show thesis using that [of st' xs'] r by (simp add: nb_cut_def nb_ok_def)
qed

lemma nb_cut_short:
  assumes "nb_ok st xs" "length (content st xs) < n"
  shows "nb_cut t st xs y n = None"
  using split_too_short [of st xs "hd xs" n "Some y" t] assms nb_hd [OF assms(1)]
  by (simp add: nb_cut_def nb_ok_def)

lemma nb_cut_nothing_live: "nb_ok st xs \<Longrightarrow> live st xs = [] \<Longrightarrow> nb_cut t st xs y n = None"
  using nb_hd [of st xs] chain_of_ok [of st xs "hd xs"]
  by (simp add: nb_cut_def nb_ok_def xNetBufSplit_def)

interpretation nb: byte_chain nb_ok content "\<lambda>st xs. unNetBufRead st (hd xs)" "\<lambda>st y. cells st y = None" "nb_cut t"
  for t
proof
  fix s c off n a s' c'
  show "unNetBufRead s (hd c) off n = Some (take n (drop off (content s c)))" if "nb_ok s c"
    using that nb_hd [OF that] by (intro read_content) (auto simp: nb_ok_def)
  assume a: "nb_ok s c" "cells s a = None"
  show "nb_ok s' c' \<and> content s' c' = content s c" if cut: "nb_cut t s c a n = Some (s', c')"
  proof (cases "live s c = [] \<or> length (content s c) < n")
    case True
    then show ?thesis using cut nb_cut_short [OF a(1)] nb_cut_nothing_live [OF a(1)] by auto
  next
    case False
    then show ?thesis using cut nb_cut_cases [OF a, of n t] by (metis (no_types, lifting) linorder_not_less option.inject prod.inject)
  qed
  show "nb_cut t s c a n \<noteq> None" if "content s c \<noteq> []" "n \<le> length (content s c)"
  proof -
    have "live s c \<noteq> []" using that(1) by (auto simp: content_def)
    then show ?thesis using nb_cut_cases [OF a _ that(2), of t] by (metis option.distinct(1))
  qed
qed

section \<open>Properties\<close>

text \<open>C6. Reading from a chain at any offset gives exactly the bytes of its live segments from
  that offset, as many as asked for or as there are, and never reads outside of a
  buffer.\<close>

theorem netbuf_read:
  assumes "nb_ok st xs" "a \<in> set xs"
  shows "unNetBufRead st a off n = Some (take n (drop off (content st xs)))"
proof -
  have "chain_of st a = chain_of st (hd xs)"
    using chain_of_ok [of st xs] assms nb_hd [OF assms(1)] by (simp add: nb_ok_def)
  then have "unNetBufRead st a off n = unNetBufRead st (hd xs) off n" by (simp add: unNetBufRead_def)
  then show ?thesis using nb.read_bytes [OF assms(1)] by simp
qed

text \<open>A chain of two segments on one buffer of four bytes and a segment on another.\<close>

definition demo :: nb_state where
  "demo =
    \<lparr>cells = (\<lambda>x. None)
      (0 := Some \<lparr>pxNext = Some 1, pxFirst = 0, eType = NB_RINA_PCI, unSz = 3, pxBuf = Some (5, 0),
                 pxBufStart = Some 5, xFreed = False, freemethod = Some FreePool\<rparr>,
       1 := Some \<lparr>pxNext = Some 2, pxFirst = 0, eType = NB_RINA_DATA, unSz = 1, pxBuf = Some (5, 3),
                 pxBufStart = Some 5, xFreed = False, freemethod = Some FreePool\<rparr>,
       2 := Some \<lparr>pxNext = None, pxFirst = 0, eType = NB_RINA_DATA, unSz = 2, pxBuf = Some (6, 0),
                 pxBufStart = Some 6, xFreed = False, freemethod = Some FreeNormal\<rparr>),
     bufs = (\<lambda>x. None)(5 := Some [1, 2, 3, 4], 6 := Some [5, 6])\<rparr>"

lemma demo_ok: "nb_ok demo [0, 1, 2]"
  by (simp add: demo_def nb_ok_def chain_ok_def seg_ok_def cell_def)

lemma demo_content: "content demo [0, 1, 2] = [1, 2, 3, 4, 5, 6]"
  by (simp add: demo_def content_def live_def seg_data_def cell_def numeral_3_eq_3)

lemma netbuf_read_witness: "unNetBufRead demo 1 2 3 = Some [3, 4, 5]"
  using netbuf_read [OF demo_ok, of 1 2 3] by (simp add: demo_content del: One_nat_def)

text \<open>Splitting a chain at a number of bytes it has gives a chain with the same bytes in
  which some segments hold exactly the bytes before the cut; splitting further than its
  size fails with \<open>ERR_NETBUF_SPLIT_FAIL\<close>.\<close>

theorem netbuf_split:
  assumes "nb_ok st xs" "a \<in> set xs" "cells st y = None" "live st xs \<noteq> []"
  shows "if n \<le> length (content st xs) then
      \<exists>st' xs' ps qs. xNetBufSplit (Some y) a t n st = Some (Inr st') \<and> nb_ok st' xs' \<and> set xs \<subseteq> set xs' \<and>
        content st' xs' = content st xs \<and> live st' xs' = ps @ qs \<and> ps \<noteq> [] \<and>
        concat (List.map (seg_data st') ps) = take n (content st xs) \<and>
        concat (List.map (seg_data st') qs) = drop n (content st xs)
    else xNetBufSplit (Some y) a t n st = Some (Inl ERR_NETBUF_SPLIT_FAIL)"
proof (cases "n \<le> length (content st xs)")
  case True
  then obtain st' xs' ps qs where "xNetBufSplit (Some y) a t n st = Some (Inr st')" "nb_ok st' xs'"
    "set xs \<subseteq> set xs'" "content st' xs' = content st xs" "live st' xs' = ps @ qs" "ps \<noteq> []"
    "concat (List.map (seg_data st') ps) = take n (content st xs)"
    "concat (List.map (seg_data st') qs) = drop n (content st xs)"
    using split_content [OF _ _ assms(2,3,4), of n t] assms(1) unfolding nb_ok_def by metis
  then show ?thesis using True by (simp only: if_True) blast
next
  case False
  then show ?thesis using split_too_short [of st xs a n] assms(1,2) by (simp add: nb_ok_def)
qed

text \<open>Chains whose segments are all alive and release their buffers.\<close>

definition all_live :: "nb_state \<Rightarrow> nat list \<Rightarrow> bool" where
  "all_live st xs = (nb_ok st xs \<and> (\<forall>x \<in> set xs. \<not> xFreed (cell st x) \<and>
     (freemethod (cell st x) = Some FreeNormal \<or> freemethod (cell st x) = Some FreePool)))"

lemma free_all_live:
  assumes "all_live st xs" "distinct ys" "set ys = set xs" "a \<in> set xs"
  shows "\<exists>st'. free_each st ys = Some st' \<and>
      (\<forall>x. cells st' x = (if x \<in> set xs then None else cells st x)) \<and>
      (\<forall>b. bufs st' b = (if \<exists>x \<in> set xs. pxBufStart (cell st x) = Some b then None else bufs st b)) \<and>
      vNetBufFreeAll st a = free_each st xs"
proof -
  have ok: "chain_ok st xs" using assms(1) by (simp add: all_live_def nb_ok_def)
  have f: "freeing st xs {} {b. \<exists>x \<in> set xs. pxBufStart (cell st x) = Some b}"
    by (rule freeing_start) (use assms(1) in \<open>auto simp: all_live_def nb_ok_def\<close>)
  have "ys \<noteq> []" using assms(3,4) by auto
  then have each: "\<exists>st'. free_each st ys = Some st' \<and>
      (\<forall>x. cells st' x = (if x \<in> set xs then None else cells st x)) \<and>
      (\<forall>b. bufs st' b = (if \<exists>x \<in> set xs. pxBufStart (cell st x) = Some b then None else bufs st b))"
    using free_each_chain [OF f _ assms(2)] assms(3) by simp
  obtain z zs where xs: "xs = z # zs" using assms(4) by (cases xs) auto
  have "linked (cells st) (Some z) (z # zs)" "distinct (z # zs)" "pxFirst (cell st a) = z"
    using ok assms(4) by (auto simp: chain_ok_def xs)
  moreover have "cells st a = Some (cell st a)" "cells st z = Some (cell st z)"
    using chain_cell [OF ok] assms(4) by (auto simp: xs)
  ultimately have "vNetBufFreeAll st a = free_each st xs"
    using free_all_loop_ok [OF f, of z zs] by (simp add: vNetBufFreeAll_def xs)
  then show ?thesis using each by simp
qed

text \<open>C1. Freeing the segments of a chain one by one, in any order, or all at once, succeeds: no
  released segment is touched and no underlying buffer is released twice, and in the
  end every segment of the chain and every buffer it used is released, and nothing
  else.\<close>

theorem netbuf_free_once:
  assumes "nb_ok st xs" "\<forall>x \<in> set xs. \<not> xFreed (cell st x)"
    and "\<forall>x \<in> set xs. freemethod (cell st x) = Some FreeNormal \<or> freemethod (cell st x) = Some FreePool"
    and "distinct ys" "set ys = set xs" "a \<in> set xs"
  shows "\<exists>st'. free_each st ys = Some st' \<and>
      (\<forall>x. cells st' x = (if x \<in> set xs then None else cells st x)) \<and>
      (\<forall>b. bufs st' b = (if \<exists>x \<in> set xs. pxBufStart (cell st x) = Some b then None else bufs st b)) \<and>
      vNetBufFreeAll st a = free_each st xs"
  using free_all_live [OF _ assms(4-6)] assms(1-3) by (simp add: all_live_def)

lemma netbuf_free_once_witness:
  "\<exists>st'. vNetBufFreeAll demo 1 = free_each demo [0, 1, 2] \<and> free_each demo [2, 0, 1] = Some st' \<and>
    cells st' 0 = None \<and> bufs st' 5 = None"
proof -
  have h: "\<forall>x \<in> set [0, 1, 2]. \<not> xFreed (cell demo x)"
    "\<forall>x \<in> set [0, 1, 2]. freemethod (cell demo x) = Some FreeNormal \<or> freemethod (cell demo x) = Some FreePool"
    "distinct [2, 0, 1 :: nat]" "set [2, 0, 1] = set [0, 1, 2 :: nat]" "1 \<in> set [0, 1, 2 :: nat]"
    and b: "\<exists>x \<in> set [0, 1, 2]. pxBufStart (cell demo x) = Some 5"
    by (auto simp: demo_def cell_def)
  show ?thesis using netbuf_free_once [OF demo_ok h] b by auto
qed

text \<open>After the last segment of a chain was freed on its own, \<^verbatim>\<open>vNetBufFreeAll\<close> goes wrong: the
  last live segment releases the whole chain and the loop goes on into the released
  segment.\<close>

theorem netbuf_free_all_dangling:
  assumes "nb_ok st (xs @ [f])" "\<forall>x \<in> set (xs @ [f]). \<not> xFreed (cell st x)" "xs \<noteq> []"
    and "\<forall>x \<in> set (xs @ [f]). freemethod (cell st x) = Some FreeNormal \<or> freemethod (cell st x) = Some FreePool"
    and "a \<in> set xs"
  shows "\<exists>st'. vNetBufFree st f = Some st' \<and> vNetBufFreeAll st' a = None"
proof -
  have ok: "chain_ok st (xs @ [f])" using assms(1) by (simp add: nb_ok_def)
  let ?B = "{b. \<exists>x \<in> set (xs @ [f]). pxBufStart (cell st x) = Some b}"
  have fr: "freeing st (xs @ [f]) {} ?B"
    by (rule freeing_start) (use assms in \<open>auto simp: nb_ok_def\<close>)
  have d: "distinct (xs @ [f])" using ok by (simp add: chain_ok_def)
  have "\<not> set (xs @ [f]) \<subseteq> insert f {}" using d assms(3) by (cases xs) auto
  from free_step [OF fr _ _ this] obtain st' where st': "vNetBufFree st f = Some st'"
    "freeing st' (xs @ [f]) {f} ?B" "\<forall>y. y \<noteq> f \<longrightarrow> cells st' y = cells st y" by auto
  have ok': "chain_ok st' (xs @ [f])" using st'(2) by (simp add: freeing_def)
  obtain y ys where xs: "xs = y # ys" using assms(3) by (cases xs) auto
  have l: "linked (cells st') (Some y) (y # ys @ f # [])" "distinct (y # ys @ f # [])"
    using ok' by (auto simp: chain_ok_def xs)
  have s: "set (y # ys) = set (xs @ [f]) - {f}" using d by (auto simp: xs)
  have "pxFirst (cell st' a) = y" using ok' assms(5) by (auto simp: chain_ok_def xs)
  moreover have "cells st' a = Some (cell st' a)" "cells st' y = Some (cell st' y)"
    using chain_cell [OF ok'] assms(5) by (auto simp: xs)
  ultimately show ?thesis
    using free_all_loop_dangling [OF st'(2) l(1) s l(2)] st'(1) by (simp add: vNetBufFreeAll_def)
qed

end
