(* ===== verification/Rina_Name.thy ===== *)
theory Rina_Name
  imports Rs_Error
begin

text \<open>Application names (\<^verbatim>\<open>common/rina_name.c\<close>): a name has four component pointers.  A
  pointer is the memory from it to the end of its block, so a component is the C
  string there, and a copy past the block shows as \<open>None\<close>.\<close>

section \<open>Model\<close>

definition DELIM :: u8 where
  "DELIM = 47"

record rname =
  unPostLn :: nat
  pcProcessName :: bytes
  pcProcessInstance :: bytes
  pcEntityName :: bytes
  pcEntityInstance :: bytes
  pxFree :: bool

text \<open>\<^verbatim>\<open>for (; *c != CFG_DELIMITER && *c != 0; c++)\<close>; the block ends the scan where the
  C code would run on.\<close>

function scan :: "bytes \<Rightarrow> nat \<Rightarrow> nat" where
  "scan blk c = (if c < length blk \<and> blk ! c \<noteq> DELIM \<and> blk ! c \<noteq> 0 then scan blk (c + 1) else c)"
  by pat_completeness auto
termination by (relation "measure (\<lambda>(blk, c). length blk - c)") auto

declare scan.simps [simp del]

text \<open>The block after the delimiters were overwritten and the offsets of the four
  components.\<close>

definition prvBreakdownNameString :: "bytes \<Rightarrow> (bytes \<times> nat \<times> nat \<times> nat) option" where
  "prvBreakdownNameString blk =
    (let c1 = scan blk 0 in
     if blk ! c1 = 0 then None
     else let b1 = blk[c1 := 0]; c2 = scan b1 (c1 + 1) in
     if b1 ! c2 = 0 then None
     else let b2 = b1[c2 := 0]; c3 = scan b2 (c2 + 1) in
     if b2 ! c3 = DELIM then Some (b2[c3 := 0], c1 + 1, c2 + 1, c3 + 1)
     else Some (b2, c1 + 1, c2 + 1, c3))"

definition name_at :: "nat \<Rightarrow> bytes \<Rightarrow> nat \<Rightarrow> nat \<Rightarrow> nat \<Rightarrow> bool \<Rightarrow> rname" where
  "name_at ln blk o1 o2 o3 fr =
    \<lparr>unPostLn = ln, pcProcessName = blk, pcProcessInstance = drop o1 blk, pcEntityName = drop o2 blk,
     pcEntityInstance = drop o3 blk, pxFree = fr\<rparr>"

definition SIZEOF_RNAME :: nat where
  "SIZEOF_RNAME = 48"

text \<open>The string is copied with \<^verbatim>\<open>strcpy\<close> past the structure.\<close>

definition pxNameNewFromString :: "allocator \<Rightarrow> bytes \<Rightarrow> rname res" where
  "pxNameNewFromString alloc nm =
    (let len = strlen nm in
     case alloc (SIZEOF_RNAME + len + 1) of
       None \<Rightarrow> Inl ERR_OOM
     | Some blk \<Rightarrow>
         (case mem_write (drop SIZEOF_RNAME blk) 0 (cstring nm @ [0]) of
            None \<Rightarrow> Inl ERR_OVERFLOW
          | Some dat \<Rightarrow>
              (case prvBreakdownNameString dat of
                 None \<Rightarrow> Inl ERR_OOM
               | Some (b, o1, o2, o3) \<Rightarrow> Inr (name_at len b o1 o2 o3 True))))"

definition xNameAssignFromString :: "allocator \<Rightarrow> bytes \<Rightarrow> rname res" where
  "xNameAssignFromString alloc nm =
    (let len = strlen nm in
     case alloc (len + 1) of
       None \<Rightarrow> Inl ERR_OOM
     | Some blk \<Rightarrow>
         (case mem_write blk 0 (cstring nm @ [0]) of
            None \<Rightarrow> Inl ERR_OVERFLOW
          | Some dat \<Rightarrow>
              (case prvBreakdownNameString dat of
                 None \<Rightarrow> Inl ERR_OOM
               | Some (b, o1, o2, o3) \<Rightarrow> Inr (name_at 0 b o1 o2 o3 True))))"

definition prvNameCopyAssignParts ::
  "bytes \<Rightarrow> bytes \<Rightarrow> bytes \<Rightarrow> bytes \<Rightarrow> bytes \<Rightarrow> (bytes \<times> nat \<times> nat \<times> nat) option" where
  "prvNameCopyAssignParts dat pn pi en ei =
    (let a = cstring pn @ [0]; b = cstring pi @ [0]; c = cstring en @ [0]; d = cstring ei @ [0] in
     map_option (\<lambda>r. (r, length a, length a + length b, length a + length b + length c))
       (mem_write dat 0 (a @ b @ c @ d)))"

definition pxNameNewFromParts :: "allocator \<Rightarrow> bytes \<Rightarrow> bytes \<Rightarrow> bytes \<Rightarrow> bytes \<Rightarrow> rname res" where
  "pxNameNewFromParts alloc pn pi en ei =
    (let len = strlen pn + strlen pi + strlen en + strlen ei in
     case alloc (SIZEOF_RNAME + len + 4) of
       None \<Rightarrow> Inl ERR_OOM
     | Some blk \<Rightarrow>
         (case prvNameCopyAssignParts (drop SIZEOF_RNAME blk) pn pi en ei of
            None \<Rightarrow> Inl ERR_OVERFLOW
          | Some (b, o1, o2, o3) \<Rightarrow> Inr (name_at len b o1 o2 o3 True)))"

definition vNameAssignFromPartsStatic :: "bytes \<Rightarrow> bytes \<Rightarrow> bytes \<Rightarrow> bytes \<Rightarrow> rname" where
  "vNameAssignFromPartsStatic pn pi en ei =
    \<lparr>unPostLn = 0, pcProcessName = pn, pcProcessInstance = pi, pcEntityName = en,
     pcEntityInstance = ei, pxFree = False\<rparr>"

text \<open>A component pointer may be \<^verbatim>\<open>NULL\<close> here.\<close>

definition opt_len :: "bytes option \<Rightarrow> nat" where
  "opt_len p = (case p of None \<Rightarrow> 1 | Some q \<Rightarrow> strlen q)"

definition opt_str :: "bytes option \<Rightarrow> bytes" where
  "opt_str p = (case p of None \<Rightarrow> [0] | Some q \<Rightarrow> q)"

definition xNameAssignFromPartsDup ::
  "allocator \<Rightarrow> bytes option \<Rightarrow> bytes option \<Rightarrow> bytes option \<Rightarrow> bytes option \<Rightarrow> rname res" where
  "xNameAssignFromPartsDup alloc pn pi en ei =
    (let len = opt_len pn + opt_len pi + opt_len en + opt_len ei in
     case alloc (len + 4 + 1) of
       None \<Rightarrow> Inl ERR_OOM
     | Some blk \<Rightarrow>
         (case prvNameCopyAssignParts blk (opt_str pn) (opt_str pi) (opt_str en) (opt_str ei) of
            None \<Rightarrow> Inl ERR_OVERFLOW
          | Some (b, o1, o2, o3) \<Rightarrow> Inr (name_at 0 b o1 o2 o3 True)))"

definition vNameAssignStatic :: "rname \<Rightarrow> rname" where
  "vNameAssignStatic src =
    vNameAssignFromPartsStatic (pcProcessName src) (pcProcessInstance src) (pcEntityName src)
      (pcProcessInstance src)"

definition xNameAssignDup :: "allocator \<Rightarrow> rname \<Rightarrow> rname res" where
  "xNameAssignDup alloc src =
    xNameAssignFromPartsDup alloc (Some (pcProcessName src)) (Some (pcProcessInstance src))
      (Some (pcEntityName src)) (Some (pcProcessInstance src))"

section \<open>Printing\<close>

text \<open>The loop of \<^verbatim>\<open>vNameToStringBuf\<close> at component \<open>i\<close>, with the write position \<open>px\<close> and the
  room \<open>mx\<close>; \<open>None\<close> when it writes past the buffer.\<close>

fun name_loop :: "nat \<Rightarrow> bytes list \<Rightarrow> nat \<Rightarrow> nat \<Rightarrow> nat \<Rightarrow> bytes \<Rightarrow> bytes option" where
  "name_loop sz [] i px mx buf = Some buf"
| "name_loop sz (s # ss) i px mx buf =
    (let n = (if strlen s < mx then strlen s else mx) in
     case mem_write buf px (strncpy s n @ [0]) of
       None \<Rightarrow> None
     | Some b1 \<Rightarrow>
         (let px' = px + n + 1;
              b2 = (if i < 3 then b1[px' - 1 := DELIM] else b1);
              mx' = mx - n in
          if mx' = 0 then mem_write b2 (sz - 1) [0]
          else name_loop sz ss (i + 1) px' mx' b2))"

definition vNameToStringBuf :: "rname \<Rightarrow> bytes \<Rightarrow> nat \<Rightarrow> bytes option" where
  "vNameToStringBuf nm buf sz =
    name_loop sz [pcProcessName nm, pcProcessInstance nm, pcEntityName nm, pcEntityInstance nm]
      0 0 (if sz = 0 then 2 ^ 64 - 1 else sz - 1) buf"

definition pcNameToString :: "allocator \<Rightarrow> rname \<Rightarrow> bytes res" where
  "pcNameToString alloc nm =
    (if unPostLn nm = 0 then
       (let ln = strlen (pcProcessName nm) + strlen (pcProcessInstance nm) + strlen (pcEntityName nm)
                 + strlen (pcEntityInstance nm) + 4 in
        case alloc ln of
          None \<Rightarrow> Inl ERR_OOM
        | Some dst \<Rightarrow> (case vNameToStringBuf nm dst ln of None \<Rightarrow> Inl ERR_OVERFLOW | Some r \<Rightarrow> Inr r))
     else
       (let ln = unPostLn nm + 1 in
        case alloc ln of
          None \<Rightarrow> Inl ERR_OOM
        | Some dst \<Rightarrow>
            (case mem_write dst 0 (take ln (pcProcessName nm)) of
               None \<Rightarrow> Inl ERR_OVERFLOW
             | Some r \<Rightarrow> Inr (List.map (\<lambda>b. if b = 0 then DELIM else b) (take (ln - 1) r) @ drop (ln - 1) r))))"

section \<open>Scanning\<close>

lemma scan_stop: "c < length blk \<Longrightarrow> blk ! c = DELIM \<or> blk ! c = 0 \<Longrightarrow> scan blk c = c"
  by (subst scan.simps) auto

lemma scan_field:
  assumes "DELIM \<notin> set a" "0 \<notin> set a" "x = DELIM \<or> x = 0"
  shows "scan (pre @ a @ x # post) (length pre) = length pre + length a"
  using assms(1,2)
proof (induction a arbitrary: pre)
  case Nil
  then show ?case using assms(3) by (simp add: scan_stop nth_append)
next
  case (Cons y a)
  have "scan (pre @ (y # a) @ x # post) (length pre) =
      scan ((pre @ [y]) @ a @ x # post) (length (pre @ [y]))"
    using Cons.prems by (subst scan.simps) (auto simp: nth_append)
  then show ?case using Cons.IH [of "pre @ [y]"] Cons.prems by simp
qed

lemma upd_app: "length pre = n \<Longrightarrow> (pre @ x # post)[n := y] = pre @ y # post"
  by auto

lemma nth_app: "length pre = n \<Longrightarrow> (pre @ x # post) ! n = x"
  by auto

text \<open>The fields of a string: at most \<open>n\<close> delimiters are used.\<close>

fun fields :: "nat \<Rightarrow> bytes \<Rightarrow> bytes list" where
  "fields 0 s = [s]"
| "fields (Suc n) s =
    (case dropWhile (\<lambda>b. b \<noteq> DELIM) s of
       [] \<Rightarrow> [s]
     | _ # r \<Rightarrow> takeWhile (\<lambda>b. b \<noteq> DELIM) s # fields n r)"

fun join :: "bytes list \<Rightarrow> bytes" where
  "join [] = []"
| "join [a] = a"
| "join (a # b # r) = a @ DELIM # join (b # r)"

lemma fields_cons: "fields n s = f # fs \<Longrightarrow> s = f @ (if fs = [] then [] else DELIM # join fs)"
proof (induction n arbitrary: s f fs)
  case (Suc n)
  show ?case
  proof (cases "dropWhile (\<lambda>b. b \<noteq> DELIM) s")
    case Nil
    then show ?thesis using Suc.prems by (simp del: dropWhile_eq_Nil_conv)
  next
    case (Cons x r)
    then have x: "x = DELIM" using hd_dropWhile [of "\<lambda>b. b \<noteq> DELIM" s] by simp
    have s: "s = takeWhile (\<lambda>b. b \<noteq> DELIM) s @ x # r"
      using takeWhile_dropWhile_id [of "\<lambda>b. b \<noteq> DELIM" s] Cons by simp
    have f: "f = takeWhile (\<lambda>b. b \<noteq> DELIM) s" "fs = fields n r" using Suc.prems Cons by auto
    have "fs \<noteq> []" unfolding f by (cases n) (auto split: list.split)
    then obtain g gs where g: "fs = g # gs" by (cases fs) auto
    then have "r = join fs" using Suc.IH [of r g gs] f by (cases gs) auto
    then show ?thesis using s f(1) x \<open>fs \<noteq> []\<close> by simp
  qed
qed simp

lemma join_fields: "join (fields n s) = s"
  using fields_cons [of n s] by (cases "fields n s" rule: join.cases) (auto, (cases n; auto split: list.splits)+)

lemma fields_no_delim: "fields n s = fs @ g # gs \<Longrightarrow> gs \<noteq> [] \<or> length (fs @ g # gs) \<le> n \<Longrightarrow> DELIM \<notin> set g"
proof (induction n arbitrary: s fs)
  case 0
  then show ?case by (cases fs) auto
next
  case (Suc n)
  show ?case
  proof (cases "dropWhile (\<lambda>b. b \<noteq> DELIM) s")
    case Nil
    then have "DELIM \<notin> set s" by (auto simp: dropWhile_eq_Nil_conv)
    then show ?thesis using Suc.prems Nil by (cases fs) auto
  next
    case (Cons x r)
    show ?thesis
    proof (cases fs)
      case Nil
      then show ?thesis using Suc.prems Cons by (auto dest: set_takeWhileD)
    next
      case (Cons f fs')
      then show ?thesis using Suc.IH [of r fs'] Suc.prems \<open>dropWhile _ s = _\<close> by auto
    qed
  qed
qed

section \<open>Parsing\<close>

lemma breakdown_four:
  assumes "DELIM \<notin> set a" "DELIM \<notin> set b" "DELIM \<notin> set c" "0 \<notin> set a" "0 \<notin> set b" "0 \<notin> set c"
  shows "prvBreakdownNameString (a @ DELIM # b @ DELIM # c @ DELIM # d @ [0]) =
    Some (a @ 0 # b @ 0 # c @ 0 # d @ [0], length a + 1, length a + length b + 2,
      length a + length b + length c + 3)"
proof -
  have D: "DELIM \<noteq> 0" by (simp add: DELIM_def)
  have 1: "scan (a @ DELIM # b @ DELIM # c @ DELIM # d @ [0]) 0 = length a"
    using scan_field [OF assms(1,4), of DELIM "[]"] by simp
  have 2: "scan (a @ 0 # b @ DELIM # c @ DELIM # d @ [0]) (Suc (length a)) = Suc (length a + length b)"
    using scan_field [OF assms(2,5), of DELIM "a @ [0]"] by simp
  have 3: "scan (a @ 0 # b @ 0 # c @ DELIM # d @ [0]) (Suc (Suc (length a + length b))) =
      Suc (Suc (length a + length b + length c))"
    using scan_field [OF assms(3,6), of DELIM "a @ 0 # b @ [0]"] by simp
  show ?thesis unfolding prvBreakdownNameString_def
    using D by (simp add: 1 2 3 Let_def nth_append list_update_append)
qed

lemma breakdown_three:
  assumes "DELIM \<notin> set a" "DELIM \<notin> set b" "DELIM \<notin> set c" "0 \<notin> set a" "0 \<notin> set b" "0 \<notin> set c"
  shows "prvBreakdownNameString (a @ DELIM # b @ DELIM # c @ [0]) =
    Some (a @ 0 # b @ 0 # c @ [0], length a + 1, length a + length b + 2,
      length a + length b + length c + 2)"
proof -
  have D: "DELIM \<noteq> 0" by (simp add: DELIM_def)
  have 1: "scan (a @ DELIM # b @ DELIM # c @ [0]) 0 = length a"
    using scan_field [OF assms(1,4), of DELIM "[]"] by simp
  have 2: "scan (a @ 0 # b @ DELIM # c @ [0]) (Suc (length a)) = Suc (length a + length b)"
    using scan_field [OF assms(2,5), of DELIM "a @ [0]"] by simp
  have 3: "scan (a @ 0 # b @ 0 # c @ [0]) (Suc (Suc (length a + length b))) =
      Suc (Suc (length a + length b + length c))"
    using scan_field [OF assms(3,6), of 0 "a @ 0 # b @ [0]"] by simp
  show ?thesis unfolding prvBreakdownNameString_def
    using D by (simp add: 1 2 3 Let_def nth_append list_update_append)
qed

lemma breakdown_two:
  assumes "DELIM \<notin> set a" "DELIM \<notin> set b" "0 \<notin> set a" "0 \<notin> set b"
  shows "prvBreakdownNameString (a @ DELIM # b @ [0]) = None"
proof -
  have 1: "scan (a @ DELIM # b @ [0]) 0 = length a"
    using scan_field [OF assms(1,3), of DELIM "[]"] by simp
  have 2: "scan (a @ 0 # b @ [0]) (Suc (length a)) = Suc (length a + length b)"
    using scan_field [OF assms(2,4), of 0 "a @ [0]"] by simp
  show ?thesis unfolding prvBreakdownNameString_def
    by (simp add: 1 2 Let_def nth_append list_update_append)
qed

lemma breakdown_one:
  assumes "DELIM \<notin> set a" "0 \<notin> set a"
  shows "prvBreakdownNameString (a @ [0]) = None"
  using scan_field [OF assms, of 0 "[]" "[]"]
  by (simp add: prvBreakdownNameString_def nth_append)

text \<open>The components as C strings.\<close>

definition components :: "rname \<Rightarrow> bytes list" where
  "components nm = [cstring (pcProcessName nm), cstring (pcProcessInstance nm),
     cstring (pcEntityName nm), cstring (pcEntityInstance nm)]"

lemma fields_length: "fields n s \<noteq> [] \<and> length (fields n s) \<le> Suc n"
  by (induction n arbitrary: s) (auto split: list.split)

lemma fields_3_cases:
  obtains a where "fields 3 s = [a]" | a b where "fields 3 s = [a, b]"
  | a b c where "fields 3 s = [a, b, c]" | a b c d where "fields 3 s = [a, b, c, d]"
proof -
  obtain f fs where f: "fields 3 s = f # fs" "length fs \<le> 3"
    using fields_length [of 3 s] by (cases "fields 3 s") auto
  then consider "fs = []" | b where "fs = [b]" | b c where "fs = [b, c]" | b c d where "fs = [b, c, d]"
    by (cases fs rule: remdups_adj.cases; cases "tl (tl fs)") (auto simp: le_Suc_eq numeral_3_eq_3 length_Suc_conv)
  then show thesis by cases (use f that in auto)
qed

lemma fields_zero: "0 \<notin> set s \<Longrightarrow> f \<in> set (fields n s) \<Longrightarrow> 0 \<notin> set f"
proof -
  have "set f \<subseteq> set (join fs)" if "f \<in> set fs" for f fs
    using that by (induction fs rule: join.induct) auto
  then show "0 \<notin> set s \<Longrightarrow> f \<in> set (fields n s) \<Longrightarrow> 0 \<notin> set f"
    by (metis join_fields subsetD)
qed

text \<open>What the breakdown does with any C string, in terms of its fields.\<close>

lemma breakdown_fields:
  assumes "0 \<notin> set s"
  shows "prvBreakdownNameString (s @ [0]) =
    (case fields 3 s of
       [a, b, c, d] \<Rightarrow> Some (a @ 0 # b @ 0 # c @ 0 # d @ [0], length a + 1, length a + length b + 2,
                            length a + length b + length c + 3)
     | [a, b, c] \<Rightarrow> Some (a @ 0 # b @ 0 # c @ [0], length a + 1, length a + length b + 2,
                         length a + length b + length c + 2)
     | _ \<Rightarrow> None)"
proof -
  note z = fields_zero [OF assms, of _ 3]
  note j = join_fields [of 3 s]
  note d = fields_no_delim [of 3 s]
  show ?thesis
  proof (cases rule: fields_3_cases [of s])
    case (1 a)
    have "s = a" using j 1 by simp
    moreover have "DELIM \<notin> set a" using d [of "[]" a "[]"] 1 by simp
    ultimately show ?thesis using breakdown_one [of a] assms 1 by simp
  next
    case (2 a b)
    have s: "s = a @ DELIM # b" using j 2 by simp
    have "DELIM \<notin> set a" "DELIM \<notin> set b" using d [of "[]" a "[b]"] d [of "[a]" b "[]"] 2 by simp_all
    then show ?thesis using breakdown_two [of a b] z [of a] z [of b] 2 by (simp add: s)
  next
    case (3 a b c)
    have s: "s = a @ DELIM # b @ DELIM # c" using j 3 by simp
    have "DELIM \<notin> set a" "DELIM \<notin> set b" "DELIM \<notin> set c"
      using d [of "[]" a "[b, c]"] d [of "[a]" b "[c]"] d [of "[a, b]" c "[]"] 3 by simp_all
    then show ?thesis using breakdown_three [of a b c] z [of a] z [of b] z [of c] 3 by (simp add: s)
  next
    case (4 a b c e)
    have s: "s = a @ DELIM # b @ DELIM # c @ DELIM # e" using j 4 by simp
    have "DELIM \<notin> set a" "DELIM \<notin> set b" "DELIM \<notin> set c"
      using d [of "[]" a "[b, c, e]"] d [of "[a]" b "[c, e]"] d [of "[a, b]" c "[e]"] 4 by simp_all
    then show ?thesis using breakdown_four [of a b c e] z [of a] z [of b] z [of c] 4 by (simp add: s)
  qed
qed

lemma drop_1: "drop (length a + 1) (a @ x # t) = t"
  by simp

lemma drop_2: "drop (length a + length b + 2) (a @ x # b @ y # t) = t"
  by (simp add: numeral_2_eq_2)

lemma drop_3: "drop (length a + length b + length c + 3) (a @ x # b @ y # c @ z # t) = t"
  using drop_2 [of "a @ x # b" c y z t] by (simp add: numeral_3_eq_3 numeral_2_eq_2)

lemma drop_end: "drop (length a + length b + length c + 2) (a @ x # b @ y # c @ t) = t"
  using drop_append [of "length a + length b + length c + 2" "a @ x # b @ y # c" t]
  by (simp add: numeral_2_eq_2)

lemma name_at_components_4:
  assumes "0 \<notin> set a" "0 \<notin> set b" "0 \<notin> set c" "0 \<notin> set d"
  shows "components (name_at ln (a @ 0 # b @ 0 # c @ 0 # d @ 0 # r) (length a + 1) (length a + length b + 2)
      (length a + length b + length c + 3) fr) = [a, b, c, d]"
  using assms unfolding components_def name_at_def by (simp only: rname.simps drop_1 drop_2 drop_3) (simp add: cstring_app)

lemma name_at_components_3:
  assumes "0 \<notin> set a" "0 \<notin> set b" "0 \<notin> set c"
  shows "components (name_at ln (a @ 0 # b @ 0 # c @ [0]) (length a + 1) (length a + length b + 2)
      (length a + length b + length c + 2) fr) = [a, b, c, []]"
  using assms unfolding components_def name_at_def
  by (simp only: rname.simps drop_1 drop_2 drop_end) (simp add: cstring_app)

lemma strcpy_fits: "length blk = length src \<Longrightarrow> mem_write blk 0 src = Some src"
  by (simp add: mem_write_def)

definition parsed :: "nat \<Rightarrow> bytes \<Rightarrow> rname option" where
  "parsed ln s = map_option (\<lambda>(b, o1, o2, o3). name_at ln b o1 o2 o3 True) (prvBreakdownNameString (s @ [0]))"

lemma new_from_string:
  assumes "malloc_ok alloc" "alloc (SIZEOF_RNAME + strlen nm + 1) = Some blk"
  shows "pxNameNewFromString alloc nm =
    (case parsed (strlen nm) (cstring nm) of None \<Rightarrow> Inl ERR_OOM | Some r \<Rightarrow> Inr r)"
proof -
  have "length (drop SIZEOF_RNAME blk) = length (cstring nm @ [0])"
    using assms by (simp add: malloc_ok_def strlen_def)
  from strcpy_fits [OF this] show ?thesis using assms(2)
    by (simp add: pxNameNewFromString_def parsed_def Let_def split: option.split)
qed

lemma assign_from_string:
  assumes "malloc_ok alloc" "alloc (strlen nm + 1) = Some blk"
  shows "xNameAssignFromString alloc nm =
    (case parsed 0 (cstring nm) of None \<Rightarrow> Inl ERR_OOM | Some r \<Rightarrow> Inr r)"
proof -
  have "length blk = length (cstring nm @ [0])"
    using assms by (simp add: malloc_ok_def strlen_def)
  from strcpy_fits [OF this] show ?thesis using assms(2)
    by (simp add: xNameAssignFromString_def parsed_def Let_def split: option.split)
qed

lemma parsed_cases:
  assumes "0 \<notin> set s"
  shows "(length (fields 3 s) < 3 \<and> parsed ln s = None) \<or>
    (\<exists>nm. parsed ln s = Some nm \<and> unPostLn nm = ln \<and> pxFree nm \<and>
      ((\<exists>a b c d. fields 3 s = [a, b, c, d] \<and> components nm = [a, b, c, d] \<and>
          pcProcessName nm = a @ 0 # b @ 0 # c @ 0 # d @ [0]) \<or>
       (\<exists>a b c. fields 3 s = [a, b, c] \<and> components nm = [a, b, c, []] \<and>
          pcProcessName nm = a @ 0 # b @ 0 # c @ [0])))"
proof -
  note z = fields_zero [OF assms, of _ 3]
  note b = breakdown_fields [OF assms]
  show ?thesis
  proof (cases rule: fields_3_cases [of s])
    case (4 a b c d)
    then show ?thesis using b z name_at_components_4 [of a b c d ln "[]" True]
      by (simp add: parsed_def) (simp add: name_at_def)
  next
    case (3 a b c)
    then show ?thesis using b z name_at_components_3 [of a b c ln True]
      by (simp add: parsed_def) (simp add: name_at_def)
  qed (use b in \<open>simp_all add: parsed_def\<close>)
qed

section \<open>Printing\<close>

lemma strncpy_all: "strncpy s (strlen s) = cstring s"
  by (simp add: strncpy_prefix strlen_def)

lemma name_loop_fits:
  assumes "strlen s < mx" "strlen s + 1 \<le> length rest"
  shows "name_loop sz (s # ss) i (length done) mx (done @ rest) =
    name_loop sz ss (i + 1) (length done + strlen s + 1) (mx - strlen s)
      (done @ cstring s @ (if i < 3 then DELIM else 0) # drop (strlen s + 1) rest)"
proof -
  have l: "length (cstring s) = strlen s" by (simp add: strlen_def)
  have w: "mem_write (done @ rest) (length done) (cstring s @ [0]) =
      Some (done @ cstring s @ 0 # drop (strlen s + 1) rest)"
    using assms(2) l by (simp add: mem_write_def)
  show ?thesis using assms(1) l
    by (simp add: Let_def strncpy_all w list_update_append)
qed

lemma name_loop_overflow:
  "sum_list (List.map strlen ss) < mx \<Longrightarrow> length buf < px + sum_list (List.map strlen ss) + length ss \<Longrightarrow>
   px \<le> length buf \<Longrightarrow> name_loop sz ss i px mx buf = None"
proof (induction ss arbitrary: i px mx buf)
  case (Cons s ss)
  show ?case
  proof (cases "length buf < px + strlen s + 1")
    case True
    then show ?thesis using Cons.prems
      by (simp add: Let_def strncpy_all mem_write_def strlen_def)
  next
    case False
    obtain b1 where b1: "mem_write buf px (strncpy s (strlen s) @ [0]) = Some b1"
      using False by (cases "mem_write buf px (strncpy s (strlen s) @ [0])") (auto simp: mem_write_None)
    then have l: "length b1 = length buf" by (rule mem_write_length)
    show ?thesis
      using Cons.IH [of "mx - strlen s" _ "px + strlen s + 1"] Cons.prems False l
      by (simp add: Let_def b1)
  qed
qed simp

definition text_length :: "rname \<Rightarrow> nat" where
  "text_length nm = strlen (pcProcessName nm) + strlen (pcProcessInstance nm) + strlen (pcEntityName nm)
     + strlen (pcEntityInstance nm)"

lemma print_fits:
  assumes "length buf = sz" "text_length nm + 4 \<le> sz"
  shows "vNameToStringBuf nm buf sz =
    Some (join (components nm) @ [0] @ drop (text_length nm + 4) buf)"
proof -
  define a b c d where "a = pcProcessName nm" and "b = pcProcessInstance nm"
    and "c = pcEntityName nm" and "d = pcEntityInstance nm"
  note l = strlen_def
  have t: "text_length nm = strlen a + strlen b + strlen c + strlen d"
    by (simp add: text_length_def a_def b_def c_def d_def)
  note s1 = name_loop_fits [of a "sz - 1" buf sz "[b, c, d]" 0 "[]"]
  note s2 = name_loop_fits [of b "sz - 1 - strlen a" "drop (strlen a + 1) buf" sz "[c, d]" 1
    "cstring a @ [DELIM]"]
  note s3 = name_loop_fits [of c "sz - 1 - strlen a - strlen b" "drop (strlen a + strlen b + 2) buf" sz "[d]" 2
    "cstring a @ DELIM # cstring b @ [DELIM]"]
  note s4 = name_loop_fits [of d "sz - 1 - strlen a - strlen b - strlen c"
    "drop (strlen a + strlen b + strlen c + 3) buf" sz "[]" 3
    "cstring a @ DELIM # cstring b @ DELIM # cstring c @ [DELIM]"]
  have "name_loop sz [a, b, c, d] 0 0 (sz - 1) buf =
      Some (join (components nm) @ [0] @ drop (text_length nm + 4) buf)"
    using s1 s2 s3 s4 assms
    by (simp add: t l components_def drop_drop ac_simps eval_nat_numeral del: name_loop.simps(2)
        flip: a_def b_def c_def d_def)
  then show ?thesis using assms(2) by (simp add: vNameToStringBuf_def a_def b_def c_def d_def)
qed

lemma map_no_zero: "0 \<notin> set s \<Longrightarrow> List.map (\<lambda>b. if b = 0 then x else b) s = s"
  by (induction s) auto

lemma print_copied:
  assumes "malloc_ok alloc" "alloc (unPostLn nm + 1) = Some blk" "0 < unPostLn nm"
    and "unPostLn nm + 1 \<le> length (pcProcessName nm)"
  shows "pcNameToString alloc nm =
    Inr (List.map (\<lambda>b. if b = 0 then DELIM else b) (take (unPostLn nm) (pcProcessName nm)) @
      [pcProcessName nm ! unPostLn nm])"
proof -
  let ?t = "take (unPostLn nm + 1) (pcProcessName nm)"
  have len: "length blk = unPostLn nm + 1" using assms(1,2) by (simp add: malloc_ok_def)
  have w: "mem_write blk 0 ?t = Some ?t"
    using strcpy_fits [of blk ?t] len assms(4) by simp
  have t: "?t = take (unPostLn nm) (pcProcessName nm) @ [pcProcessName nm ! unPostLn nm]"
    using assms(4) by (simp add: take_Suc_conv_app_nth)
  show ?thesis using assms(2,3,4) w
    by (simp add: pcNameToString_def Let_def) (simp add: take_Suc_conv_app_nth)
qed

section \<open>Properties\<close>

text \<open>Building a name from a string splits it at its first three delimiters, keeps
  everything after the third in the entity instance, accepts a string whose last
  delimiter is missing (empty entity instance) and refuses any other; the copy never
  leaves the allocated block.\<close>

theorem name_parse:
  assumes "malloc_ok alloc" "alloc (SIZEOF_RNAME + strlen s + 1) \<noteq> None"
  shows "case pxNameNewFromString alloc s of
      Inl e \<Rightarrow> e = ERR_OOM \<and> length (fields 3 (cstring s)) < 3
    | Inr nm \<Rightarrow> components nm = take 4 (fields 3 (cstring s) @ [[]]) \<and>
        3 \<le> length (fields 3 (cstring s)) \<and> unPostLn nm = strlen s \<and> pxFree nm"
proof -
  obtain blk where "alloc (SIZEOF_RNAME + strlen s + 1) = Some blk" using assms(2) by auto
  note n = new_from_string [OF assms(1) this]
  show ?thesis
    using parsed_cases [OF cstring_no_nul [of s], of "strlen s"] by (auto simp: n)
qed

text \<open>C13. Printing a name built from a string gives the string back, whether or not its last
  delimiter is missing.\<close>

theorem name_roundtrip:
  assumes "malloc_ok a1" "malloc_ok a2" "pxNameNewFromString a1 s = Inr nm" "a2 (strlen s + 1) \<noteq> None"
  shows "pcNameToString a2 nm = Inr (cstring s @ [0])"
proof -
  obtain blk where b: "a1 (SIZEOF_RNAME + strlen s + 1) = Some blk"
    using assms(3) by (cases "a1 (SIZEOF_RNAME + strlen s + 1)") (auto simp: pxNameNewFromString_def Let_def)
  obtain blk2 where b2: "a2 (strlen s + 1) = Some blk2" using assms(4) by auto
  have l: "length (cstring s) = strlen s" by (simp add: strlen_def)
  have z: "\<And>f. f \<in> set (fields 3 (cstring s)) \<Longrightarrow> 0 \<notin> set f"
    by (rule fields_zero [OF cstring_no_nul])
  have p: "parsed (strlen s) (cstring s) = Some nm"
    using new_from_string [OF assms(1) b] assms(3) by (simp split: option.splits)
  have ln: "unPostLn nm = strlen s"
    using parsed_cases [OF cstring_no_nul [of s], of "strlen s"] p by auto
  have "\<exists>t. pcProcessName nm = t @ [0] \<and> length t = strlen s \<and> 0 < length t \<and>
      List.map (\<lambda>b. if b = 0 then DELIM else b) t = cstring s"
  proof -
    consider (four) a b c d where "fields 3 (cstring s) = [a, b, c, d]"
        "pcProcessName nm = a @ 0 # b @ 0 # c @ 0 # d @ [0]"
      | (three) a b c where "fields 3 (cstring s) = [a, b, c]" "pcProcessName nm = a @ 0 # b @ 0 # c @ [0]"
      using parsed_cases [OF cstring_no_nul [of s], of "strlen s"] p by fastforce
    then show ?thesis
    proof cases
      case (four a b c d)
      have "cstring s = a @ DELIM # b @ DELIM # c @ DELIM # d" using join_fields [of 3 "cstring s"] four by simp
      then show ?thesis
        using z four l by (intro exI [of _ "a @ 0 # b @ 0 # c @ 0 # d"]) (simp add: map_no_zero)
    next
      case (three a b c)
      have "cstring s = a @ DELIM # b @ DELIM # c" using join_fields [of 3 "cstring s"] three by simp
      then show ?thesis
        using z three l by (intro exI [of _ "a @ 0 # b @ 0 # c"]) (simp add: map_no_zero)
    qed
  qed
  then obtain t where t: "pcProcessName nm = t @ [0]" "length t = strlen s" "0 < length t"
    "List.map (\<lambda>b. if b = 0 then DELIM else b) t = cstring s" by blast
  show ?thesis
    using print_copied [OF assms(2), of nm blk2] ln b2 t by (simp add: nth_append)
qed

lemma name_roundtrip_witness:
  "\<exists>nm. pxNameNewFromString (\<lambda>n. Some (replicate n 7)) (ascii ''a/b/c'' @ [0]) = Inr nm \<and>
    pcNameToString (\<lambda>n. Some (replicate n 9)) nm = Inr (ascii ''a/b/c'' @ [0])"
proof -
  let ?al = "\<lambda>k n. Some (replicate n (k :: u8))"
  have m: "malloc_ok (?al k)" for k by (simp add: malloc_ok_def)
  have c: "cstring (ascii ''a/b/c'' @ [0]) = ascii ''a/b/c''"
    by (simp add: ascii_def cstring_def of_char_def)
  have f: "fields 3 (ascii ''a/b/c'') = [ascii ''a'', ascii ''b'', ascii ''c'']"
    by (simp add: ascii_def DELIM_def numeral_3_eq_3 of_char_def)
  have z: "0 \<notin> set (ascii ''a/b/c'')" by (simp add: ascii_def of_char_def)
  obtain x where "parsed (strlen (ascii ''a/b/c'' @ [0])) (ascii ''a/b/c'') = Some x"
    using parsed_cases [OF z, of "strlen (ascii ''a/b/c'' @ [0])"] unfolding f by auto
  then obtain nm where nm: "pxNameNewFromString (?al 7) (ascii ''a/b/c'' @ [0]) = Inr nm"
    using new_from_string [OF m [of 7], of "ascii ''a/b/c'' @ [0]"] unfolding c by simp
  from name_roundtrip [OF m m nm, of 9] nm show ?thesis by (simp add: c)
qed

text \<open>\<^verbatim>\<open>vNameToStringBuf\<close> prints the four components joined by delimiters with a final
  NUL and leaves the rest of the buffer alone when there is room for the text, three
  delimiters and the NUL; with room for the text only it writes past the buffer, since
  the delimiters are not counted.\<close>

theorem name_print_bounds:
  assumes "length buf = sz" "text_length nm + 1 < sz"
  shows "vNameToStringBuf nm buf sz =
    (if text_length nm + 4 \<le> sz then Some (join (components nm) @ [0] @ drop (text_length nm + 4) buf)
     else None)"
proof (cases "text_length nm + 4 \<le> sz")
  case True
  then show ?thesis using print_fits [OF assms(1)] by simp
next
  case False
  let ?ss = "[pcProcessName nm, pcProcessInstance nm, pcEntityName nm, pcEntityInstance nm]"
  have "name_loop sz ?ss 0 0 (sz - 1) buf = None"
    by (rule name_loop_overflow) (use assms False in \<open>simp_all add: text_length_def\<close>)
  then show ?thesis using False assms(2) by (simp add: vNameToStringBuf_def del: name_loop.simps(2))
qed

lemma dup_parts:
  assumes "malloc_ok alloc" "alloc (strlen p + strlen q + strlen r + strlen s + 5) = Some blk"
  shows "xNameAssignFromPartsDup alloc (Some p) (Some q) (Some r) (Some s) =
    Inr (name_at 0
      (cstring p @ 0 # cstring q @ 0 # cstring r @ 0 # cstring s @ 0 #
        drop (length (cstring p) + length (cstring q) + length (cstring r) + length (cstring s) + 4) blk)
      (length (cstring p) + 1) (length (cstring p) + length (cstring q) + 2)
      (length (cstring p) + length (cstring q) + length (cstring r) + 3) True)"
proof -
  let ?all = "(cstring p @ [0]) @ (cstring q @ [0]) @ (cstring r @ [0]) @ cstring s @ [0]"
  have len: "length blk = length ?all + 1"
    using assms by (simp add: malloc_ok_def strlen_def)
  have n: "alloc (strlen p + strlen q + strlen r + strlen s + 4 + 1) = Some blk"
    using assms(2) by (simp add: numeral_eq_Suc)
  have "prvNameCopyAssignParts blk p q r s = Some (?all @ drop (length ?all) blk, length (cstring p) + 1,
      length (cstring p) + length (cstring q) + 2, length (cstring p) + length (cstring q) + length (cstring r) + 3)"
    using len by (simp add: prvNameCopyAssignParts_def mem_write_def Let_def)
  then show ?thesis using n
    by (simp add: xNameAssignFromPartsDup_def opt_len_def opt_str_def Let_def numeral_eq_Suc ac_simps)
qed

lemma name_copy_parts:
  assumes "malloc_ok alloc" "alloc (strlen (pcProcessName src) + strlen (pcProcessInstance src) + strlen (pcEntityName src)
      + strlen (pcProcessInstance src) + 5) \<noteq> None"
  shows "\<exists>d. xNameAssignDup alloc src = Inr d \<and> cstring (pcProcessName d) = cstring (pcProcessName src)"
  using assms dup_parts [OF assms(1)]
  by (auto simp: xNameAssignDup_def name_at_def cstring_app cstring_no_nul)

text \<open>Both copies of a name take the entity instance from the process instance: the copy
  has the right process name, instance and entity name, and the entity instance is
  right only if the source's two instances agree.\<close>

theorem name_copy_entity_instance:
  assumes "malloc_ok alloc" "alloc n = Some blk"
    "n = strlen (pcProcessName src) + strlen (pcProcessInstance src) + strlen (pcEntityName src)
       + strlen (pcProcessInstance src) + 5"
    and "components src = [pn, pi, en, ei]"
  shows "components (vNameAssignStatic src) = [pn, pi, en, pi] \<and>
    (\<exists>dst. xNameAssignDup alloc src = Inr dst \<and> components dst = [pn, pi, en, pi] \<and>
       (components dst = components src) = (ei = pi))"
proof -
  define a b c where "a = cstring (pcProcessName src)" and "b = cstring (pcProcessInstance src)"
    and "c = cstring (pcEntityName src)"
  have z: "0 \<notin> set a" "0 \<notin> set b" "0 \<notin> set c" by (simp_all add: a_def b_def c_def cstring_no_nul)
  let ?t = "drop (length a + length b + length c + length b + 4) blk"
  have "xNameAssignDup alloc src = xNameAssignFromPartsDup alloc (Some (pcProcessName src))
      (Some (pcProcessInstance src)) (Some (pcEntityName src)) (Some (pcProcessInstance src))"
    by (simp add: xNameAssignDup_def)
  also have "... = Inr (name_at 0 (a @ 0 # b @ 0 # c @ 0 # b @ 0 # ?t) (length a + 1)
      (length a + length b + 2) (length a + length b + length c + 3) True)"
    unfolding a_def b_def c_def
    by (rule dup_parts [OF assms(1)]) (use assms(2,3) in simp)
  finally have d: "xNameAssignDup alloc src = Inr (name_at 0 (a @ 0 # b @ 0 # c @ 0 # b @ 0 # ?t) (length a + 1)
      (length a + length b + 2) (length a + length b + length c + 3) True)" .
  have "components (name_at 0 (a @ 0 # b @ 0 # c @ 0 # b @ 0 # ?t) (length a + 1)
      (length a + length b + 2) (length a + length b + length c + 3) True) = [a, b, c, b]"
    by (rule name_at_components_4) (use z in auto)
  then obtain dst where dst: "xNameAssignDup alloc src = Inr dst" "components dst = [a, b, c, b]"
    using d by blast
  have "a = pn" "b = pi" "c = en" "components src = [a, b, c, ei]"
    using assms(4) by (simp_all add: components_def a_def b_def c_def)
  moreover have "components (vNameAssignStatic src) = [a, b, c, b]"
    by (simp add: components_def vNameAssignStatic_def vNameAssignFromPartsStatic_def a_def b_def c_def)
  ultimately show ?thesis using dst by auto
qed

text \<open>A name built from parts records the length of the text without the separators, so
  printing it loses the last three characters and may leave the result without a NUL.\<close>

lemma print_from_parts:
  assumes "malloc_ok a1" "malloc_ok a2" "pxNameNewFromParts a1 pn pi en ei = Inr nm"
    and "t = [cstring pn, cstring pi, cstring en, cstring ei]" "n = sum_list (List.map length t)" "0 < n"
    and "a2 (n + 1) \<noteq> None"
  shows "\<exists>x. pcNameToString a2 nm = Inr (take n (join t) @ [x])"
proof -
  define a b c d where "a = cstring pn" and "b = cstring pi" and "c = cstring en" and "d = cstring ei"
  have z: "0 \<notin> set a" "0 \<notin> set b" "0 \<notin> set c" "0 \<notin> set d"
    by (simp_all add: a_def b_def c_def d_def cstring_no_nul)
  have n: "n = length a + length b + length c + length d"
    using assms(4,5) by (simp add: a_def b_def c_def d_def)
  obtain blk where blk: "a1 (SIZEOF_RNAME + n + 4) = Some blk"
    using assms(3) n
    by (cases "a1 (SIZEOF_RNAME + n + 4)") (auto simp: pxNameNewFromParts_def Let_def strlen_def a_def b_def c_def d_def)
  let ?all = "(a @ [0]) @ (b @ [0]) @ (c @ [0]) @ d @ [0]"
  have len: "length (drop SIZEOF_RNAME blk) = length ?all"
    using blk assms(1) n by (simp add: malloc_ok_def)
  have w: "mem_write (drop SIZEOF_RNAME blk) 0 ?all = Some ?all" by (rule strcpy_fits [OF len])
  have nm: "unPostLn nm = n" "pcProcessName nm = ?all"
    using assms(3) blk w n
    by (simp_all add: pxNameNewFromParts_def Let_def strlen_def prvNameCopyAssignParts_def name_at_def
        a_def b_def c_def d_def) (auto simp: name_at_def)
  have "List.map (\<lambda>b. if b = 0 then DELIM else b) ?all = join t @ [DELIM]"
    using z assms(4) by (simp add: map_no_zero a_def b_def c_def d_def)
  then have "List.map (\<lambda>b. if b = 0 then DELIM else b) (take n ?all) = take n (join t)"
  proof -
    assume h: "List.map (\<lambda>b. if b = 0 then DELIM else b) ?all = join t @ [DELIM]"
    have "n \<le> length (join t)" using n assms(4) by (simp add: a_def b_def c_def d_def)
    then show ?thesis using h by (metis take_map take_append append_Nil2 diff_is_0_eq take0)
  qed
  moreover obtain blk2 where "a2 (n + 1) = Some blk2" using assms(7) by auto
  ultimately show ?thesis
    using print_copied [OF assms(2), of nm blk2] nm assms(6) n by (auto)
qed

end
