(* ===== verification/Keyed_Table.thy ===== *)
theory Keyed_Table
  imports Prelude
begin

text \<open>Interfaces of the keyed tables of the program: a comparison of keys, and a table of
  fixed size with lookup, insertion (which fails when the table is full) and deletion.
  The tables of the components interpret them on their own operations.\<close>

section \<open>Key comparison as an interface\<close>

locale key_comparison =
  fixes valid :: "'k \<Rightarrow> bool"
    and same :: "'k \<Rightarrow> 'k \<Rightarrow> bool"
  assumes same_refl: "valid k \<Longrightarrow> same k k"
    and same_sym: "valid j \<Longrightarrow> valid k \<Longrightarrow> same j k \<Longrightarrow> same k j"
    and same_trans: "valid i \<Longrightarrow> valid j \<Longrightarrow> valid k \<Longrightarrow> same i j \<Longrightarrow> same j k \<Longrightarrow> same i k"
begin

lemma same_iff: "valid i \<Longrightarrow> valid j \<Longrightarrow> valid k \<Longrightarrow> same i j \<Longrightarrow> same i k = same j k"
  using same_sym same_trans by blast

text \<open>A search for a key finds the same row as a search for an equal one.\<close>

lemma find_same:
  assumes "valid j" "valid k" "same j k" "\<And>x. x \<in> set xs \<Longrightarrow> used x \<Longrightarrow> valid (key x)"
  shows "find_idx (\<lambda>x. used x \<and> same (key x) j) xs = find_idx (\<lambda>x. used x \<and> same (key x) k) xs"
  by (rule find_idx_cong) (use assms same_sym same_trans in blast)

end

section \<open>Keyed tables\<close>

locale keyed_table = key_comparison valid same
  for valid :: "'k \<Rightarrow> bool" and same :: "'k \<Rightarrow> 'k \<Rightarrow> bool" +
  fixes ok :: "'t \<Rightarrow> bool"
    and lookup :: "'t \<Rightarrow> 'k \<Rightarrow> 'v option"
    and insert_in :: "'t \<Rightarrow> 'k \<Rightarrow> 'v \<Rightarrow> 't option"
    and delete_from :: "'t \<Rightarrow> 'k \<Rightarrow> 't"
    and value_ok :: "'v \<Rightarrow> bool"
  assumes insert_ok: "ok t \<Longrightarrow> valid k \<Longrightarrow> value_ok v \<Longrightarrow> insert_in t k v = Some t' \<Longrightarrow> ok t'"
    and delete_ok: "ok t \<Longrightarrow> valid k \<Longrightarrow> ok (delete_from t k)"
    and lookup_insert: "ok t \<Longrightarrow> valid k \<Longrightarrow> value_ok v \<Longrightarrow> insert_in t k v = Some t' \<Longrightarrow>
      lookup t k = None \<Longrightarrow> lookup t' k = Some v"
    and lookup_insert_other: "ok t \<Longrightarrow> valid k \<Longrightarrow> value_ok v \<Longrightarrow> insert_in t k v = Some t' \<Longrightarrow>
      valid j \<Longrightarrow> \<not> same j k \<Longrightarrow> lookup t' j = lookup t j"
    and lookup_delete: "ok t \<Longrightarrow> valid k \<Longrightarrow> valid j \<Longrightarrow>
      lookup (delete_from t k) j = (if same j k then None else lookup t j)"
    and lookup_same: "ok t \<Longrightarrow> valid j \<Longrightarrow> valid k \<Longrightarrow> same j k \<Longrightarrow> lookup t j = lookup t k"
begin

text \<open>Replacing a binding: delete, then insert.\<close>

lemma replace_binding:
  assumes "ok t" "valid k" "value_ok v" "insert_in (delete_from t k) k v = Some t'" "valid j"
  shows "ok t' \<and> lookup t' j = (if same j k then Some v else lookup t j)"
proof -
  have d: "ok (delete_from t k)" by (rule delete_ok [OF assms(1,2)])
  have k: "lookup t' k = Some v"
    by (rule lookup_insert [OF d assms(2,3,4)]) (simp add: lookup_delete assms same_refl)
  have t': "ok t'" by (rule insert_ok [OF d assms(2,3,4)])
  show ?thesis
  proof (cases "same j k")
    case True
    then show ?thesis using t' k lookup_same [OF t' assms(5,2)] by simp
  next
    case False
    then show ?thesis using t' lookup_insert_other [OF d assms(2,3,4,5)] lookup_delete [OF assms(1,2,5)] by simp
  qed
qed

lemma insert_delete:
  assumes "ok t" "valid k" "value_ok v" "insert_in t k v = Some t'" "valid j"
  shows "lookup (delete_from t' k) j = (if same j k then None else lookup t j)"
  using lookup_delete [OF insert_ok [OF assms(1-4)] assms(2,5)] lookup_insert_other [OF assms] by simp

lemma delete_twice: "ok t \<Longrightarrow> valid k \<Longrightarrow> valid j \<Longrightarrow>
  lookup (delete_from (delete_from t k) k) j = lookup (delete_from t k) j"
  using delete_ok lookup_delete by simp

end

section \<open>Registers of unique keys\<close>

text \<open>A register that only grows: \<open>register\<close> puts an entry \<open>a\<close> under a key, or refuses; a key leads to the first
  entry that was put under it.\<close>

locale first_register =
  fixes ok :: "'s \<Rightarrow> bool"
    and find_key :: "'s \<Rightarrow> 'k \<Rightarrow> 'a option"
    and key_ok :: "'k \<Rightarrow> bool"
    and fresh :: "'s \<Rightarrow> 'a \<Rightarrow> bool"
    and register :: "'a \<Rightarrow> 'k \<Rightarrow> 's \<Rightarrow> bool \<times> 's"
  assumes register_ok: "ok s \<Longrightarrow> key_ok k \<Longrightarrow> fresh s a \<Longrightarrow> ok (snd (register a k s))"
    and find_register: "ok s \<Longrightarrow> key_ok k \<Longrightarrow> fresh s a \<Longrightarrow>
      find_key (snd (register a k s)) j =
        (if fst (register a k s) \<and> j = k \<and> find_key s k = None then Some a else find_key s j)"
    and register_fresh: "ok s \<Longrightarrow> key_ok k \<Longrightarrow> fresh s a \<Longrightarrow> fresh s b \<Longrightarrow> b \<noteq> a \<Longrightarrow>
      fresh (snd (register a k s)) b"
begin

definition register_all :: "('a \<times> 'k) list \<Rightarrow> 's \<Rightarrow> 's" where
  "register_all xs s = fold (\<lambda>(a, k) s. snd (register a k s)) xs s"

text \<open>Whatever is registered later, a key keeps leading to the entry it leads to now.\<close>

lemma register_all_keeps:
  assumes "ok s" "\<forall>(a, k) \<in> set xs. key_ok k \<and> fresh s a" "distinct (List.map fst xs)"
  shows "ok (register_all xs s) \<and> (find_key s j = Some a \<longrightarrow> find_key (register_all xs s) j = Some a)"
  using assms
proof (induction xs arbitrary: s)
  case (Cons x xs)
  obtain b k where x: "x = (b, k)" by (cases x)
  let ?s = "snd (register b k s)"
  have k: "key_ok k" "fresh s b" using Cons.prems(2) x by auto
  have "\<forall>(c, j) \<in> set xs. key_ok j \<and> fresh ?s c"
    using Cons.prems x register_fresh [OF Cons.prems(1) k] by fastforce
  from Cons.IH [OF register_ok [OF Cons.prems(1) k] this] Cons.prems(3)
  moreover have "find_key s j = Some a \<longrightarrow> find_key ?s j = Some a"
    using find_register [OF Cons.prems(1) k, of j] by simp
  ultimately show ?case using x by (simp add: register_all_def)
qed (simp add: register_all_def)

end

text \<open>A register that refuses exactly the keys that are taken.\<close>

locale unique_register = first_register ok find_key key_ok fresh register
  for ok :: "'s \<Rightarrow> bool" and find_key :: "'s \<Rightarrow> 'k \<Rightarrow> 'a option" and key_ok :: "'k \<Rightarrow> bool"
    and fresh :: "'s \<Rightarrow> 'a \<Rightarrow> bool" and register :: "'a \<Rightarrow> 'k \<Rightarrow> 's \<Rightarrow> bool \<times> 's" +
  assumes register_result: "ok s \<Longrightarrow> key_ok k \<Longrightarrow> fresh s a \<Longrightarrow> fst (register a k s) = (find_key s k = None)"
begin

text \<open>After any sequence of registrations, a key leads to the first entry that asked for it.\<close>

lemma register_all_finds:
  assumes "ok s" "\<forall>(a, k) \<in> set xs. key_ok k \<and> fresh s a" "distinct (List.map fst xs)"
  shows "ok (register_all xs s) \<and>
    find_key (register_all xs s) j =
      (case find_key s j of Some a \<Rightarrow> Some a | None \<Rightarrow> map_option fst (List.find (\<lambda>x. snd x = j) xs))"
  using assms
proof (induction xs arbitrary: s)
  case (Cons x xs)
  obtain a k where x: "x = (a, k)" by (cases x)
  let ?s = "snd (register a k s)"
  have k: "key_ok k" "fresh s a" using Cons.prems(2) x by auto
  have "\<forall>(b, j) \<in> set xs. key_ok j \<and> fresh ?s b"
    using Cons.prems x register_fresh [OF Cons.prems(1) k] by fastforce
  from Cons.IH [OF register_ok [OF Cons.prems(1) k] this] Cons.prems(3)
  moreover have "find_key ?s j = (if j = k \<and> find_key s k = None then Some a else find_key s j)"
    using find_register [OF Cons.prems(1) k, of j] register_result [OF Cons.prems(1) k] by simp
  ultimately show ?case using x by (auto simp: register_all_def split: option.splits)
qed (simp add: register_all_def split: option.split)

lemma register_twice:
  assumes "ok s" "key_ok k" "fresh s a" "fresh s b" "a \<noteq> b"
  shows "fst (register b k (snd (register a k s))) = False"
  using register_ok [OF assms(1-3)] register_fresh [OF assms(1-4)] assms
    register_result [of "snd (register a k s)" k b] register_result [of s k a] find_register [OF assms(1-3), of k]
  by (auto split: if_splits)

end

section \<open>Tables as lists of slots\<close>

text \<open>Shared facts on arrays of rows of which \<open>used\<close> tells the occupied ones.\<close>

definition first_free :: "('r \<Rightarrow> bool) \<Rightarrow> 'r list \<Rightarrow> nat option" where
  "first_free used rs = find_idx (\<lambda>r. \<not> used r) rs"

lemma first_free_None: "(first_free used rs = None) = (\<forall>r \<in> set rs. used r)"
  by (simp add: first_free_def find_idx_None)

lemma first_free_Some: "first_free used rs = Some i \<Longrightarrow> i < length rs \<and> \<not> used (rs ! i)"
  by (simp add: first_free_def find_idx_Some)

lemma find_update_miss:
  assumes "\<not> P (rs ! i)" "\<not> P r"
  shows "find_idx P (rs[i := r]) = find_idx P rs"
  using assms
proof (induction rs arbitrary: i)
  case (Cons x rs)
  then show ?case by (cases i) auto
qed simp

lemma find_update_hit:
  assumes "\<forall>x \<in> set rs. \<not> P x" "i < length rs" "P r"
  shows "find_idx P (rs[i := r]) = Some i"
  using assms
proof (induction rs arbitrary: i)
  case (Cons x rs)
  then show ?case by (cases i) auto
qed simp

lemma find_idx_map: "find_idx P (List.map f rs) = find_idx (\<lambda>r. P (f r)) rs"
  by (induction rs) auto

lemma find_update_holds:
  "find_idx P (rs[i := r]) = Some j \<Longrightarrow> \<not> P (rs ! i) \<Longrightarrow> \<not> P r \<Longrightarrow> rs[i := r] ! j = rs ! j"
  using find_update_miss [of P rs i r] find_idx_holds [of P "rs[i := r]" j] by (cases "i = j") (auto simp: find_idx_Some)

end
