(* ===== verification/Gpha.thy ===== *)
theory Gpha
  imports Rina_Name Keyed_Table
begin

text \<open>Generic protocol and hardware addresses (\<^verbatim>\<open>common/rina_gpha.c\<close>).  A protocol address
  is a block of bytes with the length in use; comparison stops at the first zero
  byte, which fills up addresses of different lengths.  Both comparisons satisfy the
  contract \<open>key_comparison\<close> that the tables need.\<close>

section \<open>Model\<close>

record gpa =
  pucAddress :: "bytes option"
  uxLength :: nat

record gha =
  xType :: u32
  xAddress :: bytes

definition MAC_ADDR_802_3 :: u32 where
  "MAC_ADDR_802_3 = 0"

definition MAC_LEN :: nat where
  "MAC_LEN = 6"

text \<open>The pointer arguments may be \<^verbatim>\<open>NULL\<close>.\<close>

definition xIsGPAOK :: "gpa option \<Rightarrow> bool" where
  "xIsGPAOK g =
    (case g of None \<Rightarrow> False
     | Some p \<Rightarrow> if pucAddress p = None then False else if uxLength p = 0 then False else True)"

definition xIsGHAOK :: "gha option \<Rightarrow> bool" where
  "xIsGHAOK h = (case h of None \<Rightarrow> False | Some p \<Rightarrow> if xType p \<noteq> MAC_ADDR_802_3 then False else True)"

text \<open>The bytes in use.\<close>

definition addr :: "gpa \<Rightarrow> bytes" where
  "addr g = (case pucAddress g of None \<Rightarrow> [] | Some b \<Rightarrow> take (uxLength g) b)"

text \<open>The length is at most the size of the block.\<close>

definition gpa_ok :: "gpa \<Rightarrow> bool" where [wf_defs]:
  "gpa_ok g = (\<exists>b. pucAddress g = Some b \<and> 0 < uxLength g \<and> uxLength g \<le> length b)"

definition gha_ok :: "gha \<Rightarrow> bool" where [wf_defs]:
  "gha_ok h = (xType h = MAC_ADDR_802_3 \<and> length (xAddress h) = MAC_LEN)"

text \<open>The block is cleared when it was allocated (the code clears it before its caller
  tests the pointer).\<close>

definition pucCreateAddress :: "allocator \<Rightarrow> nat \<Rightarrow> bytes option" where
  "pucCreateAddress alloc n = map_option (\<lambda>b. replicate (length b) 0) (alloc n)"

text \<open>\<open>ok\<close> is the outcome of the allocation of the structure.\<close>

definition pxCreateGPA :: "bool \<Rightarrow> allocator \<Rightarrow> bytes option \<Rightarrow> nat \<Rightarrow> gpa res" where
  "pxCreateGPA ok alloc src n =
    (case src of
       None \<Rightarrow> Inl ERR_BAD_ARG
     | Some s \<Rightarrow>
         if n = 0 then Inl ERR_BAD_ARG
         else if \<not> ok then Inl ERR_OOM
         else
           (case pucCreateAddress alloc (n + 1) of
              None \<Rightarrow> Inl ERR_OOM
            | Some b \<Rightarrow>
                (case mem_write b 0 (take n s) of
                   None \<Rightarrow> Inl ERR_OVERFLOW
                 | Some b' \<Rightarrow>
                     (let g = \<lparr>pucAddress = Some b', uxLength = n\<rparr> in
                      if \<not> xIsGPAOK (Some g) then Inl ERR_OOM else Inr g))))"

definition xGPAShrink :: "allocator \<Rightarrow> gpa \<Rightarrow> u8 \<Rightarrow> gpa res" where
  "xGPAShrink alloc g f =
    (if \<not> xIsGPAOK (Some g) then Inl ERR_GPA_INVALID
     else
       (case find_idx (\<lambda>b. b = f) (addr g) of
          None \<Rightarrow> Inr g
        | Some n \<Rightarrow>
            (case alloc n of
               None \<Rightarrow> Inl ERR_OOM
             | Some blk \<Rightarrow>
                 (case mem_write blk 0 (take n (addr g)) of
                    None \<Rightarrow> Inl ERR_OVERFLOW
                  | Some b \<Rightarrow> Inr \<lparr>pucAddress = Some b, uxLength = n\<rparr>))))"

definition xGPAGrow :: "allocator \<Rightarrow> gpa \<Rightarrow> nat \<Rightarrow> u8 \<Rightarrow> gpa res" where
  "xGPAGrow alloc g n f =
    (if \<not> xIsGPAOK (Some g) then Inl ERR_GPA_INVALID
     else if n = 0 \<or> n < uxLength g then Inl ERR_BAD_ARG
     else if uxLength g = n then Inr g
     else
       (case alloc n of
          None \<Rightarrow> Inl ERR_OOM
        | Some blk \<Rightarrow>
            (case mem_write blk 0 (addr g @ replicate (n - uxLength g) f) of
               None \<Rightarrow> Inl ERR_OVERFLOW
             | Some b \<Rightarrow> Inr \<lparr>pucAddress = Some b, uxLength = n\<rparr>)))"

text \<open>The loop of \<^verbatim>\<open>pxDupGPA\<close> that drops trailing fillers; \<open>None\<close> when it reads before the
  address.\<close>

fun dup_len :: "bytes \<Rightarrow> u8 \<Rightarrow> nat \<Rightarrow> nat option" where
  "dup_len b f 0 = None"
| "dup_len b f (Suc n) = (if b ! n = f then dup_len b f n else Some (Suc n))"

definition pxDupGPA :: "bool \<Rightarrow> allocator \<Rightarrow> gpa \<Rightarrow> bool \<Rightarrow> u8 \<Rightarrow> gpa res" where
  "pxDupGPA ok alloc g shrink f =
    (if \<not> xIsGPAOK (Some g) then Inl ERR_GPA_INVALID
     else if \<not> ok then Inl ERR_GPA_INVALID
     else
       (case (if shrink then dup_len (addr g) f (uxLength g) else Some (uxLength g)) of
          None \<Rightarrow> Inl ERR_UNDERFLOW
        | Some n \<Rightarrow>
            (case alloc (uxLength g) of
               None \<Rightarrow> Inl ERR_OOM
             | Some blk \<Rightarrow>
                 (case mem_write blk 0 (take n (addr g)) of
                    None \<Rightarrow> Inl ERR_OVERFLOW
                  | Some b \<Rightarrow> Inr \<lparr>pucAddress = Some b, uxLength = n\<rparr>))))"

definition pxCreateGHA :: "bool \<Rightarrow> u32 \<Rightarrow> bytes \<Rightarrow> gha res" where
  "pxCreateGHA ok t a =
    (if t \<noteq> MAC_ADDR_802_3 then Inl ERR_GHA_INVALID
     else if \<not> ok then Inl ERR_OOM
     else Inr \<lparr>xType = t, xAddress = take MAC_LEN a\<rparr>)"

definition pxDupGHA :: "bool \<Rightarrow> gha \<Rightarrow> gha res" where
  "pxDupGHA ok h =
    (if \<not> xIsGHAOK (Some h) then Inl ERR_GHA_INVALID
     else if \<not> ok then Inl ERR_OOM
     else Inr \<lparr>xType = xType h, xAddress = take MAC_LEN (xAddress h)\<rparr>)"

definition xGHACmp :: "gha option \<Rightarrow> gha option \<Rightarrow> bool" where
  "xGHACmp h1 h2 =
    (case (h1, h2) of
       (Some a, Some b) \<Rightarrow> take MAC_LEN (xAddress a) = take MAC_LEN (xAddress b)
     | _ \<Rightarrow> False)"

text \<open>\<^verbatim>\<open>prvGetActualAddressLength\<close> from index \<open>n\<close> on.\<close>

definition prvGetActualAddressLength :: "gpa \<Rightarrow> nat" where
  "prvGetActualAddressLength g =
    (case find_idx (\<lambda>b. b = 0) (addr g) of None \<Rightarrow> uxLength g | Some n \<Rightarrow> n)"

definition xGPACmp :: "gpa option \<Rightarrow> gpa option \<Rightarrow> bool" where
  "xGPACmp g1 g2 =
    (case (g1, g2) of
       (Some a, Some b) \<Rightarrow>
         (if \<not> (xIsGPAOK g1 \<and> xIsGPAOK g2) then False
          else
            let n1 = prvGetActualAddressLength a; n2 = prvGetActualAddressLength b in
            if n1 \<noteq> n2 then False else take n1 (addr a) = take n1 (addr b))
     | _ \<Rightarrow> False)"

definition pxNameToGPA :: "allocator \<Rightarrow> bool \<Rightarrow> allocator \<Rightarrow> rname \<Rightarrow> gpa option" where
  "pxNameToGPA a1 ok a2 nm =
    (case pcNameToString a1 nm of
       Inl _ \<Rightarrow> None
     | Inr s \<Rightarrow> (case pxCreateGPA ok a2 (Some s) (strlen s + 1) of Inl _ \<Rightarrow> None | Inr g \<Rightarrow> Some g))"

definition xGPAAddressToString :: "allocator \<Rightarrow> gpa \<Rightarrow> bytes option" where
  "xGPAAddressToString alloc g =
    (if \<not> xIsGPAOK (Some g) then None
     else (case alloc (uxLength g + 1) of None \<Rightarrow> None | Some b \<Rightarrow> mem_write b 0 (addr g @ [0])))"

text \<open>An allocator that never runs out.\<close>

definition zeros :: allocator where "zeros n = Some (replicate n 0)"

section \<open>Lemmas\<close>

lemma gpa_ok_is_ok: "gpa_ok g \<Longrightarrow> xIsGPAOK (Some g)"
  by (auto simp: wf_defs xIsGPAOK_def)

lemma addr_length: "gpa_ok g \<Longrightarrow> length (addr g) = uxLength g"
  by (auto simp: wf_defs addr_def)

lemma write_exact: "malloc_ok alloc \<Longrightarrow> alloc n = Some b \<Longrightarrow> length s = n \<Longrightarrow> mem_write b 0 s = Some s"
  by (simp add: malloc_ok_def mem_write_def)

lemma find_idx_takeWhile: "find_idx P xs = Some n \<Longrightarrow> take n xs = takeWhile (\<lambda>x. \<not> P x) xs"
  by (induction xs arbitrary: n) auto

lemma find_idx_None_takeWhile: "find_idx P xs = None \<Longrightarrow> takeWhile (\<lambda>x. \<not> P x) xs = xs"
  by (simp add: find_idx_None)

lemma find_idx_length: "find_idx P xs = Some n \<Longrightarrow> n = length (takeWhile (\<lambda>x. \<not> P x) xs)"
  by (metis find_idx_takeWhile find_idx_lt length_take min.absorb4)

lemma actual_length: "gpa_ok g \<Longrightarrow> prvGetActualAddressLength g = length (cstring (addr g))"
  by (cases "find_idx (\<lambda>b. b = 0) (addr g)")
     (auto simp: prvGetActualAddressLength_def cstring_def find_idx_length find_idx_None_takeWhile addr_length)

lemma take_cstring: "take (length (cstring p)) p = cstring p"
  by (simp add: cstring_def takeWhile_eq_take [symmetric])

lemma cmp_cstring:
  assumes "gpa_ok a" "gpa_ok b"
  shows "xGPACmp (Some a) (Some b) = (cstring (addr a) = cstring (addr b))"
proof -
  have "xGPACmp (Some a) (Some b) =
      (length (cstring (addr a)) = length (cstring (addr b)) \<and>
       take (length (cstring (addr a))) (addr a) = take (length (cstring (addr a))) (addr b))"
    using gpa_ok_is_ok assms by (simp add: xGPACmp_def actual_length Let_def)
  then show ?thesis by (metis take_cstring)
qed

lemma cmp_invalid: "xGPACmp g1 g2 \<Longrightarrow> xIsGPAOK g1 \<and> xIsGPAOK g2"
  by (auto simp: xGPACmp_def split: option.splits if_splits)

section \<open>Interface\<close>

interpretation gpa_key: key_comparison gpa_ok "\<lambda>a b. xGPACmp (Some a) (Some b)"
  by unfold_locales (simp_all add: cmp_cstring)

interpretation gha_key: key_comparison gha_ok "\<lambda>a b. xGHACmp (Some a) (Some b)"
  by unfold_locales (simp_all add: xGHACmp_def)

section \<open>Properties\<close>

lemma grow_result:
  assumes "gpa_ok g" "malloc_ok alloc" "uxLength g < n" "alloc n \<noteq> None"
  shows "xGPAGrow alloc g n f =
    Inr \<lparr>pucAddress = Some (addr g @ replicate (n - uxLength g) f), uxLength = n\<rparr>"
proof -
  obtain b where b: "alloc n = Some b" using assms(4) by auto
  have "mem_write b 0 (addr g @ replicate (n - uxLength g) f) = Some (addr g @ replicate (n - uxLength g) f)"
    by (rule write_exact [OF assms(2) b]) (use assms addr_length in auto)
  then show ?thesis using assms b gpa_ok_is_ok by (simp add: xGPAGrow_def)
qed

lemma find_idx_app_fill:
  "f \<notin> set xs \<Longrightarrow> 0 < k \<Longrightarrow> find_idx (\<lambda>b. b = f) (xs @ replicate k f) = Some (length xs)"
  by (induction xs) (auto simp: find_idx_replicate)

lemma shrink_result:
  assumes "gpa_ok g" "malloc_ok alloc" "find_idx (\<lambda>b. b = f) (addr g) = Some n" "alloc n \<noteq> None"
  shows "xGPAShrink alloc g f = Inr \<lparr>pucAddress = Some (take n (addr g)), uxLength = n\<rparr>"
proof -
  obtain b where b: "alloc n = Some b" using assms(4) by auto
  have "mem_write b 0 (take n (addr g)) = Some (take n (addr g))"
    by (rule write_exact [OF assms(2) b]) (use find_idx_lt [OF assms(3)] in simp)
  then show ?thesis using assms b gpa_ok_is_ok by (simp add: xGPAShrink_def)
qed

text \<open>Growing a protocol address with a filler that does not occur in it keeps it equal
  under \<^verbatim>\<open>xGPACmp\<close> when the filler is zero, and shrinking the result with the same
  filler gives back the original bytes and length.\<close>

theorem grow_shrink:
  assumes "gpa_ok g" "malloc_ok a1" "malloc_ok a2" "f \<notin> set (addr g)" "uxLength g < n"
    and "a1 n \<noteq> None" "a2 (uxLength g) \<noteq> None"
  shows "\<exists>g' g''. xGPAGrow a1 g n f = Inr g' \<and> gpa_ok g' \<and> uxLength g' = n \<and>
    (f = 0 \<longrightarrow> xGPACmp (Some g') (Some g)) \<and>
    xGPAShrink a2 g' f = Inr g'' \<and> addr g'' = addr g \<and> uxLength g'' = uxLength g"
proof -
  let ?g = "\<lparr>pucAddress = Some (addr g @ replicate (n - uxLength g) f), uxLength = n\<rparr>"
  have l: "length (addr g) = uxLength g" by (rule addr_length [OF assms(1)])
  have a: "addr ?g = addr g @ replicate (n - uxLength g) f" using assms(5) l by (simp add: addr_def)
  have ok: "gpa_ok ?g" using assms(5) l by (simp add: wf_defs)
  have i: "find_idx (\<lambda>b. b = f) (addr ?g) = Some (uxLength g)"
    using find_idx_app_fill [OF assms(4)] assms(5) l unfolding a by simp
  have c: "f = 0 \<longrightarrow> xGPACmp (Some ?g) (Some g)"
  proof
    assume f: "f = 0"
    obtain k where "n - uxLength g = Suc k" using assms(5) by (cases "n - uxLength g") auto
    then have "cstring (addr ?g) = cstring (addr g)"
      using assms(4) f unfolding a by (simp add: cstring_app cstring_id)
    then show "xGPACmp (Some ?g) (Some g)" using cmp_cstring [OF ok assms(1)] by simp
  qed
  show ?thesis
    using grow_result [OF assms(1,2,5,6), of f] ok c shrink_result [OF ok assms(3) i assms(7)] a l
    by (simp add: addr_def)
qed

text \<open>Duplicating with a filler that is not the last byte keeps the address; an address of
  fillers only makes the loop read before it.\<close>

lemma dup_len_all: "(\<forall>i < n. b ! i = f) = (dup_len b f n = None)"
  by (induction n) (auto simp: less_Suc_eq)

lemma dup_len_Some: "dup_len b f n = Some k \<Longrightarrow> 0 < k \<and> k \<le> n \<and> b ! (k - 1) \<noteq> f \<and> (\<forall>i. k \<le> i \<longrightarrow> i < n \<longrightarrow> b ! i = f)"
  by (induction n) (auto split: if_splits simp: less_Suc_eq)

lemma dup_ok:
  assumes "gpa_ok g" "malloc_ok alloc" "pxDupGPA ok alloc g shrink f = Inr g'"
  shows "gpa_ok g' \<and> (\<exists>n. 0 < n \<and> n \<le> uxLength g \<and> addr g' = take n (addr g) \<and>
    (\<forall>i. n \<le> i \<longrightarrow> i < uxLength g \<longrightarrow> addr g ! i = f))"
proof -
  obtain n blk b where n: "(if shrink then dup_len (addr g) f (uxLength g) else Some (uxLength g)) = Some n"
    and blk: "alloc (uxLength g) = Some blk" and b: "mem_write blk 0 (take n (addr g)) = Some b"
    and g': "g' = \<lparr>pucAddress = Some b, uxLength = n\<rparr>"
    using assms(3) by (auto simp: pxDupGPA_def split: if_splits option.splits)
  have nb: "0 < n \<and> n \<le> uxLength g \<and> (\<forall>i. n \<le> i \<longrightarrow> i < uxLength g \<longrightarrow> addr g ! i = f)"
    using n dup_len_Some [of "addr g" f "uxLength g" n] assms(1) by (auto simp: wf_defs split: if_splits)
  have l: "length blk = uxLength g" using assms(2) blk by (simp add: malloc_ok_def)
  have "b = take n (addr g) @ drop n blk"
    using b nb l addr_length [OF assms(1)] by (simp add: mem_write_def min_def split: if_splits)
  then show ?thesis using nb l addr_length [OF assms(1)] unfolding g'
    by (auto simp: wf_defs addr_def)
qed

lemma dup_cmp:
  assumes "gpa_ok g" "malloc_ok alloc" "pxDupGPA ok alloc g shrink 0 = Inr g'" 
  shows "xGPACmp (Some g') (Some g)"
proof -
  from dup_ok [OF assms] obtain n where n: "gpa_ok g'" "n \<le> uxLength g" "addr g' = take n (addr g)"
    "\<forall>i. n \<le> i \<longrightarrow> i < uxLength g \<longrightarrow> addr g ! i = 0" by blast
  have "cstring (addr g) = cstring (take n (addr g) @ drop n (addr g))" by simp
  also have "... = cstring (take n (addr g))"
  proof (cases "drop n (addr g)")
    case (Cons x xs)
    have "n < uxLength g" using Cons addr_length [OF assms(1)] by (metis drop_all list.distinct(1) not_le)
    then have "x = 0" using n(4) Cons nth_via_drop [OF Cons] by auto
    then show ?thesis unfolding Cons by (simp add: cstring_def takeWhile_append takeWhile_eq_all_conv [THEN iffD2])
  qed simp
  finally show ?thesis using cmp_cstring [OF n(1) assms(1)] n(3) by simp
qed

lemma duplicate_ok_cases:
  assumes "gpa_ok g" "malloc_ok alloc" "alloc (uxLength g) \<noteq> None"
  shows "(\<exists>g'. pxDupGPA True alloc g True 0 = Inr g') \<or> set (addr g) = {0}"
proof (cases "dup_len (addr g) 0 (uxLength g)")
  case None
  then have "\<forall>i < uxLength g. addr g ! i = 0" using dup_len_all by blast
  then show ?thesis using assms(1) addr_length [OF assms(1)]
    by (auto simp: set_conv_nth wf_defs intro!: exI [of _ 0])
next
  case (Some n)
  obtain blk where blk: "alloc (uxLength g) = Some blk" using assms(3) by auto
  note s = dup_len_Some [OF Some]
  have "length blk = uxLength g" using blk assms(2) by (simp add: malloc_ok_def)
  then have "mem_write blk 0 (take n (addr g)) \<noteq> None"
    using s addr_length [OF assms(1)] by (simp add: mem_write_def)
  then show ?thesis using Some assms(1) gpa_ok_is_ok blk by (auto simp: pxDupGPA_def)
qed

text \<open>Duplicating an address with trailing zeros dropped succeeds exactly when some byte
  is not zero and the allocations succeed, and gives an address that compares equal to
  the original; with only zeros the loop runs off the front of the address.\<close>

theorem duplicate_compares_equal:
  assumes "gpa_ok g" "malloc_ok alloc" "alloc (uxLength g) \<noteq> None"
  shows "case pxDupGPA True alloc g True 0 of
      Inr g' \<Rightarrow> gpa_ok g' \<and> xGPACmp (Some g') (Some g) \<and> last (addr g') \<noteq> 0
    | Inl e \<Rightarrow> e = ERR_UNDERFLOW \<and> set (addr g) = {0}"
proof (cases "dup_len (addr g) 0 (uxLength g)")
  case None
  then have "\<forall>i < uxLength g. addr g ! i = 0" using dup_len_all by blast
  then have "set (addr g) = {0}" using assms(1) addr_length [OF assms(1)]
    by (auto simp: set_conv_nth wf_defs intro!: exI [of _ 0])
  then show ?thesis using None assms gpa_ok_is_ok by (simp add: pxDupGPA_def)
next
  case (Some n)
  obtain blk where blk: "alloc (uxLength g) = Some blk" using assms(3) by auto
  note s = dup_len_Some [OF Some]
  have len: "length blk = uxLength g" using blk assms(2) by (simp add: malloc_ok_def)
  have w: "mem_write blk 0 (take n (addr g)) = Some (take n (addr g) @ drop n blk)"
    using len s addr_length [OF assms(1)] by (simp add: mem_write_def min_def)
  let ?g = "\<lparr>pucAddress = Some (take n (addr g) @ drop n blk), uxLength = n\<rparr>"
  have d: "pxDupGPA True alloc g True 0 = Inr ?g"
    using Some assms(1) gpa_ok_is_ok w blk by (simp add: pxDupGPA_def)
  have "addr ?g = take n (addr g)" using s addr_length [OF assms(1)] by (simp add: addr_def)
  then have "last (addr ?g) = addr g ! (n - 1)"
    using s addr_length [OF assms(1)]
    by (subst last_conv_nth) (auto simp: min_def)
  then show ?thesis using dup_ok [OF assms(1,2) d] dup_cmp [OF assms(1,2) d] d s by simp
qed

end
