(* ===== verification/Arp_Cache.thy ===== *)
theory Arp_Cache
  imports Gpha
begin

text \<open>The address cache of the shim (\<^verbatim>\<open>ShimIPCP/cache.c\<close>): a fixed array of rows, searched
  from row 0.  The logging of rows is not modelled.\<close>

section \<open>Model\<close>

record arp_row =
  row_pa :: "gpa option"
  row_ha :: "gha option"
  ucAge :: u8
  ucValid :: u8

type_synonym arp_cache = "arp_row list"

datatype arp_lookup = eARPCacheMiss | eARPCacheHit | eCantSendPacket

definition CFG_MAX_ARP_AGE :: u8 where "CFG_MAX_ARP_AGE = 5"
definition CFG_MAX_ARP_RETRANSMISSIONS :: u8 where "CFG_MAX_ARP_RETRANSMISSIONS = 5"
definition CHAR_MAX :: int where "CHAR_MAX = 127"
definition ARP_CACHE_INVALID_HANDLE :: int where "ARP_CACHE_INVALID_HANDLE = -1"

definition xBroadcastHa :: gha where
  "xBroadcastHa = \<lparr>xType = MAC_ADDR_802_3, xAddress = replicate MAC_LEN 0xFF\<rparr>"

definition empty_row :: arp_row where
  "empty_row = \<lparr>row_pa = None, row_ha = None, ucAge = 0, ucValid = 0\<rparr>"

definition pxARPCacheCreate :: "bool \<Rightarrow> nat \<Rightarrow> arp_cache option" where
  "pxARPCacheCreate ok n = (if ok then Some (replicate n empty_row) else None)"

definition prvARPCacheFreeRow :: "arp_cache \<Rightarrow> nat \<Rightarrow> arp_cache" where
  "prvARPCacheFreeRow c i = c[i := empty_row]"

definition vARPRemoveAll :: "arp_cache \<Rightarrow> arp_cache" where
  "vARPRemoveAll c = replicate (length c) empty_row"

text \<open>The outcomes of the allocations made by one call.\<close>

record arp_mem =
  ok_gpa :: bool
  ok_gha :: bool
  mem_addr :: allocator

definition xARPCacheAdd :: "arp_mem \<Rightarrow> arp_cache \<Rightarrow> gpa \<Rightarrow> gha \<Rightarrow> int \<times> arp_cache" where
  "xARPCacheAdd m c pa ha =
    (case pxDupGPA (ok_gpa m) (mem_addr m) pa True 0 of
       Inl _ \<Rightarrow> (ARP_CACHE_INVALID_HANDLE, c)
     | Inr dpa \<Rightarrow>
         (case pxDupGHA (ok_gha m) ha of
            Inl _ \<Rightarrow> (ARP_CACHE_INVALID_HANDLE, c)
          | Inr dha \<Rightarrow>
              (case find_idx (\<lambda>r. ucValid r = 0) c of
                 Some i \<Rightarrow> (1, c[i := \<lparr>row_pa = Some dpa, row_ha = Some dha, ucAge = 1, ucValid = 1\<rparr>])
               | None \<Rightarrow> (0, c))))"

definition xARPCacheRemove :: "arp_cache \<Rightarrow> gpa option \<Rightarrow> bool \<times> arp_cache" where
  "xARPCacheRemove c pa =
    (if \<not> xIsGPAOK pa then (False, c)
     else (True, List.map (\<lambda>r. if ucValid r \<noteq> 0 \<and> xGPACmp (row_pa r) pa then empty_row else r) c))"

text \<open>\<open>None\<close> is an access outside of the rows.\<close>

definition xARPCacheRemoveHandle :: "arp_cache \<Rightarrow> int \<Rightarrow> arp_cache option" where
  "xARPCacheRemoveHandle c h =
    (if h < int (length c) then (if 0 \<le> h then Some (prvARPCacheFreeRow c (nat h)) else None)
     else Some c)"

text \<open>The second component is the hardware address stored through the result pointer.\<close>

definition eARPCacheLookupGPA :: "arp_cache \<Rightarrow> gpa option \<Rightarrow> arp_lookup \<times> gha option" where
  "eARPCacheLookupGPA c pa =
    (case find_idx (\<lambda>r. ucAge r \<noteq> 0 \<and> xGPACmp (row_pa r) pa) c of
       None \<Rightarrow> (eARPCacheMiss, None)
     | Some i \<Rightarrow> if ucValid (c ! i) = 0 then (eCantSendPacket, None) else (eARPCacheHit, row_ha (c ! i)))"

definition pxARPCacheLookupGHA :: "arp_cache \<Rightarrow> gpa option \<Rightarrow> gha option" where
  "pxARPCacheLookupGHA c pa =
    (if \<not> xIsGPAOK pa then None
     else
       (case find_idx (\<lambda>r. 0 < ucAge r \<and> xGPACmp (row_pa r) pa) c of
          None \<Rightarrow> None
        | Some i \<Rightarrow> row_ha (c ! i)))"

text \<open>The scan of \<^verbatim>\<open>vARPCacheRefresh\<close>: the row of an early return, or the entries found.\<close>

datatype refresh_scan = Return nat | Found int int int int

fun refresh_loop ::
  "gpa option \<Rightarrow> gha option \<Rightarrow> arp_row list \<Rightarrow> nat \<Rightarrow> int \<Rightarrow> int \<Rightarrow> int \<Rightarrow> int \<Rightarrow> refresh_scan" where
  "refresh_loop pa ha [] x ipcp mac use age = Found ipcp mac use age"
| "refresh_loop pa ha (r # rs) x ipcp mac use age =
    (let matching = (if ha \<noteq> None then xGHACmp (row_ha r) ha else False) in
     if xGPACmp (row_pa r) pa then
       (if ha = None then Found (int x) mac use age
        else if matching then Return x
        else refresh_loop pa ha rs (x + 1) (int x) mac use age)
     else if matching then refresh_loop pa ha rs (x + 1) ipcp (int x) use age
     else if uint (ucAge r) < age then refresh_loop pa ha rs (x + 1) ipcp mac (int x) (uint (ucAge r))
     else refresh_loop pa ha rs (x + 1) ipcp mac use age)"

definition at_row :: "arp_cache \<Rightarrow> int \<Rightarrow> (arp_row \<Rightarrow> arp_row) \<Rightarrow> arp_cache option" where
  "at_row c i f = (if 0 \<le> i \<and> i < int (length c) then Some (c[nat i := f (c ! nat i)]) else None)"

text \<open>The second part: which row is used.\<close>

definition refresh_pick :: "arp_cache \<Rightarrow> int \<Rightarrow> int \<Rightarrow> int \<Rightarrow> (int \<times> arp_cache) option" where
  "refresh_pick c ipcp mac use =
    (if 0 \<le> mac then
       (if ipcp \<noteq> CHAR_MAX then map_option (\<lambda>c'. (mac, c')) (at_row c ipcp (\<lambda>_. empty_row))
        else Some (mac, c))
     else if ipcp \<noteq> CHAR_MAX then Some (ipcp, c)
     else Some (use, c))"

definition refresh_store ::
  "arp_mem \<Rightarrow> arp_cache \<Rightarrow> gpa option \<Rightarrow> gha option \<Rightarrow> int \<Rightarrow> int \<Rightarrow> arp_cache option" where
  "refresh_store m c pa ha ipcp i =
    (let set_ha = (\<lambda>c1.
       (case ha of
          Some h \<Rightarrow>
            (case pxDupGHA (ok_gha m) h of
               Inl _ \<Rightarrow> Some c1
             | Inr nh \<Rightarrow> at_row c1 i (\<lambda>r. r\<lparr>row_ha := Some nh, ucAge := CFG_MAX_ARP_AGE, ucValid := 1\<rparr>))
        | None \<Rightarrow>
            (if ipcp < 0 then at_row c1 i (\<lambda>r. r\<lparr>ucAge := CFG_MAX_ARP_RETRANSMISSIONS, ucValid := 0\<rparr>)
             else Some c1))) in
     case pa of
       None \<Rightarrow> set_ha c
     | Some p \<Rightarrow>
         (case pxDupGPA (ok_gpa m) (mem_addr m) p True 0 of
            Inl _ \<Rightarrow> Some c
          | Inr np \<Rightarrow> Option.bind (at_row c i (\<lambda>r. r\<lparr>row_pa := Some np\<rparr>)) set_ha))"

definition vARPCacheRefresh :: "arp_mem \<Rightarrow> arp_cache \<Rightarrow> gpa option \<Rightarrow> gha option \<Rightarrow> arp_cache option" where
  "vARPCacheRefresh m c pa ha =
    (case refresh_loop pa ha c 0 (-1) (-1) 0 (-1) of
       Return x \<Rightarrow> Some (c[x := (c ! x)\<lparr>ucAge := CFG_MAX_ARP_AGE, ucValid := 1\<rparr>])
     | Found ipcp mac use age \<Rightarrow>
         Option.bind (refresh_pick c ipcp mac use) (\<lambda>(i, c'). refresh_store m c' pa ha ipcp i))"

section \<open>Invariant\<close>

text \<open>A row with an age has an address, a valid row has both addresses and an age.\<close>

definition row_ok :: "arp_row \<Rightarrow> bool" where
  "row_ok r =
    ((ucAge r \<noteq> 0 \<longrightarrow> (\<exists>p. row_pa r = Some p \<and> gpa_ok p)) \<and>
     (ucValid r \<noteq> 0 \<longrightarrow> ucAge r \<noteq> 0 \<and> (\<exists>h. row_ha r = Some h \<and> gha_ok h)))"

definition cache_ok :: "arp_cache \<Rightarrow> bool" where
  "cache_ok c = (\<forall>r \<in> set c. row_ok r)"

text \<open>Without outstanding requests every row with an age is valid.\<close>

definition settled :: "arp_cache \<Rightarrow> bool" where
  "settled c = (cache_ok c \<and> (\<forall>r \<in> set c. (ucAge r \<noteq> 0) = (ucValid r \<noteq> 0)))"

lemma empty_row_simps [simp]:
  "row_pa empty_row = None" "row_ha empty_row = None" "ucAge empty_row = 0" "ucValid empty_row = 0"
  by (simp_all add: empty_row_def)

lemma empty_row_ok [simp]: "row_ok empty_row"
  by (simp add: row_ok_def empty_row_def)

section \<open>Lookup\<close>

definition holds :: "gpa \<Rightarrow> arp_row \<Rightarrow> bool" where
  "holds k r = (ucAge r \<noteq> 0 \<and> xGPACmp (row_pa r) (Some k))"

lemma lookup_find:
  "gpa_ok k \<Longrightarrow> pxARPCacheLookupGHA c (Some k) =
    (case find_idx (holds k) c of None \<Rightarrow> None | Some i \<Rightarrow> row_ha (c ! i))"
proof -
  have "holds k = (\<lambda>r. 0 < ucAge r \<and> xGPACmp (row_pa r) (Some k))"
    by (simp add: fun_eq_iff holds_def word_neq_0_conv)
  then show "gpa_ok k \<Longrightarrow> ?thesis" by (simp add: pxARPCacheLookupGHA_def gpa_ok_is_ok)
qed

lemma settled_row:
  "settled c \<Longrightarrow> r \<in> set c \<Longrightarrow> ucAge r \<noteq> 0 \<Longrightarrow> ucValid r \<noteq> 0 \<and>
    (\<exists>p h. row_pa r = Some p \<and> gpa_ok p \<and> row_ha r = Some h \<and> gha_ok h)"
  by (auto simp: settled_def cache_ok_def row_ok_def)

lemma lookup_None:
  assumes "settled c" "gpa_ok k"
  shows "(pxARPCacheLookupGHA c (Some k) = None) = (\<forall>r \<in> set c. \<not> holds k r)"
proof (cases "find_idx (holds k) c")
  case None
  then show ?thesis using assms(2) find_idx_None [of "holds k" c] by (simp add: lookup_find)
next
  case (Some i)
  then have "c ! i \<in> set c" "holds k (c ! i)" by (auto simp: find_idx_Some)
  moreover from this obtain g where "row_ha (c ! i) = Some g"
    using settled_row [OF assms(1), of "c ! i"] by (auto simp: holds_def)
  ultimately show ?thesis using Some assms(2) by (auto simp: lookup_find)
qed

lemma holds_same:
  assumes "settled c" "r \<in> set c" "gpa_ok j" "gpa_ok k" "xGPACmp (Some j) (Some k)"
  shows "holds j r = holds k r"
proof (cases "ucAge r = 0")
  case False
  then obtain p where "row_pa r = Some p" "gpa_ok p" using settled_row assms by blast
  then show ?thesis using assms by (simp add: holds_def cmp_cstring)
qed (simp add: holds_def)

lemma lookup_both:
  "settled c \<Longrightarrow> gpa_ok k \<Longrightarrow> eARPCacheLookupGPA c (Some k) =
    (case pxARPCacheLookupGHA c (Some k) of None \<Rightarrow> (eARPCacheMiss, None) | Some h \<Rightarrow> (eARPCacheHit, Some h))"
proof -
  assume a: "settled c" "gpa_ok k"
  have h: "holds k = (\<lambda>r. ucAge r \<noteq> 0 \<and> xGPACmp (row_pa r) (Some k))"
    by (simp add: fun_eq_iff holds_def)
  show ?thesis
  proof (cases "find_idx (holds k) c")
    case None
    then show ?thesis using a by (simp add: eARPCacheLookupGPA_def lookup_find flip: h)
  next
    case (Some i)
    then have "c ! i \<in> set c" "holds k (c ! i)" by (auto simp: find_idx_Some)
    moreover obtain g where "row_ha (c ! i) = Some g" "ucValid (c ! i) \<noteq> 0"
      using settled_row [OF a(1), of "c ! i"] calculation by (auto simp: holds_def)
    ultimately show ?thesis using Some a(2)
      by (simp add: eARPCacheLookupGPA_def lookup_find flip: h)
  qed
qed

section \<open>Adding and removing\<close>

definition new_row :: "gpa \<Rightarrow> gha \<Rightarrow> arp_row" where
  "new_row p h = \<lparr>row_pa = Some p, row_ha = Some h, ucAge = 1, ucValid = 1\<rparr>"

lemma dup_gha: "gha_ok h \<Longrightarrow> pxDupGHA ok h = (if ok then Inr h else Inl ERR_OOM)"
  by (auto simp: pxDupGHA_def wf_defs xIsGHAOK_def)

text \<open>What an addition returns and does.\<close>

lemma add_cases:
  assumes "gpa_ok pa" "gha_ok ha" "malloc_ok (mem_addr m)" "xARPCacheAdd m c pa ha = (h, c')"
  shows "(h = -1 \<and> c' = c) \<or> (h = 0 \<and> c' = c \<and> (\<forall>r \<in> set c. ucValid r \<noteq> 0)) \<or>
    (\<exists>i p. h = 1 \<and> find_idx (\<lambda>r. ucValid r = 0) c = Some i \<and> gpa_ok p \<and> xGPACmp (Some p) (Some pa) \<and>
      c' = c[i := new_row p ha])"
proof (cases "pxDupGPA (ok_gpa m) (mem_addr m) pa True 0")
  case (Inl e)
  then show ?thesis using assms(4) by (simp add: xARPCacheAdd_def ARP_CACHE_INVALID_HANDLE_def)
next
  case (Inr p)
  have p: "gpa_ok p" "xGPACmp (Some p) (Some pa)"
    using dup_ok [OF assms(1,3) Inr] dup_cmp [OF assms(1,3) Inr] by auto
  show ?thesis
  proof (cases "ok_gha m")
    case True
    then show ?thesis using assms(2,4) Inr p
      by (auto simp: xARPCacheAdd_def dup_gha new_row_def find_idx_None split: option.splits)
  next
    case False
    then show ?thesis using assms(2,4) Inr
      by (simp add: xARPCacheAdd_def dup_gha ARP_CACHE_INVALID_HANDLE_def)
  qed
qed

lemma settled_update: "settled c \<Longrightarrow> row_ok r \<Longrightarrow> (ucAge r \<noteq> 0) = (ucValid r \<noteq> 0) \<Longrightarrow> settled (c[i := r])"
  by (auto simp: settled_def cache_ok_def dest!: set_update_subset_insert [THEN subsetD])

lemma new_row_ok: "gpa_ok p \<Longrightarrow> gha_ok h \<Longrightarrow> row_ok (new_row p h)"
  by (simp add: row_ok_def new_row_def)

lemma settled_add:
  assumes "settled c" "gpa_ok pa" "gha_ok ha" "malloc_ok (mem_addr m)" "xARPCacheAdd m c pa ha = (h, c')"
  shows "settled c'"
  using add_cases [OF assms(2-5)] assms(1,3)
  by (auto intro!: settled_update new_row_ok simp: new_row_def [THEN arg_cong [where f = ucAge]]
      new_row_def [THEN arg_cong [where f = ucValid]])

lemma settled_remove: "settled c \<Longrightarrow> settled (snd (xARPCacheRemove c pa))"
  by (auto simp: xARPCacheRemove_def settled_def cache_ok_def)

definition arp_insert :: "arp_mem \<Rightarrow> arp_cache \<Rightarrow> gpa \<Rightarrow> gha \<Rightarrow> arp_cache option" where
  "arp_insert m c pa ha = (case xARPCacheAdd m c pa ha of (h, c') \<Rightarrow> if h = 1 then Some c' else None)"

lemma insert_row:
  assumes "settled c" "gpa_ok pa" "gha_ok ha" "malloc_ok (mem_addr m)" "arp_insert m c pa ha = Some c'"
  obtains i p where "i < length c" "ucAge (c ! i) = 0" "gpa_ok p" "cstring (addr p) = cstring (addr pa)"
    "c' = c[i := new_row p ha]"
proof -
  have "xARPCacheAdd m c pa ha = (1, c')"
    using assms(5) by (auto simp: arp_insert_def split: prod.splits if_splits)
  from add_cases [OF assms(2-4) this] obtain i p where r: "i < length c" "ucValid (c ! i) = 0" "gpa_ok p"
    "xGPACmp (Some p) (Some pa)" "c' = c[i := new_row p ha]" by (auto simp: find_idx_Some)
  moreover have "ucAge (c ! i) = 0" using assms(1) r(1,2) by (auto simp: settled_def)
  ultimately show thesis using that cmp_cstring [OF r(3) assms(2)] by blast
qed

lemma holds_new: "gpa_ok p \<Longrightarrow> gpa_ok k \<Longrightarrow> holds k (new_row p h) = (cstring (addr p) = cstring (addr k))"
  by (simp add: holds_def new_row_def cmp_cstring)

lemma holds_empty [simp]: "\<not> holds k empty_row"
  by (simp add: holds_def empty_row_def)

lemma lookup_remove:
  assumes "settled c" "gpa_ok k" "gpa_ok j"
  shows "pxARPCacheLookupGHA (snd (xARPCacheRemove c (Some k))) (Some j) =
    (if xGPACmp (Some j) (Some k) then None else pxARPCacheLookupGHA c (Some j))"
proof -
  let ?f = "\<lambda>r. if ucValid r \<noteq> 0 \<and> xGPACmp (row_pa r) (Some k) then empty_row else r"
  have rem: "snd (xARPCacheRemove c (Some k)) = List.map ?f c"
    by (simp add: xARPCacheRemove_def gpa_ok_is_ok assms(2))
  have h: "holds j (?f r) = (\<not> xGPACmp (Some j) (Some k) \<and> holds j r)" if rc: "r \<in> set c" for r
  proof (cases "ucAge r = 0")
    case False
    then obtain p where "row_pa r = Some p" "gpa_ok p" "ucValid r \<noteq> 0" using settled_row [OF assms(1) rc] by blast
    then show ?thesis using assms by (auto simp: holds_def cmp_cstring)
  qed (auto simp: holds_def)
  have fi: "find_idx (holds j) (List.map ?f c) = (if xGPACmp (Some j) (Some k) then None else find_idx (holds j) c)"
  proof (cases "xGPACmp (Some j) (Some k)")
    case True
    then have "\<forall>r \<in> set c. \<not> holds j (?f r)" using h by blast
    then have "find_idx (\<lambda>r. holds j (?f r)) c = None" by (subst find_idx_None)
    then show ?thesis unfolding find_idx_map using True by simp
  next
    case False
    then show ?thesis unfolding find_idx_map using h by (simp cong: find_idx_cong)
  qed
  have "List.map ?f c ! i = c ! i" if "find_idx (holds j) c = Some i" "\<not> xGPACmp (Some j) (Some k)" for i
    using that h [of "c ! i"] by (auto simp: find_idx_Some split: if_splits)
  then show ?thesis unfolding rem using assms(3) fi by (auto simp: lookup_find split: option.split)
qed

section \<open>The cache as a keyed table\<close>

lemma arp_table:
  assumes "malloc_ok (mem_addr m)"
  shows "keyed_table gpa_ok (\<lambda>a b. xGPACmp (Some a) (Some b)) settled
    (\<lambda>c k. pxARPCacheLookupGHA c (Some k)) (arp_insert m)
    (\<lambda>c k. snd (xARPCacheRemove c (Some k))) gha_ok"
proof
  fix t :: arp_cache and k j :: gpa and v :: gha and t'
  show "settled (snd (xARPCacheRemove t (Some k)))" if "settled t" using that by (rule settled_remove)
  show "pxARPCacheLookupGHA (snd (xARPCacheRemove t (Some k))) (Some j) =
      (if xGPACmp (Some j) (Some k) then None else pxARPCacheLookupGHA t (Some j))"
    if "settled t" "gpa_ok k" "gpa_ok j" using that by (rule lookup_remove)
  show "pxARPCacheLookupGHA t (Some j) = pxARPCacheLookupGHA t (Some k)"
    if a: "settled t" "gpa_ok j" "gpa_ok k" "xGPACmp (Some j) (Some k)"
  proof -
    have "find_idx (holds j) t = find_idx (holds k) t"
      by (rule find_idx_cong) (use holds_same a in blast)
    then show ?thesis using a by (simp add: lookup_find)
  qed
  assume a: "settled t" "gpa_ok k" "gha_ok v" "arp_insert m t k v = Some t'"
  obtain i p where r: "i < length t" "ucAge (t ! i) = 0" "gpa_ok p" "cstring (addr p) = cstring (addr k)"
    "t' = t[i := new_row p v]" using insert_row [OF a(1-3) assms a(4)] .
  show "settled t'" unfolding r(5)
    by (rule settled_update [OF a(1) new_row_ok [OF r(3) a(3)]]) (simp add: new_row_def)
  show "pxARPCacheLookupGHA t' (Some k) = Some v" if "pxARPCacheLookupGHA t (Some k) = None"
  proof -
    have "find_idx (holds k) t' = Some i"
      unfolding r(5) by (rule find_update_hit) (use that a r in \<open>auto simp: lookup_None holds_new\<close>)
    then show ?thesis using a(2) r by (simp add: lookup_find new_row_def)
  qed
  show "pxARPCacheLookupGHA t' (Some j) = pxARPCacheLookupGHA t (Some j)"
    if "gpa_ok j" "\<not> xGPACmp (Some j) (Some k)"
  proof -
    have n: "\<not> holds j (t ! i)" "\<not> holds j (new_row p v)"
      using r that a by (auto simp: holds_def new_row_def cmp_cstring)
    have "find_idx (holds j) t' = find_idx (holds j) t"
      unfolding r(5) using n by (rule find_update_miss)
    moreover have "t' ! x = t ! x" if "find_idx (holds j) t' = Some x" for x
      using that unfolding r(5) by (rule find_update_holds) (rule n)+
    ultimately show ?thesis using that(1) by (auto simp: lookup_find split: option.split)
  qed
qed

definition ample_mem :: arp_mem where
  "ample_mem = \<lparr>ok_gpa = True, ok_gha = True, mem_addr = (\<lambda>n. Some (replicate n 0))\<rparr>"

interpretation arp_tab: keyed_table gpa_ok "\<lambda>a b. xGPACmp (Some a) (Some b)" settled
    "\<lambda>c k. pxARPCacheLookupGHA c (Some k)" "arp_insert ample_mem"
    "\<lambda>c k. snd (xARPCacheRemove c (Some k))" gha_ok
  by (rule arp_table) (simp add: ample_mem_def malloc_ok_def)

section \<open>Refreshing\<close>

text \<open>No age is below the initial minimum -1, so the row for reuse is never chosen.\<close>

lemma refresh_no_match:
  "\<forall>r \<in> set rs. \<not> xGPACmp (row_pa r) pa \<Longrightarrow>
   \<exists>mac'. refresh_loop pa ha rs x ipcp mac use (-1) = Found ipcp mac' use (-1)"
proof (induction rs arbitrary: x mac)
  case (Cons r rs)
  have "\<not> uint (ucAge r) < -1" using uint_nonnegative [of "ucAge r"] by linarith
  then show ?case using Cons by (simp add: Let_def)
qed simp

lemma at_row_negative: "i < 0 \<Longrightarrow> at_row c i f = None"
  by (simp add: at_row_def)

lemma refresh_hit:
  assumes "\<forall>r \<in> set (take i rs). \<not> xGPACmp (row_pa r) pa" "i < length rs"
    "xGPACmp (row_pa (rs ! i)) pa" "xGHACmp (row_ha (rs ! i)) ha"
  shows "refresh_loop pa ha rs x ipcp mac use (-1) = Return (x + i)"
  using assms
proof (induction rs arbitrary: i x mac)
  case (Cons r rs)
  have a: "\<not> uint (ucAge r) < -1" using uint_nonnegative [of "ucAge r"] by linarith
  have h: "ha \<noteq> None" using Cons.prems(4) by (auto simp: xGHACmp_def split: option.splits)
  show ?case
  proof (cases i)
    case 0
    then show ?thesis using Cons.prems h by (simp add: Let_def)
  next
    case (Suc k)
    then have "\<not> xGPACmp (row_pa r) pa" using Cons.prems(1) by simp
    then show ?thesis using Cons.IH [of k] Cons.prems Suc a h by (simp add: Let_def)
  qed
qed simp

section \<open>Properties\<close>

text \<open>C3. Removing an address from the cache and adding it with a hardware address, whatever the
  memory does as long as the addition reports a row, makes every lookup of an equal
  address return that hardware address and changes no other lookup.\<close>

theorem cache_update_lookup:
  assumes "settled c" "gpa_ok k" "gha_ok v" "malloc_ok (mem_addr m)" "gpa_ok j"
    and "xARPCacheAdd m (snd (xARPCacheRemove c (Some k))) k v = (1, c')"
  shows "settled c' \<and> eARPCacheLookupGPA c' (Some j) =
    (if xGPACmp (Some j) (Some k) then (eARPCacheHit, Some v) else eARPCacheLookupGPA c (Some j))"
proof -
  note tab = keyed_table.replace_binding [OF arp_table [OF assms(4)] assms(1-3) _ assms(5), of c']
  show ?thesis
    using tab assms(6) lookup_both [of c' j] lookup_both [OF assms(1,5)] assms(5)
    by (simp add: arp_insert_def)
qed

lemma one_byte_key:
  "gpa_ok \<lparr>pucAddress = Some [x], uxLength = 1\<rparr>" "addr \<lparr>pucAddress = Some [x], uxLength = 1\<rparr> = [x]"
  by (simp_all add: wf_defs addr_def)

lemma cache_update_lookup_witness:
  "\<exists>c'. xARPCacheAdd ample_mem (snd (xARPCacheRemove [empty_row] (Some \<lparr>pucAddress = Some [7], uxLength = 1\<rparr>)))
      \<lparr>pucAddress = Some [7], uxLength = 1\<rparr> xBroadcastHa = (1, c') \<and>
    eARPCacheLookupGPA c' (Some \<lparr>pucAddress = Some [7], uxLength = 1\<rparr>) = (eARPCacheHit, Some xBroadcastHa)"
proof -
  let ?k = "\<lparr>pucAddress = Some [7], uxLength = 1\<rparr>"
  have s: "settled [empty_row]" by (simp add: settled_def cache_ok_def)
  have h: "gha_ok xBroadcastHa" by (simp add: wf_defs xBroadcastHa_def MAC_LEN_def)
  have m: "malloc_ok (mem_addr ample_mem)" by (simp add: ample_mem_def malloc_ok_def)
  obtain c' where c': "xARPCacheAdd ample_mem (snd (xARPCacheRemove [empty_row] (Some ?k))) ?k xBroadcastHa = (1, c')"
    by (simp add: xARPCacheAdd_def xARPCacheRemove_def dup_gha [OF h] ample_mem_def pxDupGPA_def xIsGPAOK_def
        addr_def mem_write_def)
  from cache_update_lookup [OF s one_byte_key(1) h m one_byte_key(1) c'] c'
  show ?thesis using gpa_key.same_refl [OF one_byte_key(1) [of 7]] by auto
qed

text \<open>The handle \<^verbatim>\<open>xARPCacheAdd\<close> returns is not the row it used but the constant 1 (0 when
  the cache is full): on a cache whose first row is free the added address is still
  found after its own handle was removed.\<close>

theorem cache_handle_is_not_row:
  assumes "settled c" "gpa_ok pa" "gha_ok ha" "malloc_ok (mem_addr m)"
    and "c = empty_row # rest" "\<forall>r \<in> set rest. \<not> holds pa r"
    and "xARPCacheAdd m c pa ha = (h, c')" "h \<noteq> ARP_CACHE_INVALID_HANDLE"
  shows "h = 1 \<and> (\<exists>c''. xARPCacheRemoveHandle c' h = Some c'' \<and>
    eARPCacheLookupGPA c'' (Some pa) = (eARPCacheHit, Some ha))"
proof -
  obtain i p where r: "h = 1" "find_idx (\<lambda>r. ucValid r = 0) c = Some i" "gpa_ok p"
    "c' = c[i := new_row p ha]" "cstring (addr p) = cstring (addr pa)"
    using add_cases [OF assms(2-4,7)] assms(5,8) cmp_cstring [OF _ assms(2)]
    by (auto simp: ARP_CACHE_INVALID_HANDLE_def)
  have i: "i = 0" using r(2) assms(5) by simp
  have c': "c' = new_row p ha # rest" by (simp add: r(4) i assms(5))
  have rm: "\<exists>rest'. xARPCacheRemoveHandle c' 1 = Some (new_row p ha # rest')"
    by (cases rest) (auto simp: xARPCacheRemoveHandle_def prvARPCacheFreeRow_def c')
  have "eARPCacheLookupGPA (new_row p ha # rest') (Some pa) = (eARPCacheHit, Some ha)" for rest'
    using r(3,5) assms(2) by (simp add: eARPCacheLookupGPA_def new_row_def cmp_cstring)
  then show ?thesis using rm r(1) by auto
qed

text \<open>Refreshing an address that is in no row never records it: whether or not the hardware
  address is known, the function writes to the row before the first one, because the
  entry of the unknown address is still -1 and is compared with \<^verbatim>\<open>CHAR_MAX\<close>.  For an
  address already cached with the same hardware address it renews exactly that row.\<close>

theorem cache_refresh:
  "((\<forall>r \<in> set c. \<not> xGPACmp (row_pa r) (Some p)) \<and> pxDupGPA (ok_gpa m) (mem_addr m) p True 0 = Inr np \<longrightarrow>
      vARPCacheRefresh m c (Some p) ha = None) \<and>
   ((\<forall>r \<in> set (take i c). \<not> xGPACmp (row_pa r) (Some p)) \<and> i < length c \<and> xGPACmp (row_pa (c ! i)) (Some p) \<and>
      xGHACmp (row_ha (c ! i)) ha \<longrightarrow>
      vARPCacheRefresh m c (Some p) ha = Some (c[i := (c ! i)\<lparr>ucAge := CFG_MAX_ARP_AGE, ucValid := 1\<rparr>]))"
proof (intro conjI impI; elim conjE)
  assume n: "\<forall>r \<in> set c. \<not> xGPACmp (row_pa r) (Some p)" "pxDupGPA (ok_gpa m) (mem_addr m) p True 0 = Inr np"
  obtain mac where l: "refresh_loop (Some p) ha c 0 (-1) (-1) 0 (-1) = Found (-1) mac 0 (-1)"
    using refresh_no_match [OF n(1)] by blast
  have "(-1 :: int) \<noteq> CHAR_MAX" by (simp add: CHAR_MAX_def)
  then show "vARPCacheRefresh m c (Some p) ha = None"
    using n(2) by (auto simp: vARPCacheRefresh_def l refresh_pick_def refresh_store_def at_row_negative Let_def)
next
  assume "\<forall>r \<in> set (take i c). \<not> xGPACmp (row_pa r) (Some p)" "i < length c"
    "xGPACmp (row_pa (c ! i)) (Some p)" "xGHACmp (row_ha (c ! i)) ha"
  from refresh_hit [OF this]
  show "vARPCacheRefresh m c (Some p) ha = Some (c[i := (c ! i)\<lparr>ucAge := CFG_MAX_ARP_AGE, ucValid := 1\<rparr>])"
    by (simp add: vARPCacheRefresh_def)
qed

end
