(* ===== verification/Arp.thy ===== *)
theory Arp
  imports Arp_Cache
begin

text \<open>Address resolution (\<^verbatim>\<open>ShimIPCP/ARP826.c\<close>, \<^verbatim>\<open>ShimIPCP/eth.c\<close>) on the bytes of a packet.  The
  host is little-endian.  The buffers of packets come from an allocator that stands for
  the pools.\<close>

section \<open>Layout of a packet\<close>

definition swap16 :: "u16 \<Rightarrow> u16" where
  "swap16 w = push_bit 8 w OR drop_bit 8 w"

definition le16 :: "u16 \<Rightarrow> bytes" where
  "le16 w = [ucast w, ucast (drop_bit 8 w)]"

definition le16_of :: "u8 \<Rightarrow> u8 \<Rightarrow> u16" where
  "le16_of a b = ucast a OR push_bit 8 (ucast b)"

record arp_hdr =
  usHType :: u16
  usPType :: u16
  ucHALength :: u8
  ucPALength :: u8
  usOperation :: u16

record eth_hdr =
  xDestinationAddress :: bytes
  xSourceAddress :: bytes
  usFrameType :: u16

definition ARP_HDR_SZ :: nat where "ARP_HDR_SZ = 8"
definition ETH_P_RINA :: u16 where "ETH_P_RINA = 0xD1F0"
definition ETH_P_RINA_ARP :: u16 where "ETH_P_RINA_ARP = 0x4305"
definition ARP_HARDWARE_TYPE_ETHERNET :: u16 where "ARP_HARDWARE_TYPE_ETHERNET = 1"
definition ARP_REQUEST :: u16 where "ARP_REQUEST = 0x0100"
definition ARP_REPLY :: u16 where "ARP_REPLY = 0x0200"

definition arp_hdr_bytes :: "arp_hdr \<Rightarrow> bytes" where
  "arp_hdr_bytes h = le16 (usHType h) @ le16 (usPType h) @ [ucHALength h, ucPALength h] @ le16 (usOperation h)"

definition arp_hdr_of :: "bytes \<Rightarrow> arp_hdr" where
  "arp_hdr_of p =
    \<lparr>usHType = le16_of (p ! 0) (p ! 1), usPType = le16_of (p ! 2) (p ! 3), ucHALength = p ! 4,
     ucPALength = p ! 5, usOperation = le16_of (p ! 6) (p ! 7)\<rparr>"

datatype arp_ptr = SHA | SPA | THA | TPA | PACKET_END

fun ptr_rank :: "arp_ptr \<Rightarrow> nat" where
  "ptr_rank SHA = 0" | "ptr_rank SPA = 1" | "ptr_rank THA = 2" | "ptr_rank TPA = 3" | "ptr_rank PACKET_END = 4"

text \<open>The offset of an item in the packet.\<close>

definition pxARPHeaderGetPtr :: "arp_ptr \<Rightarrow> arp_hdr \<Rightarrow> nat" where
  "pxARPHeaderGetPtr t h =
    (if t = SHA then ARP_HDR_SZ
     else ARP_HDR_SZ
       + (if ptr_rank SPA \<le> ptr_rank t then unat (ucHALength h) else 0)
       + (if ptr_rank THA \<le> ptr_rank t then unat (ucPALength h) else 0)
       + (if ptr_rank TPA \<le> ptr_rank t then unat (ucHALength h) else 0)
       + (if ptr_rank PACKET_END \<le> ptr_rank t \<and> usOperation h = ARP_REPLY then unat (ucPALength h) else 0))"

section \<open>Building packets\<close>

text \<open>A sequence of \<^verbatim>\<open>memcpy\<close> into one block.\<close>

fun write_all :: "bytes \<Rightarrow> (nat \<times> bytes) list \<Rightarrow> bytes option" where
  "write_all b [] = Some b"
| "write_all b ((off, s) # ws) = Option.bind (mem_write b off s) (\<lambda>b'. write_all b' ws)"

definition prvARPGetRequest :: "allocator \<Rightarrow> gha \<Rightarrow> gpa \<Rightarrow> gpa \<Rightarrow> u16 \<Rightarrow> bytes outcome" where
  "prvARPGetRequest alloc sha spa tpa op =
    (let sz = ARP_HDR_SZ + (uxLength spa + MAC_LEN) * 2;
         h = \<lparr>usHType = swap16 1, usPType = swap16 ETH_P_RINA, ucHALength = of_nat MAC_LEN,
              ucPALength = of_nat (uxLength spa), usOperation = op\<rparr> in
     obind (of_opt ERR_OOM (alloc sz)) (\<lambda>b.
     or_crash (write_all b
       [(0, arp_hdr_bytes h),
        (ARP_HDR_SZ, take MAC_LEN (xAddress sha)),
        (ARP_HDR_SZ + MAC_LEN, addr spa),
        (ARP_HDR_SZ + MAC_LEN + uxLength spa, xAddress xBroadcastHa),
        (ARP_HDR_SZ + MAC_LEN + uxLength spa + MAC_LEN, addr tpa)])))"

record arp_data =
  pxARPHdr :: arp_hdr
  pxSpa :: gpa
  pxSha :: gha
  pxTpa :: gpa
  pxTha :: gha

text \<open>The bytes at a pointer of the packet.\<close>

definition arp_field :: "bytes \<Rightarrow> nat \<Rightarrow> nat \<Rightarrow> bytes outcome" where
  "arp_field p off n = (if off + n \<le> length p then Done (take n (drop off p)) else Crash)"

text \<open>The structure the addresses go into is not initialised and a failure frees all four of them: before the last
  one is set, some of the pointers that are freed are whatever was on the stack.\<close>

definition or_stray :: "'a res \<Rightarrow> 'a outcome" where
  "or_stray r = (case r of Inl _ \<Rightarrow> Crash | Inr x \<Rightarrow> Done x)"

lemma or_stray_simps [simp]: "or_stray (Inr x) = Done x" "or_stray (Inl err) = Crash"
  by (simp_all add: or_stray_def)

definition prvARPExtractRequestData :: "arp_mem \<Rightarrow> bytes \<Rightarrow> arp_data outcome" where
  "prvARPExtractRequestData m p =
    (let h = arp_hdr_of p; pl = unat (ucPALength h) in
     obind (arp_field p (pxARPHeaderGetPtr SHA h) MAC_LEN) (\<lambda>bsha.
     obind (or_stray (pxCreateGHA (ok_gha m) MAC_ADDR_802_3 bsha)) (\<lambda>sha.
     obind (arp_field p (pxARPHeaderGetPtr SPA h) pl) (\<lambda>bspa.
     obind (or_stray (pxCreateGPA (ok_gpa m) (mem_addr m) (Some bspa) pl)) (\<lambda>spa0.
     obind (arp_field p (pxARPHeaderGetPtr THA h) MAC_LEN) (\<lambda>btha.
     obind (or_stray (pxCreateGHA (ok_gha m) MAC_ADDR_802_3 btha)) (\<lambda>tha.
     obind (or_stray (xGPAShrink (mem_addr m) spa0 0)) (\<lambda>spa.
     obind (arp_field p (pxARPHeaderGetPtr TPA h) pl) (\<lambda>btpa.
     obind (of_res (pxCreateGPA (ok_gpa m) (mem_addr m) (Some btpa) pl)) (\<lambda>tpa0.
     obind (of_res (xGPAShrink (mem_addr m) tpa0 0)) (\<lambda>tpa.
     Done \<lparr>pxARPHdr = h, pxSpa = spa, pxSha = sha, pxTpa = tpa, pxTha = tha\<rparr>)))))))))))"

definition prvARPGetResponse :: "allocator \<Rightarrow> eth_hdr \<Rightarrow> arp_data \<Rightarrow> gha \<Rightarrow> bytes outcome" where
  "prvARPGetResponse alloc eth req found =
    (let h = (pxARPHdr req)\<lparr>usOperation := ARP_REPLY\<rparr>; pl = unat (ucPALength h) in
     obind (of_opt ERR_OOM (alloc (ARP_HDR_SZ + (pl + MAC_LEN) * 2))) (\<lambda>b.
     or_crash (write_all b
       [(0, arp_hdr_bytes h),
        (pxARPHeaderGetPtr SPA h, replicate pl 0),
        (pxARPHeaderGetPtr SPA h, addr (pxTpa req)),
        (pxARPHeaderGetPtr SHA h, take MAC_LEN (xAddress found)),
        (pxARPHeaderGetPtr TPA h, replicate pl 0),
        (pxARPHeaderGetPtr TPA h, addr (pxSpa req)),
        (pxARPHeaderGetPtr THA h, take MAC_LEN (xSourceAddress eth))])))"

definition pxEthAllocHeader :: "bool \<Rightarrow> gha \<Rightarrow> gha \<Rightarrow> eth_hdr option" where
  "pxEthAllocHeader ok sha tha =
    (if ok then Some \<lparr>xDestinationAddress = take MAC_LEN (xAddress tha),
        xSourceAddress = take MAC_LEN (xAddress sha), usFrameType = swap16 ETH_P_RINA_ARP\<rparr>
     else None)"

text \<open>The frame handed to the network interface; a failure is the result false.  The grown
  copies are only made.\<close>

definition vARPSendRequest :: "arp_mem \<Rightarrow> gpa \<Rightarrow> gpa \<Rightarrow> gha \<Rightarrow> (eth_hdr \<times> bytes) outcome" where
  "vARPSendRequest m tpa spa sha =
    (let n = max (uxLength spa) (uxLength tpa) in
     obind (of_res (pxDupGPA (ok_gpa m) (mem_addr m) spa False 0)) (\<lambda>gs.
     obind (of_res (pxDupGPA (ok_gpa m) (mem_addr m) tpa False 0)) (\<lambda>gt.
     obind (of_res (xGPAGrow (mem_addr m) gs n 0)) (\<lambda>_.
     obind (of_res (xGPAGrow (mem_addr m) gt n 0)) (\<lambda>_.
     obind (prvARPGetRequest (mem_addr m) sha spa tpa ARP_REQUEST) (\<lambda>p.
     obind (of_opt ERR_OOM (pxEthAllocHeader (ok_gha m) sha xBroadcastHa)) (\<lambda>eth.
     Done (eth, p))))))))"

definition xARPResolveGPA :: "arp_mem \<Rightarrow> gpa \<Rightarrow> gpa \<Rightarrow> gha \<Rightarrow> (eth_hdr \<times> bytes) outcome" where
  "xARPResolveGPA m tpa spa sha =
    (if \<not> xIsGPAOK (Some tpa) \<or> \<not> xIsGHAOK (Some sha) \<or> \<not> xIsGPAOK (Some spa) then Fail ERR_BAD_ARG
     else vARPSendRequest m tpa spa sha)"

section \<open>Receiving\<close>

datatype frame_result = eReleaseBuffer | eProcessBuffer | eReturnEthernetFrame | eFrameConsumed

record arp_out =
  arp_result :: frame_result
  arp_new_cache :: arp_cache
  arp_reply :: "bytes option"

text \<open>A lookup that finds an entry without a valid row leaves the result pointer unset.  A reply
  that could not be built is overwritten by the value for success.\<close>

definition eARPProcessPacket :: "arp_mem \<Rightarrow> arp_cache \<Rightarrow> eth_hdr \<Rightarrow> bytes \<Rightarrow> arp_out outcome" where
  "eARPProcessPacket m c eth p =
    (let release = \<lparr>arp_result = eReleaseBuffer, arp_new_cache = c, arp_reply = None\<rparr>;
         h = arp_hdr_of p in
     if length p < ARP_HDR_SZ then Crash
     else if usHType h \<noteq> swap16 ARP_HARDWARE_TYPE_ETHERNET then Done release
     else if ucHALength h \<noteq> of_nat MAC_LEN then Done release
     else if usOperation h \<noteq> ARP_REPLY \<and> usOperation h \<noteq> ARP_REQUEST then Done release
     else
       (case prvARPExtractRequestData m p of
          Crash \<Rightarrow> Crash
        | Fail _ \<Rightarrow> Done release
        | Done d \<Rightarrow>
            if usOperation h = ARP_REQUEST then
              (let (r, ha) = eARPCacheLookupGPA c (Some (pxTpa d)) in
               if r = eARPCacheMiss then Done release
               else
                 obind (or_crash ha) (\<lambda>ha.
                 case prvARPGetResponse (mem_addr m) eth d ha of
                   Crash \<Rightarrow> Crash
                 | Fail _ \<Rightarrow> Done \<lparr>arp_result = eReturnEthernetFrame, arp_new_cache = c, arp_reply = None\<rparr>
                 | Done q \<Rightarrow> Done \<lparr>arp_result = eReturnEthernetFrame, arp_new_cache = c, arp_reply = Some q\<rparr>))
            else
              Done \<lparr>arp_result = eReleaseBuffer,
                    arp_new_cache = snd (xARPCacheAdd m c (pxTpa d) (pxTha d)), arp_reply = None\<rparr>))"

definition xARPAddApplication :: "arp_mem \<Rightarrow> arp_cache \<Rightarrow> gpa \<Rightarrow> gha \<Rightarrow> int \<times> arp_cache" where
  "xARPAddApplication m c pa ha = xARPCacheAdd m c pa ha"

definition xARPRemoveApplication :: "arp_cache \<Rightarrow> gpa option \<Rightarrow> bool \<times> arp_cache" where
  "xARPRemoveApplication c pa = xARPCacheRemove c pa"

definition pxARPLookupGHA :: "arp_cache \<Rightarrow> gpa option \<Rightarrow> gha option" where
  "pxARPLookupGHA c pa = pxARPCacheLookupGHA c pa"

definition xARPInit :: "bool \<Rightarrow> bool \<Rightarrow> bool \<Rightarrow> arp_cache option" where
  "xARPInit ok1 ok2 ok3 =
    (case pxARPCacheCreate ok1 4 of
       None \<Rightarrow> None
     | Some c \<Rightarrow> if \<not> ok2 then None else if \<not> ok3 then None else Some c)"

section \<open>Layout lemmas\<close>

lemma le16_round: "le16_of (ucast w) (ucast (drop_bit 8 w)) = w"
  by (rule bit_word_eqI) (auto simp: le16_of_def bit_simps)

lemma le16_length [simp]: "length (le16 w) = 2"
  by (simp add: le16_def)

lemma hdr_bytes_length [simp]: "length (arp_hdr_bytes h) = ARP_HDR_SZ"
  by (simp add: arp_hdr_bytes_def ARP_HDR_SZ_def)

lemma hdr_round: "arp_hdr_of (arp_hdr_bytes h @ r) = h"
  by (simp add: arp_hdr_of_def arp_hdr_bytes_def le16_def le16_round)

definition packet :: "arp_hdr \<Rightarrow> bytes \<Rightarrow> bytes \<Rightarrow> bytes \<Rightarrow> bytes \<Rightarrow> bytes" where
  "packet h sha spa tha tpa = arp_hdr_bytes h @ sha @ spa @ tha @ tpa"

lemma ptr_offsets:
  assumes "ucHALength h = of_nat MAC_LEN"
  shows "pxARPHeaderGetPtr SHA h = ARP_HDR_SZ" "pxARPHeaderGetPtr SPA h = ARP_HDR_SZ + MAC_LEN"
    "pxARPHeaderGetPtr THA h = ARP_HDR_SZ + MAC_LEN + unat (ucPALength h)"
    "pxARPHeaderGetPtr TPA h = ARP_HDR_SZ + MAC_LEN + unat (ucPALength h) + MAC_LEN"
  using assms by (simp_all add: pxARPHeaderGetPtr_def MAC_LEN_def)

lemma field_at: "length a = off \<Longrightarrow> length b = n \<Longrightarrow> arp_field (a @ b @ c) off n = Done b"
  by (simp add: arp_field_def)

lemma packet_fields:
  assumes "length sha = MAC_LEN" "length spa = pl" "length tha = MAC_LEN" "length tpa = pl"
  shows "arp_field (packet h sha spa tha tpa) ARP_HDR_SZ MAC_LEN = Done sha"
    "arp_field (packet h sha spa tha tpa) (ARP_HDR_SZ + MAC_LEN) pl = Done spa"
    "arp_field (packet h sha spa tha tpa) (ARP_HDR_SZ + MAC_LEN + pl) MAC_LEN = Done tha"
    "arp_field (packet h sha spa tha tpa) (ARP_HDR_SZ + MAC_LEN + pl + MAC_LEN) pl = Done tpa"
  using assms field_at [of "arp_hdr_bytes h" _ sha] field_at [of "arp_hdr_bytes h @ sha" _ spa]
    field_at [of "arp_hdr_bytes h @ sha @ spa" _ tha] field_at [of "arp_hdr_bytes h @ sha @ spa @ tha" _ tpa _ "[]"]
  by (simp_all add: packet_def)

text \<open>Memory that never runs out.\<close>

definition mem_plenty :: "arp_mem \<Rightarrow> bool" where
  "mem_plenty m = (ok_gpa m \<and> ok_gha m \<and> malloc_ok (mem_addr m) \<and> (\<forall>n. mem_addr m n \<noteq> None))"

lemma create_gpa:
  assumes "mem_plenty m" "length s = n" "0 < n"
  shows "pxCreateGPA (ok_gpa m) (mem_addr m) (Some s) n = Inr \<lparr>pucAddress = Some (s @ [0]), uxLength = n\<rparr>"
proof -
  obtain b where b: "mem_addr m (n + 1) = Some b" using assms(1) by (auto simp: mem_plenty_def)
  then have "length b = n + 1" using assms(1) by (auto simp: mem_plenty_def malloc_ok_def)
  then show ?thesis using assms b
    by (simp add: pxCreateGPA_def pucCreateAddress_def mem_plenty_def mem_write_def xIsGPAOK_def drop_Cons')
qed

text \<open>An address read from a packet: cut at the first zero byte.\<close>

lemma shrink_zero:
  assumes "mem_plenty m" "gpa_ok g"
  shows "\<exists>g'. xGPAShrink (mem_addr m) g 0 = Inr g' \<and> addr g' = cstring (addr g) \<and>
    (cstring (addr g) \<noteq> [] \<longrightarrow> gpa_ok g')"
proof (cases "find_idx (\<lambda>b. b = 0) (addr g)")
  case None
  then have "cstring (addr g) = addr g" by (simp add: cstring_def find_idx_None_takeWhile)
  then show ?thesis using None assms gpa_ok_is_ok by (simp add: xGPAShrink_def)
next
  case (Some n)
  have a: "mem_addr m n \<noteq> None" "malloc_ok (mem_addr m)" using assms(1) by (auto simp: mem_plenty_def)
  have c: "take n (addr g) = cstring (addr g)"
    using find_idx_takeWhile [OF Some] by (simp add: cstring_def)
  have "n \<le> length (addr g)" using find_idx_lt [OF Some] by simp
  then show ?thesis using shrink_result [OF assms(2) a(2) Some a(1)] c find_idx_length [OF Some]
    by (auto simp: addr_def wf_defs cstring_def)
qed

lemma extract_packet:
  assumes "mem_plenty m" "ucHALength h = of_nat MAC_LEN" "unat (ucPALength h) = pl" "0 < pl"
    "length sha = MAC_LEN" "length spa = pl" "length tha = MAC_LEN" "length tpa = pl"
  shows "\<exists>gs gt. prvARPExtractRequestData m (packet h sha spa tha tpa) =
      Done \<lparr>pxARPHdr = h, pxSpa = gs, pxSha = \<lparr>xType = MAC_ADDR_802_3, xAddress = sha\<rparr>,
            pxTpa = gt, pxTha = \<lparr>xType = MAC_ADDR_802_3, xAddress = tha\<rparr>\<rparr> \<and>
    addr gs = cstring spa \<and> addr gt = cstring tpa \<and>
    (cstring spa \<noteq> [] \<longrightarrow> gpa_ok gs) \<and> (cstring tpa \<noteq> [] \<longrightarrow> gpa_ok gt)"
proof -
  let ?g = "\<lambda>s. \<lparr>pucAddress = Some (s @ [0]), uxLength = pl\<rparr>"
  have g: "gpa_ok (?g s)" "addr (?g s) = s" if "length s = pl" for s
    using that assms(4) by (simp_all add: wf_defs addr_def)
  obtain gs where gs: "xGPAShrink (mem_addr m) (?g spa) 0 = Inr gs" "addr gs = cstring spa" "cstring spa \<noteq> [] \<longrightarrow> gpa_ok gs"
    using shrink_zero [OF assms(1) g(1) [OF assms(6)]] g(2) [OF assms(6)] by auto
  obtain gt where gt: "xGPAShrink (mem_addr m) (?g tpa) 0 = Inr gt" "addr gt = cstring tpa" "cstring tpa \<noteq> [] \<longrightarrow> gpa_ok gt"
    using shrink_zero [OF assms(1) g(1) [OF assms(8)]] g(2) [OF assms(8)] by auto
  have h: "arp_hdr_of (packet h sha spa tha tpa) = h" by (simp add: packet_def hdr_round)
  have "ok_gha m" using assms(1) by (simp add: mem_plenty_def)
  then have "prvARPExtractRequestData m (packet h sha spa tha tpa) =
      Done \<lparr>pxARPHdr = h, pxSpa = gs, pxSha = \<lparr>xType = MAC_ADDR_802_3, xAddress = sha\<rparr>,
            pxTpa = gt, pxTha = \<lparr>xType = MAC_ADDR_802_3, xAddress = tha\<rparr>\<rparr>"
    unfolding prvARPExtractRequestData_def h Let_def ptr_offsets [OF assms(2)] assms(3)
    by (simp add: packet_fields [OF assms(5-8)] pxCreateGHA_def assms(5,7) gs(1) gt(1)
        create_gpa [OF assms(1,6,4)] create_gpa [OF assms(1,8,4)])
  then show ?thesis using gs gt by blast
qed

section \<open>Building\<close>

lemma mw1: "length a = off \<Longrightarrow> length old = length src \<Longrightarrow> mem_write (a @ old @ y) off src = Some (a @ src @ y)"
  by (rule mem_write_app)

lemma mw2: "length a + length b = off \<Longrightarrow> length old = length src \<Longrightarrow>
  mem_write (a @ b @ old @ y) off src = Some (a @ b @ src @ y)"
  using mem_write_app [of "a @ b" off old src y] by simp

lemma mw3: "length a + length b + length c = off \<Longrightarrow> length old = length src \<Longrightarrow>
  mem_write (a @ b @ c @ old @ y) off src = Some (a @ b @ c @ src @ y)"
  using mem_write_app [of "a @ b @ c" off old src y] by simp

lemma mw4: "length a + length b + length c + length d = off \<Longrightarrow> length old = length src \<Longrightarrow>
  mem_write (a @ b @ c @ d @ old) off src = Some (a @ b @ c @ d @ src)"
  using mem_write_app [of "a @ b @ c @ d" off old src "[]"] by simp

lemma mw0: "length old = length src \<Longrightarrow> mem_write (old @ y) 0 src = Some (src @ y)"
  using mem_write_app [of "[]" 0 old src y] by simp

lemma five_blocks:
  assumes "length b = n0 + n1 + n2 + n3 + n4"
  obtains b0 b1 b2 b3 b4 where "b = b0 @ b1 @ b2 @ b3 @ b4" "length b0 = n0" "length b1 = n1" "length b2 = n2"
    "length b3 = n3" "length b4 = n4"
proof -
  have "b = take n0 b @ take n1 (drop n0 b) @ take n2 (drop (n0 + n1) b) @ take n3 (drop (n0 + n1 + n2) b) @
      drop (n0 + n1 + n2 + n3) b"
    by (metis add.commute append_take_drop_id drop_drop)
  then show thesis by (rule that) (use assms in auto)
qed

definition req_hdr :: "nat \<Rightarrow> u16 \<Rightarrow> arp_hdr" where
  "req_hdr pl op = \<lparr>usHType = swap16 1, usPType = swap16 ETH_P_RINA, ucHALength = of_nat MAC_LEN,
     ucPALength = of_nat pl, usOperation = op\<rparr>"

text \<open>A target address that is shorter than the source address leaves the end of the packet as it was.\<close>

lemma request_packet:
  assumes "malloc_ok alloc" "alloc (ARP_HDR_SZ + (uxLength spa + MAC_LEN) * 2) \<noteq> None" "gha_ok sha" "gpa_ok spa"
    "length (addr tpa) \<le> uxLength spa"
  shows "\<exists>rest. length (addr tpa @ rest) = uxLength spa \<and> prvARPGetRequest alloc sha spa tpa op =
    Done (packet (req_hdr (uxLength spa) op) (xAddress sha) (addr spa) (xAddress xBroadcastHa) (addr tpa @ rest))"
proof -
  obtain b where b: "alloc (ARP_HDR_SZ + (uxLength spa + MAC_LEN) * 2) = Some b" using assms(2) by auto
  have "length b = ARP_HDR_SZ + MAC_LEN + uxLength spa + MAC_LEN + uxLength spa"
    using b assms(1) by (simp add: malloc_ok_def)
  then obtain b0 b1 b2 b3 b4 where bs: "b = b0 @ b1 @ b2 @ b3 @ b4" "length b0 = ARP_HDR_SZ" "length b1 = MAC_LEN"
    "length b2 = uxLength spa" "length b3 = MAC_LEN" "length b4 = uxLength spa" by (rule five_blocks)
  let ?k = "length (addr tpa)"
  have b4: "b4 = take ?k b4 @ drop ?k b4" "length (take ?k b4) = ?k" using bs(6) assms(5) by simp_all
  have l: "length (addr spa) = uxLength spa" "length (xAddress sha) = MAC_LEN"
    using assms(3,4) addr_length by (auto simp: wf_defs)
  have bc: "length (xAddress xBroadcastHa) = MAC_LEN" by (simp add: xBroadcastHa_def)
  have w: "mem_write (h @ xAddress sha @ addr spa @ xAddress xBroadcastHa @ b4)
      (ARP_HDR_SZ + MAC_LEN + uxLength spa + MAC_LEN) (addr tpa) =
      Some (h @ xAddress sha @ addr spa @ xAddress xBroadcastHa @ addr tpa @ drop ?k b4)" if "length h = ARP_HDR_SZ" for h
    using that l bc b4 mem_write_app [of "h @ xAddress sha @ addr spa @ xAddress xBroadcastHa" _ "take ?k b4" "addr tpa" "drop ?k b4"]
    by (simp add: add.assoc)
  have "prvARPGetRequest alloc sha spa tpa op =
    Done (packet (req_hdr (uxLength spa) op) (xAddress sha) (addr spa) (xAddress xBroadcastHa) (addr tpa @ drop ?k b4))"
    unfolding prvARPGetRequest_def Let_def b req_hdr_def [symmetric]
    by (simp add: bs l bc mw0 mw1 mw2 mw3 w packet_def)
  moreover have "length (addr tpa @ drop ?k b4) = uxLength spa" using assms(5) bs(6) by simp
  ultimately show ?thesis by blast
qed

text \<open>A target address longer than the source address does not fit.\<close>

lemma request_overflow:
  assumes "malloc_ok alloc" "alloc (ARP_HDR_SZ + (uxLength spa + MAC_LEN) * 2) \<noteq> None" "gha_ok sha" "gpa_ok spa"
    "uxLength spa < length (addr tpa)"
  shows "prvARPGetRequest alloc sha spa tpa op = Crash"
proof -
  obtain b where b: "alloc (ARP_HDR_SZ + (uxLength spa + MAC_LEN) * 2) = Some b" using assms(2) by auto
  have "length b = ARP_HDR_SZ + MAC_LEN + uxLength spa + MAC_LEN + uxLength spa"
    using b assms(1) by (simp add: malloc_ok_def)
  then obtain b0 b1 b2 b3 b4 where bs: "b = b0 @ b1 @ b2 @ b3 @ b4" "length b0 = ARP_HDR_SZ" "length b1 = MAC_LEN"
    "length b2 = uxLength spa" "length b3 = MAC_LEN" "length b4 = uxLength spa" by (rule five_blocks)
  have l: "length (addr spa) = uxLength spa" "length (xAddress sha) = MAC_LEN"
    using assms(3,4) addr_length by (auto simp: wf_defs)
  have bc: "length (xAddress xBroadcastHa) = MAC_LEN" by (simp add: xBroadcastHa_def)
  have "mem_write (h @ xAddress sha @ addr spa @ xAddress xBroadcastHa @ b4)
      (ARP_HDR_SZ + MAC_LEN + uxLength spa + MAC_LEN) (addr tpa) = None" if "length h = ARP_HDR_SZ" for h
    using that l bc bs(6) assms(5) by (simp add: mem_write_None)
  then show ?thesis
    unfolding prvARPGetRequest_def Let_def b req_hdr_def [symmetric]
    by (simp add: bs l bc mw0 mw1 mw2 mw3)
qed

definition padded :: "nat \<Rightarrow> bytes \<Rightarrow> bytes" where
  "padded n s = s @ replicate (n - length s) 0"

lemma padded_length: "length s \<le> n \<Longrightarrow> length (padded n s) = n"
  by (simp add: padded_def)

lemma cstring_padded: "0 \<notin> set s \<Longrightarrow> cstring (padded n s) = s"
  by (cases "n - length s") (simp_all add: padded_def cstring_app cstring_id)

lemma write_padded:
  assumes "length a = off" "length s \<le> n"
  shows "mem_write (a @ replicate n 0 @ y) off s = Some (a @ padded n s @ y)"
proof -
  have "replicate n (0 :: u8) = replicate (length s) 0 @ replicate (n - length s) 0"
    using assms(2) by (simp flip: replicate_add)
  then show ?thesis using mw1 [OF assms(1), of "replicate (length s) 0" s "replicate (n - length s) 0 @ y"]
    by (simp add: padded_def)
qed

lemma response_packet:
  assumes "malloc_ok alloc" "\<forall>n. alloc n \<noteq> None" "ucHALength (pxARPHdr d) = of_nat MAC_LEN"
    "pl = unat (ucPALength (pxARPHdr d))" "length (addr (pxTpa d)) \<le> pl" "length (addr (pxSpa d)) \<le> pl"
    "gha_ok found" "length (xSourceAddress eth) = MAC_LEN"
  shows "prvARPGetResponse alloc eth d found =
    Done (packet ((pxARPHdr d)\<lparr>usOperation := ARP_REPLY\<rparr>) (xAddress found) (padded pl (addr (pxTpa d)))
      (xSourceAddress eth) (padded pl (addr (pxSpa d))))"
proof -
  define h where "h = (pxARPHdr d)\<lparr>usOperation := ARP_REPLY\<rparr>"
  have hl: "ucHALength h = of_nat MAC_LEN" "unat (ucPALength h) = pl" using assms(3,4) by (simp_all add: h_def)
  obtain b where b: "alloc (ARP_HDR_SZ + (pl + MAC_LEN) * 2) = Some b" using assms(2) by auto
  have "length b = ARP_HDR_SZ + MAC_LEN + pl + MAC_LEN + pl"
    using b assms(1) by (simp add: malloc_ok_def)
  then obtain b0 b1 b2 b3 b4 where bs: "b = b0 @ b1 @ b2 @ b3 @ b4" "length b0 = ARP_HDR_SZ" "length b1 = MAC_LEN"
    "length b2 = pl" "length b3 = MAC_LEN" "length b4 = pl" by (rule five_blocks)
  let ?H = "arp_hdr_bytes h" and ?t = "addr (pxTpa d)" and ?s = "addr (pxSpa d)"
  let ?T = "padded pl ?t" and ?S = "padded pl ?s"
  have f: "length (xAddress found) = MAC_LEN" using assms(7) by (simp add: wf_defs)
  have w0: "mem_write b 0 ?H = Some (?H @ b1 @ b2 @ b3 @ b4)" by (simp add: bs mw0)
  have w1: "mem_write (?H @ b1 @ b2 @ b3 @ b4) (ARP_HDR_SZ + MAC_LEN) (replicate pl 0) =
      Some (?H @ b1 @ replicate pl 0 @ b3 @ b4)" by (rule mw2) (simp_all add: bs)
  have w2: "mem_write (?H @ b1 @ replicate pl 0 @ b3 @ b4) (ARP_HDR_SZ + MAC_LEN) ?t =
      Some (?H @ b1 @ ?T @ b3 @ b4)"
    using write_padded [of "?H @ b1" "ARP_HDR_SZ + MAC_LEN" ?t pl "b3 @ b4"] assms(5) bs by simp
  have w3: "mem_write (?H @ b1 @ ?T @ b3 @ b4) ARP_HDR_SZ (xAddress found) =
      Some (?H @ xAddress found @ ?T @ b3 @ b4)" by (rule mw1) (simp_all add: bs f)
  have w4: "mem_write (?H @ xAddress found @ ?T @ b3 @ b4) (ARP_HDR_SZ + MAC_LEN + pl + MAC_LEN) (replicate pl 0) =
      Some (?H @ xAddress found @ ?T @ b3 @ replicate pl 0)"
    by (rule mw4) (simp_all add: bs f padded_length assms(5))
  have w5: "mem_write (?H @ xAddress found @ ?T @ b3 @ replicate pl 0) (ARP_HDR_SZ + MAC_LEN + pl + MAC_LEN) ?s =
      Some (?H @ xAddress found @ ?T @ b3 @ ?S)"
    using write_padded [of "?H @ xAddress found @ ?T @ b3" "ARP_HDR_SZ + MAC_LEN + pl + MAC_LEN" ?s pl "[]"] assms(5,6) bs f
    by (simp add: padded_length)
  have w6: "mem_write (?H @ xAddress found @ ?T @ b3 @ ?S) (ARP_HDR_SZ + MAC_LEN + pl) (xSourceAddress eth) =
      Some (?H @ xAddress found @ ?T @ xSourceAddress eth @ ?S)"
    by (rule mw3) (simp_all add: bs f padded_length assms(5,8))
  show ?thesis
    unfolding prvARPGetResponse_def Let_def h_def [symmetric] ptr_offsets [OF hl(1)] hl(2)
    using b by (simp add: w0 w1 w2 w3 w4 w5 w6 f assms(8) packet_def)
qed

section \<open>Properties\<close>

text \<open>What a receiver takes from the fields of the protocol addresses.\<close>

lemma stray_string: "length (addr tpa @ rest) = n \<Longrightarrow> length (addr tpa) = n \<or> 0 \<in> set (addr tpa) \<Longrightarrow>
  cstring (addr tpa @ rest) = cstring (addr tpa)"
  by (auto simp: cstring_def takeWhile_append1)

lemma cstring_twice [simp]: "cstring (cstring s) = cstring s"
  by (rule cstring_id [OF cstring_no_nul])

lemma padded_cstring [simp]: "cstring (padded n (cstring s)) = cstring s"
  by (rule cstring_padded [OF cstring_no_nul])

lemma cstring_le: "length (cstring s) \<le> length s"
  by (simp add: cstring_def length_takeWhile_le)

text \<open>A request for a longer target address than the requester's own writes past the packet it
  allocated: the packet is sized for, and the copies are made of, the original
  addresses, not of the ones grown to a common length.\<close>

theorem request_overruns:
  assumes "mem_plenty m" "gha_ok sha" "gpa_ok spa" "gpa_ok tpa" "uxLength spa < uxLength tpa"
  shows "xARPResolveGPA m tpa spa sha = Crash"
proof -
  have mc: "malloc_ok (mem_addr m)" "mem_addr m k \<noteq> None" for k using assms(1) by (auto simp: mem_plenty_def)
  have l: "length (addr tpa) = uxLength tpa" "length (addr spa) = uxLength spa"
    using addr_length assms(3,4) by auto
  have dup: "\<exists>g'. pxDupGPA (ok_gpa m) (mem_addr m) g False 0 = Inr g' \<and> gpa_ok g' \<and> uxLength g' = uxLength g"
    if g: "gpa_ok g" for g
  proof -
    obtain b where b: "mem_addr m (uxLength g) = Some b" using mc(2) by blast
    have "mem_write b 0 (take (uxLength g) (addr g)) = Some (take (uxLength g) (addr g))"
      by (rule write_exact [OF mc(1) b]) (simp add: addr_length [OF g])
    then have "pxDupGPA (ok_gpa m) (mem_addr m) g False 0 =
        Inr \<lparr>pucAddress = Some (take (uxLength g) (addr g)), uxLength = uxLength g\<rparr>"
      using b assms(1) gpa_ok_is_ok [OF g] by (simp add: pxDupGPA_def mem_plenty_def)
    then show ?thesis using g addr_length [OF g] by (auto simp: wf_defs)
  qed
  have grow: "\<exists>g'. xGPAGrow (mem_addr m) g n 0 = Inr g'" if "gpa_ok g" "uxLength g \<le> n" for g n
  proof (cases "uxLength g = n")
    case True
    then show ?thesis using that gpa_ok_is_ok [OF that(1)] by (auto simp: xGPAGrow_def wf_defs)
  next
    case False
    then show ?thesis using grow_result [OF that(1) mc(1) _ mc(2)] that(2) by fastforce
  qed
  obtain gs where gs: "pxDupGPA (ok_gpa m) (mem_addr m) spa False 0 = Inr gs" "gpa_ok gs" "uxLength gs = uxLength spa"
    using dup [OF assms(3)] by blast
  obtain gt where gt: "pxDupGPA (ok_gpa m) (mem_addr m) tpa False 0 = Inr gt" "gpa_ok gt" "uxLength gt = uxLength tpa"
    using dup [OF assms(4)] by blast
  let ?n = "max (uxLength spa) (uxLength tpa)"
  obtain gs' gt' where "xGPAGrow (mem_addr m) gs ?n 0 = Inr gs'" "xGPAGrow (mem_addr m) gt ?n 0 = Inr gt'"
    using grow [OF gs(2), of ?n] grow [OF gt(2), of ?n] gs(3) gt(3) by auto
  moreover have "prvARPGetRequest (mem_addr m) sha spa tpa ARP_REQUEST = Crash"
    by (rule request_overflow [OF mc(1) mc(2) assms(2,3)]) (use assms(5) l in simp)
  moreover have "xIsGHAOK (Some sha)" using assms(2) by (simp add: xIsGHAOK_def wf_defs)
  ultimately show ?thesis using gs(1) gt(1) assms(3,4) gpa_ok_is_ok
    by (simp add: xARPResolveGPA_def vARPSendRequest_def Let_def)
qed

section \<open>A request and its reply\<close>

lemma lookup_by_string:
  assumes "settled c" "gpa_ok g" "gpa_ok k" "cstring (addr g) = cstring (addr k)"
  shows "eARPCacheLookupGPA c (Some g) = eARPCacheLookupGPA c (Some k)"
proof -
  have "xGPACmp (Some g) (Some k)" using assms by (simp add: cmp_cstring)
  then have "pxARPCacheLookupGHA c (Some g) = pxARPCacheLookupGHA c (Some k)"
    using arp_tab.lookup_same assms(1-3) by blast
  then show ?thesis using lookup_both assms(1-3) by simp
qed

text \<open>The parties: requester address \<open>spa\<close> at \<open>sha\<close>, target \<open>tpa\<close>.  An address may count the NUL that ends its string, as
  those of \<^verbatim>\<open>pxNameToGPA\<close> do; one that is shorter than the requester's has to.\<close>

definition arp_parties :: "gha \<Rightarrow> gpa \<Rightarrow> gpa \<Rightarrow> bool" where
  "arp_parties sha spa tpa =
    (gha_ok sha \<and> gpa_ok spa \<and> gpa_ok tpa \<and> uxLength spa < 256 \<and> cstring (addr spa) \<noteq> [] \<and> cstring (addr tpa) \<noteq> [] \<and>
     (uxLength tpa = uxLength spa \<or> uxLength tpa < uxLength spa \<and> 0 \<in> set (addr tpa)))"

lemma party_facts:
  assumes "arp_parties sha spa tpa"
  shows "length (addr spa) = uxLength spa" "length (addr tpa) \<le> uxLength spa" "0 < uxLength spa"
    "unat (ucPALength (req_hdr (uxLength spa) op)) = uxLength spa" "length (xAddress sha) = MAC_LEN"
    "\<lparr>xType = MAC_ADDR_802_3, xAddress = xAddress sha\<rparr> = sha"
    "length (cstring (addr spa)) \<le> uxLength spa" "length (cstring (addr tpa)) \<le> uxLength spa"
proof -
  have g: "gpa_ok spa" "gpa_ok tpa" "gha_ok sha" "uxLength spa < 256" "uxLength tpa \<le> uxLength spa"
    using assms by (auto simp: arp_parties_def)
  show l: "length (addr spa) = uxLength spa" "length (addr tpa) \<le> uxLength spa" using g addr_length by auto
  show "0 < uxLength spa" "length (xAddress sha) = MAC_LEN" "\<lparr>xType = MAC_ADDR_802_3, xAddress = xAddress sha\<rparr> = sha"
    using g by (auto simp: wf_defs)
  show "unat (ucPALength (req_hdr (uxLength spa) op)) = uxLength spa"
    using g by (simp add: req_hdr_def unat_of_nat take_bit_nat_eq_self)
  show "length (cstring (addr spa)) \<le> uxLength spa" "length (cstring (addr tpa)) \<le> uxLength spa"
    using l cstring_le [of "addr spa"] cstring_le [of "addr tpa"] by linarith+
qed

text \<open>The request of the parties; \<open>t\<close> is what it has for the target.\<close>

lemma request_made:
  assumes "mem_plenty m" "arp_parties sha spa tpa"
  shows "\<exists>t. length t = uxLength spa \<and> cstring t = cstring (addr tpa) \<and> prvARPGetRequest (mem_addr m) sha spa tpa op =
    Done (packet (req_hdr (uxLength spa) op) (xAddress sha) (addr spa) (xAddress xBroadcastHa) t)"
proof -
  note f = party_facts [OF assms(2)]
  have g: "gha_ok sha" "gpa_ok spa" "gpa_ok tpa" "uxLength tpa = uxLength spa \<or> 0 \<in> set (addr tpa)"
    using assms(2) by (auto simp: arp_parties_def)
  have mc: "malloc_ok (mem_addr m)" "mem_addr m k \<noteq> None" for k using assms(1) by (auto simp: mem_plenty_def)
  from request_packet [OF mc(1) mc(2) g(1,2) f(2)] obtain rest where r: "length (addr tpa @ rest) = uxLength spa"
    "prvARPGetRequest (mem_addr m) sha spa tpa op =
      Done (packet (req_hdr (uxLength spa) op) (xAddress sha) (addr spa) (xAddress xBroadcastHa) (addr tpa @ rest))" by blast
  moreover have "cstring (addr tpa @ rest) = cstring (addr tpa)"
    by (rule stray_string [OF r(1)]) (use g(3,4) addr_length in auto)
  ultimately show ?thesis by blast
qed

lemma swap16_one: "swap16 1 = 0x0100"
  by (simp add: swap16_def)

lemma packet_length: "ARP_HDR_SZ \<le> length (packet h a b c d)"
  by (simp add: packet_def)

lemma process_packet:
  assumes "usHType h = swap16 1" "ucHALength h = of_nat MAC_LEN" "prvARPExtractRequestData m (packet h a b c e) = Done d"
  shows "usOperation h = ARP_REQUEST \<Longrightarrow> eARPProcessPacket m ch eth (packet h a b c e) =
      (case eARPCacheLookupGPA ch (Some (pxTpa d)) of (r, ha) \<Rightarrow>
        if r = eARPCacheMiss then Done \<lparr>arp_result = eReleaseBuffer, arp_new_cache = ch, arp_reply = None\<rparr>
        else obind (or_crash ha) (\<lambda>ha.
          case prvARPGetResponse (mem_addr m) eth d ha of
            Crash \<Rightarrow> Crash
          | Fail _ \<Rightarrow> Done \<lparr>arp_result = eReturnEthernetFrame, arp_new_cache = ch, arp_reply = None\<rparr>
          | Done q \<Rightarrow> Done \<lparr>arp_result = eReturnEthernetFrame, arp_new_cache = ch, arp_reply = Some q\<rparr>))"
    and "usOperation h = ARP_REPLY \<Longrightarrow> eARPProcessPacket m ch eth (packet h a b c e) =
      Done \<lparr>arp_result = eReleaseBuffer, arp_new_cache = snd (xARPCacheAdd m ch (pxTpa d) (pxTha d)), arp_reply = None\<rparr>"
proof -
  have h: "arp_hdr_of (packet h a b c e) = h" by (simp add: packet_def hdr_round)
  have l: "\<not> length (packet h a b c e) < ARP_HDR_SZ" using packet_length [of h a b c e] by simp
  show "usOperation h = ARP_REQUEST \<Longrightarrow> eARPProcessPacket m ch eth (packet h a b c e) =
      (case eARPCacheLookupGPA ch (Some (pxTpa d)) of (r, ha) \<Rightarrow>
        if r = eARPCacheMiss then Done \<lparr>arp_result = eReleaseBuffer, arp_new_cache = ch, arp_reply = None\<rparr>
        else obind (or_crash ha) (\<lambda>ha.
          case prvARPGetResponse (mem_addr m) eth d ha of
            Crash \<Rightarrow> Crash
          | Fail _ \<Rightarrow> Done \<lparr>arp_result = eReturnEthernetFrame, arp_new_cache = ch, arp_reply = None\<rparr>
          | Done q \<Rightarrow> Done \<lparr>arp_result = eReturnEthernetFrame, arp_new_cache = ch, arp_reply = Some q\<rparr>))"
    unfolding eARPProcessPacket_def Let_def h assms(3)
    by (simp add: l assms(1,2) ARP_HARDWARE_TYPE_ETHERNET_def)
  show "usOperation h = ARP_REPLY \<Longrightarrow> eARPProcessPacket m ch eth (packet h a b c e) =
      Done \<lparr>arp_result = eReleaseBuffer, arp_new_cache = snd (xARPCacheAdd m ch (pxTpa d) (pxTha d)), arp_reply = None\<rparr>"
    unfolding eARPProcessPacket_def Let_def h assms(3)
    by (simp add: l assms(1,2) ARP_HARDWARE_TYPE_ETHERNET_def ARP_REPLY_def ARP_REQUEST_def)
qed

lemma req_hdr_simps [simp]:
  "usHType (req_hdr n op) = swap16 1" "ucHALength (req_hdr n op) = of_nat MAC_LEN" "usOperation (req_hdr n op) = op"
  by (simp_all add: req_hdr_def)

text \<open>What the holder of the target answers.\<close>

lemma answer:
  assumes "mem_plenty m" "arp_parties sha spa tpa" "settled cb" "xSourceAddress eth = xAddress sha"
    "eARPCacheLookupGPA cb (Some tpa) = (eARPCacheHit, Some hb)" "gha_ok hb"
    "length t = uxLength spa" "cstring t = cstring (addr tpa)"
  defines "n \<equiv> uxLength spa"
  shows "eARPProcessPacket m cb eth
      (packet (req_hdr n ARP_REQUEST) (xAddress sha) (addr spa) (xAddress xBroadcastHa) t) =
    Done \<lparr>arp_result = eReturnEthernetFrame, arp_new_cache = cb,
      arp_reply = Some (packet (req_hdr n ARP_REPLY) (xAddress hb) (padded n (cstring (addr tpa))) (xAddress sha)
        (padded n (cstring (addr spa))))\<rparr>"
proof -
  note p = assms(2) [unfolded arp_parties_def] and f = party_facts [OF assms(2), folded n_def]
  have bc: "length (xAddress xBroadcastHa) = MAC_LEN" by (simp add: xBroadcastHa_def)
  let ?p = "packet (req_hdr n ARP_REQUEST) (xAddress sha) (addr spa) (xAddress xBroadcastHa) t"
  obtain gs gt where e: "prvARPExtractRequestData m ?p =
      Done \<lparr>pxARPHdr = req_hdr n ARP_REQUEST, pxSpa = gs, pxSha = \<lparr>xType = MAC_ADDR_802_3, xAddress = xAddress sha\<rparr>,
            pxTpa = gt, pxTha = \<lparr>xType = MAC_ADDR_802_3, xAddress = xAddress xBroadcastHa\<rparr>\<rparr>"
    "addr gs = cstring (addr spa)" "addr gt = cstring (addr tpa)" "gpa_ok gt"
    using extract_packet [OF assms(1) _ f(4,3,5,1) bc assms(7) [folded n_def], of ARP_REQUEST] p assms(8)
    by (simp only: req_hdr_simps) blast
  let ?d = "\<lparr>pxARPHdr = req_hdr n ARP_REQUEST, pxSpa = gs, pxSha = \<lparr>xType = MAC_ADDR_802_3, xAddress = xAddress sha\<rparr>,
            pxTpa = gt, pxTha = \<lparr>xType = MAC_ADDR_802_3, xAddress = xAddress xBroadcastHa\<rparr>\<rparr>"
  have mc: "malloc_ok (mem_addr m)" "\<forall>k. mem_addr m k \<noteq> None" using assms(1) by (auto simp: mem_plenty_def)
  have up: "(req_hdr n ARP_REQUEST)\<lparr>usOperation := ARP_REPLY\<rparr> = req_hdr n ARP_REPLY" by (simp add: req_hdr_def)
  have r: "prvARPGetResponse (mem_addr m) eth ?d hb =
      Done (packet (req_hdr n ARP_REPLY) (xAddress hb) (padded n (cstring (addr tpa))) (xAddress sha) (padded n (cstring (addr spa))))"
    using response_packet [OF mc, of ?d n hb eth] assms(4,6) f(4,5,7,8) e(2,3) up by simp
  have lk: "eARPCacheLookupGPA cb (Some gt) = (eARPCacheHit, Some hb)"
    using lookup_by_string [OF assms(3) e(4), of tpa] p e(3) assms(5) by simp
  show ?thesis using process_packet(1) [OF _ _ e(1)] lk r by simp
qed

text \<open>What anyone takes from the reply, and what the requester does with it.\<close>

lemma reply_read:
  assumes "mem_plenty m" "arp_parties sha spa tpa" "gha_ok hb"
  defines "n \<equiv> uxLength spa"
  shows "\<exists>gs gt. prvARPExtractRequestData m (packet (req_hdr n ARP_REPLY) (xAddress hb) (padded n (cstring (addr tpa))) (xAddress sha)
      (padded n (cstring (addr spa)))) =
    Done \<lparr>pxARPHdr = req_hdr n ARP_REPLY, pxSpa = gs, pxSha = hb, pxTpa = gt, pxTha = sha\<rparr> \<and>
    addr gs = cstring (addr tpa) \<and> addr gt = cstring (addr spa) \<and> gpa_ok gt"
proof -
  note p = assms(2) [unfolded arp_parties_def] and f = party_facts [OF assms(2), folded n_def]
  have hb: "length (xAddress hb) = MAC_LEN" "\<lparr>xType = MAC_ADDR_802_3, xAddress = xAddress hb\<rparr> = hb"
    using assms(3) by (auto simp: wf_defs)
  from extract_packet [OF assms(1) _ f(4,3) hb(1) padded_length [OF f(8)] f(5) padded_length [OF f(7)], of ARP_REPLY, unfolded hb(2) f(6)]
  show ?thesis using p by (simp only: req_hdr_simps padded_cstring) blast
qed

lemma requester_learns:
  assumes "mem_plenty m" "arp_parties sha spa tpa" "settled ca" "gha_ok hb" "n = uxLength spa"
  shows "\<exists>g h ca'. gpa_ok g \<and> addr g = cstring (addr spa) \<and> xARPCacheAdd m ca g sha = (h, ca') \<and>
    eARPProcessPacket m ca eth (packet (req_hdr n ARP_REPLY) (xAddress hb) (padded n (cstring (addr tpa))) (xAddress sha)
      (padded n (cstring (addr spa)))) =
    Done \<lparr>arp_result = eReleaseBuffer, arp_new_cache = ca', arp_reply = None\<rparr>"
proof -
  obtain gs gt where e: "prvARPExtractRequestData m (packet (req_hdr n ARP_REPLY) (xAddress hb) (padded n (cstring (addr tpa))) (xAddress sha)
      (padded n (cstring (addr spa)))) = Done \<lparr>pxARPHdr = req_hdr n ARP_REPLY, pxSpa = gs, pxSha = hb, pxTpa = gt, pxTha = sha\<rparr>"
    "addr gt = cstring (addr spa)" "gpa_ok gt"
    using reply_read [OF assms(1,2,4)] unfolding assms(5) by blast
  show ?thesis
    using process_packet(2) [OF _ _ e(1), of ca eth] e
    by (cases "xARPCacheAdd m ca gt sha") auto
qed

definition mac_a :: gha where "mac_a = \<lparr>xType = MAC_ADDR_802_3, xAddress = [2, 0, 0, 0, 0, 1]\<rparr>"
definition mac_b :: gha where "mac_b = \<lparr>xType = MAC_ADDR_802_3, xAddress = [2, 0, 0, 0, 0, 2]\<rparr>"
definition name_a :: gpa where "name_a = \<lparr>pucAddress = Some (ascii ''ue1.mobile.DIF/1//'' @ [0, 0]), uxLength = 19\<rparr>"
definition name_b :: gpa where "name_b = \<lparr>pucAddress = Some (ascii ''ur/1//'' @ [0, 0]), uxLength = 7\<rparr>"
definition frame_a :: eth_hdr where
  "frame_a = \<lparr>xDestinationAddress = replicate 6 255, xSourceAddress = [2, 0, 0, 0, 0, 1], usFrameType = 0\<rparr>"

text \<open>They are the addresses the program makes of two names.\<close>

lemma names_as_addresses:
  "pxNameToGPA zeros True zeros (vNameAssignFromPartsStatic (ascii ''ue1.mobile.DIF'' @ [0]) (ascii ''1'' @ [0]) [0] [0]) = Some name_a"
  "pxNameToGPA zeros True zeros (vNameAssignFromPartsStatic (ascii ''ur'' @ [0]) (ascii ''1'' @ [0]) [0] [0]) = Some name_b"
  by code_simp+

lemma name_parts:
  "gpa_ok name_a" "gpa_ok name_b" "uxLength name_a = 19" "uxLength name_b = 7" "0 \<in> set (addr name_b)"
  "cstring (addr name_a) = ascii ''ue1.mobile.DIF/1//''" "cstring (addr name_b) = ascii ''ur/1//''"
  by (simp_all add: wf_defs name_a_def name_b_def addr_def cstring_def ascii_def)

lemma scene:
  "mem_plenty ample_mem" "arp_parties mac_a name_a name_b" "settled [new_row name_b mac_b]" "gha_ok mac_b"
  "xSourceAddress frame_a = xAddress mac_a"
  "eARPCacheLookupGPA [new_row name_b mac_b] (Some name_b) = (eARPCacheHit, Some mac_b)"
  by (simp_all add: mem_plenty_def ample_mem_def malloc_ok_def arp_parties_def name_parts gha_ok_def ascii_def mac_a_def mac_b_def
      MAC_LEN_def settled_def cache_ok_def row_ok_def new_row_def frame_a_def eARPCacheLookupGPA_def cmp_cstring)

text \<open>C19. A node answers a request for an address in its cache with a frame that carries, as
  source, the requested address and the cached hardware address, and, as target, the
  requester's addresses; its cache does not change.  An address may count the NUL at its end, as those the
  program makes of names do, and arrives as its string, without it.  The target may be shorter than the requester's
  address if its NUL counts, for the rest of its field is whatever was in the buffer; one that is longer is
  left out, for the request then overruns its packet.\<close>

theorem arp_answers_request:
  assumes "mem_plenty m" "mem_plenty mb" "mem_plenty mr" "arp_parties sha spa tpa" "settled cb"
    "xSourceAddress eth = xAddress sha"
    "eARPCacheLookupGPA cb (Some tpa) = (eARPCacheHit, Some hb)" "gha_ok hb"
  shows "\<exists>p q d. prvARPGetRequest (mem_addr m) sha spa tpa ARP_REQUEST = Done p \<and>
    eARPProcessPacket mb cb eth p =
      Done \<lparr>arp_result = eReturnEthernetFrame, arp_new_cache = cb, arp_reply = Some q\<rparr> \<and>
    prvARPExtractRequestData mr q = Done d \<and> usOperation (pxARPHdr d) = ARP_REPLY \<and>
    addr (pxSpa d) = cstring (addr tpa) \<and> pxSha d = hb \<and> addr (pxTpa d) = cstring (addr spa) \<and> pxTha d = sha"
proof -
  obtain t where t: "length t = uxLength spa" "cstring t = cstring (addr tpa)" "prvARPGetRequest (mem_addr m) sha spa tpa ARP_REQUEST =
      Done (packet (req_hdr (uxLength spa) ARP_REQUEST) (xAddress sha) (addr spa) (xAddress xBroadcastHa) t)"
    using request_made [OF assms(1,4)] by blast
  then show ?thesis using answer [OF assms(2,4-8) t(1,2)] reply_read [OF assms(3,4,8)] by auto
qed

lemma arp_answers_request_witness:
  "pxNameToGPA zeros True zeros (vNameAssignFromPartsStatic (ascii ''ue1.mobile.DIF'' @ [0]) (ascii ''1'' @ [0]) [0] [0]) = Some name_a \<and>
   (\<exists>p q d. prvARPGetRequest (mem_addr ample_mem) mac_a name_a name_b ARP_REQUEST = Done p \<and>
    eARPProcessPacket ample_mem [new_row name_b mac_b] frame_a p =
      Done \<lparr>arp_result = eReturnEthernetFrame, arp_new_cache = [new_row name_b mac_b], arp_reply = Some q\<rparr> \<and>
    prvARPExtractRequestData ample_mem q = Done d \<and> addr (pxTpa d) = ascii ''ue1.mobile.DIF/1//'')"
  using arp_answers_request [OF scene(1,1,1,2,3,5,6,4)] names_as_addresses(1) unfolding name_parts by blast

text \<open>A packet whose header says that protocol addresses have no bytes makes the failure path free a pointer that was
  never set.\<close>

lemma empty_address_crashes:
  assumes "ARP_HDR_SZ + 2 * MAC_LEN \<le> length p" "usHType (arp_hdr_of p) = swap16 ARP_HARDWARE_TYPE_ETHERNET"
    "ucHALength (arp_hdr_of p) = of_nat MAC_LEN" "usOperation (arp_hdr_of p) = ARP_REQUEST \<or> usOperation (arp_hdr_of p) = ARP_REPLY"
    "ucPALength (arp_hdr_of p) = 0"
  shows "eARPProcessPacket m c eth p = Crash"
proof -
  have "length (take MAC_LEN (drop ARP_HDR_SZ p)) = MAC_LEN" "\<not> length p < ARP_HDR_SZ" using assms(1) by simp_all
  moreover have "\<not> length p < ARP_HDR_SZ + MAC_LEN" using assms(1) by simp
  ultimately have "prvARPExtractRequestData m p = Crash"
    unfolding prvARPExtractRequestData_def Let_def ptr_offsets [OF assms(3)]
    by (cases "ok_gha m") (auto simp: arp_field_def pxCreateGHA_def assms(5) pxCreateGPA_def)
  then show ?thesis using assms(2-4) \<open>\<not> length p < ARP_HDR_SZ\<close> unfolding eARPProcessPacket_def Let_def by auto
qed

text \<open>Address resolution does not resolve: when a request for an address that is not in the
  requester's cache is answered by the node that has it, processing the reply caches the
  requester's own addresses, taken from the target fields, and a lookup of the requested
  address still misses.\<close>

theorem reply_does_not_resolve:
  assumes "mem_plenty m" "mem_plenty mb" "arp_parties sha spa tpa" "settled ca" "settled cb"
    "cstring (addr spa) \<noteq> cstring (addr tpa)" "xSourceAddress eth = xAddress sha"
    "eARPCacheLookupGPA cb (Some tpa) = (eARPCacheHit, Some hb)" "gha_ok hb"
    "eARPCacheLookupGPA ca (Some tpa) = (eARPCacheMiss, None)"
  shows "\<exists>p q ca'. prvARPGetRequest (mem_addr m) sha spa tpa ARP_REQUEST = Done p \<and>
    eARPProcessPacket mb cb eth p =
      Done \<lparr>arp_result = eReturnEthernetFrame, arp_new_cache = cb, arp_reply = Some q\<rparr> \<and>
    eARPProcessPacket m ca eth' q =
      Done \<lparr>arp_result = eReleaseBuffer, arp_new_cache = ca', arp_reply = None\<rparr> \<and>
    eARPCacheLookupGPA ca' (Some tpa) = (eARPCacheMiss, None) \<and>
    (eARPCacheLookupGPA ca (Some spa) = (eARPCacheMiss, None) \<longrightarrow> (\<exists>r \<in> set ca. ucValid r = 0) \<longrightarrow>
       eARPCacheLookupGPA ca' (Some spa) = (eARPCacheHit, Some sha))"
proof -
  note p = assms(3) [unfolded arp_parties_def]
  have mc: "malloc_ok (mem_addr m)" "mem_addr m k \<noteq> None" for k using assms(1) by (auto simp: mem_plenty_def)
  obtain t where req: "length t = uxLength spa" "cstring t = cstring (addr tpa)" "prvARPGetRequest (mem_addr m) sha spa tpa ARP_REQUEST =
      Done (packet (req_hdr (uxLength spa) ARP_REQUEST) (xAddress sha) (addr spa) (xAddress xBroadcastHa) t)"
    using request_made [OF assms(1,3)] by blast
  obtain g h ca' where g: "gpa_ok g" "addr g = cstring (addr spa)" "xARPCacheAdd m ca g sha = (h, ca')"
    "eARPProcessPacket m ca eth' (packet (req_hdr (uxLength spa) ARP_REPLY) (xAddress hb) (padded (uxLength spa) (cstring (addr tpa))) (xAddress sha)
        (padded (uxLength spa) (cstring (addr spa)))) =
      Done \<lparr>arp_result = eReleaseBuffer, arp_new_cache = ca', arp_reply = None\<rparr>"
    using requester_learns [OF assms(1,3,4,9) refl] by blast
  have ok: "gpa_ok spa" "gpa_ok tpa" "gha_ok sha" using p by auto
  have s': "settled ca'" by (rule settled_add [OF assms(4) g(1) ok(3) mc(1) g(3)])
  have "\<not> xGPACmp (Some tpa) (Some g)" using cmp_cstring [OF ok(2) g(1)] g(2) assms(6) by simp
  have look: "(eARPCacheLookupGPA c (Some k) = (eARPCacheMiss, None)) = (pxARPCacheLookupGHA c (Some k) = None)"
    if "settled c" "gpa_ok k" for c k using lookup_both [OF that] by (auto split: option.splits)
  have m1: "pxARPCacheLookupGHA ca' (Some tpa) = None"
  proof (cases "h = 1")
    case True
    then have "arp_insert m ca g sha = Some ca'" using g(3) by (simp add: arp_insert_def)
    then show ?thesis
      using keyed_table.lookup_insert_other [OF arp_table [OF mc(1)] assms(4) g(1) ok(3) _ ok(2)]
        \<open>\<not> xGPACmp (Some tpa) (Some g)\<close> assms(10) look [OF assms(4) ok(2)] by simp
  next
    case False
    then have "ca' = ca" using add_cases [OF g(1) ok(3) mc(1) g(3)] by auto
    then show ?thesis using assms(10) look [OF assms(4) ok(2)] by simp
  qed
  have m2: "eARPCacheLookupGPA ca' (Some spa) = (eARPCacheHit, Some sha)"
    if miss: "eARPCacheLookupGPA ca (Some spa) = (eARPCacheMiss, None)" and free: "\<exists>r \<in> set ca. ucValid r = 0"
  proof -
    have "case pxDupGPA (ok_gpa m) (mem_addr m) g True 0 of Inr _ \<Rightarrow> True | Inl _ \<Rightarrow> False"
      using duplicate_ok_cases [OF g(1) mc(1) mc(2)] assms(1) p g(1,2) cstring_no_nul [of "addr spa"] by (auto simp: mem_plenty_def)
    then have "h \<noteq> -1" using g(3) ok(3) assms(1)
      by (auto simp: xARPCacheAdd_def dup_gha mem_plenty_def split: sum.splits option.splits)
    then have h: "h = 1" using add_cases [OF g(1) ok(3) mc(1) g(3)] free by auto
    then have i: "arp_insert m ca g sha = Some ca'" using g(3) by (simp add: arp_insert_def)
    have "pxARPCacheLookupGHA ca (Some g) = None"
      using miss lookup_by_string [OF assms(4) g(1) ok(1)] g(2) look [OF assms(4) g(1)] by simp
    then have "pxARPCacheLookupGHA ca' (Some g) = Some sha"
      by (rule keyed_table.lookup_insert [OF arp_table [OF mc(1)] assms(4) g(1) ok(3) i])
    then show ?thesis using lookup_both [OF s' g(1)] lookup_by_string [OF s' g(1) ok(1)] g(2) by simp
  qed
  show ?thesis
    using req answer [OF assms(2,3,5,7,8,9) req(1,2)] g(4) m1 m2 look [OF s' ok(2)] by blast
qed

end
