(* ===== verification/Rs_List.thy ===== *)
theory Rs_List
  imports Prelude "HOL-Library.Multiset"
begin

text \<open>The intrusive doubly linked lists: the ring operations of
  \<^verbatim>\<open>common/private/iot_doubly_linked_list.h\<close>, the \<^verbatim>\<open>RsList_t\<close> macros of \<^verbatim>\<open>common/list.h\<close> and
  \<^verbatim>\<open>common/list.c\<close>.  Links and items live at addresses; a list is at the address of its head,
  which is its first field.  A dereference of \<^verbatim>\<open>NULL\<close> or of an address where nothing lives is
  \<open>None\<close>.\<close>

section \<open>Memory\<close>

record rs_item =
  lPrev :: "nat option"
  lNext :: "nat option"
  pvCont :: "nat option"
  pvOwner :: "nat option"

record list_mem =
  items :: "nat \<Rightarrow> rs_item option"
  nLength :: "nat \<Rightarrow> u64"

definition item_upd :: "(rs_item \<Rightarrow> rs_item) \<Rightarrow> nat option \<Rightarrow> list_mem \<Rightarrow> list_mem option" where
  "item_upd f a m =
    (case a of None \<Rightarrow> None
     | Some x \<Rightarrow> map_option (\<lambda>i. m\<lparr>items := (items m)(x \<mapsto> f i)\<rparr>) (items m x))"

definition item_get :: "(rs_item \<Rightarrow> 'a) \<Rightarrow> nat option \<Rightarrow> list_mem \<Rightarrow> 'a option" where
  "item_get f a m = (case a of None \<Rightarrow> None | Some x \<Rightarrow> map_option f (items m x))"

definition set_next :: "nat option \<Rightarrow> nat option \<Rightarrow> list_mem \<Rightarrow> list_mem option" where
  "set_next a v = item_upd (\<lambda>i. i\<lparr>lNext := v\<rparr>) a"

definition set_prev :: "nat option \<Rightarrow> nat option \<Rightarrow> list_mem \<Rightarrow> list_mem option" where
  "set_prev a v = item_upd (\<lambda>i. i\<lparr>lPrev := v\<rparr>) a"

section \<open>Operations\<close>

definition listINIT_HEAD :: "nat \<Rightarrow> list_mem \<Rightarrow> list_mem option" where
  "listINIT_HEAD h m =
    Option.bind (set_prev (Some h) (Some h) m) (\<lambda>m1. set_next (Some h) (Some h) m1)"

definition listADD :: "nat option \<Rightarrow> nat \<Rightarrow> list_mem \<Rightarrow> list_mem option" where
  "listADD h l m =
    Option.bind (item_get lNext h m) (\<lambda>nxt.
    Option.bind (set_next (Some l) nxt m) (\<lambda>m1.
    Option.bind (set_prev nxt (Some l) m1) (\<lambda>m2.
    Option.bind (set_next h (Some l) m2) (\<lambda>m3.
    set_prev (Some l) h m3))))"

definition listREMOVE :: "nat \<Rightarrow> list_mem \<Rightarrow> list_mem option" where
  "listREMOVE l m =
    Option.bind (item_get lNext (Some l) m) (\<lambda>nxt.
    Option.bind (item_get lPrev (Some l) m) (\<lambda>prv.
    Option.bind
      (if nxt \<noteq> None \<and> prv \<noteq> None
       then Option.bind (set_next prv nxt m) (\<lambda>m1. set_prev nxt prv m1) else Some m) (\<lambda>m2.
    Option.bind (set_prev (Some l) None m2) (\<lambda>m3. set_next (Some l) None m3))))"

definition vRsListInitItem :: "nat \<Rightarrow> nat option \<Rightarrow> list_mem \<Rightarrow> list_mem option" where
  "vRsListInitItem i owner m =
    Option.bind (listINIT_HEAD i m) (item_upd (\<lambda>x. x\<lparr>pvOwner := owner\<rparr>) (Some i))"

definition vRsListInit :: "nat \<Rightarrow> list_mem \<Rightarrow> list_mem option" where
  "vRsListInit l m = map_option (\<lambda>m1. m1\<lparr>nLength := (nLength m1)(l := 0)\<rparr>) (vRsListInitItem l None m)"

definition link_into :: "nat \<Rightarrow> nat option \<Rightarrow> nat \<Rightarrow> list_mem \<Rightarrow> list_mem option" where
  "link_into l pos i m =
    Option.bind (listADD pos i m) (\<lambda>m1.
      item_upd (\<lambda>x. x\<lparr>pvCont := Some l\<rparr>) (Some i) (m1\<lparr>nLength := (nLength m1)(l := nLength m1 l + 1)\<rparr>))"

definition vRsListInsert :: "nat \<Rightarrow> nat \<Rightarrow> list_mem \<Rightarrow> list_mem option" where
  "vRsListInsert l i m = Option.bind (item_get lNext (Some l) m) (\<lambda>p. link_into l p i m)"

definition vRsListInsertEnd :: "nat \<Rightarrow> nat \<Rightarrow> list_mem \<Rightarrow> list_mem option" where
  "vRsListInsertEnd l i m = Option.bind (item_get lPrev (Some l) m) (\<lambda>p. link_into l p i m)"

definition vRsListRemove :: "nat \<Rightarrow> list_mem \<Rightarrow> list_mem option" where
  "vRsListRemove i m =
    Option.bind (item_get pvCont (Some i) m) (\<lambda>c.
      case c of None \<Rightarrow> None
      | Some l \<Rightarrow> listREMOVE i (m\<lparr>nLength := (nLength m)(l := nLength m l - 1)\<rparr>))"

definition unRsListLength :: "nat \<Rightarrow> list_mem \<Rightarrow> u64" where
  "unRsListLength l m = nLength m l"

text \<open>The outer option is the dereference, the inner one the pointer returned.\<close>

definition pxRsListGetFirst :: "nat \<Rightarrow> list_mem \<Rightarrow> nat option option" where
  "pxRsListGetFirst l m = (if nLength m l = 0 then Some None else item_get lNext (Some l) m)"

definition pxRsListGetLast :: "nat \<Rightarrow> list_mem \<Rightarrow> nat option option" where
  "pxRsListGetLast l m = (if nLength m l = 0 then Some None else item_get lPrev (Some l) m)"

definition pxRsListGetItemOwner :: "nat \<Rightarrow> list_mem \<Rightarrow> nat option option" where
  "pxRsListGetItemOwner i m = item_get pvOwner (Some i) m"

definition pxRsListGetNext :: "nat \<Rightarrow> list_mem \<Rightarrow> nat option option" where
  "pxRsListGetNext i m =
    Option.bind (item_get lNext (Some i) m) (\<lambda>nxt.
      map_option (\<lambda>ow. if ow \<noteq> None then nxt else None) (item_get pvOwner nxt m))"

definition pxRsListGetHeadOwner :: "nat \<Rightarrow> list_mem \<Rightarrow> nat option option" where
  "pxRsListGetHeadOwner l m =
    (if nLength m l = 0 then Some None
     else Option.bind (item_get lNext (Some l) m) (\<lambda>p. item_get pvOwner p m))"

partial_function (option) contained_loop :: "list_mem \<Rightarrow> nat option \<Rightarrow> nat \<Rightarrow> bool option" where
  "contained_loop m p i =
    (case p of None \<Rightarrow> Some False
     | Some x \<Rightarrow>
         (if x = i then Some True
          else Option.bind (pxRsListGetNext x m) (\<lambda>q. contained_loop m q i)))"

definition xRsListIsContainedWithin :: "nat \<Rightarrow> nat \<Rightarrow> list_mem \<Rightarrow> bool option" where
  "xRsListIsContainedWithin l i m = Option.bind (pxRsListGetFirst l m) (\<lambda>p. contained_loop m p i)"

section \<open>Links as functions\<close>

definition nx :: "list_mem \<Rightarrow> nat \<Rightarrow> nat option" where
  "nx m a = Option.bind (items m a) lNext"

definition pv :: "list_mem \<Rightarrow> nat \<Rightarrow> nat option" where
  "pv m a = Option.bind (items m a) lPrev"

definition cont :: "list_mem \<Rightarrow> nat \<Rightarrow> nat option" where
  "cont m a = Option.bind (items m a) pvCont"

definition own :: "list_mem \<Rightarrow> nat \<Rightarrow> nat option" where
  "own m a = Option.bind (items m a) pvOwner"

lemmas field_defs = nx_def pv_def cont_def own_def

text \<open>What a store to one field does to the four views of memory.\<close>

lemma store_next:
  assumes "a \<in> dom (items m)"
  obtains m' where "set_next (Some a) v m = Some m'" "nx m' = (nx m)(a := v)" "pv m' = pv m"
    "cont m' = cont m" "own m' = own m" "dom (items m') = dom (items m)" "nLength m' = nLength m"
proof -
  from assms obtain i where i: "items m a = Some i" by auto
  show thesis
    by (rule that [of "m\<lparr>items := (items m)(a \<mapsto> i\<lparr>lNext := v\<rparr>)\<rparr>"])
      (use i in \<open>auto simp: set_next_def item_upd_def field_defs fun_eq_iff\<close>)
qed

lemma store_prev:
  assumes "a \<in> dom (items m)"
  obtains m' where "set_prev (Some a) v m = Some m'" "nx m' = nx m" "pv m' = (pv m)(a := v)"
    "cont m' = cont m" "own m' = own m" "dom (items m') = dom (items m)" "nLength m' = nLength m"
proof -
  from assms obtain i where i: "items m a = Some i" by auto
  show thesis
    by (rule that [of "m\<lparr>items := (items m)(a \<mapsto> i\<lparr>lPrev := v\<rparr>)\<rparr>"])
      (use i in \<open>auto simp: set_prev_def item_upd_def field_defs fun_eq_iff\<close>)
qed

lemma store_cont:
  assumes "a \<in> dom (items m)"
  obtains m' where "item_upd (\<lambda>x. x\<lparr>pvCont := v\<rparr>) (Some a) m = Some m'" "nx m' = nx m" "pv m' = pv m"
    "cont m' = (cont m)(a := v)" "own m' = own m" "dom (items m') = dom (items m)"
    "nLength m' = nLength m"
proof -
  from assms obtain i where i: "items m a = Some i" by auto
  show thesis
    by (rule that [of "m\<lparr>items := (items m)(a \<mapsto> i\<lparr>pvCont := v\<rparr>)\<rparr>"])
      (use i in \<open>auto simp: item_upd_def field_defs fun_eq_iff\<close>)
qed

lemma store_own:
  assumes "a \<in> dom (items m)"
  obtains m' where "item_upd (\<lambda>x. x\<lparr>pvOwner := v\<rparr>) (Some a) m = Some m'" "nx m' = nx m" "pv m' = pv m"
    "cont m' = cont m" "own m' = (own m)(a := v)" "dom (items m') = dom (items m)"
    "nLength m' = nLength m"
proof -
  from assms obtain i where i: "items m a = Some i" by auto
  show thesis
    by (rule that [of "m\<lparr>items := (items m)(a \<mapsto> i\<lparr>pvOwner := v\<rparr>)\<rparr>"])
      (use i in \<open>auto simp: item_upd_def field_defs fun_eq_iff\<close>)
qed

lemma load:
  "nx m a = Some b \<Longrightarrow> item_get lNext (Some a) m = Some (Some b)"
  "pv m a = Some b \<Longrightarrow> item_get lPrev (Some a) m = Some (Some b)"
  "cont m a = Some b \<Longrightarrow> item_get pvCont (Some a) m = Some (Some b)"
  "a \<in> dom (items m) \<Longrightarrow> item_get pvOwner (Some a) m = Some (own m a)"
  by (auto simp: field_defs item_get_def split: option.splits Option.bind_splits)

lemma field_dom: "nx m a = Some b \<Longrightarrow> a \<in> dom (items m)" "pv m a = Some b \<Longrightarrow> a \<in> dom (items m)"
  by (auto simp: field_defs split: Option.bind_splits)

section \<open>Rings\<close>

text \<open>\<open>links N P a xs b\<close>: from \<open>a\<close> the next links \<open>N\<close> lead through \<open>xs\<close> to \<open>b\<close>, and the previous links
  \<open>P\<close> lead back.\<close>

fun links :: "(nat \<Rightarrow> nat option) \<Rightarrow> (nat \<Rightarrow> nat option) \<Rightarrow> nat \<Rightarrow> nat list \<Rightarrow> nat \<Rightarrow> bool" where
  "links N P a [] b = (N a = Some b \<and> P b = Some a)"
| "links N P a (x # xs) b = (N a = Some x \<and> P x = Some a \<and> links N P x xs b)"

lemma links_cong:
  assumes "\<And>x. x \<in> set (a # xs) \<Longrightarrow> N x = N' x" "\<And>x. x \<in> set (xs @ [b]) \<Longrightarrow> P x = P' x"
  shows "links N P a xs b = links N' P' a xs b"
  using assms by (induction xs arbitrary: a) auto

lemma links_first: "links N P a xs b \<Longrightarrow> N a = Some (hd (xs @ [b]))"
  by (cases xs) auto

lemma links_last: "links N P a xs b \<Longrightarrow> P b = Some (last (a # xs))"
  by (induction xs arbitrary: a) auto

lemma links_append: "links N P a (us @ x # vs) b = (links N P a us x \<and> links N P x vs b)"
  by (induction us arbitrary: a) auto

lemma links_insert:
  assumes "links N P a (us @ vs) b" "distinct (a # us @ vs)" "b \<notin> set (us @ vs)"
    "n \<notin> set (a # us @ vs @ [b])" "p = last (a # us)" "q = hd (vs @ [b])"
  shows "links (N(p := Some n, n := Some q)) (P(q := Some n, n := Some p)) a (us @ n # vs) b"
  using assms
proof (induction us arbitrary: a)
  case Nil
  show ?case
  proof (cases vs)
    case (Cons v ws)
    have v: "links N P v ws b" "p = a" "q = v" using Nil Cons by simp_all
    define N' P' where "N' = N(a := Some n, n := Some v)" and "P' = P(v := Some n, n := Some a)"
    have "links N' P' v ws b = links N P v ws b"
      using Nil Cons by (intro links_cong) (auto simp: N'_def P'_def)
    moreover have "N' a = Some n" "N' n = Some v" "P' v = Some n" "P' n = Some a"
      using Nil Cons by (auto simp: N'_def P'_def)
    ultimately have "links N' P' a (n # vs) b" using v Nil Cons by simp
    then show ?thesis unfolding N'_def P'_def v(2,3) append_Nil .
  qed (use Nil in auto)
next
  case (Cons u us)
  have "p \<in> set (u # us)" using Cons.prems(5) by (simp only: last.simps) auto
  moreover have "q \<in> set (vs @ [b])" using Cons.prems(6) by (cases vs) auto
  ultimately have "a \<noteq> p" "u \<noteq> q" using Cons.prems(2,3) by auto
  then have "(N(p := Some n, n := Some q)) a = Some u" "(P(q := Some n, n := Some p)) u = Some a" using Cons.prems by auto
  moreover have "links (N(p := Some n, n := Some q)) (P(q := Some n, n := Some p)) u (us @ n # vs) b"
    by (rule Cons.IH) (use Cons.prems in \<open>auto split: if_splits\<close>)
  ultimately show ?case unfolding append_Cons links.simps by blast
qed

lemma links_remove:
  assumes "links N P a (us @ x # vs) b" "distinct (a # us @ x # vs)" "b \<notin> set (us @ x # vs)"
    "p = last (a # us)" "q = hd (vs @ [b])"
  shows "links (N(p := Some q, x := None)) (P(q := Some p, x := None)) a (us @ vs) b"
  using assms
proof (induction us arbitrary: a)
  case Nil
  show ?case
  proof (cases vs)
    case (Cons v ws)
    have v: "links N P v ws b" "p = a" "q = v" using Nil Cons by simp_all
    define N' P' where "N' = N(a := Some v, x := None)" and "P' = P(v := Some a, x := None)"
    have "links N' P' v ws b = links N P v ws b"
      using Nil Cons by (intro links_cong) (auto simp: N'_def P'_def)
    moreover have "N' a = Some v" "P' v = Some a"
      using Nil Cons by (auto simp: N'_def P'_def)
    ultimately have "links N' P' a vs b" using v Nil Cons by simp
    then show ?thesis unfolding N'_def P'_def v(2,3) append_Nil .
  qed (use Nil in auto)
next
  case (Cons u us)
  have "p \<in> set (u # us)" using Cons.prems(4) by (simp only: last.simps) auto
  moreover have "q \<in> set (vs @ [b])" using Cons.prems(5) by (cases vs) auto
  ultimately have "a \<noteq> p" "u \<noteq> q" using Cons.prems(2,3) by auto
  then have "(N(p := Some q, x := None)) a = Some u" "(P(q := Some p, x := None)) u = Some a" using Cons.prems by auto
  moreover have "links (N(p := Some q, x := None)) (P(q := Some p, x := None)) u (us @ vs) b"
    by (rule Cons.IH) (use Cons.prems in \<open>auto split: if_splits\<close>)
  ultimately show ?case unfolding append_Cons links.simps by blast
qed

section \<open>Lists\<close>

text \<open>Memory \<open>m\<close> holds at \<open>l\<close> the list of the items \<open>xs\<close>.\<close>

definition rs_list :: "list_mem \<Rightarrow> nat \<Rightarrow> nat list \<Rightarrow> bool" where
  "rs_list m l xs =
    (distinct (l # xs) \<and> links (nx m) (pv m) l xs l \<and> length xs < 2 ^ 64 \<and>
     nLength m l = of_nat (length xs) \<and> own m l = None \<and>
     (\<forall>x \<in> set xs. cont m x = Some l \<and> own m x \<noteq> None))"

text \<open>Only the addresses \<open>S\<close> and the length of the list \<open>l\<close> differ.\<close>

definition same_off :: "nat set \<Rightarrow> nat \<Rightarrow> list_mem \<Rightarrow> list_mem \<Rightarrow> bool" where
  "same_off S l m m' =
    (own m' = own m \<and> dom (items m') = dom (items m) \<and>
     (\<forall>a. a \<notin> S \<longrightarrow> nx m' a = nx m a \<and> pv m' a = pv m a \<and> cont m' a = cont m a) \<and>
     (\<forall>k. k \<noteq> l \<longrightarrow> nLength m' k = nLength m k))"

lemma nLength_fields [simp]:
  "nx (nLength_update f m) = nx m" "pv (nLength_update f m) = pv m"
  "cont (nLength_update f m) = cont m" "own (nLength_update f m) = own m"
  by (simp_all add: fun_eq_iff field_defs)

lemma u64_of_nat_eq_0: "n < 2 ^ 64 \<Longrightarrow> ((of_nat n :: u64) = 0) = (n = 0)"
  by (simp add: word_unat_eq_iff unat_of_nat take_bit_nat_eq_self)

lemma rs_list_frame:
  assumes "rs_list m k ys" "same_off S l m m'" "k \<noteq> l" "set (k # ys) \<inter> S = {}"
  shows "rs_list m' k ys"
proof -
  have "links (nx m) (pv m) k ys k = links (nx m') (pv m') k ys k"
    using assms(2,4) by (intro links_cong) (auto simp: same_off_def)
  then show ?thesis using assms by (auto simp: rs_list_def same_off_def)
qed

lemma rs_list_dom:
  assumes "rs_list m l xs" "x \<in> set (l # xs)"
  shows "x \<in> dom (items m)"
proof (cases "x = l")
  case True
  have "nx m l = Some (hd (xs @ [l]))" using assms(1) by (auto simp: rs_list_def intro: links_first)
  then show ?thesis using True field_dom(1) by blast
next
  case False
  then show ?thesis using assms by (auto simp: rs_list_def field_defs split: Option.bind_splits)
qed

lemma listADD_spec:
  assumes "nx m p = Some q" "q \<in> dom (items m)" "i \<in> dom (items m)" "i \<noteq> p" "i \<noteq> q"
  obtains m' where "listADD (Some p) i m = Some m'" "nx m' = (nx m)(p := Some i, i := Some q)"
    "pv m' = (pv m)(q := Some i, i := Some p)" "cont m' = cont m" "own m' = own m"
    "dom (items m') = dom (items m)" "nLength m' = nLength m"
proof -
  obtain m1 where 1: "set_next (Some i) (Some q) m = Some m1" "nx m1 = (nx m)(i := Some q)"
    "pv m1 = pv m" "cont m1 = cont m" "own m1 = own m" "dom (items m1) = dom (items m)"
    "nLength m1 = nLength m" using store_next [OF assms(3)] by metis
  obtain m2 where 2: "set_prev (Some q) (Some i) m1 = Some m2" "nx m2 = nx m1"
    "pv m2 = (pv m1)(q := Some i)" "cont m2 = cont m1" "own m2 = own m1"
    "dom (items m2) = dom (items m1)" "nLength m2 = nLength m1"
    using store_prev [of q m1] assms(2) 1(6) by metis
  obtain m3 where 3: "set_next (Some p) (Some i) m2 = Some m3" "nx m3 = (nx m2)(p := Some i)"
    "pv m3 = pv m2" "cont m3 = cont m2" "own m3 = own m2" "dom (items m3) = dom (items m2)"
    "nLength m3 = nLength m2"
    using store_next [of p m2] field_dom(1) [OF assms(1)] 1(6) 2(6) by metis
  obtain m4 where 4: "set_prev (Some i) (Some p) m3 = Some m4" "nx m4 = nx m3"
    "pv m4 = (pv m3)(i := Some p)" "cont m4 = cont m3" "own m4 = own m3"
    "dom (items m4) = dom (items m3)" "nLength m4 = nLength m3"
    using store_prev [of i m3] assms(3) 1(6) 2(6) 3(6) by metis
  show thesis
    by (rule that [of m4])
      (use 1 2 3 4 assms load(1) [OF assms(1)] in \<open>auto simp: listADD_def fun_upd_twist\<close>)
qed

lemma listREMOVE_spec:
  assumes "nx m i = Some q" "pv m i = Some p" "p \<in> dom (items m)" "q \<in> dom (items m)" "i \<noteq> p" "i \<noteq> q"
  obtains m' where "listREMOVE i m = Some m'" "nx m' = (nx m)(p := Some q, i := None)"
    "pv m' = (pv m)(q := Some p, i := None)" "cont m' = cont m" "own m' = own m"
    "dom (items m') = dom (items m)" "nLength m' = nLength m"
proof -
  obtain m1 where 1: "set_next (Some p) (Some q) m = Some m1" "nx m1 = (nx m)(p := Some q)"
    "pv m1 = pv m" "cont m1 = cont m" "own m1 = own m" "dom (items m1) = dom (items m)"
    "nLength m1 = nLength m" using store_next [OF assms(3)] by metis
  obtain m2 where 2: "set_prev (Some q) (Some p) m1 = Some m2" "nx m2 = nx m1"
    "pv m2 = (pv m1)(q := Some p)" "cont m2 = cont m1" "own m2 = own m1"
    "dom (items m2) = dom (items m1)" "nLength m2 = nLength m1"
    using store_prev [of q m1] assms(4) 1(6) by metis
  obtain m3 where 3: "set_prev (Some i) None m2 = Some m3" "nx m3 = nx m2"
    "pv m3 = (pv m2)(i := None)" "cont m3 = cont m2" "own m3 = own m2"
    "dom (items m3) = dom (items m2)" "nLength m3 = nLength m2"
    using store_prev [of i m2] field_dom(1) [OF assms(1)] 1(6) 2(6) by metis
  obtain m4 where 4: "set_next (Some i) None m3 = Some m4" "nx m4 = (nx m3)(i := None)"
    "pv m4 = pv m3" "cont m4 = cont m3" "own m4 = own m3" "dom (items m4) = dom (items m3)"
    "nLength m4 = nLength m3"
    using store_next [of i m3] field_dom(1) [OF assms(1)] 1(6) 2(6) 3(6) by metis
  show thesis
    by (rule that [of m4])
      (use 1 2 3 4 assms load(1) [OF assms(1)] load(2) [OF assms(2)]
       in \<open>auto simp: listREMOVE_def\<close>)
qed

lemma u64_of_nat_Suc: "(of_nat n :: u64) + 1 = of_nat (Suc n)" "(of_nat (Suc n) :: u64) - 1 = of_nat n"
  by simp_all

lemma link_into_spec:
  assumes "rs_list m l (us @ vs)" "i \<notin> set (l # us @ vs)" "i \<in> dom (items m)" "own m i \<noteq> None"
    "length (us @ vs) + 1 < 2 ^ 64" "p = last (l # us)"
  obtains m' where "link_into l (Some p) i m = Some m'" "rs_list m' l (us @ i # vs)"
    "same_off (insert i (set (l # us @ vs))) l m m'"
proof -
  note r = assms(1) [unfolded rs_list_def]
  define q where "q = hd (vs @ [l])"
  have pq: "p \<in> set (l # us @ vs)" "q \<in> set (l # us @ vs)"
    using assms(6) by (auto simp: q_def hd_append split: if_splits)
  have "nx m p = Some q"
  proof (cases us rule: rev_cases)
    case Nil
    then show ?thesis using r assms(6) links_first by (auto simp: q_def)
  next
    case (snoc ws w)
    then have "links (nx m) (pv m) w vs l" using r by (simp add: links_append)
    then show ?thesis using snoc assms(6) links_first by (auto simp: q_def)
  qed
  then obtain m1 where m1: "listADD (Some p) i m = Some m1" "nx m1 = (nx m)(p := Some i, i := Some q)"
    "pv m1 = (pv m)(q := Some i, i := Some p)" "cont m1 = cont m" "own m1 = own m"
    "dom (items m1) = dom (items m)" "nLength m1 = nLength m"
    using listADD_spec [of m p q i] rs_list_dom [OF assms(1) pq(2)] pq assms(2,3) by metis
  let ?m = "m1\<lparr>nLength := (nLength m1)(l := nLength m1 l + 1)\<rparr>"
  obtain m2 where m2: "item_upd (\<lambda>x. x\<lparr>pvCont := Some l\<rparr>) (Some i) ?m = Some m2" "nx m2 = nx m1"
    "pv m2 = pv m1" "cont m2 = (cont m)(i := Some l)" "own m2 = own m"
    "dom (items m2) = dom (items m)" "nLength m2 = nLength ?m"
    using store_cont [of i ?m] assms(3) m1 by auto
  have "links (nx m2) (pv m2) l (us @ i # vs) l"
    unfolding m2 m1 using r assms(2,6) by (intro links_insert) (auto simp: q_def)
  moreover have "nLength m2 l = of_nat (length (us @ i # vs))"
    using r m1 m2 by (simp add: u64_of_nat_Suc)
  ultimately have "rs_list m2 l (us @ i # vs)"
    using r m2 assms(2,4,5) by (auto simp: rs_list_def)
  moreover have "same_off (insert i (set (l # us @ vs))) l m m2"
    using m1 m2 pq by (auto simp: same_off_def)
  ultimately show thesis using that m1 m2 by (simp add: link_into_def)
qed

text \<open>\<^verbatim>\<open>vRsListInsert\<close> passes the first item where the ring operation expects the head, so the
  new item becomes the second of a list that is not empty.\<close>

fun second :: "'a \<Rightarrow> 'a list \<Rightarrow> 'a list" where
  "second i [] = [i]"
| "second i (x # xs) = x # i # xs"

lemma insert_spec:
  assumes "rs_list m l xs" "i \<notin> set (l # xs)" "i \<in> dom (items m)" "own m i \<noteq> None"
    "length xs + 1 < 2 ^ 64"
  obtains m' where "vRsListInsert l i m = Some m'" "rs_list m' l (second i xs)"
    "same_off (insert i (set (l # xs))) l m m'"
proof -
  have n: "nx m l = Some (hd (xs @ [l]))" using assms(1) by (auto simp: rs_list_def intro: links_first)
  show thesis
  proof (cases xs)
    case Nil
    then show thesis
      using link_into_spec [of m l "[]" "[]" i l] assms n load(1) [OF n] that
      by (auto simp: vRsListInsert_def)
  next
    case (Cons x ys)
    then show thesis
      using link_into_spec [of m l "[x]" ys i x] assms n load(1) [OF n] that
      by (auto simp: vRsListInsert_def)
  qed
qed

lemma insert_end_spec:
  assumes "rs_list m l xs" "i \<notin> set (l # xs)" "i \<in> dom (items m)" "own m i \<noteq> None"
    "length xs + 1 < 2 ^ 64"
  obtains m' where "vRsListInsertEnd l i m = Some m'" "rs_list m' l (xs @ [i])"
    "same_off (insert i (set (l # xs))) l m m'"
proof -
  have p: "pv m l = Some (last (l # xs))"
    by (rule links_last [of "nx m"]) (use assms(1) in \<open>simp add: rs_list_def\<close>)
  show thesis
    using link_into_spec [of m l xs "[]" i "last (l # xs)"] assms load(2) [OF p] that
    by (auto simp: vRsListInsertEnd_def simp del: last.simps)
qed

lemma remove_spec:
  assumes "rs_list m l xs" "i \<in> set xs"
  obtains m' where "vRsListRemove i m = Some m'" "rs_list m' l (remove1 i xs)"
    "same_off (set (l # xs)) l m m'" "nx m' i = None"
proof -
  note r = assms(1) [unfolded rs_list_def]
  obtain us vs where xs: "xs = us @ i # vs" using assms(2) by (meson split_list)
  define p q where "p = last (l # us)" and "q = hd (vs @ [l])"
  have k: "links (nx m) (pv m) l us i" "links (nx m) (pv m) i vs l" using r xs by (simp_all add: links_append)
  have e: "pv m i = Some p" "nx m i = Some q"
    using links_last [OF k(1)] links_first [OF k(2)] by (simp_all add: p_def q_def)
  have pq: "p \<in> set (l # us)" "q \<in> set (l # vs)"
    by (auto simp: p_def q_def hd_append split: if_splits)
  then have d: "i \<noteq> p" "i \<noteq> q" "p \<in> set (l # xs)" "q \<in> set (l # xs)" using r xs by auto
  let ?m = "m\<lparr>nLength := (nLength m)(l := nLength m l - 1)\<rparr>"
  obtain m' where m': "listREMOVE i ?m = Some m'" "nx m' = (nx m)(p := Some q, i := None)"
    "pv m' = (pv m)(q := Some p, i := None)" "cont m' = cont m" "own m' = own m"
    "dom (items m') = dom (items m)" "nLength m' = nLength ?m"
    using listREMOVE_spec [of ?m i q p] e d rs_list_dom [OF assms(1)] by auto
  have "links (nx m') (pv m') l (us @ vs) l"
    unfolding m' using r xs by (intro links_remove) (auto simp: p_def q_def)
  moreover have "remove1 i xs = us @ vs" using r xs by (simp add: remove1_append)
  moreover have "nLength m' l = of_nat (length (us @ vs))" using r xs m' by simp
  ultimately have "rs_list m' l (remove1 i xs)" using r xs m' by (auto simp: rs_list_def)
  moreover have "same_off (set (l # xs)) l m m'" using m' d xs by (auto simp: same_off_def)
  moreover have "cont m i = Some l" using r assms(2) by blast
  ultimately show thesis
    using that m' load(3) [of m i l] by (simp add: vRsListRemove_def)
qed

section \<open>Reading a list\<close>

lemma rs_list_length:
  assumes "rs_list m l xs"
  shows "unat (unRsListLength l m) = length xs" "(nLength m l = 0) = (xs = [])"
  using assms by (auto simp: rs_list_def unRsListLength_def unat_of_nat take_bit_nat_eq_self u64_of_nat_eq_0)

lemma get_first_spec: "rs_list m l xs \<Longrightarrow> pxRsListGetFirst l m = Some (if xs = [] then None else Some (hd xs))"
proof -
  assume r: "rs_list m l xs"
  then have n: "nx m l = Some (hd (xs @ [l]))" by (auto simp: rs_list_def intro: links_first)
  show ?thesis using rs_list_length(2) [OF r] load(1) [OF n] by (auto simp: pxRsListGetFirst_def)
qed

lemma get_last_spec: "rs_list m l xs \<Longrightarrow> pxRsListGetLast l m = Some (if xs = [] then None else Some (last xs))"
proof -
  assume r: "rs_list m l xs"
  have n: "pv m l = Some (last (l # xs))"
    by (rule links_last [of "nx m"]) (use r in \<open>simp add: rs_list_def\<close>)
  show ?thesis using rs_list_length(2) [OF r] load(2) [OF n] by (auto simp: pxRsListGetLast_def)
qed

lemma get_next_spec:
  assumes "rs_list m l (us @ x # vs)"
  shows "pxRsListGetNext x m = Some (if vs = [] then None else Some (hd vs))"
proof -
  have "links (nx m) (pv m) x vs l" using assms by (simp add: rs_list_def links_append)
  then have n: "nx m x = Some (hd (vs @ [l]))" by (rule links_first)
  moreover have "hd (vs @ [l]) \<in> dom (items m)"
    by (rule rs_list_dom [OF assms]) (cases vs; simp)
  moreover have "own m (hd (vs @ [l])) = None \<longleftrightarrow> vs = []"
    using assms by (cases vs) (auto simp: rs_list_def)
  ultimately show ?thesis
    using load(1) [OF n] load(4) [of "hd (vs @ [l])" m]
    by (cases vs) (auto simp: pxRsListGetNext_def)
qed

lemma contained_spec:
  assumes "rs_list m l xs"
  shows "xRsListIsContainedWithin l i m = Some (i \<in> set xs)"
proof -
  have "contained_loop m (Some x) i = Some (i \<in> set (x # vs))" if "xs = us @ x # vs" for us x vs
    using that
  proof (induction vs arbitrary: us x)
    case Nil
    then show ?case
      using get_next_spec [of m l us x "[]"] assms
      by (subst contained_loop.simps) (auto simp: contained_loop.simps)
  next
    case (Cons v vs)
    have "pxRsListGetNext x m = Some (Some v)"
      using get_next_spec [of m l us x "v # vs"] assms Cons.prems by simp
    moreover have "contained_loop m (Some v) i = Some (i \<in> set (v # vs))"
      by (rule Cons.IH [of "us @ [x]"]) (simp add: Cons.prems)
    ultimately show ?case by (subst contained_loop.simps) auto
  qed
  from this [of "[]" "hd xs" "tl xs"] show ?thesis
    using get_first_spec [OF assms]
    by (cases xs) (auto simp: xRsListIsContainedWithin_def contained_loop.simps)
qed

section \<open>First in, first out\<close>

text \<open>What the clients of the list rely on: a store of sequences with insertion of an item that is
  initialised and in no list, and removal.\<close>

definition spare :: "list_mem \<Rightarrow> nat \<Rightarrow> bool" where
  "spare m i = (i \<in> dom (items m) \<and> own m i \<noteq> None)"

locale list_store =
  fixes repr :: "'m \<Rightarrow> nat list \<Rightarrow> bool" and ok :: "'m \<Rightarrow> nat \<Rightarrow> bool"
    and add :: "nat \<Rightarrow> 'm \<Rightarrow> 'm option" and place :: "nat \<Rightarrow> nat list \<Rightarrow> nat list"
    and get :: "'m \<Rightarrow> nat option option" and del :: "nat \<Rightarrow> 'm \<Rightarrow> 'm option"
    and bound :: nat
  assumes add_law: "repr m xs \<Longrightarrow> ok m i \<Longrightarrow> i \<notin> set xs \<Longrightarrow> length xs + 1 < bound \<Longrightarrow>
      \<exists>m'. add i m = Some m' \<and> repr m' (place i xs) \<and> (\<forall>j. ok m j \<longrightarrow> ok m' j)"
    and place_set: "mset (place i xs) = add_mset i (mset xs)"
    and get_law: "repr m xs \<Longrightarrow> get m = Some (if xs = [] then None else Some (hd xs))"
    and del_law: "repr m xs \<Longrightarrow> i \<in> set xs \<Longrightarrow> \<exists>m'. del i m = Some m' \<and> repr m' (remove1 i xs)"

text \<open>Adding a sequence of items one by one, and taking the first item away until none is left.\<close>

fun add_seq :: "(nat \<Rightarrow> 'm \<Rightarrow> 'm option) \<Rightarrow> nat list \<Rightarrow> 'm \<Rightarrow> 'm option" where
  "add_seq add [] m = Some m"
| "add_seq add (i # is) m = Option.bind (add i m) (add_seq add is)"

fun take_seq ::
  "('m \<Rightarrow> nat option option) \<Rightarrow> (nat \<Rightarrow> 'm \<Rightarrow> 'm option) \<Rightarrow> nat \<Rightarrow> 'm \<Rightarrow> (nat list \<times> 'm) option" where
  "take_seq get del 0 m = Some ([], m)"
| "take_seq get del (Suc n) m =
    Option.bind (get m) (\<lambda>p.
      case p of None \<Rightarrow> None
      | Some i \<Rightarrow> Option.bind (del i m) (\<lambda>m1. map_option (apfst ((#) i)) (take_seq get del n m1)))"

context list_store
begin

lemma place_length: "length (place i xs) = Suc (length xs)"
  using arg_cong [OF place_set, of size i xs] by simp

lemma add_seq_spec:
  assumes "repr m xs" "\<And>i. i \<in> set is \<Longrightarrow> ok m i" "distinct is" "set is \<inter> set xs = {}"
    "length xs + length is < bound"
  shows "\<exists>m'. add_seq add is m = Some m' \<and> repr m' (fold place is xs)"
  using assms
proof (induction "is" arbitrary: m xs)
  case (Cons i "is")
  obtain m1 where m1: "add i m = Some m1" "repr m1 (place i xs)" "\<And>j. ok m j \<Longrightarrow> ok m1 j"
    using add_law [of m xs i] Cons.prems by auto
  have p: "set (place i xs) = insert i (set xs)" "length (place i xs) = Suc (length xs)"
    using arg_cong [OF place_set, of set_mset i xs] place_length by simp_all
  have "\<exists>m'. add_seq add is m1 = Some m' \<and> repr m' (fold place is (place i xs))"
    by (rule Cons.IH) (use m1 p Cons.prems in auto)
  then show ?case using m1 by simp
qed simp

lemma take_seq_spec:
  assumes "repr m xs" "n \<le> length xs"
  shows "\<exists>m'. take_seq get del n m = Some (take n xs, m') \<and> repr m' (drop n xs)"
  using assms
proof (induction n arbitrary: m xs)
  case (Suc n)
  then obtain x ys where xs: "xs = x # ys" by (cases xs) auto
  obtain m1 where m1: "del x m = Some m1" "repr m1 ys" using del_law [of m xs x] Suc.prems xs by auto
  then show ?case
    using Suc.IH [of m1 ys] Suc.prems xs get_law [OF Suc.prems(1)] by auto
qed simp

lemma through:
  assumes "repr m []" "\<And>i. i \<in> set is \<Longrightarrow> ok m i" "distinct is" "length is < bound"
  shows "\<exists>m1 m2. add_seq add is m = Some m1 \<and>
    take_seq get del (length is) m1 = Some (fold place is [], m2) \<and> repr m2 []"
proof -
  obtain m1 where m1: "add_seq add is m = Some m1" "repr m1 (fold place is [])"
    using add_seq_spec [of m "[]" "is"] assms by auto
  have "length (fold place is xs) = length is + length xs" for xs
    by (induction "is" arbitrary: xs) (simp_all add: place_length)
  then have "length (fold place is []) = length is" by simp
  then show ?thesis using take_seq_spec [OF m1(2), of "length is"] m1(1) by auto
qed

end

lemma spare_head: "rs_list m l xs \<Longrightarrow> spare m i \<Longrightarrow> i \<noteq> l"
  by (auto simp: rs_list_def spare_def)

lemma same_off_spare: "same_off S l m m' \<Longrightarrow> spare m' i = spare m i"
  by (auto simp: same_off_def spare_def)

lemma mset_second: "mset (second i xs) = add_mset i (mset xs)"
  by (cases xs) simp_all

lemma rs_del:
  assumes "rs_list m l xs" "i \<in> set xs"
  shows "\<exists>m'. vRsListRemove i m = Some m' \<and> rs_list m' l (remove1 i xs)"
  using remove_spec [OF assms] by metis

lemma rs_add_end:
  assumes "rs_list m l xs" "spare m i" "i \<notin> set xs" "length xs + 1 < 2 ^ 64"
  shows "\<exists>m'. vRsListInsertEnd l i m = Some m' \<and> rs_list m' l (xs @ [i]) \<and> (\<forall>j. spare m j \<longrightarrow> spare m' j)"
proof -
  have s: "i \<notin> set (l # xs)" "i \<in> dom (items m)" "own m i \<noteq> None"
    using assms spare_head by (auto simp: spare_def)
  obtain m' where "vRsListInsertEnd l i m = Some m'" "rs_list m' l (xs @ [i])"
    "same_off (insert i (set (l # xs))) l m m'"
    by (rule insert_end_spec [OF assms(1) s assms(4)])
  then show ?thesis using same_off_spare by blast
qed

lemma rs_add_second:
  assumes "rs_list m l xs" "spare m i" "i \<notin> set xs" "length xs + 1 < 2 ^ 64"
  shows "\<exists>m'. vRsListInsert l i m = Some m' \<and> rs_list m' l (second i xs) \<and> (\<forall>j. spare m j \<longrightarrow> spare m' j)"
proof -
  have s: "i \<notin> set (l # xs)" "i \<in> dom (items m)" "own m i \<noteq> None"
    using assms spare_head by (auto simp: spare_def)
  obtain m' where "vRsListInsert l i m = Some m'" "rs_list m' l (second i xs)"
    "same_off (insert i (set (l # xs))) l m m'"
    by (rule insert_spec [OF assms(1) s assms(4)])
  then show ?thesis using same_off_spare by blast
qed

interpretation at_end: list_store "\<lambda>m. rs_list m l" spare "vRsListInsertEnd l" "\<lambda>i xs. xs @ [i]"
  "pxRsListGetFirst l" vRsListRemove "2 ^ 64" for l
  by unfold_locales (use rs_add_end rs_del get_first_spec in auto)

interpretation at_second: list_store "\<lambda>m. rs_list m l" spare "vRsListInsert l" second
  "pxRsListGetFirst l" vRsListRemove "2 ^ 64" for l
  by unfold_locales (use rs_add_second rs_del get_first_spec mset_second in auto)

lemma fold_end: "fold (\<lambda>i xs. xs @ [i]) is xs = xs @ is"
  by (induction "is" arbitrary: xs) simp_all

lemma fold_second: "fold second is (x # xs) = x # rev is @ xs"
  by (induction "is" arbitrary: xs) simp_all

text \<open>C35. The list macros refine operations on sequences: at an address that holds the list \<open>xs\<close>,
  \<^verbatim>\<open>vRsListInsertEnd\<close> appends, \<^verbatim>\<open>vRsListInsert\<close> puts the item second (first when the list is empty),
  \<^verbatim>\<open>vRsListRemove\<close> takes an item out wherever it stands, the length and both ends are read off,
  and \<^verbatim>\<open>xRsListIsContainedWithin\<close> ends and answers membership; no link is followed that is not there.\<close>
theorem list_operations:
  assumes "rs_list m l xs" "spare m i" "i \<notin> set xs" "length xs + 1 < 2 ^ 64"
  shows "\<exists>m1 m2.
    vRsListInsertEnd l i m = Some m1 \<and> rs_list m1 l (xs @ [i]) \<and>
    vRsListInsert l i m = Some m2 \<and> rs_list m2 l (second i xs) \<and>
    (\<forall>x \<in> set xs. \<exists>m3. vRsListRemove x m = Some m3 \<and> rs_list m3 l (remove1 x xs)) \<and>
    unat (unRsListLength l m) = length xs \<and>
    pxRsListGetFirst l m = Some (if xs = [] then None else Some (hd xs)) \<and>
    pxRsListGetLast l m = Some (if xs = [] then None else Some (last xs)) \<and>
    (\<forall>x. xRsListIsContainedWithin l x m = Some (x \<in> set xs))"
  using rs_add_end [OF assms] rs_add_second [OF assms] rs_del [OF assms(1)]
    rs_list_length(1) [OF assms(1)] get_first_spec [OF assms(1)] get_last_spec [OF assms(1)]
    contained_spec [OF assms(1)]
  by blast

text \<open>Three items and a head, each initialised, with a list that holds the first two of them.\<close>

definition sample_item :: "nat \<Rightarrow> rs_item" where
  "sample_item a = \<lparr>lPrev = Some a, lNext = Some a, pvCont = None, pvOwner = (if a = 0 then None else Some (100 + a))\<rparr>"

definition sample_mem :: list_mem where
  "sample_mem = \<lparr>items = (\<lambda>a. if a < 4 then Some (sample_item a) else None), nLength = (\<lambda>_. 0)\<rparr>"

lemma sample_empty: "rs_list sample_mem 0 []" "spare sample_mem 1" "spare sample_mem 2" "spare sample_mem 3"
  by (simp_all add: rs_list_def spare_def field_defs sample_mem_def sample_item_def dom_def)

lemma list_operations_witness:
  "\<exists>m. rs_list m 0 [1] \<and> (\<exists>m2. vRsListInsert 0 2 m = Some m2 \<and> rs_list m2 0 [1, 2])"
proof -
  obtain m where m: "rs_list m 0 [1]" "\<And>j. spare sample_mem j \<Longrightarrow> spare m j"
    using rs_add_end [of sample_mem 0 "[]" 1] sample_empty by auto
  then show ?thesis
    using list_operations [of m 0 "[1]" 2] sample_empty by fastforce
qed

text \<open>A list filled with \<^verbatim>\<open>vRsListInsertEnd\<close> and emptied from its first item hands the items out in
  the order they came; filled with \<^verbatim>\<open>vRsListInsert\<close>, it hands out the first one and then the
  others from the last back to the second.\<close>
theorem list_order:
  assumes "rs_list m l []" "\<forall>j \<in> set (i # is). spare m j" "distinct (i # is)" "length (i # is) < 2 ^ 64"
  shows "\<exists>m1 m2 m3 m4.
    add_seq (vRsListInsertEnd l) (i # is) m = Some m1 \<and>
    take_seq (pxRsListGetFirst l) vRsListRemove (length (i # is)) m1 = Some (i # is, m2) \<and> rs_list m2 l [] \<and>
    add_seq (vRsListInsert l) (i # is) m = Some m3 \<and>
    take_seq (pxRsListGetFirst l) vRsListRemove (length (i # is)) m3 = Some (i # rev is, m4) \<and> rs_list m4 l []"
proof -
  have s: "\<And>j. j \<in> set (i # is) \<Longrightarrow> spare m j" using assms(2) by blast
  have f: "fold (\<lambda>i xs. xs @ [i]) (i # is) [] = i # is" "fold second (i # is) [] = i # rev is"
    by (simp_all add: fold_end fold_second)
  show ?thesis
    using at_end.through [OF assms(1) s assms(3,4)] at_second.through [OF assms(1) s assms(3,4)]
    unfolding f by blast
qed

end
