(* ===== verification/Rsrc.thy ===== *)
theory Rsrc
  imports Prelude
begin

text \<open>Resource pools (\<^verbatim>\<open>common/rsrc.c\<close>).  Resources live at addresses and are handed out as the
  address of their payload, behind the 32 bytes of \<^verbatim>\<open>struct rsrc\<close>.  The intrusive active list and
  free list of a pool are the sequences of its resources.  The heap is an argument of the
  operations that ask it for memory.\<close>

section \<open>Outcomes\<close>

text \<open>\<open>Abort\<close> is a call to \<^verbatim>\<open>abort\<close>; \<open>Undef\<close> is an access to memory that is not there.\<close>

datatype 'a run = Abort | Undef | Ret 'a

fun rbind :: "'a run \<Rightarrow> ('a \<Rightarrow> 'b run) \<Rightarrow> 'b run" where
  "rbind Abort f = Abort"
| "rbind Undef f = Undef"
| "rbind (Ret x) f = f x"

lemma rbind_Ret: "(rbind r f = Ret y) = (\<exists>x. r = Ret x \<and> f x = Ret y)"
  by (cases r) auto

definition or_undef :: "'a option \<Rightarrow> 'a run" where
  "or_undef r = (case r of None \<Rightarrow> Undef | Some x \<Rightarrow> Ret x)"

lemma or_undef_simps [simp]: "or_undef None = Undef" "or_undef (Some x) = Ret x"
  by (simp_all add: or_undef_def)

section \<open>State\<close>

text \<open>\<open>pvFlag\<close> tells whether the flag of a free resource, \<^verbatim>\<open>RESFREE_MAGIC\<close>, is there; the field
  shares its memory with the back link of the active list.\<close>

record rsrc =
  pvFlag :: bool
  r_pool :: "nat option"
  pcResName :: "string option"
  payload :: bytes

record rsrc_pool =
  pcName :: string
  xActive :: "nat list"
  pxFreelist :: "nat list"
  pxAllocHelper :: "(bytes \<Rightarrow> bytes) option"
  pxFreeHelper :: "(bytes \<Rightarrow> bytes) option"
  ulTotalAllocs :: u64
  uxSizeEach :: u64
  uiIncrement :: u16
  uiFreeOnFree :: bool
  uiMaxNumRes :: u16
  uiNumInUse :: u16
  uiNumFree :: u16
  uiLowWater :: u16
  uiHiWater :: u16

datatype clear_setting = rsrcNOCLEAR | rsrcCLEAR_ON_ALLOC | rsrcCLEAR_ON_BOTH

text \<open>\<open>rsrcPools\<close> is \<open>None\<close> until the first pool is made; \<open>vRsrcOOMfn\<close> tells whether the user set an
  out-of-memory function, which returns.\<close>

record rsrc_state =
  rsrcPools :: "nat list option"
  pools :: "nat \<Rightarrow> rsrc_pool option"
  rsrcs :: "nat \<Rightarrow> rsrc option"
  eRsrcClearResOnAlloc :: clear_setting
  vRsrcOOMfn :: bool

type_synonym heap = "u64 \<Rightarrow> (nat \<times> bytes) option"

definition RSRC_HDR :: nat where "RSRC_HDR = 32"

definition rsrcRES_ALIGN_TO :: u64 where "rsrcRES_ALIGN_TO = 8"

definition rsrcINIT_NUM_POOLS :: u32 where "rsrcINIT_NUM_POOLS = 5"

definition POOL_SZ :: u64 where "POOL_SZ = 112"

text \<open>The address of the static pool of pools.\<close>

definition xRsrcPoolPool :: nat where "xRsrcPoolPool = 8"

definition mem_set :: "bytes \<Rightarrow> u8 \<Rightarrow> nat \<Rightarrow> bytes option" where
  "mem_set p v n = (if n \<le> length p then Some (replicate n v @ drop n p) else None)"

definition helped :: "(bytes \<Rightarrow> bytes) option \<Rightarrow> bytes \<Rightarrow> bytes" where
  "helped h p = (case h of None \<Rightarrow> p | Some f \<Rightarrow> f p)"

section \<open>Operations\<close>

definition privuxRsrcAlignUp :: "u64 \<Rightarrow> u64" where
  "privuxRsrcAlignUp s =
    (let r = s AND (rsrcRES_ALIGN_TO - 1) in if r \<noteq> 0 then s + (rsrcRES_ALIGN_TO - r) else s)"

definition prvvFreeResTail :: "nat \<Rightarrow> nat \<Rightarrow> bool \<Rightarrow> rsrc_state \<Rightarrow> rsrc_state run" where
  "prvvFreeResTail p r call st =
    rbind (or_undef (pools st p)) (\<lambda>pl.
    rbind (or_undef (rsrcs st r)) (\<lambda>rs.
    rbind (let pay = (if call then helped (pxFreeHelper pl) (payload rs) else payload rs) in
           if eRsrcClearResOnAlloc st = rsrcCLEAR_ON_BOTH \<and> uxSizeEach pl \<noteq> 0
           then or_undef (mem_set pay 0xFF (unat (uxSizeEach pl))) else Ret pay) (\<lambda>pay.
    Ret (st\<lparr>pools := (pools st)(p \<mapsto> pl\<lparr>pxFreelist := r # pxFreelist pl, uiNumFree := uiNumFree pl + 1\<rparr>),
            rsrcs := (rsrcs st)(r \<mapsto> rs\<lparr>pvFlag := True, payload := pay\<rparr>)\<rparr>))))"

definition prviRsrcOOM :: "rsrc_state \<Rightarrow> unit run" where
  "prviRsrcOOM st = (if vRsrcOOMfn st then Ret () else Abort)"

text \<open>The resources of a block of heap memory: their addresses and the bytes of their payloads.\<close>

definition carve :: "nat \<Rightarrow> bytes \<Rightarrow> nat \<Rightarrow> nat \<Rightarrow> (nat \<times> bytes) list" where
  "carve base blk sz cnt =
    List.map (\<lambda>i. (base + i * sz, take (sz - RSRC_HDR) (drop (i * sz + RSRC_HDR) blk))) [0 ..< cnt]"

definition new_rsrc :: "bytes \<Rightarrow> rsrc" where
  "new_rsrc pay = \<lparr>pvFlag = False, r_pool = None, pcResName = None, payload = pay\<rparr>"

fun add_loop :: "nat \<Rightarrow> (nat \<times> bytes) list \<Rightarrow> rsrc_state \<Rightarrow> rsrc_state run" where
  "add_loop p [] st = Ret st"
| "add_loop p ((r, pay) # xs) st =
    rbind (prvvFreeResTail p r False (st\<lparr>rsrcs := (rsrcs st)(r \<mapsto> new_rsrc pay)\<rparr>)) (add_loop p xs)"

definition prviRsrcAdd2Pool :: "nat \<Rightarrow> u32 \<Rightarrow> u64 \<Rightarrow> heap \<Rightarrow> rsrc_state \<Rightarrow> (int \<times> rsrc_state) run" where
  "prviRsrcAdd2Pool p cnt sz ha st =
    (if cnt = 0 then Ret (0, st)
     else
       (case ha (ucast cnt * sz) of
          None \<Rightarrow> rbind (prviRsrcOOM st) (\<lambda>_. Ret (-1, st))
        | Some (base, blk) \<Rightarrow>
            rbind (or_undef (pools st p)) (\<lambda>pl.
            rbind (add_loop p (carve base blk (unat sz) (unat cnt))
              (if unat (uiNumInUse pl) + unat (uiNumFree pl) = 0
               then st\<lparr>pools := (pools st)(p \<mapsto> pl\<lparr>uiLowWater := ucast cnt\<rparr>)\<rparr> else st))
              (\<lambda>st1. Ret (uint cnt, st1)))))"

definition take_first :: "nat \<Rightarrow> string \<Rightarrow> u64 \<Rightarrow> rsrc_state \<Rightarrow> (nat option \<times> rsrc_state) run" where
  "take_first p req len st =
    rbind (or_undef (pools st p)) (\<lambda>pl.
    case pxFreelist pl of [] \<Rightarrow> Undef
    | r # fs \<Rightarrow>
        rbind (or_undef (rsrcs st r)) (\<lambda>rs.
        rbind (if eRsrcClearResOnAlloc st \<noteq> rsrcNOCLEAR
               then or_undef (mem_set (payload rs) 0 (unat len)) else Ret (payload rs)) (\<lambda>pay.
        let nf = uiNumFree pl - 1; iu = uiNumInUse pl + 1 in
        Ret (Some (r + RSRC_HDR),
             st\<lparr>pools := (pools st)(p \<mapsto>
                  pl\<lparr>pxFreelist := fs, uiNumFree := nf,
                     uiLowWater := (if nf < uiLowWater pl then nf else uiLowWater pl),
                     ulTotalAllocs := ulTotalAllocs pl + 1, xActive := r # xActive pl, uiNumInUse := iu,
                     uiHiWater := (if uiHiWater pl < iu then iu else uiHiWater pl)\<rparr>),
                rsrcs := (rsrcs st)(r \<mapsto>
                  \<lparr>pvFlag = False, r_pool = Some p, pcResName = Some req,
                   payload = helped (pxAllocHelper pl) pay\<rparr>)\<rparr>))))"

definition refused :: "rsrc_pool \<Rightarrow> string option \<Rightarrow> u64 \<Rightarrow> bool" where
  "refused pl req len =
    (req = None \<or> len = 0 \<or>
     uiMaxNumRes pl \<noteq> 0 \<and> unat (uiMaxNumRes pl) \<le> unat (uiNumInUse pl) + unat (uiNumFree pl) \<or>
     uxSizeEach pl \<noteq> 0 \<and> len \<noteq> uxSizeEach pl)"

definition pxRsrcVarAlloc ::
  "nat option \<Rightarrow> string option \<Rightarrow> u64 \<Rightarrow> heap \<Rightarrow> rsrc_state \<Rightarrow> (nat option \<times> rsrc_state) run" where
  "pxRsrcVarAlloc pp req len ha st =
    (case pp of None \<Rightarrow> Ret (None, st)
     | Some p \<Rightarrow>
         rbind (or_undef (pools st p)) (\<lambda>pl.
           if refused pl req len then Ret (None, st)
           else
             rbind (if pxFreelist pl = []
                    then prviRsrcAdd2Pool p (ucast (uiIncrement pl)) (privuxRsrcAlignUp (of_nat RSRC_HDR + len)) ha st
                    else Ret (1, st))
               (\<lambda>(n, st1). if n \<le> 0 then Ret (None, st1) else take_first p (the req) len st1)))"

definition pxRsrcAlloc ::
  "nat option \<Rightarrow> string option \<Rightarrow> heap \<Rightarrow> rsrc_state \<Rightarrow> (nat option \<times> rsrc_state) run" where
  "pxRsrcAlloc pp req ha st =
    (case pp of None \<Rightarrow> Ret (None, st)
     | Some p \<Rightarrow> rbind (or_undef (pools st p)) (\<lambda>pl. pxRsrcVarAlloc pp req (uxSizeEach pl) ha st))"

definition vRsrcFree :: "nat option \<Rightarrow> rsrc_state \<Rightarrow> rsrc_state run" where
  "vRsrcFree pv st =
    (case pv of None \<Rightarrow> Ret st
     | Some v \<Rightarrow>
         let r = v - RSRC_HDR in
         rbind (or_undef (rsrcs st r)) (\<lambda>rs.
         rbind (or_undef (r_pool rs)) (\<lambda>p.
         rbind (or_undef (pools st p)) (\<lambda>pl.
           if pvFlag rs then Abort
           else
             let st1 = st\<lparr>pools := (pools st)(p \<mapsto>
               pl\<lparr>xActive := remove1 r (xActive pl), uiNumInUse := uiNumInUse pl - 1\<rparr>)\<rparr> in
             if uiFreeOnFree pl then Ret (st1\<lparr>rsrcs := (rsrcs st1)(r := None)\<rparr>)
             else prvvFreeResTail p r True st1))))"

definition prviRsrcInitPool ::
  "nat \<Rightarrow> string \<Rightarrow> u64 \<Rightarrow> u32 \<Rightarrow> u32 \<Rightarrow> u32 \<Rightarrow> heap \<Rightarrow> rsrc_state \<Rightarrow> (int \<times> rsrc_state) run" where
  "prviRsrcInitPool p nm sz ini inc mx ha st =
    (let st1 = st\<lparr>rsrcPools := map_option ((#) p) (rsrcPools st),
       pools := (pools st)(p \<mapsto>
         \<lparr>pcName = nm, xActive = [], pxFreelist = [], pxAllocHelper = None, pxFreeHelper = None,
          ulTotalAllocs = 0, uxSizeEach = sz, uiIncrement = ucast inc,
          uiFreeOnFree = (sz = 0 \<or> inc \<le> 1 \<and> ini \<le> 1), uiMaxNumRes = ucast mx, uiNumInUse = 0,
          uiNumFree = 0, uiLowWater = ucast ini, uiHiWater = 0\<rparr>)\<rparr> in
     if ini \<noteq> 0 then prviRsrcAdd2Pool p ini (privuxRsrcAlignUp (of_nat RSRC_HDR + sz)) ha st1 else Ret (0, st1))"

text \<open>The pool structure is the payload of a resource of the pool of pools, so the pool lives at the
  address handed out.  \<open>ha1\<close>, \<open>ha2\<close> and \<open>ha3\<close> are the heap at the three places that may ask it for
  memory.\<close>

definition first_pool :: "heap \<Rightarrow> rsrc_state \<Rightarrow> (int \<times> rsrc_state) run" where
  "first_pool ha st =
    (if rsrcPools st = None
     then prviRsrcInitPool xRsrcPoolPool ''Pools'' POOL_SZ rsrcINIT_NUM_POOLS 1 0 ha (st\<lparr>rsrcPools := Some []\<rparr>)
     else Ret (1, st))"

definition pxRsrcNewPool ::
  "string option \<Rightarrow> u64 \<Rightarrow> u32 \<Rightarrow> u32 \<Rightarrow> u32 \<Rightarrow> heap \<Rightarrow> heap \<Rightarrow> heap \<Rightarrow> rsrc_state \<Rightarrow> (nat option \<times> rsrc_state) run" where
  "pxRsrcNewPool nm sz ini inc mx ha1 ha2 ha3 st =
    (if nm = None \<or> 0xFFFF < (ini OR inc OR mx) \<or> inc + ini = 0 then Abort
     else if sz = 0 \<and> (1 < ini \<or> 1 < inc) then Ret (None, st)
     else
       rbind (first_pool ha1 st) (\<lambda>(n1, st1).
         if n1 \<le> 0 then Ret (None, st1)
         else
           rbind (pxRsrcAlloc (Some xRsrcPoolPool) nm ha2 st1) (\<lambda>(q, st2).
             case q of None \<Rightarrow> Ret (None, st2)
             | Some p \<Rightarrow>
                 rbind (prviRsrcInitPool p (the nm) sz ini inc mx ha3 st2) (\<lambda>(n3, st3).
                   Ret (if n3 < 0 then None else Some p, st3)))))"

definition pxRsrcNewVarPool where
  "pxRsrcNewVarPool nm mx = pxRsrcNewPool nm 0 0 1 mx"

definition pxRsrcNewDynPool where
  "pxRsrcNewDynPool nm sz mx = pxRsrcNewPool nm sz 0 1 mx"

definition vRsrcRenameRsrc :: "nat \<Rightarrow> string option \<Rightarrow> rsrc_state \<Rightarrow> rsrc_state run" where
  "vRsrcRenameRsrc pv nm st =
    rbind (or_undef (rsrcs st (pv - RSRC_HDR))) (\<lambda>rs.
      Ret (st\<lparr>rsrcs := (rsrcs st)(pv - RSRC_HDR \<mapsto>
        rs\<lparr>pcResName := Some (case nm of None \<Rightarrow> ''(NULL)'' | Some s \<Rightarrow> s)\<rparr>)\<rparr>))"

section \<open>Alignment\<close>

lemma unat_and_7: "unat (s AND 7 :: u64) = unat s mod 8"
proof -
  have "(7 :: u64) = mask 3" by (simp add: mask_eq_exp_minus_1)
  then have "s AND 7 = take_bit 3 s" by (simp only: take_bit_eq_mask)
  then show ?thesis by (simp only: unsigned_take_bit_eq) (simp add: take_bit_eq_mod)
qed

lemma round_up_8:
  assumes "n mod 8 \<noteq> 0"
  shows "n + (8 - n mod 8) = (n + 7) div 8 * (8 :: nat)"
proof -
  have "(n + 7) div 8 = n div 8 + (n mod 8 + 7) div 8"
    using div_mult_self3 [of 8 "n div 8" "n mod 8 + 7"] by (simp add: add.assoc [symmetric])
  moreover have "(n mod 8 + 7) div 8 = 1" using assms by (intro div_nat_eqI) (simp_all add: Suc_le_eq)
  moreover have "n = n div 8 * 8 + n mod 8" "n mod 8 < 8" by simp_all
  ultimately show ?thesis by linarith
qed

lemma align_up_spec:
  assumes "unat s + 8 < 2 ^ 64"
  shows "unat (privuxRsrcAlignUp s) = (unat s + 7) div 8 * 8"
proof -
  have a: "privuxRsrcAlignUp s = (if s AND 7 \<noteq> 0 then s + (8 - (s AND 7)) else s)"
    by (simp add: privuxRsrcAlignUp_def rsrcRES_ALIGN_TO_def)
  have z: "(s AND 7 = 0) = (unat s mod 8 = 0)"
    using unat_and_7 [of s] by (simp add: unat_eq_0 [symmetric] del: unat_eq_0)
  show ?thesis
  proof (cases "unat s mod 8 = 0")
    case True
    then show ?thesis using z a by auto
  next
    case False
    have "s AND 7 \<le> 8" using unat_and_7 [of s] by (simp add: word_le_nat_alt)
    then have d: "unat (8 - (s AND 7) :: u64) = 8 - unat s mod 8"
      using unat_sub [of "s AND 7" 8] unat_and_7 [of s] by simp
    have "unat s + unat (8 - (s AND 7)) < 2 ^ LENGTH(64)" unfolding d using assms by simp
    from unat_add_lem [THEN iffD1, OF this]
    have "unat (s + (8 - (s AND 7))) = unat s + (8 - unat s mod 8)" unfolding d .
    moreover have "unat s + (8 - unat s mod 8) = (unat s + 7) div 8 * 8" by (rule round_up_8 [OF False])
    moreover have "s AND 7 \<noteq> 0" using False z by metis
    ultimately show ?thesis unfolding a by (simp only: if_True not_False_eq_True simp_thms)
  qed
qed

section \<open>Well-formedness\<close>

definition members :: "rsrc_pool \<Rightarrow> nat list" where
  "members pl = xActive pl @ pxFreelist pl"

text \<open>\<open>r\<close> is memory of the pool \<open>p\<close>, with room for its resource size.\<close>

definition rsrc_at :: "rsrc_state \<Rightarrow> nat \<Rightarrow> u64 \<Rightarrow> bool \<Rightarrow> nat \<Rightarrow> bool" where
  "rsrc_at st p sz free r =
    (\<exists>rs. rsrcs st r = Some rs \<and> pvFlag rs = free \<and> unat sz \<le> length (payload rs) \<and>
       (\<not> free \<longrightarrow> r_pool rs = Some p))"

definition helpers_ok :: "rsrc_pool \<Rightarrow> bool" where
  "helpers_ok pl =
    (\<forall>b. length (helped (pxAllocHelper pl) b) = length b \<and> length (helped (pxFreeHelper pl) b) = length b)"

definition pool_core :: "rsrc_state \<Rightarrow> nat \<Rightarrow> rsrc_pool \<Rightarrow> bool" where
  "pool_core st p pl =
    (distinct (members pl) \<and> length (members pl) < 2 ^ 16 \<and>
     unat (uiNumInUse pl) = length (xActive pl) \<and> unat (uiNumFree pl) = length (pxFreelist pl) \<and>
     list_all (rsrc_at st p (uxSizeEach pl) False) (xActive pl) \<and>
     list_all (rsrc_at st p (uxSizeEach pl) True) (pxFreelist pl) \<and> helpers_ok pl \<and>
     length (xActive pl) \<le> unat (uiHiWater pl))"

text \<open>A pool of resources of variable size keeps none on its free list.\<close>

definition var_ok :: "rsrc_pool \<Rightarrow> bool" where
  "var_ok pl = (uxSizeEach pl = 0 \<longrightarrow> pxFreelist pl = [] \<and> uiFreeOnFree pl \<and> uiIncrement pl \<le> 1)"

definition pool_ok :: "rsrc_state \<Rightarrow> nat \<Rightarrow> rsrc_pool \<Rightarrow> bool" where
  "pool_ok st p pl = (pool_core st p pl \<and> var_ok pl)"

definition rsrc_ok :: "rsrc_state \<Rightarrow> bool" where
  "rsrc_ok st =
    ((\<forall>p pl. pools st p = Some pl \<longrightarrow> pool_ok st p pl) \<and>
     (\<forall>p q pl ql. p \<noteq> q \<longrightarrow> pools st p = Some pl \<longrightarrow> pools st q = Some ql \<longrightarrow>
        set (members pl) \<inter> set (members ql) = {}))"

text \<open>The heap hands out blocks of the size asked for, away from the memory in use.\<close>

definition heap_ok :: "heap \<Rightarrow> rsrc_state \<Rightarrow> bool" where
  "heap_ok ha st =
    (\<forall>n b blk. ha n = Some (b, blk) \<longrightarrow>
       length blk = unat n \<and> (\<forall>r. b \<le> r \<and> r < b + unat n \<longrightarrow> rsrcs st r = None))"

text \<open>The parts of the state that no allocation or release touches.\<close>

definition same_conf :: "rsrc_state \<Rightarrow> rsrc_state \<Rightarrow> bool" where
  "same_conf st st' =
    (rsrcPools st' = rsrcPools st \<and> eRsrcClearResOnAlloc st' = eRsrcClearResOnAlloc st \<and>
     vRsrcOOMfn st' = vRsrcOOMfn st)"

lemma rsrc_okD:
  assumes "rsrc_ok st" "pools st p = Some pl"
  shows "pool_ok st p pl" "q \<noteq> p \<Longrightarrow> pools st q = Some ql \<Longrightarrow> set (members pl) \<inter> set (members ql) = {}"
  using assms unfolding rsrc_ok_def by blast+

lemma pool_ok_dom:
  assumes "pool_ok st p pl" "r \<in> set (members pl)"
  shows "rsrcs st r \<noteq> None"
  using assms by (fastforce simp: pool_ok_def pool_core_def members_def list_all_iff rsrc_at_def)

lemma rsrc_at_cong: "rsrcs st' r = rsrcs st r \<Longrightarrow> rsrc_at st' p sz f r = rsrc_at st p sz f r"
  by (simp add: rsrc_at_def)

lemma pool_ok_cong:
  assumes "\<And>r. r \<in> set (members pl) \<Longrightarrow> rsrcs st' r = rsrcs st r"
  shows "pool_ok st' p pl = pool_ok st p pl"
proof -
  have "list_all (rsrc_at st' p (uxSizeEach pl) f) xs = list_all (rsrc_at st p (uxSizeEach pl) f) xs"
    if "set xs \<subseteq> set (members pl)" for xs f
    by (rule list.pred_cong [OF refl], rule rsrc_at_cong, rule assms) (use that in blast)
  from this [of "xActive pl"] this [of "pxFreelist pl"] show ?thesis
    unfolding pool_ok_def pool_core_def members_def by simp
qed

lemma rsrc_ok_update:
  assumes ok: "rsrc_ok st"
    and ps: "pools st' = (pools st)(p \<mapsto> pl')" "pool_ok st' p pl'"
    and own: "\<And>q ql. q \<noteq> p \<Longrightarrow> pools st q = Some ql \<Longrightarrow>
      set (members pl') \<inter> set (members ql) = {} \<and> (\<forall>r \<in> set (members ql). rsrcs st' r = rsrcs st r)"
  shows "rsrc_ok st'"
  unfolding rsrc_ok_def
proof (intro conjI allI impI)
  fix q ql assume q: "pools st' q = Some ql"
  show "pool_ok st' q ql"
  proof (cases "q = p")
    case True
    then show ?thesis using q ps by simp
  next
    case False
    then have "pools st q = Some ql" using q ps(1) by simp
    then show ?thesis using own [OF False] rsrc_okD(1) [OF ok] pool_ok_cong [of ql st' st q] by blast
  qed
next
  fix q1 q2 l1 l2 assume a: "q1 \<noteq> q2" "pools st' q1 = Some l1" "pools st' q2 = Some l2"
  consider "q1 = p" "pools st q2 = Some l2" "l1 = pl'" | "q2 = p" "pools st q1 = Some l1" "l2 = pl'"
    | "pools st q1 = Some l1" "pools st q2 = Some l2"
    using a ps(1) by (cases "q1 = p"; cases "q2 = p") auto
  then show "set (members l1) \<inter> set (members l2) = {}"
  proof cases
    case 1
    then show ?thesis using own [of q2 l2] a(1) by blast
  next
    case 2
    then show ?thesis using own [of q1 l1] a(1) by blast
  next
    case 3
    then show ?thesis using rsrc_okD(2) [OF ok] a(1) by blast
  qed
qed

section \<open>What the operations do\<close>

lemma free_tail_spec:
  assumes "pools st p = Some pl" "rsrcs st r = Some rs" "unat (uxSizeEach pl) \<le> length (payload rs)"
    "call \<Longrightarrow> helpers_ok pl"
  obtains st' rs' where "prvvFreeResTail p r call st = Ret st'"
    "pools st' = (pools st)(p \<mapsto> pl\<lparr>pxFreelist := r # pxFreelist pl, uiNumFree := uiNumFree pl + 1\<rparr>)"
    "rsrcs st' = (rsrcs st)(r \<mapsto> rs')" "pvFlag rs'" "r_pool rs' = r_pool rs"
    "length (payload rs') = length (payload rs)" "same_conf st st'"
proof -
  define pay where "pay = (if call then helped (pxFreeHelper pl) (payload rs) else payload rs)"
  have "length pay = length (payload rs)" using assms(4) by (auto simp: pay_def helpers_ok_def)
  then obtain pay' where pay':
    "(if eRsrcClearResOnAlloc st = rsrcCLEAR_ON_BOTH \<and> uxSizeEach pl \<noteq> 0
      then or_undef (mem_set pay 0xFF (unat (uxSizeEach pl))) else Ret pay) = Ret pay'"
    "length pay' = length (payload rs)"
    using assms(3) by (cases "eRsrcClearResOnAlloc st = rsrcCLEAR_ON_BOTH \<and> uxSizeEach pl \<noteq> 0")
      (auto simp: mem_set_def)
  have e: "prvvFreeResTail p r call st = Ret
      (st\<lparr>pools := (pools st)(p \<mapsto> pl\<lparr>pxFreelist := r # pxFreelist pl, uiNumFree := uiNumFree pl + 1\<rparr>),
          rsrcs := (rsrcs st)(r \<mapsto> rs\<lparr>pvFlag := True, payload := pay'\<rparr>)\<rparr>)"
    unfolding prvvFreeResTail_def Let_def pay_def [symmetric] assms(1,2) or_undef_simps rbind.simps
      pay'(1) ..
  show thesis
    by (rule that [OF e, of "rs\<lparr>pvFlag := True, payload := pay'\<rparr>"])
      (use pay'(2) in \<open>simp_all add: same_conf_def\<close>)
qed

definition added :: "rsrc_state \<Rightarrow> nat \<Rightarrow> rsrc_pool \<Rightarrow> (nat \<times> bytes) list \<Rightarrow> rsrc_state \<Rightarrow> bool" where
  "added st p pl xs st' =
    (pools st' = (pools st)(p \<mapsto> pl\<lparr>pxFreelist := rev (List.map fst xs) @ pxFreelist pl,
      uiNumFree := uiNumFree pl + of_nat (length xs)\<rparr>) \<and>
    (\<forall>r. r \<notin> fst ` set xs \<longrightarrow> rsrcs st' r = rsrcs st r) \<and>
    (\<forall>x \<in> set xs. \<exists>rs. rsrcs st' (fst x) = Some rs \<and> pvFlag rs \<and> length (payload rs) = length (snd x)) \<and>
    same_conf st st')"

lemma add_loop_spec:
  assumes "pools st p = Some pl" "\<forall>x \<in> set xs. unat (uxSizeEach pl) \<le> length (snd x)" "distinct (List.map fst xs)"
  shows "\<exists>st'. add_loop p xs st = Ret st' \<and> added st p pl xs st'"
  using assms
proof (induction xs arbitrary: st pl)
  case Nil
  then show ?case by (auto simp: same_conf_def added_def)
next
  case (Cons x xs)
  obtain r pay where x: "x = (r, pay)" by (cases x)
  let ?st = "st\<lparr>rsrcs := (rsrcs st)(r \<mapsto> new_rsrc pay)\<rparr>"
  let ?pl = "pl\<lparr>pxFreelist := r # pxFreelist pl, uiNumFree := uiNumFree pl + 1\<rparr>"
  obtain st1 rs1 where 1: "prvvFreeResTail p r False ?st = Ret st1" "pools st1 = (pools ?st)(p \<mapsto> ?pl)"
    "rsrcs st1 = (rsrcs ?st)(r \<mapsto> rs1)" "pvFlag rs1" "length (payload rs1) = length pay" "same_conf ?st st1"
    by (rule free_tail_spec [of ?st p pl r "new_rsrc pay" False]) (use Cons.prems x in \<open>auto simp: new_rsrc_def\<close>)
  have "\<exists>st2. add_loop p xs st1 = Ret st2 \<and> added st1 p ?pl xs st2"
    by (rule Cons.IH) (use Cons.prems 1(2) in auto)
  then obtain st2 where 2: "add_loop p xs st1 = Ret st2" "added st1 p ?pl xs st2" by blast
  have "r \<notin> fst ` set xs" using Cons.prems(3) x by simp
  then have "added st p pl (x # xs) st2"
    using 2(2) 1 x by (auto simp: added_def same_conf_def add.assoc)
  then show ?case using 1(1) 2(1) x by auto
qed

lemma carve_addr: "List.map fst (carve base blk sz cnt) = List.map (\<lambda>i. base + i * sz) [0 ..< cnt]"
  by (simp add: carve_def comp_def)

lemma carve_distinct: "0 < sz \<Longrightarrow> distinct (List.map fst (carve base blk sz cnt))"
  unfolding carve_addr by (simp add: distinct_map inj_on_def)

lemma carve_payload:
  assumes "x \<in> set (carve base blk sz cnt)" "length blk = cnt * sz"
  shows "length (snd x) = sz - RSRC_HDR" "base \<le> fst x" "0 < sz \<Longrightarrow> fst x < base + cnt * sz"
proof -
  obtain i where i: "i < cnt" "x = (base + i * sz, take (sz - RSRC_HDR) (drop (i * sz + RSRC_HDR) blk))"
    using assms(1) by (auto simp: carve_def)
  have "Suc i * sz \<le> cnt * sz" using i(1) by (intro mult_le_mono1) simp
  then show "length (snd x) = sz - RSRC_HDR" "base \<le> fst x" "0 < sz \<Longrightarrow> fst x < base + cnt * sz"
    using i assms(2) by auto
qed

text \<open>Adding \<open>cnt\<close> resources of \<open>sz\<close> bytes to a pool.\<close>

lemma add2_spec:
  assumes p: "pools st p = Some pl" and ha: "ha (ucast cnt * sz) = Some (base, blk)" "heap_ok ha st"
    and c: "cnt \<noteq> 0" "unat cnt * unat sz < 2 ^ 64" "RSRC_HDR + unat (uxSizeEach pl) \<le> unat sz"
  obtains st' lw where "prviRsrcAdd2Pool p cnt sz ha st = Ret (uint cnt, st')"
    "pools st' = (pools st)(p \<mapsto> pl\<lparr>uiLowWater := lw,
       pxFreelist := rev (List.map (\<lambda>i. base + i * unat sz) [0 ..< unat cnt]) @ pxFreelist pl,
       uiNumFree := uiNumFree pl + of_nat (unat cnt)\<rparr>)"
    "\<forall>r. r \<notin> (\<lambda>i. base + i * unat sz) ` {0 ..< unat cnt} \<longrightarrow> rsrcs st' r = rsrcs st r"
    "\<forall>i < unat cnt. rsrcs st (base + i * unat sz) = None \<and>
       (\<exists>rs. rsrcs st' (base + i * unat sz) = Some rs \<and> pvFlag rs \<and> length (payload rs) = unat sz - RSRC_HDR)"
    "same_conf st st'"
proof -
  have "unat (ucast cnt :: u64) = unat cnt" by (rule unat_ucast_up) simp
  moreover from this have "unat (ucast cnt :: u64) * unat sz < 2 ^ LENGTH(64)" using c(2) by simp
  ultimately have n: "unat (ucast cnt * sz :: u64) = unat cnt * unat sz"
    using unat_mult_lem [THEN iffD1, of "ucast cnt :: u64" sz] by argo
  have blk: "length blk = unat cnt * unat sz"
    "\<And>r. base \<le> r \<Longrightarrow> r < base + unat cnt * unat sz \<Longrightarrow> rsrcs st r = None"
    using ha n by (auto simp: heap_ok_def)
  have sz: "0 < unat sz" using c(3) by (simp add: RSRC_HDR_def)
  define xs where "xs = carve base blk (unat sz) (unat cnt)"
  define lw where "lw = (if unat (uiNumInUse pl) + unat (uiNumFree pl) = 0 then ucast cnt else uiLowWater pl)"
  let ?pl = "pl\<lparr>uiLowWater := lw\<rparr>"
  define st0 where "st0 = (if unat (uiNumInUse pl) + unat (uiNumFree pl) = 0
    then st\<lparr>pools := (pools st)(p \<mapsto> pl\<lparr>uiLowWater := ucast cnt\<rparr>)\<rparr> else st)"
  have st0: "pools st0 = (pools st)(p \<mapsto> ?pl)" "rsrcs st0 = rsrcs st" "same_conf st st0"
    using p by (auto simp: st0_def lw_def same_conf_def fun_eq_iff)
  have a: "fst ` set xs = (\<lambda>i. base + i * unat sz) ` {0 ..< unat cnt}" "length xs = unat cnt"
    "List.map fst xs = List.map (\<lambda>i. base + i * unat sz) [0 ..< unat cnt]"
    by (auto simp: xs_def carve_def comp_def image_image)
  have "\<exists>st'. add_loop p xs st0 = Ret st' \<and> added st0 p ?pl xs st'"
    by (rule add_loop_spec) (use st0(1) carve_payload(1) [OF _ blk(1)] c(3) carve_distinct [OF sz]
      in \<open>auto simp: xs_def\<close>)
  then obtain st' where st': "add_loop p xs st0 = Ret st'"
    "pools st' = (pools st0)(p \<mapsto> ?pl\<lparr>pxFreelist := rev (List.map fst xs) @ pxFreelist ?pl,
       uiNumFree := uiNumFree ?pl + of_nat (length xs)\<rparr>)"
    "\<forall>r. r \<notin> fst ` set xs \<longrightarrow> rsrcs st' r = rsrcs st0 r"
    "\<forall>x \<in> set xs. \<exists>rs. rsrcs st' (fst x) = Some rs \<and> pvFlag rs \<and> length (payload rs) = length (snd x)"
    "same_conf st0 st'"
    unfolding added_def by blast
  have e: "prviRsrcAdd2Pool p cnt sz ha st = Ret (uint cnt, st')"
    using c(1) ha(1) p st'(1) by (simp add: prviRsrcAdd2Pool_def st0_def xs_def)
  have "\<forall>i < unat cnt. rsrcs st (base + i * unat sz) = None \<and>
       (\<exists>rs. rsrcs st' (base + i * unat sz) = Some rs \<and> pvFlag rs \<and> length (payload rs) = unat sz - RSRC_HDR)"
  proof (intro allI impI)
    fix i assume "i < unat cnt"
    then have "base + i * unat sz \<in> fst ` set xs" unfolding a by auto
    then obtain x where x: "x \<in> set xs" "base + i * unat sz = fst x" by auto
    then show "rsrcs st (base + i * unat sz) = None \<and>
       (\<exists>rs. rsrcs st' (base + i * unat sz) = Some rs \<and> pvFlag rs \<and> length (payload rs) = unat sz - RSRC_HDR)"
      using st'(4) carve_payload [OF _ blk(1), of x base] blk(2) sz unfolding xs_def by fastforce
  qed
  moreover have "same_conf st st'" using st0(3) st'(5) by (simp add: same_conf_def)
  ultimately show thesis
    using that [of st' lw] e st'(2,3) st0 a by auto
qed

section \<open>Handing out\<close>

definition active :: "rsrc_state \<Rightarrow> nat \<Rightarrow> nat list" where
  "active st p = (case pools st p of None \<Rightarrow> [] | Some pl \<Rightarrow> xActive pl)"

definition idle :: "rsrc_state \<Rightarrow> nat \<Rightarrow> nat list" where
  "idle st p = (case pools st p of None \<Rightarrow> [] | Some pl \<Rightarrow> pxFreelist pl)"

text \<open>\<open>r\<close>, which nobody holds in \<open>st\<close>, is handed out by the pool \<open>p\<close> with \<open>len\<close> bytes of room,
  zeroed if the allocator clears and no helper writes to it.\<close>

definition handed :: "rsrc_state \<Rightarrow> nat \<Rightarrow> u64 \<Rightarrow> nat \<Rightarrow> rsrc_state \<Rightarrow> bool" where
  "handed st p len r st' =
    (rsrc_ok st' \<and> same_conf st st' \<and> active st' p = r # active st p \<and>
     (\<forall>q. r \<notin> set (active st q)) \<and> (\<forall>q. q \<noteq> p \<longrightarrow> pools st' q = pools st q) \<and>
     (idle st p \<noteq> [] \<longrightarrow> idle st p = r # idle st' p) \<and>
     (\<exists>rs pl. rsrcs st' r = Some rs \<and> r_pool rs = Some p \<and> unat len \<le> length (payload rs) \<and>
        pools st p = Some pl \<and>
        (eRsrcClearResOnAlloc st \<noteq> rsrcNOCLEAR \<and> pxAllocHelper pl = None \<longrightarrow>
           take (unat len) (payload rs) = replicate (unat len) 0)) \<and>
     (\<forall>q. \<forall>x \<in> set (active st q). rsrcs st' x = rsrcs st x))"

lemma take_first_spec:
  assumes p: "pools st p = Some pl" "pxFreelist pl = r # fs" "rsrcs st r = Some rs"
    and len: "unat len \<le> length (payload rs)" "helpers_ok pl"
  obtains st' rs' pl' where "take_first p req len st = Ret (Some (r + RSRC_HDR), st')"
    "pools st' = (pools st)(p \<mapsto> pl')" "rsrcs st' = (rsrcs st)(r \<mapsto> rs')" "same_conf st st'"
    "pxFreelist pl' = fs" "uiNumFree pl' = uiNumFree pl - 1" "xActive pl' = r # xActive pl"
    "uiNumInUse pl' = uiNumInUse pl + 1" "uiHiWater pl' = (if uiHiWater pl < uiNumInUse pl + 1 then uiNumInUse pl + 1 else uiHiWater pl)"
    "uxSizeEach pl' = uxSizeEach pl" "uiFreeOnFree pl' = uiFreeOnFree pl" "uiIncrement pl' = uiIncrement pl" "helpers_ok pl'"
    "\<not> pvFlag rs'" "r_pool rs' = Some p" "length (payload rs') = length (payload rs)"
    "eRsrcClearResOnAlloc st \<noteq> rsrcNOCLEAR \<and> pxAllocHelper pl = None \<longrightarrow>
       take (unat len) (payload rs') = replicate (unat len) 0"
proof -
  obtain pay where pay: "(if eRsrcClearResOnAlloc st \<noteq> rsrcNOCLEAR
      then or_undef (mem_set (payload rs) 0 (unat len)) else Ret (payload rs)) = Ret pay"
    "length pay = length (payload rs)"
    "eRsrcClearResOnAlloc st \<noteq> rsrcNOCLEAR \<longrightarrow> take (unat len) pay = replicate (unat len) 0"
    using len(1) by (cases "eRsrcClearResOnAlloc st \<noteq> rsrcNOCLEAR") (auto simp: mem_set_def)
  define pl' where "pl' = pl\<lparr>pxFreelist := fs, uiNumFree := uiNumFree pl - 1,
    uiLowWater := (if uiNumFree pl - 1 < uiLowWater pl then uiNumFree pl - 1 else uiLowWater pl),
    ulTotalAllocs := ulTotalAllocs pl + 1, xActive := r # xActive pl, uiNumInUse := uiNumInUse pl + 1,
    uiHiWater := (if uiHiWater pl < uiNumInUse pl + 1 then uiNumInUse pl + 1 else uiHiWater pl)\<rparr>"
  define rs' where "rs' = \<lparr>pvFlag = False, r_pool = Some p, pcResName = Some req,
    payload = helped (pxAllocHelper pl) pay\<rparr>"
  have e: "take_first p req len st =
      Ret (Some (r + RSRC_HDR), st\<lparr>pools := (pools st)(p \<mapsto> pl'), rsrcs := (rsrcs st)(r \<mapsto> rs')\<rparr>)"
    unfolding take_first_def Let_def p or_undef_simps rbind.simps list.case pay(1) pl'_def rs'_def ..
  show thesis
    by (rule that [OF e, of pl' rs'])
      (use pay len(2) in \<open>auto simp: pl'_def rs'_def same_conf_def helpers_ok_def helped_def\<close>)
qed

text \<open>The invariant after a hand-out, from the pool as it was before the hand-out, possibly
  just refilled.\<close>

lemma pool_ok_taken:
  assumes "pool_core st1 p pl" "pxFreelist pl = r # fs" "pools st' = (pools st1)(p \<mapsto> pl')"
    "rsrcs st' = (rsrcs st1)(r \<mapsto> rs')" "pxFreelist pl' = fs" "uiNumFree pl' = uiNumFree pl - 1"
    "xActive pl' = r # xActive pl" "uiNumInUse pl' = uiNumInUse pl + 1"
    "uiHiWater pl' = (if uiHiWater pl < uiNumInUse pl + 1 then uiNumInUse pl + 1 else uiHiWater pl)"
    "uxSizeEach pl' = uxSizeEach pl" "helpers_ok pl'" "\<not> pvFlag rs'" "r_pool rs' = Some p"
    "unat (uxSizeEach pl) \<le> length (payload rs')"
    "var_ok pl'"
  shows "pool_ok st' p pl'"
proof -
  note k = assms(1) [unfolded pool_core_def]
  have m: "length (xActive pl) + 1 < 2 ^ 16" using k assms(2) by (simp add: members_def)
  then have iu: "unat (uiNumInUse pl + 1) = length (xActive pl) + 1"
    using unat_add_1_bound [of "uiNumInUse pl" "2 ^ 16 - 1"] k by simp
  have "uiNumFree pl \<noteq> 0" using k assms(2) by auto
  then have nf: "unat (uiNumFree pl - 1) = length fs" using k assms(2) by (simp add: unat_minus_one)
  have hw: "length (xActive pl) + 1 \<le> unat (uiHiWater pl')"
    unfolding assms(9) using iu k by (auto simp: word_less_nat_alt split: if_splits)
  have a: "list_all (rsrc_at st' p (uxSizeEach pl') False) (xActive pl')"
    using k assms by (auto simp: list_all_iff rsrc_at_def members_def)
  have f: "list_all (rsrc_at st' p (uxSizeEach pl') True) fs"
    using k assms(2,4,10) by (auto simp: list_all_iff rsrc_at_def members_def)
  have d: "distinct (members pl')" "length (members pl') < 2 ^ 16"
    using k assms(2,5,7) by (auto simp: members_def)
  show ?thesis
    using a f d hw iu nf assms(5-8,11,15) by (simp add: pool_ok_def pool_core_def)
qed

lemma handed_by_take:
  assumes ok: "rsrc_ok st" "pools st p = Some pl"
    and st1: "pools st1 = (pools st)(p \<mapsto> pl1)" "same_conf st st1" "pool_core st1 p pl1"
      "pxFreelist pl1 = r # fs" "xActive pl1 = xActive pl" "uxSizeEach pl1 = uxSizeEach pl"
      "pxAllocHelper pl1 = pxAllocHelper pl" "uxSizeEach pl = 0 \<longrightarrow> fs = [] \<and> uiFreeOnFree pl1 \<and> uiIncrement pl1 \<le> 1"
    and room: "\<exists>rs. rsrcs st1 r = Some rs \<and> unat len \<le> length (payload rs) \<and> unat (uxSizeEach pl) \<le> length (payload rs)"
    and mem: "\<And>x. x \<in> set (members pl1) \<Longrightarrow> x \<in> set (members pl) \<or> rsrcs st x = None"
      "\<And>x. rsrcs st x \<noteq> None \<Longrightarrow> rsrcs st1 x = rsrcs st x"
    and fr: "pxFreelist pl \<noteq> [] \<longrightarrow> pxFreelist pl = r # fs" "pxFreelist pl = [] \<longrightarrow> rsrcs st r = None"
  shows "\<exists>st'. take_first p req len st1 = Ret (Some (r + RSRC_HDR), st') \<and> handed st p len r st'"
proof -
  note k = rsrc_okD [OF ok]
  obtain rs where rs: "rsrcs st1 r = Some rs" "unat len \<le> length (payload rs)"
    "unat (uxSizeEach pl) \<le> length (payload rs)" using room by blast
  have p1: "pools st1 p = Some pl1" using st1(1) by simp
  have h: "helpers_ok pl1" using st1(3) by (simp add: pool_core_def)
  obtain st' rs' pl' where t: "take_first p req len st1 = Ret (Some (r + RSRC_HDR), st')"
    "pools st' = (pools st1)(p \<mapsto> pl')" "rsrcs st' = (rsrcs st1)(r \<mapsto> rs')" "same_conf st1 st'"
    "pxFreelist pl' = fs" "uiNumFree pl' = uiNumFree pl1 - 1" "xActive pl' = r # xActive pl1"
    "uiNumInUse pl' = uiNumInUse pl1 + 1"
    "uiHiWater pl' = (if uiHiWater pl1 < uiNumInUse pl1 + 1 then uiNumInUse pl1 + 1 else uiHiWater pl1)"
    "uxSizeEach pl' = uxSizeEach pl1" "uiFreeOnFree pl' = uiFreeOnFree pl1" "uiIncrement pl' = uiIncrement pl1"
    "helpers_ok pl'" "\<not> pvFlag rs'" "r_pool rs' = Some p" "length (payload rs') = length (payload rs)"
    "eRsrcClearResOnAlloc st1 \<noteq> rsrcNOCLEAR \<and> pxAllocHelper pl1 = None \<longrightarrow>
       take (unat len) (payload rs') = replicate (unat len) 0"
    by (rule take_first_spec [OF p1 st1(4) rs(1,2) h])
  have v: "var_ok pl'" using t(5,10,11,12) st1(6,8) by (auto simp: var_ok_def)
  have ok': "pool_ok st' p pl'"
    by (rule pool_ok_taken [OF st1(3,4) t(2,3,5-10,13-15) _ v]) (use rs t(16) st1(6) in auto)
  have sub: "set (members pl') \<subseteq> set (members pl1)" using t(5,7) st1(4) by (auto simp: members_def)
  have other: "set (members pl') \<inter> set (members ql) = {} \<and> (\<forall>x \<in> set (members ql). rsrcs st' x = rsrcs st x)"
    if q: "q \<noteq> p" "pools st q = Some ql" for q ql
  proof -
    have d: "rsrcs st x \<noteq> None" if "x \<in> set (members ql)" for x
      by (rule pool_ok_dom [OF rsrc_okD(1) [OF ok(1) q(2)] that])
    have j: "x \<notin> set (members pl1)" if "x \<in> set (members ql)" for x
      using mem(1) [of x] d [OF that] k(2) [OF q] that by blast
    moreover have "r \<in> set (members pl1)" using st1(4) by (simp add: members_def)
    ultimately have "rsrcs st' x = rsrcs st x" if "x \<in> set (members ql)" for x
      using t(3) mem(2) [OF d [OF that]] j [OF that] by auto
    then show ?thesis using j sub by blast
  qed
  have "rsrc_ok st'"
    by (rule rsrc_ok_update [OF ok(1), of st' p pl']) (use t(2) st1(1) ok' other in auto)
  moreover have act: "active st' p = r # active st p" "active st p = xActive pl"
    using t(2,7) st1(5) ok(2) by (simp_all add: active_def)
  moreover have r: "r \<notin> set (xActive pl)" using st1(3,4,5) by (auto simp: pool_core_def members_def)
  moreover have nq: "r \<notin> set (active st q)" for q
  proof (cases "q = p \<or> pools st q = None")
    case True
    then show ?thesis using r act ok(2) by (auto simp: active_def)
  next
    case False
    then obtain ql where "q \<noteq> p" "pools st q = Some ql" by auto
    moreover from this have "set (members pl') \<inter> set (members ql) = {}" using other by blast
    ultimately show ?thesis using t(7) by (auto simp: active_def members_def)
  qed
  moreover have "rsrcs st' x = rsrcs st x" if x: "x \<in> set (active st q)" for q x
  proof -
    obtain ql where q: "pools st q = Some ql" "x \<in> set (xActive ql)"
      using x by (cases "pools st q") (auto simp: active_def)
    have "rsrcs st x \<noteq> None"
      by (rule pool_ok_dom [OF rsrc_okD(1) [OF ok(1) q(1)]]) (use q(2) in \<open>simp add: members_def\<close>)
    moreover have "x \<noteq> r" using nq [of q] x by blast
    ultimately show ?thesis using t(3) mem(2) by simp
  qed
  moreover have "idle st p \<noteq> [] \<longrightarrow> idle st p = r # idle st' p"
    using fr(1) t(2,5) ok(2) by (simp add: idle_def)
  ultimately have "handed st p len r st'"
    using t st1 ok(2) rs(2) by (auto simp: handed_def same_conf_def)
  then show ?thesis using t(1) by blast
qed

definition block_size :: "u64 \<Rightarrow> u64" where
  "block_size len = privuxRsrcAlignUp (of_nat RSRC_HDR + len)"

lemma block_size_spec:
  assumes "unat len < 2 ^ 47"
  shows "unat (block_size len) = (unat len + 39) div 8 * 8"
    "RSRC_HDR + unat len \<le> unat (block_size len)" "unat (block_size len) < 2 ^ 47 + 40"
proof -
  have h: "unat (of_nat RSRC_HDR + len :: u64) = 32 + unat len"
    using assms by (simp add: RSRC_HDR_def unat_word_ariths)
  have "unat (block_size len) = (unat (of_nat RSRC_HDR + len :: u64) + 7) div 8 * 8"
    unfolding block_size_def by (rule align_up_spec) (use h assms in simp)
  moreover have "32 + unat len + 7 = unat len + 39" by simp
  ultimately show e: "unat (block_size len) = (unat len + 39) div 8 * 8" unfolding h by metis
  have "n + 32 \<le> (n + 39) div 8 * 8 \<and> (n + 39) div 8 * 8 \<le> n + 39" for n :: nat
  proof -
    define a b where "a = (n + 39) div 8" and "b = (n + 39) mod 8"
    have "b + 8 * a = n + 39" "b < 8" unfolding a_def b_def by (simp_all only: mod_mult_div_eq mod_less_divisor zero_less_numeral)
    then have "n + 32 \<le> a * 8 \<and> a * 8 \<le> n + 39" by linarith
    then show ?thesis unfolding a_def .
  qed
  note r = this [of "unat len"]
  show "RSRC_HDR + unat len \<le> unat (block_size len)"
    unfolding e RSRC_HDR_def using r by (metis add.commute)
  show "unat (block_size len) < 2 ^ 47 + 40"
    by (rule le_less_trans [of _ "unat len + 39"]) (use r e assms in \<open>metis, simp\<close>)
qed

lemma rev_addrs:
  assumes "0 < n"
  shows "rev (List.map (\<lambda>i. b + i * s) [0 ..< n]) =
    (b + (n - 1) * s) # rev (List.map (\<lambda>i. b + i * s) [0 ..< n - 1])"
  using assms by (cases n) simp_all

lemma unat_ucast_u16_u32: "unat (ucast (x :: u16) :: u32) = unat x"
  by (rule unat_ucast_up) simp

lemma refill:
  assumes ok: "rsrc_ok st" "pools st p = Some pl" "pxFreelist pl = []" "uiIncrement pl \<noteq> 0"
    and len: "unat len < 2 ^ 47" "uxSizeEach pl = 0 \<or> len = uxSizeEach pl"
    and heap: "heap_ok ha st" "ha (ucast (ucast (uiIncrement pl) :: u32) * block_size len) = Some (base, blk)"
    and sz: "length (members pl) + unat (uiIncrement pl) < 2 ^ 16"
  shows "\<exists>st1 n r st'. prviRsrcAdd2Pool p (ucast (uiIncrement pl)) (block_size len) ha st = Ret (n, st1) \<and> 0 < n \<and>
    take_first p req len st1 = Ret (Some (r + RSRC_HDR), st') \<and> handed st p len r st'"
proof -
  note b = block_size_spec [OF len(1)]
  let ?c = "ucast (uiIncrement pl) :: u32" and ?s = "unat (block_size len)"
  let ?n = "unat (uiIncrement pl)"
  have pk: "pool_core st p pl" "var_ok pl" using rsrc_okD(1) [OF ok(1,2)] by (simp_all add: pool_ok_def)
  have c: "unat ?c = ?n" "?c \<noteq> 0" "0 < ?n"
  proof -
    show "unat ?c = ?n" by (rule unat_ucast_u16_u32)
    moreover show "0 < ?n" using ok(4) by (simp add: unat_gt_0)
    ultimately show "?c \<noteq> 0" by (metis less_irrefl unat_0)
  qed
  have "?n < 2 ^ 16" using sz by simp
  then have m: "unat ?c * ?s < 2 ^ 64"
    using c(1) b(3) mult_strict_mono' [of ?n "2 ^ 16" ?s "2 ^ 47 + 40"] by simp
  have u: "unat (uxSizeEach pl) \<le> unat len" using len(2) by auto
  obtain st1 lw where a: "prviRsrcAdd2Pool p ?c (block_size len) ha st = Ret (uint ?c, st1)"
    "pools st1 = (pools st)(p \<mapsto> pl\<lparr>uiLowWater := lw,
       pxFreelist := rev (List.map (\<lambda>i. base + i * ?s) [0 ..< unat ?c]) @ pxFreelist pl,
       uiNumFree := uiNumFree pl + of_nat (unat ?c)\<rparr>)"
    "\<forall>r. r \<notin> (\<lambda>i. base + i * ?s) ` {0 ..< unat ?c} \<longrightarrow> rsrcs st1 r = rsrcs st r"
    "\<forall>i < unat ?c. rsrcs st (base + i * ?s) = None \<and>
       (\<exists>rs. rsrcs st1 (base + i * ?s) = Some rs \<and> pvFlag rs \<and> length (payload rs) = ?s - RSRC_HDR)"
    "same_conf st st1"
    by (rule add2_spec [OF ok(2) heap(2,1) c(2) m]) (use u b(2) in auto)
  define addrs where "addrs = rev (List.map (\<lambda>i. base + i * ?s) [0 ..< ?n])"
  define pl1 where "pl1 = pl\<lparr>uiLowWater := lw, pxFreelist := addrs, uiNumFree := uiNumFree pl + of_nat ?n\<rparr>"
  have p1: "pools st1 = (pools st)(p \<mapsto> pl1)" using a(2) ok(3) c(1) by (simp add: pl1_def addrs_def)
  define r where "r = base + (?n - 1) * ?s"
  define fs where "fs = rev (List.map (\<lambda>i. base + i * ?s) [0 ..< ?n - 1])"
  have rf: "addrs = r # fs" unfolding addrs_def r_def fs_def by (rule rev_addrs [OF c(3)])
  have new: "rsrcs st x = None" "\<exists>rs. rsrcs st1 x = Some rs \<and> pvFlag rs \<and> unat len \<le> length (payload rs)"
    if x: "x \<in> set addrs" for x
  proof -
    obtain i where "i < unat ?c" "x = base + i * ?s" using x c(1) by (auto simp: addrs_def)
    then show "rsrcs st x = None" "\<exists>rs. rsrcs st1 x = Some rs \<and> pvFlag rs \<and> unat len \<le> length (payload rs)"
      using a(4) b(2) by fastforce+
  qed
  have old: "rsrcs st1 x = rsrcs st x" if "rsrcs st x \<noteq> None" for x
    using that a(3,4) by (metis (no_types, lifting) atLeastLessThan_iff imageE)
  have "0 < ?s" using b(2) by (simp add: RSRC_HDR_def)
  then have dist: "distinct addrs" by (simp add: addrs_def distinct_map inj_on_def)
  have la: "length addrs = ?n" by (simp add: addrs_def)
  have act: "rsrcs st x \<noteq> None" if "x \<in> set (xActive pl)" for x
    by (rule pool_ok_dom [OF rsrc_okD(1) [OF ok(1,2)]]) (use that in \<open>simp add: members_def\<close>)
  then have "set (xActive pl) \<inter> set addrs = {}" using new(1) by blast
  then have md: "distinct (members pl1)" "length (members pl1) < 2 ^ 16"
    using pk(1) ok(3) dist sz la by (auto simp: members_def pl1_def pool_core_def)
  have "unat (uiNumFree pl) = 0" using pk(1) ok(3) by (simp add: pool_core_def)
  then have "uiNumFree pl = 0" by (metis unat_0 word_unat_eq_iff)
  then have nf: "unat (uiNumFree pl + of_nat ?n) = ?n" by simp
  have ra: "list_all (rsrc_at st1 p (uxSizeEach pl) False) (xActive pl)"
    using pk(1) act old by (auto simp: pool_core_def list_all_iff rsrc_at_def)
  have rn: "list_all (rsrc_at st1 p (uxSizeEach pl) True) addrs"
    using new(2) u by (fastforce simp: list_all_iff rsrc_at_def)
  have core: "pool_core st1 p pl1"
    using md nf ra rn pk(1) la by (simp add: pool_core_def pl1_def helpers_ok_def)
  have one: "uxSizeEach pl = 0 \<longrightarrow> fs = [] \<and> uiFreeOnFree pl1 \<and> uiIncrement pl1 \<le> 1"
    using pk(2) by (auto simp: var_ok_def fs_def pl1_def word_le_nat_alt)
  have "\<exists>st'. take_first p req len st1 = Ret (Some (r + RSRC_HDR), st') \<and> handed st p len r st'"
  proof (rule handed_by_take [OF ok(1,2) p1 a(5) core _ _ _ _ one])
    show "pxFreelist pl1 = r # fs" "xActive pl1 = xActive pl" "uxSizeEach pl1 = uxSizeEach pl"
      "pxAllocHelper pl1 = pxAllocHelper pl" using rf by (simp_all add: pl1_def)
    show "\<exists>rs. rsrcs st1 r = Some rs \<and> unat len \<le> length (payload rs) \<and> unat (uxSizeEach pl) \<le> length (payload rs)"
      using new(2) [of r] rf u by fastforce
    show "x \<in> set (members pl) \<or> rsrcs st x = None" if "x \<in> set (members pl1)" for x
      using that new(1) by (auto simp: members_def pl1_def)
    show "rsrcs st1 x = rsrcs st x" if "rsrcs st x \<noteq> None" for x by (rule old [OF that])
    show "pxFreelist pl \<noteq> [] \<longrightarrow> pxFreelist pl = r # fs" using ok(3) by simp
    show "pxFreelist pl = [] \<longrightarrow> rsrcs st r = None" using new(1) [of r] rf by simp
  qed
  moreover have "0 < uint ?c" using c(2) by (simp add: word_neq_0_conv word_less_def)
  ultimately show ?thesis using a(1) by blast
qed

text \<open>\<^verbatim>\<open>pxRsrcVarAlloc\<close> on every branch.  A request the pool refuses, or one that finds no free
  resource in a pool that does not grow, leaves everything as it is and gets \<^verbatim>\<open>NULL\<close>; a heap that
  has no memory aborts unless an out-of-memory function is set; otherwise the caller gets a
  resource that nobody holds, with the room it asked for, zeroed, and every pool is well formed
  again, the first of the free list being used before the heap is asked.\<close>
theorem rsrc_alloc:
  assumes ok: "rsrc_ok st" "pools st p = Some pl" and heap: "heap_ok ha st"
    and len: "unat len < 2 ^ 47" and sz: "length (members pl) + unat (uiIncrement pl) < 2 ^ 16"
  shows "if refused pl req len \<or> pxFreelist pl = [] \<and> uiIncrement pl = 0
    then pxRsrcVarAlloc (Some p) req len ha st = Ret (None, st)
    else if pxFreelist pl = [] \<and> ha (ucast (ucast (uiIncrement pl) :: u32) * block_size len) = None
    then pxRsrcVarAlloc (Some p) req len ha st = (if vRsrcOOMfn st then Ret (None, st) else Abort)
    else \<exists>r st'. pxRsrcVarAlloc (Some p) req len ha st = Ret (Some (r + RSRC_HDR), st') \<and> handed st p len r st'"
proof -
  let ?c = "ucast (uiIncrement pl) :: u32"
  have c0: "(?c = 0) = (uiIncrement pl = 0)"
    using unat_ucast_u16_u32 [of "uiIncrement pl"] by (metis unat_0 word_unat_eq_iff)
  have pk: "pool_core st p pl" "var_ok pl" using rsrc_okD(1) [OF ok] by (simp_all add: pool_ok_def)
  consider (no) "refused pl req len" | (take) r fs where "\<not> refused pl req len" "pxFreelist pl = r # fs"
    | (grow) "\<not> refused pl req len" "pxFreelist pl = []"
    by (cases "pxFreelist pl") auto
  then show ?thesis
  proof cases
    case no
    then show ?thesis using ok(2) by (simp add: pxRsrcVarAlloc_def)
  next
    case take
    have "\<exists>st'. take_first p (the req) len st = Ret (Some (r + RSRC_HDR), st') \<and> handed st p len r st'"
    proof (rule handed_by_take [OF ok _ _ pk(1) take(2)])
      have "uxSizeEach pl \<noteq> 0" using pk(2) take(2) by (auto simp: var_ok_def)
      moreover have "rsrc_at st p (uxSizeEach pl) True r"
        using pk(1) take(2) by (simp add: pool_core_def)
      ultimately show "\<exists>rs. rsrcs st r = Some rs \<and> unat len \<le> length (payload rs) \<and>
          unat (uxSizeEach pl) \<le> length (payload rs)" "uxSizeEach pl = 0 \<longrightarrow> fs = [] \<and> uiFreeOnFree pl \<and> uiIncrement pl \<le> 1"
        using take(1) by (auto simp: rsrc_at_def refused_def)
    qed (use ok(2) take(2) in \<open>auto simp: same_conf_def\<close>)
    then show ?thesis using take ok(2) by (auto simp: pxRsrcVarAlloc_def)
  next
    case grow
    have e: "pxRsrcVarAlloc (Some p) req len ha st =
      rbind (prviRsrcAdd2Pool p ?c (block_size len) ha st)
        (\<lambda>(n, st1). if n \<le> 0 then Ret (None, st1) else take_first p (the req) len st1)"
      using ok(2) grow by (simp add: pxRsrcVarAlloc_def block_size_def)
    show ?thesis
    proof (cases "uiIncrement pl = 0 \<or> ha (ucast ?c * block_size len) = None")
      case True
      then show ?thesis using e grow c0
        by (auto simp: prviRsrcAdd2Pool_def prviRsrcOOM_def)
    next
      case False
      then obtain base blk where b: "ha (ucast ?c * block_size len) = Some (base, blk)" by auto
      have "uxSizeEach pl = 0 \<or> len = uxSizeEach pl" using grow(1) by (auto simp: refused_def)
      then have "\<exists>st1 n r st'. prviRsrcAdd2Pool p ?c (block_size len) ha st = Ret (n, st1) \<and> 0 < n \<and>
        take_first p (the req) len st1 = Ret (Some (r + RSRC_HDR), st') \<and> handed st p len r st'"
        using refill [OF ok grow(2) _ len _ heap b sz] False by blast
      then obtain st1 n r st' where x: "prviRsrcAdd2Pool p ?c (block_size len) ha st = Ret (n, st1)" "0 < n"
        "take_first p (the req) len st1 = Ret (Some (r + RSRC_HDR), st')" "handed st p len r st'" by blast
      then have "pxRsrcVarAlloc (Some p) req len ha st = Ret (Some (r + RSRC_HDR), st')" using e by simp
      then show ?thesis using x(4) b grow False by auto
    qed
  qed
qed

section \<open>Giving back\<close>

lemma pool_ok_released:
  assumes "pool_ok st p pl" "r \<in> set (xActive pl)" "xActive pl' = remove1 r (xActive pl)"
    "uiNumInUse pl' = uiNumInUse pl - 1" "uxSizeEach pl' = uxSizeEach pl" "uiFreeOnFree pl' = uiFreeOnFree pl"
    "uiIncrement pl' = uiIncrement pl" "helpers_ok pl'" "uiHiWater pl' = uiHiWater pl"
    "\<And>x. x \<noteq> r \<Longrightarrow> rsrcs st' x = rsrcs st x"
    "pxFreelist pl' = pxFreelist pl \<and> uiNumFree pl' = uiNumFree pl \<or>
     pxFreelist pl' = r # pxFreelist pl \<and> uiNumFree pl' = uiNumFree pl + 1 \<and> uxSizeEach pl \<noteq> 0 \<and>
       rsrc_at st' p (uxSizeEach pl) True r"
  shows "pool_ok st' p pl'"
proof -
  have k: "pool_core st p pl" "var_ok pl" using assms(1) by (simp_all add: pool_ok_def)
  note c = k(1) [unfolded pool_core_def members_def]
  have l: "length (xActive pl) \<noteq> 0" using assms(2) by auto
  then have "uiNumInUse pl \<noteq> 0" using c by (metis unat_0)
  then have iu: "unat (uiNumInUse pl') = length (xActive pl')"
    using c assms(2,3,4) by (simp add: unat_minus_one length_remove1)
  have rem: "set (remove1 r (xActive pl)) = set (xActive pl) - {r}" "distinct (remove1 r (xActive pl))"
    using c by (simp_all add: set_remove1_eq distinct_remove1)
  have a: "list_all (rsrc_at st' p (uxSizeEach pl') False) (xActive pl')"
    using c assms(3,5,10) rem by (auto simp: list_all_iff rsrc_at_def)
  have old: "list_all (rsrc_at st' p (uxSizeEach pl') True) (pxFreelist pl)"
    using c assms(2,5,10) by (fastforce simp: list_all_iff rsrc_at_def)
  have ll: "length (remove1 r (xActive pl)) + 1 = length (xActive pl)"
    using assms(2) l by (simp add: length_remove1)
  from assms(11) show ?thesis
  proof
    assume f: "pxFreelist pl' = pxFreelist pl \<and> uiNumFree pl' = uiNumFree pl"
    then show ?thesis
      using a old iu c k(2) rem ll assms(3,5-9)
      by (auto simp: pool_ok_def pool_core_def members_def var_ok_def)
  next
    assume f: "pxFreelist pl' = r # pxFreelist pl \<and> uiNumFree pl' = uiNumFree pl + 1 \<and> uxSizeEach pl \<noteq> 0 \<and>
       rsrc_at st' p (uxSizeEach pl) True r"
    have "length (xActive pl) + length (pxFreelist pl) < 2 ^ 16" using c by simp
    then have "length (pxFreelist pl) < 2 ^ 16 - 1" using l by linarith
    then have "unat (uiNumFree pl + 1) = length (pxFreelist pl) + 1"
      using unat_add_1_bound [of "uiNumFree pl" "2 ^ 16 - 1"] c by auto
    then show ?thesis
      using f a old iu c k(2) rem ll assms(2,3,5-9)
      by (auto simp: pool_ok_def pool_core_def members_def var_ok_def)
  qed
qed

text \<open>C22. \<^verbatim>\<open>vRsrcFree\<close> of a resource in use takes it off the active list and keeps every pool well
  formed.  A pool with a free list puts it there first, so it is the next one handed out, and a
  second free of it aborts; a dynamic pool returns the memory to the heap, and a second free reads
  memory that is gone, without the check for a double free coming into play.\<close>
theorem rsrc_free:
  assumes ok: "rsrc_ok st" "pools st p = Some pl" and r: "r \<in> set (xActive pl)"
  shows "\<exists>st'. vRsrcFree (Some (r + RSRC_HDR)) st = Ret st' \<and> rsrc_ok st' \<and> same_conf st st' \<and>
    active st' p = remove1 r (active st p) \<and> (\<forall>q. q \<noteq> p \<longrightarrow> pools st' q = pools st q) \<and>
    (\<forall>x. x \<noteq> r \<longrightarrow> rsrcs st' x = rsrcs st x) \<and>
    (if uiFreeOnFree pl
     then idle st' p = idle st p \<and> rsrcs st' r = None \<and> vRsrcFree (Some (r + RSRC_HDR)) st' = Undef
     else idle st' p = r # idle st p \<and> vRsrcFree (Some (r + RSRC_HDR)) st' = Abort)"
proof -
  note pk = rsrc_okD(1) [OF ok]
  obtain rs where rs: "rsrcs st r = Some rs" "\<not> pvFlag rs" "r_pool rs = Some p"
    "unat (uxSizeEach pl) \<le> length (payload rs)"
    using pk r by (auto simp: pool_ok_def pool_core_def list_all_iff rsrc_at_def)
  let ?pl1 = "pl\<lparr>xActive := remove1 r (xActive pl), uiNumInUse := uiNumInUse pl - 1\<rparr>"
  let ?st1 = "st\<lparr>pools := (pools st)(p \<mapsto> ?pl1)\<rparr>"
  have h: "helpers_ok pl" "helpers_ok ?pl1" using pk by (simp_all add: pool_ok_def pool_core_def helpers_ok_def)
  have rm: "r \<in> set (members pl)" using r by (simp add: members_def)
  have inv: "rsrc_ok st'"
    if "pools st' = (pools st)(p \<mapsto> pl')" "pool_ok st' p pl'" "set (members pl') \<subseteq> set (members pl)"
      "\<And>x. x \<noteq> r \<Longrightarrow> rsrcs st' x = rsrcs st x" for st' pl'
  proof (rule rsrc_ok_update [OF ok(1) that(1,2)])
    fix q ql assume q: "q \<noteq> p" "pools st q = Some ql"
    have "set (members pl) \<inter> set (members ql) = {}" by (rule rsrc_okD(2) [OF ok q])
    then show "set (members pl') \<inter> set (members ql) = {} \<and> (\<forall>x \<in> set (members ql). rsrcs st' x = rsrcs st x)"
      using that(3,4) rm by (metis (no_types, lifting) disjoint_iff subset_iff)
  qed
  show ?thesis
  proof (cases "uiFreeOnFree pl")
    case True
    define st' where "st' = ?st1\<lparr>rsrcs := (rsrcs st)(r := None)\<rparr>"
    have e: "vRsrcFree (Some (r + RSRC_HDR)) st = Ret st'"
      using rs ok(2) True by (simp add: vRsrcFree_def st'_def)
    have pl: "pools st' = (pools st)(p \<mapsto> ?pl1)" "\<And>x. x \<noteq> r \<Longrightarrow> rsrcs st' x = rsrcs st x"
      "rsrcs st' r = None" by (simp_all add: st'_def)
    have "pool_ok st' p ?pl1" by (rule pool_ok_released [OF pk r]) (use h pl in simp_all)
    moreover have "set (members ?pl1) \<subseteq> set (members pl)"
      using set_remove1_subset [of r "xActive pl"] by (auto simp: members_def)
    ultimately have "rsrc_ok st'" by (rule inv [OF pl(1) _ _ pl(2)])
    moreover have "vRsrcFree (Some (r + RSRC_HDR)) st' = Undef" using pl(3) by (simp add: vRsrcFree_def)
    ultimately show ?thesis
      using e pl ok(2) True by (auto simp: active_def idle_def st'_def same_conf_def)
  next
    case False
    then have s: "uxSizeEach pl \<noteq> 0" using pk by (auto simp: pool_ok_def var_ok_def)
    let ?pl2 = "?pl1\<lparr>pxFreelist := r # pxFreelist ?pl1, uiNumFree := uiNumFree ?pl1 + 1\<rparr>"
    have p1: "pools ?st1 p = Some ?pl1" and rs1: "rsrcs ?st1 r = Some rs"
      and sz1: "unat (uxSizeEach ?pl1) \<le> length (payload rs)"
      using rs by simp_all
    obtain st' rs' where t: "prvvFreeResTail p r True ?st1 = Ret st'"
      "pools st' = (pools ?st1)(p \<mapsto> ?pl2)" "rsrcs st' = (rsrcs ?st1)(r \<mapsto> rs')" "pvFlag rs'"
      "r_pool rs' = r_pool rs" "length (payload rs') = length (payload rs)" "same_conf ?st1 st'"
      by (rule free_tail_spec [OF p1 rs1 sz1 h(2)])
    have e: "vRsrcFree (Some (r + RSRC_HDR)) st = Ret st'"
      using rs ok(2) False t(1) by (simp add: vRsrcFree_def)
    have pl: "pools st' = (pools st)(p \<mapsto> ?pl2)" "\<And>x. x \<noteq> r \<Longrightarrow> rsrcs st' x = rsrcs st x"
      using t(2,3) by simp_all
    have a: "rsrc_at st' p (uxSizeEach pl) True r" using t(3,4,6) rs(4) by (simp add: rsrc_at_def)
    have h2: "helpers_ok ?pl2" using h(1) by (simp add: helpers_ok_def)
    have "pool_ok st' p ?pl2"
      by (rule pool_ok_released [OF pk r _ _ _ _ _ h2 _ pl(2)]) (use s a in simp_all)
    moreover have "set (members ?pl2) \<subseteq> set (members pl)"
      using set_remove1_subset [of r "xActive pl"] rm by (auto simp: members_def)
    ultimately have "rsrc_ok st'" by (rule inv [OF pl(1) _ _ pl(2)])
    moreover have "vRsrcFree (Some (r + RSRC_HDR)) st' = Abort"
      using t(3,4,5) pl(1) rs(3) by (simp add: vRsrcFree_def)
    ultimately show ?thesis
      using e pl ok(2) False t(7) by (auto simp: active_def idle_def same_conf_def)
  qed
qed

section \<open>A pool made\<close>

lemma add_loop_counts:
  "add_loop p xs st = Ret st' \<Longrightarrow> pools st p = Some pl \<Longrightarrow>
   \<exists>pl'. pools st' p = Some pl' \<and> uiNumFree pl' = uiNumFree pl + of_nat (length xs) \<and>
     length (pxFreelist pl') = length (pxFreelist pl) + length xs \<and>
     uiNumInUse pl' = uiNumInUse pl \<and> uiMaxNumRes pl' = uiMaxNumRes pl"
proof (induction xs arbitrary: st pl)
  case (Cons x xs)
  obtain r pay where x: "x = (r, pay)" by (cases x)
  let ?st = "st\<lparr>rsrcs := (rsrcs st)(r \<mapsto> new_rsrc pay)\<rparr>"
  let ?pl = "pl\<lparr>pxFreelist := r # pxFreelist pl, uiNumFree := uiNumFree pl + 1\<rparr>"
  obtain st1 where 1: "prvvFreeResTail p r False ?st = Ret st1" "add_loop p xs st1 = Ret st'"
    using Cons.prems(1) x by (cases "prvvFreeResTail p r False ?st") auto
  have "pools st1 p = Some ?pl"
    using 1(1) Cons.prems(2)
    by (auto simp: prvvFreeResTail_def new_rsrc_def mem_set_def split: if_splits)
  from Cons.IH [OF 1(2) this] show ?case by (auto simp: add.assoc)
qed simp

text \<open>A pool created with its maximum number of resources already on the free list hands out
  none of them: the limit counts the free ones, so every request is refused with \<^verbatim>\<open>NULL\<close> though
  the free list is full.\<close>
theorem preallocated_pool_refuses:
  assumes "pxRsrcNewPool nm sz n inc n ha1 ha2 ha3 st = Ret (Some p, st')" "n \<noteq> 0"
  shows "length (idle st' p) = unat n \<and> pxRsrcAlloc (Some p) req ha st' = Ret (None, st')"
proof -
  have g: "nm \<noteq> None" "\<not> 0xFFFF < (n OR inc OR n)" using assms(1) by (auto simp: pxRsrcNewPool_def split: if_splits)
  obtain n1 st1 n2 st2 n3 where i: "first_pool ha1 st = Ret (n1, st1)"
    "pxRsrcAlloc (Some xRsrcPoolPool) nm ha2 st1 = Ret (Some p, st2)"
    "prviRsrcInitPool p (the nm) sz n inc n ha3 st2 = Ret (n3, st')" "\<not> n3 < 0"
    using assms(1)
    by (auto simp: pxRsrcNewPool_def rbind_Ret split: if_splits option.splits prod.splits)
  have "n \<le> 0xFFFF"
  proof -
    have "n \<le> (n OR inc OR n)" by (metis le_word_or2 or.commute or.left_commute)
    then show ?thesis using g(2) by simp
  qed
  then have un: "unat n < 2 ^ 16" by (simp add: word_le_nat_alt)
  then have uc: "unat (ucast n :: u16) = unat n" by (simp add: unsigned_ucast_eq take_bit_nat_eq_self)
  obtain pl st0 xs where a: "add_loop p xs st0 = Ret st'" "pools st0 p = Some pl" "length xs = unat n"
    "uiNumFree pl = 0" "pxFreelist pl = []" "uiNumInUse pl = 0" "uiMaxNumRes pl = ucast n"
    using i(3,4) assms(2)
    by (auto simp: prviRsrcInitPool_def prviRsrcAdd2Pool_def prviRsrcOOM_def carve_def Let_def rbind_Ret
        split: if_splits option.splits prod.splits)
  obtain pl' where pl: "pools st' p = Some pl'" "uiNumFree pl' = of_nat (unat n)"
    "length (pxFreelist pl') = unat n" "uiNumInUse pl' = 0" "uiMaxNumRes pl' = ucast n"
    using add_loop_counts [OF a(1,2)] a(3-7) by auto
  have "unat (of_nat (unat n) :: u16) = unat n" using uc by simp
  moreover have "(ucast n :: u16) \<noteq> 0" using uc assms(2) by (metis unat_0 word_unat_eq_iff)
  ultimately have "refused pl' req (uxSizeEach pl')" using pl uc by (simp add: refused_def)
  then show ?thesis using pl by (simp add: idle_def pxRsrcAlloc_def pxRsrcVarAlloc_def)
qed

section \<open>Concrete pools\<close>

definition sample_pool :: "nat list \<Rightarrow> rsrc_pool" where
  "sample_pool act =
    \<lparr>pcName = ''sample'', xActive = act, pxFreelist = [], pxAllocHelper = None, pxFreeHelper = None,
     ulTotalAllocs = 0, uxSizeEach = 16, uiIncrement = 2, uiFreeOnFree = False, uiMaxNumRes = 0,
     uiNumInUse = of_nat (length act), uiNumFree = 0, uiLowWater = 0, uiHiWater = of_nat (length act)\<rparr>"

definition sample_rsrc :: rsrc where
  "sample_rsrc = \<lparr>pvFlag = False, r_pool = Some 100, pcResName = Some ''user'', payload = replicate 16 7\<rparr>"

definition sample_state :: "nat list \<Rightarrow> rsrc_state" where
  "sample_state act =
    \<lparr>rsrcPools = Some [100], pools = [100 \<mapsto> sample_pool act],
     rsrcs = (\<lambda>r. if r \<in> set act then Some sample_rsrc else None),
     eRsrcClearResOnAlloc = rsrcCLEAR_ON_BOTH, vRsrcOOMfn = False\<rparr>"

definition sample_heap :: "nat \<Rightarrow> heap" where
  "sample_heap b n = Some (b, replicate (unat n) 0)"

lemma sample_ok: "rsrc_ok (sample_state [])" "rsrc_ok (sample_state [500])"
  "heap_ok (sample_heap 1000) (sample_state [])"
  by (simp_all add: rsrc_ok_def pool_ok_def pool_core_def var_ok_def sample_state_def sample_pool_def
      members_def rsrc_at_def helpers_ok_def helped_def sample_rsrc_def heap_ok_def sample_heap_def)

lemma rsrc_free_witness:
  "\<exists>st'. vRsrcFree (Some (500 + RSRC_HDR)) (sample_state [500]) = Ret st' \<and> idle st' 100 = [500] \<and>
     vRsrcFree (Some (500 + RSRC_HDR)) st' = Abort"
proof -
  have p: "pools (sample_state [500]) 100 = Some (sample_pool [500])" "500 \<in> set (xActive (sample_pool [500]))"
    "\<not> uiFreeOnFree (sample_pool [500])" "idle (sample_state [500]) 100 = []"
    by (simp_all add: sample_state_def sample_pool_def idle_def)
  show ?thesis using rsrc_free [OF sample_ok(2) p(1,2)] p(3,4) by auto
qed

definition one_pool :: rsrc_state where
  "one_pool = \<lparr>rsrcPools = Some [xRsrcPoolPool],
     pools = [xRsrcPoolPool \<mapsto>
       (sample_pool [])\<lparr>pxFreelist := [40], uiNumFree := 1, uxSizeEach := POOL_SZ, uiMaxNumRes := 0\<rparr>],
     rsrcs = [40 \<mapsto> new_rsrc []], eRsrcClearResOnAlloc = rsrcNOCLEAR, vRsrcOOMfn = False\<rparr>"

lemma preallocated_pool_made:
  "case pxRsrcNewPool (Some ''q'') 16 2 1 2 (sample_heap 1000) (sample_heap 3000) (sample_heap 5000) one_pool
   of Ret (Some p, st') \<Rightarrow> True | _ \<Rightarrow> False"
  by code_simp

end
