(* ===== verification/Pci.thy ===== *)
theory Pci
  imports Netbuf
begin

text \<open>Protocol control information (\<^verbatim>\<open>Rmt/include/pci.h\<close>, \<^verbatim>\<open>Rmt/pci.c\<close>) and data units
  (\<^verbatim>\<open>Rmt/du.c\<close>): the 14 bytes of header in front of a PDU, as they lie in the memory of a
  little-endian host, which is also how they are sent.  A data unit is a network buffer.\<close>

section \<open>Identifiers\<close>

definition PORT_ID_WRONG :: u32 where "PORT_ID_WRONG = - 1"
definition CEP_ID_WRONG :: u8 where "CEP_ID_WRONG = - 1"
definition ADDRESS_WRONG :: u8 where "ADDRESS_WRONG = - 1"
definition QOS_ID_WRONG :: u8 where "QOS_ID_WRONG = - 1"

definition is_port_id_ok :: "u32 \<Rightarrow> bool" where "is_port_id_ok i = (i \<noteq> PORT_ID_WRONG)"
definition is_cep_id_ok :: "u8 \<Rightarrow> bool" where "is_cep_id_ok i = (i \<noteq> CEP_ID_WRONG)"
definition is_address_ok :: "u8 \<Rightarrow> bool" where "is_address_ok a = (a \<noteq> ADDRESS_WRONG)"
definition is_qos_id_ok :: "u8 \<Rightarrow> bool" where "is_qos_id_ok i = (i \<noteq> QOS_ID_WRONG)"

section \<open>Header\<close>

definition PDU_FLAGS_DATA_RUN :: u8 where "PDU_FLAGS_DATA_RUN = 0x80"

definition PDU_TYPE_DT :: u8 where "PDU_TYPE_DT = 0x80"
definition PDU_TYPE_CACK :: u8 where "PDU_TYPE_CACK = 0xC0"
definition PDU_TYPE_ACK :: u8 where "PDU_TYPE_ACK = 0xC1"
definition PDU_TYPE_NACK :: u8 where "PDU_TYPE_NACK = 0xC2"
definition PDU_TYPE_FC :: u8 where "PDU_TYPE_FC = 0xC4"
definition PDU_TYPE_ACK_AND_FC :: u8 where "PDU_TYPE_ACK_AND_FC = 0xC5"
definition PDU_TYPE_NACK_AND_FC :: u8 where "PDU_TYPE_NACK_AND_FC = 0xC6"
definition PDU_TYPE_SACK :: u8 where "PDU_TYPE_SACK = 0xC9"
definition PDU_TYPE_SNACK :: u8 where "PDU_TYPE_SNACK = 0xCA"
definition PDU_TYPE_SACK_AND_FC :: u8 where "PDU_TYPE_SACK_AND_FC = 0xCD"
definition PDU_TYPE_SNACK_AND_FC :: u8 where "PDU_TYPE_SNACK_AND_FC = 0xCE"
definition PDU_TYPE_RENDEZVOUS :: u8 where "PDU_TYPE_RENDEZVOUS = 0xCF"
definition PDU_TYPE_MGMT :: u8 where "PDU_TYPE_MGMT = 0x40"

lemmas pdu_types = PDU_TYPE_DT_def PDU_TYPE_CACK_def PDU_TYPE_ACK_def PDU_TYPE_NACK_def PDU_TYPE_FC_def
  PDU_TYPE_ACK_AND_FC_def PDU_TYPE_NACK_AND_FC_def PDU_TYPE_SACK_def PDU_TYPE_SNACK_def
  PDU_TYPE_SACK_AND_FC_def PDU_TYPE_SNACK_AND_FC_def PDU_TYPE_RENDEZVOUS_def PDU_TYPE_MGMT_def

definition pdu_type_is_ok :: "u8 \<Rightarrow> bool" where
  "pdu_type_is_ok t =
    (t \<in> {PDU_TYPE_DT, PDU_TYPE_CACK, PDU_TYPE_SACK, PDU_TYPE_NACK, PDU_TYPE_FC, PDU_TYPE_ACK,
          PDU_TYPE_ACK_AND_FC, PDU_TYPE_SACK_AND_FC, PDU_TYPE_SNACK_AND_FC, PDU_TYPE_RENDEZVOUS,
          PDU_TYPE_MGMT})"

definition pdu_type_is_control :: "u8 \<Rightarrow> bool" where
  "pdu_type_is_control t =
    (t \<in> {PDU_TYPE_CACK, PDU_TYPE_SACK, PDU_TYPE_NACK, PDU_TYPE_FC, PDU_TYPE_ACK,
          PDU_TYPE_ACK_AND_FC, PDU_TYPE_SACK_AND_FC, PDU_TYPE_RENDEZVOUS, PDU_TYPE_SNACK_AND_FC})"

record pci =
  ucVersion :: u8
  xDestination :: u8
  xSource :: u8
  xQosId :: u8
  xCepDest :: u8
  xCepSource :: u8
  xType :: u8
  xFlags :: u8
  xPduLen :: u16
  xSequenceNumber :: u32

definition PCI_SZ :: nat where "PCI_SZ = 14"

definition le16 :: "u16 \<Rightarrow> bytes" where
  "le16 w = [ucast w, ucast (drop_bit 8 w)]"

definition le32 :: "u32 \<Rightarrow> bytes" where
  "le32 w = [ucast w, ucast (drop_bit 8 w), ucast (drop_bit 16 w), ucast (drop_bit 24 w)]"

fun le16_of :: "bytes \<Rightarrow> u16" where
  "le16_of [a, b] = ucast a OR push_bit 8 (ucast b)"
| "le16_of _ = 0"

fun le32_of :: "bytes \<Rightarrow> u32" where
  "le32_of [a, b, c, d] = ucast a OR push_bit 8 (ucast b) OR push_bit 16 (ucast c) OR push_bit 24 (ucast d)"
| "le32_of _ = 0"

text \<open>The bytes of the packed structure.\<close>

definition pci_bytes :: "pci \<Rightarrow> bytes" where
  "pci_bytes p =
    [ucVersion p, xDestination p, xSource p, xQosId p, xCepDest p, xCepSource p, xType p, xFlags p]
    @ le16 (xPduLen p) @ le32 (xSequenceNumber p)"

definition pci_of :: "bytes \<Rightarrow> pci option" where
  "pci_of b =
    (if length b < PCI_SZ then None
     else Some \<lparr>ucVersion = b ! 0, xDestination = b ! 1, xSource = b ! 2, xQosId = b ! 3, xCepDest = b ! 4,
                xCepSource = b ! 5, xType = b ! 6, xFlags = b ! 7, xPduLen = le16_of (take 2 (drop 8 b)),
                xSequenceNumber = le32_of (take 4 (drop 10 b))\<rparr>)"

text \<open>\<^verbatim>\<open>PCI_GET\<close>: the memory at the data pointer of a buffer, read as the structure; \<^verbatim>\<open>PCI_SET\<close>
  checks that the buffer is a PCI and stores one field of the structure.\<close>

definition PCI_GET :: "nb_state \<Rightarrow> nat \<Rightarrow> pci outcome" where
  "PCI_GET st du =
    or_crash (Option.bind (cells st du) (\<lambda>nb. Option.bind (copy_from st nb 0 PCI_SZ) pci_of))"

definition PCI_SET :: "(pci \<Rightarrow> pci) \<Rightarrow> nat \<Rightarrow> nb_state \<Rightarrow> nb_state outcome" where
  "PCI_SET f du st =
    obind (or_crash (cells st du)) (\<lambda>nb.
      if \<not> nb_is NB_RINA_PCI nb then Crash
      else
        obind (PCI_GET st du) (\<lambda>p.
        obind (or_crash (pxBuf nb)) (\<lambda>(b, off).
        obind (or_crash (Option.bind (bufs st b) (\<lambda>bs. mem_write bs off (pci_bytes (f p))))) (\<lambda>bs.
          Done (st\<lparr>bufs := (bufs st)(b \<mapsto> bs)\<rparr>)))))"

definition xPciIsOk :: "pci option \<Rightarrow> bool" where
  "xPciIsOk p = (case p of None \<Rightarrow> False | Some x \<Rightarrow> pdu_type_is_ok (xType x))"

section \<open>Data units\<close>

text \<open>\<open>new\<close> is the address the allocator gives to a new segment.\<close>

definition xDuDecap :: "nat option \<Rightarrow> nat \<Rightarrow> nat \<Rightarrow> nb_state \<Rightarrow> (bool \<times> nb_state) outcome" where
  "xDuDecap new n du st =
    obind (or_crash (cells st du)) (\<lambda>nb.
      if \<not> nb_is NB_RINA_PCI nb then Crash
      else
        obind (or_crash (xNetBufSplit new du NB_RINA_DATA n st)) (\<lambda>r.
          case r of Inl e \<Rightarrow> Done (False, st) | Inr st1 \<Rightarrow> Done (True, st1)))"

definition xDuEncap ::
  "nat option \<Rightarrow> nat \<Rightarrow> nat \<Rightarrow> nat \<Rightarrow> nb_state \<Rightarrow> (nat option \<times> nb_state) outcome" where
  "xDuEncap new b n du st =
    obind (or_crash (cells st du)) (\<lambda>nb.
      if \<not> nb_is NB_RINA_DATA nb then Crash
      else
        obind (or_crash (pxNetBufNew new NB_RINA_PCI b n (Some FreePool) st)) (\<lambda>r.
         case r of
           Inl e \<Rightarrow> Done (None, st)
         | Inr (x, st1) \<Rightarrow> obind (or_crash (vNetBufAppend st1 x du)) (\<lambda>st2. Done (Some x, st2))))"

definition xDuLen :: "nb_state \<Rightarrow> nat \<Rightarrow> nat option" where
  "xDuLen st du = unNetBufTotalSize st du"

definition xDuIsOk :: "nat \<Rightarrow> bool" where
  "xDuIsOk du = True"

definition vDuDestroy :: "nb_state \<Rightarrow> nat \<Rightarrow> nb_state option" where
  "vDuDestroy st du = vNetBufFreeAll st du"

section \<open>The header as bytes\<close>

lemma le16_roundtrip: "le16_of (le16 w) = w"
  unfolding le16_def le16_of.simps
  by (rule bit_word_eqI) (auto simp: bit_simps)

lemma le32_roundtrip: "le32_of (le32 w) = w"
  unfolding le32_def le32_of.simps
proof (rule bit_word_eqI)
  fix n assume n: "n < LENGTH(32)"
  have e: "\<not> k - 16 < 8 \<Longrightarrow> 24 + (k - 24) = k" for k :: nat by arith
  show "bit (ucast (ucast w :: u8) OR push_bit 8 (ucast (ucast (drop_bit 8 w) :: u8)) OR
      push_bit 16 (ucast (ucast (drop_bit 16 w) :: u8)) OR
      push_bit 24 (ucast (ucast (drop_bit 24 w) :: u8)) :: u32) n = bit w n"
    using n by (auto simp: bit_simps) (metis e)
qed

lemma PCI_SZ_pos: "PCI_SZ \<noteq> 0"
  by (simp add: PCI_SZ_def)

lemma pci_bytes_length [simp]: "length (pci_bytes p) = PCI_SZ"
  by (simp add: pci_bytes_def le16_def le32_def PCI_SZ_def)

lemma pci_roundtrip_prefix: "pci_of (pci_bytes p @ r) = Some p"
  using le16_roundtrip [of "xPduLen p"] le32_roundtrip [of "xSequenceNumber p"]
  by (simp add: pci_of_def pci_bytes_def PCI_SZ_def le16_def le32_def)

text \<open>The segment \<open>du\<close> has room for a header: \<open>b\<close> and \<open>off\<close> are its buffer and offset.\<close>

definition pci_room :: "nb_state \<Rightarrow> nat \<Rightarrow> nat \<Rightarrow> nat \<Rightarrow> bytes \<Rightarrow> bool" where
  "pci_room st du b off bs =
    (\<exists>nb. cells st du = Some nb \<and> pxBuf nb = Some (b, off) \<and> bufs st b = Some bs \<and> off + PCI_SZ \<le> length bs)"

lemma copy_from_start:
  "pxBuf nb = Some (b, off) \<Longrightarrow> bufs st b = Some bs \<Longrightarrow> off + n \<le> length bs \<Longrightarrow>
   copy_from st nb 0 n = Some (take n (drop off bs))"
  by (simp add: copy_from_def)

lemma pci_of_some: "PCI_SZ \<le> length b \<Longrightarrow> \<exists>p. pci_of b = Some p"
  by (simp add: pci_of_def)

lemma pci_get_room:
  assumes "pci_room st du b off bs"
  shows "\<exists>p. pci_of (take PCI_SZ (drop off bs)) = Some p \<and> PCI_GET st du = Done p"
proof -
  obtain nb where nb: "cells st du = Some nb" "pxBuf nb = Some (b, off)" "bufs st b = Some bs"
    "off + PCI_SZ \<le> length bs" using assms by (auto simp: pci_room_def)
  obtain p where p: "pci_of (take PCI_SZ (drop off bs)) = Some p"
    using pci_of_some [of "take PCI_SZ (drop off bs)"] nb(4) by auto
  then show ?thesis using nb copy_from_start [OF nb(2-4)] by (simp add: PCI_GET_def)
qed

lemma pci_set_room:
  assumes "pci_room st du b off bs" "\<exists>nb. cells st du = Some nb \<and> nb_is NB_RINA_PCI nb"
    "PCI_GET st du = Done p"
  shows "\<exists>bs' st'. PCI_SET f du st = Done st' \<and> cells st' = cells st \<and> bufs st' = (bufs st)(b \<mapsto> bs') \<and>
    pci_room st' du b off bs' \<and> PCI_GET st' du = Done (f p) \<and>
    take off bs' = take off bs \<and> drop (off + PCI_SZ) bs' = drop (off + PCI_SZ) bs \<and>
    take PCI_SZ (drop off bs') = pci_bytes (f p)"
proof -
  obtain nb where nb: "cells st du = Some nb" "pxBuf nb = Some (b, off)" "bufs st b = Some bs"
    "off + PCI_SZ \<le> length bs" "nb_is NB_RINA_PCI nb" using assms(1,2) by (auto simp: pci_room_def)
  define bs' where "bs' = take off bs @ pci_bytes (f p) @ drop (off + PCI_SZ) bs"
  define st' where "st' = st\<lparr>bufs := (bufs st)(b \<mapsto> bs')\<rparr>"
  have l: "length (take off bs) = off" using nb(4) by simp
  have w: "mem_write bs off (pci_bytes (f p)) = Some bs'"
    using nb(4) by (simp add: mem_write_def bs'_def)
  have set: "PCI_SET f du st = Done st'"
    using nb assms(3) w by (simp add: PCI_SET_def st'_def)
  have room: "pci_room st' du b off bs'"
    using nb by (auto simp: pci_room_def st'_def bs'_def)
  have w: "take PCI_SZ (drop off bs') = pci_bytes (f p)" using l by (simp add: bs'_def)
  moreover have "pci_of (pci_bytes (f p)) = Some (f p)"
    using pci_roundtrip_prefix [of "f p" "[]"] by simp
  ultimately have "PCI_GET st' du = Done (f p)" using pci_get_room [OF room] by simp
  then show ?thesis using set room l nb(4) w by (auto simp: st'_def bs'_def)
qed

text \<open>What \<^verbatim>\<open>PCI_SET\<close> stores in a header, \<^verbatim>\<open>PCI_GET\<close> reads back, with every other field and every
  byte outside of the 14 of the header unchanged; and the header sent as bytes is parsed to the
  same fields by the receiver, whatever follows it.\<close>
theorem pci_roundtrip:
  assumes "pci_room st du b off bs" "\<exists>nb. cells st du = Some nb \<and> nb_is NB_RINA_PCI nb"
    "PCI_GET st du = Done p"
  shows "\<exists>bs' st'. PCI_SET f du st = Done st' \<and> PCI_GET st' du = Done (f p) \<and>
    bufs st' = (bufs st)(b \<mapsto> bs') \<and> length bs' = length bs \<and>
    (\<forall>i < length bs. i < off \<or> off + PCI_SZ \<le> i \<longrightarrow> bs' ! i = bs ! i) \<and>
    take PCI_SZ (drop off bs') = pci_bytes (f p) \<and> pci_of (pci_bytes (f p) @ rest) = Some (f p)"
proof -
  obtain nb where nb: "cells st du = Some nb" "pxBuf nb = Some (b, off)" "bufs st b = Some bs"
    "off + PCI_SZ \<le> length bs" "nb_is NB_RINA_PCI nb" using assms(1,2) by (auto simp: pci_room_def)
  define bs' where "bs' = take off bs @ pci_bytes (f p) @ drop (off + PCI_SZ) bs"
  have w: "mem_write bs off (pci_bytes (f p)) = Some bs'"
    using nb(4) by (simp add: mem_write_def bs'_def)
  have "\<forall>i < length bs. i < off \<or> off + PCI_SZ \<le> i \<longrightarrow> bs' ! i = bs ! i"
    using nb(4) by (auto simp: bs'_def nth_append)
  moreover have "PCI_SET f du st = Done (st\<lparr>bufs := (bufs st)(b \<mapsto> bs')\<rparr>)"
    using nb assms(3) w by (simp add: PCI_SET_def)
  moreover from this have "PCI_GET (st\<lparr>bufs := (bufs st)(b \<mapsto> bs')\<rparr>) du = Done (f p)"
    using pci_set_room [OF assms, of f] by auto
  ultimately show ?thesis using nb(4) pci_roundtrip_prefix [of "f p" rest]
    by (intro exI [of _ bs']) (auto simp: bs'_def)
qed

definition pci_demo :: nb_state where
  "pci_demo = \<lparr>cells = [5 \<mapsto> \<lparr>pxNext = None, pxFirst = 5, eType = NB_RINA_PCI, unSz = 14, pxBuf = Some (7, 1),
     pxBufStart = Some 7, xFreed = False, freemethod = None\<rparr>], bufs = [7 \<mapsto> List.map of_nat [0 ..< 16]]\<rparr>"

lemma pci_demo_get:
  "PCI_GET pci_demo 5 = Done \<lparr>ucVersion = 1, xDestination = 2, xSource = 3, xQosId = 4, xCepDest = 5,
    xCepSource = 6, xType = 7, xFlags = 8, xPduLen = 0x0A09, xSequenceNumber = 0x0E0D0C0B\<rparr>"
  by code_simp

end
