(* ===== verification/Flow_Alloc.thy ===== *)
theory Flow_Alloc
  imports Pci Rs_List Rina_Name
begin

text \<open>The flow allocator's table of flows and the packets that wait at a flow
  (\<^verbatim>\<open>FlowAllocator/FlowAllocator.c\<close>, \<^verbatim>\<open>FlowAllocator_obj.h\<close>, \<^verbatim>\<open>RINA_API_flows.h\<close>).  Flow allocator
  instances and handles live at addresses; the list of waiting packets is the sequence of its
  packets, with \<open>second\<close> for \<^verbatim>\<open>vRsListInsert\<close>.\<close>

section \<open>State\<close>

datatype fai_state = eFAI_NONE | eFAI_PENDING | eFAI_ALLOCATED

record fai =
  fai_port :: u32
  eFaiState :: fai_state
  pxFlowAllocatorHandle :: nat

text \<open>The fields of a flow's specification that are read or set; an unset name has empty components.\<close>

record flow_spec =
  ulAverageBandwidth :: u32
  ulAverageSduBandwidth :: u32
  ulDelay :: u32
  ulJitter :: u32
  usLoss :: u16
  ulMaxAllowableGap :: u32
  xOrderedDelivery :: bool
  xPartialDelivery :: bool
  ulUndetectedBitErrorRate :: u32
  xMsgBoundaries :: bool

record flow_handle =
  xSendBlockTime :: u32
  xReceiveBlockTime :: u32
  usTimeout :: u32
  h_port :: u32
  xLocal :: rname
  xRemote :: rname
  xDifName :: rname
  xFspec :: flow_spec
  xListWaitingPackets :: "nat list"
  nEventBits :: u64

record flow_row =
  pxFAI :: "nat option"
  xValid :: bool

record fa_state =
  xFlowRequestTable :: "flow_row list"
  fais :: "nat \<Rightarrow> fai option"
  handles :: "nat \<Rightarrow> flow_handle option"

definition CFG_FLOWS_REQUEST :: nat where "CFG_FLOWS_REQUEST = 10"

definition eFLOW_RECEIVE :: u64 where "eFLOW_RECEIVE = 0x0001"
definition eFLOW_BOUND :: u64 where "eFLOW_BOUND = 0x0010"

definition fa_init :: fa_state where
  "fa_init = \<lparr>xFlowRequestTable = replicate CFG_FLOWS_REQUEST \<lparr>pxFAI = None, xValid = False\<rparr>,
     fais = (\<lambda>_. None), handles = (\<lambda>_. None)\<rparr>"

section \<open>Operations\<close>

definition prvAddFlowRequestEntry :: "nat \<Rightarrow> 'a fa_state_scheme \<Rightarrow> 'a fa_state_scheme" where
  "prvAddFlowRequestEntry a st =
    (case find_idx (\<lambda>r. \<not> xValid r) (xFlowRequestTable st) of
       None \<Rightarrow> st
     | Some x \<Rightarrow> st\<lparr>xFlowRequestTable := (xFlowRequestTable st)[x := \<lparr>pxFAI = Some a, xValid = True\<rparr>]\<rparr>)"

text \<open>The loop over the rows \<open>rs\<close>: each valid row is tested, but the instance looked at is the one of
  row 0, \<^verbatim>\<open>xFlowRequestTable->pxFAI\<close>.\<close>

fun find_loop :: "'a fa_state_scheme \<Rightarrow> u32 \<Rightarrow> flow_row list \<Rightarrow> nat option outcome" where
  "find_loop st port [] = Done None"
| "find_loop st port (r # rs) =
    (if xValid r
     then
       obind (or_crash (pxFAI (hd (xFlowRequestTable st)))) (\<lambda>a.
       obind (or_crash (fais st a)) (\<lambda>f.
         if fai_port f = port then Done (Some a) else find_loop st port rs))
     else find_loop st port rs)"

definition pxFAFindInstance :: "u32 \<Rightarrow> 'a fa_state_scheme \<Rightarrow> nat option outcome" where
  "pxFAFindInstance port st = find_loop st port (xFlowRequestTable st)"

definition pxFAFindFlowHandle :: "u32 \<Rightarrow> 'a fa_state_scheme \<Rightarrow> nat option outcome" where
  "pxFAFindFlowHandle port st =
    obind (find_loop st port (xFlowRequestTable st)) (\<lambda>r.
      case r of None \<Rightarrow> Done None
      | Some a \<Rightarrow> obind (or_crash (fais st a)) (\<lambda>f. Done (Some (pxFlowAllocatorHandle f))))"

definition prvGetPendingFlowRequest :: "u32 \<Rightarrow> 'a fa_state_scheme \<Rightarrow> nat option outcome" where
  "prvGetPendingFlowRequest port st =
    obind (find_loop st port (xFlowRequestTable st)) (\<lambda>r.
      case r of None \<Rightarrow> Done None
      | Some a \<Rightarrow> obind (or_crash (fais st a)) (\<lambda>f. Done (Some (pxFlowAllocatorHandle f))))"

definition post_packet :: "nat \<Rightarrow> flow_handle \<Rightarrow> flow_handle" where
  "post_packet du h =
    h\<lparr>xListWaitingPackets := second du (xListWaitingPackets h), nEventBits := nEventBits h OR eFLOW_RECEIVE\<rparr>"

definition xFlowAllocatorDuPost ::
  "u32 \<Rightarrow> nat \<Rightarrow> 'a fa_state_scheme \<Rightarrow> (bool \<times> 'a fa_state_scheme) outcome" where
  "xFlowAllocatorDuPost port du st =
    (if \<not> is_port_id_ok port then Crash
     else
       obind (pxFAFindInstance port st) (\<lambda>r.
         case r of None \<Rightarrow> Done (False, st)
         | Some a \<Rightarrow>
             obind (or_crash (fais st a)) (\<lambda>f.
               if eFaiState f \<noteq> eFAI_ALLOCATED then Done (False, st)
               else
                 obind (or_crash (handles st (pxFlowAllocatorHandle f))) (\<lambda>h.
                   Done (True, st\<lparr>handles := (handles st)(pxFlowAllocatorHandle f \<mapsto> post_packet du h)\<rparr>)))))"

text \<open>\<^verbatim>\<open>prvWaitForBit\<close> of \<^verbatim>\<open>RINA_API.c\<close>: \<open>None\<close> while the bits are not there and the caller blocks.\<close>

definition prvWaitForBit :: "u64 \<Rightarrow> bool \<Rightarrow> u64 \<Rightarrow> u64 option" where
  "prvWaitForBit wanted clear bits =
    (if bits AND wanted = 0 then None else Some (if clear then bits OR NOT wanted else bits))"

section \<open>Finding a flow\<close>

definition add_entries :: "nat list \<Rightarrow> 'a fa_state_scheme \<Rightarrow> 'a fa_state_scheme" where
  "add_entries as st = fold prvAddFlowRequestEntry as st"

text \<open>The table after the instances \<open>as\<close> were added one by one to the empty table.\<close>

definition rows_of :: "nat list \<Rightarrow> flow_row list" where
  "rows_of as =
    List.map (\<lambda>a. \<lparr>pxFAI = Some a, xValid = True\<rparr>) (take CFG_FLOWS_REQUEST as)
    @ replicate (CFG_FLOWS_REQUEST - length as) \<lparr>pxFAI = None, xValid = False\<rparr>"

lemma find_idx_app_skip:
  "(\<forall>x \<in> set xs. \<not> P x) \<Longrightarrow> find_idx P (xs @ ys) = map_option (\<lambda>i. length xs + i) (find_idx P ys)"
  by (induction xs; cases "find_idx P ys") auto

lemma rows_add:
  assumes "xFlowRequestTable st = rows_of as"
  shows "xFlowRequestTable (prvAddFlowRequestEntry a st) = rows_of (as @ [a])"
proof (cases "length as < CFG_FLOWS_REQUEST")
  case True
  then obtain k where k: "CFG_FLOWS_REQUEST - length as = Suc k" by (metis Suc_diff_Suc)
  have "find_idx (\<lambda>r. \<not> xValid r) (rows_of as) = Some (length as)"
    unfolding rows_of_def by (subst find_idx_app_skip) (use True in \<open>auto simp: find_idx_replicate\<close>)
  then show ?thesis
    using True k assms by (simp add: prvAddFlowRequestEntry_def rows_of_def list_update_append)
next
  case False
  have "find_idx (\<lambda>r. \<not> xValid r) (rows_of as) = None"
    using False by (auto simp: find_idx_None rows_of_def)
  then show ?thesis using False assms by (simp add: prvAddFlowRequestEntry_def rows_of_def)
qed

lemma rows_entries: "xFlowRequestTable st = rows_of as \<Longrightarrow> xFlowRequestTable (add_entries bs st) = rows_of (as @ bs)"
  unfolding add_entries_def
proof (induction bs arbitrary: as st)
  case (Cons b bs)
  from Cons.IH [OF rows_add [OF Cons.prems, of b]] show ?case by simp
qed simp

lemma add_entry_fais [simp]: "fais (prvAddFlowRequestEntry a st) = fais st" "handles (prvAddFlowRequestEntry a st) = handles st"
  by (simp_all add: prvAddFlowRequestEntry_def split: option.split)

lemma add_entries_fais [simp]: "fais (add_entries as st) = fais st" "handles (add_entries as st) = handles st"
  unfolding add_entries_def by (induction as arbitrary: st) simp_all

lemma find_loop_row0:
  assumes "pxFAI (hd (xFlowRequestTable st)) = Some a" "fais st a = Some f"
  shows "find_loop st port rs = Done (if fai_port f = port \<and> (\<exists>r \<in> set rs. xValid r) then Some a else None)"
  using assms by (induction rs) auto

lemma rows_nil: "rows_of [] = replicate CFG_FLOWS_REQUEST \<lparr>pxFAI = None, xValid = False\<rparr>"
  by (simp add: rows_of_def)

lemma rows_cons:
  "rows_of (a # as) = \<lparr>pxFAI = Some a, xValid = True\<rparr> # tl (rows_of (a # as))"
  by (simp add: rows_of_def CFG_FLOWS_REQUEST_def)

lemma find_first_only:
  assumes "xFlowRequestTable st = rows_of (a # as)" "fais st a = Some f"
  shows "pxFAFindInstance port st = Done (if fai_port f = port then Some a else None)"
proof -
  note r = rows_cons [of a as]
  have "pxFAI (hd (xFlowRequestTable st)) = Some a" unfolding assms(1) by (subst r) simp
  moreover have "\<exists>x \<in> set (xFlowRequestTable st). xValid x" unfolding assms(1) by (subst r) simp
  ultimately show ?thesis using find_loop_row0 [of st a f port] assms(2) by (simp add: pxFAFindInstance_def)
qed

text \<open>In the table the flow allocator fills, only the first flow is ever found: whatever the
  other flows are, a look-up by port answers the first instance if it has that port and nothing
  otherwise, for the packets that arrive as for the application that reads.\<close>
theorem only_first_flow_found:
  assumes "xFlowRequestTable st = replicate CFG_FLOWS_REQUEST \<lparr>pxFAI = None, xValid = False\<rparr>"
    "fais st a = Some f"
  shows "pxFAFindInstance port (add_entries (a # as) st) = Done (if fai_port f = port then Some a else None) \<and>
    pxFAFindFlowHandle port (add_entries (a # as) st) =
      Done (if fai_port f = port then Some (pxFlowAllocatorHandle f) else None)"
proof -
  have r: "xFlowRequestTable (add_entries (a # as) st) = rows_of (a # as)"
    using rows_entries [of st "[]" "a # as"] assms(1) rows_nil by simp
  have "fais (add_entries (a # as) st) a = Some f" using assms(2) by simp
  from find_first_only [OF r this] show ?thesis
    by (simp add: pxFAFindInstance_def pxFAFindFlowHandle_def assms(2))
qed

definition blank_name :: rname where
  "blank_name = \<lparr>unPostLn = 0, pcProcessName = [], pcProcessInstance = [], pcEntityName = [], pcEntityInstance = [],
     pxFree = False\<rparr>"

definition idle_handle :: "u32 \<Rightarrow> flow_handle" where
  "idle_handle port =
    \<lparr>xSendBlockTime = 0, xReceiveBlockTime = 0, usTimeout = 0, h_port = port, xLocal = blank_name, xRemote = blank_name,
     xDifName = blank_name,
     xFspec = \<lparr>ulAverageBandwidth = 0, ulAverageSduBandwidth = 0, ulDelay = 0, ulJitter = 0, usLoss = 0, ulMaxAllowableGap = 0,
       xOrderedDelivery = False, xPartialDelivery = False, ulUndetectedBitErrorRate = 0, xMsgBoundaries = False\<rparr>,
     xListWaitingPackets = [], nEventBits = 0\<rparr>"

lemma idle_handle_simps [simp]:
  "h_port (idle_handle port) = port" "xListWaitingPackets (idle_handle port) = []" "nEventBits (idle_handle port) = 0"
  by (simp_all add: idle_handle_def)

definition two_flows :: fa_state where
  "two_flows = fa_init\<lparr>fais := [1 \<mapsto> \<lparr>fai_port = 5, eFaiState = eFAI_ALLOCATED, pxFlowAllocatorHandle = 11\<rparr>,
      2 \<mapsto> \<lparr>fai_port = 6, eFaiState = eFAI_ALLOCATED, pxFlowAllocatorHandle = 12\<rparr>],
    handles := [11 \<mapsto> idle_handle 5,
      12 \<mapsto> idle_handle 6]\<rparr>"

end
