(* ===== verification/Efcp.thy ===== *)
theory Efcp
  imports Flow_Alloc Rsrc
begin

text \<open>The error and flow control protocol: the container and its map of instances
  (\<^verbatim>\<open>EFCP/EFCP.c\<close>, \<^verbatim>\<open>EFCP/connection.c\<close>) and the data transfer protocol (\<^verbatim>\<open>EFCP/dtp.c\<close>).  Instances
  live at addresses; a failed assertion and a use of memory that was never set are \<open>Crash\<close>.\<close>

section \<open>State\<close>

datatype efcp_st = eEfcpAllocated | eEfcpDeallocated

record connection =
  xPortId :: u32
  xSourceAddress :: u8
  xDestinationAddress :: u8
  xSourceCepId :: u8
  xDestinationCepId :: u8
  c_qos :: u8

record dtp_stats =
  drop_pdus :: u32
  err_pdus :: u32
  tx_pdus :: u32
  tx_bytes :: u32
  rx_pdus :: u32
  rx_bytes :: u32

record dtp_sv =
  xMaxFlowPduSize :: u32
  xMaxFlowSduSize :: u32
  xRcvLeftWindowEdge :: u32
  xWindowClosed :: bool
  xDrfFlag :: bool
  xSeqNumberRolloverThreshold :: u32
  dtp_st :: dtp_stats
  xMaxSeqNumberRcvd :: u32
  xNextSeqNumberToSend :: u32
  xMaxSeqNumberToSend :: u32
  xWindowBased :: bool
  xRexmsnCtrl :: bool
  xRateBased :: bool
  xDrfRequired :: bool
  xRateFulfiled :: bool

text \<open>A pointer field of an instance that \<^verbatim>\<open>pxEfcpCreate\<close> leaves unset is \<open>None\<close>.\<close>

record efcp =
  xState :: efcp_st
  pxConnection :: "connection option"
  pxDtp :: "dtp_sv option"
  pxUserIpcp :: "nat option option"

record imap_row =
  xCepIdKey :: u8
  xEfcpValue :: "nat option"
  ucValid :: u8

text \<open>The container adds to the flow allocator of the same IPC process: the map, the instances, the
  network buffers, the resource pools, the PCI pool and whether its pointer to the RMT is set.\<close>

record efcp_state = fa_state +
  xEfcpImapTable :: "imap_row list"
  efcps :: "nat \<Rightarrow> efcp option"
  nbs :: nb_state
  rs :: rsrc_state
  xPciPool :: "nat option"
  pxRmt :: bool

definition CFG_EFCP_IMAP_ENTRIES :: nat where "CFG_EFCP_IMAP_ENTRIES = 5"

definition CFG_LOCAL_ADDRESS :: u8 where "CFG_LOCAL_ADDRESS = 1"

section \<open>The map of instances\<close>

definition null_row :: imap_row where
  "null_row = \<lparr>xCepIdKey = 0, xEfcpValue = None, ucValid = 0\<rparr>"

definition xEfcpImapCreate :: "'a efcp_state_scheme \<Rightarrow> 'a efcp_state_scheme" where
  "xEfcpImapCreate st = st\<lparr>xEfcpImapTable := replicate CFG_EFCP_IMAP_ENTRIES null_row\<rparr>"

definition pxEfcpImapFind :: "u8 \<Rightarrow> 'a efcp_state_scheme \<Rightarrow> nat option \<times> 'a efcp_state_scheme" where
  "pxEfcpImapFind cep st =
    (case find_idx (\<lambda>r. xCepIdKey r = cep) (xEfcpImapTable st) of
       None \<Rightarrow> (None, st)
     | Some x \<Rightarrow>
         (xEfcpValue (xEfcpImapTable st ! x),
          st\<lparr>xEfcpImapTable := (xEfcpImapTable st)[x := (xEfcpImapTable st ! x)\<lparr>ucValid := 1\<rparr>]\<rparr>))"

text \<open>The loop stores into the row it is at, row 0, and returns.\<close>

definition xEfcpImapAdd :: "u8 \<Rightarrow> nat \<Rightarrow> 'a efcp_state_scheme \<Rightarrow> bool \<times> 'a efcp_state_scheme" where
  "xEfcpImapAdd cep e st =
    (True, st\<lparr>xEfcpImapTable := (xEfcpImapTable st)[0 := \<lparr>xCepIdKey = cep, xEfcpValue = Some e, ucValid = 1\<rparr>]\<rparr>)"

definition xEfcpImapRemove :: "u8 \<Rightarrow> 'a efcp_state_scheme \<Rightarrow> bool \<times> 'a efcp_state_scheme" where
  "xEfcpImapRemove cep st =
    (True,
     case find_idx (\<lambda>r. xCepIdKey r = cep) (xEfcpImapTable st) of
       None \<Rightarrow> st
     | Some x \<Rightarrow> st\<lparr>xEfcpImapTable := (xEfcpImapTable st)[x := null_row]\<rparr>)"

definition xEfcpImapDestroy :: "'a efcp_state_scheme \<Rightarrow> bool \<times> 'a efcp_state_scheme" where
  "xEfcpImapDestroy st = (False, st\<lparr>xEfcpImapTable := replicate CFG_EFCP_IMAP_ENTRIES null_row\<rparr>)"

section \<open>Data transfer\<close>

definition vDtpStateVectorInit :: dtp_sv where
  "vDtpStateVectorInit =
    \<lparr>xMaxFlowPduSize = - 1, xMaxFlowSduSize = - 1, xRcvLeftWindowEdge = 0, xWindowClosed = False,
     xDrfFlag = True, xSeqNumberRolloverThreshold = 0,
     dtp_st = \<lparr>drop_pdus = 0, err_pdus = 0, tx_pdus = 0, tx_bytes = 0, rx_pdus = 0, rx_bytes = 0\<rparr>,
     xMaxSeqNumberRcvd = 0, xNextSeqNumberToSend = 0, xMaxSeqNumberToSend = 0, xWindowBased = False,
     xRexmsnCtrl = False, xRateBased = False, xDrfRequired = True, xRateFulfiled = False\<rparr>"

text \<open>What \<^verbatim>\<open>xDtpReceive\<close> decides on a PDU: the value it returns, whether the PDU is passed up, and
  the state vector.\<close>

definition dtp_accept :: "pci \<Rightarrow> dtp_sv \<Rightarrow> bool \<times> bool \<times> dtp_sv" where
  "dtp_accept p sv =
    (let lwe = xRcvLeftWindowEdge sv; sn = xSequenceNumber p in
     if xDrfRequired sv
     then
       (if xFlags p AND PDU_FLAGS_DATA_RUN \<noteq> 0
        then (True, True, sv\<lparr>xDrfRequired := False, xRcvLeftWindowEdge := sn\<rparr>)
        else (True, True, sv))
     else if sn \<le> lwe then (False, False, sv)
     else (True, True, if sn = lwe + 1 then sv\<lparr>xRcvLeftWindowEdge := sn\<rparr> else sv))"

definition xEfcpEnqueue :: "u32 \<Rightarrow> nat \<Rightarrow> 'a efcp_state_scheme \<Rightarrow> (bool \<times> 'a efcp_state_scheme) outcome" where
  "xEfcpEnqueue port du st = xFlowAllocatorDuPost port du st"

definition xDtpPduPost :: "nat \<Rightarrow> nat \<Rightarrow> 'a efcp_state_scheme \<Rightarrow> (bool \<times> 'a efcp_state_scheme) outcome" where
  "xDtpPduPost e du st =
    obind (or_crash (efcps st e)) (\<lambda>ef.
    obind (or_crash (pxConnection ef)) (\<lambda>c. xEfcpEnqueue (xPortId c) du st))"

definition xDtpReceive :: "nat \<Rightarrow> nat \<Rightarrow> 'a efcp_state_scheme \<Rightarrow> (bool \<times> 'a efcp_state_scheme) outcome" where
  "xDtpReceive e du st =
    obind (or_crash (efcps st e)) (\<lambda>ef.
    obind (or_crash (pxDtp ef)) (\<lambda>sv.
    obind (PCI_GET (nbs st) du) (\<lambda>p.
      let (ret, post, sv1) = dtp_accept p sv;
          st1 = st\<lparr>efcps := (efcps st)(e \<mapsto> ef\<lparr>pxDtp := Some sv1\<rparr>)\<rparr> in
      if post then obind (xDtpPduPost e du st1) (\<lambda>(r, st2). Done (ret, st2)) else Done (ret, st1))))"

definition xEfcpReceive :: "nat \<Rightarrow> nat \<Rightarrow> 'a efcp_state_scheme \<Rightarrow> (bool \<times> 'a efcp_state_scheme) outcome" where
  "xEfcpReceive e du st =
    obind (PCI_GET (nbs st) du) (\<lambda>p.
      if pdu_type_is_control (xType p) then Done (True, st) else xDtpReceive e du st)"

definition xEfcpContainerReceive ::
  "u8 \<Rightarrow> nat \<Rightarrow> 'a efcp_state_scheme \<Rightarrow> (bool \<times> 'a efcp_state_scheme) outcome" where
  "xEfcpContainerReceive cep du st =
    (if \<not> is_cep_id_ok cep then Done (False, st)
     else
       (case pxEfcpImapFind cep st of
          (None, st1) \<Rightarrow> Done (False, st1)
        | (Some e, st1) \<Rightarrow>
            obind (or_crash (efcps st1 e)) (\<lambda>ef.
              if xState ef = eEfcpDeallocated then Done (True, st1)
              else
                obind (PCI_GET (nbs st1) du) (\<lambda>p.
                obind (if xType p = PDU_TYPE_DT
                       then
                         obind (or_crash (pxConnection ef)) (\<lambda>c.
                           Done (if xDestinationCepId c \<noteq> CEP_ID_WRONG
                                 then st1\<lparr>efcps := (efcps st1)(e \<mapsto>
                                        ef\<lparr>pxConnection := Some (c\<lparr>xDestinationCepId := xCepDest p\<rparr>)\<rparr>)\<rparr>
                                 else st1))
                       else Done st1) (\<lambda>st2. xEfcpReceive e du st2)))))"

text \<open>\<^verbatim>\<open>xDtpPduSend\<close>; \<^verbatim>\<open>xRmtSend\<close> does nothing and returns true.  A PDU to the own address comes back
  through the container, whose success is reported as a failure, and the function ends with
  \<^verbatim>\<open>return 0\<close>.\<close>

definition xDtpPduSend ::
  "nat option \<Rightarrow> nat \<Rightarrow> 'a efcp_state_scheme \<Rightarrow> (bool \<times> 'a efcp_state_scheme) outcome" where
  "xDtpPduSend new du st =
    obind (PCI_GET (nbs st) du) (\<lambda>p.
      if xSource p \<noteq> xDestination p then Done (True, st)
      else
        obind (xDuDecap new PCI_SZ du (nbs st)) (\<lambda>(ok, nb1).
          if \<not> ok then Done (False, st\<lparr>nbs := nb1\<rparr>)
          else obind (xEfcpContainerReceive (xCepDest p) du (st\<lparr>nbs := nb1\<rparr>)) (\<lambda>(r, st2). Done (False, st2))))"

definition run_crash :: "'a run \<Rightarrow> 'a outcome" where
  "run_crash r = (case r of Ret x \<Rightarrow> Done x | _ \<Rightarrow> Crash)"

text \<open>A resource handed out serves as a buffer of the network buffers.\<close>

definition lend :: "nat \<Rightarrow> rsrc_state \<Rightarrow> nb_state \<Rightarrow> nb_state" where
  "lend b r nb = nb\<lparr>bufs := (bufs nb)(b := map_option payload (rsrcs r (b - RSRC_HDR)))\<rparr>"

definition pci_sets :: "(pci \<Rightarrow> pci) list \<Rightarrow> nat \<Rightarrow> nb_state \<Rightarrow> nb_state outcome" where
  "pci_sets fs du nb = foldl (\<lambda>r f. obind r (PCI_SET f du)) (Done nb) fs"

text \<open>The fields \<^verbatim>\<open>xDtpWrite\<close> stores, in its order.\<close>

definition dtp_fields :: "connection \<Rightarrow> nat \<Rightarrow> u32 \<Rightarrow> bool \<Rightarrow> (pci \<Rightarrow> pci) list" where
  "dtp_fields c sz csn drf =
    [ucVersion_update (\<lambda>_. 1), xCepSource_update (\<lambda>_. xSourceCepId c), xCepDest_update (\<lambda>_. xDestinationCepId c),
     xQosId_update (\<lambda>_. c_qos c), xDestination_update (\<lambda>_. xDestinationAddress c),
     xSource_update (\<lambda>_. xSourceAddress c), xFlags_update (\<lambda>_. 0), xType_update (\<lambda>_. PDU_TYPE_DT),
     xPduLen_update (\<lambda>_. of_nat sz), xSequenceNumber_update (\<lambda>_. csn)]
    @ (if drf then [xFlags_update (\<lambda>f. f OR PDU_FLAGS_DATA_RUN)] else [])"

text \<open>\<open>ha\<close> is the heap behind the PCI pool, \<open>new\<close> and \<open>new2\<close> the addresses for new segments.\<close>

definition xDtpWrite ::
  "heap \<Rightarrow> nat option \<Rightarrow> nat option \<Rightarrow> nat \<Rightarrow> nat \<Rightarrow> 'a efcp_state_scheme \<Rightarrow> (bool \<times> 'a efcp_state_scheme) outcome" where
  "xDtpWrite ha new new2 e du st =
    obind (or_crash (cells (nbs st) du)) (\<lambda>nb.
      if \<not> nb_is NB_RINA_DATA nb then Crash
      else
        obind (run_crash (pxRsrcAlloc (xPciPool st) None ha (rs st))) (\<lambda>(pci, rs1).
          let st1 = st\<lparr>rs := rs1\<rparr> in
          case pci of None \<Rightarrow> Done (False, st1)
          | Some b \<Rightarrow>
              obind (or_crash (unNetBufTotalSize (nbs st1) du)) (\<lambda>sz.
              obind (xDuEncap new b PCI_SZ du (lend b rs1 (nbs st1))) (\<lambda>(x, nb1).
                if x = None then Done (False, st1\<lparr>nbs := nb1\<rparr>)
                else
                  obind (or_crash (efcps st1 e)) (\<lambda>ef.
                  obind (or_crash (pxDtp ef)) (\<lambda>sv.
                  obind (or_crash (pxConnection ef)) (\<lambda>c.
                    let csn = xNextSeqNumberToSend sv + 1 in
                    obind (pci_sets (dtp_fields c sz csn (xDrfFlag sv)) du nb1) (\<lambda>nb2.
                      xDtpPduSend new2 du
                        (st1\<lparr>nbs := nb2, efcps := (efcps st1)(e \<mapsto>
                          ef\<lparr>pxDtp := Some (sv\<lparr>xNextSeqNumberToSend := csn\<rparr>)\<rparr>)\<rparr>))))))))) "

definition xEfcpWrite ::
  "heap \<Rightarrow> nat option \<Rightarrow> nat option \<Rightarrow> nat \<Rightarrow> nat \<Rightarrow> 'a efcp_state_scheme \<Rightarrow> (bool \<times> 'a efcp_state_scheme) outcome" where
  "xEfcpWrite ha new new2 e du st = obind (xDtpWrite ha new new2 e du st) (\<lambda>(r, st1). Done (r, st1))"

definition xEfcpContainerWrite ::
  "heap \<Rightarrow> nat option \<Rightarrow> nat option \<Rightarrow> u8 \<Rightarrow> nat \<Rightarrow> 'a efcp_state_scheme \<Rightarrow> (bool \<times> 'a efcp_state_scheme) outcome" where
  "xEfcpContainerWrite ha new new2 cep du st =
    (if \<not> is_cep_id_ok cep then Done (False, st)
     else
       (case pxEfcpImapFind cep st of
          (None, st1) \<Rightarrow> Done (False, st1)
        | (Some e, st1) \<Rightarrow>
            obind (or_crash (efcps st1 e)) (\<lambda>ef.
              if xState ef = eEfcpDeallocated then Done (False, st1) else xEfcpWrite ha new new2 e du st1)))"

section \<open>Connections\<close>

text \<open>\<^verbatim>\<open>xEfcpContainerInit\<close> on the zeroed container; \<open>cidm\<close> tells whether the CEP-id manager was
  created.  The pointer to the RMT is not set here nor anywhere else.\<close>

definition xEfcpContainerInit :: "bool \<Rightarrow> nat option \<Rightarrow> 'a efcp_state_scheme \<Rightarrow> bool \<times> 'a efcp_state_scheme" where
  "xEfcpContainerInit cidm pool st =
    (let st1 = xEfcpImapCreate st in if \<not> cidm then (False, st1) else (True, st1\<lparr>xPciPool := pool\<rparr>))"

definition pxEfcpCreate :: efcp where
  "pxEfcpCreate = \<lparr>xState = eEfcpAllocated, pxConnection = None, pxDtp = None, pxUserIpcp = None\<rparr>"

text \<open>\<open>rmt\<close> tells whether the pointer to the RMT is set, \<open>md\<close> whether there is memory.\<close>

definition pxDtpCreate :: "bool \<Rightarrow> bool \<Rightarrow> dtp_sv option outcome" where
  "pxDtpCreate rmt md = (if \<not> rmt then Crash else Done (if md then Some vDtpStateVectorInit else None))"

definition is_candidate_connection_ok :: "connection \<Rightarrow> bool" where
  "is_candidate_connection_ok c = (is_cep_id_ok (xSourceCepId c) \<and> is_port_id_ok (xPortId c))"

text \<open>\<^verbatim>\<open>xEfcpDestroy\<close> reads \<^verbatim>\<open>pxUserIpcp\<close>, which nothing sets.\<close>

definition xEfcpDestroy :: "nat \<Rightarrow> 'a efcp_state_scheme \<Rightarrow> (bool \<times> 'a efcp_state_scheme) outcome" where
  "xEfcpDestroy e st =
    obind (or_crash (efcps st e)) (\<lambda>ef.
    obind (or_crash (pxUserIpcp ef)) (\<lambda>u.
      Done (True, st\<lparr>efcps := (efcps st)(e := None)\<rparr>)))"

text \<open>\<open>mc\<close>, \<open>me\<close> and \<open>md\<close> tell whether there is memory for the connection, the instance (at \<open>me\<close>) and
  the data transfer part.\<close>

definition xEfcpConnectionCreate ::
  "bool \<Rightarrow> nat option \<Rightarrow> bool \<Rightarrow> u8 \<Rightarrow> u8 \<Rightarrow> u32 \<Rightarrow> u8 \<Rightarrow> u8 \<Rightarrow> u8 \<Rightarrow> 'a efcp_state_scheme
     \<Rightarrow> (u8 \<times> 'a efcp_state_scheme) outcome" where
  "xEfcpConnectionCreate mc me md src dst port qos scep dcep st =
    (if \<not> mc then Crash
     else
       (case me of
          None \<Rightarrow> Done (CEP_ID_WRONG, st)
        | Some e \<Rightarrow>
            let cep = 1;
                c = \<lparr>xPortId = port, xSourceAddress = CFG_LOCAL_ADDRESS, xDestinationAddress = dst,
                     xSourceCepId = cep, xDestinationCepId = dcep, c_qos = qos\<rparr>;
                st1 = st\<lparr>efcps := (efcps st)(e \<mapsto> pxEfcpCreate)\<rparr> in
            if \<not> is_candidate_connection_ok c
            then obind (xEfcpDestroy e st1) (\<lambda>(r, st2). Done (CEP_ID_WRONG, st2))
            else
              obind (pxDtpCreate (pxRmt st) md) (\<lambda>dtp.
                if dtp = None
                then
                  obind (xEfcpDestroy e (st1\<lparr>efcps := (efcps st1)(e \<mapsto> pxEfcpCreate\<lparr>pxConnection := Some c\<rparr>)\<rparr>))
                    (\<lambda>(r, st2). Done (CEP_ID_WRONG, st2))
                else
                  Done (cep, snd (xEfcpImapAdd cep e (st1\<lparr>efcps := (efcps st1)(e \<mapsto>
                    pxEfcpCreate\<lparr>pxConnection := Some c, pxDtp := dtp\<rparr>)\<rparr>))))))"

definition on_instance ::
  "u8 \<Rightarrow> (connection \<Rightarrow> connection) \<Rightarrow> 'a efcp_state_scheme \<Rightarrow> (bool \<times> 'a efcp_state_scheme) outcome" where
  "on_instance cep f st =
    (case pxEfcpImapFind cep st of
       (None, st1) \<Rightarrow> Done (False, st1)
     | (Some e, st1) \<Rightarrow>
         obind (or_crash (efcps st1 e)) (\<lambda>ef.
           if xState ef = eEfcpDeallocated
           then obind (xEfcpDestroy e st1) (\<lambda>(r, st2). Done (\<not> r, st2))
           else
             obind (or_crash (pxConnection ef)) (\<lambda>c.
               Done (True, st1\<lparr>efcps := (efcps st1)(e \<mapsto> ef\<lparr>pxConnection := Some (f c)\<rparr>)\<rparr>))))"

definition xEfcpConnectionModify ::
  "u8 \<Rightarrow> u8 \<Rightarrow> u8 \<Rightarrow> 'a efcp_state_scheme \<Rightarrow> (bool \<times> 'a efcp_state_scheme) outcome" where
  "xEfcpConnectionModify cep src dst st =
    on_instance cep (\<lambda>c. c\<lparr>xSourceAddress := src, xDestinationAddress := dst\<rparr>) st"

definition xEfcpConnectionUpdate ::
  "u8 \<Rightarrow> u8 \<Rightarrow> 'a efcp_state_scheme \<Rightarrow> (bool \<times> 'a efcp_state_scheme) outcome" where
  "xEfcpConnectionUpdate frm to st =
    (if \<not> is_cep_id_ok frm \<or> \<not> is_cep_id_ok to then Done (False, st)
     else on_instance frm (\<lambda>c. c\<lparr>xDestinationCepId := to\<rparr>) st)"

definition xEfcpConnectionDestroy :: "u8 \<Rightarrow> 'a efcp_state_scheme \<Rightarrow> (bool \<times> 'a efcp_state_scheme) outcome" where
  "xEfcpConnectionDestroy cep st =
    (if \<not> is_cep_id_ok cep then Done (False, st)
     else
       (case pxEfcpImapFind cep st of
          (None, st1) \<Rightarrow> Done (False, st1)
        | (Some e, st1) \<Rightarrow>
            (case xEfcpImapRemove cep st1 of
               (True, st2) \<Rightarrow> Done (False, st2)
             | (False, st2) \<Rightarrow>
                 obind (or_crash (efcps st2 e)) (\<lambda>ef.
                 obind (xEfcpDestroy e (st2\<lparr>efcps := (efcps st2)(e \<mapsto> ef\<lparr>xState := eEfcpDeallocated\<rparr>)\<rparr>))
                   (\<lambda>(r, st3). Done (\<not> r, st3))))))"

section \<open>Sequence numbers\<close>

text \<open>The PDUs passed up when the PDUs \<open>ps\<close> come in, in their order.\<close>

fun dtp_run :: "dtp_sv \<Rightarrow> pci list \<Rightarrow> pci list \<times> dtp_sv" where
  "dtp_run sv [] = ([], sv)"
| "dtp_run sv (p # ps) =
    (let (ret, post, sv1) = dtp_accept p sv; (ds, sv2) = dtp_run sv1 ps in
     ((if post then p # ds else ds), sv2))"

definition sn :: "pci \<Rightarrow> nat" where "sn p = unat (xSequenceNumber p)"

text \<open>From the window edge \<open>m\<close> on, every number is at most one above the highest so far: PDUs may be
  repeated at will but none is missing.\<close>

fun no_gap :: "nat \<Rightarrow> pci list \<Rightarrow> bool" where
  "no_gap m [] = True"
| "no_gap m (p # ps) = (sn p \<le> m + 1 \<and> no_gap (max m (sn p)) ps)"

definition top :: "nat \<Rightarrow> pci list \<Rightarrow> nat" where
  "top m ps = fold (\<lambda>p. max (sn p)) ps m"

lemma top_simps [simp]: "top m [] = m" "top m (p # ps) = top (max m (sn p)) ps"
  by (simp_all add: top_def max.commute)

lemma top_ge: "m \<le> top m ps"
proof (induction ps arbitrary: m)
  case (Cons p ps)
  from Cons.IH [of "max m (sn p)"] show ?case by simp
qed simp

lemma accept_old:
  assumes "\<not> xDrfRequired sv" "sn p \<le> unat (xRcvLeftWindowEdge sv)"
  shows "dtp_accept p sv = (False, False, sv)"
  using assms by (simp add: dtp_accept_def sn_def word_le_nat_alt)

lemma accept_next:
  assumes "\<not> xDrfRequired sv" "sn p = unat (xRcvLeftWindowEdge sv) + 1"
  shows "dtp_accept p sv = (True, True, sv\<lparr>xRcvLeftWindowEdge := xSequenceNumber p\<rparr>)"
proof -
  have "xRcvLeftWindowEdge sv < xSequenceNumber p" using assms(2) by (simp add: sn_def word_less_nat_alt)
  from unat_add_1_lt [OF this] have "xSequenceNumber p = xRcvLeftWindowEdge sv + 1"
    using assms(2) by (simp add: sn_def word_unat_eq_iff)
  then show ?thesis using assms(1) \<open>xRcvLeftWindowEdge sv < xSequenceNumber p\<close>
    by (simp add: dtp_accept_def Let_def)
qed

lemma run_no_gap:
  assumes "\<not> xDrfRequired sv" "unat (xRcvLeftWindowEdge sv) = m" "no_gap m ps"
  shows "List.map sn (fst (dtp_run sv ps)) = [m + 1 ..< top m ps + 1] \<and>
    unat (xRcvLeftWindowEdge (snd (dtp_run sv ps))) = top m ps"
  using assms
proof (induction ps arbitrary: sv m)
  case (Cons p ps)
  show ?case
  proof (cases "sn p \<le> m")
    case True
    then have "max m (sn p) = m" by simp
    then show ?thesis
      using Cons.IH [of sv m] Cons.prems accept_old [of sv p] True by (simp add: split_beta)
  next
    case False
    then have e: "sn p = m + 1" "max m (sn p) = m + 1" using Cons.prems(3) by simp_all
    let ?sv = "sv\<lparr>xRcvLeftWindowEdge := xSequenceNumber p\<rparr>"
    have "unat (xRcvLeftWindowEdge ?sv) = m + 1" using e(1) by (simp add: sn_def)
    moreover have "m + 1 \<le> top (m + 1) ps" by (rule top_ge)
    ultimately show ?thesis
      using Cons.IH [of ?sv "m + 1"] Cons.prems accept_next [of sv p] e
      by (simp add: split_beta upt_conv_Cons)
  qed
qed simp

text \<open>C9. When the first PDU of a run carries the data run flag and no number is skipped, every
  number is passed up exactly once and in order, however often and in whatever order the
  earlier ones are repeated.\<close>
theorem dtp_delivers_once:
  assumes "xDrfRequired sv" "xFlags p AND PDU_FLAGS_DATA_RUN \<noteq> 0" "no_gap (sn p) ps"
  shows "List.map sn (fst (dtp_run sv (p # ps))) = [sn p ..< top (sn p) ps + 1]"
proof -
  let ?sv = "sv\<lparr>xDrfRequired := False, xRcvLeftWindowEdge := xSequenceNumber p\<rparr>"
  have a: "dtp_accept p sv = (True, True, ?sv)" using assms(1,2) by (simp add: dtp_accept_def Let_def)
  have "List.map sn (fst (dtp_run ?sv ps)) = [sn p + 1 ..< top (sn p) ps + 1]"
    using run_no_gap [of ?sv "sn p" ps] assms(3) by (simp add: sn_def)
  then show ?thesis using a top_ge [of "sn p" ps] by (simp add: split_beta upt_conv_Cons)
qed

definition pdu :: "u8 \<Rightarrow> u32 \<Rightarrow> pci" where
  "pdu fl n = \<lparr>ucVersion = 1, xDestination = 1, xSource = 2, xQosId = 3, xCepDest = 1, xCepSource = 4,
     xType = PDU_TYPE_DT, xFlags = fl, xPduLen = 0, xSequenceNumber = n\<rparr>"

lemma dtp_delivers_once_witness:
  "List.map sn (fst (dtp_run vDtpStateVectorInit [pdu 0x80 1, pdu 0 2, pdu 0 1, pdu 0 3, pdu 0 2])) = [1, 2, 3]"
proof -
  have "List.map sn (fst (dtp_run vDtpStateVectorInit (pdu 0x80 1 # [pdu 0 2, pdu 0 1, pdu 0 3, pdu 0 2]))) =
      [sn (pdu 0x80 1) ..< top (sn (pdu 0x80 1)) [pdu 0 2, pdu 0 1, pdu 0 3, pdu 0 2] + 1]"
    by (rule dtp_delivers_once)
      (simp_all add: vDtpStateVectorInit_def pdu_def sn_def PDU_FLAGS_DATA_RUN_def)
  moreover have "[sn (pdu 0x80 1) ..< top (sn (pdu 0x80 1)) [pdu 0 2, pdu 0 1, pdu 0 3, pdu 0 2] + 1] = [1, 2, 3]"
    by (simp add: pdu_def sn_def upt_rec)
  ultimately show ?thesis by simp
qed

text \<open>After a loss the window edge stays where it is until the missing number comes: all PDUs
  above the edge are passed up, once for every copy that comes in, and in the order they come in;
  and a PDU that comes before any data run flag is passed up too, though the code says it drops
  it.\<close>
theorem dtp_after_loss:
  assumes "\<not> xDrfRequired sv" "\<forall>p \<in> set ps. xSequenceNumber p \<noteq> xRcvLeftWindowEdge sv + 1"
    "xDrfRequired sv0" "xFlags p0 AND PDU_FLAGS_DATA_RUN = 0"
  shows "dtp_run sv ps = (List.filter (\<lambda>p. xRcvLeftWindowEdge sv < xSequenceNumber p) ps, sv) \<and>
    dtp_run sv0 [p0, p0] = ([p0, p0], sv0)"
proof
  show "dtp_run sv ps = (List.filter (\<lambda>p. xRcvLeftWindowEdge sv < xSequenceNumber p) ps, sv)"
    using assms(2) by (induction ps) (auto simp: dtp_accept_def assms(1) Let_def not_le)
  show "dtp_run sv0 [p0, p0] = ([p0, p0], sv0)"
    using assms(3,4) by (simp add: dtp_accept_def Let_def)
qed

section \<open>From the container to the flow\<close>

lemma find_loop_cong:
  assumes "xFlowRequestTable st' = xFlowRequestTable st" "fais st' = fais st"
  shows "find_loop st' port rows = find_loop st port rows"
proof (induction rows)
  case (Cons r rows)
  show ?case unfolding find_loop.simps assms Cons.IH ..
qed simp

text \<open>The CEP id \<open>cep\<close> leads to the instance \<open>ef\<close> at \<open>e\<close> with the connection \<open>c\<close> and the state vector \<open>sv\<close>,
  whose port is that of a flow that is allocated, with the handle \<open>h\<close> at \<open>ha\<close>.\<close>

definition connected ::
  "'a efcp_state_scheme \<Rightarrow> u8 \<Rightarrow> nat \<Rightarrow> efcp \<Rightarrow> connection \<Rightarrow> dtp_sv \<Rightarrow> nat \<Rightarrow> flow_handle \<Rightarrow> bool" where
  "connected st cep e ef c sv ha h =
    (is_cep_id_ok cep \<and> fst (pxEfcpImapFind cep st) = Some e \<and> efcps st e = Some ef \<and>
     xState ef = eEfcpAllocated \<and> pxConnection ef = Some c \<and> pxDtp ef = Some sv \<and> is_port_id_ok (xPortId c) \<and>
     (\<exists>a f. pxFAFindInstance (xPortId c) st = Done (Some a) \<and> fais st a = Some f \<and>
        eFaiState f = eFAI_ALLOCATED \<and> pxFlowAllocatorHandle f = ha \<and> handles st ha = Some h))"

lemma imap_find_fields [simp]:
  "efcps (snd (pxEfcpImapFind cep st)) = efcps st" "nbs (snd (pxEfcpImapFind cep st)) = nbs st"
  "xFlowRequestTable (snd (pxEfcpImapFind cep st)) = xFlowRequestTable st"
  "fais (snd (pxEfcpImapFind cep st)) = fais st" "handles (snd (pxEfcpImapFind cep st)) = handles st"
  "rs (snd (pxEfcpImapFind cep st)) = rs st" "xPciPool (snd (pxEfcpImapFind cep st)) = xPciPool st"
  by (simp_all add: pxEfcpImapFind_def split: option.split)

lemma post_found:
  assumes "pxFAFindInstance port st0 = Done (Some a)" "fais st0 a = Some f" "eFaiState f = eFAI_ALLOCATED"
    "pxFlowAllocatorHandle f = ha" "handles st0 ha = Some h" "is_port_id_ok port"
    "xFlowRequestTable st = xFlowRequestTable st0" "fais st = fais st0" "handles st = handles st0"
  shows "xFlowAllocatorDuPost port du st = Done (True, st\<lparr>handles := (handles st)(ha \<mapsto> post_packet du h)\<rparr>)"
  using assms find_loop_cong [of st st0 port "xFlowRequestTable st0"]
  by (simp add: xFlowAllocatorDuPost_def pxFAFindInstance_def)

text \<open>C14. A data PDU for a connection whose flow is allocated goes the whole way: the data transfer
  protocol decides on its sequence number, the new state vector is kept, and the PDU is put
  among the packets that wait at the flow exactly when it is accepted; nothing else of the
  process changes.\<close>
theorem efcp_delivers:
  assumes "connected st cep e ef c sv ha h" "PCI_GET (nbs st) du = Done p" "xType p = PDU_TYPE_DT"
    "dtp_accept p sv = (ret, post, sv1)"
  shows "xEfcpContainerReceive cep du st = Done (ret,
    (snd (pxEfcpImapFind cep st))
      \<lparr>efcps := (efcps st)(e \<mapsto> ef\<lparr>pxConnection := Some (if xDestinationCepId c \<noteq> CEP_ID_WRONG
           then c\<lparr>xDestinationCepId := xCepDest p\<rparr> else c), pxDtp := Some sv1\<rparr>),
       handles := (if post then (handles st)(ha \<mapsto> post_packet du h) else handles st)\<rparr>)"
proof -
  note k = assms(1) [unfolded connected_def]
  obtain a f where f: "pxFAFindInstance (xPortId c) st = Done (Some a)" "fais st a = Some f"
    "eFaiState f = eFAI_ALLOCATED" "pxFlowAllocatorHandle f = ha" "handles st ha = Some h" using k by blast
  define st1 where "st1 = snd (pxEfcpImapFind cep st)"
  have st1: "efcps st1 = efcps st" "nbs st1 = nbs st" "xFlowRequestTable st1 = xFlowRequestTable st"
    "fais st1 = fais st" "handles st1 = handles st"
    by (simp_all add: st1_def)
  have i: "pxEfcpImapFind cep st = (Some e, st1)" using k by (metis prod.collapse st1_def)
  define c' where "c' = (if xDestinationCepId c \<noteq> CEP_ID_WRONG then c\<lparr>xDestinationCepId := xCepDest p\<rparr> else c)"
  define st2 where "st2 = (if xDestinationCepId c \<noteq> CEP_ID_WRONG
    then st1\<lparr>efcps := (efcps st1)(e \<mapsto> ef\<lparr>pxConnection := Some (c\<lparr>xDestinationCepId := xCepDest p\<rparr>)\<rparr>)\<rparr> else st1)"
  have ef: "efcps st2 = (efcps st)(e \<mapsto> ef\<lparr>pxConnection := Some c'\<rparr>)"
    using k by (auto simp: st2_def c'_def st1 fun_eq_iff)
  have st2: "nbs st2 = nbs st" "xFlowRequestTable st2 = xFlowRequestTable st" "fais st2 = fais st"
    "handles st2 = handles st" "st2 = st1\<lparr>efcps := efcps st2\<rparr>" by (simp_all add: st2_def st1)
  have "xEfcpContainerReceive cep du st = xEfcpReceive e du st2"
    using k i assms(2,3) by (simp add: xEfcpContainerReceive_def st1 st2_def)
  also have "... = xDtpReceive e du st2"
    using assms(2,3) st2(1) by (simp add: xEfcpReceive_def pdu_type_is_control_def pdu_types)
  finally have r: "xEfcpContainerReceive cep du st = xDtpReceive e du st2" .
  define st3 where "st3 = st2\<lparr>efcps := (efcps st2)(e \<mapsto> (ef\<lparr>pxConnection := Some c'\<rparr>)\<lparr>pxDtp := Some sv1\<rparr>)\<rparr>"
  have d: "xDtpReceive e du st2 =
      (if post then obind (xDtpPduPost e du st3) (\<lambda>(x, st4). Done (ret, st4)) else Done (ret, st3))"
    using ef k assms(2,4) st2(1) by (simp add: xDtpReceive_def Let_def st3_def)
  have st3: "efcps st3 = (efcps st)(e \<mapsto> (ef\<lparr>pxConnection := Some c'\<rparr>)\<lparr>pxDtp := Some sv1\<rparr>)"
    "xFlowRequestTable st3 = xFlowRequestTable st" "fais st3 = fais st" "handles st3 = handles st"
    using ef st2 by (simp_all add: st3_def)
  have port: "xPortId c' = xPortId c" by (simp add: c'_def)
  have "xDtpPduPost e du st3 = Done (True, st3\<lparr>handles := (handles st)(ha \<mapsto> post_packet du h)\<rparr>)"
    using post_found [OF f, of st3 du] k st3 port by (simp add: xDtpPduPost_def xEfcpEnqueue_def)
  moreover have "st3 = st1\<lparr>efcps := (efcps st)(e \<mapsto> (ef\<lparr>pxConnection := Some c'\<rparr>)\<lparr>pxDtp := Some sv1\<rparr>)\<rparr>"
    using st2(5) ef by (simp add: st3_def)
  ultimately show ?thesis
    unfolding r d st1_def [symmetric] c'_def [symmetric] using st1(5) by simp
qed

definition efcp_demo :: efcp_state where
  "efcp_demo =
    \<lparr>xFlowRequestTable = xFlowRequestTable (add_entries [1] two_flows), fais = fais two_flows,
     handles = handles two_flows,
     xEfcpImapTable = [\<lparr>xCepIdKey = 1, xEfcpValue = Some 30, ucValid = 1\<rparr>, null_row],
     efcps = [30 \<mapsto> \<lparr>xState = eEfcpAllocated,
       pxConnection = Some \<lparr>xPortId = 5, xSourceAddress = 1, xDestinationAddress = 2, xSourceCepId = 1,
         xDestinationCepId = 4, c_qos = 3\<rparr>, pxDtp = Some vDtpStateVectorInit, pxUserIpcp = None\<rparr>],
     nbs = \<lparr>cells = [5 \<mapsto> \<lparr>pxNext = None, pxFirst = 5, eType = NB_RINA_DATA, unSz = 2, pxBuf = Some (7, 0),
         pxBufStart = Some 7, xFreed = False, freemethod = None\<rparr>],
       bufs = [7 \<mapsto> pci_bytes (pdu 0x80 9) @ [1, 2]]\<rparr>,
     rs = sample_state [], xPciPool = Some 100, pxRmt = True\<rparr>"

lemma efcp_delivers_witness:
  "\<exists>st'. xEfcpContainerReceive 1 5 efcp_demo = Done (True, st') \<and>
     map_option xListWaitingPackets (handles st' 11) = Some [5]"
proof -
  define ef where "ef = the (efcps efcp_demo 30)"
  define c where "c = the (pxConnection ef)"
  define h where "h = the (handles two_flows 11)"
  have "pxFAFindInstance 5 efcp_demo = Done (Some 1)"
    by (simp add: efcp_demo_def pxFAFindInstance_def add_entries_def prvAddFlowRequestEntry_def two_flows_def
        fa_init_def CFG_FLOWS_REQUEST_def find_idx_replicate numeral_eq_Suc)
  then have k: "connected efcp_demo 1 30 ef c vDtpStateVectorInit 11 h"
    by (simp add: connected_def ef_def c_def h_def efcp_demo_def pxEfcpImapFind_def is_cep_id_ok_def
        CEP_ID_WRONG_def is_port_id_ok_def PORT_ID_WRONG_def two_flows_def)
  have "pci_of (pci_bytes (pdu 0x80 9)) = Some (pdu 0x80 9)"
    using pci_roundtrip_prefix [of "pdu 0x80 9" "[]"] by simp
  then have g: "PCI_GET (nbs efcp_demo) 5 = Done (pdu 0x80 9)"
    by (simp add: PCI_GET_def efcp_demo_def copy_from_def)
  have a: "dtp_accept (pdu 0x80 9) vDtpStateVectorInit =
      (True, True, vDtpStateVectorInit\<lparr>xDrfRequired := False, xRcvLeftWindowEdge := 9\<rparr>)"
    by (simp add: dtp_accept_def Let_def pdu_def PDU_FLAGS_DATA_RUN_def vDtpStateVectorInit_def)
  have "xType (pdu 0x80 9) = PDU_TYPE_DT" "xListWaitingPackets h = []"
    by (simp_all add: pdu_def h_def two_flows_def)
  then show ?thesis using efcp_delivers [OF k g _ a] by (simp add: post_packet_def)
qed

text \<open>There is at most one connection: the second one created takes the CEP id and the row of
  the first, which no CEP id leads to any more; and destroying it reports a failure, takes it out
  of the map and leaves its instance allocated and in the allocated state.\<close>
theorem only_last_connection:
  assumes "xEfcpImapTable st = replicate CFG_EFCP_IMAP_ENTRIES null_row" "pxRmt st" "is_port_id_ok port1"
    "is_port_id_ok port2" "e1 \<noteq> e2"
    "xEfcpConnectionCreate True (Some e1) True s1 d1 port1 q1 sc1 dc1 st = Done (r1, st1)"
    "xEfcpConnectionCreate True (Some e2) True s2 d2 port2 q2 sc2 dc2 st1 = Done (r2, st2)"
  shows "r1 = 1 \<and> r2 = 1 \<and> fst (pxEfcpImapFind 1 st1) = Some e1 \<and> fst (pxEfcpImapFind 1 st2) = Some e2 \<and>
    (\<forall>cep. fst (pxEfcpImapFind cep st2) \<noteq> Some e1) \<and> efcps st2 e1 \<noteq> None \<and>
    (\<exists>st3. xEfcpConnectionDestroy 1 st2 = Done (False, st3) \<and> efcps st3 = efcps st2 \<and>
       (\<forall>cep. fst (pxEfcpImapFind cep st3) = None))"
proof -
  let ?row = "\<lambda>e. \<lparr>xCepIdKey = 1, xEfcpValue = Some e, ucValid = 1\<rparr>"
  have n: "replicate CFG_EFCP_IMAP_ENTRIES null_row = null_row # replicate 4 null_row"
    by (simp add: CFG_EFCP_IMAP_ENTRIES_def numeral_eq_Suc)
  have ok: "is_cep_id_ok 1" by (simp add: is_cep_id_ok_def CEP_ID_WRONG_def)
  have c1: "r1 = 1" "xEfcpImapTable st1 = ?row e1 # replicate 4 null_row" "pxRmt st1"
    "efcps st1 e1 \<noteq> None"
    using assms(1,2,3,6) ok n
    by (auto simp: xEfcpConnectionCreate_def pxDtpCreate_def is_candidate_connection_ok_def xEfcpImapAdd_def Let_def)
  have c2: "r2 = 1" "xEfcpImapTable st2 = ?row e2 # replicate 4 null_row" "efcps st2 e1 = efcps st1 e1"
    using assms(4,5,7) c1 ok
    by (auto simp: xEfcpConnectionCreate_def pxDtpCreate_def is_candidate_connection_ok_def xEfcpImapAdd_def Let_def)
  have f: "fst (pxEfcpImapFind cep st') = (if cep = 1 then Some e else None)"
    if "xEfcpImapTable st' = ?row e # replicate 4 null_row" for st' :: "'a efcp_state_scheme" and e cep
    using that by (auto simp: pxEfcpImapFind_def find_idx_replicate null_row_def)
  have z: "find_idx (\<lambda>r. xCepIdKey r = 0) (null_row # xs) = Some 0" for xs by (simp add: null_row_def)
  define st2' where "st2' = snd (pxEfcpImapFind 1 st2)"
  have s: "xEfcpImapTable st2' = ?row e2 # replicate 4 null_row"
    using c2(2) by (simp add: pxEfcpImapFind_def st2'_def)
  have p2: "pxEfcpImapFind 1 st2 = (Some e2, st2')"
    using f [OF c2(2), of 1] by (metis prod.collapse st2'_def)
  define st3 where "st3 = snd (xEfcpImapRemove 1 st2')"
  have t3: "xEfcpImapTable st3 = null_row # replicate 4 null_row"
    using s by (simp add: st3_def xEfcpImapRemove_def)
  have "xEfcpConnectionDestroy 1 st2 = Done (False, st3)"
    using p2 ok by (simp add: xEfcpConnectionDestroy_def st3_def xEfcpImapRemove_def)
  moreover have "efcps st3 = efcps st2"
    by (simp add: st3_def xEfcpImapRemove_def st2'_def split: option.split)
  moreover have "fst (pxEfcpImapFind cep st3) = None" for cep
    using t3 by (auto simp: pxEfcpImapFind_def null_row_def find_idx_replicate)
  ultimately show ?thesis using c1 c2 f [OF c1(2)] f [OF c2(2)] assms(5) by auto
qed

text \<open>The sending side as it is initialised moves nothing.  Every write fails and changes nothing,
  since the header is asked of the PCI pool without a requestor's name, which the pool refuses;
  and in a container that \<^verbatim>\<open>xEfcpContainerInit\<close> has set up, no connection comes to be, since the
  pointer to the RMT that the data transfer part asserts is not set.\<close>
theorem nothing_is_sent:
  assumes "cells (nbs st) du = Some nb" "nb_is NB_RINA_DATA nb" "xPciPool st = Some p"
    "pools (rs st) p = Some pl" "fst (pxEfcpImapFind cep st) = Some e" "efcps st e = Some ef" "\<not> pxRmt st0"
    "is_port_id_ok port"
  shows "xDtpWrite ha new new2 e du st = Done (False, st) \<and>
    (\<exists>st'. xEfcpContainerWrite ha new new2 cep du st = Done (False, st')) \<and>
    xEfcpConnectionCreate True (Some x) md s d port q sc dc (snd (xEfcpContainerInit cidm pool st0)) = Crash"
proof (intro conjI)
  have w: "xDtpWrite ha new new2 e du st' = Done (False, st')"
    if "nbs st' = nbs st" "xPciPool st' = xPciPool st" "rs st' = rs st" for st' :: "'a efcp_state_scheme"
  proof -
    have "pxRsrcAlloc (xPciPool st') None ha (rs st') = Ret (None, rs st')"
      using assms(3,4) that by (simp add: pxRsrcAlloc_def pxRsrcVarAlloc_def refused_def)
    then show ?thesis using assms(1,2) that by (simp add: xDtpWrite_def run_crash_def)
  qed
  then show "xDtpWrite ha new new2 e du st = Done (False, st)" by simp
  define st1 where "st1 = snd (pxEfcpImapFind cep st)"
  have st1: "nbs st1 = nbs st" "xPciPool st1 = xPciPool st" "rs st1 = rs st" "efcps st1 = efcps st"
    by (simp_all add: st1_def)
  have i: "pxEfcpImapFind cep st = (Some e, st1)" using assms(5) by (metis prod.collapse st1_def)
  show "\<exists>st'. xEfcpContainerWrite ha new new2 cep du st = Done (False, st')"
    using w [OF st1(1-3)] i st1(4) assms(6) by (simp add: xEfcpContainerWrite_def xEfcpWrite_def)
  have "\<not> pxRmt (snd (xEfcpContainerInit cidm pool st0))"
    using assms(7) by (simp add: xEfcpContainerInit_def xEfcpImapCreate_def Let_def)
  moreover have "is_cep_id_ok 1" by (simp add: is_cep_id_ok_def CEP_ID_WRONG_def)
  ultimately show "xEfcpConnectionCreate True (Some x) md s d port q sc dc
      (snd (xEfcpContainerInit cidm pool st0)) = Crash"
    using assms(8) by (simp add: xEfcpConnectionCreate_def pxDtpCreate_def is_candidate_connection_ok_def Let_def)
qed

end
