(* ===== verification/Rmt.thy ===== *)
theory Rmt
  imports Efcp Keyed_Table
begin

text \<open>The relaying and multiplexing task (\<^verbatim>\<open>Rmt/Rmt.c\<close>, \<^verbatim>\<open>Rmt/include/rmt.h\<close>): the N-1 ports, what
  becomes of a PDU that arrives on one, and sending on one.  Ports live at addresses; the lists are
  the sequences of their items, with \<open>second\<close> for \<^verbatim>\<open>vRsListInsert\<close>.  The IPC process below a port and
  the management entity above are parameters.\<close>

section \<open>State\<close>

datatype n1_port_state =
  eN1_PORT_STATE_ENABLED | eN1_PORT_STATE_DISABLED | eN1_PORT_STATE_DO_NOT_DISABLE | eN1_PORT_STATE_DEALLOCATED

record n1_stats =
  plen :: u32
  dropPdus :: u32
  errPdus :: u32
  txPdus :: u32
  txBytes :: u32
  rxPdus :: u32
  rxBytes :: u32

record rmt_port =
  unPort :: u32
  pxN1Ipcp :: nat
  eState :: n1_port_state
  xStats :: n1_stats
  uxBusy :: bool

record rmt_state = efcp_state +
  xAddresses :: "u8 list"
  xPorts :: "nat list"
  ports :: "nat \<Rightarrow> rmt_port option"

text \<open>A handler of a DU at a port: the \<^verbatim>\<open>duWrite\<close> of the IPC process below, the management entity.\<close>

type_synonym 's du_handler = "u32 \<Rightarrow> nat option \<Rightarrow> 's \<Rightarrow> (bool \<times> 's) outcome"

section \<open>Ports and addresses\<close>

definition port_no :: "'a rmt_state_scheme \<Rightarrow> nat \<Rightarrow> u32 option" where
  "port_no st a = map_option unPort (ports st a)"

definition prvRmtPortFind :: "u32 \<Rightarrow> 'a rmt_state_scheme \<Rightarrow> nat option" where
  "prvRmtPortFind port st = List.find (\<lambda>a. port_no st a = Some port) (xPorts st)"

text \<open>\<open>m\<close> tells whether there is memory for the port that \<^verbatim>\<open>xRmtInit\<close> allocates and forgets.\<close>

definition xRmtInit :: "bool \<Rightarrow> 'a rmt_state_scheme \<Rightarrow> bool \<times> 'a rmt_state_scheme" where
  "xRmtInit m st = (if \<not> m then (False, st) else (True, st\<lparr>xAddresses := [], xPorts := []\<rparr>))"

definition pxRmtN1PortCreate :: "u32 \<Rightarrow> nat \<Rightarrow> rmt_port" where
  "pxRmtN1PortCreate port ipcp =
    \<lparr>unPort = port, pxN1Ipcp = ipcp, eState = eN1_PORT_STATE_ENABLED,
     xStats = \<lparr>plen = 0, dropPdus = 0, errPdus = 0, txPdus = 0, txBytes = 0, rxPdus = 0, rxBytes = 0\<rparr>,
     uxBusy = False\<rparr>"

text \<open>\<open>new\<close> is the address the allocator gives to the new port.\<close>

definition xRmtN1PortBind ::
  "nat option \<Rightarrow> u32 \<Rightarrow> nat option \<Rightarrow> 'a rmt_state_scheme \<Rightarrow> (bool \<times> 'a rmt_state_scheme) outcome" where
  "xRmtN1PortBind new port ipcp st =
    (if \<not> is_port_id_ok port then Crash
     else
       obind (or_crash ipcp) (\<lambda>i.
         if prvRmtPortFind port st \<noteq> None then Done (False, st)
         else
           (case new of
              None \<Rightarrow> Done (False, st)
            | Some a \<Rightarrow>
                Done (True, st\<lparr>ports := (ports st)(a \<mapsto> pxRmtN1PortCreate port i), xPorts := second a (xPorts st)\<rparr>))))"

definition xRmtAddressAdd :: "bool \<Rightarrow> u8 \<Rightarrow> 'a rmt_state_scheme \<Rightarrow> bool \<times> 'a rmt_state_scheme" where
  "xRmtAddressAdd m a st = (if \<not> m then (False, st) else (True, st\<lparr>xAddresses := second a (xAddresses st)\<rparr>))"

definition xRmtPduIsAddressedToMe :: "u8 \<Rightarrow> 'a rmt_state_scheme \<Rightarrow> bool" where
  "xRmtPduIsAddressedToMe a st = list_ex (\<lambda>x. x = a) (xAddresses st)"

section \<open>Receiving\<close>

definition on_port :: "nat \<Rightarrow> (rmt_port \<Rightarrow> rmt_port) \<Rightarrow> 'a rmt_state_scheme \<Rightarrow> 'a rmt_state_scheme" where
  "on_port a f st = st\<lparr>ports := (ports st)(a := map_option f (ports st a))\<rparr>"

definition stats_inc_rx :: "nat \<Rightarrow> rmt_port \<Rightarrow> rmt_port" where
  "stats_inc_rx n p = p\<lparr>xStats := (xStats p)\<lparr>rxPdus := rxPdus (xStats p) + 1, rxBytes := rxBytes (xStats p) + of_nat n\<rparr>\<rparr>"

definition stats_inc_tx :: "nat \<Rightarrow> rmt_port \<Rightarrow> rmt_port" where
  "stats_inc_tx n p = p\<lparr>xStats := (xStats p)\<lparr>txPdus := txPdus (xStats p) + 1, txBytes := txBytes (xStats p) + of_nat n\<rparr>\<rparr>"

definition xRmtProcessMgmtPdu ::
  "'a rmt_state_scheme du_handler \<Rightarrow> 'a rmt_state_scheme du_handler" where
  "xRmtProcessMgmtPdu mgmt port du st =
    obind (mgmt port du st) (\<lambda>(r, st1).
      if \<not> r then Done (False, st1)
      else
        obind (or_crash (Option.bind du (vNetBufFree (nbs st1)))) (\<lambda>nb. Done (True, st1\<lparr>nbs := nb\<rparr>)))"

definition xRmtProcessDtPdu :: "'a rmt_state_scheme du_handler" where
  "xRmtProcessDtPdu port du st =
    (if \<not> is_port_id_ok port then Crash
     else
       obind (or_crash du) (\<lambda>d.
       obind (PCI_GET (nbs st) d) (\<lambda>p.
         if \<not> is_address_ok (xDestination p) then Done (False, st)
         else if xType p = PDU_TYPE_MGMT then Done (False, st)
         else if \<not> is_cep_id_ok (xCepDest p) then Done (False, st)
         else xEfcpContainerReceive (xCepDest p) d st)))"

definition rmt_dispatch ::
  "'a rmt_state_scheme du_handler \<Rightarrow> pci \<Rightarrow> 'a rmt_state_scheme du_handler" where
  "rmt_dispatch mgmt p port du st =
    (if xRmtPduIsAddressedToMe (xDestination p) st
     then
       (if xType p = PDU_TYPE_MGMT then xRmtProcessMgmtPdu mgmt port du st
        else if xType p \<in> {PDU_TYPE_CACK, PDU_TYPE_SACK, PDU_TYPE_NACK, PDU_TYPE_FC, PDU_TYPE_ACK,
                 PDU_TYPE_ACK_AND_FC, PDU_TYPE_RENDEZVOUS, PDU_TYPE_DT}
        then xRmtProcessDtPdu port du st
        else Done (False, st))
     else if xDestination p = 0 then xRmtProcessMgmtPdu mgmt port du st
     else Done (False, st))"

text \<open>\<open>new\<close> is the address for the segment of the payload.\<close>

definition xRmtReceive ::
  "'a rmt_state_scheme du_handler \<Rightarrow> nat option \<Rightarrow> nat \<Rightarrow> u32 \<Rightarrow> 'a rmt_state_scheme
     \<Rightarrow> (bool \<times> 'a rmt_state_scheme) outcome" where
  "xRmtReceive mgmt new du port st =
    (if \<not> is_port_id_ok port then Crash
     else
       obind (or_crash (unNetBufTotalSize (nbs st) du)) (\<lambda>sz.
         case prvRmtPortFind port st of
           None \<Rightarrow> Done (False, st)
         | Some a \<Rightarrow>
             let st1 = on_port a (stats_inc_rx sz) st in
             obind (xDuDecap new PCI_SZ du (nbs st1)) (\<lambda>(ok, nb1).
               let st2 = st1\<lparr>nbs := nb1\<rparr> in
               if \<not> ok then Done (False, st2)
               else
                 obind (PCI_GET nb1 du) (\<lambda>p.
                   if \<not> pdu_type_is_ok (xType p) \<or> \<not> is_address_ok (xDestination p) \<or> \<not> is_qos_id_ok (xQosId p)
                   then Done (False, st2)
                   else
                     obind (or_crash (pxNetBufNext nb1 du)) (\<lambda>nx.
                     obind (or_crash (vNetBufFree nb1 du)) (\<lambda>nb2.
                       rmt_dispatch mgmt p port nx (st2\<lparr>nbs := nb2\<rparr>)))))))"

section \<open>Sending\<close>

text \<open>\<open>dw\<close> gives the \<^verbatim>\<open>duWrite\<close> operation of an IPC process, \<open>None\<close> where its table has \<^verbatim>\<open>NULL\<close>.\<close>

definition xRmtN1PortWriteDu ::
  "(nat \<Rightarrow> 'a rmt_state_scheme du_handler option) \<Rightarrow> rmt_port \<Rightarrow> nat \<Rightarrow> 'a rmt_state_scheme
     \<Rightarrow> (bool \<times> 'a rmt_state_scheme) outcome" where
  "xRmtN1PortWriteDu dw p du st = obind (or_crash (dw (pxN1Ipcp p))) (\<lambda>f. f (unPort p) (Some du) st)"

definition must_enqueue :: "rmt_port \<Rightarrow> bool" where
  "must_enqueue p = (plen (xStats p) \<noteq> 0 \<or> uxBusy p \<or> eState p = eN1_PORT_STATE_DISABLED)"

definition xRmtSendPortId ::
  "(nat \<Rightarrow> 'a rmt_state_scheme du_handler option) \<Rightarrow> u32 \<Rightarrow> nat \<Rightarrow> 'a rmt_state_scheme
     \<Rightarrow> (bool \<times> 'a rmt_state_scheme) outcome" where
  "xRmtSendPortId dw port du st =
    (case prvRmtPortFind port st of
       None \<Rightarrow> Done (False, st)
     | Some a \<Rightarrow>
         obind (or_crash (ports st a)) (\<lambda>p.
           if must_enqueue p
           then Done (False, on_port a (\<lambda>q. q\<lparr>xStats := (xStats q)\<lparr>errPdus := errPdus (xStats q) + 1\<rparr>\<rparr>) st)
           else
             obind (xRmtN1PortWriteDu dw p du (on_port a (uxBusy_update (\<lambda>_. True)) st)) (\<lambda>(r, st1).
               Done (True, on_port a (stats_inc_tx (if r then 1 else 0)) (on_port a (uxBusy_update (\<lambda>_. False)) st1)))))"

definition xRmtSend :: "nat \<Rightarrow> 'a rmt_state_scheme \<Rightarrow> bool \<times> 'a rmt_state_scheme" where
  "xRmtSend du st = (True, st)"

section \<open>Bound ports\<close>

definition ports_ok :: "'a rmt_state_scheme \<Rightarrow> bool" where
  "ports_ok st = (distinct (xPorts st) \<and> inj_on (port_no st) (set (xPorts st)) \<and>
    (\<forall>a \<in> set (xPorts st). \<exists>k. port_no st a = Some k \<and> is_port_id_ok k))"

lemma find_some: "List.find P xs = Some x \<Longrightarrow> x \<in> set xs \<and> P x"
  by (auto simp: find_Some_iff)

lemma set_second [simp]: "set (second a xs) = insert a (set xs)"
  by (cases xs) auto

lemma distinct_second [simp]: "distinct (second a xs) = (a \<notin> set xs \<and> distinct xs)"
  by (cases xs) auto

lemma port_find_None: "(prvRmtPortFind k st = None) = (\<forall>a \<in> set (xPorts st). port_no st a \<noteq> Some k)"
  by (auto simp: prvRmtPortFind_def find_None_iff)

lemma port_find_in: "prvRmtPortFind k st = Some a \<Longrightarrow> a \<in> set (xPorts st) \<and> port_no st a = Some k"
  unfolding prvRmtPortFind_def by (rule find_some)

lemma port_find:
  assumes "ports_ok st"
  shows "(prvRmtPortFind k st = Some a) = (a \<in> set (xPorts st) \<and> port_no st a = Some k)"
proof
  assume a: "a \<in> set (xPorts st) \<and> port_no st a = Some k"
  then obtain b where b: "prvRmtPortFind k st = Some b" using port_find_None [of k st] by blast
  have "a = b"
    using port_find_in [OF b] a assms unfolding ports_ok_def by (metis inj_onD)
  then show "prvRmtPortFind k st = Some a" using b by simp
qed (rule port_find_in)

definition bind_port :: "nat \<Rightarrow> nat \<Rightarrow> u32 \<Rightarrow> 'a rmt_state_scheme \<Rightarrow> bool \<times> 'a rmt_state_scheme" where
  "bind_port i a k st = (case xRmtN1PortBind (Some a) k (Some i) st of Done x \<Rightarrow> x | _ \<Rightarrow> (False, st))"

definition no_port :: "'a rmt_state_scheme \<Rightarrow> nat \<Rightarrow> bool" where
  "no_port st a = (a \<notin> set (xPorts st))"

lemma bind_port_cases:
  assumes "is_port_id_ok k"
  shows "xRmtN1PortBind (Some a) k (Some i) st = Done (bind_port i a k st) \<and>
    bind_port i a k st =
    (if prvRmtPortFind k st \<noteq> None then (False, st)
     else (True, st\<lparr>ports := (ports st)(a \<mapsto> pxRmtN1PortCreate k i), xPorts := second a (xPorts st)\<rparr>))"
  using assms by (simp add: bind_port_def xRmtN1PortBind_def)

lemma bound_port_no:
  "port_no (st\<lparr>ports := (ports st)(a \<mapsto> pxRmtN1PortCreate k i), xPorts := xs\<rparr>) =
   (port_no st)(a := Some k)"
  by (auto simp: port_no_def pxRmtN1PortCreate_def)

lemma bind_ok:
  assumes "ports_ok st" "is_port_id_ok k" "no_port st a"
  shows "ports_ok (snd (bind_port i a k st))"
proof (cases "prvRmtPortFind k st")
  case None
  then have "\<forall>b \<in> set (xPorts st). port_no st b \<noteq> Some k" by (simp add: port_find_None)
  then show ?thesis using assms None bind_port_cases [OF assms(2), of a i st]
    by (auto simp: ports_ok_def bound_port_no no_port_def inj_on_def)
next
  case (Some b)
  then show ?thesis using assms(1) bind_port_cases [OF assms(2), of a i st] by simp
qed

lemma bind_find:
  assumes "ports_ok st" "is_port_id_ok k" "no_port st a"
  shows "prvRmtPortFind j (snd (bind_port i a k st)) =
    (if j = k \<and> prvRmtPortFind k st = None then Some a else prvRmtPortFind j st)"
proof (cases "prvRmtPortFind k st")
  case None
  let ?st = "snd (bind_port i a k st)"
  have st: "?st = st\<lparr>ports := (ports st)(a \<mapsto> pxRmtN1PortCreate k i), xPorts := second a (xPorts st)\<rparr>"
    using bind_port_cases [OF assms(2), of a i st] None by simp
  have p: "port_no ?st = (port_no st)(a := Some k)" "set (xPorts ?st) = insert a (set (xPorts st))"
    unfolding st bound_port_no by simp_all
  have f: "(prvRmtPortFind j ?st = Some b) = ((b = a \<and> j = k) \<or> prvRmtPortFind j st = Some b)" for b
    using port_find [OF bind_ok [OF assms], of j i b] port_find [OF assms(1), of j b] assms(3) None p
    by (auto simp: no_port_def port_find_None)
  show ?thesis
  proof (cases "j = k")
    case True
    then show ?thesis using f [of a] None by simp
  next
    case False
    then show ?thesis using f by (metis not_Some_eq)
  qed
next
  case (Some b)
  then show ?thesis using bind_port_cases [OF assms(2), of a i st] by simp
qed

lemma bind_fresh:
  assumes "is_port_id_ok k" "no_port st b" "b \<noteq> a"
  shows "no_port (snd (bind_port i a k st)) b"
  using assms bind_port_cases [OF assms(1), of a i st] by (simp add: no_port_def)

lemma bind_result: "is_port_id_ok k \<Longrightarrow> fst (bind_port i a k st) = (prvRmtPortFind k st = None)"
  using bind_port_cases [of k a i st] by simp

interpretation rmt_ports: unique_register ports_ok "\<lambda>st k. prvRmtPortFind k st" is_port_id_ok no_port "bind_port i"
  for i
  by unfold_locales (simp_all add: bind_ok bind_find bind_fresh bind_result del: not_None_eq)

section \<open>Cutting the header off\<close>

text \<open>A DU of one live segment of type \<open>t\<close> that holds the bytes \<open>d\<close>, at offset \<open>off\<close> of buffer \<open>b\<close>.\<close>

definition one_seg :: "nb_state \<Rightarrow> nb_type \<Rightarrow> nat \<Rightarrow> nat \<Rightarrow> nat \<Rightarrow> bytes \<Rightarrow> bool" where
  "one_seg st t du b off d =
    (\<exists>nb bs. cells st du = Some nb \<and> pxNext nb = None \<and> pxFirst nb = du \<and> eType nb = t \<and> \<not> xFreed nb \<and>
       pxBuf nb = Some (b, off) \<and> pxBufStart nb = Some b \<and> unSz nb = length d \<and> bufs st b = Some bs \<and>
       off + length d \<le> length bs \<and> take (length d) (drop off bs) = d)"

text \<open>What is left of it when its first \<open>n\<close> bytes, the header, were split off and freed: the payload in the
  segment \<open>y\<close>.\<close>

definition payload_left :: "nb_state \<Rightarrow> nat \<Rightarrow> nat \<Rightarrow> nat \<Rightarrow> nat \<Rightarrow> bytes \<Rightarrow> bool" where
  "payload_left st du y b off d =
    (\<exists>hd nb bs. cells st du = Some hd \<and> xFreed hd \<and> pxNext hd = Some y \<and> pxBufStart hd = None \<and> pxFirst hd = du \<and>
       cells st y = Some nb \<and> pxNext nb = None \<and> pxFirst nb = du \<and> eType nb = NB_RINA_DATA \<and> \<not> xFreed nb \<and>
       pxBuf nb = Some (b, off) \<and> pxBufStart nb = Some b \<and> unSz nb = length d \<and> bufs st b = Some bs \<and>
       off + length d \<le> length bs \<and> take (length d) (drop off bs) = d)"

lemma one_seg_size: "one_seg st t du b off d \<Longrightarrow> unNetBufTotalSize st du = Some (length d)"
  by (auto simp: one_seg_def unNetBufTotalSize_def chain_of_def walk.simps live_def cell_def)

lemma pci_of_take: "PCI_SZ \<le> n \<Longrightarrow> PCI_SZ \<le> length d \<Longrightarrow> pci_of (take n d) = pci_of d"
  by (simp add: pci_of_def PCI_SZ_def min_def take_drop)

lemma take_prefix: "take (length d) x = d \<Longrightarrow> n \<le> length d \<Longrightarrow> take n x = take n d"
  by (metis min.absorb1 take_take)

lemma header_cut:
  assumes "one_seg st NB_RINA_PCI du b off d" "PCI_SZ < length d" "y \<noteq> du" "pci_of d = Some p"
  shows "\<exists>st1 st2. xDuDecap (Some y) PCI_SZ du st = Done (True, st1) \<and> PCI_GET st1 du = Done p \<and>
    pxNetBufNext st1 du = Some (Some y) \<and> vNetBufFree st1 du = Some st2 \<and> bufs st2 = bufs st \<and>
    payload_left st2 du y b (off + PCI_SZ) (drop PCI_SZ d)"
proof -
  obtain nb bs where nb: "cells st du = Some nb" "pxNext nb = None" "pxFirst nb = du" "eType nb = NB_RINA_PCI"
    "\<not> xFreed nb" "pxBuf nb = Some (b, off)" "pxBufStart nb = Some b" "unSz nb = length d" "bufs st b = Some bs"
    "off + length d \<le> length bs" "take (length d) (drop off bs) = d"
    using assms(1) unfolding one_seg_def by blast
  define ny where "ny = nb\<lparr>eType := NB_RINA_DATA, pxBuf := Some (b, off + PCI_SZ), unSz := length d - PCI_SZ, xFreed := False\<rparr>"
  define nh where "nh = nb\<lparr>unSz := PCI_SZ, pxNext := Some y\<rparr>"
  define st1 where "st1 = put (put st y ny) du nh"
  define nf where "nf = nh\<lparr>xFreed := True, unSz := 0, pxBuf := None\<rparr>"
  define st2 where "st2 = put (put st1 du nf) du (nf\<lparr>pxBufStart := None\<rparr>)"
  note d = nb ny_def nh_def st1_def nf_def st2_def assms(2,3)
  have c: "chain_of st du = Some [du]" "live st [du] = [du]" "cell st du = nb"
    using nb by (simp_all add: chain_of_def walk.simps live_def cell_def)
  have "xDuDecap (Some y) PCI_SZ du st = Done (True, st1)"
    using d by (simp add: xDuDecap_def nb_is_def xNetBufSplit_def c Let_def)
  moreover have "PCI_GET st1 du = Done p"
  proof -
    have "copy_from st1 nh 0 PCI_SZ = Some (take PCI_SZ d)"
      using d take_prefix [OF nb(11), of PCI_SZ] by (simp add: copy_from_def)
    then show ?thesis using assms(2,4) pci_of_take [of PCI_SZ d] by (simp add: PCI_GET_def st1_def)
  qed
  moreover have w: "walk (cells st1) (Some y) = Some [y]" "cells st1 du = Some nh" "\<not> xFreed nh" "pxNext nh = Some y"
    using d by (simp_all add: walk.simps)
  moreover have "pxNetBufNext st1 du = Some (Some y)"
    using w d by (simp add: pxNetBufNext_def live_def)
  moreover have "vNetBufFree st1 du = Some st2"
  proof -
    have m: "mark_freed st1 du nh = put st1 du nf" by (simp add: mark_freed_def nf_def)
    have w: "walk (cells (put st1 du nf)) (Some du) = Some [du, y]"
      using d by (simp add: walk.simps)
    have "drop_ref (put st1 du nf) du [du, y] = Some st2"
      using d by (simp add: drop_ref_def Let_def)
    then show ?thesis using m w d by (simp add: vNetBufFree_def Let_def)
  qed
  moreover have "payload_left st2 du y b (off + PCI_SZ) (drop PCI_SZ d)"
  proof -
    have "take (length d - PCI_SZ) (drop PCI_SZ (drop off bs)) = drop PCI_SZ (take (length d) (drop off bs))"
      by (simp add: drop_take)
    then show ?thesis using d by (simp add: payload_left_def add.commute)
  qed
  moreover have "bufs st2 = bufs st" by (simp add: st2_def st1_def)
  ultimately show ?thesis by blast
qed

lemma pci_of_header: "pci_of (pci_bytes h @ d) = Some h"
  by (rule pci_roundtrip_prefix)

lemma drop_header [simp]: "drop PCI_SZ (pci_bytes h @ d) = d"
  by simp

lemma to_me: "xRmtPduIsAddressedToMe a st = (a \<in> set (xAddresses st))"
  by (auto simp: xRmtPduIsAddressedToMe_def list_ex_iff)

definition header_ok :: "pci \<Rightarrow> bool" where
  "header_ok h = (pdu_type_is_ok (xType h) \<and> is_address_ok (xDestination h) \<and> is_qos_id_ok (xQosId h))"

text \<open>The state in which a PDU with a good header is dispatched.\<close>

definition cut_off ::
  "'a rmt_state_scheme \<Rightarrow> nat \<Rightarrow> nat \<Rightarrow> nat \<Rightarrow> nat \<Rightarrow> nat \<Rightarrow> bytes \<Rightarrow> 'a rmt_state_scheme \<Rightarrow> bool" where
  "cut_off st a du y b off d st' =
    (\<exists>nb. st' = (on_port a (stats_inc_rx (PCI_SZ + length d)) st)\<lparr>nbs := nb\<rparr> \<and> bufs nb = bufs (nbs st) \<and>
       payload_left nb du y b (off + PCI_SZ) d)"

lemma receive_cut:
  assumes "is_port_id_ok port" "prvRmtPortFind port st = Some a"
    "one_seg (nbs st) NB_RINA_PCI du b off (pci_bytes h @ d)" "d \<noteq> []" "y \<noteq> du"
  shows "if header_ok h
    then \<exists>st'. cut_off st a du y b off d st' \<and>
      xRmtReceive mgmt (Some y) du port st = rmt_dispatch mgmt h port (Some y) st'
    else \<exists>nb. xRmtReceive mgmt (Some y) du port st =
      Done (False, (on_port a (stats_inc_rx (PCI_SZ + length d)) st)\<lparr>nbs := nb\<rparr>)"
proof -
  have l: "PCI_SZ < length (pci_bytes h @ d)" using assms(4) by simp
  obtain st1 st2 where c: "xDuDecap (Some y) PCI_SZ du (nbs st) = Done (True, st1)" "PCI_GET st1 du = Done h"
    "pxNetBufNext st1 du = Some (Some y)" "vNetBufFree st1 du = Some st2" "bufs st2 = bufs (nbs st)"
    "payload_left st2 du y b (off + PCI_SZ) d"
    using header_cut [OF assms(3) l assms(5) pci_of_header] by auto
  have n: "nbs (on_port a f st) = nbs st" for f by (simp add: on_port_def)
  show ?thesis
  proof (cases "header_ok h")
    case True
    then have "xRmtReceive mgmt (Some y) du port st = rmt_dispatch mgmt h port (Some y)
        ((on_port a (stats_inc_rx (PCI_SZ + length d)) st)\<lparr>nbs := st2\<rparr>)"
      using assms(1,2) one_seg_size [OF assms(3)] c by (simp add: xRmtReceive_def Let_def n header_ok_def)
    then show ?thesis using True c(5,6) by (auto simp: cut_off_def)
  next
    case False
    then show ?thesis
      using assms(1,2) one_seg_size [OF assms(3)] c by (auto simp: xRmtReceive_def Let_def n header_ok_def)
  qed
qed

text \<open>Where a PDU with a good header goes: to the management entity if it is a management PDU for an address of
  this process, or of whatever type for the address 0; to EFCP if it is for an address of this process and of any
  other type but two; and nowhere otherwise.\<close>

lemma dispatch_table:
  assumes "header_ok h"
  shows "rmt_dispatch mgmt h port du st =
    (if xDestination h \<in> set (xAddresses st)
     then
       if xType h = PDU_TYPE_MGMT then xRmtProcessMgmtPdu mgmt port du st
       else if xType h \<in> {PDU_TYPE_SACK_AND_FC, PDU_TYPE_SNACK_AND_FC} then Done (False, st)
       else xRmtProcessDtPdu port du st
     else if xDestination h = 0 then xRmtProcessMgmtPdu mgmt port du st
     else Done (False, st))"
  using assms unfolding rmt_dispatch_def to_me by (auto simp: header_ok_def pdu_type_is_ok_def pdu_types)

definition a_port :: rmt_port where "a_port = pxRmtN1PortCreate 7 90"

definition mgmt_pci :: "nat \<Rightarrow> pci" where
  "mgmt_pci sz = \<lparr>ucVersion = 1, xDestination = 0, xSource = CFG_LOCAL_ADDRESS, xQosId = 0, xCepDest = 1,
     xCepSource = 0, xType = PDU_TYPE_MGMT, xFlags = 0, xPduLen = of_nat sz, xSequenceNumber = 0\<rparr>"

text \<open>A DU of one segment at address 5, on buffer 9.\<close>

definition du_seg :: "nb_type \<Rightarrow> bytes \<Rightarrow> nb_state" where
  "du_seg t d = \<lparr>cells = [5 \<mapsto> \<lparr>pxNext = None, pxFirst = 5, eType = t, unSz = length d, pxBuf = Some (9, 0),
     pxBufStart = Some 9, xFreed = False, freemethod = Some FreePool\<rparr>], bufs = [9 \<mapsto> d]\<rparr>"

lemma du_seg_one: "one_seg (du_seg t d) t 5 9 0 d"
  by (simp add: one_seg_def du_seg_def)

definition rmt_demo :: "u8 list \<Rightarrow> nb_state \<Rightarrow> rmt_state" where
  "rmt_demo as nb =
    \<lparr>xFlowRequestTable = xFlowRequestTable efcp_demo, fais = fais efcp_demo, handles = handles efcp_demo,
     xEfcpImapTable = xEfcpImapTable efcp_demo, efcps = efcps efcp_demo, nbs = nb, rs = rs efcp_demo,
     xPciPool = Some 100, pxRmt = True, xAddresses = as, xPorts = [60], ports = [60 \<mapsto> a_port]\<rparr>"

lemma demo_port: "prvRmtPortFind 7 (rmt_demo as nb) = Some 60" "is_port_id_ok 7" "ports_ok (rmt_demo as nb)"
  by (simp_all add: prvRmtPortFind_def port_no_def rmt_demo_def a_port_def pxRmtN1PortCreate_def ports_ok_def
      is_port_id_ok_def PORT_ID_WRONG_def)

text \<open>A data transfer PDU reaches EFCP without its header: the header was cut off and freed, and the CEP
  id, the type and the address that EFCP goes by are read from the first 14 bytes of the user's data.
  Two PDUs with the same data are treated alike whatever their headers say.\<close>
theorem rmt_dt_reads_payload:
  assumes "is_port_id_ok port" "prvRmtPortFind port st = Some a"
    "one_seg (nbs st) NB_RINA_PCI du b off (pci_bytes h @ pci_bytes q @ d)" "y \<noteq> du"
    "header_ok h" "xType h = PDU_TYPE_DT" "xDestination h \<in> set (xAddresses st)"
  shows "\<exists>st'. cut_off st a du y b off (pci_bytes q @ d) st' \<and>
    xRmtReceive mgmt (Some y) du port st =
      (if is_address_ok (xDestination q) \<and> xType q \<noteq> PDU_TYPE_MGMT \<and> is_cep_id_ok (xCepDest q)
       then xEfcpContainerReceive (xCepDest q) y st' else Done (False, st'))"
proof -
  have "length (pci_bytes q @ d) \<noteq> 0" by (simp add: PCI_SZ_def)
  then have "pci_bytes q @ d \<noteq> []" by (metis length_0_conv)
  from receive_cut [OF assms(1-3) this assms(4), of mgmt] assms(5)
  obtain st' where s: "cut_off st a du y b off (pci_bytes q @ d) st'"
    "xRmtReceive mgmt (Some y) du port st = rmt_dispatch mgmt h port (Some y) st'" by auto
  have x: "xAddresses st' = xAddresses st" using s(1) by (auto simp: cut_off_def on_port_def)
  have "PCI_GET (nbs st') y = Done q"
  proof -
    obtain nb bs where nb: "cells (nbs st') y = Some nb" "pxBuf nb = Some (b, off + PCI_SZ)" "bufs (nbs st') b = Some bs"
      "off + PCI_SZ + length (pci_bytes q @ d) \<le> length bs"
      "take (length (pci_bytes q @ d)) (drop (off + PCI_SZ) bs) = pci_bytes q @ d"
      using s(1) unfolding cut_off_def payload_left_def by (auto simp del: length_append)
    have "copy_from (nbs st') nb 0 PCI_SZ = Some (take PCI_SZ (pci_bytes q @ d))"
      using nb(2-4) take_prefix [OF nb(5), of PCI_SZ] by (simp add: copy_from_def)
    then show ?thesis using nb(1) pci_roundtrip_prefix [of q "[]"] by (simp add: PCI_GET_def)
  qed
  then have "xRmtProcessDtPdu port (Some y) st' =
      (if is_address_ok (xDestination q) \<and> xType q \<noteq> PDU_TYPE_MGMT \<and> is_cep_id_ok (xCepDest q)
       then xEfcpContainerReceive (xCepDest q) y st' else Done (False, st'))"
    using assms(1) by (simp add: xRmtProcessDtPdu_def)
  moreover have "rmt_dispatch mgmt h port (Some y) st' = xRmtProcessDtPdu port (Some y) st'"
    using assms(6,7) x by (simp add: rmt_dispatch_def to_me pdu_types)
  ultimately show ?thesis using s by auto
qed

end
