(* ===== verification/Normal.thy ===== *)
theory Normal
  imports Rmt
begin

text \<open>The normal IPC process (\<^verbatim>\<open>IPCP/normalIPCP.c\<close>): its flows, the writing of user and management data
  and the operations it offers to the IPC processes below and to the stack.  Flows live at addresses,
  the list of flows is the sequence of its items.  The RIB daemon and the IPC process below are
  parameters.\<close>

section \<open>State\<close>

datatype normal_flow_state =
  ePORT_STATE_NULL | ePORT_STATE_PENDING | ePORT_STATE_ALLOCATED | ePORT_STATE_DEALLOCATED | ePORT_STATE_DISABLED

text \<open>\<open>xActive\<close> is \<open>None\<close> until it is set: \<^verbatim>\<open>xNormalFlowPrebind\<close> leaves it as the allocator gave it.\<close>

record normal_flow =
  nf_port :: u32
  xActive :: "u8 option"
  nf_state :: normal_flow_state

record normal_state = rmt_state +
  xFlowsList :: "nat list"
  flows :: "nat \<Rightarrow> normal_flow option"

section \<open>Flows\<close>

definition flow_no :: "'a normal_state_scheme \<Rightarrow> nat \<Rightarrow> u32 option" where
  "flow_no st a = map_option nf_port (flows st a)"

definition prvNormalFindFlow :: "u32 \<Rightarrow> 'a normal_state_scheme \<Rightarrow> nat option" where
  "prvNormalFindFlow port st = List.find (\<lambda>a. flow_no st a = Some port) (xFlowsList st)"

definition on_flow :: "(normal_flow \<Rightarrow> normal_flow) \<Rightarrow> u32 \<Rightarrow> 'a normal_state_scheme \<Rightarrow> bool \<times> 'a normal_state_scheme" where
  "on_flow f port st =
    (case prvNormalFindFlow port st of
       None \<Rightarrow> (False, st)
     | Some a \<Rightarrow> (True, st\<lparr>flows := (flows st)(a := map_option f (flows st a))\<rparr>))"

definition xNormalFlowPrebind ::
  "nat option \<Rightarrow> flow_handle \<Rightarrow> 'a normal_state_scheme \<Rightarrow> bool \<times> 'a normal_state_scheme" where
  "xNormalFlowPrebind new h st =
    (case new of
       None \<Rightarrow> (False, st)
     | Some a \<Rightarrow>
         (True, st\<lparr>flows := (flows st)(a \<mapsto> \<lparr>nf_port = h_port h, xActive = None, nf_state = ePORT_STATE_PENDING\<rparr>),
                  xFlowsList := second a (xFlowsList st)\<rparr>))"

definition xNormalUpdateFlowStatus ::
  "u32 \<Rightarrow> normal_flow_state \<Rightarrow> 'a normal_state_scheme \<Rightarrow> (bool \<times> 'a normal_state_scheme) outcome" where
  "xNormalUpdateFlowStatus port s st =
    (if \<not> is_port_id_ok port then Crash else Done (on_flow (nf_state_update (\<lambda>_. s)) port st))"

definition xNormalIsFlowAllocated :: "u32 \<Rightarrow> 'a normal_state_scheme \<Rightarrow> bool" where
  "xNormalIsFlowAllocated port st =
    (case prvNormalFindFlow port st of
       None \<Rightarrow> False
     | Some a \<Rightarrow> map_option nf_state (flows st a) = Some ePORT_STATE_ALLOCATED)"

definition xNormalUpdateCepIdFlow :: "u32 \<Rightarrow> u8 \<Rightarrow> 'a normal_state_scheme \<Rightarrow> bool \<times> 'a normal_state_scheme" where
  "xNormalUpdateCepIdFlow port cep st = on_flow (xActive_update (\<lambda>_. Some cep)) port st"

section \<open>Connections\<close>

definition xNormalConnectionCreateRequest ::
  "bool \<Rightarrow> nat option \<Rightarrow> bool \<Rightarrow> u32 \<Rightarrow> u8 \<Rightarrow> u8 \<Rightarrow> u8 \<Rightarrow> 'a normal_state_scheme
     \<Rightarrow> (u8 \<times> 'a normal_state_scheme) outcome" where
  "xNormalConnectionCreateRequest mc me md port src dst qos st =
    (if port = PORT_ID_WRONG \<or> src = ADDRESS_WRONG \<or> dst = ADDRESS_WRONG \<or> qos = QOS_ID_WRONG then Crash
     else
       obind (xEfcpConnectionCreate mc me md src dst port qos CEP_ID_WRONG CEP_ID_WRONG st) (\<lambda>(cep, st1).
         Done (if is_cep_id_ok cep then cep else CEP_ID_WRONG, st1)))"

definition xNormalConnectionModify ::
  "u8 \<Rightarrow> u8 \<Rightarrow> u8 \<Rightarrow> 'a normal_state_scheme \<Rightarrow> (bool \<times> 'a normal_state_scheme) outcome" where
  "xNormalConnectionModify cep src dst st = xEfcpConnectionModify cep src dst st"

definition xNormalConnectionUpdate ::
  "u32 \<Rightarrow> u8 \<Rightarrow> u8 \<Rightarrow> 'a normal_state_scheme \<Rightarrow> (bool \<times> 'a normal_state_scheme) outcome" where
  "xNormalConnectionUpdate port src dst st =
    obind (xEfcpConnectionUpdate src dst st) (\<lambda>(r, st1).
      if \<not> r then Done (False, st1)
      else Done (on_flow (nf_state_update (\<lambda>_. ePORT_STATE_ALLOCATED)) port st1))"

section \<open>Data\<close>

definition xNormalFlowBinding ::
  "nat option \<Rightarrow> u32 \<Rightarrow> nat option \<Rightarrow> 'a normal_state_scheme \<Rightarrow> (bool \<times> 'a normal_state_scheme) outcome" where
  "xNormalFlowBinding new port ipcp st =
    (if \<not> is_port_id_ok port \<or> ipcp = None then Crash else xRmtN1PortBind new port ipcp st)"

text \<open>\<open>reg\<close> is the \<^verbatim>\<open>applicationRegister\<close> operation of the IPC process below, \<open>None\<close> for \<^verbatim>\<open>NULL\<close>.\<close>

definition xNormalRegistering :: "('s \<Rightarrow> (bool \<times> 's) outcome) option \<Rightarrow> 's \<Rightarrow> (bool \<times> 's) outcome" where
  "xNormalRegistering reg s = obind (or_crash reg) (\<lambda>f. f s)"

text \<open>\<open>rib\<close> is \<^verbatim>\<open>xRibIncoming\<close>; its result tells whether there was an error.\<close>

definition xNormalMgmtDuPost :: "'s du_handler \<Rightarrow> 's du_handler" where
  "xNormalMgmtDuPost rib port du st =
    (if \<not> is_port_id_ok port \<or> du = None then Crash
     else obind (rib port du st) (\<lambda>(err, st1). Done (\<not> err, st1)))"

definition xNormalDuEnqueue ::
  "'a normal_state_scheme du_handler \<Rightarrow> nat option \<Rightarrow> u32 \<Rightarrow> nat \<Rightarrow> 'a normal_state_scheme
     \<Rightarrow> (bool \<times> 'a normal_state_scheme) outcome" where
  "xNormalDuEnqueue rib new port du st = xRmtReceive (xNormalMgmtDuPost rib) new du port st"

definition xNormalDuWrite ::
  "heap \<Rightarrow> nat option \<Rightarrow> nat option \<Rightarrow> u32 \<Rightarrow> nat \<Rightarrow> 'a normal_state_scheme \<Rightarrow> (bool \<times> 'a normal_state_scheme) outcome" where
  "xNormalDuWrite ha new new2 port du st =
    (if \<not> is_port_id_ok port then Crash
     else
       (case prvNormalFindFlow port st of
          None \<Rightarrow> Done (False, st)
        | Some a \<Rightarrow>
            obind (or_crash (flows st a)) (\<lambda>f.
              if nf_state f \<noteq> ePORT_STATE_ALLOCATED then Done (False, st)
              else obind (or_crash (xActive f)) (\<lambda>cep. xEfcpContainerWrite ha new new2 cep du st))))"

definition mgmt_fields :: "nat \<Rightarrow> (pci \<Rightarrow> pci) list" where
  "mgmt_fields sz =
    [ucVersion_update (\<lambda>_. 1), xCepSource_update (\<lambda>_. 0), xCepDest_update (\<lambda>_. 1), xQosId_update (\<lambda>_. 0),
     xDestination_update (\<lambda>_. 0), xFlags_update (\<lambda>_. 0), xType_update (\<lambda>_. PDU_TYPE_MGMT),
     xSequenceNumber_update (\<lambda>_. 0), xPduLen_update (\<lambda>_. of_nat (sz + PCI_SZ)),
     xSource_update (\<lambda>_. CFG_LOCAL_ADDRESS)]"

text \<open>\<open>ha\<close> is the heap behind the PCI pool, \<open>new\<close> the address for the segment of the header, \<open>dw\<close> the
  \<^verbatim>\<open>duWrite\<close> operations of the IPC processes below.\<close>

definition xNormalMgmtDuWrite ::
  "(nat \<Rightarrow> 'a normal_state_scheme du_handler option) \<Rightarrow> heap \<Rightarrow> nat option \<Rightarrow> u32 \<Rightarrow> nat
     \<Rightarrow> 'a normal_state_scheme \<Rightarrow> (bool \<times> 'a normal_state_scheme) outcome" where
  "xNormalMgmtDuWrite dw ha new port du st =
    (if \<not> is_port_id_ok port then Crash
     else
       obind (or_crash (cells (nbs st) du)) (\<lambda>nb.
         if \<not> nb_is NB_RINA_DATA nb then Crash
         else
           obind (run_crash (pxRsrcAlloc (xPciPool st) (Some ''Normal IPC Management PCI'') ha (rs st))) (\<lambda>(pci, rs1).
             let st1 = st\<lparr>rs := rs1\<rparr> in
             case pci of None \<Rightarrow> Done (False, st1)
             | Some b \<Rightarrow>
                 obind (or_crash (unNetBufTotalSize (nbs st1) du)) (\<lambda>sz.
                 obind (xDuEncap new b PCI_SZ du (lend b rs1 (nbs st1))) (\<lambda>(x, nb1).
                   case x of None \<Rightarrow> Done (False, st1\<lparr>nbs := nb1\<rparr>)
                   | Some y \<Rightarrow>
                       obind (pci_sets (mgmt_fields sz) y nb1) (\<lambda>nb2.
                         xRmtSendPortId dw port y (st1\<lparr>nbs := nb2\<rparr>)))))))"

section \<open>Putting a header in front\<close>

lemma sets_stuck [simp]:
  "foldl (\<lambda>r f. obind r (PCI_SET f du)) Crash fs = Crash"
  "foldl (\<lambda>r f. obind r (PCI_SET f du)) Blocked fs = Blocked"
  "foldl (\<lambda>r f. obind r (PCI_SET f du)) (Fail e) fs = Fail e"
  by (induction fs) simp_all

lemma pci_sets_Cons: "pci_sets (f # fs) du nb = obind (PCI_SET f du nb) (pci_sets fs du)"
  by (cases "PCI_SET f du nb") (simp_all add: pci_sets_def)

text \<open>A sequence of \<^verbatim>\<open>PCI_SET\<close>s composes the changes of the fields and touches nothing but the header.\<close>

lemma pci_sets_room:
  assumes "pci_room st du b off bs" "\<exists>nb. cells st du = Some nb \<and> nb_is NB_RINA_PCI nb"
    "PCI_GET st du = Done p" "fs \<noteq> []"
  shows "\<exists>bs' st'. pci_sets fs du st = Done st' \<and> cells st' = cells st \<and> bufs st' = (bufs st)(b \<mapsto> bs') \<and>
    pci_room st' du b off bs' \<and> take PCI_SZ (drop off bs') = pci_bytes (fold (\<lambda>f. f) fs p)"
  using assms
proof (induction fs arbitrary: st bs p)
  case (Cons f fs)
  obtain bs1 st1 where 1: "PCI_SET f du st = Done st1" "cells st1 = cells st" "bufs st1 = (bufs st)(b \<mapsto> bs1)"
    "pci_room st1 du b off bs1" "PCI_GET st1 du = Done (f p)" "take PCI_SZ (drop off bs1) = pci_bytes (f p)"
    using pci_set_room [OF Cons.prems(1-3), of f] by blast
  show ?case
  proof (cases "fs = []")
    case True
    then show ?thesis using 1 by (intro exI [of _ bs1] exI [of _ st1]) (simp add: pci_sets_def)
  next
    case False
    have "\<exists>nb. cells st1 du = Some nb \<and> nb_is NB_RINA_PCI nb" using Cons.prems(2) 1(2) by simp
    from Cons.IH [OF 1(4) this 1(5) False] obtain bs' st' where 2: "pci_sets fs du st1 = Done st'"
      "cells st' = cells st1" "bufs st' = (bufs st1)(b \<mapsto> bs')" "pci_room st' du b off bs'"
      "take PCI_SZ (drop off bs') = pci_bytes (fold (\<lambda>f. f) fs (f p))" by blast
    have "bufs st' = (bufs st)(b \<mapsto> bs')" unfolding 2(3) 1(3) by (rule fun_upd_upd)
    then show ?thesis using 1(1,2) 2 by (intro exI [of _ bs'] exI [of _ st']) (simp add: pci_sets_Cons)
  qed
qed simp

text \<open>The chain of a header segment \<open>y\<close> on buffer \<open>b\<close> and the data segment \<open>du\<close>.\<close>

definition headed :: "nb_state \<Rightarrow> nat \<Rightarrow> nat \<Rightarrow> nat \<Rightarrow> bytes \<Rightarrow> nat \<Rightarrow> nat \<Rightarrow> bytes \<Rightarrow> bool" where
  "headed st y du b hb b0 off d =
    (\<exists>ny nd bs. cells st y = Some ny \<and> pxNext ny = Some du \<and> pxFirst ny = y \<and> eType ny = NB_RINA_PCI \<and>
       \<not> xFreed ny \<and> pxBuf ny = Some (b, 0) \<and> pxBufStart ny = Some b \<and> unSz ny = PCI_SZ \<and>
       bufs st b = Some hb \<and> PCI_SZ \<le> length hb \<and>
       cells st du = Some nd \<and> pxNext nd = None \<and> pxFirst nd = y \<and> \<not> xFreed nd \<and> pxBuf nd = Some (b0, off) \<and>
       pxBufStart nd = Some b0 \<and> unSz nd = length d \<and> bufs st b0 = Some bs \<and> off + length d \<le> length bs \<and>
       take (length d) (drop off bs) = d)"

lemma headed_content:
  assumes "headed st y du b hb b0 off d" "y \<noteq> du"
  shows "nb_ok st [y, du] \<and> content st [y, du] = take PCI_SZ hb @ d"
proof -
  have "chain_ok st [y, du]" using assms by (auto simp: headed_def chain_ok_def cell_def)
  moreover have "\<forall>x \<in> set [y, du]. seg_ok st x" using assms by (auto simp: headed_def seg_ok_def cell_def)
  moreover have "content st [y, du] = take PCI_SZ hb @ d"
    using assms by (auto simp: headed_def content_def live_def cell_def seg_data_def)
  ultimately show ?thesis by (simp add: nb_ok_def)
qed

lemma encap_headed:
  assumes "one_seg st NB_RINA_DATA du b0 off d" "y \<noteq> du" "bufs st b = Some hb" "PCI_SZ \<le> length hb"
  shows "\<exists>st'. xDuEncap (Some y) b PCI_SZ du st = Done (Some y, st') \<and> bufs st' = bufs st \<and>
    headed st' y du b hb b0 off d \<and> freemethod (cell st' y) = Some FreePool \<and>
    freemethod (cell st' du) = freemethod (cell st du)"
proof -
  obtain nb bs where nb: "cells st du = Some nb" "pxNext nb = None" "pxFirst nb = du" "eType nb = NB_RINA_DATA"
    "\<not> xFreed nb" "pxBuf nb = Some (b0, off)" "pxBufStart nb = Some b0" "unSz nb = length d" "bufs st b0 = Some bs"
    "off + length d \<le> length bs" "take (length d) (drop off bs) = d"
    using assms(1) unfolding one_seg_def by blast
  define ny where "ny = \<lparr>pxNext = None, pxFirst = y, eType = NB_RINA_PCI, unSz = PCI_SZ, pxBuf = Some (b, 0),
          pxBufStart = Some b, xFreed = False, freemethod = Some FreePool\<rparr>"
  define st1 where "st1 = put st y ny"
  define st2 where "st2 = put st1 y (ny\<lparr>pxNext := Some du\<rparr>)"
  define st3 where "st3 = put st2 du (nb\<lparr>pxFirst := y\<rparr>)"
  have "vNetBufAppend st1 y du = Some st3"
  proof -
    have c: "chain_of st1 y = Some [y]" "cells st1 du = Some nb" "cell st1 y = ny"
      using assms(2) nb by (simp_all add: chain_of_def st1_def ny_def walk.simps)
    have w: "walk (cells st2) (Some du) = Some [du]" "cell st2 y = ny\<lparr>pxNext := Some du\<rparr>" "cell st2 du = nb"
      "live st2 [du] = [du]"
      using assms(2) nb by (auto simp: st2_def st1_def walk.simps live_def cell_def)
    have p: "pxFirst nb = du" "\<not> xFreed ny" "pxFirst ny = y" using nb by (simp_all add: ny_def)
    have "put st1 (last [y]) (cell st1 (last [y])\<lparr>pxNext := Some (pxFirst nb)\<rparr>) = st2"
      using c(3) p by (simp add: st2_def)
    then show ?thesis
      using c w p assms(2) st2_def [symmetric] by (simp add: vNetBufAppend_def Let_def set_first_def st3_def del: cells_put)
  qed
  then have "xDuEncap (Some y) b PCI_SZ du st = Done (Some y, st3)"
    using nb by (simp add: xDuEncap_def pxNetBufNew_def nb_is_def PCI_SZ_pos ny_def [symmetric] st1_def [symmetric])
  moreover have "headed st3 y du b hb b0 off d"
    using nb assms(2-4) by (simp add: headed_def st3_def st2_def st1_def ny_def)
  moreover have "freemethod (cell st3 y) = Some FreePool" "freemethod (cell st3 du) = freemethod (cell st du)"
    using nb(1) assms(2) by (simp_all add: st3_def st2_def st1_def ny_def cell_def)
  ultimately show ?thesis by (simp add: st3_def st2_def st1_def)
qed

text \<open>Filling the header of such a chain.\<close>

lemma headed_fill:
  assumes "headed st y du b hb b0 off d" "y \<noteq> du" "b \<noteq> b0" "fs \<noteq> []"
  shows "\<exists>st' hb' p. pci_sets fs y st = Done st' \<and> headed st' y du b hb' b0 off d \<and> cells st' = cells st \<and>
    take PCI_SZ hb' = pci_bytes (fold (\<lambda>f. f) fs p)"
proof -
  have r: "pci_room st y b 0 hb" "\<exists>nb. cells st y = Some nb \<and> nb_is NB_RINA_PCI nb"
    using assms(1) by (auto simp: nb_is_def headed_def pci_room_def)
  obtain p where p: "PCI_GET st y = Done p" using pci_get_room [OF r(1)] by blast
  obtain hb' st' where s: "pci_sets fs y st = Done st'" "cells st' = cells st" "bufs st' = (bufs st)(b \<mapsto> hb')"
    "pci_room st' y b 0 hb'" "take PCI_SZ (drop 0 hb') = pci_bytes (fold (\<lambda>f. f) fs p)"
    using pci_sets_room [OF r p assms(4)] by blast
  have "PCI_SZ \<le> length hb'" using s(4) by (auto simp: pci_room_def)
  then have "headed st' y du b hb' b0 off d"
    using assms(1,3) unfolding headed_def s(2,3) by (auto simp: fun_upd_apply)
  then show ?thesis using s(1,2,5) by auto
qed

section \<open>Management data\<close>

definition mgmt_header :: "nat \<Rightarrow> pci" where
  "mgmt_header n = mgmt_pci (n + PCI_SZ)"

lemma mgmt_fields_result: "fold (\<lambda>f. f) (mgmt_fields n) p = mgmt_header n"
  by (simp add: mgmt_fields_def mgmt_header_def mgmt_pci_def)

lemma mgmt_header_ok: "header_ok (mgmt_header n)" "xDestination (mgmt_header n) = 0" "xType (mgmt_header n) = PDU_TYPE_MGMT"
  by (simp_all add: header_ok_def mgmt_header_def mgmt_pci_def pdu_type_is_ok_def is_address_ok_def is_qos_id_ok_def
      ADDRESS_WRONG_def QOS_ID_WRONG_def)

lemma one_seg_lend:
  assumes "one_seg nb t du b0 off d" "b \<noteq> b0"
  shows "one_seg (lend b rs1 nb) t du b0 off d"
  using assms by (auto simp: one_seg_def lend_def)

lemma send_port:
  assumes "prvRmtPortFind port st = Some a" "ports st a = Some pt" "unPort pt = port" "\<not> must_enqueue pt"
    "dw (pxN1Ipcp pt) = Some f"
  shows "xRmtSendPortId dw port y st =
    obind (f port (Some y) (on_port a (uxBusy_update (\<lambda>_. True)) st)) (\<lambda>(r, st1).
      Done (True, on_port a (stats_inc_tx (if r then 1 else 0)) (on_port a (uxBusy_update (\<lambda>_. False)) st1)))"
  using assms by (simp add: xRmtSendPortId_def xRmtN1PortWriteDu_def)

text \<open>What writing management data does, once the pool has handed out a header at \<open>b\<close>: the DU of the IPC
  process below carries the header and the data.\<close>

lemma mgmt_write:
  assumes "is_port_id_ok port" "prvRmtPortFind port st = Some a" "ports st a = Some pt" "unPort pt = port"
    "\<not> must_enqueue pt" "dw (pxN1Ipcp pt) = Some f" "one_seg (nbs st) NB_RINA_DATA du b0 off d" "y \<noteq> du"
    "pxRsrcAlloc (xPciPool st) (Some ''Normal IPC Management PCI'') ha (rs st) = Ret (Some b, rs1)"
    "rsrcs rs1 (b - RSRC_HDR) = Some r" "PCI_SZ \<le> length (payload r)" "b \<noteq> b0"
  shows "\<exists>nb hb. nb_ok nb [y, du] \<and> content nb [y, du] = pci_bytes (mgmt_header (length d)) @ d \<and>
    headed nb y du b hb b0 off d \<and> freemethod (cell nb y) = Some FreePool \<and>
    freemethod (cell nb du) = freemethod (cell (nbs st) du) \<and>
    xNormalMgmtDuWrite dw ha (Some y) port du st =
      obind (f port (Some y) (on_port a (uxBusy_update (\<lambda>_. True)) (st\<lparr>rs := rs1, nbs := nb\<rparr>))) (\<lambda>(r, st1).
        Done (True, on_port a (stats_inc_tx (if r then 1 else 0)) (on_port a (uxBusy_update (\<lambda>_. False)) st1)))"
proof -
  let ?nb = "lend b rs1 (nbs st)"
  have l: "one_seg ?nb NB_RINA_DATA du b0 off d" by (rule one_seg_lend [OF assms(7,12)])
  have bb: "bufs ?nb b = Some (payload r)" using assms(10) by (simp add: lend_def)
  obtain nb1 where e: "xDuEncap (Some y) b PCI_SZ du ?nb = Done (Some y, nb1)" "headed nb1 y du b (payload r) b0 off d"
    "freemethod (cell nb1 y) = Some FreePool" "freemethod (cell nb1 du) = freemethod (cell ?nb du)"
    using encap_headed [OF l assms(8) bb assms(11)] by blast
  have "mgmt_fields (length d) \<noteq> []" by (simp add: mgmt_fields_def)
  from headed_fill [OF e(2) assms(8,12) this] obtain nb2 hb p where
    s: "pci_sets (mgmt_fields (length d)) y nb1 = Done nb2" "headed nb2 y du b hb b0 off d" "cells nb2 = cells nb1"
    "take PCI_SZ hb = pci_bytes (fold (\<lambda>f. f) (mgmt_fields (length d)) p)" by blast
  have c: "nb_ok nb2 [y, du]" "content nb2 [y, du] = pci_bytes (mgmt_header (length d)) @ d"
    using headed_content [OF s(2) assms(8)] s(4) by (simp_all add: mgmt_fields_result)
  obtain nb where nb: "cells (nbs st) du = Some nb" "nb_is NB_RINA_DATA nb"
    using assms(7) by (auto simp: one_seg_def nb_is_def)
  let ?st = "st\<lparr>rs := rs1, nbs := nb2\<rparr>"
  have "xNormalMgmtDuWrite dw ha (Some y) port du st = xRmtSendPortId dw port y ?st"
    using assms(1,9) nb one_seg_size [OF assms(7)] e(1) s(1) by (simp add: xNormalMgmtDuWrite_def run_crash_def Let_def)
  moreover have p: "prvRmtPortFind port ?st = Some a" "ports ?st a = Some pt"
    using assms(2,3) by (simp_all add: prvRmtPortFind_def port_no_def)
  moreover have "cell nb2 = cell nb1" "cell ?nb = cell (nbs st)" by (simp_all add: fun_eq_iff cell_def s(3) lend_def)
  ultimately show ?thesis using send_port [OF p assms(4,5), of dw f y] assms(6) c s(2) e(3,4) by auto
qed

text \<open>Management data from one process to its neighbour.  Once the pool has handed out a header, the
  IPC process below is given, at the port asked for, a DU whose bytes are the management header
  (version 1, address 0, the local address as source, length of data plus 14) and the data; the port
  counts it, is free again, and success is reported whatever the write returned.  A neighbour whose
  N-1 port receives these bytes takes the header off and hands exactly the data to its management
  entity, whatever addresses it has.\<close>
theorem mgmt_roundtrip:
  fixes R :: "'b normal_state_scheme"
  assumes "is_port_id_ok port" "prvRmtPortFind port st = Some a" "ports st a = Some pt" "unPort pt = port"
    "\<not> must_enqueue pt" "dw (pxN1Ipcp pt) = Some f" "one_seg (nbs st) NB_RINA_DATA du b0 off d" "y \<noteq> du"
    "pxRsrcAlloc (xPciPool st) (Some ''Normal IPC Management PCI'') ha (rs st) = Ret (Some b, rs1)"
    "rsrcs rs1 (b - RSRC_HDR) = Some r" "PCI_SZ \<le> length (payload r)" "b \<noteq> b0" "d \<noteq> []"
    "is_port_id_ok port'" "prvRmtPortFind port' R = Some a'" "y' \<noteq> du'"
  shows "\<exists>nb w. (\<forall>n. unNetBufRead nb y 0 n = Some (take n w)) \<and> w = pci_bytes (mgmt_header (length d)) @ d \<and>
    xNormalMgmtDuWrite dw ha (Some y) port du st =
      obind (f port (Some y) (on_port a (uxBusy_update (\<lambda>_. True)) (st\<lparr>rs := rs1, nbs := nb\<rparr>))) (\<lambda>(r, st1).
        Done (True, on_port a (stats_inc_tx (if r then 1 else 0)) (on_port a (uxBusy_update (\<lambda>_. False)) st1))) \<and>
    (one_seg (nbs R) NB_RINA_PCI du' b' off' w \<longrightarrow>
       (\<exists>R'. cut_off R a' du' y' b' off' d R' \<and>
          xNormalDuEnqueue rib (Some y') port' du' R = xRmtProcessMgmtPdu (xNormalMgmtDuPost rib) port' (Some y') R'))"
proof -
  obtain nb where nb: "nb_ok nb [y, du]" "content nb [y, du] = pci_bytes (mgmt_header (length d)) @ d"
    "xNormalMgmtDuWrite dw ha (Some y) port du st =
      obind (f port (Some y) (on_port a (uxBusy_update (\<lambda>_. True)) (st\<lparr>rs := rs1, nbs := nb\<rparr>))) (\<lambda>(r, st1).
        Done (True, on_port a (stats_inc_tx (if r then 1 else 0)) (on_port a (uxBusy_update (\<lambda>_. False)) st1)))"
    using mgmt_write [where dw = dw and f = f, OF assms(1-12)] by blast
  let ?w = "pci_bytes (mgmt_header (length d)) @ d"
  have rd: "unNetBufRead nb y 0 n = Some (take n ?w)" for n
    using nb.read_bytes [OF nb(1), of 0 n] nb(2) by simp
  have rc: "\<exists>R'. cut_off R a' du' y' b' off' d R' \<and>
      xNormalDuEnqueue rib (Some y') port' du' R = xRmtProcessMgmtPdu (xNormalMgmtDuPost rib) port' (Some y') R'"
    if o: "one_seg (nbs R) NB_RINA_PCI du' b' off' ?w"
  proof -
    obtain R' where R': "cut_off R a' du' y' b' off' d R'" "xRmtReceive (xNormalMgmtDuPost rib) (Some y') du' port' R =
        rmt_dispatch (xNormalMgmtDuPost rib) (mgmt_header (length d)) port' (Some y') R'"
      using receive_cut [OF assms(14,15) o assms(13,16), of "xNormalMgmtDuPost rib"] mgmt_header_ok(1) by auto
    then show ?thesis by (auto simp: xNormalDuEnqueue_def rmt_dispatch_def mgmt_header_ok)
  qed
  show ?thesis using nb(3) rd rc by blast
qed

definition pci_pool :: rsrc_state where
  "pci_pool = (sample_state [])\<lparr>pools := [100 \<mapsto> (sample_pool [])\<lparr>pxFreelist := [500], uiNumFree := 1\<rparr>],
     rsrcs := [500 \<mapsto> new_rsrc (replicate 16 0)]\<rparr>"

lemma pci_pool_alloc:
  "\<exists>rs1 r. pxRsrcAlloc (Some 100) (Some ''Normal IPC Management PCI'') (sample_heap 1000) pci_pool =
       Ret (Some 532, rs1) \<and> rsrcs rs1 500 = Some r \<and> PCI_SZ \<le> length (payload r)"
  by (simp add: pxRsrcAlloc_def pxRsrcVarAlloc_def pci_pool_def sample_state_def sample_pool_def refused_def
      take_first_def new_rsrc_def RSRC_HDR_def PCI_SZ_def Let_def mem_set_def helped_def)

definition normal_demo :: "rsrc_state \<Rightarrow> nb_state \<Rightarrow> normal_state" where
  "normal_demo r nb =
    \<lparr>xFlowRequestTable = xFlowRequestTable efcp_demo, fais = fais efcp_demo, handles = handles efcp_demo,
     xEfcpImapTable = xEfcpImapTable efcp_demo, efcps = efcps efcp_demo, nbs = nb, rs = r,
     xPciPool = Some 100, pxRmt = True, xAddresses = [], xPorts = [60], ports = [60 \<mapsto> a_port],
     xFlowsList = [], flows = (\<lambda>_. None)\<rparr>"

lemma normal_demo_port: "prvRmtPortFind 7 (normal_demo r nb) = Some 60" "ports (normal_demo r nb) 60 = Some a_port"
  "unPort a_port = 7" "\<not> must_enqueue a_port"
  by (simp_all add: prvRmtPortFind_def port_no_def normal_demo_def a_port_def pxRmtN1PortCreate_def must_enqueue_def)

end
