(* ===== verification/Frames.thy ===== *)
theory Frames
  imports Efcp
begin

text \<open>What the operations of EFCP leave alone.  \<open>lands P r\<close> says that whenever \<open>r\<close> returns, the state it
  returns satisfies \<open>P\<close>; its rules follow the shape of the definitions.  The state of EFCP is extended by
  the RMT and the normal IPC process; \<open>rest\<close> is that extension, which no operation of EFCP changes.\<close>

definition lands :: "('s \<Rightarrow> bool) \<Rightarrow> ('b \<times> 's) outcome \<Rightarrow> bool" where
  "lands P r = (\<forall>x s. r = Done (x, s) \<longrightarrow> P s)"

lemma lands_simps [simp]: "lands P Crash" "lands P Blocked" "lands P (Fail e)" "lands P (Done (x, s)) = P s"
  by (simp_all add: lands_def)

lemma lands_pure: "(\<And>x. r = Done x \<Longrightarrow> lands P (f x)) \<Longrightarrow> lands P (obind r f)"
  by (auto simp: lands_def obind_Done)

lemma lands_bind: "lands Q r \<Longrightarrow> (\<And>x s. Q s \<Longrightarrow> lands P (f (x, s))) \<Longrightarrow> lands P (obind r f)"
  by (fastforce simp: lands_def obind_Done)

lemma lands_if: "(c \<Longrightarrow> lands P x) \<Longrightarrow> (\<not> c \<Longrightarrow> lands P y) \<Longrightarrow> lands P (if c then x else y)"
  by simp

lemma lands_option: "(r = None \<Longrightarrow> lands P x) \<Longrightarrow> (\<And>y. r = Some y \<Longrightarrow> lands P (f y)) \<Longrightarrow>
  lands P (case r of None \<Rightarrow> x | Some y \<Rightarrow> f y)"
  by (cases r) simp_all

lemma lands_pair: "(\<And>x y. r = (x, y) \<Longrightarrow> lands P (f x y)) \<Longrightarrow> lands P (case r of (x, y) \<Rightarrow> f x y)"
  by (cases r) simp

lemma lands_weaken: "lands Q r \<Longrightarrow> (\<And>s. Q s \<Longrightarrow> P s) \<Longrightarrow> lands P r"
  by (auto simp: lands_def)

lemma lands_bool: "(b \<Longrightarrow> lands P x) \<Longrightarrow> (\<not> b \<Longrightarrow> lands P y) \<Longrightarrow>
  lands P (case b of True \<Rightarrow> x | False \<Rightarrow> y)"
  by (cases b) simp_all

lemmas lands_rules = lands_if lands_bool lands_option lands_pair lands_pure

abbreviation rest :: "'a efcp_state_scheme \<Rightarrow> 'a" where "rest \<equiv> efcp_state.more"

abbreviation same_rest :: "'a efcp_state_scheme \<Rightarrow> 'a efcp_state_scheme \<Rightarrow> bool" where
  "same_rest st \<equiv> \<lambda>s. rest s = rest st"

section \<open>EFCP\<close>

lemma du_post_rest: "rest st = v \<Longrightarrow> lands (\<lambda>s. rest s = v) (xFlowAllocatorDuPost port du st)"
  unfolding xFlowAllocatorDuPost_def by (intro lands_rules) simp_all

lemma imap_find_rest [simp]: "rest (snd (pxEfcpImapFind cep st)) = rest st"
  by (simp add: pxEfcpImapFind_def split: option.split)

lemma imap_find_rest_pair: "pxEfcpImapFind cep st = (r, st') \<Longrightarrow> rest st' = rest st"
  using imap_find_rest [of cep st] by simp

lemma imap_add_rest [simp]: "rest (snd (xEfcpImapAdd cep e st)) = rest st"
  by (simp add: xEfcpImapAdd_def)

lemma imap_remove_rest: "xEfcpImapRemove cep st = (r, st') \<Longrightarrow> rest st' = rest st"
  by (auto simp: xEfcpImapRemove_def split: option.splits)

lemma pdu_post_rest: "rest st = v \<Longrightarrow> lands (\<lambda>s. rest s = v) (xDtpPduPost e du st)"
  unfolding xDtpPduPost_def xEfcpEnqueue_def by (intro lands_rules du_post_rest)

lemma dtp_receive_rest: "rest st = v \<Longrightarrow> lands (\<lambda>s. rest s = v) (xDtpReceive e du st)"
  unfolding xDtpReceive_def Let_def
  by (intro lands_rules lands_bind [OF pdu_post_rest]) simp_all

lemma container_receive_rest: "rest st = v \<Longrightarrow> lands (\<lambda>s. rest s = v) (xEfcpContainerReceive cep du st)"
  unfolding xEfcpContainerReceive_def xEfcpReceive_def
  by (intro lands_rules dtp_receive_rest) (auto dest: imap_find_rest_pair split: if_splits simp: obind_Done)

lemma pdu_send_rest: "rest st = v \<Longrightarrow> lands (\<lambda>s. rest s = v) (xDtpPduSend new du st)"
  unfolding xDtpPduSend_def
  by (intro lands_rules lands_bind [OF container_receive_rest]) simp_all

lemma write_rest: "rest st = v \<Longrightarrow> lands (\<lambda>s. rest s = v) (xDtpWrite ha new new2 e du st)"
  unfolding xDtpWrite_def Let_def
  by (intro lands_rules pdu_send_rest) simp_all

lemma container_write_rest: "rest st = v \<Longrightarrow> lands (\<lambda>s. rest s = v) (xEfcpContainerWrite ha new new2 cep du st)"
  unfolding xEfcpContainerWrite_def xEfcpWrite_def
  by (intro lands_rules lands_bind [OF write_rest]) (auto dest: imap_find_rest_pair)

lemma efcp_destroy_rest: "rest st = v \<Longrightarrow> lands (\<lambda>s. rest s = v) (xEfcpDestroy e st)"
  unfolding xEfcpDestroy_def by (intro lands_rules) simp

lemma on_instance_rest: "rest st = v \<Longrightarrow> lands (\<lambda>s. rest s = v) (on_instance cep f st)"
  unfolding on_instance_def
  by (intro lands_rules lands_bind [OF efcp_destroy_rest]) (auto dest: imap_find_rest_pair)

lemma connection_create_rest:
  "rest st = v \<Longrightarrow> lands (\<lambda>s. rest s = v) (xEfcpConnectionCreate mc me md src dst port qos sc dc st)"
  unfolding xEfcpConnectionCreate_def Let_def
  by (intro lands_rules lands_bind [OF efcp_destroy_rest]) simp_all

lemma connection_update_rest: "rest st = v \<Longrightarrow> lands (\<lambda>s. rest s = v) (xEfcpConnectionUpdate frm to st)"
  unfolding xEfcpConnectionUpdate_def by (intro lands_rules on_instance_rest) simp_all

lemma connection_modify_rest: "rest st = v \<Longrightarrow> lands (\<lambda>s. rest s = v) (xEfcpConnectionModify cep src dst st)"
  unfolding xEfcpConnectionModify_def by (rule on_instance_rest)

lemma connection_destroy_rest: "rest st = v \<Longrightarrow> lands (\<lambda>s. rest s = v) (xEfcpConnectionDestroy cep st)"
  unfolding xEfcpConnectionDestroy_def
  by (intro lands_rules lands_bind [OF efcp_destroy_rest])
    (auto dest!: imap_find_rest_pair imap_remove_rest)

lemmas efcp_rest = container_receive_rest container_write_rest on_instance_rest connection_create_rest
  connection_update_rest connection_modify_rest connection_destroy_rest

end
