(* ===== verification/Normal_Steps.thy ===== *)
theory Normal_Steps
  imports Normal Frames
begin

text \<open>The normal IPC process as a machine whose steps are its operations, in any order.  Well-typed states,
  in which the lists hold addresses of live ports and flows, each port number once, are closed under
  the steps.  The handlers of the RIB and of the IPC process below may do anything that keeps states
  well-typed.\<close>

definition normal_typed :: "'a normal_state_scheme \<Rightarrow> bool" where
  "normal_typed st = (ports_ok st \<and> distinct (xFlowsList st) \<and> (\<forall>a \<in> set (xFlowsList st). flows st a \<noteq> None))"

definition kept :: "('s \<Rightarrow> bool) \<Rightarrow> 's du_handler \<Rightarrow> bool" where
  "kept P h = (\<forall>port du st. P st \<longrightarrow> lands P (h port du st))"

inductive normal_step ::
  "(nat \<Rightarrow> 'a normal_state_scheme du_handler option) \<Rightarrow> 'a normal_state_scheme du_handler
     \<Rightarrow> 'a normal_state_scheme \<Rightarrow> 'a normal_state_scheme \<Rightarrow> bool" for dw rib where
  prebind: "new \<notin> set (xFlowsList st) \<Longrightarrow> normal_step dw rib st (snd (xNormalFlowPrebind (Some new) h st))"
| flow_status: "xNormalUpdateFlowStatus port s st = Done (r, st') \<Longrightarrow> normal_step dw rib st st'"
| cep_id: "normal_step dw rib st (snd (xNormalUpdateCepIdFlow port cep st))"
| conn_create: "xNormalConnectionCreateRequest mc me md port src dst qos st = Done (c, st') \<Longrightarrow> normal_step dw rib st st'"
| conn_modify: "xNormalConnectionModify cep src dst st = Done (r, st') \<Longrightarrow> normal_step dw rib st st'"
| conn_update: "xNormalConnectionUpdate port scep dcep st = Done (r, st') \<Longrightarrow> normal_step dw rib st st'"
| bind_port: "no_port st new \<Longrightarrow> xNormalFlowBinding (Some new) port i st = Done (r, st') \<Longrightarrow> normal_step dw rib st st'"
| du_write: "xNormalDuWrite ha new new2 port du st = Done (r, st') \<Longrightarrow> normal_step dw rib st st'"
| mgmt_write: "xNormalMgmtDuWrite dw ha new port du st = Done (r, st') \<Longrightarrow> normal_step dw rib st st'"
| du_enqueue: "xNormalDuEnqueue rib new port du st = Done (r, st') \<Longrightarrow> normal_step dw rib st st'"

inductive normal_run ::
  "(nat \<Rightarrow> 'a normal_state_scheme du_handler option) \<Rightarrow> 'a normal_state_scheme du_handler
     \<Rightarrow> 'a normal_state_scheme \<Rightarrow> 'a normal_state_scheme \<Rightarrow> bool" for dw rib where
  none: "normal_run dw rib st st"
| more: "normal_run dw rib st st' \<Longrightarrow> normal_step dw rib st' st'' \<Longrightarrow> normal_run dw rib st st''"

inductive_cases normal_stepE: "normal_step dw rib st st'"

section \<open>Each operation keeps states well-typed\<close>

lemma rest_eq:
  "rest st' = rest st \<Longrightarrow> ports st' = ports st \<and> xPorts st' = xPorts st \<and> flows st' = flows st \<and>
     xFlowsList st' = xFlowsList st"
  by (cases st; cases st') simp

lemma ports_ok_cong: "port_no st' = port_no st \<Longrightarrow> xPorts st' = xPorts st \<Longrightarrow> ports_ok st' = ports_ok st"
  by (simp add: ports_ok_def)

lemma ports_ok_same:
  assumes "ports st' = ports st" "xPorts st' = xPorts st"
  shows "ports_ok st' = ports_ok st"
  using assms by (intro ports_ok_cong) (auto simp: port_no_def)

lemma ports_ok_flows [simp]: "ports_ok (flows_update f st) = ports_ok st" "ports_ok (xFlowsList_update g st) = ports_ok st"
  by (rule ports_ok_same; simp)+

lemma typed_cong:
  assumes "ports st' = ports st" "xPorts st' = xPorts st" "flows st' = flows st" "xFlowsList st' = xFlowsList st"
  shows "normal_typed st' = normal_typed st"
  using assms ports_ok_same [OF assms(1,2)] by (simp add: normal_typed_def)

lemma typed_rest: "rest st' = rest st \<Longrightarrow> normal_typed st \<Longrightarrow> normal_typed st'"
  using rest_eq typed_cong by metis

lemma on_port_no:
  assumes "\<And>p. unPort (f p) = unPort p"
  shows "port_no (on_port a f st) = port_no st"
  using assms by (auto simp: port_no_def on_port_def option.map_comp comp_def cong: map_option_cong)

lemma typed_on_port:
  assumes "\<And>p. unPort (f p) = unPort p"
  shows "normal_typed (on_port a f st) = normal_typed st"
proof -
  have "ports_ok (on_port a f st) = ports_ok st"
    using on_port_no [OF assms, of a st] by (intro ports_ok_cong) (simp_all add: on_port_def)
  then show ?thesis by (simp add: normal_typed_def) (simp add: on_port_def)
qed

lemma typed_nbs [simp]: "normal_typed (st\<lparr>nbs := nb\<rparr>) = normal_typed st" "normal_typed (st\<lparr>rs := r\<rparr>) = normal_typed st"
  by (rule typed_cong; simp)+

lemma on_flow_typed: "normal_typed st \<Longrightarrow> normal_typed (snd (on_flow f port st))"
  by (auto simp: normal_typed_def on_flow_def split: option.split)

lemma prebind_typed:
  "normal_typed st \<Longrightarrow> new \<notin> set (xFlowsList st) \<Longrightarrow> normal_typed (snd (xNormalFlowPrebind (Some new) h st))"
  by (simp add: normal_typed_def xNormalFlowPrebind_def)

lemma efcp_typed:
  assumes "\<And>v. rest st = v \<Longrightarrow> lands (\<lambda>s. rest s = v) r" "normal_typed st"
  shows "lands normal_typed r"
  using assms(1) [OF refl] by (rule lands_weaken) (use typed_rest assms(2) in blast)

lemma bind_typed:
  assumes "normal_typed st" "no_port st new"
  shows "lands normal_typed (xRmtN1PortBind (Some new) port i st)"
proof (cases "is_port_id_ok port \<and> i \<noteq> None")
  case True
  then obtain j where i: "i = Some j" "is_port_id_ok port" by auto
  have "ports_ok (snd (bind_port j new port st))"
    using bind_ok [of st port new j] assms i by (simp add: normal_typed_def)
  then show ?thesis
    using bind_port_cases [OF i(2), of new j st] assms(1) i(1)
    by (cases "bind_port j new port st") (auto simp: normal_typed_def)
next
  case False
  then show ?thesis by (auto simp: xRmtN1PortBind_def lands_def)
qed

lemma handler_lands: "kept P h \<Longrightarrow> P st \<Longrightarrow> lands P (h port du st)"
  by (simp add: kept_def)

lemma mgmt_kept: "kept normal_typed rib \<Longrightarrow> kept normal_typed (xRmtProcessMgmtPdu (xNormalMgmtDuPost rib))"
  unfolding kept_def xRmtProcessMgmtPdu_def xNormalMgmtDuPost_def
  by (intro allI impI lands_bind [where Q = normal_typed] lands_rules) (auto simp: lands_def)

lemma dispatch_typed:
  assumes "kept normal_typed rib" "normal_typed st"
  shows "lands normal_typed (rmt_dispatch (xNormalMgmtDuPost rib) p port du st)"
  unfolding rmt_dispatch_def
  by (intro lands_if handler_lands [OF mgmt_kept [OF assms(1)]])
    (use assms(2) in \<open>auto simp: xRmtProcessDtPdu_def intro!: lands_rules efcp_typed container_receive_rest\<close>)

lemma enqueue_typed:
  assumes "kept normal_typed rib" "normal_typed st"
  shows "lands normal_typed (xNormalDuEnqueue rib new port du st)"
  unfolding xNormalDuEnqueue_def xRmtReceive_def Let_def
  by (intro lands_rules dispatch_typed assms(1))
    (use assms(2) in \<open>auto simp: typed_on_port stats_inc_rx_def\<close>)

lemma send_typed:
  assumes "\<forall>i h. dw i = Some h \<longrightarrow> kept normal_typed h" "normal_typed st"
  shows "lands normal_typed (xRmtSendPortId dw port du st)"
proof -
  have w: "lands normal_typed (xRmtN1PortWriteDu dw p du s)" if "normal_typed s" for p and s :: "'a normal_state_scheme"
    unfolding xRmtN1PortWriteDu_def
  proof (rule lands_pure)
    fix h assume "or_crash (dw (pxN1Ipcp p)) = Done h"
    then have "dw (pxN1Ipcp p) = Some h" by (cases "dw (pxN1Ipcp p)") simp_all
    then have "kept normal_typed h" using assms(1) by blast
    then show "lands normal_typed (h (unPort p) (Some du) s)" using that by (rule handler_lands)
  qed
  show ?thesis
    unfolding xRmtSendPortId_def
    by (intro lands_option lands_pure lands_if lands_bind [OF w])
      (use assms(2) in \<open>auto simp: typed_on_port stats_inc_tx_def\<close>)
qed

lemma mgmt_write_typed:
  assumes "\<forall>i h. dw i = Some h \<longrightarrow> kept normal_typed h" "normal_typed st"
  shows "lands normal_typed (xNormalMgmtDuWrite dw ha new port du st)"
  unfolding xNormalMgmtDuWrite_def Let_def
  by (intro lands_rules send_typed assms(1)) (use assms(2) in simp_all)

lemma lands_Done: "P (snd y) \<Longrightarrow> lands P (Done y)"
  by (cases y) simp

lemma du_write_typed: "normal_typed st \<Longrightarrow> lands normal_typed (xNormalDuWrite ha new new2 port du st)"
  unfolding xNormalDuWrite_def by (intro lands_rules efcp_typed [OF container_write_rest]) simp_all

lemma create_typed: "normal_typed st \<Longrightarrow> lands normal_typed (xNormalConnectionCreateRequest mc me md port src dst qos st)"
  unfolding xNormalConnectionCreateRequest_def
  by (intro lands_if lands_bind [OF efcp_typed [OF connection_create_rest]]) simp_all

lemma update_typed: "normal_typed st \<Longrightarrow> lands normal_typed (xNormalConnectionUpdate port scep dcep st)"
  unfolding xNormalConnectionUpdate_def
  by (intro lands_bind [OF efcp_typed [OF connection_update_rest]]) (auto intro: lands_Done on_flow_typed)

lemma lands_result: "lands P r \<Longrightarrow> r = Done (x, s) \<Longrightarrow> P s"
  by (simp add: lands_def)

lemma step_typed:
  assumes "kept normal_typed rib" "\<forall>i h. dw i = Some h \<longrightarrow> kept normal_typed h" "normal_typed st"
    "normal_step dw rib st st'"
  shows "normal_typed st'"
  using assms(4)
proof cases
  case prebind
  then show ?thesis using prebind_typed [OF assms(3)] by simp
next
  case (flow_status port s r)
  then show ?thesis using on_flow_typed [OF assms(3), of "nf_state_update (\<lambda>_. s)" port]
    by (auto simp: xNormalUpdateFlowStatus_def split: if_splits)
next
  case cep_id
  then show ?thesis using on_flow_typed [OF assms(3)] by (simp add: xNormalUpdateCepIdFlow_def)
next
  case conn_create
  then show ?thesis using lands_result [OF create_typed [OF assms(3)]] by blast
next
  case conn_modify
  then show ?thesis
    using lands_result [OF efcp_typed [OF connection_modify_rest assms(3)]] by (simp add: xNormalConnectionModify_def)
next
  case conn_update
  then show ?thesis using lands_result [OF update_typed [OF assms(3)]] by blast
next
  case (bind_port new port i r)
  then show ?thesis using lands_result [OF bind_typed [OF assms(3) bind_port(1)]]
    by (simp add: xNormalFlowBinding_def split: if_splits)
next
  case du_write
  then show ?thesis using lands_result [OF du_write_typed [OF assms(3)]] by blast
next
  case mgmt_write
  then show ?thesis using lands_result [OF mgmt_write_typed [where dw = dw, OF assms(2,3)]] by blast
next
  case du_enqueue
  then show ?thesis using lands_result [OF enqueue_typed [OF assms(1,3)]] by blast
qed

text \<open>C17. In every state the operations of the normal IPC process lead to, in whatever order they are called
  and whatever the RIB daemon and the IPC processes below do within their types, each flow and N-1 port
  a look-up finds is there and has the number asked for, and no two bound ports have the same number.\<close>
theorem normal_well_typed:
  assumes "kept normal_typed rib" "\<forall>i h. dw i = Some h \<longrightarrow> kept normal_typed h" "normal_typed st"
    "normal_run dw rib st st'"
  shows "normal_typed st' \<and>
    (\<forall>port a. prvNormalFindFlow port st' = Some a \<longrightarrow> (\<exists>f. flows st' a = Some f \<and> nf_port f = port)) \<and>
    (\<forall>port a. prvRmtPortFind port st' = Some a \<longrightarrow> (\<exists>p. ports st' a = Some p \<and> unPort p = port)) \<and>
    (\<forall>a \<in> set (xPorts st'). \<forall>b \<in> set (xPorts st').
       map_option unPort (ports st' a) = map_option unPort (ports st' b) \<longrightarrow> a = b)"
proof -
  from assms(4,3) have t: "normal_typed st'"
    by (induction rule: normal_run.induct) (use step_typed [where dw = dw and rib = rib, OF assms(1,2)] in blast)+
  have "\<exists>f. flows st' a = Some f \<and> nf_port f = port" if "prvNormalFindFlow port st' = Some a" for port a
    using find_some [OF that [unfolded prvNormalFindFlow_def]] by (auto simp: flow_no_def)
  moreover have "\<exists>p. ports st' a = Some p \<and> unPort p = port" if "prvRmtPortFind port st' = Some a" for port a
    using port_find_in [OF that] by (auto simp: port_no_def)
  moreover have "inj_on (port_no st') (set (xPorts st'))" using t by (simp add: normal_typed_def ports_ok_def)
  ultimately show ?thesis using t unfolding inj_on_def port_no_def by blast
qed

lemma normal_well_typed_witness:
  "normal_typed (snd (xNormalFlowPrebind (Some 70) (the (handles two_flows 11)) (normal_demo pci_pool (du_seg NB_RINA_DATA []))))"
proof -
  let ?st = "normal_demo pci_pool (du_seg NB_RINA_DATA [])"
  have t: "normal_typed ?st"
    by (simp add: normal_typed_def ports_ok_def port_no_def normal_demo_def a_port_def pxRmtN1PortCreate_def
        is_port_id_ok_def PORT_ID_WRONG_def)
  have "70 \<notin> set (xFlowsList ?st)" by (simp add: normal_demo_def)
  then have "normal_run (\<lambda>_. None) (\<lambda>_ _ s. Done (True, s)) ?st
      (snd (xNormalFlowPrebind (Some 70) (the (handles two_flows 11)) ?st))"
    by (intro normal_run.more [OF normal_run.none] normal_step.prebind)
  moreover have "kept normal_typed (\<lambda>_ _ s. Done (True, s))" by (simp add: kept_def)
  ultimately show ?thesis using normal_well_typed [of "\<lambda>_ _ s. Done (True, s)" "\<lambda>_. None" ?st] t by blast
qed

text \<open>What becomes of a flow: pre-bound it refuses writes, and it accepts them once the connection of the
  flow is updated.\<close>

lemma prebind_finds:
  assumes "prvNormalFindFlow (h_port h) st = None" "new \<notin> set (xFlowsList st)" "xNormalFlowPrebind (Some new) h st = (r, st')"
  shows "r \<and> prvNormalFindFlow (h_port h) st' = Some new \<and> flows st' new =
    Some \<lparr>nf_port = h_port h, xActive = None, nf_state = ePORT_STATE_PENDING\<rparr>"
proof -
  have n: "flow_no st a \<noteq> Some (h_port h)" if "a \<in> set (xFlowsList st)" for a
    using assms(1) that by (auto simp: prvNormalFindFlow_def find_None_iff)
  have st': "st' = st\<lparr>flows := (flows st)(new \<mapsto> \<lparr>nf_port = h_port h, xActive = None, nf_state = ePORT_STATE_PENDING\<rparr>),
      xFlowsList := second new (xFlowsList st)\<rparr>" "r"
    using assms(3) by (auto simp: xNormalFlowPrebind_def)
  have f: "flow_no st' a = (if a = new then Some (h_port h) else flow_no st a)" for a
    by (simp add: st'(1) flow_no_def)
  have "prvNormalFindFlow (h_port h) st' \<noteq> None"
    unfolding prvNormalFindFlow_def find_None_iff using f by (auto simp: st'(1))
  then obtain a where a: "prvNormalFindFlow (h_port h) st' = Some a" by blast
  from find_some [OF a [unfolded prvNormalFindFlow_def]] n f have "a = new" by (auto simp: st'(1) split: if_splits)
  then show ?thesis using a st' by simp
qed

end
