(* ===== verification/Cdap.thy ===== *)
theory Cdap
  imports Rina_Name Keyed_Table Pci
begin

text \<open>CDAP messages (\<^verbatim>\<open>Ribd/CdapMessage.c\<close>, \<^verbatim>\<open>Ribd/include/Ribd_msg.h\<close>): their building blocks, how much
  memory a message takes and how its strings are laid out behind it.  Strings are blocks of bytes up to
  a NUL, \<^verbatim>\<open>NULL\<close> is \<open>None\<close>.\<close>

section \<open>Messages\<close>

definition M_CONNECT :: u32 where "M_CONNECT = 0"
definition M_CONNECT_R :: u32 where "M_CONNECT_R = 1"
definition M_RELEASE :: u32 where "M_RELEASE = 2"
definition M_RELEASE_R :: u32 where "M_RELEASE_R = 3"
definition M_CREATE :: u32 where "M_CREATE = 4"
definition M_CREATE_R :: u32 where "M_CREATE_R = 5"
definition M_DELETE :: u32 where "M_DELETE = 6"
definition M_DELETE_R :: u32 where "M_DELETE_R = 7"
definition M_READ :: u32 where "M_READ = 8"
definition M_READ_R :: u32 where "M_READ_R = 9"
definition M_CANCELREAD :: u32 where "M_CANCELREAD = 10"
definition M_CANCELREAD_R :: u32 where "M_CANCELREAD_R = 11"
definition M_WRITE :: u32 where "M_WRITE = 12"
definition M_WRITE_R :: u32 where "M_WRITE_R = 13"
definition M_START :: u32 where "M_START = 14"
definition M_START_R :: u32 where "M_START_R = 15"
definition M_STOP :: u32 where "M_STOP = 16"
definition M_STOP_R :: u32 where "M_STOP_R = 17"
definition MAX_CDAP_OPCODE :: u32 where "MAX_CDAP_OPCODE = M_STOP_R"

lemmas opcodes = M_CONNECT_def M_CONNECT_R_def M_RELEASE_def M_RELEASE_R_def M_CREATE_def M_CREATE_R_def
  M_DELETE_def M_DELETE_R_def M_READ_def M_READ_R_def M_CANCELREAD_def M_CANCELREAD_R_def M_WRITE_def
  M_WRITE_R_def M_START_def M_START_R_def M_STOP_def M_STOP_R_def MAX_CDAP_OPCODE_def

record cdap =
  eOpCode :: u32
  m_dst :: rname
  m_src :: rname
  m_version :: u64
  nInvokeID :: u32
  pcObjClass :: "bytes option"
  pcObjName :: "bytes option"
  objInst :: u64
  pxObjValue :: "bytes option"
  m_result :: u32
  pcResultReason :: "bytes option"

text \<open>The memory behind a message: the allocator of the names, or \<open>None\<close> when the pool of messages has none.\<close>

type_synonym msg_mem = "allocator option"

definition CFG_MANAGEMENT_AE :: bytes where "CFG_MANAGEMENT_AE = ascii ''Management'' @ [0]"

definition mgmt_name :: "allocator \<Rightarrow> rname res" where
  "mgmt_name al = xNameAssignFromPartsDup al (Some [0]) (Some CFG_MANAGEMENT_AE) (Some [0]) (Some [0])"

definition pxRibCdapMsgCreate :: "msg_mem \<Rightarrow> cdap option" where
  "pxRibCdapMsgCreate ma =
    (case ma of None \<Rightarrow> None
     | Some al \<Rightarrow>
         (case mgmt_name al of Inl e \<Rightarrow> None
          | Inr n \<Rightarrow>
              (case mgmt_name al of Inl e \<Rightarrow> None
               | Inr n' \<Rightarrow>
                   Some \<lparr>eOpCode = - 1, m_dst = n, m_src = n', m_version = 1, nInvokeID = 1, pcObjClass = None,
                         pcObjName = None, objInst = - 1, pxObjValue = None, m_result = 0,
                         pcResultReason = None\<rparr>)))"

text \<open>The result code is not stored.\<close>

definition pxRibCdapMsgCreateResponse ::
  "msg_mem \<Rightarrow> bytes option \<Rightarrow> bytes option \<Rightarrow> u64 \<Rightarrow> u32 \<Rightarrow> bytes option \<Rightarrow> u32 \<Rightarrow> bytes option \<Rightarrow> u32 \<Rightarrow> cdap option" where
  "pxRibCdapMsgCreateResponse ma cls nm inst opc val rcode reason iid =
    map_option (\<lambda>m. m\<lparr>nInvokeID := iid, eOpCode := opc, objInst := inst, pxObjValue := val, pcObjName := nm,
                      pcObjClass := cls, pcResultReason := reason\<rparr>) (pxRibCdapMsgCreate ma)"

text \<open>\<open>iid\<close> is what \<^verbatim>\<open>get_next_invoke_id\<close> returned.\<close>

definition pxRibCdapMsgCreateRequest ::
  "msg_mem \<Rightarrow> bytes option \<Rightarrow> bytes option \<Rightarrow> u64 \<Rightarrow> u32 \<Rightarrow> bytes option \<Rightarrow> u32 \<Rightarrow> cdap option" where
  "pxRibCdapMsgCreateRequest ma cls nm inst opc val iid =
    map_option (\<lambda>m. m\<lparr>nInvokeID := iid, eOpCode := opc, objInst := inst, pxObjValue := val, pcObjName := nm,
                      pcObjClass := cls\<rparr>) (pxRibCdapMsgCreate ma)"

text \<open>\<^verbatim>\<open>get_next_invoke_id\<close>: the value returned and the new counter.\<close>

definition get_next_invoke_id :: "u32 \<Rightarrow> u32 \<times> u32" where
  "get_next_invoke_id n = (if n mod 0x7FFFFFFF = 0 then (1, 1) else (n, n + 1))"

section \<open>Layout\<close>

text \<open>\<open>szm\<close> and \<open>szv\<close> are the sizes of the structures \<^verbatim>\<open>messageCdap_t\<close> and \<^verbatim>\<open>serObjectValue_t\<close>.\<close>

definition prvCountCommonItems :: "nat \<Rightarrow> bytes option \<Rightarrow> bytes option \<Rightarrow> bytes option \<Rightarrow> nat" where
  "prvCountCommonItems szv cls nm val =
    (case nm of None \<Rightarrow> 0 | Some s \<Rightarrow> strlen s + 1) + (case cls of None \<Rightarrow> 0 | Some s \<Rightarrow> strlen s + 1) +
    (case val of None \<Rightarrow> 0 | Some v \<Rightarrow> szv + length v)"

definition request_size :: "nat \<Rightarrow> nat \<Rightarrow> bytes option \<Rightarrow> bytes option \<Rightarrow> bytes option \<Rightarrow> nat" where
  "request_size szm szv cls nm val =
    szm + prvCountCommonItems szv cls nm val + (case val of None \<Rightarrow> 0 | Some v \<Rightarrow> szv + length v)"

definition response_size :: "nat \<Rightarrow> nat \<Rightarrow> bytes option \<Rightarrow> bytes option \<Rightarrow> bytes option \<Rightarrow> bytes option \<Rightarrow> nat" where
  "response_size szm szv cls nm val reason =
    szm + (szm + prvCountCommonItems szv cls nm val + (case reason of None \<Rightarrow> 0 | Some s \<Rightarrow> strlen s + 1))"

text \<open>The block of a message of which the first \<open>szm\<close> bytes are the structure: the bytes stored behind it
  and the position after the last one.  \<open>None\<close> is a write past the end of the block.\<close>

definition copy_string :: "bytes option \<Rightarrow> bytes \<times> nat \<Rightarrow> (bytes \<times> nat) option" where
  "copy_string s =
    (\<lambda>(blk, px). case s of None \<Rightarrow> Some (blk, px)
       | Some t \<Rightarrow> map_option (\<lambda>b. (b, px + strlen t + 1)) (mem_write blk px (cstring t @ [0])))"

definition prvCopyCommonStrings ::
  "nat \<Rightarrow> nat \<Rightarrow> bytes option \<Rightarrow> bytes option \<Rightarrow> bytes option \<Rightarrow> bytes \<Rightarrow> (bytes \<times> nat) option" where
  "prvCopyCommonStrings szm szv cls nm val blk =
    Option.bind
      (case val of None \<Rightarrow> Some (blk, szm)
       | Some v \<Rightarrow> map_option (\<lambda>b. (b, szm + szv + length v)) (mem_write blk (szm + szv) v))
      (\<lambda>r. Option.bind (copy_string nm r) (copy_string cls))"

definition response_block ::
  "nat \<Rightarrow> nat \<Rightarrow> bytes option \<Rightarrow> bytes option \<Rightarrow> bytes option \<Rightarrow> bytes option \<Rightarrow> bytes \<Rightarrow> (bytes \<times> nat) option" where
  "response_block szm szv cls nm val reason blk =
    Option.bind (prvCopyCommonStrings szm szv cls nm val blk) (copy_string reason)"

lemma copy_string_fits:
  assumes "px + (case s of None \<Rightarrow> 0 | Some t \<Rightarrow> strlen t + 1) \<le> length blk"
  shows "\<exists>blk'. copy_string s (blk, px) = Some (blk', px + (case s of None \<Rightarrow> 0 | Some t \<Rightarrow> strlen t + 1)) \<and>
    length blk' = length blk"
proof (cases s)
  case (Some t)
  then have "px + length (cstring t @ [0 :: u8]) \<le> length blk" using assms by (simp add: strlen_def)
  then obtain b where b: "mem_write blk px (cstring t @ [0]) = Some b"
    by (cases "mem_write blk px (cstring t @ [0])") (auto simp: mem_write_None)
  then show ?thesis using Some mem_write_length [OF b] by (simp add: copy_string_def)
qed (simp add: copy_string_def)

lemma common_fits:
  assumes "szm + prvCountCommonItems szv cls nm val \<le> length blk"
  shows "\<exists>blk'. prvCopyCommonStrings szm szv cls nm val blk =
      Some (blk', szm + prvCountCommonItems szv cls nm val) \<and> length blk' = length blk"
proof -
  let ?nm = "case nm of None \<Rightarrow> 0 | Some t \<Rightarrow> strlen t + 1" and ?cls = "case cls of None \<Rightarrow> 0 | Some t \<Rightarrow> strlen t + 1"
  let ?val = "case val of None \<Rightarrow> 0 | Some v \<Rightarrow> szv + length v"
  have n: "prvCountCommonItems szv cls nm val = ?nm + ?cls + ?val" by (simp add: prvCountCommonItems_def)
  obtain b0 where b0: "(case val of None \<Rightarrow> Some (blk, szm)
       | Some v \<Rightarrow> map_option (\<lambda>b. (b, szm + szv + length v)) (mem_write blk (szm + szv) v)) = Some (b0, szm + ?val)"
    "length b0 = length blk"
  proof (cases val)
    case (Some v)
    then have "szm + szv + length v \<le> length blk" using assms n by simp
    then obtain b where b: "mem_write blk (szm + szv) v = Some b"
      by (cases "mem_write blk (szm + szv) v") (auto simp: mem_write_None)
    then show ?thesis using that Some mem_write_length [OF b] by simp
  qed (use that in simp)
  have "szm + ?val + ?nm \<le> length b0" using assms n b0(2) by simp
  from copy_string_fits [OF this] obtain b1 where b1: "copy_string nm (b0, szm + ?val) = Some (b1, szm + ?val + ?nm)"
    "length b1 = length b0" by blast
  have "szm + ?val + ?nm + ?cls \<le> length b1" using assms n b0(2) b1(2) by simp
  from copy_string_fits [OF this] obtain b2 where
    "copy_string cls (b1, szm + ?val + ?nm) = Some (b2, szm + ?val + ?nm + ?cls)" "length b2 = length b1" by blast
  then show ?thesis
    using b0 b1 n by (simp add: prvCopyCommonStrings_def ac_simps)
qed

text \<open>The memory asked for a message is enough for everything copied behind it, in a request and in a
  response, with or without object, value and reason.  It is more than enough: a request counts its
  value twice, a response the structure twice.\<close>
theorem message_fits:
  assumes "length blk = request_size szm szv cls nm val" "length blk' = response_size szm szv cls nm val reason"
  shows "\<exists>b n b' n'. prvCopyCommonStrings szm szv cls nm val blk = Some (b, n) \<and>
    n + (case val of None \<Rightarrow> 0 | Some v \<Rightarrow> szv + length v) = length blk \<and>
    response_block szm szv cls nm val reason blk' = Some (b', n') \<and> n' + szm = length blk'"
proof -
  let ?r = "case reason of None \<Rightarrow> 0 | Some t \<Rightarrow> strlen t + 1"
  have l: "szm + prvCountCommonItems szv cls nm val \<le> length blk" using assms(1) by (simp add: request_size_def)
  have l': "szm + prvCountCommonItems szv cls nm val \<le> length blk'" using assms(2) by (simp add: response_size_def)
  obtain b where b: "prvCopyCommonStrings szm szv cls nm val blk = Some (b, szm + prvCountCommonItems szv cls nm val)"
    using common_fits [OF l] by blast
  obtain c where c: "prvCopyCommonStrings szm szv cls nm val blk' = Some (c, szm + prvCountCommonItems szv cls nm val)"
    "length c = length blk'" using common_fits [OF l'] by blast
  have "szm + prvCountCommonItems szv cls nm val + ?r \<le> length c"
    using assms(2) c(2) by (simp add: response_size_def)
  from copy_string_fits [OF this] obtain b' where
    "copy_string reason (c, szm + prvCountCommonItems szv cls nm val) =
       Some (b', szm + prvCountCommonItems szv cls nm val + ?r)" by blast
  then show ?thesis using b c(1) assms by (simp add: response_block_def request_size_def response_size_def)
qed

end
