(* ===== verification/Rib.thy ===== *)
theory Rib
  imports Cdap Normal
begin

text \<open>The RIB daemon (\<^verbatim>\<open>Ribd/Ribd.c\<close>, \<^verbatim>\<open>Ribd_connections.c\<close>, \<^verbatim>\<open>Ribd_requests.c\<close>, \<^verbatim>\<open>Ribd_obj.c\<close>): the
  tables of application connections, of pending requests and of objects, what becomes of an incoming
  CDAP message and how requests and replies go out.  The state extends that of the normal IPC process.
  The methods of the objects, the callbacks and the output function are an environment of functions on
  the state; function pointers are keys into it.\<close>

section \<open>State\<close>

datatype con_status = CONNECTION_RELEASED | CONNECTION_IN_PROGRESS | CONNECTION_OK

record app_con =
  xSourceInfo :: rname
  xDestinationInfo :: rname
  uCdapVersion :: u8
  uRibVersion :: u8
  xStatus :: con_status
  con_port :: u32

record pending_req =
  unInvokeID :: u32
  eReqOpCode :: u32
  xRibResCb :: "nat option"
  pxResp :: "nat option"
  req_obj :: "bytes option"
  req_locked :: bool

record rib_obj =
  obj_ribd :: bool
  pvOwner :: "nat option"
  pvPriv :: "nat option"
  ucObjName :: "bytes option"
  ucObjClass :: "bytes option"
  ulObjInst :: u64
  fnStart :: "nat option"
  fnStop :: "nat option"
  fnCreate :: "nat option"
  fnDelete :: "nat option"
  fnRead :: "nat option"
  fnWrite :: "nat option"
  fnStartReply :: "nat option"
  fnStopReply :: "nat option"
  fnCreateReply :: "nat option"
  fnDeleteReply :: "nat option"
  fnReadReply :: "nat option"
  fnWriteReply :: "nat option"
  fnInit :: "nat option"

definition APP_CONNECTION_TABLE_SIZE :: nat where "APP_CONNECTION_TABLE_SIZE = 5"
definition RESPONSE_HANDLER_TABLE_SIZE :: nat where "RESPONSE_HANDLER_TABLE_SIZE = 10"
definition RIB_TABLE_SIZE :: nat where "RIB_TABLE_SIZE = 10"

record rib_state = normal_state +
  xDoLock :: bool
  xMutex :: bool
  xAppConnections :: "app_con list"
  xPendingReqs :: "pending_req list"
  pxRibObjects :: "nat option list"
  rib_objs :: "nat \<Rightarrow> rib_obj option"
  invoke_id :: u32

text \<open>The environment: methods for requests and for replies, callbacks for replies, initialisers and the
  output function.\<close>

record 's rib_env =
  req_method :: "nat \<Rightarrow> nat \<Rightarrow> nat option \<Rightarrow> cdap \<Rightarrow> 's \<Rightarrow> (status \<times> 's) outcome"
  rep_method :: "nat \<Rightarrow> nat \<Rightarrow> nat option \<Rightarrow> cdap \<Rightarrow> 's \<Rightarrow> ((status \<times> nat option) \<times> 's) outcome"
  res_cb :: "nat \<Rightarrow> nat \<Rightarrow> nat option \<Rightarrow> 's \<Rightarrow> (status \<times> 's) outcome"
  init_method :: "nat \<Rightarrow> nat option \<Rightarrow> nat \<Rightarrow> 's \<Rightarrow> (status \<times> 's) outcome"
  fnRibOutput :: "cdap \<Rightarrow> u32 \<Rightarrow> 's \<Rightarrow> (status \<times> 's) outcome"

text \<open>The mutex is not recursive: locking it twice waits for ever.\<close>

definition vRibLock :: "'a rib_state_scheme \<Rightarrow> 'a rib_state_scheme outcome" where
  "vRibLock st = (if \<not> xDoLock st then Done st else if xMutex st then Blocked else Done (st\<lparr>xMutex := True\<rparr>))"

definition vRibUnlock :: "'a rib_state_scheme \<Rightarrow> 'a rib_state_scheme" where
  "vRibUnlock st = (if xDoLock st then st\<lparr>xMutex := False\<rparr> else st)"

definition zero_name :: rname where
  "zero_name = \<lparr>unPostLn = 0, pcProcessName = [], pcProcessInstance = [], pcEntityName = [], pcEntityInstance = [],
     pxFree = False\<rparr>"

definition zero_con :: app_con where
  "zero_con = \<lparr>xSourceInfo = zero_name, xDestinationInfo = zero_name, uCdapVersion = 0, uRibVersion = 0,
     xStatus = CONNECTION_RELEASED, con_port = 0\<rparr>"

definition zero_req :: pending_req where
  "zero_req = \<lparr>unInvokeID = 0, eReqOpCode = 0, xRibResCb = None, pxResp = None, req_obj = None, req_locked = False\<rparr>"

section \<open>Connections\<close>

definition set_con :: "nat \<Rightarrow> app_con \<Rightarrow> 'a rib_state_scheme \<Rightarrow> 'a rib_state_scheme" where
  "set_con x c st = st\<lparr>xAppConnections := (xAppConnections st)[x := c]\<rparr>"

text \<open>\<open>al1\<close> and \<open>al2\<close> are the allocators behind the two copies of names.\<close>

definition xRibConnectionAdd ::
  "allocator \<Rightarrow> allocator \<Rightarrow> rname \<Rightarrow> rname \<Rightarrow> u32 \<Rightarrow> 'a rib_state_scheme \<Rightarrow> (status \<times> 'a rib_state_scheme) outcome" where
  "xRibConnectionAdd al1 al2 src dst port st =
    obind (vRibLock st) (\<lambda>st1.
      case find_idx (\<lambda>c. xStatus c = CONNECTION_RELEASED) (xAppConnections st1) of
        None \<Rightarrow> Done (Some ERR_RIB_TOO_MANY_CONNECTIONS, st1)
      | Some x \<Rightarrow>
          let c = (xAppConnections st1 ! x)\<lparr>uCdapVersion := 1, uRibVersion := 1, con_port := port,
                     xStatus := CONNECTION_IN_PROGRESS\<rparr> in
          case xNameAssignDup al1 src of
            Inl e \<Rightarrow> Done (Some ERR_ERR, vRibUnlock (set_con x c st1))
          | Inr s \<Rightarrow>
              (case xNameAssignDup al2 dst of
                 Inl e \<Rightarrow> Done (Some ERR_ERR, vRibUnlock (set_con x (c\<lparr>xSourceInfo := s\<rparr>) st1))
               | Inr d \<Rightarrow>
                   Done (None, vRibUnlock (set_con x (c\<lparr>xSourceInfo := s, xDestinationInfo := d\<rparr>) st1))))"

definition pxRibConnectionFind :: "u32 \<Rightarrow> 'a rib_state_scheme \<Rightarrow> nat option" where
  "pxRibConnectionFind port st =
    find_idx (\<lambda>c. xStatus c \<noteq> CONNECTION_RELEASED \<and> con_port c = port) (xAppConnections st)"

definition vRibConnectionRelease :: "nat \<Rightarrow> 'a rib_state_scheme \<Rightarrow> 'a rib_state_scheme" where
  "vRibConnectionRelease x st = set_con x zero_con st"

section \<open>Pending requests\<close>

definition xRibAddPendingResponse ::
  "bytes option \<Rightarrow> u32 \<Rightarrow> u32 \<Rightarrow> nat option \<Rightarrow> 'a rib_state_scheme \<Rightarrow> status \<times> 'a rib_state_scheme" where
  "xRibAddPendingResponse nm iid opc cb st =
    (case find_idx (\<lambda>r. unInvokeID r = 0) (xPendingReqs st) of
       None \<Rightarrow> (Some ERR_RIB_TABLE_FULL, st)
     | Some x \<Rightarrow>
         (None, st\<lparr>xPendingReqs := (xPendingReqs st)[x :=
            \<lparr>unInvokeID = iid, eReqOpCode = opc, xRibResCb = cb, pxResp = None, req_obj = nm, req_locked = False\<rparr>]\<rparr>))"

definition xRibFindPendingResponse :: "u32 \<Rightarrow> 'a rib_state_scheme \<Rightarrow> (nat option \<times> 'a rib_state_scheme) outcome" where
  "xRibFindPendingResponse iid st =
    obind (vRibLock st) (\<lambda>st1.
      Done (find_idx (\<lambda>r. unInvokeID r = iid) (xPendingReqs st1), vRibUnlock st1))"

definition xRibFreePendingResponse :: "nat \<Rightarrow> 'a rib_state_scheme \<Rightarrow> 'a rib_state_scheme" where
  "xRibFreePendingResponse x st = st\<lparr>xPendingReqs := (xPendingReqs st)[x := zero_req]\<rparr>"

section \<open>Objects\<close>

definition xRibObjectAdd ::
  "'a rib_state_scheme rib_env \<Rightarrow> nat option \<Rightarrow> nat \<Rightarrow> 'a rib_state_scheme \<Rightarrow> (status \<times> 'a rib_state_scheme) outcome" where
  "xRibObjectAdd env owner a st =
    (case find_idx (\<lambda>r. r = None) (pxRibObjects st) of
       None \<Rightarrow> Done (Some ERR_RIB_TABLE_FULL, st)
     | Some x \<Rightarrow>
         let st1 = st\<lparr>pxRibObjects := (pxRibObjects st)[x := Some a]\<rparr> in
         obind (or_crash (rib_objs st1 a)) (\<lambda>ob.
         obind (case fnInit ob of None \<Rightarrow> Done (None, st1) | Some f \<Rightarrow> init_method env f owner a st1) (\<lambda>(e, st2).
           if e \<noteq> None then Done (Some ERR_ERR, st2)
           else
             obind (or_crash (rib_objs st2 a)) (\<lambda>ob2.
               Done (None, st2\<lparr>rib_objs := (rib_objs st2)(a \<mapsto> ob2\<lparr>pvOwner := owner, obj_ribd := True\<rparr>)\<rparr>)))))"

text \<open>\<^verbatim>\<open>strcmp\<close> reads both strings; \<^verbatim>\<open>NULL\<close> has none.\<close>

definition same_string :: "bytes option \<Rightarrow> bytes option \<Rightarrow> bool outcome" where
  "same_string s t = obind (or_crash s) (\<lambda>x. obind (or_crash t) (\<lambda>y. Done (cstring x = cstring y)))"

fun object_loop :: "(nat \<Rightarrow> rib_obj option) \<Rightarrow> bytes option \<Rightarrow> nat option list \<Rightarrow> nat option outcome" where
  "object_loop objs nm [] = Done None"
| "object_loop objs nm (None # xs) = object_loop objs nm xs"
| "object_loop objs nm (Some a # xs) =
    obind (or_crash (objs a)) (\<lambda>ob.
    obind (same_string (ucObjName ob) nm) (\<lambda>eq. if eq then Done (Some a) else object_loop objs nm xs))"

definition pxRibObjectFind :: "bytes option \<Rightarrow> 'a rib_state_scheme \<Rightarrow> nat option outcome" where
  "pxRibObjectFind nm st = object_loop (rib_objs st) nm (pxRibObjects st)"

definition xRibGetObjectReplyMethod :: "rib_obj \<Rightarrow> u32 \<Rightarrow> nat option outcome" where
  "xRibGetObjectReplyMethod ob opc =
    (if opc = M_CREATE_R then Done (fnCreateReply ob)
     else if opc = M_DELETE_R then Done (fnDeleteReply ob)
     else if opc = M_READ_R then Done (fnReadReply ob)
     else if opc = M_WRITE_R then Done (fnWriteReply ob)
     else if opc = M_START_R then Done (fnStartReply ob)
     else if opc = M_STOP_R then Done (fnStopReply ob)
     else Crash)"

definition xRibGetObjectMethod :: "rib_obj \<Rightarrow> u32 \<Rightarrow> nat option outcome" where
  "xRibGetObjectMethod ob opc =
    (if opc = M_CREATE then Done (fnCreate ob)
     else if opc = M_DELETE then Done (fnDelete ob)
     else if opc = M_READ then Done (fnRead ob)
     else if opc = M_WRITE then Done (fnWrite ob)
     else if opc = M_START then Done (fnStart ob)
     else if opc = M_STOP then Done (fnStop ob)
     else Crash)"

section \<open>Sending\<close>

text \<open>Freeing a message that could not be made goes through a null pointer.\<close>

definition send_msg ::
  "'a rib_state_scheme rib_env \<Rightarrow> cdap option \<Rightarrow> u32 \<Rightarrow> 'a rib_state_scheme \<Rightarrow> (status \<times> 'a rib_state_scheme) outcome" where
  "send_msg env m port st = obind (or_crash m) (\<lambda>msg. fnRibOutput env msg port st)"

definition unlocked :: "(status \<times> 'a rib_state_scheme) outcome \<Rightarrow> (status \<times> 'a rib_state_scheme) outcome" where
  "unlocked r = obind r (\<lambda>(e, st). Done (e, vRibUnlock st))"

definition xRibObjectReply ::
  "'a rib_state_scheme rib_env \<Rightarrow> msg_mem \<Rightarrow> rib_obj \<Rightarrow> u32 \<Rightarrow> u32 \<Rightarrow> u32 \<Rightarrow> u32 \<Rightarrow> bytes option \<Rightarrow> bytes option
     \<Rightarrow> 'a rib_state_scheme \<Rightarrow> (status \<times> 'a rib_state_scheme) outcome" where
  "xRibObjectReply env ma ob opc port iid rcode reason val st =
    obind (vRibLock st) (\<lambda>st1.
      unlocked (send_msg env
        (pxRibCdapMsgCreateResponse ma (ucObjClass ob) (ucObjName ob) (ulObjInst ob) opc val rcode reason iid) port st1))"

definition xRibObjectErr ::
  "'a rib_state_scheme rib_env \<Rightarrow> msg_mem \<Rightarrow> rib_obj \<Rightarrow> u32 \<Rightarrow> u32 \<Rightarrow> u32 \<Rightarrow> u32 \<Rightarrow> bytes option
     \<Rightarrow> 'a rib_state_scheme \<Rightarrow> (status \<times> 'a rib_state_scheme) outcome" where
  "xRibObjectErr env ma ob opc port iid rcode reason st =
    obind (vRibLock st) (\<lambda>st1.
      unlocked (send_msg env
        (pxRibCdapMsgCreateResponse ma (ucObjClass ob) (ucObjName ob) (ulObjInst ob) opc None rcode reason iid) port st1))"

datatype query_type = RIB_QUERY_TYPE_ASYNC "nat option" | RIB_QUERY_TYPE_SYNC | RIB_QUERY_TYPE_CMD

text \<open>The first component of the result is the invoke id handed to the caller of a synchronous query.\<close>

definition xRibObjectQuery ::
  "'a rib_state_scheme rib_env \<Rightarrow> msg_mem \<Rightarrow> rib_obj \<Rightarrow> u32 \<Rightarrow> u32 \<Rightarrow> bytes option \<Rightarrow> query_type
     \<Rightarrow> 'a rib_state_scheme \<Rightarrow> ((u32 option \<times> status) \<times> 'a rib_state_scheme) outcome" where
  "xRibObjectQuery env ma ob opc port val q st =
    obind (vRibLock st) (\<lambda>st1.
      let (iid, nxt) = (if pxRibCdapMsgCreate ma = None then (0, invoke_id st1) else get_next_invoke_id (invoke_id st1));
          st2 = st1\<lparr>invoke_id := nxt\<rparr> in
      obind (or_crash (pxRibCdapMsgCreateRequest ma (ucObjClass ob) (ucObjName ob) (ulObjInst ob) opc val iid)) (\<lambda>msg.
        case q of
          RIB_QUERY_TYPE_CMD \<Rightarrow>
            obind (fnRibOutput env (msg\<lparr>nInvokeID := 0\<rparr>) port st2) (\<lambda>(e, st3). Done ((None, e), vRibUnlock st3))
        | _ \<Rightarrow>
            (let cb = (case q of RIB_QUERY_TYPE_ASYNC f \<Rightarrow> f | _ \<Rightarrow> None);
                 ret = (if q = RIB_QUERY_TYPE_SYNC then Some iid else None) in
             case xRibAddPendingResponse (ucObjName ob) iid opc cb st2 of
               (Some e, st3) \<Rightarrow> Done ((ret, Some e), vRibUnlock st3)
             | (None, st3) \<Rightarrow>
                 obind (fnRibOutput env msg port st3) (\<lambda>(e, st4). Done ((ret, e), vRibUnlock st4)))))"

text \<open>\<open>clk\<close> tells whether the clock could be read (if not, the error made from \<^verbatim>\<open>errno\<close> reads as success, and the
  caller's response, the second component, is not set), \<open>others\<close> is what the other threads do during the wait and \<open>late\<close> whether it
  times out.\<close>

definition set_req :: "nat \<Rightarrow> (pending_req \<Rightarrow> pending_req) \<Rightarrow> 'a rib_state_scheme \<Rightarrow> 'a rib_state_scheme" where
  "set_req x f st = st\<lparr>xPendingReqs := (xPendingReqs st)[x := f (xPendingReqs st ! x)]\<rparr>"

definition xRibObjectWaitReply ::
  "bool \<Rightarrow> ('a rib_state_scheme \<Rightarrow> 'a rib_state_scheme) \<Rightarrow> bool \<Rightarrow> u32 \<Rightarrow> 'a rib_state_scheme
     \<Rightarrow> ((status \<times> nat option option) \<times> 'a rib_state_scheme) outcome" where
  "xRibObjectWaitReply clk others late iid st =
    (if \<not> clk then Done ((None, None), st)
     else
       obind (xRibFindPendingResponse iid st) (\<lambda>(r, st1).
         case r of None \<Rightarrow> Done ((Some ERR_RIB_NOT_PENDING, None), st1)
         | Some x \<Rightarrow>
             if pxResp (xPendingReqs st1 ! x) \<noteq> None then Done ((None, Some (pxResp (xPendingReqs st1 ! x))), st1)
             else if req_locked (xPendingReqs st1 ! x) then Blocked
             else
               let st2 = others st1 in
               if late then Done ((Some ERR_RIB_TIMEOUT, None), set_req x (req_locked_update (\<lambda>_. True)) st2)
               else Done ((None, Some (pxResp (xPendingReqs st2 ! x))), st2)))"

section \<open>Receiving\<close>

text \<open>\<open>al1\<close>, \<open>al2\<close> and \<open>ma\<close> are the memory for the names of a connection and for the answer.\<close>

definition prvRibHandleConnect ::
  "'a rib_state_scheme rib_env \<Rightarrow> allocator \<Rightarrow> allocator \<Rightarrow> msg_mem \<Rightarrow> u32 \<Rightarrow> nat option \<Rightarrow> cdap
     \<Rightarrow> 'a rib_state_scheme \<Rightarrow> (status \<times> 'a rib_state_scheme) outcome" where
  "prvRibHandleConnect env al1 al2 ma port con msg st =
    (case con of
       Some x \<Rightarrow> Done (Some ERR_RIB_CONNECTION_EXISTS, st)
     | None \<Rightarrow>
         obind (xRibConnectionAdd al1 al2 (m_src msg) (m_dst msg) port st) (\<lambda>(e, st1).
           if e \<noteq> None then Done (Some ERR_ERR, st1)
           else
             obind (vRibLock st1) (\<lambda>st2.
               unlocked (send_msg env
                 (pxRibCdapMsgCreateResponse ma (Some [0]) (Some [0]) (- 1) M_CONNECT_R None 0 None (nInvokeID msg))
                 port st2))))"

definition prvRibHandleConnectReply :: "nat option \<Rightarrow> 'a rib_state_scheme \<Rightarrow> status \<times> 'a rib_state_scheme" where
  "prvRibHandleConnectReply con st =
    (case con of
       None \<Rightarrow> (Some ERR_RIB_NO_SUCH_CONNECTION, st)
     | Some x \<Rightarrow>
         if xStatus (xAppConnections st ! x) \<noteq> CONNECTION_IN_PROGRESS then (Some ERR_RIB_BAD_CONNECTION_STATE, st)
         else (None, set_con x ((xAppConnections st ! x)\<lparr>xStatus := CONNECTION_OK\<rparr>) st))"

definition xRibConnectObject :: rib_obj where
  "xRibConnectObject =
    \<lparr>obj_ribd = False, pvOwner = None, pvPriv = None, ucObjName = Some [0], ucObjClass = Some [0], ulObjInst = 0, fnStart = None,
     fnStop = None, fnCreate = None, fnDelete = None, fnRead = None, fnWrite = None, fnStartReply = None,
     fnStopReply = None, fnCreateReply = None, fnDeleteReply = None, fnReadReply = None, fnWriteReply = None,
     fnInit = None\<rparr>"

definition prvRibHandleRelease ::
  "'a rib_state_scheme rib_env \<Rightarrow> msg_mem \<Rightarrow> u32 \<Rightarrow> nat option \<Rightarrow> cdap \<Rightarrow> 'a rib_state_scheme
     \<Rightarrow> (status \<times> 'a rib_state_scheme) outcome" where
  "prvRibHandleRelease env ma port con msg st =
    (case con of
       None \<Rightarrow> Done (Some ERR_RIB_NO_SUCH_CONNECTION, st)
     | Some x \<Rightarrow>
         if xStatus (xAppConnections st ! x) = CONNECTION_RELEASED then Done (Some ERR_RIB_BAD_CONNECTION_STATE, st)
         else if nInvokeID msg \<noteq> 0
         then xRibObjectReply env ma xRibConnectObject M_RELEASE_R port (nInvokeID msg) 0 None None st
         else Done (None, vRibConnectionRelease x st))"

definition prvRibHandleReleaseReply :: "nat option \<Rightarrow> 'a rib_state_scheme \<Rightarrow> status \<times> 'a rib_state_scheme" where
  "prvRibHandleReleaseReply con st =
    (case con of
       None \<Rightarrow> (Some ERR_RIB_NO_SUCH_CONNECTION, st)
     | Some x \<Rightarrow>
         if xStatus (xAppConnections st ! x) \<noteq> CONNECTION_RELEASED then (Some ERR_RIB_BAD_CONNECTION_STATE, st)
         else (None, set_con x ((xAppConnections st ! x)\<lparr>xStatus := CONNECTION_RELEASED\<rparr>) st))"

definition prvRibHandleAnyReply ::
  "'a rib_state_scheme rib_env \<Rightarrow> nat option \<Rightarrow> cdap \<Rightarrow> 'a rib_state_scheme \<Rightarrow> (status \<times> 'a rib_state_scheme) outcome" where
  "prvRibHandleAnyReply env con msg st =
    obind (xRibFindPendingResponse (nInvokeID msg) st) (\<lambda>(r, st1).
      case r of None \<Rightarrow> Done (Some ERR_RIB_NOT_PENDING, st1)
      | Some x \<Rightarrow>
          obind (pxRibObjectFind (req_obj (xPendingReqs st1 ! x)) st1) (\<lambda>ob.
            case ob of None \<Rightarrow> Done (Some ERR_RIB_OBJECT_UNSUPPORTED, st1)
            | Some a \<Rightarrow>
                obind (or_crash (rib_objs st1 a)) (\<lambda>o1.
                obind (xRibGetObjectReplyMethod o1 (eOpCode msg)) (\<lambda>m.
                  case m of None \<Rightarrow> Done (Some ERR_RIB_OBJECT_UNSUP_METHOD, st1)
                  | Some f \<Rightarrow>
                      obind (rep_method env f a con msg st1) (\<lambda>((e, resp), st2).
                        if e \<noteq> None then Done (Some ERR_ERR, st2)
                        else
                          (case xRibResCb (xPendingReqs st2 ! x) of
                             Some g \<Rightarrow> res_cb env g a resp st2
                           | None \<Rightarrow> Done (None, set_req x (pxResp_update (\<lambda>_. resp)) st2)))))))"

definition prvRibHandleAnyRequest ::
  "'a rib_state_scheme rib_env \<Rightarrow> nat option \<Rightarrow> cdap \<Rightarrow> 'a rib_state_scheme \<Rightarrow> (status \<times> 'a rib_state_scheme) outcome" where
  "prvRibHandleAnyRequest env con msg st =
    obind (pxRibObjectFind (pcObjName msg) st) (\<lambda>ob.
      case ob of None \<Rightarrow> Done (Some ERR_RIB_OBJECT_UNSUPPORTED, st)
      | Some a \<Rightarrow>
          obind (or_crash (rib_objs st a)) (\<lambda>o1.
          obind (xRibGetObjectMethod o1 (eOpCode msg)) (\<lambda>m.
            case m of None \<Rightarrow> Done (Some ERR_RIB_OBJECT_UNSUP_METHOD, st)
            | Some f \<Rightarrow> req_method env f a con msg st)))"

text \<open>The message that logs an operation code out of range looks its name up past the end of a table.  For
  a message that no case handles the status is not set; nothing but the log depends on it.\<close>

definition xRibNormalIncoming ::
  "'a rib_state_scheme rib_env \<Rightarrow> allocator \<Rightarrow> allocator \<Rightarrow> msg_mem \<Rightarrow> cdap \<Rightarrow> u32 \<Rightarrow> 'a rib_state_scheme
     \<Rightarrow> (status \<times> 'a rib_state_scheme) outcome" where
  "xRibNormalIncoming env al1 al2 ma msg port st =
    (if MAX_CDAP_OPCODE < eOpCode msg then Crash
     else
       let con = pxRibConnectionFind port st; opc = eOpCode msg in
       obind
         (if opc = M_CONNECT then prvRibHandleConnect env al1 al2 ma port con msg st
          else if opc = M_CONNECT_R then Done (prvRibHandleConnectReply con st)
          else if opc = M_RELEASE then prvRibHandleRelease env ma port con msg st
          else if opc = M_RELEASE_R then Done (prvRibHandleReleaseReply con st)
          else if opc \<in> {M_CREATE, M_DELETE, M_READ, M_WRITE, M_START, M_STOP}
          then prvRibHandleAnyRequest env con msg st
          else if opc \<in> {M_CREATE_R, M_DELETE_R, M_READ_R, M_WRITE_R, M_START_R, M_STOP_R}
          then prvRibHandleAnyReply env con msg st
          else Done (None, st))
         (\<lambda>(e, st1). Done (None, st1)))"

text \<open>\<open>dec\<close> is \<^verbatim>\<open>pxSerDesMessageDecode\<close>.  The result is that of \<^verbatim>\<open>ERR_CHK\<close>.\<close>

definition xRibIncoming ::
  "'a rib_state_scheme rib_env \<Rightarrow> (bytes \<Rightarrow> cdap option) \<Rightarrow> allocator \<Rightarrow> allocator \<Rightarrow> msg_mem
     \<Rightarrow> 'a rib_state_scheme du_handler" where
  "xRibIncoming env dec al1 al2 ma port du st =
    obind (or_crash du) (\<lambda>d.
    obind (or_crash (cells (nbs st) d)) (\<lambda>nb.
      if \<not> nb_is NB_RINA_DATA nb then Crash
      else
        obind (or_crash (copy_from (nbs st) nb 0 (unSz nb))) (\<lambda>b.
          case dec b of None \<Rightarrow> Done (True, st)
          | Some msg \<Rightarrow>
              obind (xRibNormalIncoming env al1 al2 ma msg port st) (\<lambda>(e, st1). Done (e \<noteq> None, st1)))))"

definition prvRibLoopbackOutgoing ::
  "'a rib_state_scheme rib_env \<Rightarrow> allocator \<Rightarrow> allocator \<Rightarrow> msg_mem \<Rightarrow> cdap \<Rightarrow> u32 \<Rightarrow> 'a rib_state_scheme
     \<Rightarrow> (status \<times> 'a rib_state_scheme) outcome" where
  "prvRibLoopbackOutgoing env al1 al2 ma msg port st = xRibNormalIncoming env al1 al2 ma msg port st"

text \<open>\<open>enc\<close> is \<^verbatim>\<open>xSerDesMessageEncode\<close>: the buffer and length of the encoded message.  \<open>new\<close> is the address for the
  segment and \<open>post\<close> is \<^verbatim>\<open>xSendEventStructToIPCPTask\<close> with the event \<^verbatim>\<open>eSendMgmtEvent\<close>.\<close>

definition prvRibNormalOutgoing ::
  "(cdap \<Rightarrow> 'a rib_state_scheme \<Rightarrow> (nat \<times> nat) option \<times> 'a rib_state_scheme) \<Rightarrow> nat option
     \<Rightarrow> (u32 \<Rightarrow> nat \<Rightarrow> 'a rib_state_scheme \<Rightarrow> (status \<times> 'a rib_state_scheme) outcome) \<Rightarrow> cdap \<Rightarrow> u32
     \<Rightarrow> 'a rib_state_scheme \<Rightarrow> (status \<times> 'a rib_state_scheme) outcome" where
  "prvRibNormalOutgoing enc new post msg port st =
    (case enc msg st of
       (None, st1) \<Rightarrow> Done (Some ERR_ERR, st1)
     | (Some (b, n), st1) \<Rightarrow>
         obind (or_crash (pxNetBufNew new NB_RINA_DATA b n (Some FreePool) (nbs st1))) (\<lambda>r. case r of
            Inl e \<Rightarrow>
              obind (run_crash (vRsrcFree (Some b) (rs st1))) (\<lambda>rs2. Done (Some ERR_ERR, st1\<lparr>rs := rs2\<rparr>))
          | Inr (du, nb1) \<Rightarrow>
              obind (post port du (st1\<lparr>nbs := nb1\<rparr>)) (\<lambda>(e, st2).
                if e = None then Done (None, st2)
                else
                  obind (run_crash (vRsrcFree (Some b) (rs st2))) (\<lambda>rs2.
                  obind (or_crash (vNetBufFree ((nbs st2)\<lparr>bufs := (bufs (nbs st2))(b := None)\<rparr>) du)) (\<lambda>nb3.
                    Done (Some ERR_ERR, st2\<lparr>rs := rs2, nbs := nb3\<rparr>))))))"

text \<open>\<open>ok\<close> tells whether the pools and the mutex could be made.\<close>

definition xRibCommonInit :: "bool \<Rightarrow> 'a rib_state_scheme \<Rightarrow> status \<times> 'a rib_state_scheme" where
  "xRibCommonInit ok st = (if ok then (None, st\<lparr>xMutex := False\<rparr>) else (Some ERR_OOM, st))"

definition xRibNormalInit :: "bool \<Rightarrow> 'a rib_state_scheme \<Rightarrow> status \<times> 'a rib_state_scheme" where
  "xRibNormalInit ok st = xRibCommonInit ok (st\<lparr>xDoLock := True\<rparr>)"

definition xRibLoopbackInit :: "bool \<Rightarrow> 'a rib_state_scheme \<Rightarrow> status \<times> 'a rib_state_scheme" where
  "xRibLoopbackInit ok st = xRibCommonInit ok (st\<lparr>xDoLock := False\<rparr>)"

end
