(* ===== verification/Rib_Tables.thy ===== *)
theory Rib_Tables
  imports Rib Frames
begin

text \<open>Properties of the RIB daemon's tables: the connections as a map from ports to statuses, what a full
  table of connections does to the lock, and the life of a pending request.\<close>

section \<open>What the parts of the environment keep\<close>

text \<open>\<open>preserves P env\<close>: the methods, the callbacks and the output preserve \<open>P\<close>.\<close>

definition preserves :: "('s \<Rightarrow> bool) \<Rightarrow> 's rib_env \<Rightarrow> bool" where
  "preserves P env =
    ((\<forall>k a c m st. P st \<longrightarrow> lands P (req_method env k a c m st)) \<and>
     (\<forall>k a c m st. P st \<longrightarrow> lands P (rep_method env k a c m st)) \<and>
     (\<forall>k a r st. P st \<longrightarrow> lands P (res_cb env k a r st)) \<and>
     (\<forall>m p st. P st \<longrightarrow> lands P (fnRibOutput env m p st)))"

lemma preserves_req: "preserves P env \<Longrightarrow> P st \<Longrightarrow> lands P (req_method env k a c m st)"
  and preserves_rep: "preserves P env \<Longrightarrow> P st \<Longrightarrow> lands P (rep_method env k a c m st)"
  and preserves_cb: "preserves P env \<Longrightarrow> P st \<Longrightarrow> lands P (res_cb env k a r st)"
  and preserves_output: "preserves P env \<Longrightarrow> P st \<Longrightarrow> lands P (fnRibOutput env m p st)"
  by (simp_all add: preserves_def)

text \<open>\<open>unlockable P\<close>: the lock does not matter to \<open>P\<close>.\<close>

definition unlockable :: "('a rib_state_scheme \<Rightarrow> bool) \<Rightarrow> bool" where
  "unlockable P = (\<forall>b s. P (s\<lparr>xMutex := b\<rparr>) = P s)"

lemma lock_lands: "unlockable P \<Longrightarrow> P st \<Longrightarrow> vRibLock st = Done s \<Longrightarrow> P s"
  by (auto simp: vRibLock_def unlockable_def split: if_splits)

lemma unlock_keeps: "unlockable P \<Longrightarrow> P (vRibUnlock st) = P st"
  by (simp add: vRibUnlock_def unlockable_def)

text \<open>Every step that only sends preserves what the output preserves.\<close>

lemma locked_send_lands:
  assumes k: "preserves P env" and m: "unlockable P" and v: "P st"
  shows "lands P (obind (vRibLock st) (\<lambda>st1. unlocked (send_msg env msg port st1)))"
proof (rule lands_pure)
  fix st1 assume "vRibLock st = Done st1"
  then have "P st1" by (rule lock_lands [OF m v])
  then have "lands P (send_msg env msg port st1)"
    unfolding send_msg_def by (intro lands_pure preserves_output [OF k])
  then show "lands P (unlocked (send_msg env msg port st1))"
    unfolding unlocked_def by (rule lands_bind) (simp add: unlock_keeps [OF m])
qed

lemma reply_lands:
  "preserves P env \<Longrightarrow> unlockable P \<Longrightarrow> P st \<Longrightarrow> lands P (xRibObjectReply env ma ob opc port iid rcode reason val st)"
  unfolding xRibObjectReply_def by (rule locked_send_lands)

lemma any_request_lands: "preserves P env \<Longrightarrow> P st \<Longrightarrow> lands P (prvRibHandleAnyRequest env con msg st)"
  unfolding prvRibHandleAnyRequest_def by (intro lands_rules) (simp_all add: preserves_req)

lemma find_pending_lands:
  assumes "unlockable P" "P st"
  shows "lands P (xRibFindPendingResponse iid st)"
  unfolding xRibFindPendingResponse_def
  by (intro lands_rules) (auto dest!: lock_lands [OF assms] simp: unlock_keeps [OF assms(1)])

lemma any_reply_lands:
  assumes k: "preserves P env" and m: "unlockable P"
    and p: "\<And>x r s. P (set_req x (pxResp_update (\<lambda>_. r)) s) = P s" and v: "P st"
  shows "lands P (prvRibHandleAnyReply env con msg st)"
proof -
  have d: "lands P (obind (rep_method env g a con msg s1) (\<lambda>((e, resp), st2).
      if e \<noteq> None then Done (Some ERR_ERR, st2)
      else (case xRibResCb (xPendingReqs st2 ! x) of Some h \<Rightarrow> res_cb env h a resp st2
            | None \<Rightarrow> Done (None, set_req x (pxResp_update (\<lambda>_. resp)) st2))))" if "P s1" for g a x s1
  proof (rule lands_bind [OF preserves_rep [OF k that]], goal_cases)
    case (1 y s)
    then show ?case by (cases y) (simp add: p preserves_cb [OF k] split: option.split)
  qed
  show ?thesis unfolding prvRibHandleAnyReply_def
    by (intro lands_bind [OF find_pending_lands [OF m v]] d lands_rules) simp_all
qed

text \<open>Equality with what was there before.\<close>

definition keeps :: "('s \<Rightarrow> 'b) \<Rightarrow> 's rib_env \<Rightarrow> bool" where
  "keeps f env = (\<forall>v. preserves (\<lambda>s. f s = v) env)"

lemma keepsD: "keeps f env \<Longrightarrow> preserves (\<lambda>s. f s = v) env"
  by (simp add: keeps_def)

section \<open>Connections as a map\<close>

definition con_map :: "'a rib_state_scheme \<Rightarrow> u32 \<Rightarrow> con_status option" where
  "con_map st port = map_option (\<lambda>x. xStatus (xAppConnections st ! x)) (pxRibConnectionFind port st)"

text \<open>No two live connections share a port.\<close>

definition live_con :: "app_con \<Rightarrow> bool" where "live_con c = (xStatus c \<noteq> CONNECTION_RELEASED)"

definition con_ok :: "app_con list \<Rightarrow> bool" where
  "con_ok cs = (\<forall>i < length cs. \<forall>j < length cs.
     live_con (cs ! i) \<and> live_con (cs ! j) \<and> con_port (cs ! i) = con_port (cs ! j) \<longrightarrow> i = j)"

text \<open>The abstract connection table: what each message makes of the map.  \<open>room\<close> says whether the table
  has a free entry.\<close>

definition con_spec :: "bool \<Rightarrow> u32 \<Rightarrow> u32 \<Rightarrow> u32 \<Rightarrow> (u32 \<Rightarrow> con_status option) \<Rightarrow> u32 \<Rightarrow> con_status option" where
  "con_spec room opc iid port M =
    (if opc = M_CONNECT \<and> M port = None \<and> room then M(port \<mapsto> CONNECTION_IN_PROGRESS)
     else if opc = M_CONNECT_R \<and> M port = Some CONNECTION_IN_PROGRESS then M(port \<mapsto> CONNECTION_OK)
     else if opc = M_RELEASE \<and> iid = 0 then M(port := None)
     else M)"

definition con_room :: "'a rib_state_scheme \<Rightarrow> bool" where
  "con_room st = (\<exists>c \<in> set (xAppConnections st). xStatus c = CONNECTION_RELEASED)"

definition find_con :: "u32 \<Rightarrow> app_con list \<Rightarrow> nat option" where
  "find_con port cs = find_idx (\<lambda>c. live_con c \<and> con_port c = port) cs"

definition map_of_cons :: "app_con list \<Rightarrow> u32 \<Rightarrow> con_status option" where
  "map_of_cons cs port = map_option (\<lambda>x. xStatus (cs ! x)) (find_con port cs)"

lemma con_map_cons: "con_map st = map_of_cons (xAppConnections st)"
  by (rule ext) (simp add: con_map_def map_of_cons_def pxRibConnectionFind_def find_con_def live_con_def)

lemma con_find: "pxRibConnectionFind port st = find_con port (xAppConnections st)"
  by (simp add: pxRibConnectionFind_def find_con_def live_con_def)

lemma con_okD: "con_ok cs \<Longrightarrow> i < length cs \<Longrightarrow> j < length cs \<Longrightarrow> live_con (cs ! i) \<Longrightarrow> live_con (cs ! j) \<Longrightarrow>
  con_port (cs ! i) = con_port (cs ! j) \<Longrightarrow> i = j"
  by (simp add: con_ok_def)

lemma con_ok_update:
  assumes "con_ok cs" "\<And>i. i < length cs \<Longrightarrow> i \<noteq> x \<Longrightarrow> live_con (cs ! i) \<Longrightarrow> live_con c \<Longrightarrow> con_port (cs ! i) \<noteq> con_port c"
  shows "con_ok (cs[x := c])"
  unfolding con_ok_def
proof (intro allI impI; elim conjE)
  fix i j
  assume i: "i < length (cs[x := c])" and j: "j < length (cs[x := c])"
    and l: "live_con (cs[x := c] ! i)" "live_con (cs[x := c] ! j)" "con_port (cs[x := c] ! i) = con_port (cs[x := c] ! j)"
  show "i = j"
  proof (cases "i = x \<or> j = x")
    case True
    then show ?thesis using i j l assms(2) [of i] assms(2) [of j] by (cases "i = j") auto
  next
    case False
    then show ?thesis using i j l con_okD [OF assms(1), of i j] by simp
  qed
qed

text \<open>Changing an entry whose old and new contents are dead or of port \<open>port\<close> leaves the other ports alone.\<close>

lemma map_of_cons_other:
  assumes "live_con (cs ! x) \<longrightarrow> con_port (cs ! x) = port" "live_con c \<longrightarrow> con_port c = port" "p \<noteq> port"
  shows "map_of_cons (cs[x := c]) p = map_of_cons cs p"
proof -
  let ?P = "\<lambda>c. live_con c \<and> con_port c = p"
  have m: "\<not> ?P (cs ! x)" "\<not> ?P c" using assms by auto
  show ?thesis
    using find_update_miss [of ?P cs x c, OF m] find_update_holds [of ?P cs x c, OF _ m]
    by (cases "find_idx ?P cs") (simp_all add: map_of_cons_def find_con_def)
qed

lemma map_of_cons_eqI:
  assumes "map_of_cons cs' port = v" "\<And>p. p \<noteq> port \<Longrightarrow> map_of_cons cs' p = map_of_cons cs p"
  shows "map_of_cons cs' = (map_of_cons cs)(port := v)"
  using assms by (intro ext) simp

text \<open>Changing one entry: a free one becomes live, a live one changes its status or dies.\<close>

lemma con_add:
  assumes "con_ok cs" "find_con port cs = None" "x < length cs" "xStatus (cs ! x) = CONNECTION_RELEASED"
    "con_port c = port" "xStatus c = s" "s \<noteq> CONNECTION_RELEASED"
  shows "con_ok (cs[x := c])" "map_of_cons (cs[x := c]) = (map_of_cons cs)(port \<mapsto> s)"
proof -
  have n: "\<And>i. i < length cs \<Longrightarrow> live_con (cs ! i) \<Longrightarrow> con_port (cs ! i) \<noteq> port"
    using assms(2) by (auto simp: find_con_def find_idx_None all_set_conv_all_nth)
  show "con_ok (cs[x := c])" using n assms(5) by (intro con_ok_update [OF assms(1)]) simp
  have "find_con port (cs[x := c]) = Some x"
    unfolding find_con_def
    by (rule find_update_hit) (use assms in \<open>auto simp: find_con_def find_idx_None live_con_def\<close>)
  then show "map_of_cons (cs[x := c]) = (map_of_cons cs)(port \<mapsto> s)"
    using assms by (intro map_of_cons_eqI map_of_cons_other) (simp_all add: map_of_cons_def live_con_def)
qed

lemma con_change:
  assumes "con_ok cs" "find_con port cs = Some x" "live_con c \<longrightarrow> con_port c = port"
  shows "con_ok (cs[x := c])"
    "map_of_cons (cs[x := c]) = (map_of_cons cs)(port := if live_con c then Some (xStatus c) else None)"
proof -
  have x: "x < length cs" "live_con (cs ! x)" "con_port (cs ! x) = port"
    using assms(2) by (auto simp: find_con_def find_idx_Some)
  have u: "\<And>i. i < length cs \<Longrightarrow> live_con (cs ! i) \<Longrightarrow> con_port (cs ! i) = port \<Longrightarrow> i = x"
    using con_okD [OF assms(1)] x by blast
  have "con_port (cs ! i) \<noteq> con_port c" if "i < length cs" "i \<noteq> x" "live_con (cs ! i)" "live_con c" for i
    using u [of i] that assms(3) by blast
  then show ok: "con_ok (cs[x := c])" by (rule con_ok_update [OF assms(1)])
  have "find_con port (cs[x := c]) = (if live_con c then Some x else None)"
  proof (cases "live_con c")
    case True
    have "j = x" if "j < length cs" "live_con (cs[x := c] ! j) \<and> con_port (cs[x := c] ! j) = port" for j
    proof (rule ccontr)
      assume "j \<noteq> x"
      then show False using u [of j] that by simp
    qed
    moreover have "live_con (cs[x := c] ! x) \<and> con_port (cs[x := c] ! x) = port" using x(1) True assms(3) by simp
    ultimately show ?thesis using find_idx_unique [of x "cs[x := c]" "\<lambda>c. live_con c \<and> con_port c = port"] x(1) True
      by (simp add: find_con_def)
  next
    case False
    have "\<not> (live_con (cs[x := c] ! j) \<and> con_port (cs[x := c] ! j) = port)" if "j < length cs" for j
      using u [of j] that False by (cases "j = x") auto
    then show ?thesis using False by (simp add: find_con_def find_idx_None all_set_conv_all_nth)
  qed
  then show "map_of_cons (cs[x := c]) = (map_of_cons cs)(port := if live_con c then Some (xStatus c) else None)"
    using assms x by (intro map_of_cons_eqI map_of_cons_other) (simp_all add: map_of_cons_def)
qed

section \<open>The connections refine the abstract table\<close>

definition con_goal :: "bool \<Rightarrow> u32 \<Rightarrow> u32 \<Rightarrow> u32 \<Rightarrow> app_con list \<Rightarrow> 'a rib_state_scheme \<Rightarrow> bool" where
  "con_goal room opc iid port cs s =
    (con_ok (xAppConnections s) \<and> map_of_cons (xAppConnections s) = con_spec room opc iid port (map_of_cons cs))"

lemma map_None: "map_of_cons cs port = None \<longleftrightarrow> find_con port cs = None"
  by (simp add: map_of_cons_def)

lemma connect_other:
  assumes "con_ok (xAppConnections st)" "opc \<notin> {M_CONNECT, M_CONNECT_R, M_RELEASE}" "xAppConnections s = xAppConnections st"
  shows "con_goal room opc iid port (xAppConnections st) s"
  using assms by (simp add: con_goal_def con_spec_def)

lemma connection_add_goal:
  assumes ok: "con_ok (xAppConnections st)" and n: "pxRibConnectionFind port st = None"
  shows "lands (\<lambda>s. con_goal (con_room st) M_CONNECT iid port (xAppConnections st) s) (xRibConnectionAdd al1 al2 src dst port st)"
proof -
  have l: "xAppConnections st1 = xAppConnections st" if "vRibLock st = Done st1" for st1
    using that by (auto simp: vRibLock_def split: if_splits)
  have u: "xAppConnections (vRibUnlock s) = xAppConnections s" for s :: "'a rib_state_scheme"
    by (simp add: vRibUnlock_def)
  show ?thesis unfolding xRibConnectionAdd_def
  proof (intro lands_rules)
    fix st1 assume st1: "vRibLock st = Done st1"
      and f: "find_idx (\<lambda>c. xStatus c = CONNECTION_RELEASED) (xAppConnections st1) = None"
    then have "\<not> con_room st" using l [OF st1] by (simp add: con_room_def find_idx_None)
    then show "lands (\<lambda>s. con_goal (con_room st) M_CONNECT iid port (xAppConnections st) s)
        (Done (Some ERR_RIB_TOO_MANY_CONNECTIONS, st1))"
      using l [OF st1] ok by (simp add: con_goal_def con_spec_def opcodes)
  next
    fix st1 x assume st1: "vRibLock st = Done st1"
      and f: "find_idx (\<lambda>c. xStatus c = CONNECTION_RELEASED) (xAppConnections st1) = Some x"
    have x: "x < length (xAppConnections st)" "xStatus (xAppConnections st ! x) = CONNECTION_RELEASED"
      using f l [OF st1] by (auto simp: find_idx_Some)
    then have r: "con_room st" by (auto simp: con_room_def)
    have g: "con_goal (con_room st) M_CONNECT iid port (xAppConnections st) (vRibUnlock (set_con x c st1))"
      if "con_port c = port" "xStatus c = CONNECTION_IN_PROGRESS" for c
      using con_add [OF ok _ x that] n r l [OF st1] 
      by (simp add: con_goal_def con_spec_def u set_con_def con_find map_None)
    show "lands (\<lambda>s. con_goal (con_room st) M_CONNECT iid port (xAppConnections st) s)
        (let c = (xAppConnections st1 ! x)\<lparr>uCdapVersion := 1, uRibVersion := 1, con_port := port,
                     xStatus := CONNECTION_IN_PROGRESS\<rparr> in
          case xNameAssignDup al1 src of
            Inl e \<Rightarrow> Done (Some ERR_ERR, vRibUnlock (set_con x c st1))
          | Inr s \<Rightarrow>
              (case xNameAssignDup al2 dst of
                 Inl e \<Rightarrow> Done (Some ERR_ERR, vRibUnlock (set_con x (c\<lparr>xSourceInfo := s\<rparr>) st1))
               | Inr d \<Rightarrow>
                   Done (None, vRibUnlock (set_con x (c\<lparr>xSourceInfo := s, xDestinationInfo := d\<rparr>) st1))))"
      by (simp add: Let_def g split: sum.split)
  qed
qed

lemma con_goal_cong: "xAppConnections s = xAppConnections t \<Longrightarrow> con_goal r opc iid port cs s = con_goal r opc iid port cs t"
  by (simp add: con_goal_def)

lemma cons_lock: "vRibLock st = Done s \<Longrightarrow> xAppConnections s = xAppConnections st"
  by (auto simp: vRibLock_def split: if_splits)

lemma cons_unlock [simp]: "xAppConnections (vRibUnlock st) = xAppConnections st"
  by (simp add: vRibUnlock_def)

lemma cons_unlockable: "unlockable (\<lambda>s. xAppConnections s = v)"
  by (simp add: unlockable_def)

lemma connect_goal:
  assumes "con_ok (xAppConnections st)" "keeps xAppConnections env"
  shows "lands (\<lambda>s. con_goal (con_room st) M_CONNECT iid port (xAppConnections st) s)
    (prvRibHandleConnect env al1 al2 ma port (pxRibConnectionFind port st) msg st)"
proof (cases "pxRibConnectionFind port st")
  case None
  let ?P = "\<lambda>s. con_goal (con_room st) M_CONNECT iid port (xAppConnections st) s"
  have a: "lands ?P (obind (vRibLock st1) (\<lambda>st2. unlocked (send_msg env m port st2)))" if "?P st1" for m st1
    by (rule lands_weaken [OF locked_send_lands [OF keepsD [OF assms(2)] cons_unlockable refl]]) (use that in \<open>simp_all add: con_goal_def\<close>)
  show ?thesis unfolding prvRibHandleConnect_def None option.case
  proof (rule lands_bind [OF connection_add_goal [OF assms(1) None, of iid]], goal_cases)
    case (1 x s)
    then show ?case by (cases x) (simp_all add: a)
  qed
next
  case (Some x)
  then show ?thesis using assms(1)
    by (simp add: prvRibHandleConnect_def con_goal_def con_spec_def con_find map_of_cons_def opcodes)
qed

lemma connect_reply_goal:
  assumes "con_ok (xAppConnections st)"
  shows "con_goal (con_room st) M_CONNECT_R iid port (xAppConnections st)
    (snd (prvRibHandleConnectReply (pxRibConnectionFind port st) st))"
proof (cases "pxRibConnectionFind port st")
  case (Some x)
  then have f: "find_con port (xAppConnections st) = Some x" by (simp add: con_find)
  then have p: "con_port (xAppConnections st ! x) = port" by (simp add: find_con_def find_idx_Some)
  have c: "con_ok ((xAppConnections st)[x := (xAppConnections st ! x)\<lparr>xStatus := CONNECTION_OK\<rparr>])"
    "map_of_cons ((xAppConnections st)[x := (xAppConnections st ! x)\<lparr>xStatus := CONNECTION_OK\<rparr>]) =
       (map_of_cons (xAppConnections st))(port \<mapsto> CONNECTION_OK)"
    using con_change [OF assms f, of "(xAppConnections st ! x)\<lparr>xStatus := CONNECTION_OK\<rparr>"] p
    by (simp_all add: live_con_def)
  show ?thesis using Some f assms c
    by (simp add: prvRibHandleConnectReply_def con_goal_def con_spec_def set_con_def map_of_cons_def [of "xAppConnections st" port] opcodes)
qed (simp add: prvRibHandleConnectReply_def con_goal_def con_spec_def assms con_find map_of_cons_def opcodes)

lemma release_goal:
  assumes "con_ok (xAppConnections st)" "keeps xAppConnections env"
  shows "lands (\<lambda>s. con_goal (con_room st) M_RELEASE (nInvokeID msg) port (xAppConnections st) s)
    (prvRibHandleRelease env ma port (pxRibConnectionFind port st) msg st)"
proof (cases "pxRibConnectionFind port st")
  case None
  then have "map_of_cons (xAppConnections st) port = None" by (simp add: con_find map_None)
  then show ?thesis using None assms(1)
    by (auto simp: prvRibHandleRelease_def con_goal_def con_spec_def opcodes)
next
  case (Some x)
  let ?P = "\<lambda>s. con_goal (con_room st) M_RELEASE (nInvokeID msg) port (xAppConnections st) s"
  have f: "find_con port (xAppConnections st) = Some x" using Some by (simp add: con_find)
  then have l: "xStatus (xAppConnections st ! x) \<noteq> CONNECTION_RELEASED"
    by (auto simp: find_con_def find_idx_Some live_con_def)
  show ?thesis
  proof (cases "nInvokeID msg = 0")
    case True
    have "?P (vRibConnectionRelease x st)"
      using con_change [OF assms(1) f, of zero_con] True
      by (simp add: vRibConnectionRelease_def set_con_def con_goal_def con_spec_def live_con_def zero_con_def opcodes)
    then show ?thesis using Some l True by (simp add: prvRibHandleRelease_def)
  next
    case False
    have p: "?P st" using False assms(1) by (simp add: con_goal_def con_spec_def opcodes)
    have "lands ?P (xRibObjectReply env ma xRibConnectObject M_RELEASE_R port (nInvokeID msg) 0 None None st)"
      by (rule lands_weaken [OF reply_lands [OF keepsD [OF assms(2)] cons_unlockable refl]]) (use p in \<open>simp_all add: con_goal_def\<close>)
    then show ?thesis using Some l False by (simp add: prvRibHandleRelease_def)
  qed
qed

lemma found_con_live: "pxRibConnectionFind port st = Some x \<Longrightarrow> xStatus (xAppConnections st ! x) \<noteq> CONNECTION_RELEASED"
  by (simp add: pxRibConnectionFind_def find_idx_Some)

lemma release_reply_keeps: "snd (prvRibHandleReleaseReply (pxRibConnectionFind port st) st) = st"
  by (cases "pxRibConnectionFind port st") (simp_all add: prvRibHandleReleaseReply_def found_con_live)

lemma incoming_lands:
  assumes ok: "con_ok (xAppConnections st)" and k: "keeps xAppConnections env"
  shows "lands (con_goal (con_room st) (eOpCode msg) (nInvokeID msg) port (xAppConnections st))
    (xRibNormalIncoming env al1 al2 ma msg port st)"
proof -
  let ?opc = "eOpCode msg"
  let ?P = "con_goal (con_room st) ?opc (nInvokeID msg) port (xAppConnections st)"
  have other: "lands (\<lambda>s. xAppConnections s = xAppConnections st) r \<Longrightarrow> ?opc \<notin> {M_CONNECT, M_CONNECT_R, M_RELEASE} \<Longrightarrow> lands ?P r" for r :: "(status \<times> _) outcome"
    by (erule lands_weaken) (simp add: connect_other [OF ok])
  have "lands ?P
      (if ?opc = M_CONNECT then prvRibHandleConnect env al1 al2 ma port (pxRibConnectionFind port st) msg st
       else if ?opc = M_CONNECT_R then Done (prvRibHandleConnectReply (pxRibConnectionFind port st) st)
       else if ?opc = M_RELEASE then prvRibHandleRelease env ma port (pxRibConnectionFind port st) msg st
       else if ?opc = M_RELEASE_R then Done (prvRibHandleReleaseReply (pxRibConnectionFind port st) st)
       else if ?opc \<in> {M_CREATE, M_DELETE, M_READ, M_WRITE, M_START, M_STOP}
       then prvRibHandleAnyRequest env (pxRibConnectionFind port st) msg st
       else if ?opc \<in> {M_CREATE_R, M_DELETE_R, M_READ_R, M_WRITE_R, M_START_R, M_STOP_R}
       then prvRibHandleAnyReply env (pxRibConnectionFind port st) msg st
       else Done (None, st))"
  proof (intro lands_if)
    show "lands ?P (prvRibHandleConnect env al1 al2 ma port (pxRibConnectionFind port st) msg st)" if "?opc = M_CONNECT"
      unfolding that by (rule connect_goal [OF ok k])
    show "lands ?P (prvRibHandleRelease env ma port (pxRibConnectionFind port st) msg st)" if "?opc = M_RELEASE"
      unfolding that by (rule release_goal [OF ok k])
    show "lands ?P (Done (prvRibHandleConnectReply (pxRibConnectionFind port st) st))" if "?opc = M_CONNECT_R"
      using connect_reply_goal [OF ok, of "nInvokeID msg" port] that
      by (cases "prvRibHandleConnectReply (pxRibConnectionFind port st) st") simp
    show "lands ?P (Done (prvRibHandleReleaseReply (pxRibConnectionFind port st) st))" if "?opc = M_RELEASE_R"
      using release_reply_keeps [of port st] that
      by (intro other, cases "prvRibHandleReleaseReply (pxRibConnectionFind port st) st") (simp_all add: opcodes)
    show "lands ?P (prvRibHandleAnyRequest env (pxRibConnectionFind port st) msg st)"
      if "?opc \<noteq> M_CONNECT" "?opc \<noteq> M_CONNECT_R" "?opc \<noteq> M_RELEASE"
      using that by (intro other any_request_lands [OF keepsD [OF k] refl]) simp
    show "lands ?P (prvRibHandleAnyReply env (pxRibConnectionFind port st) msg st)"
      if "?opc \<noteq> M_CONNECT" "?opc \<noteq> M_CONNECT_R" "?opc \<noteq> M_RELEASE"
      using that by (intro other any_reply_lands [OF keepsD [OF k] cons_unlockable _ refl]) (simp_all add: set_req_def)
    show "lands ?P (Done (None :: status, st))" if "?opc \<noteq> M_CONNECT" "?opc \<noteq> M_CONNECT_R" "?opc \<noteq> M_RELEASE"
      by (rule other) (use that in simp_all)
  qed
  then show ?thesis unfolding xRibNormalIncoming_def Let_def
    by (intro lands_if lands_bind [where Q = ?P]) simp_all
qed

lemma lock_free: "\<not> (xDoLock st \<and> xMutex st) \<Longrightarrow> \<exists>st1. vRibLock st = Done st1"
  by (simp add: vRibLock_def)

lemma connection_add_returns:
  assumes "\<not> (xDoLock st \<and> xMutex st)"
  shows "\<exists>e st'. xRibConnectionAdd al1 al2 src dst port st = Done (e, st') \<and>
    (e \<noteq> Some ERR_RIB_TOO_MANY_CONNECTIONS \<longrightarrow> \<not> (xDoLock st' \<and> xMutex st')) \<and> (con_room st \<longrightarrow> e \<noteq> Some ERR_RIB_TOO_MANY_CONNECTIONS)"
proof -
  obtain st1 where st1: "vRibLock st = Done st1" using lock_free assms by blast
  have u: "\<not> (xDoLock (vRibUnlock s) \<and> xMutex (vRibUnlock s))" for s :: "'a rib_state_scheme"
    by (simp add: vRibUnlock_def)
  have r: "con_room st = (find_idx (\<lambda>c. xStatus c = CONNECTION_RELEASED) (xAppConnections st1) \<noteq> None)"
    using cons_lock [OF st1] by (auto simp: con_room_def find_idx_None)
  show ?thesis
    using u r by (simp add: xRibConnectionAdd_def st1 Let_def split: option.split sum.split)
qed

lemma send_returns:
  assumes "\<not> (xDoLock st \<and> xMutex st)" "m \<noteq> None" "\<forall>msg p s. \<exists>e s'. fnRibOutput env msg p s = Done (e, s')"
  shows "\<exists>e st'. obind (vRibLock st) (\<lambda>st1. unlocked (send_msg env m port st1)) = Done (e, st')"
proof -
  obtain st1 where st1: "vRibLock st = Done st1" using lock_free assms by blast
  obtain msg where m: "m = Some msg" using assms(2) by blast
  obtain e s where "fnRibOutput env msg port st1 = Done (e, s)" using assms(3) by blast
  then show ?thesis by (simp add: st1 m unlocked_def send_msg_def)
qed

lemma response_made: "pxRibCdapMsgCreate ma \<noteq> None \<Longrightarrow>
  pxRibCdapMsgCreateResponse ma cls nm inst opc val rcode reason iid \<noteq> None"
  by (simp add: pxRibCdapMsgCreateResponse_def)

section \<open>Properties of connections\<close>

text \<open>C2. The table of application connections implements a map from ports to statuses: with the live
  entries on different ports, M_CONNECT on a new port adds it in progress when there is room (even when
  its names cannot be copied), M_CONNECT_R completes exactly what is in progress, M_RELEASE without an
  invoke id removes the connection, and no other message changes the map: neither M_RELEASE with an
  invoke id nor M_RELEASE_R.  The live entries keep different ports.  The four connection messages are
  always answered when the lock is free, memory is there and the output returns.\<close>
theorem connections_refine:
  assumes "con_ok (xAppConnections st)" "keeps xAppConnections env"
  shows "lands (\<lambda>st'. con_ok (xAppConnections st') \<and>
      con_map st' = con_spec (con_room st) (eOpCode msg) (nInvokeID msg) port (con_map st))
      (xRibNormalIncoming env al1 al2 ma msg port st) \<and>
    (eOpCode msg \<in> {M_CONNECT, M_CONNECT_R, M_RELEASE, M_RELEASE_R} \<longrightarrow> \<not> (xDoLock st \<and> xMutex st) \<longrightarrow>
      pxRibCdapMsgCreate ma \<noteq> None \<longrightarrow> (\<forall>m p s. \<exists>e s'. fnRibOutput env m p s = Done (e, s')) \<longrightarrow>
      (\<exists>st'. xRibNormalIncoming env al1 al2 ma msg port st = Done (None, st')))"
proof (intro conjI impI)
  show "lands (\<lambda>st'. con_ok (xAppConnections st') \<and>
      con_map st' = con_spec (con_room st) (eOpCode msg) (nInvokeID msg) port (con_map st))
      (xRibNormalIncoming env al1 al2 ma msg port st)"
    using incoming_lands [OF assms] by (rule lands_weaken) (simp add: con_goal_def con_map_cons)
next
  assume op: "eOpCode msg \<in> {M_CONNECT, M_CONNECT_R, M_RELEASE, M_RELEASE_R}" and l: "\<not> (xDoLock st \<and> xMutex st)"
    and ma: "pxRibCdapMsgCreate ma \<noteq> None" and out: "\<forall>m p s. \<exists>e s'. fnRibOutput env m p s = Done (e, s')"
  let ?con = "pxRibConnectionFind port st"
  have c: "\<exists>e s. prvRibHandleConnect env al1 al2 ma port ?con msg st = Done (e, s)"
  proof (cases ?con)
    case None
    obtain e s where s: "xRibConnectionAdd al1 al2 (m_src msg) (m_dst msg) port st = Done (e, s)"
      "e \<noteq> Some ERR_RIB_TOO_MANY_CONNECTIONS \<longrightarrow> \<not> (xDoLock s \<and> xMutex s)"
      using connection_add_returns [OF l] by blast
    show ?thesis using None s send_returns [of s, OF _ response_made [OF ma] out]
      by (cases e) (simp_all add: prvRibHandleConnect_def)
  qed (simp add: prvRibHandleConnect_def)
  have r: "\<exists>e s. prvRibHandleRelease env ma port ?con msg st = Done (e, s)"
    using send_returns [OF l response_made [OF ma] out]
    by (simp add: prvRibHandleRelease_def xRibObjectReply_def split: option.split)
  have "\<not> MAX_CDAP_OPCODE < eOpCode msg" using op by (auto simp: opcodes)
  then show "\<exists>st'. xRibNormalIncoming env al1 al2 ma msg port st = Done (None, st')"
    using op c r by (auto simp: xRibNormalIncoming_def Let_def opcodes split: prod.splits)
qed

section \<open>A daemon for the witnesses\<close>

definition quiet_env :: "'s rib_env" where
  "quiet_env = \<lparr>req_method = (\<lambda>_ _ _ _ s. Done (None, s)), rep_method = (\<lambda>_ _ _ _ s. Done ((None, Some 3), s)),
     res_cb = (\<lambda>_ _ _ s. Done (None, s)), init_method = (\<lambda>_ _ _ s. Done (None, s)),
     fnRibOutput = (\<lambda>_ _ s. Done (None, s))\<rparr>"

lemma quiet_env_keeps: "keeps f quiet_env"
  by (simp add: keeps_def preserves_def quiet_env_def)

definition rib_demo :: "app_con list \<Rightarrow> pending_req list \<Rightarrow> rib_state" where
  "rib_demo cs reqs =
    \<lparr>xFlowRequestTable = [], fais = (\<lambda>_. None), handles = (\<lambda>_. None),
     xEfcpImapTable = [], efcps = (\<lambda>_. None), nbs = demo, rs = pci_pool, xPciPool = None, pxRmt = True,
     xAddresses = [], xPorts = [], ports = (\<lambda>_. None), xFlowsList = [], flows = (\<lambda>_. None), xDoLock = True, xMutex = False,
     xAppConnections = cs, xPendingReqs = reqs, pxRibObjects = [Some 4],
     rib_objs = [4 \<mapsto> xRibConnectObject\<lparr>fnRead := Some 1, fnReadReply := Some 2\<rparr>], invoke_id = 1\<rparr>"

definition con_on :: "u32 \<Rightarrow> app_con" where
  "con_on port = zero_con\<lparr>xStatus := CONNECTION_OK, con_port := port\<rparr>"

definition msg_of :: "u32 \<Rightarrow> u32 \<Rightarrow> cdap" where
  "msg_of opc iid = \<lparr>eOpCode = opc, m_dst = zero_name, m_src = zero_name, m_version = 1, nInvokeID = iid,
     pcObjClass = Some [0], pcObjName = Some [0], objInst = 0, pxObjValue = None, m_result = 0, pcResultReason = None\<rparr>"

lemma rib_demo_simps [simp]: "xAppConnections (rib_demo cs reqs) = cs" "xPendingReqs (rib_demo cs reqs) = reqs"
  "xDoLock (rib_demo cs reqs)" "\<not> xMutex (rib_demo cs reqs)" "invoke_id (rib_demo cs reqs) = 1"
  "pxRibObjects (rib_demo cs reqs) = [Some 4]"
  "rib_objs (rib_demo cs reqs) = [4 \<mapsto> xRibConnectObject\<lparr>fnRead := Some 1, fnReadReply := Some 2\<rparr>]"
  by (simp_all add: rib_demo_def)

lemma msg_of_simps [simp]: "eOpCode (msg_of opc iid) = opc" "nInvokeID (msg_of opc iid) = iid"
  by (simp_all add: msg_of_def)

definition zero_heap :: allocator where "zero_heap n = Some (replicate n 0)"

lemma connections_refine_witness:
  "con_ok [con_on 7, zero_con] \<and>
   lands (\<lambda>st'. con_map st' 7 = None) (xRibNormalIncoming quiet_env zero_heap zero_heap None (msg_of M_RELEASE 0) 7 (rib_demo [con_on 7, zero_con] []))"
proof -
  have c: "con_ok [con_on 7, zero_con]"
    by (auto simp: con_ok_def con_on_def live_con_def zero_con_def less_Suc_eq)
  have "lands (\<lambda>st'. con_ok (xAppConnections st') \<and> con_map st' = con_spec (con_room (rib_demo [con_on 7, zero_con] [])) M_RELEASE 0 7
      (con_map (rib_demo [con_on 7, zero_con] [])))
      (xRibNormalIncoming quiet_env zero_heap zero_heap None (msg_of M_RELEASE 0) 7 (rib_demo [con_on 7, zero_con] []))"
    using connections_refine [of "rib_demo [con_on 7, zero_con] []" quiet_env "msg_of M_RELEASE 0" 7 zero_heap zero_heap None] c
    by (simp add: quiet_env_keeps)
  then have "lands (\<lambda>st'. con_map st' 7 = None)
      (xRibNormalIncoming quiet_env zero_heap zero_heap None (msg_of M_RELEASE 0) 7 (rib_demo [con_on 7, zero_con] []))"
    by (rule lands_weaken) (simp add: con_spec_def opcodes)
  then show ?thesis using c by simp
qed

text \<open>C25. A full table of connections locks the daemon up: M_CONNECT from a new port is refused without the
  lock being released, and from then on every query, every reply, every reply message and every further
  M_CONNECT from a new port waits for ever.\<close>
theorem full_table_locks_up:
  assumes "xDoLock st" "\<not> xMutex st" "\<not> con_room st" "pxRibConnectionFind port st = None" "eOpCode msg = M_CONNECT"
  shows "\<exists>st'. xRibNormalIncoming env al1 al2 ma msg port st = Done (None, st') \<and>
    con_map st' = con_map st \<and>
    (\<forall>ob opc p val q. xRibObjectQuery env ma ob opc p val q st' = Blocked) \<and>
    (\<forall>ob opc p iid rc re val. xRibObjectReply env ma ob opc p iid rc re val st' = Blocked) \<and>
    (\<forall>m p. eOpCode m \<in> {M_CREATE_R, M_DELETE_R, M_READ_R, M_WRITE_R, M_START_R, M_STOP_R} \<longrightarrow>
       xRibNormalIncoming env al1 al2 ma m p st' = Blocked) \<and>
    (\<forall>m p. eOpCode m = M_CONNECT \<and> con_map st' p = None \<longrightarrow> xRibNormalIncoming env al1 al2 ma m p st' = Blocked)"
proof -
  let ?st = "st\<lparr>xMutex := True\<rparr>"
  have lock: "vRibLock st = Done ?st" using assms(1,2) by (simp add: vRibLock_def)
  have stuck: "vRibLock ?st = Blocked" using assms(1) by (simp add: vRibLock_def)
  have full: "find_idx (\<lambda>c. xStatus c = CONNECTION_RELEASED) (xAppConnections st) = None"
    using assms(3) by (simp add: con_room_def find_idx_None)
  have inc: "xRibNormalIncoming env al1 al2 ma msg port st = Done (None, ?st)"
    using assms(4,5) lock full
    by (simp add: xRibNormalIncoming_def prvRibHandleConnect_def xRibConnectionAdd_def opcodes)
  have map: "con_map ?st = con_map st" by (simp add: con_map_cons)
  have none: "pxRibConnectionFind p ?st = None" if "con_map ?st p = None" for p
    using that by (simp add: con_map_def)
  have reply: "xRibNormalIncoming env al1 al2 ma m p ?st = Blocked"
    if "eOpCode m \<in> {M_CREATE_R, M_DELETE_R, M_READ_R, M_WRITE_R, M_START_R, M_STOP_R}" for m p
    using that stuck
    by (auto simp: xRibNormalIncoming_def Let_def prvRibHandleAnyReply_def xRibFindPendingResponse_def opcodes)
  have con: "xRibNormalIncoming env al1 al2 ma m p ?st = Blocked" if "eOpCode m = M_CONNECT" "con_map ?st p = None" for m p
    using that(1) none [OF that(2)] stuck
    by (simp add: xRibNormalIncoming_def Let_def prvRibHandleConnect_def xRibConnectionAdd_def opcodes)
  show ?thesis
    by (rule exI [of _ ?st]) (simp add: inc map reply con stuck xRibObjectQuery_def xRibObjectReply_def)
qed

lemma full_table_locks_up_witness:
  "\<exists>st'. xRibNormalIncoming quiet_env zero_heap zero_heap None (msg_of M_CONNECT 1) 9
      (rib_demo (List.map con_on [1, 2, 3, 4, 5]) []) = Done (None, st') \<and>
    (\<forall>ob opc p val q. xRibObjectQuery quiet_env None ob opc p val q st' = Blocked)"
  using full_table_locks_up [of "rib_demo (List.map con_on [1, 2, 3, 4, 5]) []" 9 "msg_of M_CONNECT 1" quiet_env zero_heap zero_heap None]
  by (auto simp: con_room_def pxRibConnectionFind_def con_on_def)

section \<open>Pending requests\<close>

text \<open>An invoke id is never 0, the mark of a free entry.\<close>

lemma invoke_id_nonzero: "fst (get_next_invoke_id n) \<noteq> 0"
  by (cases "n = 0") (simp_all add: get_next_invoke_id_def)

definition taken :: "pending_req list \<Rightarrow> nat" where
  "taken qs = length (filter (\<lambda>r. unInvokeID r \<noteq> 0) qs)"

lemma taken_replace:
  assumes "x < length qs" "unInvokeID (qs ! x) = 0" "unInvokeID r \<noteq> 0"
  shows "taken (qs[x := r]) = Suc (taken qs)"
  using assms
proof (induction qs arbitrary: x)
  case (Cons a qs)
  then show ?case by (cases x) (auto simp: taken_def)
qed simp

lemma taken_bound: "taken qs \<le> length qs"
  by (simp add: taken_def)

lemma taken_full: "taken qs = length qs \<Longrightarrow> find_idx (\<lambda>r. unInvokeID r = 0) qs = None"
  by (induction qs) (auto simp: taken_def le_imp_less_Suc [THEN less_imp_neq] length_filter_le split: if_splits)

text \<open>The ids of the pending requests: no operation but a query changes them.\<close>

definition ids :: "'a rib_state_scheme \<Rightarrow> u32 list" where
  "ids st = List.map unInvokeID (xPendingReqs st)"

lemma taken_ids: "taken (xPendingReqs st) = length (filter (\<lambda>i. i \<noteq> 0) (ids st))"
  by (simp add: taken_def ids_def filter_map comp_def)

lemma ids_simps [simp]: "ids (st\<lparr>xMutex := b\<rparr>) = ids st" "ids (vRibUnlock st) = ids st"
  "ids (set_con x c st) = ids st" "ids (st\<lparr>invoke_id := n\<rparr>) = ids st"
  "ids (set_req x (pxResp_update g) st) = ids st" "ids (set_req x (req_locked_update h) st) = ids st"
  by (simp_all add: ids_def vRibUnlock_def set_con_def set_req_def map_update,
      (metis list_update_beyond list_update_id map_update not_le_imp_less nth_map)+)

text \<open>\<open>some_taken k\<close>: at least \<open>k\<close> entries of the table are taken.\<close>

definition some_taken :: "nat \<Rightarrow> 'a rib_state_scheme \<Rightarrow> bool" where
  "some_taken k st = (length (xPendingReqs st) = RESPONSE_HANDLER_TABLE_SIZE \<and> k \<le> taken (xPendingReqs st))"

lemma some_taken_unlockable: "unlockable (some_taken k)"
  by (simp add: unlockable_def some_taken_def)

lemma some_taken_simps [simp]: "some_taken k (set_con x c st) = some_taken k st"
  "some_taken k (set_req x (pxResp_update g) st) = some_taken k st"
  "some_taken k (set_req x (req_locked_update h) st) = some_taken k st"
  "some_taken k (vRibUnlock st) = some_taken k st" "some_taken k (st\<lparr>invoke_id := n\<rparr>) = some_taken k st"
  by (simp_all add: some_taken_def taken_ids, simp_all add: set_req_def set_con_def vRibUnlock_def)

lemma connection_add_taken:
  assumes "some_taken k st"
  shows "lands (some_taken k) (xRibConnectionAdd al1 al2 src dst port st)"
  unfolding xRibConnectionAdd_def Let_def
  using lock_lands [OF some_taken_unlockable assms]
  by (intro lands_rules) (auto split: sum.split)

lemma incoming_taken:
  assumes k: "preserves (some_taken k) env" and t: "some_taken k st"
  shows "lands (some_taken k) (xRibNormalIncoming env al1 al2 ma msg port st)"
proof -
  have c: "lands (some_taken k) (prvRibHandleConnect env al1 al2 ma port con msg st)" for con
  proof (cases con)
    case None
    show ?thesis unfolding prvRibHandleConnect_def None option.case
    proof (rule lands_bind [OF connection_add_taken [OF t]], goal_cases)
      case (1 x s)
      then show ?case by (cases x) (simp_all add: locked_send_lands [OF k some_taken_unlockable])
    qed
  qed (simp add: prvRibHandleConnect_def t)
  have cr: "lands (some_taken k) (Done (prvRibHandleConnectReply con st))"
    "lands (some_taken k) (Done (prvRibHandleReleaseReply con st))" for con
    using t by (simp_all add: prvRibHandleConnectReply_def prvRibHandleReleaseReply_def split: option.split)
  have r: "lands (some_taken k) (prvRibHandleRelease env ma port con msg st)" for con
    unfolding prvRibHandleRelease_def vRibConnectionRelease_def
    using t by (intro lands_rules reply_lands [OF k some_taken_unlockable t]) simp_all
  show ?thesis unfolding xRibNormalIncoming_def Let_def
    by (intro lands_if lands_bind [where Q = "some_taken k"] c cr r any_request_lands [OF k t]
      any_reply_lands [OF k some_taken_unlockable _ t]) (simp_all add: t)
qed

text \<open>A tracked query that is not refused takes an entry.\<close>

definition tracked :: "query_type \<Rightarrow> bool" where "tracked q = (q \<noteq> RIB_QUERY_TYPE_CMD)"

lemma add_pending_length:
  "xRibAddPendingResponse nm iid opc cb st = (e, st') \<Longrightarrow> length (xPendingReqs st') = length (xPendingReqs st)"
  by (auto simp: xRibAddPendingResponse_def split: option.splits)

lemma add_pending_taken:
  assumes "xRibAddPendingResponse nm iid opc cb st = (e, st')" "iid \<noteq> 0"
  shows "(e = None \<and> taken (xPendingReqs st') = Suc (taken (xPendingReqs st))) \<or> (e = Some ERR_RIB_TABLE_FULL \<and> st' = st)"
  using assms by (auto simp: xRibAddPendingResponse_def find_idx_Some taken_replace split: option.splits)

text \<open>A query step by step: it registers in the state \<open>st2\<close> with the new invoke id and sends the message.\<close>

definition after_id :: "'a rib_state_scheme \<Rightarrow> u32 \<times> 'a rib_state_scheme" where
  "after_id st = (fst (get_next_invoke_id (invoke_id st)), st\<lparr>invoke_id := snd (get_next_invoke_id (invoke_id st))\<rparr>)"

definition request_of :: "msg_mem \<Rightarrow> rib_obj \<Rightarrow> u32 \<Rightarrow> bytes option \<Rightarrow> u32 \<Rightarrow> cdap option" where
  "request_of ma ob opc val iid = pxRibCdapMsgCreateRequest ma (ucObjClass ob) (ucObjName ob) (ulObjInst ob) opc val iid"

lemma query_steps:
  assumes "vRibLock st = Done st1" "after_id st1 = (iid, st2)" "request_of ma ob opc val iid = Some msg"
  shows "xRibObjectQuery env ma ob opc port val q st =
    (case q of
       RIB_QUERY_TYPE_CMD \<Rightarrow>
         obind (fnRibOutput env (msg\<lparr>nInvokeID := 0\<rparr>) port st2) (\<lambda>(e, st3). Done ((None, e), vRibUnlock st3))
     | _ \<Rightarrow>
         (let cb = (case q of RIB_QUERY_TYPE_ASYNC f \<Rightarrow> f | _ \<Rightarrow> None);
              ret = (if q = RIB_QUERY_TYPE_SYNC then Some iid else None) in
          case xRibAddPendingResponse (ucObjName ob) iid opc cb st2 of
            (Some e, st3) \<Rightarrow> Done ((ret, Some e), vRibUnlock st3)
          | (None, st3) \<Rightarrow>
              obind (fnRibOutput env msg port st3) (\<lambda>(e, st4). Done ((ret, e), vRibUnlock st4))))"
proof -
  obtain cm where ma: "pxRibCdapMsgCreate ma = Some cm"
    using assms(3) by (auto simp: request_of_def pxRibCdapMsgCreateRequest_def)
  have g: "get_next_invoke_id (invoke_id st1) = (iid, snd (get_next_invoke_id (invoke_id st1)))"
    "st2 = st1\<lparr>invoke_id := snd (get_next_invoke_id (invoke_id st1))\<rparr>"
    using assms(2) by (auto simp: after_id_def prod_eq_iff)
  obtain n where n: "get_next_invoke_id (invoke_id st1) = (iid, n)" using g(1) by blast
  have st2: "st2 = st1\<lparr>invoke_id := n\<rparr>" using g(2) n by simp
  show ?thesis using assms(3) ma n
    by (cases q) (simp_all add: xRibObjectQuery_def assms(1) st2 request_of_def Let_def)
qed

lemma query_no_memory: "vRibLock st = Done st1 \<Longrightarrow> pxRibCdapMsgCreate ma = None \<Longrightarrow> xRibObjectQuery env ma ob opc port val q st = Crash"
  by (simp add: xRibObjectQuery_def pxRibCdapMsgCreateRequest_def)

lemma query_done:
  assumes "xRibObjectQuery env ma ob opc port val q st = Done r"
  obtains st1 iid st2 msg where "vRibLock st = Done st1" "after_id st1 = (iid, st2)" "iid \<noteq> 0"
    "request_of ma ob opc val iid = Some msg"
proof -
  obtain st1 where st1: "vRibLock st = Done st1" using assms by (auto simp: xRibObjectQuery_def obind_Done)
  have "pxRibCdapMsgCreate ma \<noteq> None"
  proof
    assume "pxRibCdapMsgCreate ma = None"
    then show False using assms query_no_memory [OF st1, of ma env ob opc port val q] by simp
  qed
  then obtain msg where "request_of ma ob opc val (fst (after_id st1)) = Some msg"
    by (auto simp: request_of_def pxRibCdapMsgCreateRequest_def)
  then show ?thesis
    using that [OF st1 _ _ , of "fst (after_id st1)" "snd (after_id st1)" msg] invoke_id_nonzero
    by (simp add: after_id_def)
qed

text \<open>Queries only add to the taken entries, and one that is accepted adds one.\<close>

lemma query_taken:
  assumes k: "\<And>k. preserves (some_taken k) env" and d: "xRibObjectQuery env ma ob opc port val q st = Done ((ret, e), st')"
    and t: "some_taken j st"
  shows "some_taken (j + (if tracked q \<and> e \<noteq> Some ERR_RIB_TABLE_FULL then 1 else 0)) st'"
proof -
  from d obtain st1 iid st2 msg where st1: "vRibLock st = Done st1" "after_id st1 = (iid, st2)" "iid \<noteq> 0"
    "request_of ma ob opc val iid = Some msg" by (rule query_done)
  have "some_taken j st1"
    by (rule lock_lands [OF some_taken_unlockable _ st1(1)]) (rule t)
  then have t2: "some_taken j st2" using st1(2) by (auto simp: after_id_def)
  have out: "some_taken i s" if "fnRibOutput env m p s0 = Done (x, s)" "some_taken i s0" for i m p x s s0
    using preserves_output [OF k that(2), of m p] that(1) by (simp add: lands_def)
  note steps = d [unfolded query_steps [OF st1(1,2,4)]]
  show ?thesis
  proof (cases "tracked q")
    case False
    then show ?thesis using steps t2 by (auto simp: tracked_def obind_Done intro: out)
  next
    case True
    let ?cb = "case q of RIB_QUERY_TYPE_ASYNC f \<Rightarrow> f | _ \<Rightarrow> None"
    obtain r st3 where a: "xRibAddPendingResponse (ucObjName ob) iid opc ?cb st2 = (r, st3)" by fastforce
    have d': "(case r of Some x \<Rightarrow> Done ((if q = RIB_QUERY_TYPE_SYNC then Some iid else None, Some x), vRibUnlock st3)
        | None \<Rightarrow> obind (fnRibOutput env msg port st3) (\<lambda>(e, st4).
            Done ((if q = RIB_QUERY_TYPE_SYNC then Some iid else None, e), vRibUnlock st4))) = Done ((ret, e), st')"
      using steps True a by (cases q) (simp_all add: tracked_def Let_def)
    from add_pending_taken [OF a st1(3)] show ?thesis
    proof (elim disjE conjE)
      assume n: "r = None" "taken (xPendingReqs st3) = Suc (taken (xPendingReqs st2))"
      then have "some_taken (Suc j) st3" using t2 add_pending_length [OF a] by (simp add: some_taken_def)
      then have "some_taken (Suc j) st'" using d' n(1) by (auto simp: obind_Done intro: out)
      then show ?thesis by (simp add: some_taken_def)
    next
      assume "r = Some ERR_RIB_TABLE_FULL" "st3 = st2"
      then show ?thesis using d' t2 True by auto
    qed
  qed
qed

text \<open>Runs of the daemon: incoming messages (those of the loopback daemon too), replies and errors, waits
  and queries.  The number counts the tracked queries that were not refused for want of an entry.\<close>

inductive rib_run :: "'a rib_state_scheme rib_env \<Rightarrow> 'a rib_state_scheme \<Rightarrow> nat \<Rightarrow> 'a rib_state_scheme \<Rightarrow> bool"
  for env st where
  rib_start: "rib_run env st 0 st"
| rib_in: "rib_run env st n s \<Longrightarrow> xRibNormalIncoming env al1 al2 ma msg port s = Done (e, s') \<Longrightarrow> rib_run env st n s'"
| rib_reply: "rib_run env st n s \<Longrightarrow> xRibObjectReply env ma ob opc port iid rc re val s = Done (e, s') \<Longrightarrow> rib_run env st n s'"
| rib_error: "rib_run env st n s \<Longrightarrow> xRibObjectErr env ma ob opc port iid rc re s = Done (e, s') \<Longrightarrow> rib_run env st n s'"
| rib_wait: "rib_run env st n s \<Longrightarrow> xRibObjectWaitReply clk (\<lambda>s. s) late iid s = Done (r, s') \<Longrightarrow> rib_run env st n s'"
| rib_query: "rib_run env st n s \<Longrightarrow> xRibObjectQuery env ma ob opc port val q s = Done ((ret, e), s') \<Longrightarrow>
    rib_run env st (if tracked q \<and> e \<noteq> Some ERR_RIB_TABLE_FULL then n + 1 else n) s'"

lemma wait_taken:
  assumes "some_taken k st" "xRibObjectWaitReply clk (\<lambda>s. s) late iid st = Done (r, st')"
  shows "some_taken k st'"
proof -
  have "lands (some_taken k) (xRibObjectWaitReply clk (\<lambda>s. s) late iid st)"
    unfolding xRibObjectWaitReply_def Let_def
    by (intro lands_if lands_bind [OF find_pending_lands [OF some_taken_unlockable assms(1)]] lands_pair lands_option)
      (simp_all add: assms(1))
  then show ?thesis using assms(2) by (simp add: lands_def)
qed

lemma rib_run_taken:
  assumes "rib_run env st n st'" "\<forall>k. preserves (some_taken k) env" "some_taken k st"
  shows "some_taken (k + n) st'"
  using assms
proof (induction rule: rib_run.induct)
  case (rib_in n s al1 al2 ma msg port e s')
  then show ?case using incoming_taken [of "k + n" env s al1 al2 ma msg port] by (simp add: lands_def)
next
  case (rib_reply n s ma ob opc port iid rc re val e s')
  then show ?case using reply_lands [OF _ some_taken_unlockable, of "k + n" env s ma ob opc port iid rc re val]
    by (simp add: lands_def)
next
  case (rib_error n s ma ob opc port iid rc re e s')
  then show ?case using locked_send_lands [OF _ some_taken_unlockable, of "k + n" env s]
    by (simp add: lands_def xRibObjectErr_def)
next
  case (rib_wait n s clk late iid r s')
  then show ?case using wait_taken by blast
next
  case (rib_query n s ma ob opc port val q ret e s')
  then show ?case using query_taken [of env ma ob opc port val q s ret e s' "k + n"]
    by (auto split: if_splits)
qed simp

text \<open>Pending requests are never given back: over the whole life of a daemon with an empty table, at
  most ten tracked queries are accepted, whatever replies arrive and whatever is waited for.  After ten,
  every further one, with the lock free and memory there, fails with a full table and nothing is sent.\<close>
theorem ten_queries:
  assumes "rib_run env st n st'" "\<forall>k. preserves (some_taken k) env" "length (xPendingReqs st) = RESPONSE_HANDLER_TABLE_SIZE"
  shows "n \<le> RESPONSE_HANDLER_TABLE_SIZE \<and>
    (n = RESPONSE_HANDLER_TABLE_SIZE \<and> tracked q \<and> xDoLock st' \<and> \<not> xMutex st' \<and> pxRibCdapMsgCreate ma \<noteq> None \<longrightarrow>
      (\<exists>ret. xRibObjectQuery env ma ob opc port val q st' =
        Done ((ret, Some ERR_RIB_TABLE_FULL), st'\<lparr>invoke_id := snd (get_next_invoke_id (invoke_id st'))\<rparr>)))"
proof -
  have t: "some_taken n st'" using rib_run_taken [OF assms(1,2), of 0] assms(3) by (simp add: some_taken_def)
  then have "n \<le> RESPONSE_HANDLER_TABLE_SIZE"
    using taken_bound [of "xPendingReqs st'"] by (simp add: some_taken_def)
  moreover have "\<exists>ret. xRibObjectQuery env ma ob opc port val q st' =
        Done ((ret, Some ERR_RIB_TABLE_FULL), st'\<lparr>invoke_id := snd (get_next_invoke_id (invoke_id st'))\<rparr>)"
    if n: "n = RESPONSE_HANDLER_TABLE_SIZE" and q: "tracked q" and l: "xDoLock st'" "\<not> xMutex st'"
      and ma: "pxRibCdapMsgCreate ma \<noteq> None"
  proof -
    have "taken (xPendingReqs st') = length (xPendingReqs st')"
      using t n taken_bound [of "xPendingReqs st'"] by (simp add: some_taken_def)
    then have full: "find_idx (\<lambda>r. unInvokeID r = 0) (xPendingReqs st') = None" by (rule taken_full)
    let ?st1 = "st'\<lparr>xMutex := True\<rparr>"
    have lock: "vRibLock st' = Done ?st1" using l by (simp add: vRibLock_def)
    obtain iid st2 where id: "after_id ?st1 = (iid, st2)" by fastforce
    obtain msg where m: "request_of ma ob opc val iid = Some msg"
      using ma by (auto simp: request_of_def pxRibCdapMsgCreateRequest_def)
    have st2: "vRibUnlock st2 = st'\<lparr>invoke_id := snd (get_next_invoke_id (invoke_id st'))\<rparr>" "xPendingReqs st2 = xPendingReqs st'"
      using id l by (auto simp: after_id_def vRibUnlock_def)
    show ?thesis unfolding query_steps [OF lock id m]
      using q full st2 by (cases q) (simp_all add: tracked_def Let_def xRibAddPendingResponse_def)
  qed
  ultimately show ?thesis by blast
qed

lemma quiet_env_preserves: "preserves P quiet_env"
  by (simp add: preserves_def quiet_env_def)

text \<open>A heap that never fails makes messages.\<close>

lemma message_made: "\<exists>m. pxRibCdapMsgCreate (Some zero_heap) = Some m"
proof -
  have "malloc_ok zero_heap" by (simp add: malloc_ok_def zero_heap_def)
  then have "\<exists>n. mgmt_name zero_heap = Inr n"
    unfolding mgmt_name_def by (subst dup_parts) (simp_all add: zero_heap_def)
  then show ?thesis by (auto simp: pxRibCdapMsgCreate_def)
qed

lemma quiet_query:
  "\<exists>ret st'. xRibObjectQuery quiet_env (Some zero_heap) xRibConnectObject opc port val RIB_QUERY_TYPE_SYNC
     (rib_demo [] (replicate 10 zero_req)) = Done ((ret, None), st')"
proof -
  let ?st = "rib_demo [] (replicate 10 zero_req)"
  have lock: "vRibLock ?st = Done (?st\<lparr>xMutex := True\<rparr>)" by (simp add: vRibLock_def)
  obtain iid st2 where id: "after_id (?st\<lparr>xMutex := True\<rparr>) = (iid, st2)" by fastforce
  obtain msg where m: "request_of (Some zero_heap) xRibConnectObject opc val iid = Some msg"
    using message_made by (auto simp: request_of_def pxRibCdapMsgCreateRequest_def)
  have "xPendingReqs st2 = replicate 10 zero_req" using id by (auto simp: after_id_def)
  then show ?thesis unfolding query_steps [OF lock id m]
    by (simp add: Let_def xRibAddPendingResponse_def find_idx_replicate zero_req_def quiet_env_def)
qed

text \<open>A reply with invoke id 0 (a command asks for none, so a peer may well send 0) finds the first free
  entry of the table of pending requests, whose object name is a null pointer, and the daemon crashes
  comparing it, as soon as one object is registered.\<close>
theorem reply_to_nothing_crashes:
  assumes "\<not> (xDoLock st \<and> xMutex st)" "pxRibObjects st = Some a # rest_objs" "rib_objs st a = Some ob"
    "find_idx (\<lambda>r. unInvokeID r = 0) (xPendingReqs st) = Some x" "req_obj (xPendingReqs st ! x) = None"
    "nInvokeID msg = 0" "eOpCode msg \<in> {M_CREATE_R, M_DELETE_R, M_READ_R, M_WRITE_R, M_START_R, M_STOP_R}"
  shows "xRibNormalIncoming env al1 al2 ma msg port st = Crash"
proof -
  obtain st1 where st1: "vRibLock st = Done st1" using lock_free [OF assms(1)] by blast
  have u: "xPendingReqs st1 = xPendingReqs st" "pxRibObjects (vRibUnlock st1) = pxRibObjects st"
    "xPendingReqs (vRibUnlock st1) = xPendingReqs st" "rib_objs (vRibUnlock st1) = rib_objs st"
    using st1 by (auto simp: vRibLock_def vRibUnlock_def split: if_splits)
  have "same_string (ucObjName ob) None = Crash" by (cases "ucObjName ob") (simp_all add: same_string_def)
  then have "prvRibHandleAnyReply env con msg st = Crash" for con
    using assms u by (simp add: prvRibHandleAnyReply_def xRibFindPendingResponse_def st1 pxRibObjectFind_def)
  then show ?thesis using assms(7) by (auto simp: xRibNormalIncoming_def Let_def opcodes)
qed

text \<open>What the parts of a query that goes through look like: the entry \<open>x\<close> is free, \<open>iid\<close> is not in use, the
  output accepts the message and leaves the tables and the lock alone.\<close>

definition query_goes_through ::
  "'a rib_state_scheme rib_env \<Rightarrow> msg_mem \<Rightarrow> rib_obj \<Rightarrow> u32 \<Rightarrow> bytes option \<Rightarrow> 'a rib_state_scheme \<Rightarrow> nat \<Rightarrow> u32 \<Rightarrow> bool" where
  "query_goes_through env ma ob port val st x iid =
    (\<not> (xDoLock st \<and> xMutex st) \<and> pxRibCdapMsgCreate ma \<noteq> None \<and> iid = fst (get_next_invoke_id (invoke_id st)) \<and>
     find_idx (\<lambda>r. unInvokeID r = 0) (xPendingReqs st) = Some x \<and> (\<forall>r \<in> set (xPendingReqs st). unInvokeID r \<noteq> iid) \<and>
     (\<forall>m s. \<exists>s'. fnRibOutput env m port s = Done (None, s') \<and> xPendingReqs s' = xPendingReqs s \<and>
        pxRibObjects s' = pxRibObjects s \<and> rib_objs s' = rib_objs s \<and> xDoLock s' = xDoLock s \<and> xMutex s' = xMutex s))"

lemma query_registered:
  assumes "query_goes_through env ma ob port val st x iid" "tracked q"
  shows "\<exists>st'. xRibObjectQuery env ma ob opc port val q st =
      Done ((if q = RIB_QUERY_TYPE_SYNC then Some iid else None, None), st') \<and>
    xPendingReqs st' = (xPendingReqs st)[x := \<lparr>unInvokeID = iid, eReqOpCode = opc,
      xRibResCb = (case q of RIB_QUERY_TYPE_ASYNC f \<Rightarrow> f | _ \<Rightarrow> None), pxResp = None, req_obj = ucObjName ob, req_locked = False\<rparr>] \<and>
    pxRibObjects st' = pxRibObjects st \<and> rib_objs st' = rib_objs st \<and> \<not> (xDoLock st' \<and> xMutex st')"
proof -
  have "\<not> (xDoLock st \<and> xMutex st)" using assms(1) by (simp add: query_goes_through_def)
  then obtain st1 where st1: "vRibLock st = Done st1" using lock_free by blast
  have s1: "xPendingReqs st1 = xPendingReqs st" "pxRibObjects st1 = pxRibObjects st" "rib_objs st1 = rib_objs st"
    "invoke_id st1 = invoke_id st"
    using st1 by (auto simp: vRibLock_def split: if_splits)
  obtain st2 where id: "after_id st1 = (iid, st2)"
    using assms(1) s1(4) by (simp add: after_id_def query_goes_through_def)
  have s2: "xPendingReqs st2 = xPendingReqs st" "pxRibObjects st2 = pxRibObjects st" "rib_objs st2 = rib_objs st"
    using id s1 by (auto simp: after_id_def)
  obtain msg where m: "request_of ma ob opc val iid = Some msg"
    using assms(1) by (auto simp: request_of_def pxRibCdapMsgCreateRequest_def query_goes_through_def)
  let ?cb = "case q of RIB_QUERY_TYPE_ASYNC f \<Rightarrow> f | _ \<Rightarrow> None"
  let ?r = "\<lparr>unInvokeID = iid, eReqOpCode = opc, xRibResCb = ?cb, pxResp = None, req_obj = ucObjName ob, req_locked = False\<rparr>"
  let ?st3 = "st2\<lparr>xPendingReqs := (xPendingReqs st)[x := ?r]\<rparr>"
  have a: "xRibAddPendingResponse (ucObjName ob) iid opc ?cb st2 = (None, ?st3)"
    using assms(1) s2(1) by (simp add: xRibAddPendingResponse_def query_goes_through_def)
  obtain s where s: "fnRibOutput env msg port ?st3 = Done (None, s)" "xPendingReqs s = xPendingReqs ?st3"
    "pxRibObjects s = pxRibObjects ?st3" "rib_objs s = rib_objs ?st3"
    using assms(1) unfolding query_goes_through_def by blast
  have "xRibObjectQuery env ma ob opc port val q st =
      Done ((if q = RIB_QUERY_TYPE_SYNC then Some iid else None, None), vRibUnlock s)"
    unfolding query_steps [OF st1 id m] using assms(2) a s(1) by (cases q) (simp_all add: tracked_def Let_def)
  moreover have "xPendingReqs (vRibUnlock s) = (xPendingReqs st)[x := ?r]" "pxRibObjects (vRibUnlock s) = pxRibObjects st"
    "rib_objs (vRibUnlock s) = rib_objs st" "\<not> (xDoLock (vRibUnlock s) \<and> xMutex (vRibUnlock s))"
    using s s2 by (simp_all add: vRibUnlock_def)
  ultimately show ?thesis by blast
qed

lemma mutex_same: "\<not> xMutex st \<Longrightarrow> st\<lparr>xMutex := False\<rparr> = st"
  by (rule rib_state.equality) simp_all

lemma unlock_lock:
  assumes "\<not> (xDoLock st \<and> xMutex st)" "vRibLock st = Done s"
  shows "vRibUnlock s = st"
proof (cases "xDoLock st")
  case True
  then have s: "s = st\<lparr>xMutex := True\<rparr>" using assms by (simp add: vRibLock_def)
  show ?thesis using True assms(1) unfolding s by (simp add: vRibUnlock_def mutex_same)
next
  case False
  then have s: "s = st" using assms(2) by (simp add: vRibLock_def)
  show ?thesis using False unfolding s by (simp add: vRibUnlock_def)
qed

lemma find_pending:
  assumes "\<not> (xDoLock st \<and> xMutex st)"
  shows "xRibFindPendingResponse iid st = Done (find_idx (\<lambda>r. unInvokeID r = iid) (xPendingReqs st), st)"
proof -
  obtain st1 where st1: "vRibLock st = Done st1" using lock_free [OF assms] by blast
  then have "xPendingReqs st1 = xPendingReqs st" by (auto simp: vRibLock_def split: if_splits)
  then show ?thesis using unlock_lock [OF assms st1] by (simp add: xRibFindPendingResponse_def st1)
qed

text \<open>The entry of a registered query is the one that its id finds.\<close>

lemma pending_found:
  assumes "x < length qs" "\<forall>r \<in> set qs. unInvokeID r \<noteq> iid" "unInvokeID q = iid"
  shows "find_idx (\<lambda>r. unInvokeID r = iid) (qs[x := q]) = Some x"
proof (rule find_idx_unique)
  fix j
  assume "j < length (qs[x := q])" "unInvokeID (qs[x := q] ! j) = iid"
  then show "j = x" using assms(2) by (cases "j = x") auto
qed (use assms in simp_all)

text \<open>What becomes of a reply whose request is found.\<close>

lemma reply_handled:
  assumes "\<not> (xDoLock s \<and> xMutex s)" "find_idx (\<lambda>r. unInvokeID r = nInvokeID msg) (xPendingReqs s) = Some x"
    "pxRibObjectFind (req_obj (xPendingReqs s ! x)) s = Done (Some a)" "rib_objs s a = Some ob"
    "xRibGetObjectReplyMethod ob (eOpCode msg) = Done (Some f)"
    "rep_method env f a (pxRibConnectionFind port s) msg s = Done ((None, resp), s)"
  shows "xRibNormalIncoming env al1 al2 ma msg port s =
    obind (case xRibResCb (xPendingReqs s ! x) of Some h \<Rightarrow> res_cb env h a resp s
           | None \<Rightarrow> Done (None, set_req x (pxResp_update (\<lambda>_. resp)) s))
      (\<lambda>(e, s1). Done (None, s1))"
proof -
  have op: "eOpCode msg \<in> {M_CREATE_R, M_DELETE_R, M_READ_R, M_WRITE_R, M_START_R, M_STOP_R}"
    using assms(5) unfolding xRibGetObjectReplyMethod_def by (simp only: insert_iff split: if_splits) simp_all
  have "prvRibHandleAnyReply env (pxRibConnectionFind port s) msg s =
      (case xRibResCb (xPendingReqs s ! x) of Some h \<Rightarrow> res_cb env h a resp s
       | None \<Rightarrow> Done (None, set_req x (pxResp_update (\<lambda>_. resp)) s))"
    using assms by (simp add: prvRibHandleAnyReply_def find_pending split: option.split)
  then show ?thesis using op by (auto simp: xRibNormalIncoming_def Let_def opcodes)
qed

text \<open>C4. A tracked query that goes through is answered: any reply message with its invoke id, whatever its
  port and its kind of reply, reaches the reply method of the object, and what the method returns reaches
  the callback of an asynchronous query, or the caller who waits for a synchronous one, at once and
  without a time-out.\<close>
theorem query_answered:
  assumes thr: "query_goes_through env ma ob port val st x iid" and id: "nInvokeID msg = iid"
    and ob: "pxRibObjectFind (ucObjName ob) st = Done (Some a)" "rib_objs st a = Some o1"
      "xRibGetObjectReplyMethod o1 (eOpCode msg) = Done (Some f)"
    and m: "\<forall>con s. rep_method env f a con msg s = Done ((None, Some v), s)"
  shows "(\<exists>st1. xRibObjectQuery env ma ob opc port val (RIB_QUERY_TYPE_ASYNC (Some g)) st = Done ((None, None), st1) \<and>
      xRibNormalIncoming env al1 al2 ma' msg port' st1 = obind (res_cb env g a (Some v) st1) (\<lambda>(e, s). Done (None, s))) \<and>
    (\<exists>st1 st2. xRibObjectQuery env ma ob opc port val RIB_QUERY_TYPE_SYNC st = Done ((Some iid, None), st1) \<and>
      xRibNormalIncoming env al1 al2 ma' msg port' st1 = Done (None, st2) \<and>
      (\<forall>others late. xRibObjectWaitReply True others late iid st2 = Done ((None, Some (Some v)), st2)))"
proof -
  have x: "x < length (xPendingReqs st)" "\<forall>r \<in> set (xPendingReqs st). unInvokeID r \<noteq> iid"
    using thr by (auto simp: query_goes_through_def find_idx_Some)
  let ?r = "\<lambda>cb resp. \<lparr>unInvokeID = iid, eReqOpCode = opc, xRibResCb = cb, pxResp = resp, req_obj = ucObjName ob, req_locked = False\<rparr>"
  have fi: "find_idx (\<lambda>r. unInvokeID r = iid) ((xPendingReqs st)[x := ?r cb resp]) = Some x" for cb resp
    by (rule pending_found [OF x]) simp
  have reply: "xRibNormalIncoming env al1 al2 ma' msg port' s =
      obind (case cb of Some h \<Rightarrow> res_cb env h a (Some v) s | None \<Rightarrow> Done (None, set_req x (pxResp_update (\<lambda>_. Some v)) s))
        (\<lambda>(e, s1). Done (None, s1))"
    if s: "xPendingReqs s = (xPendingReqs st)[x := ?r cb None]" "pxRibObjects s = pxRibObjects st" "rib_objs s = rib_objs st"
      "\<not> (xDoLock s \<and> xMutex s)" for s cb
    using reply_handled [of s msg x a o1 f env port' "Some v" al1 al2 ma'] ob m id s fi [of cb None] x(1)
    by (simp add: pxRibObjectFind_def)
  obtain s1 where s1: "xRibObjectQuery env ma ob opc port val (RIB_QUERY_TYPE_ASYNC (Some g)) st = Done ((None, None), s1)"
    "xPendingReqs s1 = (xPendingReqs st)[x := ?r (Some g) None]" "pxRibObjects s1 = pxRibObjects st" "rib_objs s1 = rib_objs st"
    "\<not> (xDoLock s1 \<and> xMutex s1)"
    using query_registered [OF thr, of "RIB_QUERY_TYPE_ASYNC (Some g)" opc] by (auto simp: tracked_def)
  obtain s2 where s2: "xRibObjectQuery env ma ob opc port val RIB_QUERY_TYPE_SYNC st = Done ((Some iid, None), s2)"
    "xPendingReqs s2 = (xPendingReqs st)[x := ?r None None]" "pxRibObjects s2 = pxRibObjects st" "rib_objs s2 = rib_objs st"
    "\<not> (xDoLock s2 \<and> xMutex s2)"
    using query_registered [OF thr, of RIB_QUERY_TYPE_SYNC opc] by (auto simp: tracked_def)
  let ?s3 = "set_req x (pxResp_update (\<lambda>_. Some v)) s2"
  have p3: "xPendingReqs ?s3 = (xPendingReqs st)[x := ?r None (Some v)]" "\<not> (xDoLock ?s3 \<and> xMutex ?s3)"
    using s2 x(1) by (simp_all add: set_req_def)
  have w: "xRibObjectWaitReply True others late iid ?s3 = Done ((None, Some (Some v)), ?s3)" for others late
    using p3 x(1) by (simp add: xRibObjectWaitReply_def find_pending fi)
  show ?thesis using s1(1) s2(1) reply [OF s1(2-5)] reply [OF s2(2-5)] w by auto
qed

lemma query_answered_witness:
  "\<exists>st1 st2. xRibObjectQuery quiet_env (Some zero_heap) xRibConnectObject M_READ 3 None RIB_QUERY_TYPE_SYNC
      (rib_demo [] (replicate 10 zero_req)) = Done ((Some 1, None), st1) \<and>
    xRibNormalIncoming quiet_env zero_heap zero_heap None (msg_of M_READ_R 1) 5 st1 = Done (None, st2) \<and>
    xRibObjectWaitReply True (\<lambda>s. s) False 1 st2 = Done ((None, Some (Some 3)), st2)"
proof -
  let ?st = "rib_demo [] (replicate 10 zero_req)"
  have t: "query_goes_through quiet_env (Some zero_heap) xRibConnectObject 3 None ?st 0 1"
    using message_made
    by (simp add: query_goes_through_def quiet_env_def find_idx_replicate zero_req_def get_next_invoke_id_def)
  have o1: "pxRibObjectFind (ucObjName xRibConnectObject) ?st = Done (Some 4)"
    by (simp add: pxRibObjectFind_def same_string_def xRibConnectObject_def)
  have o2: "xRibGetObjectReplyMethod (xRibConnectObject\<lparr>fnRead := Some 1, fnReadReply := Some 2\<rparr>) (eOpCode (msg_of M_READ_R 1)) =
      Done (Some 2)" by (simp add: xRibGetObjectReplyMethod_def opcodes)
  have m: "\<forall>con s. rep_method quiet_env 2 4 con (msg_of M_READ_R 1) s = Done ((None, Some 3), s)"
    by (simp add: quiet_env_def)
  have i: "nInvokeID (msg_of M_READ_R 1) = 1" "rib_objs ?st 4 = Some (xRibConnectObject\<lparr>fnRead := Some 1, fnReadReply := Some 2\<rparr>)"
    by simp_all
  show ?thesis using query_answered [OF t i(1) o1 i(2) o2 m, of M_READ 0 zero_heap zero_heap None 5] by blast
qed

end
