(* ===== verification/Enrollment.thy ===== *)
theory Enrollment
  imports Rib_Tables
begin

text \<open>Enrollment (\<^verbatim>\<open>Enrollment/Enrollment.c\<close>, \<^verbatim>\<open>Enrollment_Inbound.c\<close>, \<^verbatim>\<open>neighbor.c\<close>): the table of neighbours, the
  enrollment objects of the RIB and the thread that enrolls a neighbour who asked for it.  The mutex of
  the neighbours is taken and given back within each operation, so each is one step.  The encoders of the
  messages are a parameter: \<open>None\<close> is a failure to encode.\<close>

section \<open>State\<close>

datatype enrollment_state = eENROLLMENT_NONE | eENROLLMENT_IN_PROGRESS | eENROLLED

record neighbor_info =
  eEnrollmentState :: enrollment_state
  pcApName :: "bytes option"
  xN1Port :: u32
  xNeighborAddress :: u8
  pcToken :: "bytes option"

record neighbor_row =
  pxNeighborInfo :: "nat option"
  row_valid :: bool

record enr_priv =
  enr_ribd :: bool
  enr_this :: nat
  unPort_enr :: u32
  unStartInvokeId :: u32

record enr_state = rib_state +
  xNeighborsTable :: "neighbor_row list"
  nbrs :: "nat \<Rightarrow> neighbor_info option"
  enr_data :: "nat \<Rightarrow> enr_priv option"
  enr_threads :: "nat list"

record enr_msg =
  ullAddress :: u64
  xStartEarly :: bool
  msg_token :: "bytes option"

record neighbor_msg =
  nm_ApName :: "bytes option"
  nm_ApInstance :: "bytes option"
  nm_AeName :: "bytes option"
  nm_AeInstance :: "bytes option"
  nm_address :: u64
  pcSupportingDifs :: "bytes list"

record enr_codec =
  enc_enrollment :: "enr_msg \<Rightarrow> bytes option"
  enc_neighbor :: "neighbor_msg \<Rightarrow> bytes option"
  enc_neighbors :: "neighbor_msg list \<Rightarrow> bytes option"

definition NEIGHBOR_TABLE_SIZE :: nat where "NEIGHBOR_TABLE_SIZE = 5"

definition CFG_NORMAL_PROCESS_NAME :: bytes where "CFG_NORMAL_PROCESS_NAME = ascii ''ue1.mobile.DIF'' @ [0]"
definition CFG_NORMAL_PROCESS_INSTANCE :: bytes where "CFG_NORMAL_PROCESS_INSTANCE = ascii ''1'' @ [0]"
definition CFG_LOCAL_ADDRESS_AP_NAME :: bytes where "CFG_LOCAL_ADDRESS_AP_NAME = ascii ''ue1.mobile.DIF'' @ [0]"
definition CFG_LOCAL_ADDRESS_AP_INSTANCE :: bytes where "CFG_LOCAL_ADDRESS_AP_INSTANCE = ascii ''1'' @ [0]"
definition CFG_SHIM_DIF_NAME :: bytes where "CFG_SHIM_DIF_NAME = ascii ''Irati'' @ [0]"

section \<open>Neighbours\<close>

text \<open>The search for a neighbour: the address of the first valid one of this name.\<close>

fun neighbor_loop :: "(nat \<Rightarrow> neighbor_info option) \<Rightarrow> bytes option \<Rightarrow> neighbor_row list \<Rightarrow> nat option outcome" where
  "neighbor_loop ns nm [] = Done None"
| "neighbor_loop ns nm (r # xs) =
    (if row_valid r
     then
       obind (or_crash (pxNeighborInfo r)) (\<lambda>a.
       obind (or_crash (ns a)) (\<lambda>n.
       obind (same_string (pcApName n) nm) (\<lambda>eq. if eq then Done (Some a) else neighbor_loop ns nm xs)))
     else neighbor_loop ns nm xs)"

definition pxEnrollmentFindNeighbor :: "bytes option \<Rightarrow> 'a enr_state_scheme \<Rightarrow> nat option outcome" where
  "pxEnrollmentFindNeighbor nm st = neighbor_loop (nbrs st) nm (xNeighborsTable st)"

definition xEnrollmentAddNeighborEntry :: "nat \<Rightarrow> 'a enr_state_scheme \<Rightarrow> bool \<times> 'a enr_state_scheme" where
  "xEnrollmentAddNeighborEntry a st =
    (case find_idx (\<lambda>r. \<not> row_valid r) (xNeighborsTable st) of
       None \<Rightarrow> (False, st)
     | Some x \<Rightarrow>
         (True, st\<lparr>xNeighborsTable := (xNeighborsTable st)[x := \<lparr>pxNeighborInfo = Some a, row_valid = True\<rparr>]\<rparr>))"

definition xEnrollmentGetNeighborAddress :: "bytes option \<Rightarrow> 'a enr_state_scheme \<Rightarrow> u8 outcome" where
  "xEnrollmentGetNeighborAddress nm st =
    (if nm = None then Crash
     else
       obind (neighbor_loop (nbrs st) nm (xNeighborsTable st)) (\<lambda>r.
         case r of None \<Rightarrow> Done ADDRESS_WRONG
         | Some a \<Rightarrow> obind (or_crash (nbrs st a)) (\<lambda>n. Done (xNeighborAddress n))))"

text \<open>\<open>mem\<close> is the address for the neighbour, \<open>dup\<close> tells whether \<^verbatim>\<open>strdup\<close> has memory; its result is not tested.\<close>

definition pxEnrollmentCreateNeighInfo ::
  "nat option \<Rightarrow> bool \<Rightarrow> bytes option \<Rightarrow> u32 \<Rightarrow> 'a enr_state_scheme \<Rightarrow> (nat option \<times> 'a enr_state_scheme) outcome" where
  "pxEnrollmentCreateNeighInfo mem dup nm port st =
    (case mem of None \<Rightarrow> Done (None, st)
     | Some a \<Rightarrow>
         obind (or_crash nm) (\<lambda>s.
           let n = \<lparr>eEnrollmentState = eENROLLMENT_NONE, pcApName = (if dup then Some (cstring s @ [0]) else None),
                    xN1Port = port, xNeighborAddress = - 1, pcToken = None\<rparr>;
               (ok, st1) = xEnrollmentAddNeighborEntry a (st\<lparr>nbrs := (nbrs st)(a \<mapsto> n)\<rparr>) in
           if \<not> ok then Done (None, st1\<lparr>nbrs := (nbrs st1)(a := None)\<rparr>) else Done (Some a, st1)))"

section \<open>Objects\<close>

text \<open>The keys of the methods and the addresses of the three static objects.\<close>

definition FN_ENR_START :: nat where "FN_ENR_START = 1"
definition FN_ENR_STOP :: nat where "FN_ENR_STOP = 2"
definition FN_ENR_STOP_REPLY :: nat where "FN_ENR_STOP_REPLY = 3"
definition FN_OPS_START :: nat where "FN_OPS_START = 4"
definition FN_ENR_INIT :: nat where "FN_ENR_INIT = 5"

definition ENR_OBJ :: nat where "ENR_OBJ = 1"
definition OPS_OBJ :: nat where "OPS_OBJ = 2"
definition NEIGHS_OBJ :: nat where "NEIGHS_OBJ = 3"

lemmas enr_consts = FN_ENR_START_def FN_ENR_STOP_def FN_ENR_STOP_REPLY_def FN_OPS_START_def FN_ENR_INIT_def
  ENR_OBJ_def OPS_OBJ_def NEIGHS_OBJ_def

definition xEnrollmentRibObject :: rib_obj where
  "xEnrollmentRibObject = xRibConnectObject
     \<lparr>ucObjName := Some (ascii ''/difm/enr'' @ [0]), ucObjClass := Some (ascii ''Enrollment'' @ [0]), ulObjInst := 0,
      fnStart := Some FN_ENR_START, fnStop := Some FN_ENR_STOP, fnStopReply := Some FN_ENR_STOP_REPLY,
      fnInit := Some FN_ENR_INIT\<rparr>"

definition xEnrollmentNeighborsObject :: rib_obj where
  "xEnrollmentNeighborsObject = xRibConnectObject
     \<lparr>ucObjName := Some (ascii ''/difm/enr/neighs'' @ [0]), ucObjClass := Some (ascii ''Neighbors'' @ [0]), ulObjInst := 0\<rparr>"

definition xOperationalStatus :: rib_obj where
  "xOperationalStatus = xRibConnectObject
     \<lparr>ucObjName := Some (ascii ''/difm/ops'' @ [0]), ucObjClass := Some (ascii ''OperationalStatus'' @ [0]), ulObjInst := 1,
      fnStart := Some FN_OPS_START\<rparr>"

text \<open>\<open>mem\<close> is the address for the private data.\<close>

definition prvEnrollmentObjectInit ::
  "nat option \<Rightarrow> nat \<Rightarrow> 'a enr_state_scheme \<Rightarrow> (status \<times> 'a enr_state_scheme) outcome" where
  "prvEnrollmentObjectInit mem a st =
    obind (or_crash (rib_objs st a)) (\<lambda>ob.
      case mem of
        None \<Rightarrow> Done (Some ERR_OOM, st\<lparr>rib_objs := (rib_objs st)(a \<mapsto> ob\<lparr>pvPriv := None\<rparr>)\<rparr>)
      | Some p \<Rightarrow>
          Done (None, st\<lparr>rib_objs := (rib_objs st)(a \<mapsto> ob\<lparr>pvPriv := Some p\<rparr>),
            enr_data := (enr_data st)(p \<mapsto> \<lparr>enr_ribd = True, enr_this = a, unPort_enr = 0, unStartInvokeId = 0\<rparr>)\<rparr>))"

text \<open>The private data of an object, and the application connection of a message: both are used without a
  test.\<close>

definition priv_of :: "nat \<Rightarrow> 'a enr_state_scheme \<Rightarrow> (nat \<times> enr_priv) outcome" where
  "priv_of a st =
    obind (or_crash (rib_objs st a)) (\<lambda>ob.
    obind (or_crash (pvPriv ob)) (\<lambda>p.
    obind (or_crash (enr_data st p)) (\<lambda>d. Done (p, d))))"

definition con_of :: "nat option \<Rightarrow> 'a rib_state_scheme \<Rightarrow> app_con outcome" where
  "con_of con st = obind (or_crash con) (\<lambda>x. if x < length (xAppConnections st) then Done (xAppConnections st ! x) else Crash)"

text \<open>\<open>attr\<close>, \<open>stack\<close> and \<open>thr\<close> tell whether the attributes of the thread, its stack size and the thread could be
  made.\<close>

definition prvEnrollmentObjectStart ::
  "bool \<Rightarrow> bool \<Rightarrow> bool \<Rightarrow> nat \<Rightarrow> nat option \<Rightarrow> cdap \<Rightarrow> 'a enr_state_scheme \<Rightarrow> (status \<times> 'a enr_state_scheme) outcome" where
  "prvEnrollmentObjectStart attr stack thr a con msg st =
    obind (priv_of a st) (\<lambda>(p, d).
    obind (con_of con st) (\<lambda>c.
      let st1 = st\<lparr>enr_data := (enr_data st)(p \<mapsto> d\<lparr>unPort_enr := con_port c, unStartInvokeId := nInvokeID msg\<rparr>)\<rparr> in
      if \<not> attr then Done (Some ERR_PTHREAD, st1)
      else if thr then Done (if stack then None else Some ERR_PTHREAD, st1\<lparr>enr_threads := enr_threads st1 @ [a]\<rparr>)
      else Done (Some ERR_PTHREAD, st1)))"

definition prvEnrollmentObjectStop :: "nat \<Rightarrow> nat option \<Rightarrow> cdap \<Rightarrow> 'a enr_state_scheme \<Rightarrow> (status \<times> 'a enr_state_scheme) outcome" where
  "prvEnrollmentObjectStop a con msg st = Done (Some ERR_ERR, st)"

text \<open>The reply to the stop request writes an \<^verbatim>\<open>int\<close> over a pointer that was never set: its upper half is
  \<open>junk\<close>.\<close>

definition stop_value :: "nat \<Rightarrow> nat" where "stop_value junk = junk * 2 ^ 32 + 1"

definition prvEnrollmentObjectStopReply ::
  "nat \<Rightarrow> nat \<Rightarrow> nat option \<Rightarrow> cdap \<Rightarrow> 'a enr_state_scheme \<Rightarrow> ((status \<times> nat option) \<times> 'a enr_state_scheme) outcome" where
  "prvEnrollmentObjectStopReply junk a con msg st = Done ((None, Some (stop_value junk)), st)"

text \<open>\<open>mem\<close> is the memory for the message, with what its fields read as before they are set.  The encoded
  neighbour is not sent.\<close>

definition prvEnrollmentHandleOperationalStart ::
  "'a enr_state_scheme rib_env \<Rightarrow> msg_mem \<Rightarrow> enr_codec \<Rightarrow> neighbor_msg option \<Rightarrow> nat \<Rightarrow> nat option \<Rightarrow> cdap
     \<Rightarrow> 'a enr_state_scheme \<Rightarrow> (status \<times> 'a enr_state_scheme) outcome" where
  "prvEnrollmentHandleOperationalStart env ma cd mem a con msg st =
    obind (con_of con st) (\<lambda>c.
    obind (pxEnrollmentFindNeighbor (Some (pcProcessName (xDestinationInfo c))) st) (\<lambda>r.
      case r of None \<Rightarrow> Done (Some ERR_RIB_NEIGHBOR_NOT_FOUND, st)
      | Some n \<Rightarrow>
          obind (or_crash mem) (\<lambda>junk.
          obind (or_crash (nbrs st n)) (\<lambda>nb.
            case enc_neighbor cd (junk\<lparr>nm_ApName := Some CFG_NORMAL_PROCESS_NAME,
                   nm_ApInstance := Some CFG_NORMAL_PROCESS_INSTANCE, nm_AeName := Some CFG_MANAGEMENT_AE,
                   nm_AeInstance := pcToken nb\<rparr>) of
              None \<Rightarrow> Done (Some ERR_ERR, st)
            | Some v \<Rightarrow>
                obind (or_crash (rib_objs st a)) (\<lambda>ob.
                  xRibObjectReply env ma ob M_START_R (con_port c) (nInvokeID msg) 0 None None st)))))"

text \<open>\<open>sd\<close> tells whether the encoders could be initialised; \<open>env\<close> has \<open>prvEnrollmentObjectInit\<close> among its
  initialisers.\<close>

definition xEnrollmentInit :: "'a enr_state_scheme rib_env \<Rightarrow> bool \<Rightarrow> nat \<Rightarrow> 'a enr_state_scheme
     \<Rightarrow> (status \<times> 'a enr_state_scheme) outcome" where
  "xEnrollmentInit env sd owner st =
    (if \<not> sd then Done (Some ERR_OOM, st)
     else
       obind (xRibObjectAdd env (Some owner) ENR_OBJ st) (\<lambda>(e1, st1).
       if e1 \<noteq> None then Done (e1, st1)
       else
         obind (xRibObjectAdd env (Some owner) OPS_OBJ st1) (\<lambda>(e2, st2).
         if e2 \<noteq> None then Done (e2, st2)
         else
           obind (xRibObjectAdd env (Some owner) NEIGHS_OBJ st2) (\<lambda>(e3, st3).
             Done (e3, st3)))))"

text \<open>The environment of a daemon with the enrollment objects: their methods are added to those of \<open>env\<close>.  \<open>thr\<close> is
  what making a thread meets, \<open>junk\<close> what the unset pointer holds, \<open>ma\<close> and \<open>mem\<close> the memory of a reply and of a
  neighbour message, \<open>pmem\<close> that of the private data.\<close>

definition enrollment_env ::
  "bool \<times> bool \<times> bool \<Rightarrow> nat \<Rightarrow> msg_mem \<Rightarrow> enr_codec \<Rightarrow> neighbor_msg option \<Rightarrow> nat option \<Rightarrow> 'a enr_state_scheme rib_env
     \<Rightarrow> 'a enr_state_scheme rib_env" where
  "enrollment_env thr junk ma cd mem pmem env =
    env\<lparr>req_method := (\<lambda>k.
          if k = FN_ENR_START then prvEnrollmentObjectStart (fst thr) (fst (snd thr)) (snd (snd thr))
          else if k = FN_ENR_STOP then prvEnrollmentObjectStop
          else if k = FN_OPS_START then prvEnrollmentHandleOperationalStart env ma cd mem
          else req_method env k),
        rep_method := (\<lambda>k. if k = FN_ENR_STOP_REPLY then prvEnrollmentObjectStopReply junk else rep_method env k),
        init_method := (\<lambda>k owner a. if k = FN_ENR_INIT then prvEnrollmentObjectInit pmem a else init_method env k owner a)\<rparr>"

section \<open>The thread that enrolls a neighbour\<close>

text \<open>What the environment of the thread decides: the memory of its three messages and the last one, the
  memory of the neighbour, what the unset fields of the stop message read as, whether the clock could be
  read, what other threads do during the wait and whether it times out, what the unset stop reply reads
  as, and the size of a pointer.\<close>

record 's inbound_env =
  ma_start :: msg_mem
  ma_create :: msg_mem
  ma_stop :: msg_mem
  ma_ops :: msg_mem
  neigh_mem :: bool
  junk_stop :: enr_msg
  clock_ok :: bool
  meanwhile :: "'s \<Rightarrow> 's"
  timed_out :: bool
  junk_reply :: u32
  ptr_size :: nat

definition start_reply_msg :: enr_msg where
  "start_reply_msg = \<lparr>ullAddress = ucast CFG_LOCAL_ADDRESS, xStartEarly = False, msg_token = None\<rparr>"

definition local_neighbor :: neighbor_msg where
  "local_neighbor = \<lparr>nm_ApName = Some CFG_LOCAL_ADDRESS_AP_NAME, nm_ApInstance = Some CFG_LOCAL_ADDRESS_AP_INSTANCE,
     nm_AeName = Some [0], nm_AeInstance = Some [0], nm_address = ucast CFG_LOCAL_ADDRESS,
     pcSupportingDifs = [CFG_SHIM_DIF_NAME]\<rparr>"

text \<open>The \<^verbatim>\<open>int\<close> that the response of the stop request ends in: the pointer is written over it.\<close>

definition nStopReply :: "nat \<Rightarrow> u32 \<Rightarrow> nat option option \<Rightarrow> u32 outcome" where
  "nStopReply sz junk r =
    (case r of None \<Rightarrow> Done junk
     | Some p \<Rightarrow> if 4 < sz then Crash else Done (case p of None \<Rightarrow> 0 | Some v \<Rightarrow> word_of_nat v))"

text \<open>Every failure ends the thread.  The result tells whether it came to its end.\<close>

definition xEnrollmentInboundProcess ::
  "'a enr_state_scheme rib_env \<Rightarrow> enr_codec \<Rightarrow> 'a enr_state_scheme inbound_env \<Rightarrow> nat \<Rightarrow> 'a enr_state_scheme
     \<Rightarrow> (bool \<times> 'a enr_state_scheme) outcome" where
  "xEnrollmentInboundProcess env cd e a st =
    obind (priv_of a st) (\<lambda>(p, d).
    obind (or_crash (rib_objs st (enr_this d))) (\<lambda>ob.
    obind (xRibObjectReply env (ma_start e) ob M_START_R (unPort_enr d) (unStartInvokeId d) 0 None
             (enc_enrollment cd start_reply_msg) st) (\<lambda>(s1, st1).
    if s1 \<noteq> None then Done (False, st1)
    else if \<not> neigh_mem e then Done (False, st1)
    else
      obind (or_crash (enc_neighbors cd [local_neighbor])) (\<lambda>v.
      obind (priv_of a st1) (\<lambda>(p1, d1).
      obind (xRibObjectQuery env (ma_create e) xEnrollmentNeighborsObject M_CREATE (unPort_enr d1) (Some v)
               RIB_QUERY_TYPE_CMD st1) (\<lambda>((i2, s2), st2).
      if s2 \<noteq> None then Done (False, st2)
      else
        obind (priv_of a st2) (\<lambda>(p2, d2).
        obind (xRibObjectQuery env (ma_stop e) xEnrollmentRibObject M_STOP (unPort_enr d2)
                 (enc_enrollment cd ((junk_stop e)\<lparr>xStartEarly := False\<rparr>)) RIB_QUERY_TYPE_SYNC st2) (\<lambda>((i3, s3), st3).
        if s3 \<noteq> None then Done (False, st3)
        else
          obind (or_crash i3) (\<lambda>unStop.
          obind (xRibObjectWaitReply (clock_ok e) (meanwhile e) (timed_out e) unStop st3) (\<lambda>((s4, resp), st4).
          if s4 = Some ERR_RIB_TIMEOUT then Done (False, st4)
          else
            obind (nStopReply (ptr_size e) (junk_reply e) resp) (\<lambda>r.
            if r \<noteq> 1 then Done (False, st4)
            else
              obind (priv_of a st4) (\<lambda>(p4, d4).
              obind (xRibObjectQuery env (ma_ops e) xOperationalStatus M_START (unPort_enr d4) None
                       RIB_QUERY_TYPE_CMD st4) (\<lambda>((i5, s5), st5).
                Done (s5 = None, st5))))))))))))))"

section \<open>Properties of the neighbours\<close>

text \<open>A table of five rows of which the first ones are the neighbours \<open>as\<close>, all of them named.\<close>

definition neighbor_table :: "'a enr_state_scheme \<Rightarrow> nat list \<Rightarrow> bool" where
  "neighbor_table st as =
    (\<exists>free. xNeighborsTable st = List.map (\<lambda>a. \<lparr>pxNeighborInfo = Some a, row_valid = True\<rparr>) as @ free \<and>
       (\<forall>r \<in> set free. \<not> row_valid r) \<and> length as + length free = NEIGHBOR_TABLE_SIZE \<and>
       (\<forall>a \<in> set as. \<exists>n s. nbrs st a = Some n \<and> pcApName n = Some s))"

definition neighbors_ok :: "'a enr_state_scheme \<Rightarrow> bool" where
  "neighbors_ok st = (\<exists>as. neighbor_table st as)"

definition name_of :: "'a enr_state_scheme \<Rightarrow> nat \<Rightarrow> bytes" where
  "name_of st a = (case nbrs st a of Some n \<Rightarrow> cstring (the (pcApName n)) | None \<Rightarrow> [])"

lemma neighbor_loop_skip: "\<forall>r \<in> set free. \<not> row_valid r \<Longrightarrow> neighbor_loop ns nm free = Done None"
  by (induction free) auto

lemma neighbor_loop_find:
  assumes "\<forall>a \<in> set as. \<exists>n s. nbrs st a = Some n \<and> pcApName n = Some s" "\<forall>r \<in> set free. \<not> row_valid r"
  shows "neighbor_loop (nbrs st) (Some k) (List.map (\<lambda>a. \<lparr>pxNeighborInfo = Some a, row_valid = True\<rparr>) as @ free) =
    Done (List.find (\<lambda>a. name_of st a = cstring k) as)"
  using assms(1)
proof (induction as)
  case (Cons a as)
  then show ?case by (auto simp: same_string_def name_of_def)
qed (simp add: neighbor_loop_skip assms(2))

lemma find_neighbor:
  "neighbor_table st as \<Longrightarrow> pxEnrollmentFindNeighbor (Some k) st = Done (List.find (\<lambda>a. name_of st a = cstring k) as)"
  by (auto simp: neighbor_table_def pxEnrollmentFindNeighbor_def neighbor_loop_find)

definition nbr_find :: "'a enr_state_scheme \<Rightarrow> bytes \<Rightarrow> nat option" where
  "nbr_find st k =
    (if 0 \<in> set k then None else case pxEnrollmentFindNeighbor (Some (k @ [0])) st of Done r \<Rightarrow> r | _ \<Rightarrow> None)"

definition nbr_fresh :: "'a enr_state_scheme \<Rightarrow> nat \<Rightarrow> bool" where
  "nbr_fresh st a = (nbrs st a = None)"

definition nbr_name :: "bytes \<Rightarrow> bool" where "nbr_name k = (0 \<notin> set k)"

text \<open>Creating a neighbour of a name, with memory for it: whether it was registered, and the state.\<close>

definition nbr_register :: "u32 \<Rightarrow> nat \<Rightarrow> bytes \<Rightarrow> 'a enr_state_scheme \<Rightarrow> bool \<times> 'a enr_state_scheme" where
  "nbr_register port a k st =
    (case pxEnrollmentCreateNeighInfo (Some a) True (Some (k @ [0])) port st of
       Done (r, st') \<Rightarrow> (r \<noteq> None, st') | _ \<Rightarrow> (False, st))"

lemma find_free_row:
  assumes "neighbor_table st as"
  shows "find_idx (\<lambda>r. \<not> row_valid r) (xNeighborsTable st) =
    (if length as < NEIGHBOR_TABLE_SIZE then Some (length as) else None)"
proof -
  obtain free where f: "xNeighborsTable st = List.map (\<lambda>a. \<lparr>pxNeighborInfo = Some a, row_valid = True\<rparr>) as @ free"
    "\<forall>r \<in> set free. \<not> row_valid r" "length as + length free = NEIGHBOR_TABLE_SIZE"
    using assms by (auto simp: neighbor_table_def)
  show ?thesis
  proof (cases free)
    case Nil
    then show ?thesis using f by (auto simp: find_idx_None)
  next
    case (Cons r rows)
    then show ?thesis using f by (auto simp: find_idx_Some nth_append)
  qed
qed

text \<open>What creating a neighbour does to a table.\<close>

lemma create_neighbor:
  assumes "neighbor_table st as" "nbr_fresh st a"
  shows "\<exists>r st'. pxEnrollmentCreateNeighInfo (Some a) True (Some s) port st = Done (r, st') \<and>
    (if length as < NEIGHBOR_TABLE_SIZE
     then r = Some a \<and> neighbor_table st' (as @ [a]) \<and> name_of st' a = cstring s \<and>
       nbrs st' = (nbrs st)(a \<mapsto> \<lparr>eEnrollmentState = eENROLLMENT_NONE, pcApName = Some (cstring s @ [0]), xN1Port = port,
                      xNeighborAddress = ADDRESS_WRONG, pcToken = None\<rparr>)
     else r = None \<and> st' = st)"
proof -
  obtain free where f: "xNeighborsTable st = List.map (\<lambda>a. \<lparr>pxNeighborInfo = Some a, row_valid = True\<rparr>) as @ free"
    "\<forall>r \<in> set free. \<not> row_valid r" "length as + length free = NEIGHBOR_TABLE_SIZE"
    "\<forall>a \<in> set as. \<exists>n s. nbrs st a = Some n \<and> pcApName n = Some s"
    using assms(1) by (auto simp: neighbor_table_def)
  have new: "a \<notin> set as" using f(4) assms(2) by (auto simp: nbr_fresh_def)
  let ?n = "\<lparr>eEnrollmentState = eENROLLMENT_NONE, pcApName = Some (cstring s @ [0]), xN1Port = port,
    xNeighborAddress = ADDRESS_WRONG, pcToken = None\<rparr>"
  let ?st1 = "st\<lparr>nbrs := (nbrs st)(a \<mapsto> ?n)\<rparr>"
  have row: "find_idx (\<lambda>r. \<not> row_valid r) (xNeighborsTable ?st1) = (if length as < NEIGHBOR_TABLE_SIZE then Some (length as) else None)"
    using find_free_row [OF assms(1)] by simp
  show ?thesis
  proof (cases "length as < NEIGHBOR_TABLE_SIZE")
    case True
    then obtain r rows where r: "free = r # rows" using f(3) by (cases free) auto
    let ?st2 = "?st1\<lparr>xNeighborsTable := (xNeighborsTable st)[length as := \<lparr>pxNeighborInfo = Some a, row_valid = True\<rparr>]\<rparr>"
    have e: "pxEnrollmentCreateNeighInfo (Some a) True (Some s) port st = Done (Some a, ?st2)"
      using row True by (simp add: pxEnrollmentCreateNeighInfo_def xEnrollmentAddNeighborEntry_def ADDRESS_WRONG_def)
    have t: "neighbor_table ?st2 (as @ [a])"
      unfolding neighbor_table_def using f r new by (intro exI [of _ rows]) (auto simp: list_update_append)
    have n: "name_of ?st2 a = cstring s" by (simp add: name_of_def cstring_app cstring_no_nul)
    show ?thesis using e t n True by auto
  next
    case False
    have "?st1\<lparr>nbrs := (nbrs ?st1)(a := None)\<rparr> = st"
      using assms(2) by (intro enr_state.equality) (auto simp: nbr_fresh_def)
    then show ?thesis using row False
      by (simp add: pxEnrollmentCreateNeighInfo_def xEnrollmentAddNeighborEntry_def ADDRESS_WRONG_def)
  qed
qed

lemma find_mem: "List.find P xs = Some x \<Longrightarrow> x \<in> set xs"
  by (auto simp: find_Some_iff)

lemma neighbor_address:
  assumes "neighbor_table st as"
  shows "xEnrollmentGetNeighborAddress (Some k) st =
    Done (case List.find (\<lambda>a. name_of st a = cstring k) as of None \<Rightarrow> ADDRESS_WRONG
          | Some a \<Rightarrow> xNeighborAddress (the (nbrs st a)))"
proof -
  have l: "neighbor_loop (nbrs st) (Some k) (xNeighborsTable st) = Done (List.find (\<lambda>a. name_of st a = cstring k) as)"
    using find_neighbor [OF assms, of k] by (simp add: pxEnrollmentFindNeighbor_def)
  have "\<exists>n. nbrs st a = Some n" if "List.find (\<lambda>a. name_of st a = cstring k) as = Some a" for a
    using find_mem [OF that] assms by (auto simp: neighbor_table_def)
  then show ?thesis using l by (fastforce simp: xEnrollmentGetNeighborAddress_def split: option.split)
qed

lemma find_idx_append: "List.find P (xs @ [x]) = (case List.find P xs of None \<Rightarrow> if P x then Some x else None | Some y \<Rightarrow> Some y)"
  by (induction xs) auto

lemma find_cong: "(\<And>x. x \<in> set xs \<Longrightarrow> P x = Q x) \<Longrightarrow> List.find P xs = List.find Q xs"
  by (induction xs) auto

text \<open>The table as a register of names.\<close>

lemma nbr_find_table: "neighbor_table st as \<Longrightarrow> nbr_name k \<Longrightarrow> nbr_find st k = List.find (\<lambda>a. name_of st a = k) as"
  by (simp add: nbr_find_def find_neighbor nbr_name_def cstring_app)

lemma nbr_register_cases:
  assumes "neighbor_table st as" "nbr_name k" "nbr_fresh st a"
  shows "(length as < NEIGHBOR_TABLE_SIZE \<and> fst (nbr_register port a k st) \<and>
      neighbor_table (snd (nbr_register port a k st)) (as @ [a]) \<and> name_of (snd (nbr_register port a k st)) a = k \<and>
      (\<forall>b. b \<noteq> a \<longrightarrow> nbrs (snd (nbr_register port a k st)) b = nbrs st b)) \<or>
    (length as = NEIGHBOR_TABLE_SIZE \<and> nbr_register port a k st = (False, st))"
proof -
  obtain r st' where c: "pxEnrollmentCreateNeighInfo (Some a) True (Some (k @ [0])) port st = Done (r, st')"
    and d: "if length as < NEIGHBOR_TABLE_SIZE
      then r = Some a \<and> neighbor_table st' (as @ [a]) \<and> name_of st' a = cstring (k @ [0]) \<and>
        nbrs st' = (nbrs st)(a \<mapsto> \<lparr>eEnrollmentState = eENROLLMENT_NONE, pcApName = Some (cstring (k @ [0]) @ [0]),
          xN1Port = port, xNeighborAddress = ADDRESS_WRONG, pcToken = None\<rparr>)
      else r = None \<and> st' = st"
    using create_neighbor [OF assms(1,3), of "k @ [0]" port] by blast
  have "length as \<le> NEIGHBOR_TABLE_SIZE" using assms(1) by (auto simp: neighbor_table_def)
  then show ?thesis using c d assms(2)
    by (cases "length as < NEIGHBOR_TABLE_SIZE") (auto simp: nbr_register_def cstring_app nbr_name_def)
qed

lemma name_of_other: "nbrs st' b = nbrs st b \<Longrightarrow> name_of st' b = name_of st b"
  by (simp add: name_of_def)

lemma nbr_register_find:
  assumes "neighbors_ok st" "nbr_name k" "nbr_fresh st a"
  shows "nbr_find (snd (nbr_register port a k st)) j =
    (if fst (nbr_register port a k st) \<and> j = k \<and> nbr_find st k = None then Some a else nbr_find st j)"
proof -
  obtain as where as: "neighbor_table st as" using assms(1) by (auto simp: neighbors_ok_def)
  have new: "a \<notin> set as" using as assms(3) by (auto simp: neighbor_table_def nbr_fresh_def)
  let ?st = "snd (nbr_register port a k st)"
  show ?thesis
  proof (cases "length as < NEIGHBOR_TABLE_SIZE \<and> nbr_name j")
    case True
    then have t: "fst (nbr_register port a k st)" "neighbor_table ?st (as @ [a])" "name_of ?st a = k"
      "\<And>b. b \<noteq> a \<Longrightarrow> nbrs ?st b = nbrs st b"
      using nbr_register_cases [OF as assms(2,3), of port] by auto
    have "List.find (\<lambda>b. name_of ?st b = j) as = List.find (\<lambda>b. name_of st b = j) as"
      using new t(4) by (intro find_cong) (metis name_of_other)
    then show ?thesis using t as assms(2) True
      by (auto simp: nbr_find_table find_idx_append split: option.split)
  next
    case False
    then show ?thesis
      using nbr_register_cases [OF as assms(2,3), of port] assms(2) by (auto simp: nbr_find_def nbr_name_def)
  qed
qed

interpretation neighbors: first_register neighbors_ok nbr_find nbr_name nbr_fresh "nbr_register port"
  for port
proof
  fix s :: "'a enr_state_scheme" and k a b j
  assume ok: "neighbors_ok s" and k: "nbr_name k" and a: "nbr_fresh s a"
  then obtain as where as: "neighbor_table s as" by (auto simp: neighbors_ok_def)
  note c = nbr_register_cases [OF as k a, of port]
  show "neighbors_ok (snd (nbr_register port a k s))" using c ok by (auto simp: neighbors_ok_def)
  show "nbr_find (snd (nbr_register port a k s)) j =
      (if fst (nbr_register port a k s) \<and> j = k \<and> nbr_find s k = None then Some a else nbr_find s j)"
    by (rule nbr_register_find [OF ok k a])
  show "nbr_fresh (snd (nbr_register port a k s)) b" if "nbr_fresh s b" "b \<noteq> a"
    using c that by (auto simp: nbr_fresh_def)
qed

text \<open>C30. The table of neighbours serves the first who came: creating a neighbour registers it while there
  are fewer than five, with the address 255 that nothing ever changes, and is refused, with its memory
  given back, when there are five; afterwards every name leads to the neighbour it led to before, and
  the new name, if it led to none, to the new neighbour.\<close>
theorem neighbors_first_come:
  assumes "neighbor_table st as" "nbr_fresh st a" "0 \<notin> set k"
  shows "\<exists>r st'. pxEnrollmentCreateNeighInfo (Some a) True (Some (k @ [0])) port st = Done (r, st') \<and>
    (r = (if length as < NEIGHBOR_TABLE_SIZE then Some a else None)) \<and> (r = None \<longrightarrow> st' = st) \<and>
    (\<forall>j. 0 \<notin> set j \<longrightarrow>
      pxEnrollmentFindNeighbor (Some (j @ [0])) st' =
        (if r = Some a \<and> j = k \<and> pxEnrollmentFindNeighbor (Some (j @ [0])) st = Done None then Done (Some a)
         else pxEnrollmentFindNeighbor (Some (j @ [0])) st)) \<and>
    (r = Some a \<and> pxEnrollmentFindNeighbor (Some (k @ [0])) st = Done None \<longrightarrow>
      xEnrollmentGetNeighborAddress (Some (k @ [0])) st' = Done ADDRESS_WRONG)"
proof -
  have k: "nbr_name k" and ok: "neighbors_ok st" using assms by (auto simp: nbr_name_def neighbors_ok_def)
  obtain r st' where c: "pxEnrollmentCreateNeighInfo (Some a) True (Some (k @ [0])) port st = Done (r, st')"
    "if length as < NEIGHBOR_TABLE_SIZE
     then r = Some a \<and> neighbor_table st' (as @ [a]) \<and> name_of st' a = cstring (k @ [0]) \<and>
       nbrs st' = (nbrs st)(a \<mapsto> \<lparr>eEnrollmentState = eENROLLMENT_NONE, pcApName = Some (cstring (k @ [0]) @ [0]),
         xN1Port = port, xNeighborAddress = ADDRESS_WRONG, pcToken = None\<rparr>)
     else r = None \<and> st' = st"
    using create_neighbor [OF assms(1,2), of "k @ [0]" port] by blast
  then have reg: "nbr_register port a k st = (r \<noteq> None, st')" by (simp add: nbr_register_def)
  obtain bs where t': "neighbor_table st' bs" using c assms(1) by (auto split: if_splits)
  have find: "pxEnrollmentFindNeighbor (Some (j @ [0])) s = Done (nbr_find s j)"
    if "0 \<notin> set j" "neighbor_table s cs" for j s and cs :: "nat list"
    using find_neighbor [OF that(2), of "j @ [0]"] that(1) by (simp add: nbr_find_def)
  have f: "nbr_find st' j = (if r \<noteq> None \<and> j = k \<and> nbr_find st k = None then Some a else nbr_find st j)" for j
    using neighbors.find_register [OF ok k assms(2), of port j] reg by simp
  have adr: "xEnrollmentGetNeighborAddress (Some (k @ [0])) st' = Done ADDRESS_WRONG"
    if "r = Some a" "nbr_find st k = None"
    using neighbor_address [OF t', of "k @ [0]"] f [of k] nbr_find_table [OF t' k] that c assms(3)
    by (auto simp: cstring_app split: if_splits)
  show ?thesis
    using c(1) adr f find [OF _ assms(1)] find [OF _ t'] assms(3) c(2)
    by (intro exI [of _ r] exI [of _ st']) (auto split: if_splits)
qed

definition one_neighbor :: "rib_state \<Rightarrow> enr_state" where
  "one_neighbor r = rib_state.extend r (enr_state.fields (replicate 5 \<lparr>pxNeighborInfo = None, row_valid = False\<rparr>) (\<lambda>_. None) (\<lambda>_. None) [])"

lemma neighbors_first_come_witness:
  "\<exists>r st'. pxEnrollmentCreateNeighInfo (Some 7) True (Some [65, 0]) 3 (one_neighbor (rib_demo [] [])) = Done (r, st') \<and>
     pxEnrollmentFindNeighbor (Some [65, 0]) st' = Done (Some 7)"
proof -
  let ?st = "one_neighbor (rib_demo [] [])"
  have s: "xNeighborsTable ?st = replicate 5 \<lparr>pxNeighborInfo = None, row_valid = False\<rparr>" "nbrs ?st = (\<lambda>_. None)"
    by (simp_all add: one_neighbor_def rib_demo_def rib_state.defs enr_state.defs)
  have t: "neighbor_table ?st []" by (simp add: neighbor_table_def s NEIGHBOR_TABLE_SIZE_def)
  have f: "nbr_fresh ?st 7" by (simp add: nbr_fresh_def s)
  have n: "pxEnrollmentFindNeighbor (Some [65, 0]) ?st = Done None" using find_neighbor [OF t] by simp
  obtain r st' where c: "pxEnrollmentCreateNeighInfo (Some 7) True (Some ([65] @ [0])) 3 ?st = Done (r, st')" "r = Some 7"
    "\<forall>j. 0 \<notin> set j \<longrightarrow> pxEnrollmentFindNeighbor (Some (j @ [0])) st' =
      (if r = Some 7 \<and> j = [65] \<and> pxEnrollmentFindNeighbor (Some (j @ [0])) ?st = Done None then Done (Some 7)
       else pxEnrollmentFindNeighbor (Some (j @ [0])) ?st)"
    using neighbors_first_come [OF t f, of "[65]" 3] by (auto simp: NEIGHBOR_TABLE_SIZE_def)
  have "pxEnrollmentFindNeighbor (Some ([65] @ [0])) st' = Done (Some 7)"
    using c(3) [rule_format, of "[65]"] c(2) n by simp
  then show ?thesis using c(1) by simp
qed

section \<open>Sending\<close>

text \<open>An output that only adds to what was sent, in the extension of the state: \<open>out\<close> says how.\<close>

definition core :: "'a enr_state_scheme \<Rightarrow> _" where
  "core st = (xPendingReqs st, pxRibObjects st, rib_objs st, enr_data st, xDoLock st, xMutex st, xAppConnections st, invoke_id st)"

definition transmits :: "(cdap \<times> u32 \<Rightarrow> 'a \<Rightarrow> 'a) \<Rightarrow> 'a enr_state_scheme rib_env \<Rightarrow> bool" where
  "transmits out env =
    (\<forall>m p s. \<exists>s'. fnRibOutput env m p s = Done (None, s') \<and> core s' = core s \<and>
       enr_state.more s' = out (m, p) (enr_state.more s))"

abbreviation unlocked_rib :: "'a rib_state_scheme \<Rightarrow> bool" where "unlocked_rib st \<equiv> \<not> (xDoLock st \<and> xMutex st)"

lemma more_lock: "vRibLock st = Done st1 \<Longrightarrow> enr_state.more st1 = enr_state.more st"
  by (auto simp: vRibLock_def split: if_splits)

lemma more_unlock [simp]: "enr_state.more (vRibUnlock st) = enr_state.more st"
  by (simp add: vRibUnlock_def)

text \<open>Sending under the lock: the lock is free again, and nothing but the sent messages changed.\<close>

lemma core_locked_send:
  fixes st :: "'a enr_state_scheme"
  assumes "transmits out env" "unlocked_rib st" "vRibLock st = Done st1" "core s = core (st1\<lparr>invoke_id := n, xPendingReqs := qs\<rparr>)"
    "enr_state.more s = enr_state.more st1"
  shows "\<exists>s'. fnRibOutput env m p s = Done (None, s') \<and> core (vRibUnlock s') = core (st\<lparr>invoke_id := n, xPendingReqs := qs\<rparr>) \<and>
    enr_state.more (vRibUnlock s') = out (m, p) (enr_state.more st) \<and> unlocked_rib (vRibUnlock s')"
proof -
  obtain s' where s': "fnRibOutput env m p s = Done (None, s')" "core s' = core s" "enr_state.more s' = out (m, p) (enr_state.more s)"
    using assms(1) unfolding transmits_def by blast
  have "core (vRibUnlock s') = core (st\<lparr>invoke_id := n, xPendingReqs := qs\<rparr>)"
    using s'(2) assms(2-4) by (auto simp: core_def vRibUnlock_def vRibLock_def split: if_splits)
  moreover have "unlocked_rib (vRibUnlock s')" by (simp add: vRibUnlock_def)
  ultimately show ?thesis using s' assms(5) more_lock [OF assms(3)] by auto
qed

lemma reply_sends:
  fixes st :: "'a enr_state_scheme"
  assumes "transmits out env" "unlocked_rib st" "pxRibCdapMsgCreate ma = Some m0"
  shows "\<exists>m st'. xRibObjectReply env ma ob opc port iid rc re val st = Done (None, st') \<and> core st' = core st \<and>
    enr_state.more st' = out (m, port) (enr_state.more st) \<and> unlocked_rib st' \<and>
    pxRibCdapMsgCreateResponse ma (ucObjClass ob) (ucObjName ob) (ulObjInst ob) opc val rc re iid = Some m"
proof -
  obtain st1 where l: "vRibLock st = Done st1" using lock_free [OF assms(2)] by blast
  obtain m where m: "pxRibCdapMsgCreateResponse ma (ucObjClass ob) (ucObjName ob) (ulObjInst ob) opc val rc re iid = Some m"
    using response_made [of ma "ucObjClass ob" "ucObjName ob" "ulObjInst ob" opc val rc re iid] assms(3) by auto
  have c: "core st1 = core (st1\<lparr>invoke_id := invoke_id st1, xPendingReqs := xPendingReqs st1\<rparr>)"
    and s: "st\<lparr>invoke_id := invoke_id st1, xPendingReqs := xPendingReqs st1\<rparr> = st"
    using l by (auto simp: core_def vRibLock_def split: if_splits)
  from core_locked_send [OF assms(1,2) l c refl, of m port] obtain s' where
    "fnRibOutput env m port st1 = Done (None, s')" "core (vRibUnlock s') = core st"
    "enr_state.more (vRibUnlock s') = out (m, port) (enr_state.more st)" "unlocked_rib (vRibUnlock s')"
    unfolding s by blast
  then show ?thesis using m l by (auto simp: xRibObjectReply_def send_msg_def unlocked_def)
qed

lemma query_sends:
  fixes st :: "'a enr_state_scheme"
  assumes "transmits out env" "unlocked_rib st" "pxRibCdapMsgCreate ma = Some m0"
  shows "\<exists>m st'. xRibObjectQuery env ma ob opc port val RIB_QUERY_TYPE_CMD st = Done ((None, None), st') \<and>
    core st' = core (st\<lparr>invoke_id := snd (get_next_invoke_id (invoke_id st))\<rparr>) \<and>
    enr_state.more st' = out (m, port) (enr_state.more st) \<and> unlocked_rib st' \<and>
    eOpCode m = opc \<and> nInvokeID m = 0 \<and> pcObjName m = ucObjName ob \<and> pxObjValue m = val"
proof -
  obtain st1 where l: "vRibLock st = Done st1" using lock_free [OF assms(2)] by blast
  have s1: "xPendingReqs st1 = xPendingReqs st" "invoke_id st1 = invoke_id st"
    using l by (auto simp: vRibLock_def split: if_splits)
  let ?n = "snd (get_next_invoke_id (invoke_id st))" and ?iid = "fst (get_next_invoke_id (invoke_id st))"
  have id: "after_id st1 = (?iid, st1\<lparr>invoke_id := ?n\<rparr>)" by (simp add: after_id_def s1)
  obtain msg where m: "request_of ma ob opc val ?iid = Some msg" "eOpCode msg = opc" "pcObjName msg = ucObjName ob"
    "pxObjValue msg = val"
    using assms(3) by (auto simp: request_of_def pxRibCdapMsgCreateRequest_def)
  have c: "core (st1\<lparr>invoke_id := ?n\<rparr>) = core (st1\<lparr>invoke_id := ?n, xPendingReqs := xPendingReqs st\<rparr>)"
    and e: "enr_state.more (st1\<lparr>invoke_id := ?n\<rparr>) = enr_state.more st1"
    and k: "core (st\<lparr>invoke_id := ?n, xPendingReqs := xPendingReqs st\<rparr>) = core (st\<lparr>invoke_id := ?n\<rparr>)"
    using s1 by (simp_all add: core_def)
  from core_locked_send [OF assms(1,2) l c e, of "msg\<lparr>nInvokeID := 0\<rparr>" port] obtain s' where
    "fnRibOutput env (msg\<lparr>nInvokeID := 0\<rparr>) port (st1\<lparr>invoke_id := ?n\<rparr>) = Done (None, s')"
    "core (vRibUnlock s') = core (st\<lparr>invoke_id := ?n\<rparr>)"
    "enr_state.more (vRibUnlock s') = out (msg\<lparr>nInvokeID := 0\<rparr>, port) (enr_state.more st)" "unlocked_rib (vRibUnlock s')"
    unfolding k by blast
  then show ?thesis unfolding query_steps [OF l id m(1)] using m by (auto intro!: exI [of _ "msg\<lparr>nInvokeID := 0\<rparr>"])
qed

lemma tracked_query_sends:
  fixes st :: "'a enr_state_scheme"
  assumes "transmits out env" "unlocked_rib st" "pxRibCdapMsgCreate ma = Some m0"
    "find_idx (\<lambda>r. unInvokeID r = 0) (xPendingReqs st) = Some x" "iid = fst (get_next_invoke_id (invoke_id st))"
  shows "\<exists>m st'. xRibObjectQuery env ma ob opc port val RIB_QUERY_TYPE_SYNC st = Done ((Some iid, None), st') \<and>
    core st' = core (st\<lparr>invoke_id := snd (get_next_invoke_id (invoke_id st)),
      xPendingReqs := (xPendingReqs st)[x := \<lparr>unInvokeID = iid, eReqOpCode = opc, xRibResCb = None, pxResp = None,
        req_obj = ucObjName ob, req_locked = False\<rparr>]\<rparr>) \<and>
    enr_state.more st' = out (m, port) (enr_state.more st) \<and> unlocked_rib st' \<and>
    eOpCode m = opc \<and> nInvokeID m = iid \<and> pcObjName m = ucObjName ob \<and> pxObjValue m = val"
proof -
  obtain st1 where l: "vRibLock st = Done st1" using lock_free [OF assms(2)] by blast
  have s1: "xPendingReqs st1 = xPendingReqs st" "invoke_id st1 = invoke_id st"
    using l by (auto simp: vRibLock_def split: if_splits)
  let ?n = "snd (get_next_invoke_id (invoke_id st))"
  let ?q = "(xPendingReqs st)[x := \<lparr>unInvokeID = iid, eReqOpCode = opc, xRibResCb = None, pxResp = None,
    req_obj = ucObjName ob, req_locked = False\<rparr>]"
  have id: "after_id st1 = (iid, st1\<lparr>invoke_id := ?n\<rparr>)" by (simp add: after_id_def s1 assms(5))
  obtain msg where m: "request_of ma ob opc val iid = Some msg" "eOpCode msg = opc" "pcObjName msg = ucObjName ob"
    "pxObjValue msg = val" "nInvokeID msg = iid"
    using assms(3) by (auto simp: request_of_def pxRibCdapMsgCreateRequest_def)
  have a: "xRibAddPendingResponse (ucObjName ob) iid opc None (st1\<lparr>invoke_id := ?n\<rparr>) =
      (None, st1\<lparr>invoke_id := ?n, xPendingReqs := ?q\<rparr>)"
    using assms(4) s1 by (simp add: xRibAddPendingResponse_def)
  have e: "enr_state.more (st1\<lparr>invoke_id := ?n, xPendingReqs := ?q\<rparr>) = enr_state.more st1" by simp
  from core_locked_send [OF assms(1,2) l refl e, of msg port] obtain s' where
    "fnRibOutput env msg port (st1\<lparr>invoke_id := ?n, xPendingReqs := ?q\<rparr>) = Done (None, s')"
    "core (vRibUnlock s') = core (st\<lparr>invoke_id := ?n, xPendingReqs := ?q\<rparr>)"
    "enr_state.more (vRibUnlock s') = out (msg, port) (enr_state.more st)" "unlocked_rib (vRibUnlock s')" by blast
  then show ?thesis unfolding query_steps [OF l id m(1)] using m a
    by (auto simp: Let_def intro!: exI [of _ msg])
qed

section \<open>The inbound enrollment\<close>

text \<open>The object \<open>a\<close> is the registered enrollment object with the private data \<open>d\<close>.\<close>

definition enr_object :: "'a enr_state_scheme rib_env \<Rightarrow> nat \<Rightarrow> nat \<Rightarrow> enr_priv \<Rightarrow> rib_obj \<Rightarrow> 'a enr_state_scheme \<Rightarrow> bool" where
  "enr_object env junk a d ob st =
    (rep_method env FN_ENR_STOP_REPLY = prvEnrollmentObjectStopReply junk \<and> (\<exists>p. priv_of a st = Done (p, d)) \<and>
     enr_this d = a \<and> rib_objs st a = Some ob \<and> ucObjName ob = ucObjName xEnrollmentRibObject \<and>
     fnStopReply ob = Some FN_ENR_STOP_REPLY \<and> pxRibObjectFind (ucObjName xEnrollmentRibObject) st = Done (Some a))"

lemma enr_object_core: "core s = core (st\<lparr>invoke_id := n, xPendingReqs := qs\<rparr>) \<Longrightarrow> enr_object env junk a d ob s = enr_object env junk a d ob st"
  by (auto simp: enr_object_def core_def priv_of_def pxRibObjectFind_def)

lemma enr_object_priv: "enr_object env junk a d ob st \<Longrightarrow> \<exists>p. priv_of a st = Done (p, d)"
  by (simp add: enr_object_def)

definition next_id :: "u32 \<Rightarrow> u32" where "next_id n = snd (get_next_invoke_id n)"

definition made :: "msg_mem \<Rightarrow> bool" where "made ma = (pxRibCdapMsgCreate ma \<noteq> None)"

definition inbound_ready ::
  "(cdap \<times> u32 \<Rightarrow> 'a \<Rightarrow> 'a) \<Rightarrow> 'a enr_state_scheme rib_env \<Rightarrow> enr_codec \<Rightarrow> 'a enr_state_scheme inbound_env \<Rightarrow> nat
     \<Rightarrow> 'a enr_state_scheme \<Rightarrow> nat \<Rightarrow> u32 \<Rightarrow> bool" where
  "inbound_ready out env cd e junk st x stop =
    (transmits out env \<and> unlocked_rib st \<and> made (ma_start e) \<and> made (ma_create e) \<and> made (ma_stop e) \<and> made (ma_ops e) \<and>
     neigh_mem e \<and> enc_neighbors cd [local_neighbor] \<noteq> None \<and> clock_ok e \<and>
     find_idx (\<lambda>r. unInvokeID r = 0) (xPendingReqs st) = Some x \<and>
     stop = fst (get_next_invoke_id (next_id (invoke_id st))) \<and> (\<forall>r \<in> set (xPendingReqs st). unInvokeID r \<noteq> stop))"

definition stop_req :: "u32 \<Rightarrow> nat option \<Rightarrow> pending_req" where
  "stop_req stop r = \<lparr>unInvokeID = stop, eReqOpCode = M_STOP, xRibResCb = None, pxResp = r,
     req_obj = ucObjName xEnrollmentRibObject, req_locked = False\<rparr>"

text \<open>What is sent before the wait.\<close>

definition sent_before :: "enr_codec \<Rightarrow> enr_msg \<Rightarrow> enr_priv \<Rightarrow> u32 \<Rightarrow> cdap \<Rightarrow> cdap \<Rightarrow> cdap \<Rightarrow> bool" where
  "sent_before cd junk d stop m1 m2 m3 =
    (eOpCode m1 = M_START_R \<and> nInvokeID m1 = unStartInvokeId d \<and> pxObjValue m1 = enc_enrollment cd start_reply_msg \<and>
     pcObjName m1 = ucObjName xEnrollmentRibObject \<and>
     eOpCode m2 = M_CREATE \<and> nInvokeID m2 = 0 \<and> pcObjName m2 = ucObjName xEnrollmentNeighborsObject \<and>
     pxObjValue m2 = enc_neighbors cd [local_neighbor] \<and>
     eOpCode m3 = M_STOP \<and> nInvokeID m3 = stop \<and> pcObjName m3 = ucObjName xEnrollmentRibObject \<and>
     pxObjValue m3 = enc_enrollment cd (junk\<lparr>xStartEarly := False\<rparr>))"

definition inbound_rest ::
  "'a enr_state_scheme rib_env \<Rightarrow> 'a enr_state_scheme inbound_env \<Rightarrow> nat \<Rightarrow> u32 \<Rightarrow> 'a enr_state_scheme
     \<Rightarrow> (bool \<times> 'a enr_state_scheme) outcome" where
  "inbound_rest env e a stop st =
    obind (xRibObjectWaitReply (clock_ok e) (meanwhile e) (timed_out e) stop st) (\<lambda>((s4, resp), st4).
      if s4 = Some ERR_RIB_TIMEOUT then Done (False, st4)
      else
        obind (nStopReply (ptr_size e) (junk_reply e) resp) (\<lambda>r.
        if r \<noteq> 1 then Done (False, st4)
        else
          obind (priv_of a st4) (\<lambda>(p4, d4).
          obind (xRibObjectQuery env (ma_ops e) xOperationalStatus M_START (unPort_enr d4) None RIB_QUERY_TYPE_CMD st4)
            (\<lambda>((i5, s5), st5). Done (s5 = None, st5)))))"

lemma inbound_until_wait:
  fixes st :: "'a enr_state_scheme"
  assumes r: "inbound_ready out env cd e junk st x stop" and ob: "enr_object env junk a d ob st"
  shows "\<exists>m1 m2 m3 st3. xEnrollmentInboundProcess env cd e a st = inbound_rest env e a stop st3 \<and>
    sent_before cd (junk_stop e) d stop m1 m2 m3 \<and>
    enr_state.more st3 = fold out [(m1, unPort_enr d), (m2, unPort_enr d), (m3, unPort_enr d)] (enr_state.more st) \<and>
    xPendingReqs st3 = (xPendingReqs st)[x := stop_req stop None] \<and> unlocked_rib st3 \<and> enr_object env junk a d ob st3"
proof -
  have t: "transmits out env" "unlocked_rib st" "neigh_mem e" and x: "find_idx (\<lambda>r. unInvokeID r = 0) (xPendingReqs st) = Some x"
    and stop: "stop = fst (get_next_invoke_id (next_id (invoke_id st)))"
    using r by (simp_all add: inbound_ready_def)
  obtain k1 k2 k3 where ma: "pxRibCdapMsgCreate (ma_start e) = Some k1" "pxRibCdapMsgCreate (ma_create e) = Some k2"
    "pxRibCdapMsgCreate (ma_stop e) = Some k3" using r by (auto simp: inbound_ready_def made_def)
  obtain v where v: "enc_neighbors cd [local_neighbor] = Some v" using r by (auto simp: inbound_ready_def)
  have e0: "enr_this d = a" "rib_objs st a = Some ob" "ucObjName ob = ucObjName xEnrollmentRibObject"
    "\<exists>p. priv_of a st = Done (p, d)" using ob by (simp_all add: enr_object_def)
  obtain m1 st1 where 1: "xRibObjectReply env (ma_start e) ob M_START_R (unPort_enr d) (unStartInvokeId d) 0 None
      (enc_enrollment cd start_reply_msg) st = Done (None, st1)" "core st1 = core st"
    "enr_state.more st1 = out (m1, unPort_enr d) (enr_state.more st)" "unlocked_rib st1"
    "pxRibCdapMsgCreateResponse (ma_start e) (ucObjClass ob) (ucObjName ob) (ulObjInst ob) M_START_R
       (enc_enrollment cd start_reply_msg) 0 None (unStartInvokeId d) = Some m1"
    using reply_sends [OF t(1,2) ma(1), of ob M_START_R "unPort_enr d" "unStartInvokeId d" 0 None] by blast
  have m1: "eOpCode m1 = M_START_R" "nInvokeID m1 = unStartInvokeId d" "pxObjValue m1 = enc_enrollment cd start_reply_msg"
    "pcObjName m1 = ucObjName xEnrollmentRibObject"
    using 1(5) e0(3) by (auto simp: pxRibCdapMsgCreateResponse_def)
  have c1: "core st1 = core (st\<lparr>invoke_id := invoke_id st, xPendingReqs := xPendingReqs st\<rparr>)" using 1(2) by (simp add: core_def)
  have p1: "\<exists>p. priv_of a st1 = Done (p, d)" using ob enr_object_core [OF c1, of env junk a d ob] by (intro enr_object_priv) simp
  obtain m2 st2 where 2: "xRibObjectQuery env (ma_create e) xEnrollmentNeighborsObject M_CREATE (unPort_enr d) (Some v)
      RIB_QUERY_TYPE_CMD st1 = Done ((None, None), st2)" "core st2 = core (st1\<lparr>invoke_id := next_id (invoke_id st1)\<rparr>)"
    "enr_state.more st2 = out (m2, unPort_enr d) (enr_state.more st1)" "unlocked_rib st2"
    "eOpCode m2 = M_CREATE" "nInvokeID m2 = 0" "pcObjName m2 = ucObjName xEnrollmentNeighborsObject" "pxObjValue m2 = Some v"
    using query_sends [OF t(1) 1(4) ma(2), of xEnrollmentNeighborsObject M_CREATE "unPort_enr d" "Some v"] unfolding next_id_def by blast
  have c2: "core st2 = core (st\<lparr>invoke_id := next_id (invoke_id st), xPendingReqs := xPendingReqs st\<rparr>)"
    using 1(2) 2(2) by (simp add: core_def)
  have p2: "\<exists>p. priv_of a st2 = Done (p, d)" using ob enr_object_core [OF c2, of env junk a d ob] by (intro enr_object_priv) simp
  have s2: "xPendingReqs st2 = xPendingReqs st" "invoke_id st2 = next_id (invoke_id st)" using c2 by (simp_all add: core_def)
  obtain m3 st3 where 3: "xRibObjectQuery env (ma_stop e) xEnrollmentRibObject M_STOP (unPort_enr d)
      (enc_enrollment cd ((junk_stop e)\<lparr>xStartEarly := False\<rparr>)) RIB_QUERY_TYPE_SYNC st2 = Done ((Some stop, None), st3)"
    "core st3 = core (st2\<lparr>invoke_id := next_id (invoke_id st2), xPendingReqs := (xPendingReqs st)[x := stop_req stop None]\<rparr>)"
    "enr_state.more st3 = out (m3, unPort_enr d) (enr_state.more st2)" "unlocked_rib st3"
    "eOpCode m3 = M_STOP" "nInvokeID m3 = stop" "pcObjName m3 = ucObjName xEnrollmentRibObject"
    "pxObjValue m3 = enc_enrollment cd ((junk_stop e)\<lparr>xStartEarly := False\<rparr>)"
    using tracked_query_sends [OF t(1) 2(4) ma(3), of x stop xEnrollmentRibObject M_STOP "unPort_enr d"
        "enc_enrollment cd ((junk_stop e)\<lparr>xStartEarly := False\<rparr>)"] x s2 stop
    unfolding next_id_def stop_req_def by auto
  have c3: "core st3 = core (st\<lparr>invoke_id := next_id (invoke_id st2), xPendingReqs := (xPendingReqs st)[x := stop_req stop None]\<rparr>)"
    using c2 3(2) by (simp add: core_def)
  have "xEnrollmentInboundProcess env cd e a st = inbound_rest env e a stop st3"
    using e0 p1 p2 1(1) 2(1) 3(1) v t(3) by (auto simp: xEnrollmentInboundProcess_def inbound_rest_def)
  moreover have "sent_before cd (junk_stop e) d stop m1 m2 m3" using m1 2 3 v by (simp add: sent_before_def)
  moreover have "xPendingReqs st3 = (xPendingReqs st)[x := stop_req stop None]" using c3 by (simp add: core_def)
  ultimately show ?thesis using 1(3) 2(3) 3(3,4) ob enr_object_core [OF c3, of env junk a d ob]
    by (intro exI [of _ m1] exI [of _ m2] exI [of _ m3] exI [of _ st3]) simp
qed

text \<open>The reply to the stop request, handled by the daemon while the thread waits.\<close>

definition reply_meanwhile ::
  "'a enr_state_scheme rib_env \<Rightarrow> allocator \<Rightarrow> allocator \<Rightarrow> msg_mem \<Rightarrow> cdap \<Rightarrow> u32 \<Rightarrow> 'a enr_state_scheme \<Rightarrow> 'a enr_state_scheme" where
  "reply_meanwhile env al1 al2 ma msg port s =
    (case xRibNormalIncoming env al1 al2 ma msg port s of Done (e, s') \<Rightarrow> s' | _ \<Rightarrow> s)"

lemma stop_reply_stored:
  fixes s :: "'a enr_state_scheme"
  assumes "xPendingReqs s = qs[x := stop_req stop None]" "x < length qs" "\<forall>r \<in> set qs. unInvokeID r \<noteq> stop" "unlocked_rib s"
    "enr_object env junk a d ob s" "nInvokeID msg = stop" "eOpCode msg = M_STOP_R"
  shows "reply_meanwhile env al1 al2 ma msg port s = set_req x (pxResp_update (\<lambda>_. Some (stop_value junk))) s"
proof -
  have f: "find_idx (\<lambda>r. unInvokeID r = nInvokeID msg) (xPendingReqs s) = Some x"
    unfolding assms(1,6) by (rule pending_found [OF assms(2,3)]) (simp add: stop_req_def)
  have q: "xPendingReqs s ! x = stop_req stop None" using assms(1,2) by simp
  have o1: "pxRibObjectFind (req_obj (xPendingReqs s ! x)) s = Done (Some a)" "rib_objs s a = Some ob"
    "xRibGetObjectReplyMethod ob (eOpCode msg) = Done (Some FN_ENR_STOP_REPLY)"
    using assms(5,7) q by (simp_all add: enr_object_def stop_req_def xRibGetObjectReplyMethod_def opcodes)
  have m: "rep_method env FN_ENR_STOP_REPLY a (pxRibConnectionFind port s) msg s = Done ((None, Some (stop_value junk)), s)"
    using assms(5) by (simp add: enr_object_def prvEnrollmentObjectStopReply_def)
  show ?thesis using reply_handled [OF assms(4) f o1 m, of al1 al2 ma] q
    by (simp add: reply_meanwhile_def stop_req_def)
qed

lemma stop_reply_value: "word_of_nat (stop_value junk) = (1 :: u32)"
proof -
  have "word_of_nat (stop_value junk) = (word_of_nat 1 :: u32)"
    unfolding word_of_nat_eq_iff by (simp add: take_bit_eq_mod stop_value_def mod_Suc)
  then show ?thesis by simp
qed

text \<open>C10. The inbound enrollment: with the lock free, memory for its messages and an output that takes them,
  the thread sends the reply to the start request it was started for, a create command for its own
  neighbour entry and a tracked stop request, in this order and to the port it was started for, and
  waits.  When the stop reply arrives in time it ends, on a machine with pointers of 4 bytes, by
  starting the operational status of the peer; with pointers of 8 bytes it writes past its variable.
  When no reply arrives it gives up after the three messages, whatever happened meanwhile.\<close>
theorem inbound_enrollment:
  fixes st :: "'a enr_state_scheme"
  assumes "inbound_ready out env cd e junk st x stop" "enr_object env junk a d ob st"
    "nInvokeID msg = stop" "eOpCode msg = M_STOP_R"
  shows "\<exists>m1 m2 m3. sent_before cd (junk_stop e) d stop m1 m2 m3 \<and>
    (meanwhile e = reply_meanwhile env al1 al2 ma msg port \<and> \<not> timed_out e \<longrightarrow>
      (ptr_size e = 4 \<longrightarrow>
        (\<exists>m4 st'. xEnrollmentInboundProcess env cd e a st = Done (True, st') \<and>
          eOpCode m4 = M_START \<and> nInvokeID m4 = 0 \<and> pcObjName m4 = ucObjName xOperationalStatus \<and>
          enr_state.more st' = fold out [(m1, unPort_enr d), (m2, unPort_enr d), (m3, unPort_enr d), (m4, unPort_enr d)]
            (enr_state.more st))) \<and>
      (ptr_size e = 8 \<longrightarrow> xEnrollmentInboundProcess env cd e a st = Crash)) \<and>
    (timed_out e \<and> (\<forall>s. enr_state.more (meanwhile e s) = enr_state.more s) \<longrightarrow>
      (\<exists>st'. xEnrollmentInboundProcess env cd e a st = Done (False, st') \<and>
        enr_state.more st' = fold out [(m1, unPort_enr d), (m2, unPort_enr d), (m3, unPort_enr d)] (enr_state.more st)))"
proof -
  have x: "x < length (xPendingReqs st)" "\<forall>r \<in> set (xPendingReqs st). unInvokeID r \<noteq> stop" "clock_ok e" "transmits out env"
    using assms(1) by (auto simp: inbound_ready_def find_idx_Some)
  obtain k4 where k4: "pxRibCdapMsgCreate (ma_ops e) = Some k4" using assms(1) by (auto simp: inbound_ready_def made_def)
  obtain m1 m2 m3 s where s: "xEnrollmentInboundProcess env cd e a st = inbound_rest env e a stop s"
    "sent_before cd (junk_stop e) d stop m1 m2 m3"
    "enr_state.more s = fold out [(m1, unPort_enr d), (m2, unPort_enr d), (m3, unPort_enr d)] (enr_state.more st)"
    "xPendingReqs s = (xPendingReqs st)[x := stop_req stop None]" "unlocked_rib s" "enr_object env junk a d ob s"
    using inbound_until_wait [OF assms(1,2)] by blast
  have f: "xRibFindPendingResponse stop s = Done (Some x, s)"
    using find_pending [OF s(5), of stop] pending_found [OF x(1,2), of "stop_req stop None"] s(4) by (simp add: stop_req_def)
  have q: "xPendingReqs s ! x = stop_req stop None" using s(4) x(1) by simp
  have wait: "xRibObjectWaitReply True (meanwhile e) (timed_out e) stop s =
      (if timed_out e then Done ((Some ERR_RIB_TIMEOUT, None), set_req x (req_locked_update (\<lambda>_. True)) (meanwhile e s))
       else Done ((None, Some (pxResp (xPendingReqs (meanwhile e s) ! x))), meanwhile e s))"
    using f q by (simp add: xRibObjectWaitReply_def stop_req_def Let_def)
  let ?s4 = "set_req x (pxResp_update (\<lambda>_. Some (stop_value junk))) s"
  have r: "meanwhile e s = ?s4" "pxResp (xPendingReqs ?s4 ! x) = Some (stop_value junk)"
    if "meanwhile e = reply_meanwhile env al1 al2 ma msg port"
    using stop_reply_stored [OF s(4) x(1,2) s(5,6) assms(3,4), of al1 al2 ma port] that s(4) x(1) by (simp_all add: set_req_def)
  have p: "\<exists>p. priv_of a ?s4 = Done (p, d)" "unlocked_rib ?s4" "enr_state.more ?s4 = enr_state.more s"
    using enr_object_priv [OF s(6)] s(5) by (auto simp: priv_of_def set_req_def)
  obtain m4 s5 where m4: "xRibObjectQuery env (ma_ops e) xOperationalStatus M_START (unPort_enr d) None RIB_QUERY_TYPE_CMD ?s4 =
      Done ((None, None), s5)" "enr_state.more s5 = out (m4, unPort_enr d) (enr_state.more ?s4)"
    "eOpCode m4 = M_START" "nInvokeID m4 = 0" "pcObjName m4 = ucObjName xOperationalStatus"
    using query_sends [OF x(4) p(2) k4] by blast
  have stays: "xEnrollmentInboundProcess env cd e a st =
      obind (nStopReply (ptr_size e) (junk_reply e) (Some (Some (stop_value junk)))) (\<lambda>r. if r \<noteq> 1 then Done (False, ?s4) else Done (True, s5))"
    if "meanwhile e = reply_meanwhile env al1 al2 ma msg port" "\<not> timed_out e"
  proof -
    have "xRibObjectWaitReply True (meanwhile e) (timed_out e) stop s = Done ((None, Some (Some (stop_value junk))), ?s4)"
      using wait r [OF that(1)] that(2) by simp
    moreover obtain p where "priv_of a ?s4 = Done (p, d)" using p(1) by blast
    ultimately show ?thesis unfolding s(1) inbound_rest_def using x(3) m4(1) by (simp cong: if_cong)
  qed
  have four: "\<exists>st'. xEnrollmentInboundProcess env cd e a st = Done (True, st') \<and>
      enr_state.more st' = fold out [(m1, unPort_enr d), (m2, unPort_enr d), (m3, unPort_enr d), (m4, unPort_enr d)] (enr_state.more st)"
    if "meanwhile e = reply_meanwhile env al1 al2 ma msg port" "\<not> timed_out e" "ptr_size e = 4"
    unfolding stays [OF that(1,2)] nStopReply_def using that(3) m4(2) p(3) s(3) stop_reply_value [of junk] by simp
  have eight: "xEnrollmentInboundProcess env cd e a st = Crash"
    if "meanwhile e = reply_meanwhile env al1 al2 ma msg port" "\<not> timed_out e" "ptr_size e = 8"
    unfolding stays [OF that(1,2)] nStopReply_def using that(3) by simp
  have late: "\<exists>st'. xEnrollmentInboundProcess env cd e a st = Done (False, st') \<and>
      enr_state.more st' = fold out [(m1, unPort_enr d), (m2, unPort_enr d), (m3, unPort_enr d)] (enr_state.more st)"
    if "timed_out e" "\<forall>s. enr_state.more (meanwhile e s) = enr_state.more s"
    using s(1,3) wait x(3) that by (simp add: inbound_rest_def set_req_def)
  show ?thesis
    using s(2) four eight late m4(3-5)
    by (intro exI [of _ m1] exI [of _ m2] exI [of _ m3]) blast
qed

section \<open>The start requests\<close>

lemma incoming_request:
  assumes "eOpCode msg = M_START" "pxRibObjectFind (pcObjName msg) st = Done (Some a)" "rib_objs st a = Some ob"
    "fnStart ob = Some f"
  shows "xRibNormalIncoming env al1 al2 ma msg port st =
    obind (req_method env f a (pxRibConnectionFind port st) msg st) (\<lambda>(e, s). Done (None, s))"
  using assms
  by (simp add: xRibNormalIncoming_def Let_def prvRibHandleAnyRequest_def xRibGetObjectMethod_def opcodes)

text \<open>The start requests of enrollment: without an application connection on its port either of them goes
  through a null pointer.  On a connected port the request on the enrollment object starts one thread,
  for this port and this invoke id, whatever enrollment is already under way, and overwrites theirs; the
  request on the operational status, as long as no neighbour of the connection's destination is
  registered (which nothing in the program does), changes nothing and sends no reply.\<close>
theorem enrollment_start:
  fixes st :: "'a enr_state_scheme"
  assumes "eOpCode msg = M_START" "pxRibObjectFind (pcObjName msg) st = Done (Some a)" "rib_objs st a = Some ob"
    "priv_of a st = Done (p, d) \<and> fnStart ob = Some FN_ENR_START \<or> fnStart ob = Some FN_OPS_START"
  shows "(pxRibConnectionFind port st = None \<longrightarrow>
      xRibNormalIncoming (enrollment_env thr junk ma cd mem pmem env) al1 al2 ma' msg port st = Crash) \<and>
    (\<forall>x. pxRibConnectionFind port st = Some x \<longrightarrow>
      (fnStart ob = Some FN_ENR_START \<and> thr = (True, True, True) \<longrightarrow>
        xRibNormalIncoming (enrollment_env thr junk ma cd mem pmem env) al1 al2 ma' msg port st =
          Done (None, st\<lparr>enr_data := (enr_data st)(p \<mapsto> d\<lparr>unPort_enr := port, unStartInvokeId := nInvokeID msg\<rparr>),
            enr_threads := enr_threads st @ [a]\<rparr>)) \<and>
      (fnStart ob = Some FN_OPS_START \<and>
        pxEnrollmentFindNeighbor (Some (pcProcessName (xDestinationInfo (xAppConnections st ! x)))) st = Done None \<longrightarrow>
        xRibNormalIncoming (enrollment_env thr junk ma cd mem pmem env) al1 al2 ma' msg port st = Done (None, st)))"
proof -
  let ?env = "enrollment_env thr junk ma cd mem pmem env"
  obtain f where f: "fnStart ob = Some f" "f = FN_ENR_START \<and> priv_of a st = Done (p, d) \<or> f = FN_OPS_START"
    using assms(4) by blast
  have ne: "FN_OPS_START \<noteq> FN_ENR_START" "FN_OPS_START \<noteq> FN_ENR_STOP" by (simp_all add: enr_consts)
  have m: "req_method (enrollment_env t junk ma cd mem pmem env) FN_ENR_START =
      prvEnrollmentObjectStart (fst t) (fst (snd t)) (snd (snd t))"
    "req_method (enrollment_env t junk ma cd mem pmem env) FN_OPS_START = prvEnrollmentHandleOperationalStart env ma cd mem" for t
    by (simp_all add: enrollment_env_def enr_consts)
  have c: "con_of (Some x) st = Done (xAppConnections st ! x)" "con_port (xAppConnections st ! x) = port"
    if "pxRibConnectionFind port st = Some x" for x
    using that by (auto simp: con_of_def pxRibConnectionFind_def find_idx_Some)
  show ?thesis
    unfolding incoming_request [OF assms(1-3) f(1), of ?env al1 al2 ma' port]
    using f ne c by (auto simp: m prvEnrollmentObjectStart_def prvEnrollmentHandleOperationalStart_def con_of_def [of None])
qed

section \<open>A daemon with the enrollment objects\<close>

definition enr_demo :: "enr_state" where
  "enr_demo = (one_neighbor (rib_demo [con_on 7] (replicate 10 zero_req)))
    \<lparr>pxRibObjects := [Some ENR_OBJ], rib_objs := [ENR_OBJ \<mapsto> xEnrollmentRibObject\<lparr>pvPriv := Some 9\<rparr>],
     enr_data := [9 \<mapsto> \<lparr>enr_ribd = True, enr_this = ENR_OBJ, unPort_enr = 7, unStartInvokeId = 4\<rparr>]\<rparr>"

lemma enr_demo_simps [simp]: "xPendingReqs enr_demo = replicate 10 zero_req" "pxRibObjects enr_demo = [Some ENR_OBJ]"
  "rib_objs enr_demo = [ENR_OBJ \<mapsto> xEnrollmentRibObject\<lparr>pvPriv := Some 9\<rparr>]" "xAppConnections enr_demo = [con_on 7]"
  "enr_data enr_demo = [9 \<mapsto> \<lparr>enr_ribd = True, enr_this = ENR_OBJ, unPort_enr = 7, unStartInvokeId = 4\<rparr>]"
  "xDoLock enr_demo" "\<not> xMutex enr_demo" "invoke_id enr_demo = 1"
  by (simp_all add: enr_demo_def one_neighbor_def rib_demo_def rib_state.defs enr_state.defs)

lemma enr_demo_priv: "priv_of ENR_OBJ enr_demo = Done (9, \<lparr>enr_ribd = True, enr_this = ENR_OBJ, unPort_enr = 7, unStartInvokeId = 4\<rparr>)"
  by (simp add: priv_of_def)

lemma enr_demo_find: "pxRibObjectFind (ucObjName xEnrollmentRibObject) enr_demo = Done (Some ENR_OBJ)"
  by (simp add: pxRibObjectFind_def same_string_def xEnrollmentRibObject_def)

definition plain_codec :: enr_codec where
  "plain_codec = \<lparr>enc_enrollment = (\<lambda>_. Some []), enc_neighbor = (\<lambda>_. Some []), enc_neighbors = (\<lambda>_. Some [1])\<rparr>"

definition demo_env :: "enr_state rib_env" where
  "demo_env = enrollment_env (True, True, True) 0 None plain_codec None None quiet_env"

definition demo_inbound :: "enr_state inbound_env" where
  "demo_inbound = \<lparr>ma_start = Some zero_heap, ma_create = Some zero_heap, ma_stop = Some zero_heap, ma_ops = Some zero_heap,
     neigh_mem = True, junk_stop = start_reply_msg, clock_ok = True,
     meanwhile = reply_meanwhile demo_env zero_heap zero_heap None (msg_of M_STOP_R 2) 7, timed_out = False,
     junk_reply = 0, ptr_size = 4\<rparr>"

lemma inbound_enrollment_witness:
  "\<exists>st'. xEnrollmentInboundProcess demo_env plain_codec demo_inbound ENR_OBJ enr_demo = Done (True, st')"
proof -
  have out: "transmits (\<lambda>_ x. x) demo_env"
    by (simp add: transmits_def demo_env_def enrollment_env_def quiet_env_def)
  have "inbound_ready (\<lambda>_ x. x) demo_env plain_codec demo_inbound 0 enr_demo 0 2"
    using out message_made
    by (auto simp: inbound_ready_def made_def demo_inbound_def plain_codec_def find_idx_replicate zero_req_def
        next_id_def get_next_invoke_id_def)
  moreover have "enr_object demo_env 0 ENR_OBJ \<lparr>enr_ribd = True, enr_this = ENR_OBJ, unPort_enr = 7, unStartInvokeId = 4\<rparr>
      (xEnrollmentRibObject\<lparr>pvPriv := Some 9\<rparr>) enr_demo"
    using enr_demo_priv enr_demo_find
    by (simp add: enr_object_def demo_env_def enrollment_env_def xEnrollmentRibObject_def enr_consts)
  moreover have "nInvokeID (msg_of M_STOP_R 2) = 2" "eOpCode (msg_of M_STOP_R 2) = M_STOP_R" by simp_all
  ultimately obtain m1 m2 m3 where
    "meanwhile demo_inbound = reply_meanwhile demo_env zero_heap zero_heap None (msg_of M_STOP_R 2) 7 \<and> \<not> timed_out demo_inbound \<longrightarrow>
      (ptr_size demo_inbound = 4 \<longrightarrow> (\<exists>m4 st'. xEnrollmentInboundProcess demo_env plain_codec demo_inbound ENR_OBJ enr_demo = Done (True, st')))"
    using inbound_enrollment by blast
  then show ?thesis by (auto simp: demo_inbound_def)
qed

end
