(* ===== verification/Queues.thy ===== *)
theory Queues
  imports Rsrc Rs_Error "HOL-Library.Multiset"
begin

text \<open>The queue between tasks (\<^verbatim>\<open>common/queue.c\<close>, with the semaphores of \<^verbatim>\<open>posix_rssem.c\<close>) and the
  simple queue (\<^verbatim>\<open>common/simple_queue.c\<close>).  The list of a queue is the sequence of the addresses of
  its items, as the operations of the list theory keep it.  An operation is cut where another
  task may run; the interleavings of the parts are a step relation.\<close>

section \<open>State\<close>

text \<open>The mutex is recursive: its owner and how often it took it.  A semaphore is \<open>None\<close> until it
  is initialised.  The mutex also guards the pool of the items, which it was given to.\<close>

record queue =
  xQueueList :: "nat list"
  xItemBuf :: "nat \<Rightarrow> bytes option"
  xPool :: nat
  q_rsrc :: rsrc_state
  xSemItems :: "nat option"
  xSemPlaces :: "nat option"
  q_mutex :: "(nat \<times> nat) option"
  unMaxItemCount :: u64
  xBlock :: bool
  unItemSz :: u64

definition QUEUE_ITEM_HDR :: u64 where "QUEUE_ITEM_HDR = 32"

definition q_lock :: "nat \<Rightarrow> queue \<Rightarrow> queue outcome" where
  "q_lock t q =
    (case q_mutex q of
       None \<Rightarrow> Done (q\<lparr>q_mutex := Some (t, 1)\<rparr>)
     | Some (u, n) \<Rightarrow> if u = t then Done (q\<lparr>q_mutex := Some (u, n + 1)\<rparr>) else Blocked)"

definition q_unlock :: "queue \<Rightarrow> queue" where
  "q_unlock q =
    q\<lparr>q_mutex := (case q_mutex q of None \<Rightarrow> None | Some (u, n) \<Rightarrow> if n \<le> 1 then None else Some (u, n - 1))\<rparr>"

definition of_run :: "'a run \<Rightarrow> 'a outcome" where
  "of_run r = (case r of Ret x \<Rightarrow> Done x | _ \<Rightarrow> Crash)"

lemma of_run_simps [simp]: "of_run (Ret x) = Done x" "of_run Abort = Crash" "of_run Undef = Crash"
  by (simp_all add: of_run_def)

section \<open>Semaphores\<close>

text \<open>\<^verbatim>\<open>sem_init\<close> takes an \<^verbatim>\<open>unsigned int\<close> and refuses values above \<^verbatim>\<open>SEM_VALUE_MAX\<close>.  Posting counts without that
  limit, which no queue of the program comes near.\<close>

definition SEM_VALUE_MAX :: nat where "SEM_VALUE_MAX = 2147483647"

definition xRsSemInit :: "u64 \<Rightarrow> nat option" where
  "xRsSemInit n = (let k = unat (ucast n :: u32) in if SEM_VALUE_MAX < k then None else Some k)"

definition xRsSemPost :: "nat option \<Rightarrow> nat option outcome" where
  "xRsSemPost s = (case s of None \<Rightarrow> Crash | Some n \<Rightarrow> Done (Some (n + 1)))"

definition xRsSemWait :: "nat option \<Rightarrow> nat option outcome" where
  "xRsSemWait s = (case s of None \<Rightarrow> Crash | Some n \<Rightarrow> if n = 0 then Blocked else Done (Some (n - 1)))"

text \<open>The outcome of a wait with a limit of time, when nobody posts before that time.\<close>

definition xRsSemTimedWait :: "nat option \<Rightarrow> (status \<times> nat option) outcome" where
  "xRsSemTimedWait s =
    (case s of None \<Rightarrow> Crash | Some n \<Rightarrow> Done (if n = 0 then (Some ERR_TIMEDOUT, s) else (None, Some (n - 1))))"

text \<open>A time-out of zero is a wait without end.\<close>

definition sem_take :: "u32 \<Rightarrow> nat option \<Rightarrow> (status \<times> nat option) outcome" where
  "sem_take tmo s = (if tmo = 0 then obind (xRsSemWait s) (\<lambda>s1. Done (None, s1)) else xRsSemTimedWait s)"

section \<open>Making a queue\<close>

text \<open>\<open>mx\<close> is what \<^verbatim>\<open>pthread_mutex_init\<close> returns.\<close>

definition xRsQueueInit ::
  "string option \<Rightarrow> u64 \<Rightarrow> bool \<Rightarrow> u64 \<Rightarrow> heap \<Rightarrow> heap \<Rightarrow> heap \<Rightarrow> nat \<Rightarrow> rsrc_state \<Rightarrow> (status \<times> queue option) outcome" where
  "xRsQueueInit nm mx_items block sz ha1 ha2 ha3 mx st =
    obind (of_run (pxRsrcNewPool nm (QUEUE_ITEM_HDR + sz) 0 1 (ucast mx_items) ha1 ha2 ha3 st)) (\<lambda>(p, st1).
      case p of None \<Rightarrow> Done (Some ERR_OOM, None)
      | Some p \<Rightarrow>
          if mx \<noteq> 0 then Done (Some ERR_PTHREAD, None)
          else if block \<and> mx_items \<noteq> 0 \<and> xRsSemInit mx_items = None then Done (Some ERR_ERR, None)
          else Done (None, Some
            \<lparr>xQueueList = [], xItemBuf = (\<lambda>_. None), xPool = p, q_rsrc = st1,
             xSemItems = (if block then xRsSemInit 0 else None),
             xSemPlaces = (if block \<and> mx_items \<noteq> 0 then xRsSemInit mx_items else None),
             q_mutex = None, unMaxItemCount = mx_items, xBlock = block, unItemSz = sz\<rparr>))"

section \<open>Sending\<close>

text \<open>\<open>FAIL\<close>, the generic error, is what the waits turn every failure into.\<close>

definition failed :: "status \<Rightarrow> status" where
  "failed s = (if s = None then None else Some ERR_ERR)"

definition send_place :: "u32 \<Rightarrow> queue \<Rightarrow> (status \<times> queue) outcome" where
  "send_place tmo q =
    (if unMaxItemCount q = 0 then Done (None, q)
     else if xBlock q then obind (sem_take tmo (xSemPlaces q)) (\<lambda>(s, n). Done (failed s, q\<lparr>xSemPlaces := n\<rparr>))
     else if of_nat (length (xQueueList q)) = unMaxItemCount q then Done (Some ERR_OVERFLOW, q)
     else Done (None, q))"

definition send_alloc :: "nat \<Rightarrow> heap \<Rightarrow> queue \<Rightarrow> (nat option \<times> queue) outcome" where
  "send_alloc t ha q =
    obind (q_lock t q) (\<lambda>q1.
    obind (of_run (pxRsrcAlloc (Some (xPool q1)) (Some ''prvQueueSendToBack'') ha (q_rsrc q1))) (\<lambda>(a, st).
      Done (a, q_unlock (q1\<lparr>q_rsrc := st\<rparr>))))"

definition send_put :: "nat \<Rightarrow> nat \<Rightarrow> bytes \<Rightarrow> queue \<Rightarrow> queue outcome" where
  "send_put t a item q =
    obind (q_lock t q) (\<lambda>q1.
      if length item < unat (unItemSz q1) then Crash
      else Done (q_unlock (q1\<lparr>xItemBuf := (xItemBuf q1)(a \<mapsto> take (unat (unItemSz q1)) item),
                             xQueueList := xQueueList q1 @ [a]\<rparr>)))"

definition send_post :: "queue \<Rightarrow> queue outcome" where
  "send_post q = (if xBlock q then obind (xRsSemPost (xSemItems q)) (\<lambda>n. Done (q\<lparr>xSemItems := n\<rparr>)) else Done q)"

definition prvQueueSendToBack ::
  "nat \<Rightarrow> heap \<Rightarrow> u32 \<Rightarrow> bytes \<Rightarrow> queue \<Rightarrow> (status \<times> queue) outcome" where
  "prvQueueSendToBack t ha tmo item q =
    obind (send_place tmo q) (\<lambda>(s, q1).
      if s \<noteq> None then Done (s, q1)
      else
        obind (send_alloc t ha q1) (\<lambda>(a, q2).
          case a of None \<Rightarrow> Done (Some ERR_OOM, q2)
          | Some a \<Rightarrow>
              obind (send_put t a item q2) (\<lambda>q3.
              obind (send_post q3) (\<lambda>q4. Done (None, q4)))))"

section \<open>Receiving\<close>

definition recv_item :: "u32 \<Rightarrow> queue \<Rightarrow> (status \<times> queue) outcome" where
  "recv_item tmo q =
    (if xBlock q then obind (sem_take tmo (xSemItems q)) (\<lambda>(s, n). Done (failed s, q\<lparr>xSemItems := n\<rparr>))
     else Done (None, q))"

definition recv_take :: "nat \<Rightarrow> queue \<Rightarrow> ((nat \<times> bytes) option \<times> queue) outcome" where
  "recv_take t q =
    obind (q_lock t q) (\<lambda>q1.
      case xQueueList q1 of [] \<Rightarrow> Done (None, q_unlock q1)
      | a # rest \<Rightarrow>
          obind (or_crash (xItemBuf q1 a)) (\<lambda>b. Done (Some (a, b), q_unlock (q1\<lparr>xQueueList := rest\<rparr>))))"

definition recv_post :: "queue \<Rightarrow> queue outcome" where
  "recv_post q = (if xBlock q then obind (xRsSemPost (xSemPlaces q)) (\<lambda>n. Done (q\<lparr>xSemPlaces := n\<rparr>)) else Done q)"

definition recv_free :: "nat \<Rightarrow> nat \<Rightarrow> queue \<Rightarrow> queue outcome" where
  "recv_free t a q =
    obind (q_lock t q) (\<lambda>q1.
    obind (of_run (vRsrcFree (Some a) (q_rsrc q1))) (\<lambda>st.
      Done (q_unlock (q1\<lparr>q_rsrc := st, xItemBuf := (xItemBuf q1)(a := None)\<rparr>))))"

definition prvQueueReceive :: "nat \<Rightarrow> u32 \<Rightarrow> queue \<Rightarrow> (status \<times> bytes option \<times> queue) outcome" where
  "prvQueueReceive t tmo q =
    obind (recv_item tmo q) (\<lambda>(s, q1).
      if s \<noteq> None then Done (s, None, q1)
      else
        obind (recv_take t q1) (\<lambda>(r, q2).
          case r of None \<Rightarrow> Done (Some ERR_UNDERFLOW, None, q2)
          | Some (a, b) \<Rightarrow>
              obind (recv_post q2) (\<lambda>q3.
              obind (recv_free t a q3) (\<lambda>q4. Done (None, Some b, q4)))))"

section \<open>The public operations\<close>

definition xRsQueueSendToBackWait where
  "xRsQueueSendToBackWait t ha item q = prvQueueSendToBack t ha 0 item q"

definition xRsQueueSendToBackTimed where
  "xRsQueueSendToBackTimed t ha item tmo q = prvQueueSendToBack t ha tmo item q"

definition xRsQueueReceiveWait where
  "xRsQueueReceiveWait t q = prvQueueReceive t 0 q"

definition xRsQueueReceiveTimed where
  "xRsQueueReceiveTimed t tmo q = prvQueueReceive t tmo q"

definition q_full :: "queue \<Rightarrow> bool" where
  "q_full q = (unMaxItemCount q \<noteq> 0 \<and> of_nat (length (xQueueList q)) = unMaxItemCount q)"

text \<open>The two calls that do not wait hold the mutex around the call that does.\<close>

definition xRsQueueSendToBack :: "nat \<Rightarrow> heap \<Rightarrow> bytes \<Rightarrow> queue \<Rightarrow> (status \<times> queue) outcome" where
  "xRsQueueSendToBack t ha item q =
    obind (q_lock t q) (\<lambda>q1.
    obind (if q_full q1 then Done (Some ERR_OVERFLOW, q1) else prvQueueSendToBack t ha 0 item q1) (\<lambda>(s, q2).
      Done (s, q_unlock q2)))"

definition xRsQueueReceive :: "nat \<Rightarrow> queue \<Rightarrow> (status \<times> bytes option \<times> queue) outcome" where
  "xRsQueueReceive t q =
    obind (q_lock t q) (\<lambda>q1.
    obind (if xQueueList q1 = [] then Done (Some ERR_UNDERFLOW, None, q1) else prvQueueReceive t 0 q1) (\<lambda>(s, b, q2).
      Done (s, b, q_unlock q2)))"

section \<open>Tasks that share a queue\<close>

text \<open>Where a task is in a call.  The flag tells whether it is inside of one of the two calls that
  hold the mutex; \<open>Leave\<close> is the release of that mutex.\<close>

datatype q_pc =
    Idle
  | SPlace u32 bytes bool | SAlloc bytes bool | SPut nat bytes bool | SPost bool
  | RItem u32 bool | RTake bool | RPost nat bool | RFree nat bool
  | Leave

datatype q_call = SendTimed u32 bytes | Send bytes | ReceiveTimed u32 | Receive

text \<open>\<open>q_put\<close> and \<open>q_got\<close> are what was copied into and out of the queue, in order.\<close>

record q_conf =
  q_que :: queue
  q_pcs :: "q_pc list"
  q_put :: "bytes list"
  q_got :: "bytes list"

definition leaving :: "bool \<Rightarrow> q_pc" where
  "leaving nb = (if nb then Leave else Idle)"

fun q_start :: "nat \<Rightarrow> q_call \<Rightarrow> queue \<Rightarrow> (q_pc \<times> queue) outcome" where
  "q_start t (SendTimed tmo item) q = Done (SPlace tmo item False, q)"
| "q_start t (Send item) q =
    obind (q_lock t q) (\<lambda>q1. Done (if q_full q1 then Leave else SPlace 0 item True, q1))"
| "q_start t (ReceiveTimed tmo) q = Done (RItem tmo False, q)"
| "q_start t Receive q =
    obind (q_lock t q) (\<lambda>q1. Done (if xQueueList q1 = [] then Leave else RItem 0 True, q1))"

fun q_local :: "nat \<Rightarrow> heap \<Rightarrow> q_pc \<Rightarrow> queue \<Rightarrow> (q_pc \<times> bytes list \<times> bytes list \<times> queue) outcome" where
  "q_local t ha Idle q = Blocked"
| "q_local t ha (SPlace tmo item nb) q =
    obind (send_place tmo q) (\<lambda>(s, q1). Done (if s = None then SAlloc item nb else leaving nb, [], [], q1))"
| "q_local t ha (SAlloc item nb) q =
    obind (send_alloc t ha q) (\<lambda>(a, q1).
      Done (case a of None \<Rightarrow> leaving nb | Some a \<Rightarrow> SPut a item nb, [], [], q1))"
| "q_local t ha (SPut a item nb) q =
    obind (send_put t a item q) (\<lambda>q1. Done (SPost nb, [item], [], q1))"
| "q_local t ha (SPost nb) q = obind (send_post q) (\<lambda>q1. Done (leaving nb, [], [], q1))"
| "q_local t ha (RItem tmo nb) q =
    obind (recv_item tmo q) (\<lambda>(s, q1). Done (if s = None then RTake nb else leaving nb, [], [], q1))"
| "q_local t ha (RTake nb) q =
    obind (recv_take t q) (\<lambda>(r, q1).
      Done (case r of None \<Rightarrow> (leaving nb, [], [], q1) | Some (a, b) \<Rightarrow> (RPost a nb, [], [b], q1)))"
| "q_local t ha (RPost a nb) q = obind (recv_post q) (\<lambda>q1. Done (RFree a nb, [], [], q1))"
| "q_local t ha (RFree a nb) q = obind (recv_free t a q) (\<lambda>q1. Done (leaving nb, [], [], q1))"
| "q_local t ha Leave q = Done (Idle, [], [], q_unlock q)"

fun call_ok :: "u64 \<Rightarrow> q_call \<Rightarrow> bool" where
  "call_ok sz (SendTimed tmo item) = (length item = unat sz)"
| "call_ok sz (Send item) = (length item = unat sz)"
| "call_ok sz _ = True"

text \<open>An idle task makes a call, or a task inside of a call takes its next step, with memory from a
  heap that only hands out what is free.\<close>

inductive q_step :: "q_conf \<Rightarrow> q_conf \<Rightarrow> bool" where
  call: "t < length (q_pcs c) \<Longrightarrow> q_pcs c ! t = Idle \<Longrightarrow> call_ok (unItemSz (q_que c)) f \<Longrightarrow>
    q_start t f (q_que c) = Done (pc, q) \<Longrightarrow> q_step c (c\<lparr>q_que := q, q_pcs := (q_pcs c)[t := pc]\<rparr>)"
| move: "t < length (q_pcs c) \<Longrightarrow> heap_ok ha (q_rsrc (q_que c)) \<Longrightarrow>
    q_local t ha (q_pcs c ! t) (q_que c) = Done (pc, ins, outs, q) \<Longrightarrow>
    q_step c (c\<lparr>q_que := q, q_pcs := (q_pcs c)[t := pc], q_put := q_put c @ ins, q_got := q_got c @ outs\<rparr>)"

inductive_cases q_stepE: "q_step c c'"

section \<open>The invariant\<close>

fun held :: "q_pc \<Rightarrow> nat multiset" where
  "held (SPut a item nb) = {#a#}"
| "held (RPost a nb) = {#a#}"
| "held (RFree a nb) = {#a#}"
| "held pc = {#}"

text \<open>Tasks that have a place and whose item is not in the list, and tasks that still owe or own
  an item of the list.\<close>

fun placed :: "q_pc \<Rightarrow> nat" where
  "placed (SAlloc item nb) = 1"
| "placed (SPut a item nb) = 1"
| "placed (RPost a nb) = 1"
| "placed pc = 0"

fun owed :: "q_pc \<Rightarrow> nat" where
  "owed (SPost nb) = 1"
| "owed (RTake nb) = 1"
| "owed pc = 0"

fun pc_ok :: "u64 \<Rightarrow> q_pc \<Rightarrow> bool" where
  "pc_ok sz (SPlace tmo item nb) = (length item = unat sz)"
| "pc_ok sz (SAlloc item nb) = (length item = unat sz)"
| "pc_ok sz (SPut a item nb) = (length item = unat sz)"
| "pc_ok sz pc = True"

fun inside :: "q_pc \<Rightarrow> bool" where
  "inside Idle = False"
| "inside (SPlace tmo item nb) = nb"
| "inside (SAlloc item nb) = nb"
| "inside (SPut a item nb) = nb"
| "inside (SPost nb) = nb"
| "inside (RItem tmo nb) = nb"
| "inside (RTake nb) = nb"
| "inside (RPost a nb) = nb"
| "inside (RFree a nb) = nb"
| "inside Leave = True"

definition q_pool :: "queue \<Rightarrow> rsrc_pool \<Rightarrow> bool" where
  "q_pool q pl =
    (pxFreelist pl = [] \<and> uiIncrement pl = 1 \<and> uiFreeOnFree pl \<and> uiNumFree pl = 0 \<and>
     uiMaxNumRes pl = ucast (unMaxItemCount q) \<and> uxSizeEach pl = QUEUE_ITEM_HDR + unItemSz q \<and>
     pxAllocHelper pl = None \<and> pxFreeHelper pl = None \<and> unat (uiNumInUse pl) = length (xActive pl))"

text \<open>The pool of the queue has the resources \<open>xs\<close> in use.\<close>

definition pool_has :: "queue \<Rightarrow> nat list \<Rightarrow> bool" where
  "pool_has q xs =
    (distinct xs \<and>
     (\<exists>pl. pools (q_rsrc q) (xPool q) = Some pl \<and> q_pool q pl \<and> xActive pl = xs) \<and>
     (\<forall>r \<in> set xs. \<exists>rs. rsrcs (q_rsrc q) r = Some rs \<and> \<not> pvFlag rs \<and> r_pool rs = Some (xPool q)))"

text \<open>A queue that blocks and has a limit.\<close>

definition q_bounded :: "queue \<Rightarrow> bool" where
  "q_bounded q =
    (xBlock q \<and> unMaxItemCount q \<noteq> 0 \<and> unat (unMaxItemCount q) < 2 ^ 16 \<and> unat (unItemSz q) < 2 ^ 46)"

definition tally :: "(q_pc \<Rightarrow> 'm :: comm_monoid_add) \<Rightarrow> q_conf \<Rightarrow> 'm" where
  "tally f c = sum_list (List.map f (q_pcs c))"

definition q_memory :: "q_conf \<Rightarrow> bool" where
  "q_memory c =
    (\<exists>xs. pool_has (q_que c) xs \<and>
       mset (xQueueList (q_que c)) + tally held c = image_mset (\<lambda>r. r + RSRC_HDR) (mset xs))"

definition q_fifo :: "q_conf \<Rightarrow> bool" where
  "q_fifo c =
    (\<exists>bs. List.map (xItemBuf (q_que c)) (xQueueList (q_que c)) = List.map Some bs \<and> q_put c = q_got c @ bs)"

definition q_counts :: "q_conf \<Rightarrow> bool" where
  "q_counts c =
    (\<exists>i p. xSemItems (q_que c) = Some i \<and> xSemPlaces (q_que c) = Some p \<and>
       i + tally owed c = length (xQueueList (q_que c)) \<and>
       p + tally placed c + length (xQueueList (q_que c)) \<le> unat (unMaxItemCount (q_que c)))"

definition q_mutual :: "q_conf \<Rightarrow> bool" where
  "q_mutual c =
    (case q_mutex (q_que c) of
       None \<Rightarrow> (\<forall>t < length (q_pcs c). \<not> inside (q_pcs c ! t))
     | Some (u, n) \<Rightarrow> n = 1 \<and> (\<forall>t < length (q_pcs c). inside (q_pcs c ! t) = (t = u)))"

definition q_inv :: "q_conf \<Rightarrow> bool" where
  "q_inv c =
    (q_bounded (q_que c) \<and> list_all (pc_ok (unItemSz (q_que c))) (q_pcs c) \<and>
     q_memory c \<and> q_fifo c \<and> q_counts c \<and> q_mutual c)"

section \<open>The parts of an operation\<close>

lemma tally_update:
  fixes f :: "q_pc \<Rightarrow> 'm :: comm_monoid_add"
  assumes "t < length (q_pcs c)" "q_pcs c' = (q_pcs c)[t := pc]"
  shows "tally f c' + f (q_pcs c ! t) = tally f c + f pc"
proof -
  have "sum_list (List.map f (xs[t := pc])) + f (xs ! t) = sum_list (List.map f xs) + f pc"
    if "t < length xs" for xs using that
  proof (induction xs arbitrary: t)
    case (Cons x xs)
    then show ?case by (cases t) (auto simp: ac_simps)
  qed simp
  then show ?thesis using assms by (simp add: tally_def)
qed

lemma item_block:
  assumes "unat sz < 2 ^ 46"
  shows "unat (QUEUE_ITEM_HDR + sz) = 32 + unat sz"
    "unat (privuxRsrcAlignUp (of_nat RSRC_HDR + (QUEUE_ITEM_HDR + sz))) = (unat sz + 71) div 8 * 8"
    "QUEUE_ITEM_HDR + sz \<noteq> 0"
proof -
  have a: "unat (32 + sz) = 32 + unat sz" using assms by (simp add: unat_plus_simple [THEN iffD1] word_le_nat_alt unat_word_ariths)
  show "unat (QUEUE_ITEM_HDR + sz) = 32 + unat sz" using a by (simp add: QUEUE_ITEM_HDR_def)
  then show "QUEUE_ITEM_HDR + sz \<noteq> 0" by (metis add_is_0 unat_0 zero_neq_numeral)
  have e: "of_nat RSRC_HDR + (QUEUE_ITEM_HDR + sz) = 64 + sz" by (simp add: RSRC_HDR_def QUEUE_ITEM_HDR_def)
  have "unat (64 + sz) = 64 + unat sz" using assms by (simp add: unat_word_ariths)
  then show "unat (privuxRsrcAlignUp (of_nat RSRC_HDR + (QUEUE_ITEM_HDR + sz))) = (unat sz + 71) div 8 * 8"
    unfolding e using align_up_spec [of "64 + sz"] assms by (simp add: ac_simps)
qed

text \<open>The heap is asked for \<open>item_size q\<close> bytes for an item.\<close>

definition item_size :: "queue \<Rightarrow> u64" where
  "item_size q = privuxRsrcAlignUp (of_nat RSRC_HDR + (QUEUE_ITEM_HDR + unItemSz q))"

lemma max_items:
  assumes "q_bounded q" "q_pool q pl"
  shows "unat (uiMaxNumRes pl) = unat (unMaxItemCount q)" "uiMaxNumRes pl \<noteq> 0"
proof -
  show u: "unat (uiMaxNumRes pl) = unat (unMaxItemCount q)"
    using assms by (simp add: q_bounded_def q_pool_def unsigned_ucast_eq take_bit_nat_eq_self)
  have "unat (unMaxItemCount q) \<noteq> 0" using assms(1) by (simp add: q_bounded_def unat_eq_0)
  then show "uiMaxNumRes pl \<noteq> 0" using u by (metis unat_0)
qed

lemma item_pool_full:
  assumes "q_bounded q" "pool_has q xs" "unat (unMaxItemCount q) \<le> length xs"
  shows "pxRsrcAlloc (Some (xPool q)) (Some nm) ha (q_rsrc q) = Ret (None, q_rsrc q)"
proof -
  obtain pl where pl: "pools (q_rsrc q) (xPool q) = Some pl" "q_pool q pl" "xActive pl = xs"
    using assms(2) by (auto simp: pool_has_def)
  have "refused pl (Some nm) (uxSizeEach pl)"
    using max_items [OF assms(1) pl(2)] pl(2,3) assms(3) by (simp add: refused_def q_pool_def)
  then show ?thesis using pl(1) by (simp add: pxRsrcAlloc_def pxRsrcVarAlloc_def)
qed

lemma item_pool_alloc:
  assumes b: "q_bounded q" and h: "pool_has q xs" "heap_ok ha (q_rsrc q)" "length xs < unat (unMaxItemCount q)"
  shows "case ha (item_size q) of
      None \<Rightarrow> pxRsrcAlloc (Some (xPool q)) (Some nm) ha (q_rsrc q) =
        (if vRsrcOOMfn (q_rsrc q) then Ret (None, q_rsrc q) else Abort)
    | Some (r, blk) \<Rightarrow> r \<notin> set xs \<and>
        (\<exists>st. pxRsrcAlloc (Some (xPool q)) (Some nm) ha (q_rsrc q) = Ret (Some (r + RSRC_HDR), st) \<and>
              pool_has (q\<lparr>q_rsrc := st\<rparr>) (r # xs))"
proof -
  obtain pl where pl: "pools (q_rsrc q) (xPool q) = Some pl" "q_pool q pl" "xActive pl = xs" "distinct xs"
    and rs: "\<And>r. r \<in> set xs \<Longrightarrow> \<exists>rs. rsrcs (q_rsrc q) r = Some rs \<and> \<not> pvFlag rs \<and> r_pool rs = Some (xPool q)"
    using h(1) by (auto simp: pool_has_def)
  note p = pl(2) [unfolded q_pool_def]
  have sz: "unat (unItemSz q) < 2 ^ 46" using b by (simp add: q_bounded_def)
  note blk = item_block [OF sz]
  have len: "length xs + 1 < 2 ^ 16" using b h(3) by (simp add: q_bounded_def)
  have ok: "\<not> refused pl (Some nm) (uxSizeEach pl)"
    using max_items [OF b pl(2)] p pl(3) h(3) blk(3) by (simp add: refused_def)
  have one: "ucast (ucast (1 :: u16) :: u32) * x = (x :: u64)" "ucast (1 :: u16) = (1 :: u32)" for x by simp_all
  have e: "pxRsrcAlloc (Some (xPool q)) (Some nm) ha (q_rsrc q) =
    rbind (prviRsrcAdd2Pool (xPool q) 1 (item_size q) ha (q_rsrc q))
      (\<lambda>(n, st1). if n \<le> 0 then Ret (None, st1) else take_first (xPool q) nm (uxSizeEach pl) st1)"
    using pl(1) ok p by (simp add: pxRsrcAlloc_def pxRsrcVarAlloc_def item_size_def cong: if_cong)
  show ?thesis
  proof (cases "ha (item_size q)")
    case None
    then show ?thesis using e by (simp add: prviRsrcAdd2Pool_def prviRsrcOOM_def)
  next
    case (Some rb)
    obtain r blk where rb: "rb = (r, blk)" by (cases rb)
    have isz: "unat (item_size q) = (unat (unItemSz q) + 71) div 8 * 8" unfolding item_size_def by (rule blk(2))
    have hp: "length blk = unat (item_size q)" "rsrcs (q_rsrc q) r = None"
      using h(2) Some rb isz by (auto simp: heap_ok_def)
    then have r: "r \<notin> set xs" using rs by fastforce
    define pay where "pay = take (unat (item_size q) - RSRC_HDR) (drop RSRC_HDR blk)"
    have "(unat (unItemSz q) + 71) div 8 * 8 \<ge> unat (unItemSz q) + 64" by linarith
    then have py: "unat (uxSizeEach pl) \<le> length pay"
      using hp(1) isz blk(1) p by (simp add: pay_def RSRC_HDR_def)
    have cv: "carve r blk (unat (item_size q)) 1 = [(r, pay)]" by (simp add: carve_def pay_def)
    define pl1 where "pl1 = (if unat (uiNumInUse pl) + unat (uiNumFree pl) = 0 then pl\<lparr>uiLowWater := 1\<rparr> else pl)"
    define st0 where "st0 = (q_rsrc q)\<lparr>pools := (pools (q_rsrc q))(xPool q \<mapsto> pl1),
      rsrcs := (rsrcs (q_rsrc q))(r \<mapsto> new_rsrc pay)\<rparr>"
    have pl1: "uxSizeEach pl1 = uxSizeEach pl" "helpers_ok pl1" "pxFreelist pl1 = []" "xActive pl1 = xs"
      "uiNumInUse pl1 = uiNumInUse pl" "q_pool q pl1"
      using pl p by (simp_all add: pl1_def q_pool_def helpers_ok_def helped_def)
    have st0: "pools st0 (xPool q) = Some pl1" "rsrcs st0 r = Some (new_rsrc pay)"
      "unat (uxSizeEach pl1) \<le> length (payload (new_rsrc pay))"
      using py pl1(1) by (simp_all add: st0_def new_rsrc_def)
    obtain st1 rs1 where s1: "prvvFreeResTail (xPool q) r False st0 = Ret st1"
      "pools st1 = (pools st0)(xPool q \<mapsto> pl1\<lparr>pxFreelist := r # pxFreelist pl1, uiNumFree := uiNumFree pl1 + 1\<rparr>)"
      "rsrcs st1 = (rsrcs st0)(r \<mapsto> rs1)" "pvFlag rs1" "r_pool rs1 = r_pool (new_rsrc pay)"
      "length (payload rs1) = length (payload (new_rsrc pay))" "same_conf st0 st1"
      by (rule free_tail_spec [OF st0, of False]) simp_all
    define pl2 where "pl2 = pl1\<lparr>pxFreelist := r # pxFreelist pl1, uiNumFree := uiNumFree pl1 + 1\<rparr>"
    have i: "(if unat (uiNumInUse pl) + unat (uiNumFree pl) = 0
        then (q_rsrc q)\<lparr>pools := (pools (q_rsrc q))(xPool q \<mapsto> pl\<lparr>uiLowWater := ucast (1 :: u32)\<rparr>)\<rparr> else q_rsrc q)
        = (q_rsrc q)\<lparr>pools := (pools (q_rsrc q))(xPool q \<mapsto> pl1)\<rparr>"
      using pl(1) by (auto simp: pl1_def fun_upd_idem intro!: rsrc_state.equality)
    have l: "add_loop (xPool q) [(r, pay)] ((q_rsrc q)\<lparr>pools := (pools (q_rsrc q))(xPool q \<mapsto> pl1)\<rparr>) = Ret st1"
      using s1(1) by (simp add: st0_def)
    have "unat (1 :: u32) = 1" by simp
    then have a: "prviRsrcAdd2Pool (xPool q) 1 (item_size q) ha (q_rsrc q) = Ret (1, st1)"
      using Some rb l cv unfolding prviRsrcAdd2Pool_def pl(1) or_undef_simps rbind.simps i
      by (simp del: unat_1 add_loop.simps)
    obtain pay2 where pay2: "(if eRsrcClearResOnAlloc st1 \<noteq> rsrcNOCLEAR
        then or_undef (mem_set (payload rs1) 0 (unat (uxSizeEach pl))) else Ret (payload rs1)) = Ret pay2"
      using s1(6) st0(3) pl1(1) by (cases "eRsrcClearResOnAlloc st1 \<noteq> rsrcNOCLEAR") (auto simp: mem_set_def)
    have t: "pools st1 (xPool q) = Some pl2" "rsrcs st1 r = Some rs1" "uiNumFree pl2 = 1"
      "pxFreelist pl2 = [r]" "xActive pl2 = xs" "uiNumInUse pl2 = uiNumInUse pl" "pxAllocHelper pl2 = None"
      using s1(2,3) pl1 by (simp_all add: pl2_def q_pool_def)
    define pl3 where "pl3 = pl2\<lparr>pxFreelist := [], uiNumFree := 0,
      uiLowWater := (if 0 < uiLowWater pl2 then 0 else uiLowWater pl2), ulTotalAllocs := ulTotalAllocs pl2 + 1,
      xActive := r # xs, uiNumInUse := uiNumInUse pl + 1,
      uiHiWater := (if uiHiWater pl2 < uiNumInUse pl + 1 then uiNumInUse pl + 1 else uiHiWater pl2)\<rparr>"
    define st2 where "st2 = st1\<lparr>pools := (pools st1)(xPool q \<mapsto> pl3), rsrcs := (rsrcs st1)(r \<mapsto>
      \<lparr>pvFlag = False, r_pool = Some (xPool q), pcResName = Some nm, payload = pay2\<rparr>)\<rparr>"
    have s2: "take_first (xPool q) nm (uxSizeEach pl) st1 = Ret (Some (r + RSRC_HDR), st2)"
      unfolding take_first_def t or_undef_simps rbind.simps list.case pay2 helped_def option.case
      by (simp add: st2_def pl3_def Let_def)
    have "unat (uiNumInUse pl + 1) = length xs + 1"
      using unat_add_1_bound [of "uiNumInUse pl" "2 ^ 16 - 1"] p pl(3) len by simp
    then have "q_pool q pl3" using p pl1(6) by (simp add: q_pool_def pl3_def pl2_def)
    moreover have "xActive pl3 = r # xs" by (simp add: pl3_def)
    moreover have "pools st2 (xPool q) = Some pl3" by (simp add: st2_def)
    moreover have "rsrcs st2 x = rsrcs (q_rsrc q) x" if "x \<noteq> r" for x
      using that s1(3) by (simp add: st2_def st0_def)
    ultimately have "pool_has (q\<lparr>q_rsrc := st2\<rparr>) (r # xs)"
      using r rs pl(4) by (auto simp: pool_has_def q_pool_def st2_def)
    then show ?thesis using Some rb r e a s2 by simp
  qed
qed

lemma item_pool_free:
  assumes "pool_has q xs" "r \<in> set xs"
  shows "\<exists>st. vRsrcFree (Some (r + RSRC_HDR)) (q_rsrc q) = Ret st \<and> pool_has (q\<lparr>q_rsrc := st\<rparr>) (remove1 r xs)"
proof -
  obtain pl where pl: "pools (q_rsrc q) (xPool q) = Some pl" "q_pool q pl" "xActive pl = xs" "distinct xs"
    and rs: "\<And>r. r \<in> set xs \<Longrightarrow> \<exists>rs. rsrcs (q_rsrc q) r = Some rs \<and> \<not> pvFlag rs \<and> r_pool rs = Some (xPool q)"
    using assms(1) by (auto simp: pool_has_def)
  obtain rs0 where rs0: "rsrcs (q_rsrc q) r = Some rs0" "\<not> pvFlag rs0" "r_pool rs0 = Some (xPool q)"
    using rs assms(2) by blast
  define pl1 where "pl1 = pl\<lparr>xActive := remove1 r xs, uiNumInUse := uiNumInUse pl - 1\<rparr>"
  define st where "st = (q_rsrc q)\<lparr>pools := (pools (q_rsrc q))(xPool q \<mapsto> pl1), rsrcs := (rsrcs (q_rsrc q))(r := None)\<rparr>"
  have e: "vRsrcFree (Some (r + RSRC_HDR)) (q_rsrc q) = Ret st"
    using pl rs0 by (simp add: vRsrcFree_def st_def pl1_def q_pool_def)
  have "unat (uiNumInUse pl) = length xs" "length xs \<noteq> 0" using pl(2,3) assms(2) by (auto simp: q_pool_def)
  then have "uiNumInUse pl \<noteq> 0" "unat (uiNumInUse pl) = length xs" by auto
  then have "unat (uiNumInUse pl - 1) = length (remove1 r xs)"
    using assms(2) by (simp add: unat_minus_one length_remove1)
  then have "q_pool q pl1" using pl(2) by (simp add: q_pool_def pl1_def)
  then have "pool_has (q\<lparr>q_rsrc := st\<rparr>) (remove1 r xs)"
    using pl(4) rs by (auto simp: pool_has_def st_def pl1_def q_pool_def)
  then show ?thesis using e by blast
qed

definition q_mx :: "queue \<Rightarrow> bool" where
  "q_mx q = (case q_mutex q of None \<Rightarrow> True | Some (u, n) \<Rightarrow> 1 \<le> n)"

text \<open>A part that takes the mutex and releases it leaves it as it was.\<close>

lemma locked:
  assumes "q_lock t q = Done q1" "q_mx q"
  obtains m where "q1 = q\<lparr>q_mutex := Some m\<rparr>"
    "\<And>z. q_mutex z = Some m \<Longrightarrow> q_unlock z = z\<lparr>q_mutex := q_mutex q\<rparr>"
  using assms
  by (cases "q_mutex q") (auto simp: q_lock_def q_unlock_def q_mx_def split: if_splits prod.splits)

lemma send_alloc_done:
  assumes "send_alloc t ha q = Done (a, q')" "q_mx q"
  shows "\<exists>st. pxRsrcAlloc (Some (xPool q)) (Some ''prvQueueSendToBack'') ha (q_rsrc q) = Ret (a, st) \<and> q' = q\<lparr>q_rsrc := st\<rparr>"
proof -
  obtain q1 where 1: "q_lock t q = Done q1" using assms(1) by (cases "q_lock t q") (auto simp: send_alloc_def)
  obtain m where m: "q1 = q\<lparr>q_mutex := Some m\<rparr>"
    "\<And>z. q_mutex z = Some m \<Longrightarrow> q_unlock z = z\<lparr>q_mutex := q_mutex q\<rparr>" by (rule locked [OF 1 assms(2)]) blast
  obtain st where "pxRsrcAlloc (Some (xPool q)) (Some ''prvQueueSendToBack'') ha (q_rsrc q) = Ret (a, st)"
    "q' = q_unlock (q1\<lparr>q_rsrc := st\<rparr>)"
    using assms(1) 1 m(1)
    by (cases "pxRsrcAlloc (Some (xPool q)) (Some ''prvQueueSendToBack'') ha (q_rsrc q)")
      (auto simp: send_alloc_def obind_Done)
  then show ?thesis using m by simp
qed

lemma send_put_done:
  assumes "send_put t a item q = Done q'" "q_mx q"
  shows "unat (unItemSz q) \<le> length item \<and>
    q' = q\<lparr>xItemBuf := (xItemBuf q)(a \<mapsto> take (unat (unItemSz q)) item), xQueueList := xQueueList q @ [a]\<rparr>"
proof -
  obtain q1 where 1: "q_lock t q = Done q1" using assms(1) by (cases "q_lock t q") (auto simp: send_put_def)
  show ?thesis
    by (rule locked [OF 1 assms(2)]) (use assms(1) 1 in \<open>auto simp: send_put_def split: if_splits\<close>)
qed

lemma recv_take_done:
  assumes "recv_take t q = Done (r, q')" "q_mx q"
  shows "case xQueueList q of [] \<Rightarrow> r = None \<and> q' = q
    | a # as \<Rightarrow> \<exists>b. xItemBuf q a = Some b \<and> r = Some (a, b) \<and> q' = q\<lparr>xQueueList := as\<rparr>"
proof -
  obtain q1 where 1: "q_lock t q = Done q1" using assms(1) by (cases "q_lock t q") (auto simp: recv_take_def)
  show ?thesis
    by (rule locked [OF 1 assms(2)])
      (use assms(1) 1 in \<open>auto simp: recv_take_def obind_Done or_crash_def split: list.splits option.splits\<close>)
qed

lemma recv_free_done:
  assumes "recv_free t a q = Done q'" "q_mx q"
  shows "\<exists>st. vRsrcFree (Some a) (q_rsrc q) = Ret st \<and> q' = q\<lparr>q_rsrc := st, xItemBuf := (xItemBuf q)(a := None)\<rparr>"
proof -
  obtain q1 where 1: "q_lock t q = Done q1" using assms(1) by (cases "q_lock t q") (auto simp: recv_free_def)
  obtain m where m: "q1 = q\<lparr>q_mutex := Some m\<rparr>"
    "\<And>z. q_mutex z = Some m \<Longrightarrow> q_unlock z = z\<lparr>q_mutex := q_mutex q\<rparr>" by (rule locked [OF 1 assms(2)]) blast
  show ?thesis
    using assms(1) 1 m by (cases "vRsrcFree (Some a) (q_rsrc q)") (auto simp: recv_free_def)
qed

section \<open>The invariant is kept\<close>

text \<open>What a step of the task \<open>t\<close> from \<open>pc0\<close> to \<open>pc\<close> has to show, with the share of the other
  tasks left open.\<close>

lemma inv_keep:
  assumes inv: "q_inv c" and t: "t < length (q_pcs c)" "q_pcs c ! t = pc0"
    and c': "q_que c' = q" "q_pcs c' = (q_pcs c)[t := pc]" "q_put c' = q_put c @ ins" "q_got c' = q_got c @ outs"
    and conf: "unMaxItemCount q = unMaxItemCount (q_que c)" "xBlock q = xBlock (q_que c)" "unItemSz q = unItemSz (q_que c)"
      "pc_ok (unItemSz (q_que c)) pc"
    and mem: "\<And>xs H. pool_has (q_que c) xs \<Longrightarrow>
      mset (xQueueList (q_que c)) + held pc0 + H = image_mset (\<lambda>r. r + RSRC_HDR) (mset xs) \<Longrightarrow>
      \<exists>xs'. pool_has q xs' \<and> mset (xQueueList q) + held pc + H = image_mset (\<lambda>r. r + RSRC_HDR) (mset xs')"
    and fifo: "\<And>bs. List.map (xItemBuf (q_que c)) (xQueueList (q_que c)) = List.map Some bs \<Longrightarrow>
      \<exists>bs'. List.map (xItemBuf q) (xQueueList q) = List.map Some bs' \<and> bs @ ins = outs @ bs'"
    and counts: "\<And>i p R P. xSemItems (q_que c) = Some i \<Longrightarrow> xSemPlaces (q_que c) = Some p \<Longrightarrow>
      i + (owed pc0 + R) = length (xQueueList (q_que c)) \<Longrightarrow>
      p + (placed pc0 + P) + length (xQueueList (q_que c)) \<le> unat (unMaxItemCount (q_que c)) \<Longrightarrow>
      \<exists>i' p'. xSemItems q = Some i' \<and> xSemPlaces q = Some p' \<and> i' + (owed pc + R) = length (xQueueList q) \<and>
        p' + (placed pc + P) + length (xQueueList q) \<le> unat (unMaxItemCount (q_que c))"
    and mut: "q_mutual c'"
  shows "q_inv c'"
proof -
  note i = inv [unfolded q_inv_def]
  have "\<exists>H :: nat multiset. tally held c = held pc0 + H \<and> tally held c' = held pc + H"
    and "\<exists>R :: nat. tally owed c = owed pc0 + R \<and> tally owed c' = owed pc + R"
    and "\<exists>P :: nat. tally placed c = placed pc0 + P \<and> tally placed c' = placed pc + P"
  proof -
    have g: "\<exists>H. tally f c = f pc0 + H \<and> tally f c' = f pc + H" for f :: "q_pc \<Rightarrow> 'm :: {comm_monoid_add, cancel_ab_semigroup_add}"
    proof -
      have "q_pcs c = take t (q_pcs c) @ pc0 # drop (Suc t) (q_pcs c)" using t id_take_nth_drop by blast
      then have "tally f c = f pc0 + (sum_list (List.map f (take t (q_pcs c))) + sum_list (List.map f (drop (Suc t) (q_pcs c))))"
        unfolding tally_def by (metis (no_types, lifting) group_cancel.add2 list.simps(9) map_append sum_list.Cons sum_list.append)
      moreover from tally_update [OF t(1) c'(2), of f] this t(2)
      have "f pc0 + tally f c' = f pc0 + (f pc + (sum_list (List.map f (take t (q_pcs c))) + sum_list (List.map f (drop (Suc t) (q_pcs c)))))"
        by (simp add: ac_simps)
      ultimately show ?thesis by auto
    qed
    show "\<exists>H :: nat multiset. tally held c = held pc0 + H \<and> tally held c' = held pc + H" by (rule g)
    show "\<exists>R :: nat. tally owed c = owed pc0 + R \<and> tally owed c' = owed pc + R" by (rule g)
    show "\<exists>P :: nat. tally placed c = placed pc0 + P \<and> tally placed c' = placed pc + P" by (rule g)
  qed
  then obtain H R P where h: "tally held c = held pc0 + H" "tally held c' = held pc + H"
    "tally owed c = owed pc0 + R" "tally owed c' = owed pc + R"
    "tally placed c = placed pc0 + P" "tally placed c' = placed pc + P" by blast
  have "q_memory c'"
    using i mem [of _ H] unfolding q_memory_def c' h by (fastforce simp: add.assoc)
  moreover have "q_fifo c'"
  proof -
    obtain bs where bs: "List.map (xItemBuf (q_que c)) (xQueueList (q_que c)) = List.map Some bs" "q_put c = q_got c @ bs"
      using i by (auto simp: q_fifo_def)
    obtain bs' where b': "List.map (xItemBuf q) (xQueueList q) = List.map Some bs'" "bs @ ins = outs @ bs'"
      using fifo [OF bs(1)] by blast
    have "q_put c' = q_got c' @ bs'" using bs(2) b'(2) c' by simp
    then show ?thesis using b'(1) c'(1) by (auto simp: q_fifo_def)
  qed
  moreover have "q_counts c'"
  proof -
    obtain n p where n: "xSemItems (q_que c) = Some n" "xSemPlaces (q_que c) = Some p"
      "n + (owed pc0 + R) = length (xQueueList (q_que c))"
      "p + (placed pc0 + P) + length (xQueueList (q_que c)) \<le> unat (unMaxItemCount (q_que c))"
      using i unfolding q_counts_def h by blast
    show ?thesis using counts [OF n] unfolding q_counts_def h c' conf by blast
  qed
  moreover have "q_bounded (q_que c')" using i c' conf by (simp add: q_bounded_def)
  moreover have "list_all (pc_ok (unItemSz (q_que c'))) (q_pcs c')"
    using i c'(1,2) conf(3,4) set_update_subset_insert [of "q_pcs c" t pc] by (auto simp: list_all_iff)
  ultimately show ?thesis using mut by (simp add: q_inv_def)
qed

lemma mutual_mx: "q_mutual c \<Longrightarrow> q_mx (q_que c)"
  by (auto simp: q_mutual_def q_mx_def split: option.splits)

lemma mutual_same:
  assumes "q_mutual c" "t < length (q_pcs c)" "q_mutex (q_que c') = q_mutex (q_que c)"
    "q_pcs c' = (q_pcs c)[t := pc]" "inside pc = inside (q_pcs c ! t)"
  shows "q_mutual c'"
  using assms by (auto simp: q_mutual_def nth_list_update split: option.splits)

lemma sem_take_done:
  "sem_take tmo s = Done (r, s') \<Longrightarrow>
   (r = None \<and> (\<exists>n. s = Some (Suc n) \<and> s' = Some n)) \<or> (r \<noteq> None \<and> s' = s)"
  by (auto simp: sem_take_def xRsSemWait_def xRsSemTimedWait_def obind_Done split: if_splits option.splits)

lemma leaving_simps [simp]:
  "held (leaving nb) = {#}" "placed (leaving nb) = 0" "owed (leaving nb) = 0" "pc_ok sz (leaving nb)"
  "inside (leaving nb) = nb"
  by (simp_all add: leaving_def)

text \<open>A step that only moves semaphores and the task.\<close>

lemma pool_has_cong:
  "q_rsrc q' = q_rsrc q \<Longrightarrow> xPool q' = xPool q \<Longrightarrow> unMaxItemCount q' = unMaxItemCount q \<Longrightarrow>
   unItemSz q' = unItemSz q \<Longrightarrow> pool_has q' xs = pool_has q xs"
  by (simp add: pool_has_def q_pool_def)

lemma inv_pc:
  assumes "q_inv c" "t < length (q_pcs c)"
  shows "pc_ok (unItemSz (q_que c)) (q_pcs c ! t)" "q_bounded (q_que c)" "q_mx (q_que c)" "q_mutual c"
  using assms by (auto simp: q_inv_def list_all_length intro: mutual_mx)

lemma sems_keep:
  assumes inv: "q_inv c" and t: "t < length (q_pcs c)" "q_pcs c ! t = pc0"
    and q: "q = (q_que c)\<lparr>xSemItems := i', xSemPlaces := p'\<rparr>"
    and pc: "pc_ok (unItemSz (q_que c)) pc" "held pc = held pc0" "inside pc = inside pc0"
    and counts: "\<And>i p. xSemItems (q_que c) = Some i \<Longrightarrow> xSemPlaces (q_que c) = Some p \<Longrightarrow>
      \<exists>m n. i' = Some m \<and> p' = Some n \<and> m + owed pc = i + owed pc0 \<and> n + placed pc = p + placed pc0"
  shows "q_inv (c\<lparr>q_que := q, q_pcs := (q_pcs c)[t := pc], q_put := q_put c @ [], q_got := q_got c @ []\<rparr>)"
    (is "q_inv ?c")
proof (rule inv_keep [OF inv t, of ?c q pc "[]" "[]"])
  show "q_mutual ?c"
    by (rule mutual_same [OF inv_pc(4) [OF inv t(1)] t(1), where pc = pc]) (use q pc t(2) in simp_all)
  show "\<exists>xs'. pool_has q xs' \<and> mset (xQueueList q) + held pc + H = image_mset (\<lambda>r. r + RSRC_HDR) (mset xs')"
    if "pool_has (q_que c) xs" "mset (xQueueList (q_que c)) + held pc0 + H = image_mset (\<lambda>r. r + RSRC_HDR) (mset xs)"
    for xs H
    using that pc(2) pool_has_cong [of q "q_que c" xs] by (intro exI [of _ xs]) (simp add: q)
  show "\<exists>i p. xSemItems q = Some i \<and> xSemPlaces q = Some p \<and> i + (owed pc + R) = length (xQueueList q) \<and>
      p + (placed pc + P) + length (xQueueList q) \<le> unat (unMaxItemCount (q_que c))"
    if ip: "xSemItems (q_que c) = Some i" "xSemPlaces (q_que c) = Some p" "i + (owed pc0 + R) = length (xQueueList (q_que c))"
      "p + (placed pc0 + P) + length (xQueueList (q_que c)) \<le> unat (unMaxItemCount (q_que c))" for i p R P
    using counts [OF ip(1,2)] ip(3,4) by (auto simp: q)
qed (use q pc in auto)

text \<open>An address that a task holds is that of nothing in the list, and a task that took an item
  from the semaphore finds one in the list.\<close>

lemma tally_part:
  fixes f :: "q_pc \<Rightarrow> 'm :: comm_monoid_add"
  assumes "t < length (q_pcs c)"
  shows "\<exists>H. tally f c = f (q_pcs c ! t) + H"
proof -
  have "q_pcs c = take t (q_pcs c) @ (q_pcs c ! t) # drop (Suc t) (q_pcs c)" by (rule id_take_nth_drop [OF assms])
  then have "tally f c = sum_list (List.map f (take t (q_pcs c))) + (f (q_pcs c ! t) + sum_list (List.map f (drop (Suc t) (q_pcs c))))"
    unfolding tally_def by (metis list.simps(9) map_append sum_list.Cons sum_list.append)
  then show ?thesis by (metis add.left_commute)
qed

lemma held_apart:
  assumes "q_inv c" "t < length (q_pcs c)" "a \<in># held (q_pcs c ! t)"
  shows "a \<notin> set (xQueueList (q_que c))"
proof
  assume l: "a \<in> set (xQueueList (q_que c))"
  obtain xs where xs: "distinct xs" "mset (xQueueList (q_que c)) + tally held c = mset (List.map (\<lambda>r. r + RSRC_HDR) xs)"
    using assms(1) by (auto simp: q_inv_def q_memory_def pool_has_def)
  obtain H where "tally held c = held (q_pcs c ! t) + H" using tally_part [OF assms(2)] by blast
  then have "0 < count (tally held c) a" using assms(3) by simp
  moreover have "0 < count (mset (xQueueList (q_que c))) a" using l by (simp add: count_greater_zero_iff del: count_mset)
  moreover have "distinct (List.map (\<lambda>r. r + RSRC_HDR) xs)" using xs(1) by (simp add: distinct_map inj_on_def)
  then have "count (mset (List.map (\<lambda>r. r + RSRC_HDR) xs)) a \<le> 1" by (auto simp: distinct_count_atmost_1)
  then have "count (mset (xQueueList (q_que c))) a + count (tally held c) a \<le> 1"
    using xs(2) by (metis count_union)
  ultimately show False by linarith
qed

lemma list_not_empty:
  assumes "q_inv c" "t < length (q_pcs c)" "q_pcs c ! t = RTake nb"
  shows "xQueueList (q_que c) \<noteq> []"
  using assms tally_part [OF assms(2), of owed] by (auto simp: q_inv_def q_counts_def)

lemma map_upd_out: "a \<notin> set xs \<Longrightarrow> List.map (f(a := v)) xs = List.map f xs"
  by simp

lemma move_keeps:
  assumes inv: "q_inv c" and t: "t < length (q_pcs c)" and ha: "heap_ok ha (q_rsrc (q_que c))"
    and s: "q_local t ha (q_pcs c ! t) (q_que c) = Done (pc, ins, outs, q)"
  shows "q_inv (c\<lparr>q_que := q, q_pcs := (q_pcs c)[t := pc], q_put := q_put c @ ins, q_got := q_got c @ outs\<rparr>)"
    (is "q_inv ?c")
proof -
  note i = inv_pc [OF inv t]
  note bd = i(2) [unfolded q_bounded_def]
  note keep = inv_keep [OF inv t _ _ _ _ _, of _ ?c q pc ins outs]
  note same = mutual_same [OF i(4) t]
  show ?thesis
  proof (cases "q_pcs c ! t")
    case Idle
    then show ?thesis using s by simp
  next
    case (SPlace tmo item nb)
    then obtain r n where x: "sem_take tmo (xSemPlaces (q_que c)) = Done (r, n)" "q = (q_que c)\<lparr>xSemPlaces := n\<rparr>"
      "pc = (if r = None then SAlloc item nb else leaving nb)" "ins = []" "outs = []"
      using s bd by (auto simp: send_place_def obind_Done failed_def split: if_splits)
    show ?thesis
      unfolding x(4,5) by (rule sems_keep [OF inv t SPlace, where i' = "xSemItems (q_que c)" and p' = n])
        (use x SPlace i(1) sem_take_done [OF x(1)] in auto)
  next
    case (SAlloc item nb)
    then obtain a st where x: "pxRsrcAlloc (Some (xPool (q_que c))) (Some ''prvQueueSendToBack'') ha (q_rsrc (q_que c)) = Ret (a, st)"
      "q = (q_que c)\<lparr>q_rsrc := st\<rparr>" "pc = (case a of None \<Rightarrow> leaving nb | Some a \<Rightarrow> SPut a item nb)"
      "ins = []" "outs = []"
      using s send_alloc_done [OF _ i(3)] by (fastforce simp: obind_Done)
    have m: "\<exists>xs'. pool_has q xs' \<and> mset (xQueueList q) + held pc + H = image_mset (\<lambda>r. r + RSRC_HDR) (mset xs')"
      if p: "pool_has (q_que c) xs" "mset (xQueueList (q_que c)) + H = image_mset (\<lambda>r. r + RSRC_HDR) (mset xs)" for xs H
    proof (cases "unat (unMaxItemCount (q_que c)) \<le> length xs")
      case True
      then show ?thesis using item_pool_full [OF i(2) p(1)] x p by (intro exI [of _ xs]) auto
    next
      case False
      then show ?thesis
        using item_pool_alloc [OF i(2) p(1) ha, of "''prvQueueSendToBack''"] x p
        by (cases "ha (item_size (q_que c))") (force split: if_splits prod.splits)+
    qed
    have pc: "pc_ok (unItemSz (q_que c)) pc" "inside pc = nb" "placed pc \<le> 1" "owed pc = 0"
      using x(3) i(1) SAlloc by (auto split: option.splits)
    show ?thesis
    proof (rule keep [OF SAlloc])
      show "pc_ok (unItemSz (q_que c)) pc" by (rule pc)
      show "q_mutual ?c" by (rule same [where pc = pc]) (use x pc SAlloc in auto)
      show "\<exists>xs'. pool_has q xs' \<and> mset (xQueueList q) + held pc + H = image_mset (\<lambda>r. r + RSRC_HDR) (mset xs')"
        if "pool_has (q_que c) xs" "mset (xQueueList (q_que c)) + held (SAlloc item nb) + H = image_mset (\<lambda>r. r + RSRC_HDR) (mset xs)"
        for xs H using m [OF that(1)] that(2) by simp
      show "\<exists>i' p'. xSemItems q = Some i' \<and> xSemPlaces q = Some p' \<and> i' + (owed pc + R) = length (xQueueList q) \<and>
          p' + (placed pc + P) + length (xQueueList q) \<le> unat (unMaxItemCount (q_que c))"
        if "xSemItems (q_que c) = Some i" "xSemPlaces (q_que c) = Some p" "i + (owed (SAlloc item nb) + R) = length (xQueueList (q_que c))"
          "p + (placed (SAlloc item nb) + P) + length (xQueueList (q_que c)) \<le> unat (unMaxItemCount (q_que c))" for i p R P
        using that x(2) pc by auto
    qed (use x in auto)
  next
    case (SPut a item nb)
    then have x: "q = (q_que c)\<lparr>xItemBuf := (xItemBuf (q_que c))(a \<mapsto> item), xQueueList := xQueueList (q_que c) @ [a]\<rparr>"
      "pc = SPost nb" "ins = [item]" "outs = []"
    proof -
      from SPut s have p: "send_put t a item (q_que c) = Done q" and "pc = SPost nb" "ins = [item]" "outs = []"
        by (auto simp: obind_Done)
      then show "pc = SPost nb" "ins = [item]" "outs = []" by simp_all
      show "q = (q_que c)\<lparr>xItemBuf := (xItemBuf (q_que c))(a \<mapsto> item), xQueueList := xQueueList (q_que c) @ [a]\<rparr>"
        using send_put_done [OF p i(3)] i(1) SPut by simp
    qed
    have m: "a \<notin> set (xQueueList (q_que c))" using held_apart [OF inv t, of a] SPut by simp
    have pool: "pool_has q xs = pool_has (q_que c) xs" for xs by (rule pool_has_cong) (simp_all add: x)
    show ?thesis
    proof (rule keep [OF SPut])
      show "q_mutual ?c" by (rule same [where pc = pc]) (use x SPut in auto)
      show "\<exists>bs'. List.map (xItemBuf q) (xQueueList q) = List.map Some bs' \<and> bs @ ins = outs @ bs'"
        if "List.map (xItemBuf (q_que c)) (xQueueList (q_que c)) = List.map Some bs" for bs
        using that m x by (intro exI [of _ "bs @ [item]"]) (simp add: map_upd_out)
    qed (use x pool in \<open>auto simp: ac_simps\<close>)
  next
    case (SPost nb)
    then obtain n where x: "xSemItems (q_que c) = Some n" "q = (q_que c)\<lparr>xSemItems := Some (Suc n)\<rparr>"
      "pc = leaving nb" "ins = []" "outs = []"
      using s bd by (auto simp: send_post_def xRsSemPost_def obind_Done split: option.splits)
    show ?thesis
      unfolding x(4,5) by (rule sems_keep [OF inv t SPost, where i' = "Some (Suc n)" and p' = "xSemPlaces (q_que c)"])
        (use x in auto)
  next
    case (RItem tmo nb)
    then obtain r n where x: "sem_take tmo (xSemItems (q_que c)) = Done (r, n)" "q = (q_que c)\<lparr>xSemItems := n\<rparr>"
      "pc = (if r = None then RTake nb else leaving nb)" "ins = []" "outs = []"
      using s bd by (auto simp: recv_item_def obind_Done failed_def split: if_splits)
    show ?thesis
      unfolding x(4,5) by (rule sems_keep [OF inv t RItem, where i' = n and p' = "xSemPlaces (q_que c)"])
        (use x sem_take_done [OF x(1)] in auto)
  next
    case (RTake nb)
    then obtain r where x: "recv_take t (q_que c) = Done (r, q)"
      "(pc, ins, outs) = (case r of None \<Rightarrow> (leaving nb, [], []) | Some (a, b) \<Rightarrow> (RPost a nb, [], [b]))"
      using s by (auto simp: obind_Done split: option.splits)
    from list_not_empty [OF inv t RTake] obtain a as where l: "xQueueList (q_que c) = a # as"
      by (cases "xQueueList (q_que c)") auto
    obtain b where y: "xItemBuf (q_que c) a = Some b" "q = (q_que c)\<lparr>xQueueList := as\<rparr>" "pc = RPost a nb"
      "ins = []" "outs = [b]"
      using recv_take_done [OF x(1) i(3)] x(2) l by auto
    have pool: "pool_has q xs = pool_has (q_que c) xs" for xs by (rule pool_has_cong) (simp_all add: y)
    show ?thesis
    proof (rule keep [OF RTake])
      show "q_mutual ?c" by (rule same [where pc = pc]) (use y RTake in auto)
      show "\<exists>bs'. List.map (xItemBuf q) (xQueueList q) = List.map Some bs' \<and> bs @ ins = outs @ bs'"
        if "List.map (xItemBuf (q_que c)) (xQueueList (q_que c)) = List.map Some bs" for bs
        using that l y by (intro exI [of _ "tl bs"]) (auto simp: Cons_eq_map_conv)
    qed (use y pool l in \<open>auto simp: ac_simps\<close>)
  next
    case (RPost a nb)
    then obtain n where x: "xSemPlaces (q_que c) = Some n" "q = (q_que c)\<lparr>xSemPlaces := Some (Suc n)\<rparr>"
      "pc = RFree a nb" "ins = []" "outs = []"
      using s bd by (auto simp: recv_post_def xRsSemPost_def obind_Done split: option.splits)
    show ?thesis
      unfolding x(4,5) by (rule sems_keep [OF inv t RPost, where i' = "xSemItems (q_que c)" and p' = "Some (Suc n)"])
        (use x in auto)
  next
    case (RFree a nb)
    then obtain st where x: "vRsrcFree (Some a) (q_rsrc (q_que c)) = Ret st"
      "q = (q_que c)\<lparr>q_rsrc := st, xItemBuf := (xItemBuf (q_que c))(a := None)\<rparr>" "pc = leaving nb" "ins = []" "outs = []"
      using s recv_free_done [OF _ i(3)] by (fastforce simp: obind_Done)
    have h: "a \<notin> set (xQueueList (q_que c))" using held_apart [OF inv t, of a] RFree by simp
    have m: "\<exists>xs'. pool_has q xs' \<and> mset (xQueueList q) + H = image_mset (\<lambda>r. r + RSRC_HDR) (mset xs')"
      if p: "pool_has (q_que c) xs" "add_mset a (mset (xQueueList (q_que c)) + H) = image_mset (\<lambda>r. r + RSRC_HDR) (mset xs)" for xs H
    proof -
      have "a \<in># image_mset (\<lambda>r. r + RSRC_HDR) (mset xs)" by (metis p(2) union_single_eq_member add_mset_add_single union_commute)
      then obtain r where r: "r \<in> set xs" "a = r + RSRC_HDR" by auto
      then have "pool_has q (remove1 r xs)" "mset xs = add_mset r (mset (remove1 r xs))"
        using item_pool_free [OF p(1) r(1)] x pool_has_cong [of q "(q_que c)\<lparr>q_rsrc := st\<rparr>"] by auto
      moreover from this(2) have "image_mset (\<lambda>r. r + RSRC_HDR) (mset xs) =
        add_mset a (image_mset (\<lambda>r. r + RSRC_HDR) (mset (remove1 r xs)))" using r(2) by (metis image_mset_add_mset)
      ultimately show ?thesis using p(2) x(2) by (intro exI [of _ "remove1 r xs"]) (simp del: mset_remove1)
    qed
    show ?thesis
    proof (rule keep [OF RFree])
      show "q_mutual ?c" by (rule same [where pc = pc]) (use x RFree in auto)
      show "\<exists>xs'. pool_has q xs' \<and> mset (xQueueList q) + held pc + H = image_mset (\<lambda>r. r + RSRC_HDR) (mset xs')"
        if "pool_has (q_que c) xs" "mset (xQueueList (q_que c)) + held (RFree a nb) + H = image_mset (\<lambda>r. r + RSRC_HDR) (mset xs)"
        for xs H using m [OF that(1)] that(2) x(3) by (simp add: ac_simps)
      show "\<exists>bs'. List.map (xItemBuf q) (xQueueList q) = List.map Some bs' \<and> bs @ ins = outs @ bs'"
        if "List.map (xItemBuf (q_que c)) (xQueueList (q_que c)) = List.map Some bs" for bs
        using that h x by (intro exI [of _ bs]) (simp add: map_upd_out)
    qed (use x in auto)
  next
    case Leave
    then have x: "q = q_unlock (q_que c)" "pc = Idle" "ins = []" "outs = []" using s by simp_all
    obtain n where n: "q_mutex (q_que c) = Some (t, 1)"
      using i(4) t Leave by (auto simp: q_mutual_def split: option.splits)
    have mu: "q_mutual ?c"
      using i(4) t n Leave by (auto simp: q_mutual_def x q_unlock_def nth_list_update)
    have q: "q = (q_que c)\<lparr>q_mutex := None\<rparr>" using n x by (simp add: q_unlock_def)
    have pool: "pool_has q xs = pool_has (q_que c) xs" for xs by (rule pool_has_cong) (simp_all add: q)
    show ?thesis
      by (rule keep [OF Leave]) (use x(2-4) q mu pool in auto)
  qed
qed

lemma call_keeps:
  assumes inv: "q_inv c" and t: "t < length (q_pcs c)" "q_pcs c ! t = Idle" and f: "call_ok (unItemSz (q_que c)) f"
    and s: "q_start t f (q_que c) = Done (pc, q)"
  shows "q_inv (c\<lparr>q_que := q, q_pcs := (q_pcs c)[t := pc]\<rparr>)" (is "q_inv ?c")
proof -
  note i = inv_pc [OF inv t(1)]
  have pc: "pc_ok (unItemSz (q_que c)) pc" "held pc = {#}" "placed pc = 0" "owed pc = 0"
    using s f by (cases f; auto simp: obind_Done)+
  consider "q = q_que c" "\<not> inside pc" | "q_lock t (q_que c) = Done q" "inside pc"
    using s by (cases f) (auto simp: obind_Done)
  then have x: "(\<exists>m. q = (q_que c)\<lparr>q_mutex := m\<rparr>) \<and> q_mutual ?c"
  proof cases
    case 1
    then have "q = (q_que c)\<lparr>q_mutex := q_mutex (q_que c)\<rparr>" by simp
    moreover have "q_mutual ?c" by (rule mutual_same [OF i(4) t(1), where pc = pc]) (use 1 t in simp_all)
    ultimately show ?thesis by blast
  next
    case 2
    have "q_mutex (q_que c) = None"
      using 2(1) i(4) t by (auto simp: q_lock_def q_mutual_def split: option.splits if_splits)
    then have q: "q = (q_que c)\<lparr>q_mutex := Some (t, 1)\<rparr>" and n: "\<forall>u < length (q_pcs c). \<not> inside (q_pcs c ! u)"
      using 2(1) i(4) by (simp_all add: q_lock_def q_mutual_def)
    then have "q_mutual ?c" using 2(2) t(1) by (simp add: q_mutual_def nth_list_update)
    then show ?thesis using q by blast
  qed
  then obtain m where m: "q = (q_que c)\<lparr>q_mutex := m\<rparr>" by blast
  have pool: "pool_has q xs = pool_has (q_que c) xs" for xs by (rule pool_has_cong) (simp_all add: m)
  show ?thesis
    by (rule inv_keep [OF inv t, of ?c q pc "[]" "[]"]) (use m pool pc x in auto)
qed

lemma q_step_keeps: "q_step c c' \<Longrightarrow> q_inv c \<Longrightarrow> q_inv c'"
  by (induction rule: q_step.induct) (auto intro: call_keeps move_keeps)

section \<open>Running\<close>

text \<open>A queue as \<^verbatim>\<open>xRsQueueInit\<close> makes it, with nobody in a call.\<close>

definition q_fresh :: "nat \<Rightarrow> queue \<Rightarrow> q_conf" where
  "q_fresh n q = \<lparr>q_que = q, q_pcs = replicate n Idle, q_put = [], q_got = []\<rparr>"

inductive q_reach :: "q_conf \<Rightarrow> q_conf \<Rightarrow> bool" where
  here: "q_reach c c"
| later: "q_reach c c' \<Longrightarrow> q_step c' c'' \<Longrightarrow> q_reach c c''"

lemma q_reach_keeps: "q_reach c c' \<Longrightarrow> q_inv c \<Longrightarrow> q_inv c'"
  by (induction rule: q_reach.induct) (auto intro: q_step_keeps)

lemma sum_list_replicate_zero: "sum_list (replicate n (0 :: 'm :: comm_monoid_add)) = 0"
  by (induction n) simp_all

lemma new_item_pool:
  assumes "pxRsrcNewPool nm sz 0 1 mx ha1 ha2 ha3 st = Ret (Some p, st')"
  shows "\<exists>pl. pools st' p = Some pl \<and> xActive pl = [] \<and> pxFreelist pl = [] \<and> uiIncrement pl = 1 \<and> uiFreeOnFree pl \<and>
    uiNumFree pl = 0 \<and> uiNumInUse pl = 0 \<and> uiMaxNumRes pl = ucast mx \<and> uxSizeEach pl = sz \<and>
    pxAllocHelper pl = None \<and> pxFreeHelper pl = None"
  using assms
  by (auto simp: pxRsrcNewPool_def rbind_Ret prviRsrcInitPool_def Let_def
      split: if_splits option.splits prod.splits)

lemma fresh_inv:
  assumes init: "xRsQueueInit nm mx True sz ha1 ha2 ha3 0 st = Done (None, Some q)"
    and mx: "mx \<noteq> 0" "unat mx < 2 ^ 16" "unat sz < 2 ^ 46"
  shows "q_inv (q_fresh n q)" "unMaxItemCount q = mx" "unItemSz q = sz"
proof -
  obtain p st1 where p: "pxRsrcNewPool nm (QUEUE_ITEM_HDR + sz) 0 1 (ucast mx) ha1 ha2 ha3 st = Ret (Some p, st1)"
    "q = \<lparr>xQueueList = [], xItemBuf = (\<lambda>_. None), xPool = p, q_rsrc = st1, xSemItems = xRsSemInit 0,
      xSemPlaces = xRsSemInit mx, q_mutex = None, unMaxItemCount = mx, xBlock = True, unItemSz = sz\<rparr>"
    using init mx(1)
    by (cases "pxRsrcNewPool nm (QUEUE_ITEM_HDR + sz) 0 1 (ucast mx) ha1 ha2 ha3 st")
      (auto simp: xRsQueueInit_def split: option.splits if_splits)
  have "ucast (ucast mx :: u32) = (ucast mx :: u16)" by (rule bit_word_eqI) (auto simp: bit_ucast_iff)
  then have "pool_has q []" using new_item_pool [OF p(1)] by (auto simp: pool_has_def q_pool_def p(2))
  moreover have u: "unat (ucast mx :: u32) = unat mx" using mx(2) by (simp add: unsigned_ucast_eq take_bit_nat_eq_self)
  moreover have "xRsSemInit mx = Some (unat mx)" "xRsSemInit 0 = Some 0"
    using mx(2) u by (simp_all add: xRsSemInit_def SEM_VALUE_MAX_def)
  ultimately show "q_inv (q_fresh n q)"
    using mx by (auto simp: q_inv_def q_bounded_def q_memory_def q_fifo_def q_counts_def q_mutual_def q_fresh_def p(2)
        list_all_iff tally_def sum_list_replicate_zero intro!: exI [of _ "[]"])
  show "unMaxItemCount q = mx" "unItemSz q = sz" by (simp_all add: p(2))
qed

lemma q_conf_parts: "q_inv c \<Longrightarrow> q_bounded (q_que c) \<and> q_memory c \<and> q_fifo c \<and> q_counts c \<and> q_mutual c"
  by (simp add: q_inv_def)

lemma lock_conf: "q_lock t q = Done q1 \<Longrightarrow> unMaxItemCount q1 = unMaxItemCount q"
  by (auto simp: q_lock_def split: option.splits if_splits)

lemma unlock_conf [simp]: "unMaxItemCount (q_unlock q) = unMaxItemCount q"
  by (simp add: q_unlock_def)

lemma local_conf: "q_local t ha pc0 q = Done (pc, ins, outs, q') \<Longrightarrow> unMaxItemCount q' = unMaxItemCount q"
  by (cases pc0)
    (auto simp: send_place_def send_alloc_def send_put_def send_post_def recv_item_def recv_take_def recv_post_def
      recv_free_def obind_Done neq_Nil_conv dest!: lock_conf split: if_splits list.splits option.splits)

lemma start_conf: "q_start t f q = Done (pc, q') \<Longrightarrow> unMaxItemCount q' = unMaxItemCount q"
  by (cases f) (auto simp: obind_Done dest!: lock_conf)

lemma reach_conf: "q_reach c c' \<Longrightarrow> unMaxItemCount (q_que c') = unMaxItemCount (q_que c)"
  by (induction rule: q_reach.induct) (auto elim!: q_stepE dest: local_conf start_conf)

lemma reach_inv:
  assumes "xRsQueueInit nm mx True sz ha1 ha2 ha3 0 st = Done (None, Some q)"
    "mx \<noteq> 0" "unat mx < 2 ^ 16" "unat sz < 2 ^ 46" "q_reach (q_fresh n q) c"
  shows "q_inv c" "unMaxItemCount (q_que c) = mx"
  using fresh_inv(1) [OF assms(1-4), of n] fresh_inv(2) [OF assms(1-4)] q_reach_keeps [OF assms(5)] reach_conf [OF assms(5)]
  by (simp_all add: q_fresh_def)

lemma lock_cases: "q_lock t q = Blocked \<or> (\<exists>m. q_lock t q = Done (q\<lparr>q_mutex := Some m\<rparr>))"
  by (auto simp: q_lock_def split: option.split)

lemma local_no_crash:
  assumes inv: "q_inv c" and t: "t < length (q_pcs c)" and ha: "heap_ok ha (q_rsrc (q_que c))"
    "vRsrcOOMfn (q_rsrc (q_que c)) \<or> ha (item_size (q_que c)) \<noteq> None"
  shows "q_local t ha (q_pcs c ! t) (q_que c) \<noteq> Crash"
proof -
  note i = inv_pc [OF inv t]
  obtain n p where n: "xSemItems (q_que c) = Some n" "xSemPlaces (q_que c) = Some p"
    using inv by (auto simp: q_inv_def q_counts_def)
  obtain xs where xs: "pool_has (q_que c) xs"
    "mset (xQueueList (q_que c)) + tally held c = image_mset (\<lambda>r. r + RSRC_HDR) (mset xs)"
    using inv by (auto simp: q_inv_def q_memory_def)
  have st: "sem_take tmo (Some k) \<noteq> Crash" for tmo k by (simp add: sem_take_def xRsSemWait_def xRsSemTimedWait_def)
  show ?thesis
  proof (cases "q_pcs c ! t")
    case (SPlace tmo item nb)
    then show ?thesis using n i(2) st [of tmo p]
      by (cases "sem_take tmo (Some p)") (auto simp: send_place_def q_bounded_def)
  next
    case (SAlloc item nb)
    have "pxRsrcAlloc (Some (xPool (q_que c))) (Some ''prvQueueSendToBack'') ha (q_rsrc (q_que c)) \<notin> {Abort, Undef}"
      using item_pool_full [OF i(2) xs(1), of "''prvQueueSendToBack''" ha]
        item_pool_alloc [OF i(2) xs(1) ha(1), of "''prvQueueSendToBack''"] ha(2)
      by (cases "unat (unMaxItemCount (q_que c)) \<le> length xs"; cases "ha (item_size (q_que c))") auto
    then show ?thesis using SAlloc lock_cases [of t "q_que c"]
      by (cases "pxRsrcAlloc (Some (xPool (q_que c))) (Some ''prvQueueSendToBack'') ha (q_rsrc (q_que c))")
        (auto simp: send_alloc_def)
  next
    case (SPut a item nb)
    then show ?thesis using i(1) using lock_cases [of t "q_que c"] by (auto simp: send_put_def)
  next
    case (SPost nb)
    then show ?thesis using n by (auto simp: send_post_def xRsSemPost_def)
  next
    case (RItem tmo nb)
    then show ?thesis using n st [of tmo n]
      by (cases "sem_take tmo (Some n)") (auto simp: recv_item_def)
  next
    case (RTake nb)
    obtain a as where l: "xQueueList (q_que c) = a # as"
      using list_not_empty [OF inv t RTake] by (cases "xQueueList (q_que c)") auto
    moreover obtain b where "xItemBuf (q_que c) a = Some b" using inv l by (auto simp: q_inv_def q_fifo_def Cons_eq_map_conv)
    ultimately show ?thesis using RTake using lock_cases [of t "q_que c"] by (auto simp: recv_take_def)
  next
    case (RPost a nb)
    then show ?thesis using n by (auto simp: recv_post_def xRsSemPost_def)
  next
    case (RFree a nb)
    obtain H where "tally held c = {#a#} + H" using tally_part [OF t, of held] RFree by auto
    then have "a \<in># image_mset (\<lambda>r. r + RSRC_HDR) (mset xs)" using xs(2) by (metis union_iff multi_member_this)
    then obtain r where r: "r \<in> set xs" "a = r + RSRC_HDR" by auto
    then show ?thesis using item_pool_free [OF xs(1) r(1)] RFree lock_cases [of t "q_que c"] by (auto simp: recv_free_def)
  qed simp_all
qed

section \<open>First in, first out\<close>

text \<open>C11. In every interleaving of any number of tasks on a bounded, blocking queue, what was taken out
  is a prefix of what was put in, the rest waits in the list in order and there is never more of it
  than the limit allows; and no task reads or frees memory that is not there, as long as the heap
  has memory or an out-of-memory function is set.\<close>
theorem queue_fifo:
  assumes "xRsQueueInit nm mx True sz ha1 ha2 ha3 0 st = Done (None, Some q)"
    "mx \<noteq> 0" "unat mx < 2 ^ 16" "unat sz < 2 ^ 46" "q_reach (q_fresh n q) c"
  shows "(\<exists>bs. q_put c = q_got c @ bs \<and> List.map (xItemBuf (q_que c)) (xQueueList (q_que c)) = List.map Some bs \<and>
      length bs \<le> unat mx) \<and>
    (\<forall>t < length (q_pcs c). \<forall>ha. heap_ok ha (q_rsrc (q_que c)) \<longrightarrow>
      vRsrcOOMfn (q_rsrc (q_que c)) \<or> ha (item_size (q_que c)) \<noteq> None \<longrightarrow>
      q_local t ha (q_pcs c ! t) (q_que c) \<noteq> Crash)"
proof -
  note r = reach_inv [OF assms]
  have "\<exists>bs. q_put c = q_got c @ bs \<and> List.map (xItemBuf (q_que c)) (xQueueList (q_que c)) = List.map Some bs \<and> length bs \<le> unat mx"
    using r q_conf_parts [OF r(1)] by (auto simp: q_fifo_def q_counts_def) (metis add_leD2 length_map)
  then show ?thesis using local_no_crash [OF r(1)] by blast
qed

section \<open>A place that is lost\<close>

definition places :: "queue \<Rightarrow> nat" where
  "places q = (case xSemPlaces q of None \<Rightarrow> 0 | Some p \<Rightarrow> p)"

text \<open>The places that are free, taken by a sender, filled, or about to be given back.\<close>

definition capacity :: "q_conf \<Rightarrow> nat" where
  "capacity c = places (q_que c) + tally placed c + length (xQueueList (q_que c))"

lemma move_capacity:
  assumes inv: "q_inv c" and t: "t < length (q_pcs c)"
    and s: "q_local t ha (q_pcs c ! t) (q_que c) = Done (pc, ins, outs, q)"
    and c': "q_que c' = q" "q_pcs c' = (q_pcs c)[t := pc]"
  shows "places q + placed pc + length (xQueueList q) \<le>
      places (q_que c) + placed (q_pcs c ! t) + length (xQueueList (q_que c))"
proof -
  note i = inv_pc [OF inv t]
  note bd = i(2) [unfolded q_bounded_def]
  show ?thesis
  proof (cases "q_pcs c ! t")
    case (SPlace tmo item nb)
    then obtain r n where x: "sem_take tmo (xSemPlaces (q_que c)) = Done (r, n)" "q = (q_que c)\<lparr>xSemPlaces := n\<rparr>"
      "pc = (if r = None then SAlloc item nb else leaving nb)"
      using s bd by (auto simp: send_place_def obind_Done failed_def split: if_splits)
    then show ?thesis using SPlace sem_take_done [OF x(1)] by (auto simp: places_def)
  next
    case (SAlloc item nb)
    then obtain a st where "q = (q_que c)\<lparr>q_rsrc := st\<rparr>" "pc = (case a of None \<Rightarrow> leaving nb | Some a \<Rightarrow> SPut a item nb)"
      using s send_alloc_done [OF _ i(3)] by (fastforce simp: obind_Done)
    then show ?thesis using SAlloc by (auto simp: places_def split: option.split)
  next
    case (SPut a item nb)
    then have x: "send_put t a item (q_que c) = Done q" "pc = SPost nb" using s by (auto simp: obind_Done)
    then show ?thesis using send_put_done [OF x(1) i(3)] SPut by (auto simp: places_def)
  next
    case (SPost nb)
    then show ?thesis using s bd by (auto simp: send_post_def obind_Done places_def)
  next
    case (RItem tmo nb)
    then show ?thesis using s bd by (auto simp: recv_item_def obind_Done places_def split: if_splits)
  next
    case (RTake nb)
    then obtain r where x: "recv_take t (q_que c) = Done (r, q)" "pc = (case r of None \<Rightarrow> leaving nb | Some (a, b) \<Rightarrow> RPost a nb)"
      using s by (auto simp: obind_Done split: option.splits)
    then show ?thesis using RTake recv_take_done [OF x(1) i(3)]
      by (cases "xQueueList (q_que c)") (auto simp: places_def)
  next
    case (RPost a nb)
    then show ?thesis using s bd by (auto simp: recv_post_def xRsSemPost_def obind_Done places_def split: option.splits)
  next
    case (RFree a nb)
    then show ?thesis using s recv_free_done [OF _ i(3)] by (fastforce simp: obind_Done places_def)
  next
    case Leave
    then show ?thesis using s by (auto simp: q_unlock_def places_def)
  qed (use s in simp)
qed

lemma start_capacity:
  "q_start t f q = Done (pc, q') \<Longrightarrow> places q' = places q \<and> placed pc = 0 \<and> xQueueList q' = xQueueList q"
  by (cases f) (auto simp: obind_Done q_lock_def places_def split: option.splits if_splits)

lemma step_capacity:
  assumes "q_step c c'" "q_inv c"
  shows "capacity c' \<le> capacity c"
  using assms
proof (cases rule: q_step.cases)
  case (call t f pc q)
  then show ?thesis
    using start_capacity [OF call(5)] tally_update [of t c c' pc placed] by (simp add: capacity_def)
next
  case (move t ha pc ins outs q)
  then show ?thesis
    using move_capacity [OF assms(2) move(2,4), of c'] tally_update [of t c c' pc placed]
    by (simp add: capacity_def)
qed

lemma reach_capacity: "q_reach c c' \<Longrightarrow> q_inv c \<Longrightarrow> capacity c' \<le> capacity c"
proof (induction rule: q_reach.induct)
  case (later c c' c'')
  then show ?case using step_capacity [of c' c''] q_reach_keeps [of c c'] by force
qed simp

lemma capacity_bound: "q_inv c \<Longrightarrow> capacity c \<le> unat (unMaxItemCount (q_que c))"
  by (auto simp: q_inv_def q_counts_def capacity_def places_def)

lemma in_use:
  assumes "q_inv c" "pool_has (q_que c) xs"
  shows "length xs = length (xQueueList (q_que c)) + size (tally held c)"
proof -
  obtain ys where ys: "pool_has (q_que c) ys"
    "mset (xQueueList (q_que c)) + tally held c = image_mset (\<lambda>r. r + RSRC_HDR) (mset ys)"
    using assms(1) by (auto simp: q_inv_def q_memory_def)
  have "ys = xs" using ys(1) assms(2) by (auto simp: pool_has_def)
  moreover have "size (mset (xQueueList (q_que c)) + tally held c) = length ys" using ys(2) by simp
  ultimately show ?thesis by simp
qed

text \<open>A receiver posts the free place before it frees the item.  A sender that runs in between takes
  the place, finds the pool of items at its limit, reports that memory is out and never gives the
  place back: from then on, whatever any task does, the queue holds fewer items than its limit.
  The capacity of a queue never grows, and one place is lost each time this happens.\<close>
theorem place_lost:
  assumes "xRsQueueInit nm mx True sz ha1 ha2 ha3 0 st = Done (None, Some q)"
    "mx \<noteq> 0" "unat mx < 2 ^ 16" "unat sz < 2 ^ 46" "q_reach (q_fresh n q) c"
    and t: "t < length (q_pcs c)" "q_pcs c ! t = SAlloc item nb"
    and full: "length (xQueueList (q_que c)) + size (tally held c) = unat mx"
    and go: "heap_ok ha (q_rsrc (q_que c))" "q_local t ha (SAlloc item nb) (q_que c) = Done (pc, ins, outs, q1)"
      "c1 = c\<lparr>q_que := q1, q_pcs := (q_pcs c)[t := pc]\<rparr>" "q_reach c1 c2"
  shows "pc = leaving nb \<and> capacity c1 + 1 = capacity c \<and> places (q_que c2) + length (xQueueList (q_que c2)) < unat mx"
proof -
  note r = reach_inv [OF assms(1-5)]
  note i = inv_pc [OF r(1) t(1)]
  obtain xs where xs: "pool_has (q_que c) xs" using r(1) by (auto simp: q_inv_def q_memory_def)
  then have len: "length xs = unat mx" using in_use [OF r(1)] full by simp
  obtain a where a: "send_alloc t ha (q_que c) = Done (a, q1)" "pc = (case a of None \<Rightarrow> leaving nb | Some a \<Rightarrow> SPut a item nb)"
    "ins = []" "outs = []"
    using go(2) by (auto simp: obind_Done)
  have an: "a = None" "q1 = q_que c"
    using send_alloc_done [OF a(1) i(3)] item_pool_full [OF i(2) xs] len r(2) by auto
  have q1: "pc = leaving nb" using a(2) an by simp
  have c1: "capacity c1 + 1 = capacity c"
    using tally_update [OF t(1), of c1 pc placed] go(3) q1 an t by (simp add: capacity_def)
  have "c1 = c\<lparr>q_que := q1, q_pcs := (q_pcs c)[t := pc], q_put := q_put c @ ins, q_got := q_got c @ outs\<rparr>"
    using go(3) a(3,4) by (cases c) simp
  then have "q_inv c1" using move_keeps [OF r(1) t(1) go(1)] go(2) t(2) by simp
  then have "capacity c2 \<le> capacity c1" by (rule reach_capacity [OF go(4)])
  moreover have "capacity c \<le> unat mx" using capacity_bound [OF r(1)] r(2) by simp
  moreover have "places (q_que c2) + length (xQueueList (q_que c2)) \<le> capacity c2" by (simp add: capacity_def)
  ultimately show ?thesis using q1 c1 by linarith
qed

section \<open>A sender that waits inside of the mutex\<close>

text \<open>The task \<open>t\<close> waits for a place inside of the call that is not to wait, and nobody is about to
  give one back.\<close>

definition locked_up :: "nat \<Rightarrow> bytes \<Rightarrow> q_conf \<Rightarrow> bool" where
  "locked_up t item c =
    (t < length (q_pcs c) \<and> q_pcs c ! t = SPlace 0 item True \<and> xSemPlaces (q_que c) = Some 0 \<and>
     (\<forall>u < length (q_pcs c). \<forall>a nb. q_pcs c ! u \<noteq> RPost a nb))"

lemma start_not_post:
  "q_start t f q = Done (pc, q') \<Longrightarrow> (\<forall>a nb. pc \<noteq> RPost a nb) \<and> xSemPlaces q' = xSemPlaces q"
  by (cases f) (auto simp: obind_Done q_lock_def split: option.splits if_splits)

lemma lock_places: "q_lock t q = Done q1 \<Longrightarrow> xSemPlaces q1 = xSemPlaces q"
  by (auto simp: q_lock_def split: option.splits if_splits)

lemma unlock_places [simp]: "xSemPlaces (q_unlock q) = xSemPlaces q"
  by (simp add: q_unlock_def)

lemma local_not_post:
  assumes "q_local u ha pc0 q = Done (pc, ins, outs, q')" "xSemPlaces q = Some 0" "\<forall>a nb. pc0 \<noteq> RPost a nb"
    "\<forall>nb. pc0 = RTake nb \<longrightarrow> q_lock u q = Blocked"
  shows "(\<forall>a nb. pc \<noteq> RPost a nb) \<and> xSemPlaces q' = Some 0"
proof (cases pc0)
  case (SPlace tmo item nb)
  then show ?thesis using assms(1,2)
    by (auto simp: send_place_def sem_take_def xRsSemWait_def xRsSemTimedWait_def leaving_def obind_Done split: if_splits)
next
  case (SAlloc item nb)
  then show ?thesis using assms(1,2)
    by (auto simp: send_alloc_def leaving_def obind_Done dest!: lock_places split: option.splits if_splits)
next
  case (SPut a item nb)
  then show ?thesis using assms(1,2) by (auto simp: send_put_def obind_Done dest!: lock_places split: if_splits)
next
  case (SPost nb)
  then show ?thesis using assms(1,2) by (auto simp: send_post_def leaving_def obind_Done split: if_splits)
next
  case (RItem tmo nb)
  then show ?thesis using assms(1,2) by (auto simp: recv_item_def leaving_def obind_Done split: if_splits)
next
  case (RTake nb)
  then show ?thesis using assms(1,4) by (simp add: recv_take_def)
next
  case (RFree a nb)
  then show ?thesis using assms(1,2) by (auto simp: recv_free_def leaving_def obind_Done dest!: lock_places split: if_splits)
qed (use assms in auto)

lemma locked_up_step:
  assumes "locked_up t item c" "q_inv c" "q_step c c'"
  shows "locked_up t item c'"
proof -
  note l = assms(1) [unfolded locked_up_def]
  have "\<exists>n. q_mutex (q_que c) = Some (t, n)"
    using assms(2) l by (auto simp: q_inv_def q_mutual_def split: option.splits)
  then have lk: "q_lock u (q_que c) = Blocked" if "u \<noteq> t" for u using that by (auto simp: q_lock_def)
  show ?thesis using assms(3)
  proof (cases rule: q_step.cases)
    case (call u f pc q)
    then show ?thesis using l start_not_post [OF call(5)] by (auto simp: locked_up_def nth_list_update)
  next
    case (move u ha pc ins outs q)
    have "u \<noteq> t"
      using move(4) l inv_pc(2) [OF assms(2)] by (auto simp: q_bounded_def send_place_def sem_take_def xRsSemWait_def obind_Done split: if_splits)
    then show ?thesis using l local_not_post [OF move(4)] lk move(1,2) by (auto simp: locked_up_def nth_list_update)
  qed
qed

text \<open>\<^verbatim>\<open>xRsQueueSendToBack\<close> looks at the length of the list and then waits for a place with the mutex
  held.  When the places are all taken by senders that have not yet filled them, it waits for ever:
  every receiver needs the mutex, so no run of any of the tasks gives a place back.\<close>
theorem send_locks_up:
  assumes "xRsQueueInit nm mx True sz ha1 ha2 ha3 0 st = Done (None, Some q)"
    "mx \<noteq> 0" "unat mx < 2 ^ 16" "unat sz < 2 ^ 46" "q_reach (q_fresh n q) c"
    "locked_up t item c" "q_reach c c'"
  shows "q_pcs c' ! t = SPlace 0 item True \<and> q_local t ha (q_pcs c' ! t) (q_que c') = Blocked \<and>
    (\<forall>u. u \<noteq> t \<longrightarrow> q_lock u (q_que c') = Blocked)"
proof -
  have "locked_up t item c' \<and> q_inv c'" using assms(7,6) reach_inv(1) [OF assms(1-5)]
  proof (induction rule: q_reach.induct)
    case (later c c' c'')
    then show ?case using locked_up_step [of t item c' c''] q_step_keeps [of c' c''] by blast
  qed simp
  then show ?thesis
    by (auto simp: locked_up_def q_inv_def q_mutual_def q_lock_def q_bounded_def send_place_def sem_take_def xRsSemWait_def
        split: option.splits)
qed

section \<open>A concrete queue\<close>

text \<open>A queue for one item of four bytes, in the pool that the resource theory uses as its example.\<close>

definition q_demo :: "(status \<times> queue option) outcome" where
  "q_demo = xRsQueueInit (Some ''q'') 1 True 4 (sample_heap 1000) (sample_heap 3000) (sample_heap 5000) 0 one_pool"

definition demo_item_pool :: rsrc_pool where
  "demo_item_pool =
    \<lparr>pcName = ''q'', xActive = [], pxFreelist = [], pxAllocHelper = None, pxFreeHelper = None,
     ulTotalAllocs = 0, uxSizeEach = 36, uiIncrement = 1, uiFreeOnFree = True, uiMaxNumRes = 1,
     uiNumInUse = 0, uiNumFree = 0, uiLowWater = 0, uiHiWater = 0\<rparr>"

definition demo_q :: "rsrc_state \<Rightarrow> queue" where
  "demo_q st = \<lparr>xQueueList = [], xItemBuf = (\<lambda>_. None), xPool = 72, q_rsrc = st, xSemItems = Some 0, xSemPlaces = Some 1,
     q_mutex = None, unMaxItemCount = 1, xBlock = True, unItemSz = 4\<rparr>"

lemma q_demo_made:
  "\<exists>st. q_demo = Done (None, Some (demo_q st)) \<and> pools st 72 = Some demo_item_pool \<and> (\<forall>r > 72. rsrcs st r = None)"
  by (simp add: q_demo_def xRsQueueInit_def pxRsrcNewPool_def one_pool_def first_pool_def pxRsrcAlloc_def pxRsrcVarAlloc_def sample_pool_def
    refused_def POOL_SZ_def take_first_def new_rsrc_def prviRsrcInitPool_def xRsSemInit_def SEM_VALUE_MAX_def QUEUE_ITEM_HDR_def demo_item_pool_def
    xRsrcPoolPool_def Let_def helped_def RSRC_HDR_def demo_q_def)

text \<open>A schedule: which task makes a call or goes on, with what heap.\<close>

fun q_run :: "(nat \<times> (q_call + heap)) list \<Rightarrow> q_conf \<Rightarrow> q_conf option" where
  "q_run [] c = Some c"
| "q_run ((t, Inl f) # sched) c =
    (if t < length (q_pcs c) \<and> q_pcs c ! t = Idle \<and> call_ok (unItemSz (q_que c)) f
     then (case q_start t f (q_que c) of
             Done (pc, q) \<Rightarrow> q_run sched (c\<lparr>q_que := q, q_pcs := (q_pcs c)[t := pc]\<rparr>)
           | _ \<Rightarrow> None)
     else None)"
| "q_run ((t, Inr ha) # sched) c =
    (if t < length (q_pcs c)
     then (case q_local t ha (q_pcs c ! t) (q_que c) of
             Done (pc, ins, outs, q) \<Rightarrow>
               q_run sched (c\<lparr>q_que := q, q_pcs := (q_pcs c)[t := pc], q_put := q_put c @ ins, q_got := q_got c @ outs\<rparr>)
           | _ \<Rightarrow> None)
     else None)"

lemma reach_from: "q_reach c' c'' \<Longrightarrow> q_step c c' \<Longrightarrow> q_reach c c''"
  by (induction rule: q_reach.induct) (auto intro: q_reach.intros)

lemma reach_trans: "q_reach c' c'' \<Longrightarrow> q_reach c c' \<Longrightarrow> q_reach c c''"
  by (induction rule: q_reach.induct) (auto intro: q_reach.intros)

definition no_heap :: heap where "no_heap n = None"

lemma no_heap_ok: "heap_ok no_heap st"
  by (simp add: heap_ok_def no_heap_def)

lemma run_reach:
  assumes "q_run sched c = Some c'" "\<forall>x \<in> set sched. \<forall>ha. snd x = Inr ha \<longrightarrow> ha = no_heap"
  shows "q_reach c c'"
  using assms
proof (induction sched c rule: q_run.induct)
  case (2 t f sched c)
  then obtain pc q where x: "t < length (q_pcs c)" "q_pcs c ! t = Idle" "call_ok (unItemSz (q_que c)) f"
    "q_start t f (q_que c) = Done (pc, q)" "q_run sched (c\<lparr>q_que := q, q_pcs := (q_pcs c)[t := pc]\<rparr>) = Some c'"
    by (auto split: if_splits outcome.splits)
  show ?case by (rule reach_from [OF _ q_step.call [OF x(1-4)]]) (use 2 x in auto)
next
  case (3 t ha sched c)
  then obtain pc ins outs q where x: "t < length (q_pcs c)" "q_local t ha (q_pcs c ! t) (q_que c) = Done (pc, ins, outs, q)"
    "q_run sched (c\<lparr>q_que := q, q_pcs := (q_pcs c)[t := pc], q_put := q_put c @ ins, q_got := q_got c @ outs\<rparr>) = Some c'"
    by (auto split: if_splits outcome.splits)
  have hk: "heap_ok ha (q_rsrc (q_que c))" using 3(3) by (simp add: no_heap_ok)
  show ?case by (rule reach_from [OF _ q_step.move [OF x(1) hk x(2)]]) (use 3 x in auto)
qed (auto intro: q_reach.here)

text \<open>One item is in the queue, the receiver has posted the place and not freed the item.\<close>

lemma demo_first:
  assumes "pools st 72 = Some demo_item_pool" "\<forall>r > 72. rsrcs st r = None"
  shows "\<exists>st'. send_alloc 0 (sample_heap 5000) ((demo_q st)\<lparr>xSemPlaces := Some 0\<rparr>) =
      Done (Some 5032, (demo_q st')\<lparr>xSemPlaces := Some 0\<rparr>) \<and> pool_has (demo_q st') [5000] \<and>
    heap_ok (sample_heap 5000) st"
proof -
  let ?q = "(demo_q st)\<lparr>xSemPlaces := Some 0\<rparr>"
  have p: "pool_has ?q []" using assms by (simp add: pool_has_def q_pool_def demo_q_def demo_item_pool_def QUEUE_ITEM_HDR_def)
  have h: "heap_ok (sample_heap 5000) st" using assms(2) by (simp add: heap_ok_def sample_heap_def)
  obtain st' where "pxRsrcAlloc (Some 72) (Some ''prvQueueSendToBack'') (sample_heap 5000) st = Ret (Some 5032, st')"
    "pool_has (?q\<lparr>q_rsrc := st'\<rparr>) [5000]"
    using item_pool_alloc [of ?q "[]" "sample_heap 5000" "''prvQueueSendToBack''"] p h
    by (auto simp: q_bounded_def demo_q_def sample_heap_def RSRC_HDR_def)
  then show ?thesis using h
    by (intro exI [of _ st']) (simp add: send_alloc_def q_lock_def q_unlock_def demo_q_def pool_has_def q_pool_def)
qed

definition demo_fill :: "(nat \<times> (q_call + heap)) list" where
  "demo_fill = [(0, Inr no_heap), (0, Inr no_heap), (1, Inl (ReceiveTimed 0)), (1, Inr no_heap), (1, Inr no_heap),
     (1, Inr no_heap), (0, Inl (SendTimed 0 [5, 6, 7, 8])), (0, Inr no_heap)]"

lemma demo_filled:
  "q_run demo_fill \<lparr>q_que = (demo_q st)\<lparr>xSemPlaces := Some 0\<rparr>, q_pcs = [SPut 5032 [1, 2, 3, 4] False, Idle],
      q_put = [], q_got = []\<rparr> =
    Some \<lparr>q_que = (demo_q st)\<lparr>xSemPlaces := Some 0, xItemBuf := [5032 \<mapsto> [1, 2, 3, 4]]\<rparr>,
      q_pcs = [SAlloc [5, 6, 7, 8] False, RFree 5032 False], q_put = [[1, 2, 3, 4]], q_got = [[1, 2, 3, 4]]\<rparr>"
  by (simp add: demo_fill_def demo_q_def send_put_def q_lock_def q_unlock_def send_post_def xRsSemPost_def leaving_def
      recv_item_def recv_take_def recv_post_def send_place_def sem_take_def xRsSemWait_def failed_def)

definition demo_race :: "rsrc_state \<Rightarrow> q_conf" where
  "demo_race st = \<lparr>q_que = (demo_q st)\<lparr>xSemPlaces := Some 0, xItemBuf := [5032 \<mapsto> [1, 2, 3, 4]]\<rparr>,
      q_pcs = [SAlloc [5, 6, 7, 8] False, RFree 5032 False], q_put = [[1, 2, 3, 4]], q_got = [[1, 2, 3, 4]]\<rparr>"

lemma two_idle: "replicate 2 Idle = [Idle, Idle]"
  by (simp add: numeral_2_eq_2)

lemma demo_started:
  "q_run [(0, Inl (SendTimed 0 [1, 2, 3, 4])), (0, Inr no_heap)] (q_fresh 2 (demo_q st)) =
    Some \<lparr>q_que = (demo_q st)\<lparr>xSemPlaces := Some 0\<rparr>, q_pcs = [SAlloc [1, 2, 3, 4] False, Idle], q_put = [], q_got = []\<rparr>"
  by (simp add: demo_q_def q_fresh_def send_place_def sem_take_def xRsSemWait_def failed_def two_idle)

text \<open>The race and its end: both tasks are out of the queue, it is empty, and it has no place left.\<close>

lemma demo_reaches:
  "\<exists>st0 st1 st2. q_demo = Done (None, Some (demo_q st0)) \<and> q_reach (q_fresh 2 (demo_q st0)) (demo_race st1) \<and>
     q_local 0 no_heap (SAlloc [5, 6, 7, 8] False) (q_que (demo_race st1)) = Done (Idle, [], [], q_que (demo_race st1)) \<and>
     q_reach ((demo_race st1)\<lparr>q_que := q_que (demo_race st1), q_pcs := (q_pcs (demo_race st1))[0 := Idle]\<rparr>)
       \<lparr>q_que = (demo_q st2)\<lparr>xSemPlaces := Some 0\<rparr>, q_pcs = [Idle, Idle], q_put = [[1, 2, 3, 4]], q_got = [[1, 2, 3, 4]]\<rparr>"
proof -
  obtain st0 where st0: "q_demo = Done (None, Some (demo_q st0))" "pools st0 72 = Some demo_item_pool" "\<forall>r > 72. rsrcs st0 r = None"
    using q_demo_made by blast
  obtain st1 where st1: "send_alloc 0 (sample_heap 5000) ((demo_q st0)\<lparr>xSemPlaces := Some 0\<rparr>) =
      Done (Some 5032, (demo_q st1)\<lparr>xSemPlaces := Some 0\<rparr>)" "pool_has (demo_q st1) [5000]" "heap_ok (sample_heap 5000) st0"
    using demo_first [OF st0(2,3)] by blast
  let ?a = "\<lparr>q_que = (demo_q st0)\<lparr>xSemPlaces := Some 0\<rparr>, q_pcs = [SAlloc [1, 2, 3, 4] False, Idle], q_put = [], q_got = []\<rparr>"
  let ?b = "\<lparr>q_que = (demo_q st1)\<lparr>xSemPlaces := Some 0\<rparr>, q_pcs = [SPut 5032 [1, 2, 3, 4] False, Idle], q_put = [], q_got = []\<rparr>"
  have 1: "q_reach (q_fresh 2 (demo_q st0)) ?a" by (rule run_reach [OF demo_started]) simp
  have 2: "q_step ?a ?b"
    using q_step.move [of 0 ?a "sample_heap 5000" "SPut 5032 [1, 2, 3, 4] False" "[]" "[]" "(demo_q st1)\<lparr>xSemPlaces := Some 0\<rparr>"]
      st1 by (simp add: demo_q_def)
  have 3: "q_reach ?b (demo_race st1)"
    unfolding demo_race_def by (rule run_reach [OF demo_filled]) (simp add: demo_fill_def)
  have r: "q_reach (q_fresh 2 (demo_q st0)) (demo_race st1)" by (rule reach_trans [OF 3 q_reach.later [OF 1 2]])
  have ph: "pool_has (q_que (demo_race st1)) [5000]"
    using st1(2) by (subst pool_has_cong [of _ "demo_q st1"]) (simp_all add: demo_race_def demo_q_def)
  have "pxRsrcAlloc (Some 72) (Some ''prvQueueSendToBack'') no_heap st1 = Ret (None, st1)"
    using item_pool_full [OF _ ph, of "''prvQueueSendToBack''" no_heap] by (simp add: demo_race_def demo_q_def q_bounded_def)
  then have l: "q_local 0 no_heap (SAlloc [5, 6, 7, 8] False) (q_que (demo_race st1)) = Done (Idle, [], [], q_que (demo_race st1))"
    by (simp add: send_alloc_def demo_race_def demo_q_def q_lock_def q_unlock_def leaving_def)
  obtain st2 where st2: "vRsrcFree (Some 5032) st1 = Ret st2"
    using item_pool_free [OF ph, of 5000] by (auto simp: demo_race_def demo_q_def RSRC_HDR_def)
  let ?c = "(demo_race st1)\<lparr>q_que := q_que (demo_race st1), q_pcs := (q_pcs (demo_race st1))[0 := Idle]\<rparr>"
  have "q_run [(1, Inr no_heap)] ?c =
    Some \<lparr>q_que = (demo_q st2)\<lparr>xSemPlaces := Some 0\<rparr>, q_pcs = [Idle, Idle], q_put = [[1, 2, 3, 4]], q_got = [[1, 2, 3, 4]]\<rparr>"
    using st2 by (simp add: demo_race_def demo_q_def recv_free_def q_lock_def q_unlock_def leaving_def)
  from run_reach [OF this] st0(1) r l show ?thesis by auto
qed

lemma queue_fifo_witness:
  "\<exists>q c. q_demo = Done (None, Some q) \<and> q_reach (q_fresh 2 q) c \<and> q_put c = [[1, 2, 3, 4]] \<and>
     (\<exists>bs. q_put c = q_got c @ bs \<and> List.map (xItemBuf (q_que c)) (xQueueList (q_que c)) = List.map Some bs)"
proof -
  obtain st0 st1 where d: "q_demo = Done (None, Some (demo_q st0))" "q_reach (q_fresh 2 (demo_q st0)) (demo_race st1)"
    using demo_reaches by blast
  have p: "q_put (demo_race st1) = [[1, 2, 3, 4]]" by (simp add: demo_race_def)
  have "\<exists>bs. q_put (demo_race st1) = q_got (demo_race st1) @ bs \<and>
      List.map (xItemBuf (q_que (demo_race st1))) (xQueueList (q_que (demo_race st1))) = List.map Some bs"
    using queue_fifo [OF d(1) [unfolded q_demo_def] _ _ _ d(2)] by auto
  then show ?thesis using d p by blast
qed

section \<open>The simple queue\<close>

text \<open>Its items are pointers; \<open>None\<close> is \<^verbatim>\<open>NULL\<close>.\<close>

record simple_queue =
  sq_list :: "nat list"
  sq_item :: "nat \<Rightarrow> nat option"
  sq_pool :: "nat option"
  sq_rsrc :: rsrc_state

definition SIMPLE_ITEM_SZ :: u64 where "SIMPLE_ITEM_SZ = 40"

definition xSimpleQueueInit ::
  "string option \<Rightarrow> heap \<Rightarrow> heap \<Rightarrow> heap \<Rightarrow> rsrc_state \<Rightarrow> (bool \<times> simple_queue) run" where
  "xSimpleQueueInit nm ha1 ha2 ha3 st =
    rbind (pxRsrcNewPool nm SIMPLE_ITEM_SZ 5 5 0 ha1 ha2 ha3 st) (\<lambda>(p, st1).
      Ret (p \<noteq> None, \<lparr>sq_list = [], sq_item = (\<lambda>_. None), sq_pool = p, sq_rsrc = st1\<rparr>))"

definition vSimpleQueueFini :: "simple_queue \<Rightarrow> simple_queue" where
  "vSimpleQueueFini q = q"

definition xSimpleQueueSendToBack :: "heap \<Rightarrow> nat option \<Rightarrow> simple_queue \<Rightarrow> (bool \<times> simple_queue) run" where
  "xSimpleQueueSendToBack ha x q =
    rbind (pxRsrcAlloc (sq_pool q) (Some ''xSimpleQueueSendToBack'') ha (sq_rsrc q)) (\<lambda>(a, st).
      case a of None \<Rightarrow> Ret (False, q\<lparr>sq_rsrc := st\<rparr>)
      | Some a \<Rightarrow> Ret (True, q\<lparr>sq_rsrc := st, sq_item := (sq_item q)(a := x), sq_list := sq_list q @ [a]\<rparr>))"

definition pvSimpleQueueReceive :: "simple_queue \<Rightarrow> (nat option \<times> simple_queue) run" where
  "pvSimpleQueueReceive q =
    (case sq_list q of [] \<Rightarrow> Ret (None, q)
     | a # rest \<Rightarrow>
         rbind (vRsrcFree (Some a) (sq_rsrc q)) (\<lambda>st.
           Ret (sq_item q a, q\<lparr>sq_list := rest, sq_rsrc := st\<rparr>)))"

end
