(* ===== verification/Queue_Calls.thy ===== *)
theory Queue_Calls
  imports Queues
begin

text \<open>The calls of the queue (\<^verbatim>\<open>common/queue.c\<close>) one at a time, with nobody else in a call: each of them is what it
  says of a bounded first-in-first-out list, with its status and the bytes that are handed over.\<close>

section \<open>A queue with nobody in a call\<close>

text \<open>\<open>q_idle n q bs p\<close>: none of the \<open>n\<close> tasks is in a call, the items \<open>bs\<close> wait in this order and \<open>p\<close> places are free.\<close>

definition q_idle :: "nat \<Rightarrow> queue \<Rightarrow> bytes list \<Rightarrow> nat \<Rightarrow> bool" where
  "q_idle n q bs p = (q_inv ((q_fresh n q)\<lparr>q_put := bs\<rparr>) \<and> q_mutex q = None \<and> xSemPlaces q = Some p)"

lemma tally_idle: "f Idle = 0 \<Longrightarrow> tally f ((q_fresh n q)\<lparr>q_put := bs\<rparr>) = 0"
  by (simp add: tally_def q_fresh_def sum_list_replicate_zero)

lemma idle_facts:
  assumes "q_idle n q bs p"
  shows "q_bounded q" "xSemItems q = Some (length bs)" "xSemPlaces q = Some p" "q_mutex q = None"
    "length (xQueueList q) = length bs" "List.map (xItemBuf q) (xQueueList q) = List.map Some bs"
    "p + length bs \<le> unat (unMaxItemCount q)" "\<exists>xs. pool_has q xs \<and> length xs = length bs \<and> set (xQueueList q) \<subseteq> (\<lambda>r. r + RSRC_HDR) ` set xs"
proof -
  let ?c = "(q_fresh n q)\<lparr>q_put := bs\<rparr>"
  have i: "q_inv ?c" "q_que ?c = q" "q_put ?c = bs" "q_got ?c = []" "q_pcs ?c = replicate n Idle" and p: "xSemPlaces q = Some p"
    using assms by (auto simp: q_idle_def q_fresh_def)
  have t: "tally owed ?c = 0" "tally placed ?c = 0" "tally held ?c = {#}" by (simp_all add: tally_idle)
  show "q_bounded q" "xSemPlaces q = Some p" "q_mutex q = None" using i(1,2) p assms by (simp_all add: q_inv_def q_idle_def)
  show m: "List.map (xItemBuf q) (xQueueList q) = List.map Some bs" using i by (auto simp: q_inv_def q_fifo_def)
  show l: "length (xQueueList q) = length bs" using m by (metis length_map)
  show "xSemItems q = Some (length bs)" "p + length bs \<le> unat (unMaxItemCount q)"
    using i(1,2) t p l by (auto simp: q_inv_def q_counts_def)
  obtain xs where xs: "pool_has q xs" "mset (xQueueList q) = image_mset (\<lambda>r. r + RSRC_HDR) (mset xs)"
    using i(1,2) t(3) by (auto simp: q_inv_def q_memory_def)
  then have "set (xQueueList q) = (\<lambda>r. r + RSRC_HDR) ` set xs" by (metis mset_map mset_eq_setD list.set_map)
  then show "\<exists>xs. pool_has q xs \<and> length xs = length bs \<and> set (xQueueList q) \<subseteq> (\<lambda>r. r + RSRC_HDR) ` set xs"
    using xs(1) in_use [OF i(1), of xs] i(2) t(3) l by auto
qed

lemma idle_again:
  assumes "q_inv c" "q_pcs c = replicate n Idle" "q_put c = q_got c @ bs" "q_mutex (q_que c) = None" "xSemPlaces (q_que c) = Some p"
  shows "q_idle n (q_que c) bs p"
  using assms by (auto simp: q_idle_def q_fresh_def q_inv_def q_memory_def q_fifo_def q_counts_def q_mutual_def tally_def
      split: option.splits)

section \<open>Parts that come through\<close>

text \<open>The mutex is free or the caller's own.\<close>

definition may_lock :: "nat \<Rightarrow> queue \<Rightarrow> bool" where
  "may_lock t q = (case q_mutex q of None \<Rightarrow> True | Some (u, k) \<Rightarrow> u = t \<and> 1 \<le> k)"

lemma may_lock_lock:
  assumes "may_lock t q"
  shows "\<exists>m. q_lock t q = Done (q\<lparr>q_mutex := Some m\<rparr>) \<and> (\<forall>z. q_mutex z = Some m \<longrightarrow> q_unlock z = z\<lparr>q_mutex := q_mutex q\<rparr>)"
  using assms
  by (intro exI [of _ "(t, case q_mutex q of None \<Rightarrow> 1 | Some (u, k) \<Rightarrow> k + 1)"])
    (auto simp: may_lock_def q_lock_def q_unlock_def split: option.splits prod.splits)

lemma send_alloc_does:
  assumes "may_lock t q" "pxRsrcAlloc (Some (xPool q)) (Some ''prvQueueSendToBack'') ha (q_rsrc q) = Ret (a, st)"
  shows "send_alloc t ha q = Done (a, q\<lparr>q_rsrc := st\<rparr>)"
  using may_lock_lock [OF assms(1)] assms(2) by (auto simp: send_alloc_def)

lemma send_put_does:
  assumes "may_lock t q" "length item = unat (unItemSz q)"
  shows "send_put t a item q = Done (q\<lparr>xItemBuf := (xItemBuf q)(a \<mapsto> item), xQueueList := xQueueList q @ [a]\<rparr>)"
  using may_lock_lock [OF assms(1)] assms(2) by (auto simp: send_put_def)

lemma recv_take_does:
  assumes "may_lock t q" "xQueueList q = a # as" "xItemBuf q a = Some b"
  shows "recv_take t q = Done (Some (a, b), q\<lparr>xQueueList := as\<rparr>)"
  using may_lock_lock [OF assms(1)] assms(2,3) by (auto simp: recv_take_def or_crash_def)

lemma recv_free_does:
  assumes "may_lock t q" "vRsrcFree (Some a) (q_rsrc q) = Ret st"
  shows "recv_free t a q = Done (q\<lparr>q_rsrc := st, xItemBuf := (xItemBuf q)(a := None)\<rparr>)"
  using may_lock_lock [OF assms(1)] assms(2) by (auto simp: recv_free_def)

section \<open>A call is a run of steps that keep the invariant\<close>

lemma step_part:
  assumes "q_inv c" "t < length (q_pcs c)" "q_pcs c ! t = pc0" "heap_ok ha (q_rsrc (q_que c))"
    "q_local t ha pc0 (q_que c) = Done (pc, ins, outs, q)"
  shows "q_inv (c\<lparr>q_que := q, q_pcs := (q_pcs c)[t := pc], q_put := q_put c @ ins, q_got := q_got c @ outs\<rparr>)"
  using move_keeps [OF assms(1,2,4)] assms(3,5) by simp

lemma sent_keeps:
  assumes "q_inv c" "t < length (q_pcs c)" "q_pcs c ! t = SPlace tmo item nb" "heap_ok ha (q_rsrc (q_que c))"
    "prvQueueSendToBack t ha tmo item (q_que c) = Done (s, q)"
  shows "q_inv (c\<lparr>q_que := q, q_pcs := (q_pcs c)[t := leaving nb], q_put := q_put c @ (if s = None then [item] else [])\<rparr>)"
proof -
  obtain s1 q1 where 1: "send_place tmo (q_que c) = Done (s1, q1)"
    "if s1 \<noteq> None then q1 = q \<and> s = s1
     else \<exists>a q2. send_alloc t ha q1 = Done (a, q2) \<and>
       (case a of None \<Rightarrow> q2 = q \<and> s = Some ERR_OOM | Some a \<Rightarrow> s = None \<and> obind (send_put t a item q2) send_post = Done q)"
    using assms(5) by (auto simp: prvQueueSendToBack_def obind_Done split: if_splits option.splits)
  let ?c1 = "c\<lparr>q_que := q1, q_pcs := (q_pcs c)[t := if s1 = None then SAlloc item nb else leaving nb]\<rparr>"
  have c1: "q_inv ?c1" using step_part [OF assms(1-4)] 1(1) by (cases c) simp
  show ?thesis
  proof (cases "s1 = None")
    case False
    then obtain x where "s1 = Some x" by blast
    then show ?thesis using c1 1(2) by (cases c) simp
  next
    case True
    then obtain a q2 where a: "send_alloc t ha q1 = Done (a, q2)"
      "case a of None \<Rightarrow> q2 = q \<and> s = Some ERR_OOM | Some a \<Rightarrow> s = None \<and> obind (send_put t a item q2) send_post = Done q"
      using 1(2) by auto
    have ok: "heap_ok ha (q_rsrc q1)"
      using assms(4) 1(1) by (auto simp: send_place_def obind_Done split: if_splits)
    let ?c2 = "c\<lparr>q_que := q2, q_pcs := (q_pcs c)[t := case a of None \<Rightarrow> leaving nb | Some a \<Rightarrow> SPut a item nb]\<rparr>"
    have c2: "q_inv ?c2"
      using step_part [OF c1, of t "SAlloc item nb" ha] True a(1) ok assms(2) by (cases c) simp
    show ?thesis
    proof (cases a)
      case None
      then show ?thesis using c2 a(2) by (cases c) simp
    next
      case (Some x)
      then obtain q3 where q3: "send_put t x item q2 = Done q3" "send_post q3 = Done q" "s = None"
        using a(2) by (auto simp: obind_Done)
      let ?c3 = "c\<lparr>q_que := q3, q_pcs := (q_pcs c)[t := SPost nb], q_put := q_put c @ [item]\<rparr>"
      have c3: "q_inv ?c3"
        using step_part [OF c2, of t "SPut x item nb" no_heap] Some q3(1) assms(2) by (cases c) (simp add: no_heap_ok)
      show ?thesis
        using step_part [OF c3, of t "SPost nb" no_heap] q3(2,3) assms(2) by (cases c) (simp add: no_heap_ok)
    qed
  qed
qed

lemma received_keeps:
  assumes "q_inv c" "t < length (q_pcs c)" "q_pcs c ! t = RItem tmo nb" "prvQueueReceive t tmo (q_que c) = Done (s, b, q)"
  shows "q_inv (c\<lparr>q_que := q, q_pcs := (q_pcs c)[t := leaving nb], q_got := q_got c @ (case b of None \<Rightarrow> [] | Some d \<Rightarrow> [d])\<rparr>)"
proof -
  obtain s1 q1 where 1: "recv_item tmo (q_que c) = Done (s1, q1)"
    "if s1 \<noteq> None then q1 = q \<and> b = None
     else \<exists>r q2. recv_take t q1 = Done (r, q2) \<and>
       (case r of None \<Rightarrow> q2 = q \<and> b = None | Some (a, d) \<Rightarrow> b = Some d \<and> obind (recv_post q2) (recv_free t a) = Done q)"
    using assms(4) by (auto simp: prvQueueReceive_def obind_Done split: if_splits option.splits)
  let ?c1 = "c\<lparr>q_que := q1, q_pcs := (q_pcs c)[t := if s1 = None then RTake nb else leaving nb]\<rparr>"
  have c1: "q_inv ?c1" using step_part [OF assms(1-3) no_heap_ok] 1(1) by (cases c) simp
  show ?thesis
  proof (cases "s1 = None")
    case False
    then obtain x where "s1 = Some x" by blast
    then show ?thesis using c1 1(2) by (cases c) simp
  next
    case True
    then obtain r q2 where r: "recv_take t q1 = Done (r, q2)"
      "case r of None \<Rightarrow> q2 = q \<and> b = None | Some (a, d) \<Rightarrow> b = Some d \<and> obind (recv_post q2) (recv_free t a) = Done q"
      using 1(2) by auto
    let ?c2 = "c\<lparr>q_que := q2, q_pcs := (q_pcs c)[t := case r of None \<Rightarrow> leaving nb | Some (a, d) \<Rightarrow> RPost a nb],
      q_got := q_got c @ (case r of None \<Rightarrow> [] | Some (a, d) \<Rightarrow> [d])\<rparr>"
    have c2: "q_inv ?c2"
      using step_part [OF c1, of t "RTake nb" no_heap] True r(1) assms(2)
      by (cases c; cases r) (auto simp: no_heap_ok)
    show ?thesis
    proof (cases r)
      case None
      then show ?thesis using c2 r(2) by (cases c) simp
    next
      case (Some x)
      obtain a d where x: "x = (a, d)" by (cases x)
      obtain q3 where q3: "recv_post q2 = Done q3" "recv_free t a q3 = Done q" "b = Some d"
        using r(2) Some x by (auto simp: obind_Done)
      let ?c3 = "c\<lparr>q_que := q3, q_pcs := (q_pcs c)[t := RFree a nb], q_got := q_got c @ [d]\<rparr>"
      have c3: "q_inv ?c3"
        using step_part [OF c2, of t "RPost a nb" no_heap] Some x q3(1) assms(2) by (cases c) (simp add: no_heap_ok)
      show ?thesis
        using step_part [OF c3, of t "RFree a nb" no_heap] q3(2,3) assms(2) by (cases c) (simp add: no_heap_ok)
    qed
  qed
qed

section \<open>What a call returns\<close>

lemma sent_outcome:
  assumes "q_bounded q" "xSemItems q = Some i" "xSemPlaces q = Some p" "may_lock t q" "pool_has q xs"
    "p + length xs \<le> unat (unMaxItemCount q)" "heap_ok ha (q_rsrc q)" "length item = unat (unItemSz q)"
  shows "p = 0 \<Longrightarrow> prvQueueSendToBack t ha tmo item q = (if tmo = 0 then Blocked else Done (Some ERR_ERR, q))"
    "p \<noteq> 0 \<Longrightarrow> ha (item_size q) \<noteq> None \<Longrightarrow>
      \<exists>q'. prvQueueSendToBack t ha tmo item q = Done (None, q') \<and> xSemPlaces q' = Some (p - 1) \<and> q_mutex q' = q_mutex q"
    "p \<noteq> 0 \<Longrightarrow> ha (item_size q) = None \<Longrightarrow> vRsrcOOMfn (q_rsrc q) \<Longrightarrow>
      \<exists>q'. prvQueueSendToBack t ha tmo item q = Done (Some ERR_OOM, q') \<and> xSemPlaces q' = Some (p - 1) \<and> q_mutex q' = q_mutex q"
proof -
  have b: "xBlock q" "unMaxItemCount q \<noteq> 0" using assms(1) by (simp_all add: q_bounded_def)
  show "prvQueueSendToBack t ha tmo item q = (if tmo = 0 then Blocked else Done (Some ERR_ERR, q))" if "p = 0"
    using that assms(3) b by (cases q)
      (simp add: prvQueueSendToBack_def send_place_def sem_take_def xRsSemWait_def xRsSemTimedWait_def failed_def)
  let ?q = "q\<lparr>xSemPlaces := Some (p - 1)\<rparr>"
  have pl: "send_place tmo q = Done (None, ?q)" if "p \<noteq> 0"
    using that assms(3) b by (simp add: send_place_def sem_take_def xRsSemWait_def xRsSemTimedWait_def failed_def)
  have m: "may_lock t ?q" using assms(4) by (simp add: may_lock_def)
  have al: "case ha (item_size q) of
      None \<Rightarrow> pxRsrcAlloc (Some (xPool q)) (Some ''prvQueueSendToBack'') ha (q_rsrc q) =
        (if vRsrcOOMfn (q_rsrc q) then Ret (None, q_rsrc q) else Abort)
    | Some (r, blk) \<Rightarrow> \<exists>st. pxRsrcAlloc (Some (xPool q)) (Some ''prvQueueSendToBack'') ha (q_rsrc q) = Ret (Some (r + RSRC_HDR), st)"
    if "p \<noteq> 0"
    using item_pool_alloc [OF assms(1,5,7), of "''prvQueueSendToBack''"] that assms(6) by (auto split: option.splits)
  show "\<exists>q'. prvQueueSendToBack t ha tmo item q = Done (None, q') \<and> xSemPlaces q' = Some (p - 1) \<and> q_mutex q' = q_mutex q"
    if n: "p \<noteq> 0" "ha (item_size q) \<noteq> None"
  proof -
    obtain a st where "pxRsrcAlloc (Some (xPool ?q)) (Some ''prvQueueSendToBack'') ha (q_rsrc ?q) = Ret (Some a, st)"
      using al [OF n(1)] n(2) by (auto split: option.splits)
    note sa = send_alloc_does [OF m this]
    have "may_lock t (?q\<lparr>q_rsrc := st\<rparr>)" "length item = unat (unItemSz (?q\<lparr>q_rsrc := st\<rparr>))"
      using assms(4,8) by (simp_all add: may_lock_def)
    note sp = send_put_does [OF this, of a]
    show ?thesis using pl [OF n(1)] sa sp b(1) assms(2)
      by (simp add: prvQueueSendToBack_def send_post_def xRsSemPost_def)
  qed
  show "\<exists>q'. prvQueueSendToBack t ha tmo item q = Done (Some ERR_OOM, q') \<and> xSemPlaces q' = Some (p - 1) \<and> q_mutex q' = q_mutex q"
    if "p \<noteq> 0" "ha (item_size q) = None" "vRsrcOOMfn (q_rsrc q)"
  proof -
    have "pxRsrcAlloc (Some (xPool ?q)) (Some ''prvQueueSendToBack'') ha (q_rsrc ?q) = Ret (None, q_rsrc q)"
      using al that by simp
    note sa = send_alloc_does [OF m this]
    show ?thesis using pl [OF that(1)] sa by (simp add: prvQueueSendToBack_def)
  qed
qed

lemma received_outcome:
  assumes "q_bounded q" "xSemItems q = Some (length (xQueueList q))" "xSemPlaces q = Some p" "may_lock t q" "pool_has q xs"
    "set (xQueueList q) \<subseteq> (\<lambda>r. r + RSRC_HDR) ` set xs"
  shows "xQueueList q = [] \<Longrightarrow> prvQueueReceive t tmo q = (if tmo = 0 then Blocked else Done (Some ERR_ERR, None, q))"
    "xQueueList q = a # as \<Longrightarrow> xItemBuf q a = Some b \<Longrightarrow>
      \<exists>q'. prvQueueReceive t tmo q = Done (None, Some b, q') \<and> xSemPlaces q' = Some (p + 1) \<and> q_mutex q' = q_mutex q"
proof -
  have bl: "xBlock q" using assms(1) by (simp add: q_bounded_def)
  show "prvQueueReceive t tmo q = (if tmo = 0 then Blocked else Done (Some ERR_ERR, None, q))" if "xQueueList q = []"
    using that assms(2) bl by (cases q)
      (simp add: prvQueueReceive_def recv_item_def sem_take_def xRsSemWait_def xRsSemTimedWait_def failed_def)
  show "\<exists>q'. prvQueueReceive t tmo q = Done (None, Some b, q') \<and> xSemPlaces q' = Some (p + 1) \<and> q_mutex q' = q_mutex q"
    if l: "xQueueList q = a # as" "xItemBuf q a = Some b"
  proof -
    let ?q = "q\<lparr>xSemItems := Some (length as)\<rparr>"
    have it: "recv_item tmo q = Done (None, ?q)"
      using l(1) assms(2) bl by (simp add: recv_item_def sem_take_def xRsSemWait_def xRsSemTimedWait_def failed_def)
    have tk: "recv_take t ?q = Done (Some (a, b), ?q\<lparr>xQueueList := as\<rparr>)"
      by (rule recv_take_does) (use assms(4) l in \<open>simp_all add: may_lock_def\<close>)
    let ?q3 = "?q\<lparr>xQueueList := as, xSemPlaces := Some (p + 1)\<rparr>"
    obtain r where r: "r \<in> set xs" "a = r + RSRC_HDR" using assms(6) l(1) by auto
    obtain st where st: "vRsrcFree (Some a) (q_rsrc q) = Ret st" using item_pool_free [OF assms(5) r(1)] r(2) by auto
    have fr: "recv_free t a ?q3 = Done (?q3\<lparr>q_rsrc := st, xItemBuf := (xItemBuf ?q3)(a := None)\<rparr>)"
      by (rule recv_free_does) (use assms(4) st in \<open>simp_all add: may_lock_def\<close>)
    show ?thesis using it tk fr bl assms(3) by (simp add: prvQueueReceive_def recv_post_def xRsSemPost_def)
  qed
qed

lemma idle_conf: "q_idle n q bs p \<Longrightarrow> q_inv \<lparr>q_que = q, q_pcs = replicate n Idle, q_put = bs, q_got = []\<rparr>"
  by (simp add: q_idle_def q_fresh_def)

lemma all_idle: "(replicate n Idle)[t := Idle] = replicate n Idle"
  by (cases "t < n") (auto intro!: nth_equalityI simp: nth_list_update list_update_beyond)

text \<open>The calls that may wait.\<close>

lemma sent_idle:
  assumes "q_idle n q bs p" "t < n" "length item = unat (unItemSz q)" "heap_ok ha (q_rsrc q)"
    "prvQueueSendToBack t ha tmo item q = Done (s, q')" "xSemPlaces q' = Some p'" "q_mutex q' = q_mutex q"
  shows "q_idle n q' (bs @ (if s = None then [item] else [])) p'"
proof -
  let ?c = "\<lparr>q_que = q, q_pcs = replicate n Idle, q_put = bs, q_got = []\<rparr>"
  let ?c1 = "?c\<lparr>q_pcs := (replicate n Idle)[t := SPlace tmo item False]\<rparr>"
  have "q_inv ?c1" using call_keeps [OF idle_conf [OF assms(1)], of t "SendTimed tmo item"] assms(2,3) by simp
  from sent_keeps [OF this, of t tmo item False ha s q'] assms(2,4,5)
  have "q_inv \<lparr>q_que = q', q_pcs = replicate n Idle, q_put = bs @ (if s = None then [item] else []), q_got = []\<rparr>"
    by (simp add: leaving_def all_idle)
  from idle_again [OF this, of n] show ?thesis using assms(6,7) idle_facts(4) [OF assms(1)] by simp
qed

lemma received_idle:
  assumes "q_idle n q bs p" "t < n" "prvQueueReceive t tmo q = Done (s, Some b, q')" "xSemPlaces q' = Some p'"
    "q_mutex q' = q_mutex q" "bs = b # rest"
  shows "q_idle n q' rest p'"
proof -
  let ?c = "\<lparr>q_que = q, q_pcs = replicate n Idle, q_put = bs, q_got = []\<rparr>"
  let ?c1 = "?c\<lparr>q_pcs := (replicate n Idle)[t := RItem tmo False]\<rparr>"
  have "q_inv ?c1" using call_keeps [OF idle_conf [OF assms(1)], of t "ReceiveTimed tmo"] assms(2) by simp
  from received_keeps [OF this, of t tmo False s "Some b" q'] assms(2,3)
  have "q_inv \<lparr>q_que = q', q_pcs = replicate n Idle, q_put = bs, q_got = [b]\<rparr>"
    by (simp add: leaving_def all_idle)
  from idle_again [OF this, of n] show ?thesis using assms(4-6) idle_facts(4) [OF assms(1)] by simp
qed

text \<open>The calls that do not, with the mutex held around them.\<close>

lemma lock_idle: "q_mutex q = None \<Longrightarrow> q_lock t q = Done (q\<lparr>q_mutex := Some (t, 1)\<rparr>)"
  by (simp add: q_lock_def)

lemma send_now_idle:
  assumes "q_idle n q bs p" "t < n" "length item = unat (unItemSz q)" "heap_ok ha (q_rsrc q)" "\<not> q_full q"
    "prvQueueSendToBack t ha 0 item (q\<lparr>q_mutex := Some (t, 1)\<rparr>) = Done (s, q')" "xSemPlaces q' = Some p'"
    "q_mutex q' = Some (t, 1)"
  shows "xRsQueueSendToBack t ha item q = Done (s, q_unlock q')"
    "q_idle n (q_unlock q') (bs @ (if s = None then [item] else [])) p'"
proof -
  note m = idle_facts(4) [OF assms(1)]
  let ?q = "q\<lparr>q_mutex := Some (t, 1)\<rparr>"
  have f: "\<not> q_full ?q" using assms(5) by (simp add: q_full_def)
  show "xRsQueueSendToBack t ha item q = Done (s, q_unlock q')"
    using lock_idle [OF m, of t] f assms(6) by (simp add: xRsQueueSendToBack_def)
  let ?c = "\<lparr>q_que = q, q_pcs = replicate n Idle, q_put = bs, q_got = []\<rparr>"
  let ?c1 = "\<lparr>q_que = ?q, q_pcs = (replicate n Idle)[t := SPlace 0 item True], q_put = bs, q_got = []\<rparr>"
  have "q_inv ?c1"
    using call_keeps [OF idle_conf [OF assms(1)], of t "Send item" "SPlace 0 item True" ?q] assms(2,3) lock_idle [OF m, of t] f by simp
  from sent_keeps [OF this, of t 0 item True ha s q'] assms(2,4,6)
  have 2: "q_inv \<lparr>q_que = q', q_pcs = (replicate n Idle)[t := Leave], q_put = bs @ (if s = None then [item] else []), q_got = []\<rparr>"
    by (simp add: leaving_def)
  from step_part [OF this, of t Leave no_heap] assms(2)
  have "q_inv \<lparr>q_que = q_unlock q', q_pcs = replicate n Idle, q_put = bs @ (if s = None then [item] else []), q_got = []\<rparr>"
    by (simp add: all_idle no_heap_ok)
  from idle_again [OF this, of n] show "q_idle n (q_unlock q') (bs @ (if s = None then [item] else [])) p'"
    using assms(7,8) by (simp add: q_unlock_def)
qed

lemma receive_now_idle:
  assumes "q_idle n q bs p" "t < n" "xQueueList q \<noteq> []"
    "prvQueueReceive t 0 (q\<lparr>q_mutex := Some (t, 1)\<rparr>) = Done (s, Some b, q')" "xSemPlaces q' = Some p'"
    "q_mutex q' = Some (t, 1)" "bs = b # rest"
  shows "xRsQueueReceive t q = Done (s, Some b, q_unlock q')" "q_idle n (q_unlock q') rest p'"
proof -
  note m = idle_facts(4) [OF assms(1)]
  let ?q = "q\<lparr>q_mutex := Some (t, 1)\<rparr>"
  show "xRsQueueReceive t q = Done (s, Some b, q_unlock q')"
    using lock_idle [OF m, of t] assms(3,4) by (simp add: xRsQueueReceive_def)
  let ?c1 = "\<lparr>q_que = ?q, q_pcs = (replicate n Idle)[t := RItem 0 True], q_put = bs, q_got = []\<rparr>"
  have "q_inv ?c1"
    using call_keeps [OF idle_conf [OF assms(1)], of t Receive "RItem 0 True" ?q] assms(2,3) lock_idle [OF m, of t] by simp
  from received_keeps [OF this, of t 0 True s "Some b" q'] assms(2,4)
  have 2: "q_inv \<lparr>q_que = q', q_pcs = (replicate n Idle)[t := Leave], q_put = bs, q_got = [b]\<rparr>"
    by (simp add: leaving_def)
  from step_part [OF this, of t Leave no_heap] assms(2)
  have "q_inv \<lparr>q_que = q_unlock q', q_pcs = replicate n Idle, q_put = bs, q_got = [b]\<rparr>"
    by (simp add: all_idle no_heap_ok)
  from idle_again [OF this, of n] show "q_idle n (q_unlock q') rest p'" using assms(5-7) by (simp add: q_unlock_def)
qed

section \<open>The calls as a bounded list\<close>

lemma full_idle:
  assumes "q_idle n q bs p"
  shows "q_full q = (length bs = unat (unMaxItemCount q))"
proof -
  note f = idle_facts [OF assms]
  have "length bs < 2 ^ 64" "unMaxItemCount q \<noteq> 0" using f(1,7) by (auto simp: q_bounded_def)
  then have "(of_nat (length bs) = unMaxItemCount q) = (length bs = unat (unMaxItemCount q))"
    by (simp add: word_unat_eq_iff unat_of_nat take_bit_nat_eq_self)
  then show ?thesis using f(5) \<open>unMaxItemCount q \<noteq> 0\<close> by (simp add: q_full_def)
qed

text \<open>C32. One call at a time, the queue is a bounded list, first in first out, and each call says truly what became of it.  With a
  free place and memory an item is appended, and a place less is free; without memory, if a function for that case keeps
  the program going, the call fails, nothing is appended and the place is lost all the same.  Without a free place, the call with a time-out of zero waits for
  ever, one with another time-out fails and changes nothing, and the call that should never wait fails if the list
  is at its limit, but waits for ever, with the mutex, if it is not.  Receiving gives the bytes of the first item and
  frees a place; from an empty list it waits, or fails and changes nothing.\<close>
theorem queue_calls:
  assumes "q_idle n q bs p" "t < n" "length item = unat (unItemSz q)" "heap_ok ha (q_rsrc q)"
  shows "(p \<noteq> 0 \<and> ha (item_size q) \<noteq> None \<longrightarrow>
      (\<exists>q'. xRsQueueSendToBackTimed t ha item tmo q = Done (None, q') \<and> q_idle n q' (bs @ [item]) (p - 1)) \<and>
      (\<exists>q'. xRsQueueSendToBack t ha item q = Done (None, q') \<and> q_idle n q' (bs @ [item]) (p - 1))) \<and>
    (p \<noteq> 0 \<and> ha (item_size q) = None \<and> vRsrcOOMfn (q_rsrc q) \<longrightarrow>
      (\<exists>q'. xRsQueueSendToBackTimed t ha item tmo q = Done (Some ERR_OOM, q') \<and> q_idle n q' bs (p - 1)) \<and>
      (\<exists>q'. xRsQueueSendToBack t ha item q = Done (Some ERR_OOM, q') \<and> q_idle n q' bs (p - 1))) \<and>
    (p = 0 \<longrightarrow>
      xRsQueueSendToBackTimed t ha item tmo q = (if tmo = 0 then Blocked else Done (Some ERR_ERR, q)) \<and>
      xRsQueueSendToBack t ha item q = (if length bs = unat (unMaxItemCount q) then Done (Some ERR_OVERFLOW, q) else Blocked)) \<and>
    (bs = [] \<longrightarrow>
      xRsQueueReceiveTimed t tmo q = (if tmo = 0 then Blocked else Done (Some ERR_ERR, None, q)) \<and>
      xRsQueueReceive t q = Done (Some ERR_UNDERFLOW, None, q)) \<and>
    (\<forall>b rest. bs = b # rest \<longrightarrow>
      (\<exists>q'. xRsQueueReceiveTimed t tmo q = Done (None, Some b, q') \<and> q_idle n q' rest (p + 1)) \<and>
      (\<exists>q'. xRsQueueReceive t q = Done (None, Some b, q') \<and> q_idle n q' rest (p + 1)))"
proof -
  note f = idle_facts [OF assms(1)] and full = full_idle [OF assms(1)] and lk = lock_idle [OF idle_facts(4) [OF assms(1)], of t]
  obtain xs where xs: "pool_has q xs" "length xs = length bs" "set (xQueueList q) \<subseteq> (\<lambda>r. r + RSRC_HDR) ` set xs"
    using f(8) by blast
  let ?q = "q\<lparr>q_mutex := Some (t, 1)\<rparr>"
  have ml: "may_lock t q" "may_lock t ?q" using f(4) by (simp_all add: may_lock_def)
  have px: "p + length xs \<le> unat (unMaxItemCount q)" using f(7) xs(2) by simp
  have q1: "q_bounded ?q" "pool_has ?q xs" "item_size ?q = item_size q"
    using f(1) xs(1) pool_has_cong [of ?q q xs] by (simp_all add: q_bounded_def item_size_def)
  have p1: "xSemItems ?q = Some (length bs)" "xSemPlaces ?q = Some p" "p + length xs \<le> unat (unMaxItemCount ?q)"
    "heap_ok ha (q_rsrc ?q)" "length item = unat (unItemSz ?q)" "xSemItems ?q = Some (length (xQueueList ?q))"
    "set (xQueueList ?q) \<subseteq> (\<lambda>r. r + RSRC_HDR) ` set xs" "q_rsrc ?q = q_rsrc q" "xQueueList ?q = xQueueList q" "xItemBuf ?q = xItemBuf q"
    using f(2,3,5) px assms(3,4) xs(3) by simp_all
  note so = sent_outcome [OF f(1,2,3) ml(1) xs(1) px assms(4,3)]
    and so1 = sent_outcome [OF q1(1) p1(1,2) ml(2) q1(2) p1(3-5), unfolded q1(3) p1(8)]
    and ro = received_outcome [OF f(1) f(2) [folded f(5)] f(3) ml(1) xs(1,3)]
    and ro1 = received_outcome [OF q1(1) p1(6,2) ml(2) q1(2) p1(7), unfolded p1(9,10)]
  have nf: "\<not> q_full q" if "p \<noteq> 0" using that full f(7) by simp
  have un: "q_unlock ?q = q" using f(4) by (cases q) (simp add: q_unlock_def)
  note defs = xRsQueueSendToBackTimed_def xRsQueueReceiveTimed_def
  have 1: "(\<exists>q'. xRsQueueSendToBackTimed t ha item tmo q = Done (None, q') \<and> q_idle n q' (bs @ [item]) (p - 1)) \<and>
      (\<exists>q'. xRsQueueSendToBack t ha item q = Done (None, q') \<and> q_idle n q' (bs @ [item]) (p - 1))"
    if "p \<noteq> 0" "ha (item_size q) \<noteq> None"
    using so(2) [OF that, of tmo] so1(2) [OF that, of 0] that
      sent_idle [OF assms, of tmo None] send_now_idle [OF assms nf [OF that(1)], of None] by (fastforce simp: defs)
  have 2: "(\<exists>q'. xRsQueueSendToBackTimed t ha item tmo q = Done (Some ERR_OOM, q') \<and> q_idle n q' bs (p - 1)) \<and>
      (\<exists>q'. xRsQueueSendToBack t ha item q = Done (Some ERR_OOM, q') \<and> q_idle n q' bs (p - 1))"
    if "p \<noteq> 0" "ha (item_size q) = None" "vRsrcOOMfn (q_rsrc q)"
    using so(3) [OF that, of tmo] so1(3) [OF that, of 0] that
      sent_idle [OF assms, of tmo "Some ERR_OOM"] send_now_idle [OF assms nf [OF that(1)], of "Some ERR_OOM"] by (fastforce simp: defs)
  have 3: "xRsQueueSendToBackTimed t ha item tmo q = (if tmo = 0 then Blocked else Done (Some ERR_ERR, q)) \<and>
      xRsQueueSendToBack t ha item q = (if length bs = unat (unMaxItemCount q) then Done (Some ERR_OVERFLOW, q) else Blocked)" if "p = 0"
    using so(1) [OF that, of tmo] so1(1) [OF that, of 0] that full lk un by (simp add: defs xRsQueueSendToBack_def q_full_def)
  have 4: "xRsQueueReceiveTimed t tmo q = (if tmo = 0 then Blocked else Done (Some ERR_ERR, None, q)) \<and>
      xRsQueueReceive t q = Done (Some ERR_UNDERFLOW, None, q)" if "bs = []"
    using ro(1) [of tmo] that f(5) lk un by (simp add: defs xRsQueueReceive_def)
  have 5: "(\<exists>q'. xRsQueueReceiveTimed t tmo q = Done (None, Some b, q') \<and> q_idle n q' rest (p + 1)) \<and>
      (\<exists>q'. xRsQueueReceive t q = Done (None, Some b, q') \<and> q_idle n q' rest (p + 1))" if b: "bs = b # rest" for b rest
  proof -
    obtain a as where l: "xQueueList q = a # as" "xItemBuf q a = Some b" using f(6) b by (cases "xQueueList q") auto
    then have ne: "xQueueList q \<noteq> []" by simp
    show ?thesis
      using ro(2) [OF l, of tmo] ro1(2) [OF l, of 0] received_idle [OF assms(1,2), of tmo None b _ "p + 1" rest]
        receive_now_idle [OF assms(1,2) ne, of None b _ "p + 1" rest] b by (fastforce simp: defs)
  qed
  show ?thesis using 1 2 3 4 5 by blast
qed

text \<open>A new queue is empty and has all its places.\<close>

lemma fresh_idle:
  assumes "xRsQueueInit nm mx True sz ha1 ha2 ha3 0 st = Done (None, Some q)" "mx \<noteq> 0" "unat mx < 2 ^ 16" "unat sz < 2 ^ 46"
  shows "q_idle n q [] (unat mx)"
proof -
  have u: "unat (ucast mx :: u32) = unat mx" using assms(3) by (simp add: unsigned_ucast_eq take_bit_nat_eq_self)
  have "q_mutex q = None \<and> xSemPlaces q = xRsSemInit mx" using assms(1,2)
    by (cases "pxRsrcNewPool nm (QUEUE_ITEM_HDR + sz) 0 1 (ucast mx) ha1 ha2 ha3 st")
      (auto simp: xRsQueueInit_def split: option.splits if_splits)
  moreover have "xRsSemInit mx = Some (unat mx)" using assms(3) u by (simp add: xRsSemInit_def SEM_VALUE_MAX_def)
  ultimately show ?thesis using fresh_inv(1) [OF assms, of n] by (simp add: q_idle_def q_fresh_def)
qed

lemma queue_calls_witness:
  "\<exists>q q1 q2 item. q_demo = Done (None, Some q) \<and> xRsQueueSendToBackTimed 0 (sample_heap 5000) [1, 2, 3, 4] 0 q = Done (None, q1) \<and>
    xRsQueueSendToBackTimed 0 no_heap item 9 q1 = Done (Some ERR_ERR, q1) \<and>
    xRsQueueReceive 0 q1 = Done (None, Some [1, 2, 3, 4], q2) \<and> xRsQueueReceive 0 q2 = Done (Some ERR_UNDERFLOW, None, q2)"
proof -
  obtain st where st: "q_demo = Done (None, Some (demo_q st))" "\<forall>r > 72. rsrcs st r = None" using q_demo_made by blast
  let ?q = "demo_q st"
  have i: "q_idle 1 ?q [] (unat (1 :: u64))" by (rule fresh_idle [OF st(1) [unfolded q_demo_def]]) simp_all
  have h: "heap_ok (sample_heap 5000) (q_rsrc ?q)" using st(2) by (simp add: heap_ok_def sample_heap_def demo_q_def)
  have l: "length [1, 2, 3, 4 :: u8] = unat (unItemSz ?q)" by (simp add: demo_q_def)
  obtain q1 where q1: "xRsQueueSendToBackTimed 0 (sample_heap 5000) [1, 2, 3, 4] 0 ?q = Done (None, q1)" "q_idle 1 q1 [[1, 2, 3, 4]] 0"
    using queue_calls [OF i _ l h, of 0 0] by (auto simp: sample_heap_def)
  let ?item = "replicate (unat (unItemSz q1)) (0 :: u8)"
  obtain q2 where q2: "xRsQueueSendToBackTimed 0 no_heap ?item 9 q1 = Done (Some ERR_ERR, q1)"
    "xRsQueueReceive 0 q1 = Done (None, Some [1, 2, 3, 4], q2)" "q_idle 1 q2 [] 1"
    using queue_calls [OF q1(2) _ _ no_heap_ok, of 0 ?item 9] by auto
  have "xRsQueueReceive 0 q2 = Done (Some ERR_UNDERFLOW, None, q2)"
    using queue_calls [OF q2(3) _ _ no_heap_ok, of 0 "replicate (unat (unItemSz q2)) 0"] by auto
  then show ?thesis using st(1) q1(1) q2(1,2) by blast
qed

end
