(* ===== verification/Serdes.thy ===== *)
theory Serdes
  imports Enrollment Rsrc
begin

text \<open>Serialisation of CDAP messages, enrollment information and data (\<^verbatim>\<open>SerDes/SerDesMessage.c\<close>,
  \<^verbatim>\<open>SerDesEnrollment.c\<close>, \<^verbatim>\<open>SerDesAData.c\<close>).  The protocol buffers are those of nanopb, a library: its
  encoder and decoder for each message structure are parameters.  \<open>sent\<close> is what a message structure is
  after a trip through them: a field whose flag is not set is not transmitted and comes out as zeros.\<close>

section \<open>Message structures\<close>

text \<open>An optional field: its flag and its contents, which are there whatever the flag says.\<close>

type_synonym wire_str = "bool \<times> bytes"

definition sent_str :: "wire_str \<Rightarrow> wire_str" where
  "sent_str s = (if fst s then s else (False, replicate (length (snd s)) 0))"

definition sent_num :: "bool \<times> ('n :: zero) \<Rightarrow> bool \<times> 'n" where
  "sent_num x = (if fst x then x else (False, 0))"

text \<open>The macro \<^verbatim>\<open>_COPY\<close>: a string that is there is copied into the \<open>n\<close> bytes of the field.\<close>

definition field_copy :: "nat \<Rightarrow> bytes option \<Rightarrow> wire_str" where
  "field_copy n y = (case y of None \<Rightarrow> (False, replicate n 0) | Some s \<Rightarrow> (True, strncpy s n))"

record cdap_wire =
  w_opCode :: u32
  w_invokeID :: "bool \<times> u32"
  w_objClass :: wire_str
  w_objName :: wire_str
  w_objInst :: "bool \<times> u64"
  w_objValue :: wire_str
  w_result :: "bool \<times> u32"
  w_has_auth :: bool
  w_auth_name :: wire_str
  w_auth_version :: wire_str
  w_destAEInst :: wire_str
  w_destAEName :: wire_str
  w_destApInst :: wire_str
  w_destApName :: wire_str
  w_srcAEInst :: wire_str
  w_srcAEName :: wire_str
  w_srcApInst :: wire_str
  w_srcApName :: wire_str
  w_resultReason :: wire_str
  w_version :: "bool \<times> u64"

text \<open>The name and version of the authentication policy go with the policy.\<close>

definition sent_cdap :: "cdap_wire \<Rightarrow> cdap_wire" where
  "sent_cdap w =
    \<lparr>w_opCode = w_opCode w, w_invokeID = sent_num (w_invokeID w), w_objClass = sent_str (w_objClass w),
     w_objName = sent_str (w_objName w), w_objInst = sent_num (w_objInst w),
     w_objValue = (if fst (w_objValue w) then w_objValue w else (False, [])), w_result = sent_num (w_result w),
     w_has_auth = w_has_auth w,
     w_auth_name = sent_str (w_has_auth w \<and> fst (w_auth_name w), snd (w_auth_name w)),
     w_auth_version = sent_str (w_has_auth w \<and> fst (w_auth_version w), snd (w_auth_version w)),
     w_destAEInst = sent_str (w_destAEInst w), w_destAEName = sent_str (w_destAEName w),
     w_destApInst = sent_str (w_destApInst w), w_destApName = sent_str (w_destApName w),
     w_srcAEInst = sent_str (w_srcAEInst w), w_srcAEName = sent_str (w_srcAEName w),
     w_srcApInst = sent_str (w_srcApInst w), w_srcApName = sent_str (w_srcApName w),
     w_resultReason = sent_str (w_resultReason w), w_version = sent_num (w_version w)\<rparr>"

text \<open>Messages with the authentication policy.\<close>

record auth_cdap = cdap +
  auth_name :: "bytes option"
  auth_version :: "bytes option"

definition NAME_SZ :: nat where "NAME_SZ = 20"
definition OBJ_SZ :: nat where "OBJ_SZ = 40"
definition REASON_SZ :: nat where "REASON_SZ = 20"
definition AUTH_SZ :: nat where "AUTH_SZ = 40"
definition BYTEVAL_SZ :: nat where "BYTEVAL_SZ = 512"

lemmas field_sizes = NAME_SZ_def OBJ_SZ_def REASON_SZ_def AUTH_SZ_def BYTEVAL_SZ_def

section \<open>Pools\<close>

text \<open>The pools of an initialisation, one after the other: name, size, initial number, increment and
  limit.  \<open>ha\<close> gives the heap at each of the three requests of each pool.\<close>

fun new_pools ::
  "(nat \<Rightarrow> heap) \<Rightarrow> (string \<times> u64 \<times> u32 \<times> u32 \<times> u32) list \<Rightarrow> rsrc_state \<Rightarrow> (nat list option \<times> rsrc_state) run" where
  "new_pools ha [] st = Ret (Some [], st)"
| "new_pools ha ((nm, sz, ini, inc, mx) # ps) st =
    rbind (pxRsrcNewPool (Some nm) sz ini inc mx (ha 0) (ha 1) (ha 2) st) (\<lambda>(p, st1).
      case p of None \<Rightarrow> Ret (None, st1)
      | Some a \<Rightarrow> rbind (new_pools (\<lambda>i. ha (i + 3)) ps st1) (\<lambda>(r, st2). Ret (map_option ((#) a) r, st2)))"

text \<open>\<open>szm\<close>, \<open>szv\<close>, \<open>szb\<close> and \<open>szw\<close> are the sizes of \<^verbatim>\<open>messageCdap_t\<close>, \<^verbatim>\<open>serObjectValue_t\<close>, the byte value
  and the message structure.\<close>

definition xSerDesMessageInit ::
  "u64 \<Rightarrow> u64 \<Rightarrow> u64 \<Rightarrow> u64 \<Rightarrow> (nat \<Rightarrow> heap) \<Rightarrow> rsrc_state \<Rightarrow> (nat list option \<times> rsrc_state) run" where
  "xSerDesMessageInit szm szv szb szw ha st =
    new_pools ha
      [(''CDAP Message SerDes Decoding'',
        of_nat OBJ_SZ + of_nat OBJ_SZ + of_nat REASON_SZ + of_nat AUTH_SZ + of_nat AUTH_SZ + szb + szm + szv, 1, 1, 0),
       (''CDAP Message SerDes Encoding'', szw, 1, 1, 0)] st"

definition ENROLLMENT_MSG_SIZE :: u64 where "ENROLLMENT_MSG_SIZE = 1500"

definition xSerDesEnrollmentInit :: "u64 \<Rightarrow> u64 \<Rightarrow> (nat \<Rightarrow> heap) \<Rightarrow> rsrc_state \<Rightarrow> (nat list option \<times> rsrc_state) run" where
  "xSerDesEnrollmentInit szv sze ha st =
    new_pools ha
      [(''Enrollment SerDes Encoding'', ENROLLMENT_MSG_SIZE + szv, 1, 1, 0),
       (''Enrollment SerDes Decoding'', of_nat NAME_SZ + sze, 1, 1, 0)] st"

definition xSerDesADataInit :: "(nat \<Rightarrow> heap) \<Rightarrow> rsrc_state \<Rightarrow> (nat option \<times> rsrc_state) run" where
  "xSerDesADataInit ha st = pxRsrcNewVarPool (Some ''AData Decoding'') 0 (ha 0) (ha 1) (ha 2) st"

section \<open>CDAP messages\<close>

text \<open>The components of the two names are strings, which is what all callers make of them; a \<^verbatim>\<open>NULL\<close>, which the code would
  leave out, is not modelled.  The name of a policy is copied without a limit, its version without a test for \<^verbatim>\<open>NULL\<close>, and the
  value without a test of its length.\<close>

definition cdap_fill :: "auth_cdap \<Rightarrow> cdap_wire outcome" where
  "cdap_fill m =
    (let w =
      \<lparr>w_opCode = eOpCode m, w_invokeID = (True, nInvokeID m), w_objClass = field_copy OBJ_SZ (pcObjClass m),
       w_objName = field_copy OBJ_SZ (pcObjName m),
       w_objInst = (if objInst m \<noteq> - 1 then (True, objInst m) else (False, 0)), w_objValue = (False, []),
       w_result = (if m_result m \<noteq> - 1 then (True, m_result m) else (False, 0)),
       w_has_auth = False, w_auth_name = (False, replicate AUTH_SZ 0), w_auth_version = (False, replicate AUTH_SZ 0),
       w_destAEInst = field_copy NAME_SZ (Some (pcEntityInstance (m_dst m))),
       w_destAEName = field_copy NAME_SZ (Some (pcEntityName (m_dst m))),
       w_destApInst = field_copy NAME_SZ (Some (pcProcessInstance (m_dst m))),
       w_destApName = field_copy NAME_SZ (Some (pcProcessName (m_dst m))),
       w_srcAEInst = field_copy NAME_SZ (Some (pcEntityInstance (m_src m))),
       w_srcAEName = field_copy NAME_SZ (Some (pcEntityName (m_src m))),
       w_srcApInst = field_copy NAME_SZ (Some (pcProcessInstance (m_src m))),
       w_srcApName = field_copy NAME_SZ (Some (pcProcessName (m_src m))),
       w_resultReason = field_copy REASON_SZ (pcResultReason m), w_version = (True, m_version m)\<rparr> in
     obind
       (case auth_name m of None \<Rightarrow> Done w
        | Some n \<Rightarrow>
            obind (or_crash (mem_write (replicate AUTH_SZ 0) 0 (cstring n @ [0]))) (\<lambda>nb.
            obind (or_crash (auth_version m)) (\<lambda>v.
              Done (w\<lparr>w_has_auth := True, w_auth_name := (True, nb), w_auth_version := (True, strncpy v AUTH_SZ)\<rparr>))))
       (\<lambda>w.
       case pxObjValue m of None \<Rightarrow> Done w
       | Some v \<Rightarrow> if BYTEVAL_SZ < length v then Crash else Done (w\<lparr>w_objValue := (True, v)\<rparr>)))"

text \<open>\<open>mem\<close> tells whether the pool has memory for the encoded message.\<close>

definition xSerDesMessageEncode :: "(cdap_wire \<Rightarrow> bytes option) \<Rightarrow> bool \<Rightarrow> auth_cdap \<Rightarrow> bytes outcome" where
  "xSerDesMessageEncode enc mem m =
    obind (cdap_fill m) (\<lambda>w.
      if \<not> mem then Fail ERR_OOM else of_opt ERR_SERDES_ENCODING_FAIL (enc w))"

definition strcpy_at :: "nat \<Rightarrow> bytes \<Rightarrow> bytes \<Rightarrow> bytes outcome" where
  "strcpy_at off s blk = or_crash (mem_write blk off (cstring s @ [0]))"

text \<open>The strings behind the structure: class, name, reason, policy, version.  The name has as many bytes
  as a reason needs, and the reason as many as a name needs.\<close>

definition off_class :: nat where "off_class = 0"
definition off_name :: nat where "off_name = off_class + OBJ_SZ"
definition off_reason :: nat where "off_reason = off_name + REASON_SZ"
definition off_auth :: nat where "off_auth = off_reason + OBJ_SZ"
definition off_version :: nat where "off_version = off_auth + AUTH_SZ"
definition off_value :: nat where "off_value = off_version + AUTH_SZ"

lemmas offs = off_class_def off_name_def off_reason_def off_auth_def off_version_def off_value_def

definition has_or_empty :: "wire_str \<Rightarrow> bytes" where
  "has_or_empty s = (if fst s then snd s else [0])"

definition decode_strings :: "cdap_wire \<Rightarrow> bytes \<Rightarrow> bytes outcome" where
  "decode_strings w blk =
    obind (strcpy_at off_class (has_or_empty (w_objClass w)) blk) (\<lambda>b1.
    obind (strcpy_at off_name (has_or_empty (w_objName w)) b1) (\<lambda>b2.
    obind
      (if w_has_auth w
       then
         obind (if fst (w_auth_name w) then strcpy_at off_auth (snd (w_auth_name w)) b2 else Done b2)
           (strcpy_at off_version (snd (w_auth_version w)))
       else obind (strcpy_at off_auth [0] b2) (strcpy_at off_version [0])) (\<lambda>b3.
    strcpy_at off_reason (has_or_empty (w_resultReason w)) b3)))"

text \<open>\<open>mem\<close> is the block behind the structure that the pool gives, \<open>al1\<close> and \<open>al2\<close> are the allocators of
  the names.  \<open>szv\<close> is the size of \<^verbatim>\<open>serObjectValue_t\<close>.\<close>

definition pxSerDesMessageDecode ::
  "nat \<Rightarrow> (bytes \<Rightarrow> cdap_wire option) \<Rightarrow> bytes option \<Rightarrow> allocator \<Rightarrow> allocator \<Rightarrow> bytes \<Rightarrow> auth_cdap outcome" where
  "pxSerDesMessageDecode szv dec mem al1 al2 b =
    obind (of_opt ERR_SERDES_DECODING_FAIL (dec b)) (\<lambda>w.
    obind (of_opt ERR_OOM mem) (\<lambda>blk.
    obind (of_res (xNameAssignFromPartsDup al1 (Some (snd (w_destApName w))) (Some (snd (w_destApInst w)))
            (Some (snd (w_destAEName w))) (Some (snd (w_destAEInst w))))) (\<lambda>dst.
    obind (of_res (xNameAssignFromPartsDup al2 (Some (snd (w_srcApName w))) (Some (snd (w_srcApInst w)))
            (Some (snd (w_srcAEName w))) (Some (snd (w_srcAEInst w))))) (\<lambda>src.
    obind (decode_strings w blk) (\<lambda>blk1.
    obind (if fst (w_objValue w) then or_crash (mem_write blk1 (off_value + szv) (snd (w_objValue w)))
           else Done blk1) (\<lambda>blk2.
    Done \<lparr>eOpCode = w_opCode w, m_dst = dst, m_src = src, m_version = snd (w_version w),
          nInvokeID = snd (w_invokeID w), pcObjClass = Some (drop off_class blk2), pcObjName = Some (drop off_name blk2),
          objInst = snd (w_objInst w), pxObjValue = (if fst (w_objValue w) then Some (snd (w_objValue w)) else None),
          m_result = snd (w_result w), pcResultReason = Some (drop off_reason blk2),
          auth_name = Some (drop off_auth blk2), auth_version = Some (drop off_version blk2)\<rparr>))))))"

section \<open>Strings in a block\<close>

lemma cstring_append: "cstring (xs @ ys) = (if 0 \<in> set xs then cstring xs else xs @ cstring ys)"
  by (induction xs) (auto simp: cstring_def)

lemma cstring_take: "length (cstring p) < k \<Longrightarrow> k \<le> length p \<Longrightarrow> 0 \<in> set (take k p)"
proof (rule ccontr)
  assume a: "length (cstring p) < k" "k \<le> length p" "0 \<notin> set (take k p)"
  have "cstring p = take k p @ cstring (drop k p)"
    using cstring_append [of "take k p" "drop k p"] a(3) by simp
  then show False using a(1,2) by (metis length_append length_take min.absorb2 not_add_less1)
qed

lemma cstring_prefix: "length (cstring p) < k \<Longrightarrow> k \<le> length p \<Longrightarrow> cstring (take k p @ q) = cstring p"
  using cstring_take [of p k] cstring_append [of "take k p" q] cstring_append [of "take k p" "drop k p"] by simp

lemma cstring_long: "k \<le> length (cstring p) \<Longrightarrow> take k p = take k (cstring p) \<and> 0 \<notin> set (take k p)"
proof -
  assume k: "k \<le> length (cstring p)"
  have "p = cstring p @ dropWhile (\<lambda>b. b \<noteq> 0) p" by (simp add: cstring_def)
  then have "take k p = take k (cstring p)" using k by (metis append_take_drop_id diff_is_0_eq' take0 take_append append_Nil2)
  moreover have "0 \<notin> set (take k (cstring p))" using cstring_no_nul [of p] by (meson in_set_takeD)
  ultimately show ?thesis by simp
qed

text \<open>What the string at \<open>o2\<close> is after the string \<open>s\<close> was copied to \<open>off\<close>.\<close>

lemma strcpy_before:
  assumes "strcpy_at off s blk = Done b" "o2 \<le> off"
  shows "cstring (drop o2 b) =
    (let n = cstring (drop o2 blk) in if length n < off - o2 then n else take (off - o2) n @ cstring s)"
proof -
  have len: "off + length (cstring s) + 1 \<le> length blk"
    and b: "b = take off blk @ (cstring s @ [0]) @ drop (off + length (cstring s) + 1) blk"
    using assms(1) by (auto simp: strcpy_at_def mem_write_def or_crash_def split: if_splits)
  let ?p = "drop o2 blk" and ?k = "off - o2"
  have d: "drop o2 b = take ?k ?p @ cstring s @ 0 # drop (off + length (cstring s) + 1) blk"
    using b len assms(2) by (simp add: drop_take)
  have k: "?k \<le> length ?p" using len assms(2) by simp
  show ?thesis
  proof (cases "length (cstring ?p) < ?k")
    case True
    then show ?thesis unfolding d by (simp add: cstring_prefix [OF True k])
  next
    case False
    then have k: "take ?k ?p = take ?k (cstring ?p) \<and> 0 \<notin> set (take ?k ?p)" by (intro cstring_long) simp
    then have k2: "take ?k ?p = take ?k (cstring ?p)" "0 \<notin> set (take ?k (cstring ?p))" by metis+
    show ?thesis unfolding d k2(1) using k2(2) False cstring_no_nul [of s]
      by (simp add: cstring_append cstring_app Let_def)
  qed
qed

lemma strcpy_here: "strcpy_at off s blk = Done b \<Longrightarrow> cstring (drop off b) = cstring s"
  using strcpy_before [of off s blk b off] by simp

lemma strcpy_after:
  assumes "strcpy_at off s blk = Done b" "off + length (cstring s) < o2"
  shows "drop o2 b = drop o2 blk"
proof -
  have "b = (take off blk @ cstring s @ [0]) @ drop (off + length (cstring s) + 1) blk"
    "off + length (cstring s) + 1 \<le> length blk"
    using assms(1) by (auto simp: strcpy_at_def mem_write_def or_crash_def split: if_splits)
  then show ?thesis using assms(2) by (simp only: drop_append) simp
qed

lemma strcpy_at_fits: "off + length (cstring s) < length blk \<Longrightarrow> \<exists>b. strcpy_at off s blk = Done b \<and> length b = length blk"
  by (simp add: strcpy_at_def mem_write_def)

lemma strcpy_len: "strcpy_at off s blk = Done b \<Longrightarrow> length b = length blk"
  by (auto simp: strcpy_at_def or_crash_def split: option.splits dest: mem_write_length)

lemma write_before:
  assumes "mem_write blk off src = Some b" "o2 \<le> off" "length (cstring (drop o2 blk)) < off - o2"
  shows "cstring (drop o2 b) = cstring (drop o2 blk)"
proof -
  have "off \<le> length blk" "drop o2 b = take (off - o2) (drop o2 blk) @ src @ drop (off + length src) blk"
    using assms(1,2) by (auto simp: mem_write_def drop_take split: if_splits)
  then show ?thesis using cstring_prefix [of "drop o2 blk" "off - o2"] assms(2,3) by simp
qed

lemma cstring_strncpy: "strlen s < n \<Longrightarrow> cstring (strncpy s n) = cstring s"
  by (simp add: strncpy_def strlen_def cstring_append cstring_no_nul cstring_id Let_def)
    (metis cstring_Nil cstring_zero replicate_Suc Suc_diff_Suc append_Nil2)

section \<open>There and back\<close>

definition opt_cstring :: "bytes option \<Rightarrow> bytes" where
  "opt_cstring s = (case s of None \<Rightarrow> [] | Some t \<Rightarrow> cstring t)"

lemma sent_string:
  "length (opt_cstring y) < n \<Longrightarrow> cstring (has_or_empty (sent_str (field_copy n y))) = opt_cstring y"
  by (cases y) (auto simp: opt_cstring_def has_or_empty_def sent_str_def field_copy_def cstring_strncpy strlen_def)

text \<open>What each of the strings behind the structure is in the end.\<close>

lemma decode_strings_result:
  assumes fit: "length (cstring (has_or_empty (w_objClass w))) < OBJ_SZ" "length (cstring (has_or_empty (w_objName w))) < OBJ_SZ"
    "length (cstring (has_or_empty (w_resultReason w))) < REASON_SZ"
    "w_has_auth w \<Longrightarrow> fst (w_auth_name w) \<and> length (cstring (snd (w_auth_name w))) < AUTH_SZ \<and> length (cstring (snd (w_auth_version w))) < AUTH_SZ"
    "off_value \<le> length blk"
  shows "\<exists>b. decode_strings w blk = Done b \<and> length b = length blk \<and>
    cstring (drop off_class b) = cstring (has_or_empty (w_objClass w)) \<and>
    cstring (drop off_reason b) = cstring (has_or_empty (w_resultReason w)) \<and>
    cstring (drop off_auth b) = (if w_has_auth w then cstring (snd (w_auth_name w)) else []) \<and>
    cstring (drop off_version b) = (if w_has_auth w then cstring (snd (w_auth_version w)) else []) \<and>
    cstring (drop off_name b) =
      (let n = cstring (has_or_empty (w_objName w)) in
       if length n < REASON_SZ then n else take REASON_SZ n @ cstring (has_or_empty (w_resultReason w)))"
proof -
  let ?c = "has_or_empty (w_objClass w)" and ?n = "has_or_empty (w_objName w)" and ?r = "has_or_empty (w_resultReason w)"
  note sz = offs field_sizes
  obtain b1 where b1: "strcpy_at off_class ?c blk = Done b1" "length b1 = length blk"
    using strcpy_at_fits [of off_class ?c blk] fit by (auto simp: sz)
  obtain b2 where b2: "strcpy_at off_name ?n b1 = Done b2" "length b2 = length blk"
    using strcpy_at_fits [of off_name ?n b1] b1 fit by (auto simp: sz)
  define an where "an = (if w_has_auth w then snd (w_auth_name w) else [0])"
  define av where "av = (if w_has_auth w then snd (w_auth_version w) else [0])"
  have au: "length (cstring an) < AUTH_SZ" "length (cstring av) < AUTH_SZ" using fit(4) by (simp_all add: an_def av_def sz)
  obtain b3 where b3: "strcpy_at off_auth an b2 = Done b3" "length b3 = length blk"
    using strcpy_at_fits [of off_auth an b2] b2 fit(5) au by (auto simp: sz)
  obtain b4 where b4: "strcpy_at off_version av b3 = Done b4" "length b4 = length blk"
    using strcpy_at_fits [of off_version av b3] b3 fit(5) au by (auto simp: sz)
  obtain b5 where b5: "strcpy_at off_reason ?r b4 = Done b5" "length b5 = length blk"
    using strcpy_at_fits [of off_reason ?r b4] b4 fit by (auto simp: sz)
  have e: "decode_strings w blk = Done b5" using b1 b2 b3 b4 b5 fit(4) by (simp add: decode_strings_def an_def av_def split: if_splits)
  have c: "cstring (drop off_class b5) = cstring ?c"
    using strcpy_here [OF b1(1)] strcpy_before [OF b2(1), of off_class] strcpy_before [OF b3(1), of off_class]
      strcpy_before [OF b4(1), of off_class] strcpy_before [OF b5(1), of off_class] fit(1)
    by (simp add: sz Let_def)
  have n: "cstring (drop off_name b4) = cstring ?n"
    using strcpy_here [OF b2(1)] strcpy_before [OF b3(1), of off_name] strcpy_before [OF b4(1), of off_name] fit(2)
    by (simp add: sz Let_def)
  have a: "cstring (drop off_auth b5) = cstring an" "cstring (drop off_version b5) = cstring av"
    using strcpy_here [OF b3(1)] strcpy_here [OF b4(1)] strcpy_before [OF b4(1), of off_auth]
      strcpy_after [OF b5(1), of off_auth] strcpy_after [OF b5(1), of off_version] fit(3) au
    by (simp_all add: sz Let_def)
  show ?thesis
    using e b5(2) c n a strcpy_here [OF b5(1)] strcpy_before [OF b5(1), of off_name]
    by (intro exI [of _ b5]) (simp add: sz Let_def an_def av_def)
qed

text \<open>The components of a name.\<close>

definition same_name :: "rname \<Rightarrow> rname \<Rightarrow> bool" where
  "same_name a b =
    (cstring (pcProcessName a) = cstring (pcProcessName b) \<and> cstring (pcProcessInstance a) = cstring (pcProcessInstance b) \<and>
     cstring (pcEntityName a) = cstring (pcEntityName b) \<and> cstring (pcEntityInstance a) = cstring (pcEntityInstance b))"

definition name_fits :: "rname \<Rightarrow> bool" where
  "name_fits n =
    (strlen (pcProcessName n) < NAME_SZ \<and> strlen (pcProcessInstance n) < NAME_SZ \<and> strlen (pcEntityName n) < NAME_SZ \<and>
     strlen (pcEntityInstance n) < NAME_SZ)"

lemma name_of_fields:
  assumes "malloc_ok al" "\<forall>n. al n \<noteq> None" "name_fits n"
    "snd p = strncpy (pcProcessName n) NAME_SZ" "snd i = strncpy (pcProcessInstance n) NAME_SZ"
    "snd e = strncpy (pcEntityName n) NAME_SZ" "snd f = strncpy (pcEntityInstance n) NAME_SZ"
  shows "\<exists>m. xNameAssignFromPartsDup al (Some (snd p)) (Some (snd i)) (Some (snd e)) (Some (snd f)) = Inr m \<and> same_name m n"
proof -
  obtain blk where "al (strlen (snd p) + strlen (snd i) + strlen (snd e) + strlen (snd f) + 5) = Some blk"
    using assms(2) by blast
  from dup_parts [OF assms(1) this] obtain rest where
    "xNameAssignFromPartsDup al (Some (snd p)) (Some (snd i)) (Some (snd e)) (Some (snd f)) =
      Inr (name_at 0 (cstring (snd p) @ 0 # cstring (snd i) @ 0 # cstring (snd e) @ 0 # cstring (snd f) @ 0 # rest)
        (length (cstring (snd p)) + 1) (length (cstring (snd p)) + length (cstring (snd i)) + 2)
        (length (cstring (snd p)) + length (cstring (snd i)) + length (cstring (snd e)) + 3) True)" by blast
  moreover have "cstring (snd p) = cstring (pcProcessName n)" "cstring (snd i) = cstring (pcProcessInstance n)"
    "cstring (snd e) = cstring (pcEntityName n)" "cstring (snd f) = cstring (pcEntityInstance n)"
    using assms(3-7) by (simp_all add: name_fits_def cstring_strncpy)
  ultimately show ?thesis
    by (simp add: same_name_def name_at_def cstring_app cstring_no_nul numeral_3_eq_3)
qed

definition cdap_fits :: "auth_cdap \<Rightarrow> bool" where
  "cdap_fits m =
    (name_fits (m_dst m) \<and> name_fits (m_src m) \<and> length (opt_cstring (pcObjClass m)) < OBJ_SZ \<and>
     length (opt_cstring (pcObjName m)) < OBJ_SZ \<and> length (opt_cstring (pcResultReason m)) < REASON_SZ \<and>
     (\<forall>v. pxObjValue m = Some v \<longrightarrow> length v \<le> BYTEVAL_SZ) \<and>
     (\<forall>n. auth_name m = Some n \<longrightarrow>
       length (cstring n) < AUTH_SZ \<and> auth_version m \<noteq> None \<and> length (opt_cstring (auth_version m)) < AUTH_SZ))"

text \<open>What the policy becomes in the message structure.\<close>

lemma filled_auth:
  assumes fit: "cdap_fits m" and fill: "cdap_fill m = Done w"
  shows "w_has_auth w = (auth_name m \<noteq> None)"
    "auth_name m \<noteq> None \<Longrightarrow> fst (w_auth_name w) \<and> fst (w_auth_version w) \<and>
      cstring (snd (w_auth_name w)) = opt_cstring (auth_name m) \<and> cstring (snd (w_auth_version w)) = opt_cstring (auth_version m)"
proof -
  show "w_has_auth w = (auth_name m \<noteq> None)"
    using fill by (auto simp: cdap_fill_def Let_def obind_Done or_crash_def split: option.splits if_splits)
  show "fst (w_auth_name w) \<and> fst (w_auth_version w) \<and>
      cstring (snd (w_auth_name w)) = opt_cstring (auth_name m) \<and> cstring (snd (w_auth_version w)) = opt_cstring (auth_version m)"
    if some: "auth_name m \<noteq> None"
  proof -
    obtain n v where n: "auth_name m = Some n" "auth_version m = Some v" "length (cstring n) < AUTH_SZ" "length (cstring v) < AUTH_SZ"
      using fit some by (auto simp: cdap_fits_def opt_cstring_def)
    obtain nb where nb: "mem_write (replicate AUTH_SZ 0) 0 (cstring n @ [0]) = Some nb" "cstring nb = cstring n"
      using n(3) by (auto simp: mem_write_def cstring_app cstring_no_nul)
    have "w_auth_name w = (True, nb) \<and> w_auth_version w = (True, strncpy v AUTH_SZ)"
      using fill n(1,2) nb(1) by (auto simp: cdap_fill_def Let_def obind_Done split: option.splits if_splits)
    then show ?thesis using n nb(2) by (simp add: opt_cstring_def cstring_strncpy strlen_def)
  qed
qed

lemma fits_fill: "cdap_fits m \<Longrightarrow> \<exists>w. cdap_fill m = Done w"
  by (cases "auth_name m"; cases "pxObjValue m")
    (auto simp: cdap_fits_def cdap_fill_def Let_def mem_write_def or_crash_def)


definition demo_name :: rname where
  "demo_name = \<lparr>unPostLn = 0, pcProcessName = [97, 0], pcProcessInstance = [98, 0], pcEntityName = [99, 0],
     pcEntityInstance = [100, 0], pxFree = False\<rparr>"

text \<open>A reply about an object whose name has 22 letters, with an authentication policy.\<close>

definition demo_cdap :: auth_cdap where
  "demo_cdap = \<lparr>eOpCode = M_CREATE_R, m_dst = demo_name, m_src = demo_name, m_version = 1, nInvokeID = 5,
     pcObjClass = Some [67, 0], pcObjName = Some (replicate 22 65 @ [0]), objInst = - 1, pxObjValue = Some [1, 2],
     m_result = 0, pcResultReason = Some [78, 79, 0], auth_name = Some (ascii ''Policy'' @ [0]),
     auth_version = Some (ascii ''1.0'' @ [0])\<rparr>"

definition demo_cdap_wire :: cdap_wire where
  "demo_cdap_wire = (case cdap_fill demo_cdap of Done w \<Rightarrow> w)"


section \<open>Enrollment information\<close>

record enr_wire =
  ew_startEarly :: "bool \<times> bool"
  ew_address :: "bool \<times> u64"
  ew_token :: wire_str

text \<open>\<^verbatim>\<open>pxSerVal + sizeof(serObjectValue_t)\<close> counts in structures, so the buffer starts \<open>szv * szv\<close> bytes
  behind the structure and not \<open>szv\<close>, but the room given to the encoder stays \<^verbatim>\<open>ENROLLMENT_MSG_SIZE\<close>.
  The encoder is asked for at most that many bytes.\<close>

definition enr_fill :: "enr_msg \<Rightarrow> enr_wire" where
  "enr_fill m =
    \<lparr>ew_startEarly = (True, xStartEarly m), ew_address = (if 0 < ullAddress m then (True, ullAddress m) else (False, 0)),
     ew_token = field_copy NAME_SZ (msg_token m)\<rparr>"

definition pxSerDesEnrollmentEncode ::
  "nat \<Rightarrow> (nat \<Rightarrow> enr_wire \<Rightarrow> bytes option) \<Rightarrow> bool \<Rightarrow> enr_msg \<Rightarrow> bytes outcome" where
  "pxSerDesEnrollmentEncode szv enc mem m =
    (if \<not> mem then Fail ERR_OOM
     else
       (case enc (unat ENROLLMENT_MSG_SIZE) (enr_fill m) of
          None \<Rightarrow> Fail ERR_SERDES_ENCODING_FAIL
        | Some b \<Rightarrow> if unat ENROLLMENT_MSG_SIZE + szv < szv * szv + length b then Crash else Done b))"

text \<open>\<open>mem\<close> is what the resource holds: the early start flag is never set, the address and the token
  only when they are there.\<close>

definition pxSerDesEnrollmentDecode ::
  "(bytes \<Rightarrow> enr_wire option) \<Rightarrow> (bool \<times> u64 \<times> bytes) option \<Rightarrow> bytes \<Rightarrow> enr_msg outcome" where
  "pxSerDesEnrollmentDecode dec mem b =
    obind (of_opt ERR_SERDES_DECODING_FAIL (dec b)) (\<lambda>w.
    obind (of_opt ERR_OOM mem) (\<lambda>(early, addr, blk).
    obind (if fst (ew_token w) then strcpy_at 0 (snd (ew_token w)) blk else Done blk) (\<lambda>blk1.
      Done \<lparr>ullAddress = (if fst (ew_address w) then snd (ew_address w) else addr), xStartEarly = early,
            msg_token = Some blk1\<rparr>)))"

section \<open>Data\<close>

record adata_wire =
  aw_source :: "bool \<times> u32"
  aw_dest :: "bool \<times> u32"
  aw_cdap :: wire_str

record adata_msg =
  xSourceAddress :: u32
  xDestinationAddress :: u32
  pxMsgCdap :: "bytes option"

text \<open>\<open>sza\<close> is the size of \<^verbatim>\<open>aDataMsg_t\<close>; \<open>mem n\<close> is what a resource of \<open>n\<close> bytes holds: the addresses and
  the bytes.  The message is again copied \<open>szv * szv\<close> bytes behind its structure.\<close>

definition pxSerDesADataDecode ::
  "nat \<Rightarrow> nat \<Rightarrow> (bytes \<Rightarrow> adata_wire option) \<Rightarrow> (nat \<Rightarrow> (u32 \<times> u32 \<times> bytes) option) \<Rightarrow> bytes \<Rightarrow> adata_msg option outcome" where
  "pxSerDesADataDecode sza szv dec mem b =
    (case dec b of None \<Rightarrow> Done None
     | Some w \<Rightarrow>
         let n = (if fst (aw_cdap w) then sza + szv + length (snd (aw_cdap w)) else sza) in
         (case mem n of None \<Rightarrow> Done None
          | Some (src, dst, blk) \<Rightarrow>
              let src1 = (if fst (aw_source w) then snd (aw_source w) else src);
                  dst1 = (if fst (aw_dest w) then snd (aw_dest w) else dst) in
              if fst (aw_cdap w)
              then obind (or_crash (mem_write blk (sza + szv * szv) (snd (aw_cdap w)))) (\<lambda>blk1.
                     Done (Some \<lparr>xSourceAddress = src1, xDestinationAddress = dst1, pxMsgCdap = Some (snd (aw_cdap w))\<rparr>))
              else Done (Some \<lparr>xSourceAddress = src1, xDestinationAddress = dst1, pxMsgCdap = None\<rparr>)))"

text \<open>Decoding data that carries a message always writes past the resource allocated for it, on any
  machine where the structure of a value is larger than a byte: the offset is counted in structures and
  not in bytes.\<close>
lemma adata_overruns:
  assumes "dec b = Some w" "fst (aw_cdap w)" "snd (aw_cdap w) \<noteq> []" "1 < szv"
    and "mem (sza + szv + length (snd (aw_cdap w))) = Some (src, dst, blk)" "length blk = sza + szv + length (snd (aw_cdap w))"
  shows "pxSerDesADataDecode sza szv dec mem b = Crash"
proof -
  have "szv * 1 < szv * szv" using assms(4) by (simp only: mult_less_cancel1) simp
  then have "mem_write blk (sza + szv * szv) (snd (aw_cdap w)) = None" using assms(6) by (simp add: mem_write_None)
  then show ?thesis using assms by (simp add: pxSerDesADataDecode_def)
qed

end
