(* ===== verification/Array_List.thy ===== *)
theory Array_List
  imports Rs_Error
begin

text \<open>Array lists (\<^verbatim>\<open>common/arraylist.c\<close>, \<^verbatim>\<open>common/arraylist.h\<close>) and the data packer
  (\<^verbatim>\<open>common/datapacker.c\<close>).  An array is the block of its bytes; the memory for it is an argument of the
  operations that ask for some.\<close>

section \<open>Array lists\<close>

text \<open>\<open>pooled\<close> tells whether the array is a resource of a pool or heap memory.\<close>

record array_list =
  pvArray :: "bytes option"
  unMaxItems :: u64
  al_item_sz :: u64
  unFreeIdx :: u64
  pooled :: bool

definition xArrayListInit :: "allocator \<Rightarrow> u64 \<Rightarrow> u64 \<Rightarrow> bool \<Rightarrow> array_list \<Rightarrow> (status \<times> array_list) outcome" where
  "xArrayListInit mem sz n pool al =
    (case mem (unat (sz * n)) of
       None \<Rightarrow> Done (Some ERR_OOM, al\<lparr>pvArray := None\<rparr>)
     | Some b \<Rightarrow> Done (None, \<lparr>pvArray = Some b, unMaxItems = n, al_item_sz = sz, unFreeIdx = 0, pooled = pool\<rparr>))"

text \<open>The larger array: a new resource with a copy of the old one, or what \<^verbatim>\<open>realloc\<close> returns.\<close>

definition al_grow :: "allocator \<Rightarrow> array_list \<Rightarrow> (status \<times> array_list) outcome" where
  "al_grow mem al =
    (let n = unMaxItems al * 2; sz = n * al_item_sz al in
     obind (or_crash (pvArray al)) (\<lambda>old.
     case mem (unat sz) of
       None \<Rightarrow> Done (Some ERR_OOM, if pooled al then al else al\<lparr>pvArray := None\<rparr>)
     | Some b \<Rightarrow>
         let k = (if pooled al then unat (unMaxItems al * al_item_sz al) else min (length old) (length b)) in
         if length old < k \<or> length b < k then Crash
         else Done (None, al\<lparr>pvArray := Some (take k old @ drop k b), unMaxItems := n\<rparr>)))"

definition xArrayListAdd :: "allocator \<Rightarrow> bytes \<Rightarrow> array_list \<Rightarrow> (status \<times> array_list) outcome" where
  "xArrayListAdd mem item al =
    obind (if unFreeIdx al = unMaxItems al then al_grow mem al else Done (None, al)) (\<lambda>(s, al1).
      if s \<noteq> None then Done (s, al1)
      else
        obind (or_crash (pvArray al1)) (\<lambda>arr.
          if length item < unat (al_item_sz al1) then Crash
          else
            obind (or_crash (mem_write arr (unat (unFreeIdx al1 * al_item_sz al1)) (take (unat (al_item_sz al1)) item)))
              (\<lambda>arr1. Done (None, al1\<lparr>pvArray := Some arr1, unFreeIdx := unFreeIdx al1 + 1\<rparr>))))"

text \<open>As many bytes are moved as all the items take.\<close>

definition vArrayListRemove :: "u64 \<Rightarrow> array_list \<Rightarrow> array_list outcome" where
  "vArrayListRemove i al =
    (if unFreeIdx al - 1 < i then Done al
     else if i = unFreeIdx al - 1 then Done (al\<lparr>unFreeIdx := unFreeIdx al - 1\<rparr>)
     else
       obind (or_crash (pvArray al)) (\<lambda>arr.
         let src = unat ((i + 1) * al_item_sz al); n = unat (unFreeIdx al * al_item_sz al) in
         if length arr < src + n then Crash
         else
           obind (or_crash (mem_write arr (unat (i * al_item_sz al)) (take n (drop src arr)))) (\<lambda>arr1.
             Done (al\<lparr>pvArray := Some arr1, unFreeIdx := unFreeIdx al - 1\<rparr>))))"

definition vArrayListFree :: "array_list \<Rightarrow> array_list" where
  "vArrayListFree al = al\<lparr>pvArray := None\<rparr>"

text \<open>The offset of the item, or \<^verbatim>\<open>NULL\<close>.\<close>

definition pvArrayListGet :: "u64 \<Rightarrow> array_list \<Rightarrow> nat option" where
  "pvArrayListGet i al = (if unFreeIdx al - 1 < i then None else Some (unat (i * al_item_sz al)))"

definition unArrayListCount :: "array_list \<Rightarrow> u64" where
  "unArrayListCount al = unFreeIdx al"

definition al_item :: "u64 \<Rightarrow> array_list \<Rightarrow> bytes option" where
  "al_item i al =
    (case pvArrayListGet i al of None \<Rightarrow> None
     | Some off \<Rightarrow> map_option (\<lambda>arr. take (unat (al_item_sz al)) (drop off arr)) (pvArray al))"

section \<open>The list of an array\<close>

text \<open>The array \<open>al\<close> holds the items \<open>xs\<close>: their bytes, one after the other, are the beginning of its
  memory, and every offset fits a machine word.\<close>

definition holds_items :: "array_list \<Rightarrow> bytes list \<Rightarrow> bool" where
  "holds_items al xs =
    (\<exists>arr. pvArray al = Some arr \<and> (\<forall>x \<in> set xs. length x = unat (al_item_sz al)) \<and>
       length arr = unat (unMaxItems al) * unat (al_item_sz al) \<and> unat (unFreeIdx al) = length xs \<and>
       length xs \<le> unat (unMaxItems al) \<and> 0 < unat (unMaxItems al) \<and>
       unat (unMaxItems al) * unat (al_item_sz al) * 2 < 2 ^ 64 \<and> unat (unMaxItems al) * 2 < 2 ^ 64 \<and> al_item_sz al \<noteq> 0 \<and>
       take (length xs * unat (al_item_sz al)) arr = concat xs)"

definition drop_nth :: "nat \<Rightarrow> 'a list \<Rightarrow> 'a list" where
  "drop_nth i xs = take i xs @ drop (Suc i) xs"

lemma concat_same_length: "\<forall>x \<in> set xs. length x = n \<Longrightarrow> length (concat xs) = length xs * n"
  by (induction xs) auto

lemma concat_nth:
  "i < length xs \<Longrightarrow> \<forall>x \<in> set xs. length x = n \<Longrightarrow> take n (drop (i * n) (concat xs)) = xs ! i"
proof (induction xs arbitrary: i)
  case (Cons x xs)
  then show ?case by (cases i) (auto simp: drop_append)
qed simp

lemma concat_take: "\<forall>x \<in> set xs. length x = n \<Longrightarrow> take (i * n) (concat xs) = concat (take i xs)"
proof (induction xs arbitrary: i)
  case (Cons x xs)
  then show ?case by (cases i) auto
qed simp

lemma concat_drop: "\<forall>x \<in> set xs. length x = n \<Longrightarrow> drop (i * n) (concat xs) = concat (drop i xs)"
proof (induction xs arbitrary: i)
  case (Cons x xs)
  then show ?case by (cases i) auto
qed simp

lemma u64_bound: "unat (x :: u64) < 18446744073709551616"
proof -
  have "unat x < 2 ^ LENGTH(64)" by (rule unsigned_less)
  then show ?thesis by simp
qed

lemma word_mult_less: "unat a * unat b < 2 ^ 64 \<Longrightarrow> unat ((a :: u64) * b) = unat a * unat b"
  by (simp add: unat_word_ariths)

lemma item_offset:
  assumes "holds_items al xs" "unat i \<le> unat (unMaxItems al)"
  shows "unat (i * al_item_sz al) = unat i * unat (al_item_sz al)"
proof (rule word_mult_less)
  have "unat i * unat (al_item_sz al) \<le> unat (unMaxItems al) * unat (al_item_sz al)" using assms(2) by (rule mult_right_mono) simp
  moreover have "unat (unMaxItems al) * unat (al_item_sz al) * 2 < 2 ^ 64" using assms(1) by (simp only: holds_items_def) blast
  ultimately show "unat i * unat (al_item_sz al) < 2 ^ 64" by linarith
qed

lemma grow_holds:
  assumes h: "holds_items al xs" and full: "unFreeIdx al = unMaxItems al"
    and room: "unat (unMaxItems al) * 2 * unat (al_item_sz al) * 2 < 2 ^ 64" "unat (unMaxItems al) * 4 < 2 ^ 64"
    and mem: "mem (unat (unMaxItems al) * 2 * unat (al_item_sz al)) = Some b" "malloc_ok mem"
  shows "\<exists>al'. al_grow mem al = Done (None, al') \<and> holds_items al' xs \<and> unMaxItems al' = unMaxItems al * 2 \<and>
    al_item_sz al' = al_item_sz al \<and> unFreeIdx al' = unFreeIdx al"
proof -
  obtain arr where arr: "pvArray al = Some arr" "length arr = unat (unMaxItems al) * unat (al_item_sz al)"
    using h by (auto simp: holds_items_def)
  have n: "unat (unMaxItems al * 2) = unat (unMaxItems al) * 2"
    using word_mult_less [of "unMaxItems al" 2] room(2) by simp
  have sz: "unat (unMaxItems al * 2 * al_item_sz al) = unat (unMaxItems al) * 2 * unat (al_item_sz al)"
    using word_mult_less [of "unMaxItems al * 2" "al_item_sz al"] room(1) unfolding n by simp
  have old: "unat (unMaxItems al * al_item_sz al) = unat (unMaxItems al) * unat (al_item_sz al)"
    by (rule item_offset [OF h]) simp
  have lb: "length b = unat (unMaxItems al) * 2 * unat (al_item_sz al)" using mem by (simp add: malloc_ok_def)
  have k: "(if pooled al then unat (unMaxItems al * al_item_sz al) else min (length arr) (length b)) = length arr"
    using old arr(2) lb by simp
  define al' where "al' = al\<lparr>pvArray := Some (arr @ drop (length arr) b), unMaxItems := unMaxItems al * 2\<rparr>"
  have "al_grow mem al = Done (None, al')"
    using arr mem(1) lb k by (simp add: al_grow_def sz al'_def Let_def)
  moreover have "holds_items al' xs"
    using h arr lb room by (auto simp: holds_items_def al'_def n)
  ultimately show ?thesis by (simp add: al'_def)
qed

text \<open>There is room to add: the array is not full, or memory for twice as much can be had and counted.\<close>

definition can_add :: "allocator \<Rightarrow> array_list \<Rightarrow> bool" where
  "can_add mem al =
    (unFreeIdx al = unMaxItems al \<longrightarrow>
       mem (unat (unMaxItems al) * 2 * unat (al_item_sz al)) \<noteq> None \<and> malloc_ok mem \<and>
       unat (unMaxItems al) * 2 * unat (al_item_sz al) * 2 < 2 ^ 64 \<and> unat (unMaxItems al) * 4 < 2 ^ 64)"

lemma add_holds:
  assumes h: "holds_items al xs" and item: "length item = unat (al_item_sz al)" and mem: "can_add mem al"
  shows "\<exists>al'. xArrayListAdd mem item al = Done (None, al') \<and> holds_items al' (xs @ [item])"
proof -
  obtain al1 where al1: "(if unFreeIdx al = unMaxItems al then al_grow mem al else Done (None, al)) = Done (None, al1)"
    "holds_items al1 xs" "al_item_sz al1 = al_item_sz al" "unFreeIdx al1 = unFreeIdx al" "length xs < unat (unMaxItems al1)"
  proof (cases "unFreeIdx al = unMaxItems al")
    case True
    then obtain al' where "al_grow mem al = Done (None, al')" "holds_items al' xs" "unMaxItems al' = unMaxItems al * 2"
      "al_item_sz al' = al_item_sz al" "unFreeIdx al' = unFreeIdx al"
      using grow_holds [OF h True] mem by (auto simp: can_add_def)
    moreover from this have "length xs < unat (unMaxItems al')"
    proof -
      have "unat (unMaxItems al * 2) = unat (unMaxItems al) * 2"
        using word_mult_less [of "unMaxItems al" 2] h by (auto simp: holds_items_def)
      then show ?thesis using calculation(3) h True by (auto simp: holds_items_def)
    qed
    ultimately show thesis using that True by simp
  next
    case False
    have "unat (unFreeIdx al) \<noteq> unat (unMaxItems al)" using False by (simp add: word_unat_eq_iff)
    then show thesis using that [of al] False h by (auto simp: holds_items_def)
  qed
  obtain arr where arr: "pvArray al1 = Some arr" "\<forall>x \<in> set xs. length x = unat (al_item_sz al1)"
    "length arr = unat (unMaxItems al1) * unat (al_item_sz al1)" "unat (unFreeIdx al1) = length xs"
    "take (length xs * unat (al_item_sz al1)) arr = concat xs"
    using al1(2) by (auto simp: holds_items_def)
  let ?sz = "unat (al_item_sz al1)"
  have off: "unat (unFreeIdx al1 * al_item_sz al1) = length xs * ?sz"
    using item_offset [OF al1(2), of "unFreeIdx al1"] arr(4) al1(5) by simp
  have "(length xs + 1) * ?sz \<le> unat (unMaxItems al1) * ?sz" using al1(5) by (intro mult_right_mono) simp_all
  then have fit: "length xs * ?sz + length item \<le> length arr" using item al1(3) arr(3) by simp
  define arr1 where "arr1 = take (length xs * ?sz) arr @ item @ drop (length xs * ?sz + length item) arr"
  define al2 where "al2 = al1\<lparr>pvArray := Some arr1, unFreeIdx := unFreeIdx al1 + 1\<rparr>"
  have e: "xArrayListAdd mem item al = Done (None, al2)"
    using al1(1,3) arr(1) item fit off [unfolded al1(3)] by (simp add: xArrayListAdd_def mem_write_def arr1_def al2_def)
  have "unat (unFreeIdx al1 + 1) = length xs + 1"
    using unat_add_1_bound [of "unFreeIdx al1" "unat (unMaxItems al1)"] arr(4) al1(5) u64_bound [of "unMaxItems al1"] by simp
  moreover have "take ((length xs + 1) * ?sz) arr1 = concat (xs @ [item])"
    using arr(5) fit item al1(3) concat_same_length [OF arr(2)] by (simp add: arr1_def min_absorb2 ac_simps)
  moreover have "length arr1 = length arr" using fit by (simp add: arr1_def)
  ultimately have "holds_items al2 (xs @ [item])"
    using al1 arr item by (auto simp: holds_items_def al2_def)
  then show ?thesis using e by blast
qed

lemma get_holds:
  assumes h: "holds_items al xs" and i: "i < length xs"
  shows "al_item (of_nat i) al = Some (xs ! i)"
proof -
  obtain arr where arr: "pvArray al = Some arr" "\<forall>x \<in> set xs. length x = unat (al_item_sz al)"
    "unat (unFreeIdx al) = length xs" "length xs \<le> unat (unMaxItems al)" "take (length xs * unat (al_item_sz al)) arr = concat xs"
    using h by (auto simp: holds_items_def)
  let ?sz = "unat (al_item_sz al)"
  have i64: "unat (of_nat i :: u64) = i" using i arr(3) u64_bound [of "unFreeIdx al"] by (simp add: unat_of_nat)
  have "unat (unFreeIdx al - 1) = length xs - 1" using arr(3) i by (metis not_less_zero unat_0 unat_minus_one)
  then have "\<not> unFreeIdx al - 1 < of_nat i" using i i64 by (simp add: word_less_nat_alt)
  moreover have "unat (of_nat i * al_item_sz al) = i * ?sz"
    using item_offset [OF h, of "of_nat i"] i i64 arr(4) by simp
  ultimately have "al_item (of_nat i) al = Some (take ?sz (drop (i * ?sz) arr))"
    using arr(1) by (simp add: al_item_def pvArrayListGet_def)
  moreover have "take ?sz (drop (i * ?sz) arr) = take ?sz (drop (i * ?sz) (concat xs))"
  proof -
    have "(i + 1) * ?sz \<le> length xs * ?sz" using i by (intro mult_right_mono) simp_all
    then show ?thesis unfolding arr(5) [symmetric] by (simp add: drop_take min_absorb1)
  qed
  ultimately show ?thesis using concat_nth [OF i arr(2)] by simp
qed

lemma remove_holds:
  assumes h: "holds_items al xs" and i: "i < length xs"
  shows "if i + 1 = length xs \<or> i + 1 + length xs \<le> unat (unMaxItems al)
    then \<exists>al'. vArrayListRemove (of_nat i) al = Done al' \<and> holds_items al' (drop_nth i xs)
    else vArrayListRemove (of_nat i) al = Crash"
proof -
  let ?sz = "unat (al_item_sz al)" and ?n = "length xs" and ?m = "unat (unMaxItems al)"
  obtain arr where arr: "pvArray al = Some arr" "\<forall>x \<in> set xs. length x = ?sz" "length arr = ?m * ?sz"
    "unat (unFreeIdx al) = ?n" "?n \<le> ?m" "take (?n * ?sz) arr = concat xs" "0 < ?sz"
    using h by (auto simp: holds_items_def unat_gt_0)
  have i64: "unat (of_nat i :: u64) = i" using i arr(4) u64_bound [of "unFreeIdx al"] by (simp add: unat_of_nat)
  have n1: "unat (unFreeIdx al - 1) = ?n - 1" using arr(4) i by (metis not_less_zero unat_0 unat_minus_one)
  then have c: "\<not> unFreeIdx al - 1 < of_nat i" "(of_nat i = unFreeIdx al - 1) = (i + 1 = ?n)"
    using i i64 by (auto simp: word_less_nat_alt word_unat_eq_iff)
  have xs': "\<forall>x \<in> set (drop_nth i xs). length x = ?sz" "length (drop_nth i xs) = ?n - 1"
    using arr(2) i by (auto simp: drop_nth_def dest: in_set_takeD in_set_dropD)
  show ?thesis
  proof (cases "i + 1 = ?n")
    case True
    let ?al = "al\<lparr>unFreeIdx := unFreeIdx al - 1\<rparr>"
    have n: "?n - 1 = i" using True by simp
    have "drop_nth i xs = take (?n - 1) xs" unfolding n using True by (simp add: drop_nth_def)
    moreover have "take ((?n - 1) * ?sz) arr = take ((?n - 1) * ?sz) (concat xs)"
      unfolding arr(6) [symmetric] by (simp add: min_absorb1)
    ultimately have "take ((?n - 1) * ?sz) arr = concat (drop_nth i xs)" using concat_take [OF arr(2)] by simp
    then have "holds_items ?al (drop_nth i xs)" using h arr n1 xs' by (auto simp: holds_items_def)
    then show ?thesis using True c by (simp add: vArrayListRemove_def)
  next
    case False
    have i1: "unat (of_nat i + 1 :: u64) = i + 1"
      using unat_add_1_bound [of "of_nat i :: u64" ?n] i64 i arr(4) u64_bound [of "unFreeIdx al"] by simp
    have off: "unat (of_nat i * al_item_sz al) = i * ?sz" "unat ((of_nat i + 1) * al_item_sz al) = (i + 1) * ?sz"
      "unat (unFreeIdx al * al_item_sz al) = ?n * ?sz"
      using item_offset [OF h, of "of_nat i"] item_offset [OF h, of "of_nat i + 1"] item_offset [OF h, of "unFreeIdx al"]
        i i64 i1 arr(4,5) by simp_all
    have lim: "(length arr < (i + 1) * ?sz + ?n * ?sz) = (?m < i + 1 + ?n)"
      using arr(3,7) by (simp add: add_mult_distrib [symmetric] del: mult_Suc add_mult_distrib)
    show ?thesis
    proof (cases "?m < i + 1 + ?n")
      case True
      then show ?thesis using False c arr(1) lim by (simp add: vArrayListRemove_def off Let_def del: mult_Suc)
    next
      case room: False
      let ?a1 = "take (i * ?sz) arr @ take (?n * ?sz) (drop ((i + 1) * ?sz) arr) @ drop (i * ?sz + ?n * ?sz) arr"
      let ?al = "al\<lparr>pvArray := Some ?a1, unFreeIdx := unFreeIdx al - 1\<rparr>"
      have "(i + 1 + ?n) * ?sz \<le> ?m * ?sz" using room by (intro mult_right_mono) simp_all
      then have fit: "(i + 1) * ?sz + ?n * ?sz \<le> length arr" using arr(3) by (simp add: add_mult_distrib)
      then have "length (take (?n * ?sz) (drop ((i + 1) * ?sz) arr)) = ?n * ?sz" by simp
      then have e: "vArrayListRemove (of_nat i) al = Done ?al"
        using False c arr(1) lim room fit by (simp add: vArrayListRemove_def off Let_def mem_write_def)
      have d: "take ((?n - 1 - i) * ?sz) (drop ((i + 1) * ?sz) arr) = concat (drop (Suc i) xs)"
      proof -
        have "?n = (?n - 1 - i) + (i + 1)" using i by simp
        then have "?n * ?sz = (?n - 1 - i) * ?sz + (i + 1) * ?sz" by (metis add_mult_distrib)
        then have "take ((?n - 1 - i) * ?sz) (drop ((i + 1) * ?sz) arr) = drop ((i + 1) * ?sz) (concat xs)"
          unfolding arr(6) [symmetric] by (simp add: drop_take)
        then show ?thesis using concat_drop [OF arr(2), of "i + 1"] by simp
      qed
      have t: "take (i * ?sz) arr = concat (take i xs)"
        unfolding concat_take [OF arr(2), symmetric] arr(6) [symmetric] using i by (simp add: min_absorb1)
      have "?n - 1 = i + (?n - 1 - i)" using i by simp
      then have "(?n - 1) * ?sz = i * ?sz + (?n - 1 - i) * ?sz" by (metis add_mult_distrib)
      moreover have "(?n - 1 - i) * ?sz \<le> ?n * ?sz" by (intro mult_right_mono) simp_all
      moreover have "i * ?sz \<le> length arr" using fit by simp
      moreover have "length (concat (take i xs)) = i * ?sz"
        using concat_same_length [of "take i xs" ?sz] arr(2) i by (auto dest: in_set_takeD)
      ultimately have "take ((?n - 1) * ?sz) ?a1 = concat (drop_nth i xs)"
        using d t fit by (simp add: drop_nth_def take_add min_absorb1 min_absorb2)
      moreover have "length ?a1 = length arr" using fit by simp
      ultimately have "holds_items ?al (drop_nth i xs)" using h arr n1 xs' by (auto simp: holds_items_def)
      then show ?thesis using e False room by auto
    qed
  qed
qed

text \<open>C28. An array list with room for at least one item is a list: adding appends, and doubles the room
  when it is full and memory for it can be had; getting an index below the length gives the item,
  and the count is the length.  Removing the last item, or an item of a list that fills less than half
  of its room, removes it; removing another can move bytes past the end of the array, because as many
  bytes are moved as all of the items take.\<close>
theorem array_list_as_list:
  assumes h: "holds_items al xs"
  shows "unat (unArrayListCount al) = length xs \<and>
    (\<forall>i < length xs. al_item (of_nat i) al = Some (xs ! i)) \<and>
    (\<forall>item mem. length item = unat (al_item_sz al) \<longrightarrow> can_add mem al \<longrightarrow>
       (\<exists>al'. xArrayListAdd mem item al = Done (None, al') \<and> holds_items al' (xs @ [item]))) \<and>
    (\<forall>i < length xs.
       if i + 1 = length xs \<or> i + 1 + length xs \<le> unat (unMaxItems al)
       then \<exists>al'. vArrayListRemove (of_nat i) al = Done al' \<and> holds_items al' (drop_nth i xs)
       else vArrayListRemove (of_nat i) al = Crash)"
proof -
  have "unat (unArrayListCount al) = length xs" using h by (auto simp: holds_items_def unArrayListCount_def unsigned_minus_1_eq_mask mask_eq_exp_minus_1)
  then show ?thesis using get_holds [OF h] add_holds [OF h] remove_holds [OF h] by blast
qed

definition demo_array :: array_list where
  "demo_array = \<lparr>pvArray = Some [1, 2, 3, 4], unMaxItems = 2, al_item_sz = 2, unFreeIdx = 2, pooled = True\<rparr>"

lemma array_list_as_list_witness:
  "al_item 1 demo_array = Some [3, 4] \<and> vArrayListRemove 0 demo_array = Crash \<and>
   (\<exists>al'. xArrayListAdd (\<lambda>n. Some (replicate n 0)) [5, 6] demo_array = Done (None, al') \<and> holds_items al' [[1, 2], [3, 4], [5, 6]])"
proof -
  have h: "holds_items demo_array [[1, 2], [3, 4]]" by (simp add: holds_items_def demo_array_def)
  have c: "can_add (\<lambda>n. Some (replicate n 0)) demo_array"
    by (simp add: can_add_def demo_array_def malloc_ok_def)
  note t = array_list_as_list [OF h]
  from t have "al_item (of_nat 1) demo_array = Some ([[1, 2], [3, 4]] ! 1)" by (metis One_nat_def length_Cons lessI list.size(3))
  moreover from t have "vArrayListRemove (of_nat 0) demo_array = Crash" by (force simp: demo_array_def)
  moreover from t c have "\<exists>al'. xArrayListAdd (\<lambda>n. Some (replicate n 0)) [5, 6] demo_array = Done (None, al') \<and>
      holds_items al' ([[1, 2], [3, 4]] @ [[5, 6]])"
    by (simp add: demo_array_def)
  ultimately show ?thesis by simp
qed

text \<open>On an empty list the test for the last index wraps around: an item is found that was never
  stored, and removing it makes the count the largest number there is.\<close>

lemma empty_array_list:
  assumes "pvArray al = Some arr" "unFreeIdx al = 0" "i \<noteq> - 1" "length arr \<ge> unat ((i + 1) * al_item_sz al)"
    "length arr \<ge> unat (i * al_item_sz al)"
  shows "pvArrayListGet i al \<noteq> None \<and>
    (\<exists>al'. vArrayListRemove i al = Done al' \<and> unat (unArrayListCount al') = 2 ^ 64 - 1)"
  using assms
  by (simp add: pvArrayListGet_def vArrayListRemove_def Let_def mem_write_def unArrayListCount_def unsigned_minus_1_eq_mask mask_eq_exp_minus_1)

section \<open>The data packer\<close>

text \<open>The base is the whole block, the next byte written an offset into it.\<close>

record packer =
  pvBase :: bytes
  pvNext :: nat
  pk_max :: nat

definition vPkInit :: "bytes \<Rightarrow> nat \<Rightarrow> nat \<Rightarrow> packer" where
  "vPkInit base off mx = \<lparr>pvBase = base, pvNext = off, pk_max = mx\<rparr>"

text \<open>The test for an overflow is an assertion.\<close>

definition vPkWrite :: "bytes \<Rightarrow> packer \<Rightarrow> packer outcome" where
  "vPkWrite d pk =
    (if pk_max pk < pvNext pk + length d then Crash
     else
       obind (or_crash (mem_write (pvBase pk) (pvNext pk) d)) (\<lambda>b.
         Done (pk\<lparr>pvBase := b, pvNext := pvNext pk + length d\<rparr>)))"

definition pxPkPtr :: "packer \<Rightarrow> nat" where
  "pxPkPtr pk = pvNext pk"

text \<open>The room that is left, as a \<^verbatim>\<open>size_t\<close>.\<close>

definition pxPkGetFree :: "packer \<Rightarrow> u64" where
  "pxPkGetFree pk = of_nat (pk_max pk) - of_nat (pvNext pk)"

lemma free_room:
  "pvNext pk \<le> pk_max pk \<Longrightarrow> pk_max pk < 2 ^ 64 \<Longrightarrow> unat (pxPkGetFree pk) = pk_max pk - pvNext pk"
  "pvNext pk = pk_max pk + 1 \<Longrightarrow> pxPkGetFree pk = - 1"
proof -
  show "unat (pxPkGetFree pk) = pk_max pk - pvNext pk" if "pvNext pk \<le> pk_max pk" "pk_max pk < 2 ^ 64"
    unfolding pxPkGetFree_def of_nat_diff [OF that(1), symmetric] using that(2) by (simp add: unat_of_nat take_bit_nat_eq_self)
qed (simp add: pxPkGetFree_def)

text \<open>The NUL is written without the test.\<close>

definition vPkWriteStr :: "bytes \<Rightarrow> packer \<Rightarrow> packer outcome" where
  "vPkWriteStr s pk =
    obind (vPkWrite (cstring s) pk) (\<lambda>pk1.
    obind (or_crash (mem_write (pvBase pk1) (pvNext pk1) [0])) (\<lambda>b.
      Done (pk1\<lparr>pvBase := b, pvNext := pvNext pk1 + 1\<rparr>)))"

lemma pack_string:
  assumes "length (pvBase pk) = pk_max pk" "pvNext pk + length (cstring s) < pk_max pk"
  shows "\<exists>pk'. vPkWriteStr s pk = Done pk' \<and> pk_max pk' = pk_max pk \<and> length (pvBase pk') = length (pvBase pk) \<and>
    pvNext pk' = pvNext pk + length (cstring s) + 1 \<and>
    pvBase pk' = take (pvNext pk) (pvBase pk) @ cstring s @ 0 # drop (pvNext pk + length (cstring s) + 1) (pvBase pk)"
  using assms by (simp add: vPkWriteStr_def vPkWrite_def mem_write_def min_absorb1)

end
