(* ===== verification/Serdes_Nbr.thy ===== *)
theory Serdes_Nbr
  imports Serdes Array_List
begin

text \<open>Serialisation of neighbours (\<^verbatim>\<open>SerDes/SerDesNeighbor.c\<close>).  The library's streams call back for
  the supporting DIFs and for the neighbours of a list; a message structure carries what the callbacks
  write, the sequence of strings or of structures, and decoding calls back for each of them.\<close>

section \<open>Message structures\<close>

record nbr_wire =
  nw_apname :: wire_str
  nw_apinstance :: wire_str
  nw_aename :: wire_str
  nw_aeinstance :: wire_str
  nw_address :: "bool \<times> u64"
  nw_difs :: "bytes list"

definition nbr_zero :: nbr_wire where
  "nbr_zero = \<lparr>nw_apname = field_copy NAME_SZ None, nw_apinstance = field_copy NAME_SZ None,
     nw_aename = field_copy NAME_SZ None, nw_aeinstance = field_copy NAME_SZ None, nw_address = (False, 0), nw_difs = []\<rparr>"

definition sent_nbr :: "nbr_wire \<Rightarrow> nbr_wire" where
  "sent_nbr w = w\<lparr>nw_apname := sent_str (nw_apname w), nw_apinstance := sent_str (nw_apinstance w),
     nw_aename := sent_str (nw_aename w), nw_aeinstance := sent_str (nw_aeinstance w),
     nw_address := sent_num (nw_address w)\<rparr>"

section \<open>Encoding\<close>

definition xSerDesNeighborInit :: "u64 \<Rightarrow> (nat \<Rightarrow> heap) \<Rightarrow> rsrc_state \<Rightarrow> (nat list option \<times> rsrc_state) run" where
  "xSerDesNeighborInit szv ha st =
    rbind (pxRsrcNewPool (Some ''Neighbor SerDes Encoding'') (ENROLLMENT_MSG_SIZE + szv) 1 1 0 (ha 0) (ha 1) (ha 2) st) (\<lambda>(p, st1).
      case p of None \<Rightarrow> Ret (None, st1)
      | Some a \<Rightarrow>
          rbind (pxRsrcNewVarPool (Some ''Neighbor SerDes Decoding'') 0 (ha 3) (ha 4) (ha 5) st1) (\<lambda>(q, st2).
            Ret (map_option (\<lambda>b. [a, b]) q, st2)))"

text \<open>\<^verbatim>\<open>_SERDES_FIELD_COPY\<close> into a field that may hold something already.\<close>

definition field_over :: "wire_str \<Rightarrow> bytes option \<Rightarrow> wire_str" where
  "field_over old y = (case y of None \<Rightarrow> old | Some s \<Rightarrow> (True, strncpy s NAME_SZ))"

text \<open>The strings the callback writes.\<close>

definition prvSerDesNeighborEncodeCb :: "neighbor_msg \<Rightarrow> bytes list" where
  "prvSerDesNeighborEncodeCb m = List.map cstring (pcSupportingDifs m)"

text \<open>The address of a neighbour is not encoded.\<close>

definition pxSerDesNeighborEncodePrepare :: "neighbor_msg \<Rightarrow> nbr_wire \<Rightarrow> nbr_wire" where
  "pxSerDesNeighborEncodePrepare m w =
    w\<lparr>nw_difs := prvSerDesNeighborEncodeCb m, nw_aeinstance := field_over (nw_aeinstance w) (nm_AeInstance m),
      nw_aename := field_over (nw_aename w) (nm_AeName m), nw_apinstance := field_over (nw_apinstance w) (nm_ApInstance m),
      nw_apname := field_over (nw_apname w) (nm_ApName m)\<rparr>"

definition xSerDesNeighborEncode :: "(nat \<Rightarrow> nbr_wire \<Rightarrow> bytes option) \<Rightarrow> bool \<Rightarrow> neighbor_msg \<Rightarrow> bytes res" where
  "xSerDesNeighborEncode enc mem m =
    (if \<not> mem then Inl ERR_OOM
     else
       (case enc (unat ENROLLMENT_MSG_SIZE) (pxSerDesNeighborEncodePrepare m nbr_zero) of
          None \<Rightarrow> Inl ERR_SERDES_ENCODING_FAIL
        | Some b \<Rightarrow> Inr b))"

text \<open>One structure serves all the neighbours of a list.\<close>

fun prvSerDesNeighborListEncodeCb :: "neighbor_msg list \<Rightarrow> nbr_wire \<Rightarrow> nbr_wire list" where
  "prvSerDesNeighborListEncodeCb [] w = []"
| "prvSerDesNeighborListEncodeCb (m # ms) w =
    (let w1 = pxSerDesNeighborEncodePrepare m w in w1 # prvSerDesNeighborListEncodeCb ms w1)"

definition pxSerDesNeighborListEncode ::
  "(nat \<Rightarrow> nbr_wire list \<Rightarrow> bytes option) \<Rightarrow> bool \<Rightarrow> neighbor_msg list \<Rightarrow> bytes res" where
  "pxSerDesNeighborListEncode enc mem ms =
    (if \<not> mem then Inl ERR_OOM
     else
       (case enc (unat ENROLLMENT_MSG_SIZE) (prvSerDesNeighborListEncodeCb ms nbr_zero) of
          None \<Rightarrow> Inl ERR_SERDES_ENCODING_FAIL
        | Some b \<Rightarrow> Inr b))"

section \<open>Decoding\<close>

text \<open>The strings that go behind a decoded neighbour, in order; \<open>difs\<close> are the decoded DIFs.\<close>

definition opt_field :: "wire_str \<Rightarrow> bytes option" where
  "opt_field s = (if fst s then Some (snd s) else None)"

definition nbr_strings :: "nbr_wire \<Rightarrow> bytes list \<Rightarrow> bytes option list" where
  "nbr_strings w difs =
    [opt_field (nw_apname w), opt_field (nw_apinstance w), opt_field (nw_aename w), opt_field (nw_aeinstance w)] @
    List.map Some difs"

definition PTR_SZ :: nat where "PTR_SZ = 8"

definition prvSerDesGetNeighborAllocSize :: "nbr_wire \<Rightarrow> bytes list \<Rightarrow> nat" where
  "prvSerDesGetNeighborAllocSize w difs =
    sum_list (List.map (\<lambda>s. case s of None \<Rightarrow> 0 | Some t \<Rightarrow> strlen t + 1) (nbr_strings w difs)) + PTR_SZ * length difs"

fun pack_all :: "bytes option list \<Rightarrow> packer \<Rightarrow> (nat option list \<times> packer) outcome" where
  "pack_all [] pk = Done ([], pk)"
| "pack_all (None # ss) pk = obind (pack_all ss pk) (\<lambda>(ps, pk1). Done (None # ps, pk1))"
| "pack_all (Some s # ss) pk =
    obind (vPkWriteStr s pk) (\<lambda>pk1. obind (pack_all ss pk1) (\<lambda>(ps, pk2). Done (Some (pxPkPtr pk) # ps, pk2)))"

definition at_ptr :: "packer \<Rightarrow> nat option \<Rightarrow> bytes option" where
  "at_ptr pk p = map_option (\<lambda>o1. drop o1 (pvBase pk)) p"

text \<open>\<open>szn\<close> is the size of \<^verbatim>\<open>neighborMessage_t\<close>; \<open>blk\<close> is the resource, with \<open>addr\<close> and \<open>aei\<close> for the two fields
  that may be left as they are.\<close>

definition prvSerDesRinaNeighborToNeighborMessage ::
  "nat \<Rightarrow> nbr_wire \<Rightarrow> bytes list \<Rightarrow> u64 \<Rightarrow> bytes option \<Rightarrow> bytes \<Rightarrow> neighbor_msg outcome" where
  "prvSerDesRinaNeighborToNeighborMessage szn w difs addr aei blk =
    obind (pack_all (nbr_strings w difs) (vPkInit blk (szn + length difs * PTR_SZ) (length blk))) (\<lambda>(ps, pk).
      Done \<lparr>nm_ApName = at_ptr pk (ps ! 0), nm_ApInstance = at_ptr pk (ps ! 1), nm_AeName = at_ptr pk (ps ! 2),
            nm_AeInstance = (case ps ! 3 of None \<Rightarrow> aei | Some o1 \<Rightarrow> at_ptr pk (Some o1)),
            nm_address = (if fst (nw_address w) then snd (nw_address w) else addr),
            pcSupportingDifs = List.map (\<lambda>p. the (at_ptr pk p)) (drop 4 ps)\<rparr>)"

text \<open>The callback for the DIFs: each string that is not empty gets memory with a NUL and a place in an array
  list that starts with room for ten.  \<open>mem i n\<close> is the \<open>i\<close>-th request of the decoder, for \<open>n\<close> bytes.  The
  result is whether all went well, the number of requests and the strings so far.\<close>

type_synonym requests = "nat \<Rightarrow> nat \<Rightarrow> bytes option"

definition add_ptr :: "requests \<Rightarrow> nat \<Rightarrow> nat \<Rightarrow> nat \<Rightarrow> (nat \<times> nat) option" where
  "add_ptr mem i cap n = (if n = cap then (case mem i (2 * cap * PTR_SZ) of None \<Rightarrow> None | Some _ \<Rightarrow> Some (i + 1, 2 * cap))
    else Some (i, cap))"

fun prvSerDesNeighborDecodeCb :: "requests \<Rightarrow> nat \<Rightarrow> nat \<Rightarrow> bytes list \<Rightarrow> bytes list \<Rightarrow> bool \<times> nat \<times> bytes list" where
  "prvSerDesNeighborDecodeCb mem i cap [] acc = (True, i, acc)"
| "prvSerDesNeighborDecodeCb mem i cap (d # ds) acc =
    (if d = [] then prvSerDesNeighborDecodeCb mem i cap ds acc
     else
       (case mem i (length d + 1) of
          None \<Rightarrow> (False, i + 1, acc)
        | Some _ \<Rightarrow>
            (case add_ptr mem (i + 1) cap (length acc) of
               None \<Rightarrow> (False, i + 2, acc)
             | Some (j, cap1) \<Rightarrow> prvSerDesNeighborDecodeCb mem j cap1 ds (acc @ [d @ [0]]))))"

text \<open>One neighbour; \<open>old j\<close> are the address and the pointer that the resource of request \<open>j\<close> holds at first.
  The result has the number of requests.\<close>

definition nbr_decode ::
  "nat \<Rightarrow> (bytes \<Rightarrow> nbr_wire option) \<Rightarrow> requests \<Rightarrow> (nat \<Rightarrow> u64 \<times> bytes option) \<Rightarrow> nat \<Rightarrow> bytes \<Rightarrow>
    (neighbor_msg option \<times> nat) outcome" where
  "nbr_decode szn dec mem old i b =
    (if mem i (10 * PTR_SZ) = None then Done (None, i + 1)
     else
       (case dec b of None \<Rightarrow> Done (None, i + 1)
        | Some w \<Rightarrow>
            (case prvSerDesNeighborDecodeCb mem (i + 1) 10 (nw_difs w) [] of
               (False, j, difs) \<Rightarrow> Done (None, j)
             | (True, j, difs) \<Rightarrow>
                 (case mem j (szn + prvSerDesGetNeighborAllocSize w difs) of
                    None \<Rightarrow> Done (None, j + 1)
                  | Some blk \<Rightarrow>
                      obind (prvSerDesRinaNeighborToNeighborMessage szn w difs (fst (old j)) (snd (old j)) blk)
                        (\<lambda>m. Done (Some m, j + 1))))))"

text \<open>\<^verbatim>\<open>NULL\<close> is \<open>None\<close>.\<close>

definition pxSerDesNeighborDecode ::
  "nat \<Rightarrow> (bytes \<Rightarrow> nbr_wire option) \<Rightarrow> requests \<Rightarrow> (nat \<Rightarrow> u64 \<times> bytes option) \<Rightarrow> bytes \<Rightarrow> neighbor_msg option outcome" where
  "pxSerDesNeighborDecode szn dec mem old b = obind (nbr_decode szn dec mem old 0 b) (\<lambda>(m, i). Done m)"

text \<open>The callback for the neighbours of a list, called with the bytes of each.\<close>

fun prvSerDesNeighborListDecodeCb ::
  "nat \<Rightarrow> (bytes \<Rightarrow> nbr_wire option) \<Rightarrow> requests \<Rightarrow> (nat \<Rightarrow> u64 \<times> bytes option) \<Rightarrow> nat \<Rightarrow> nat \<Rightarrow> bytes list \<Rightarrow>
    neighbor_msg list \<Rightarrow> (bool \<times> nat \<times> neighbor_msg list) outcome" where
  "prvSerDesNeighborListDecodeCb szn dec mem old i cap [] acc = Done (True, i, acc)"
| "prvSerDesNeighborListDecodeCb szn dec mem old i cap (s # ss) acc =
    (if s = []
     then if mem i (10 * PTR_SZ) = None then Done (False, i + 1, acc)
          else prvSerDesNeighborListDecodeCb szn dec mem old (i + 1) cap ss acc
     else
       obind (nbr_decode szn dec mem old i s) (\<lambda>(r, j).
         case r of None \<Rightarrow> Done (False, j, acc)
         | Some m \<Rightarrow>
             (case add_ptr mem j cap (length acc) of None \<Rightarrow> Done (False, j + 1, acc)
              | Some (k, cap1) \<Rightarrow> prvSerDesNeighborListDecodeCb szn dec mem old k cap1 ss (acc @ [m]))))"

text \<open>\<open>decs\<close> finds the neighbours' bytes in the message.  When there is no memory for the list the code says
  so and goes on, through a null pointer.  \<open>szl\<close> is the size of \<^verbatim>\<open>neighborsMessage_t\<close>.\<close>

definition pxSerDesNeighborListDecode ::
  "nat \<Rightarrow> nat \<Rightarrow> (bytes \<Rightarrow> nbr_wire option) \<Rightarrow> (bytes \<Rightarrow> bytes list option) \<Rightarrow> requests \<Rightarrow> (nat \<Rightarrow> u64 \<times> bytes option) \<Rightarrow>
    bytes \<Rightarrow> neighbor_msg list option outcome" where
  "pxSerDesNeighborListDecode szn szl dec decs mem old b =
    (if mem 0 (10 * PTR_SZ) = None then Done None
     else
       (case decs b of None \<Rightarrow> Done None
        | Some ss \<Rightarrow>
            obind (prvSerDesNeighborListDecodeCb szn dec mem old 1 10 ss []) (\<lambda>(ok, i, ms).
              if \<not> ok then Done None
              else (case mem i (szl + length ms * PTR_SZ) of None \<Rightarrow> Crash | Some _ \<Rightarrow> Done (Some ms)))))"

section \<open>There and back\<close>

fun packed :: "nat \<Rightarrow> bytes option list \<Rightarrow> nat option list" where
  "packed o1 [] = []"
| "packed o1 (None # ss) = None # packed o1 ss"
| "packed o1 (Some s # ss) = Some o1 # packed (o1 + strlen s + 1) ss"

definition strs_size :: "bytes option list \<Rightarrow> nat" where
  "strs_size ss = sum_list (List.map (\<lambda>s. case s of None \<Rightarrow> 0 | Some t \<Rightarrow> strlen t + 1) ss)"

text \<open>Strings packed into a block with room for them are all there, and nothing in front of them changes.\<close>

lemma pack_all_result:
  assumes "length (pvBase pk) = pk_max pk" "pvNext pk + strs_size ss \<le> pk_max pk"
  shows "\<exists>pk'. pack_all ss pk = Done (packed (pvNext pk) ss, pk') \<and> length (pvBase pk') = pk_max pk \<and> pk_max pk' = pk_max pk \<and>
    take (pvNext pk) (pvBase pk') = take (pvNext pk) (pvBase pk) \<and>
    (\<forall>i < length ss. map_option cstring (at_ptr pk' (packed (pvNext pk) ss ! i)) = map_option cstring (ss ! i))"
  using assms
proof (induction ss arbitrary: pk)
  case (Cons s ss)
  show ?case
  proof (cases s)
    case None
    then obtain pk' where "pack_all ss pk = Done (packed (pvNext pk) ss, pk')" "length (pvBase pk') = pk_max pk" "pk_max pk' = pk_max pk"
      "take (pvNext pk) (pvBase pk') = take (pvNext pk) (pvBase pk)"
      "\<forall>i < length ss. map_option cstring (at_ptr pk' (packed (pvNext pk) ss ! i)) = map_option cstring (ss ! i)"
      using Cons.IH [OF Cons.prems(1)] Cons.prems(2) by (auto simp: strs_size_def)
    then show ?thesis using None by (auto simp: nth_Cons at_ptr_def split: nat.split)
  next
    case (Some t)
    have r: "pvNext pk + length (cstring t) < pk_max pk" using Cons.prems(2) Some by (simp add: strs_size_def strlen_def)
    obtain pk1 where 1: "vPkWriteStr t pk = Done pk1" "pk_max pk1 = pk_max pk" "length (pvBase pk1) = length (pvBase pk)"
      "pvNext pk1 = pvNext pk + length (cstring t) + 1"
      "pvBase pk1 = take (pvNext pk) (pvBase pk) @ cstring t @ 0 # drop (pvNext pk + length (cstring t) + 1) (pvBase pk)"
      using pack_string [OF Cons.prems(1) r] by blast
    have p: "length (pvBase pk1) = pk_max pk1" "pvNext pk1 + strs_size ss \<le> pk_max pk1"
      using 1 Cons.prems Some by (simp_all add: strs_size_def strlen_def)
    obtain pk' where 2: "pack_all ss pk1 = Done (packed (pvNext pk1) ss, pk')" "length (pvBase pk') = pk_max pk1" "pk_max pk' = pk_max pk1"
      "take (pvNext pk1) (pvBase pk') = take (pvNext pk1) (pvBase pk1)"
      "\<forall>i < length ss. map_option cstring (at_ptr pk' (packed (pvNext pk1) ss ! i)) = map_option cstring (ss ! i)"
      using Cons.IH [OF p] by blast
    let ?k = "length (cstring t) + 1"
    have t1: "take (pvNext pk) (pvBase pk') = take (pvNext pk) (pvBase pk)"
    proof -
      have "take (pvNext pk) (pvBase pk') = take (pvNext pk) (take (pvNext pk1) (pvBase pk'))" using 1(4) by (simp add: min_absorb1)
      also have "\<dots> = take (pvNext pk) (pvBase pk1)" unfolding 2(4) using 1(4) by (simp add: min_absorb1)
      also have "\<dots> = take (pvNext pk) (pvBase pk)" using 1(5) r Cons.prems(1) by simp
      finally show ?thesis .
    qed
    have "take ?k (drop (pvNext pk) (pvBase pk')) = drop (pvNext pk) (take (pvNext pk1) (pvBase pk'))" using 1(4) by (simp add: drop_take)
    also have "\<dots> = drop (pvNext pk) (take (pvNext pk1) (pvBase pk1))" by (simp only: 2(4))
    also have "\<dots> = cstring t @ [0]" using 1(4,5) r Cons.prems(1) by simp
    finally have h: "take ?k (drop (pvNext pk) (pvBase pk')) = cstring t @ [0]" .
    have "cstring (drop (pvNext pk) (pvBase pk')) = cstring t"
      using append_take_drop_id [of ?k "drop (pvNext pk) (pvBase pk')"] cstring_app [OF cstring_no_nul, of t]
      unfolding h by (metis append.assoc append_Cons append_Nil)
    then show ?thesis using 1 2 Some t1
      by (intro exI [of _ pk']) (auto simp: pxPkPtr_def at_ptr_def nth_Cons strlen_def split: nat.split)
  qed
qed simp

lemma packed_length: "length (packed o1 ss) = length ss"
  by (induction o1 ss rule: packed.induct) auto

lemma cstring_cstring: "cstring (cstring s) = cstring s"
  by (simp add: cstring_def)

lemma cstring_nul: "cstring (d @ [0]) = cstring d"
  by (induction d) (auto simp: cstring_def)

definition all_memory :: "requests \<Rightarrow> bool" where
  "all_memory mem = (\<forall>i n. \<exists>b. mem i n = Some b \<and> length b = n)"

lemma memory_given: "all_memory mem \<Longrightarrow> \<exists>b. mem i n = Some b \<and> length b = n"
  by (simp add: all_memory_def)

lemma add_ptr_ok: "all_memory mem \<Longrightarrow> n \<le> cap \<Longrightarrow> 0 < cap \<Longrightarrow> \<exists>j cap1. add_ptr mem i cap n = Some (j, cap1) \<and> n < cap1"
  using memory_given [of mem i "2 * cap * PTR_SZ"] by (auto simp: add_ptr_def)

lemma difs_decoded:
  assumes "all_memory mem" "length acc \<le> cap" "0 < cap"
  shows "\<exists>j. prvSerDesNeighborDecodeCb mem i cap ds acc =
    (True, j, acc @ List.map (\<lambda>d. d @ [0]) (List.filter (\<lambda>d. d \<noteq> []) ds))"
  using assms(2,3)
proof (induction ds arbitrary: i cap acc)
  case (Cons d ds)
  obtain b where b: "mem i (length d + 1) = Some b" using memory_given [OF assms(1)] by blast
  obtain j cap1 where j: "add_ptr mem (i + 1) cap (length acc) = Some (j, cap1)" "length acc < cap1"
    using add_ptr_ok [OF assms(1) Cons.prems] by blast
  show ?case using b j Cons.IH [of "acc @ [d @ [0]]" cap1 j] Cons.IH [OF Cons.prems] by auto
qed simp

text \<open>What a decoded neighbour holds; \<open>old\<close> is in the memory it was put in.\<close>

definition nbr_arrives :: "nbr_wire \<Rightarrow> u64 \<times> bytes option \<Rightarrow> neighbor_msg \<Rightarrow> bool" where
  "nbr_arrives w old m =
    (map_option cstring (nm_ApName m) = map_option cstring (opt_field (nw_apname w)) \<and>
     map_option cstring (nm_ApInstance m) = map_option cstring (opt_field (nw_apinstance w)) \<and>
     map_option cstring (nm_AeName m) = map_option cstring (opt_field (nw_aename w)) \<and>
     map_option cstring (nm_AeInstance m) =
       map_option cstring (if fst (nw_aeinstance w) then opt_field (nw_aeinstance w) else snd old) \<and>
     nm_address m = (if fst (nw_address w) then snd (nw_address w) else fst old) \<and>
     List.map cstring (pcSupportingDifs m) = List.map cstring (List.filter (\<lambda>d. d \<noteq> []) (nw_difs w)))"

lemma nbr_decoded:
  assumes mem: "all_memory mem" and w: "dec b = Some w"
  shows "\<exists>m j k. nbr_decode szn dec mem old i b = Done (Some m, k) \<and> nbr_arrives w (old j) m"
proof -
  let ?ds = "List.map (\<lambda>d. d @ [0]) (List.filter (\<lambda>d. d \<noteq> []) (nw_difs w))"
  obtain j where j: "prvSerDesNeighborDecodeCb mem (i + 1) 10 (nw_difs w) [] = (True, j, ?ds)"
    using difs_decoded [OF mem, of "[]" 10 "i + 1" "nw_difs w"] by auto
  obtain blk where blk: "mem j (szn + prvSerDesGetNeighborAllocSize w ?ds) = Some blk"
    "length blk = szn + prvSerDesGetNeighborAllocSize w ?ds" using memory_given [OF mem] by blast
  let ?ss = "nbr_strings w ?ds" and ?pk = "vPkInit blk (szn + length ?ds * PTR_SZ) (length blk)"
  have pk: "length (pvBase ?pk) = pk_max ?pk" "pvNext ?pk + strs_size ?ss \<le> pk_max ?pk"
    using blk(2) by (simp_all add: vPkInit_def prvSerDesGetNeighborAllocSize_def strs_size_def)
  obtain pk' where p: "pack_all ?ss ?pk = Done (packed (pvNext ?pk) ?ss, pk')"
    "\<And>n. n < length ?ss \<Longrightarrow> map_option cstring (at_ptr pk' (packed (pvNext ?pk) ?ss ! n)) = map_option cstring (?ss ! n)"
    using pack_all_result [OF pk] by blast
  let ?ps = "packed (pvNext ?pk) ?ss"
  have l: "length ?ps = length ?ss" by (rule packed_length)
  have f: "map_option cstring (at_ptr pk' (?ps ! 0)) = map_option cstring (opt_field (nw_apname w))"
    "map_option cstring (at_ptr pk' (?ps ! 1)) = map_option cstring (opt_field (nw_apinstance w))"
    "map_option cstring (at_ptr pk' (?ps ! 2)) = map_option cstring (opt_field (nw_aename w))"
    "map_option cstring (at_ptr pk' (?ps ! 3)) = map_option cstring (opt_field (nw_aeinstance w))"
    using p(2) [of 0] p(2) [of 1] p(2) [of 2] p(2) [of 3] by (simp_all add: nbr_strings_def numeral_2_eq_2 numeral_3_eq_3)
  have d: "List.map cstring (List.map (\<lambda>p. the (at_ptr pk' p)) (drop 4 ?ps)) = List.map cstring ?ds"
  proof (rule nth_equalityI)
    fix n assume "n < length (List.map cstring (List.map (\<lambda>p. the (at_ptr pk' p)) (drop 4 ?ps)))"
    then have n: "n < length ?ds" "4 + n < length ?ss" using l by (simp_all add: nbr_strings_def)
    have "?ss ! (4 + n) = Some (?ds ! n)" using n by (simp add: nbr_strings_def nth_append del: map_map List.filter.simps)
    then obtain x where "at_ptr pk' (?ps ! (4 + n)) = Some x" "cstring x = cstring (?ds ! n)" using p(2) [OF n(2)] by auto
    then show "List.map cstring (List.map (\<lambda>p. the (at_ptr pk' p)) (drop 4 ?ps)) ! n = List.map cstring ?ds ! n"
      using n l by simp
  qed (simp add: packed_length nbr_strings_def)
  have e: "List.map cstring ?ds = List.map cstring (List.filter (\<lambda>d. d \<noteq> []) (nw_difs w))" by (simp add: cstring_nul)
  obtain b0 where "mem i (10 * PTR_SZ) = Some b0" using memory_given [OF mem] by blast
  note ok = this w j blk(1) p(1)
  define m where "m = \<lparr>nm_ApName = at_ptr pk' (?ps ! 0), nm_ApInstance = at_ptr pk' (?ps ! 1), nm_AeName = at_ptr pk' (?ps ! 2),
     nm_AeInstance = (case ?ps ! 3 of None \<Rightarrow> snd (old j) | Some o1 \<Rightarrow> at_ptr pk' (Some o1)),
     nm_address = (if fst (nw_address w) then snd (nw_address w) else fst (old j)),
     pcSupportingDifs = List.map (\<lambda>p. the (at_ptr pk' p)) (drop 4 ?ps)\<rparr>"
  have "nbr_decode szn dec mem old i b = Done (Some m, j + 1)"
    using ok by (simp add: nbr_decode_def prvSerDesRinaNeighborToNeighborMessage_def m_def)
  moreover have "map_option cstring (nm_AeInstance m) =
      map_option cstring (if fst (nw_aeinstance w) then opt_field (nw_aeinstance w) else snd (old j))"
    using f(4) by (auto simp: m_def opt_field_def at_ptr_def split: option.splits if_splits)
  moreover have "List.map cstring (pcSupportingDifs m) = List.map cstring (List.filter (\<lambda>d. d \<noteq> []) (nw_difs w))"
    unfolding e [symmetric] d [symmetric] by (simp add: m_def)
  ultimately show ?thesis using f(1-3) by (intro exI [of _ m] exI [of _ j] exI [of _ "j + 1"]) (simp add: m_def nbr_arrives_def)
qed


definition opt_fits :: "bytes option \<Rightarrow> bool" where
  "opt_fits y = (case y of None \<Rightarrow> True | Some s \<Rightarrow> strlen s < NAME_SZ)"

definition nbr_fits :: "neighbor_msg \<Rightarrow> bool" where
  "nbr_fits m = (opt_fits (nm_ApName m) \<and> opt_fits (nm_ApInstance m) \<and> opt_fits (nm_AeName m) \<and> opt_fits (nm_AeInstance m))"

text \<open>The last string of a sequence that is there.\<close>

definition last_given :: "bytes option list \<Rightarrow> bytes option" where
  "last_given ys = fold (\<lambda>y z. if y = None then z else y) ys None"

lemma last_given_one: "last_given [y] = y" by (simp add: last_given_def)

lemma last_given_app: "last_given (ys @ [y]) = (if y = None then last_given ys else y)"
  by (simp add: last_given_def)

lemma carried_field:
  "opt_field (fold (\<lambda>y z. field_over z y) ys (field_copy NAME_SZ None)) = map_option (\<lambda>s. strncpy s NAME_SZ) (last_given ys)"
  by (induction ys rule: rev_induct)
    (auto simp: last_given_app field_over_def opt_field_def field_copy_def last_given_def split: option.splits)

lemma opt_fits_cstring:
  "opt_fits y \<Longrightarrow> map_option cstring (map_option (\<lambda>s. strncpy s NAME_SZ) y) = map_option cstring y"
  by (cases y) (simp_all add: opt_fits_def cstring_strncpy strlen_def)

lemma opt_fits_some: "opt_fits (Some s) \<Longrightarrow> cstring (strncpy s NAME_SZ) = cstring s"
  by (simp add: opt_fits_def cstring_strncpy)

lemma last_given_fits: "\<forall>y \<in> set ys. opt_fits y \<Longrightarrow> opt_fits (last_given ys)"
  by (induction ys rule: rev_induct) (auto simp: last_given_app last_given_def opt_fits_def)

lemma opt_field_sent: "opt_field (sent_str s) = opt_field s" "fst (sent_str s) = fst s"
  by (auto simp: opt_field_def sent_str_def)

lemma opt_field_fst: "fst s = (opt_field s \<noteq> None)"
  by (simp add: opt_field_def)

text \<open>A neighbour that is encoded and decoded arrives with the strings it has, as long as they fit
  their fields, and with its DIFs, empty names of DIFs left out.  Its address does not arrive: the encoder
  does not send it, and the address of the decoded neighbour is what the memory held.  So is the
  application entity instance when there is none, which the decoder does not set.\<close>
theorem neighbor_roundtrip:
  assumes fit: "nbr_fits m" and mem: "all_memory mem"
    and lib: "enc 1500 (pxSerDesNeighborEncodePrepare m nbr_zero) = Some b"
      "dec b = Some (sent_nbr (pxSerDesNeighborEncodePrepare m nbr_zero))"
  shows "xSerDesNeighborEncode enc True m = Inr b \<and>
    (\<exists>m' j. pxSerDesNeighborDecode szn dec mem old b = Done (Some m') \<and>
      map_option cstring (nm_ApName m') = map_option cstring (nm_ApName m) \<and>
      map_option cstring (nm_ApInstance m') = map_option cstring (nm_ApInstance m) \<and>
      map_option cstring (nm_AeName m') = map_option cstring (nm_AeName m) \<and>
      map_option cstring (nm_AeInstance m') =
        map_option cstring (if nm_AeInstance m = None then snd (old j) else nm_AeInstance m) \<and>
      nm_address m' = fst (old j) \<and>
      List.map cstring (pcSupportingDifs m') = List.filter (\<lambda>d. d \<noteq> []) (List.map cstring (pcSupportingDifs m)))"
proof -
  let ?w = "sent_nbr (pxSerDesNeighborEncodePrepare m nbr_zero)"
  obtain m' j k where d: "nbr_decode szn dec mem old 0 b = Done (Some m', k)" "nbr_arrives ?w (old j) m'"
    using nbr_decoded [of mem dec b, OF mem lib(2)] by blast
  have c: "opt_field (field_over (field_copy NAME_SZ None) y) = map_option (\<lambda>s. strncpy s NAME_SZ) y"
    "fst (field_over (field_copy NAME_SZ None) y) = (y \<noteq> None)" for y
    using carried_field [of "[y]"] by (auto simp: last_given_one opt_field_fst)
  have "List.map cstring (List.filter (\<lambda>d. d \<noteq> []) (List.map cstring (pcSupportingDifs m))) =
      List.filter (\<lambda>d. d \<noteq> []) (List.map cstring (pcSupportingDifs m))"
    by (simp add: filter_map o_def cstring_cstring)
  then have "map_option cstring (nm_ApName m') = map_option cstring (nm_ApName m) \<and>
      map_option cstring (nm_ApInstance m') = map_option cstring (nm_ApInstance m) \<and>
      map_option cstring (nm_AeName m') = map_option cstring (nm_AeName m) \<and>
      map_option cstring (nm_AeInstance m') =
        map_option cstring (if nm_AeInstance m = None then snd (old j) else nm_AeInstance m) \<and>
      nm_address m' = fst (old j) \<and>
      List.map cstring (pcSupportingDifs m') = List.filter (\<lambda>d. d \<noteq> []) (List.map cstring (pcSupportingDifs m))"
    using d(2) fit
    by (cases "nm_AeInstance m")
      (simp_all add: opt_fits_some nbr_arrives_def sent_nbr_def pxSerDesNeighborEncodePrepare_def nbr_zero_def opt_field_sent c nbr_fits_def
        opt_fits_cstring sent_num_def prvSerDesNeighborEncodeCb_def)
  moreover have "pxSerDesNeighborDecode szn dec mem old b = Done (Some m')"
    using d(1) by (simp add: pxSerDesNeighborDecode_def)
  moreover have "xSerDesNeighborEncode enc True m = Inr b"
    using lib(1) by (simp add: xSerDesNeighborEncode_def ENROLLMENT_MSG_SIZE_def)
  ultimately show ?thesis by blast
qed

definition demo_nbr :: neighbor_msg where
  "demo_nbr = \<lparr>nm_ApName = Some [97, 0], nm_ApInstance = Some [49, 0], nm_AeName = None, nm_AeInstance = None, nm_address = 7,
     pcSupportingDifs = [[68, 0], [0]]\<rparr>"

lemma demo_nbr_fits: "nbr_fits demo_nbr" "nbr_fits (demo_nbr\<lparr>nm_ApInstance := None\<rparr>)"
  by (simp_all add: nbr_fits_def opt_fits_def demo_nbr_def strlen_def cstring_def NAME_SZ_def)

lemma demo_memory: "all_memory (\<lambda>i n. Some (replicate n 0))"
  by (simp add: all_memory_def)

text \<open>The places of the encodings that are not empty.\<close>

definition kept :: "bytes list \<Rightarrow> nat list" where
  "kept ss = List.filter (\<lambda>i. ss ! i \<noteq> []) [0 ..< length ss]"

lemma kept_Cons: "kept (s # ss) = (if s = [] then [] else [0]) @ List.map Suc (kept ss)"
proof -
  have "[0 ..< length (s # ss)] = 0 # List.map Suc [0 ..< length ss]" by (simp add: upt_conv_Cons map_Suc_upt del: upt_Suc)
  then show ?thesis by (simp add: kept_def filter_map o_def)
qed

lemma kept_all: "\<forall>s \<in> set ss. s \<noteq> [] \<Longrightarrow> kept ss = [0 ..< length ss]"
  by (auto simp: kept_def filter_id_conv)

lemma kept_lt: "i \<in> set (kept ss) \<Longrightarrow> i < length ss"
  by (simp add: kept_def)

lemma list_decoded:
  assumes mem: "all_memory mem" and d: "list_all2 (\<lambda>s w. dec s = Some w) ss ws" and c: "length acc \<le> cap" "0 < cap"
  shows "\<exists>k ms. prvSerDesNeighborListDecodeCb szn dec mem old i cap ss acc = Done (True, k, acc @ ms) \<and>
    list_all2 (\<lambda>n m. \<exists>j. nbr_arrives (ws ! n) (old j) m) (kept ss) ms"
  using d c
proof (induction ss ws arbitrary: i cap acc rule: list_all2_induct)
  case Nil
  then show ?case by (simp add: kept_def)
next
  case (Cons s ss w ws)
  show ?case
  proof (cases "s = []")
    case True
    obtain b where "mem i (10 * PTR_SZ) = Some b" using memory_given [OF mem] by blast
    then show ?thesis using True Cons.IH [OF Cons.prems, of "i + 1"] by (auto simp: kept_Cons list_all2_map1)
  next
    case False
  obtain m j k where m: "nbr_decode szn dec mem old i s = Done (Some m, k)" "nbr_arrives w (old j) m"
    using nbr_decoded [of mem dec s w, OF mem] Cons.hyps by blast
  obtain l cap1 where l: "add_ptr mem k cap (length acc) = Some (l, cap1)" "length acc < cap1"
    using add_ptr_ok [OF mem Cons.prems] by blast
  obtain k2 ms where "prvSerDesNeighborListDecodeCb szn dec mem old l cap1 ss (acc @ [m]) = Done (True, k2, (acc @ [m]) @ ms)"
    "list_all2 (\<lambda>n m. \<exists>j. nbr_arrives (ws ! n) (old j) m) (kept ss) ms"
    using Cons.IH [of "acc @ [m]" cap1 l] l(2) by auto
  then show ?thesis using m l(1) False by (intro exI [of _ k2] exI [of _ "m # ms"]) (auto simp: kept_Cons list_all2_map1)
  qed
qed

lemma address_not_sent: "i < length ms \<Longrightarrow> fst (nw_address (sent_nbr (prvSerDesNeighborListEncodeCb ms nbr_zero ! i))) = False"
proof -
  have "fst (nw_address w) = False \<Longrightarrow> i < length ms \<Longrightarrow> fst (nw_address (prvSerDesNeighborListEncodeCb ms w ! i)) = False" for w
    by (induction ms arbitrary: w i) (auto simp: Let_def pxSerDesNeighborEncodePrepare_def nth_Cons split: nat.splits)
  from this [of nbr_zero] show "i < length ms \<Longrightarrow> ?thesis" by (simp add: nbr_zero_def sent_nbr_def sent_num_def)
qed

text \<open>A field of the structure for the \<open>i\<close>-th neighbour of a list.\<close>

lemma list_encoded:
  "length (prvSerDesNeighborListEncodeCb ms w) = length ms"
  "i < length ms \<Longrightarrow> (let v = prvSerDesNeighborListEncodeCb ms w ! i; f = (\<lambda>g z. fold (\<lambda>y z. field_over z y) (List.map g (take (Suc i) ms)) z) in
     nw_apname v = f nm_ApName (nw_apname w) \<and> nw_apinstance v = f nm_ApInstance (nw_apinstance w) \<and>
     nw_aename v = f nm_AeName (nw_aename w) \<and> nw_aeinstance v = f nm_AeInstance (nw_aeinstance w) \<and>
     nw_difs v = prvSerDesNeighborEncodeCb (ms ! i))"
proof (induction ms arbitrary: w i)
  case (Cons m ms)
  { case 1 show ?case using Cons.IH(1) by (simp add: Let_def) }
  { case 2
    show ?case using 2 Cons.IH(2) by (cases i) (simp_all add: Let_def pxSerDesNeighborEncodePrepare_def) }
qed simp_all

text \<open>C20. A list of neighbours that is encoded and decoded arrives in order, each neighbour with its DIFs and
  with the strings it has; no address arrives.  A string that a neighbour lacks arrives as that of the last neighbour
  before it that had one, because one structure serves them all.  If there is none, it arrives as absent, but for the
  instance of the application entity: its pointer then is, like the address, whatever the memory held.  The decoder
  leaves out a neighbour whose encoding has no bytes; the library is only asked to decode what it encoded.\<close>
theorem neighbor_list_roundtrip:
  assumes fit: "\<forall>m \<in> set ms. nbr_fits m" and mem: "all_memory mem"
    and lib: "enc 1500 (prvSerDesNeighborListEncodeCb ms nbr_zero) = Some b" "decs b = Some ss"
      "list_all2 (\<lambda>s w. dec s = Some (sent_nbr w)) ss (prvSerDesNeighborListEncodeCb ms nbr_zero)"
  shows "pxSerDesNeighborListEncode enc True ms = Inr b \<and>
    (\<exists>ms'. pxSerDesNeighborListDecode szn szl dec decs mem old b = Done (Some ms') \<and> length ms' = length (kept ss) \<and>
      (\<forall>n < length ms'. let i = kept ss ! n; before = take (Suc i) ms in i < length ms \<and>
        map_option cstring (nm_ApName (ms' ! n)) = map_option cstring (last_given (List.map nm_ApName before)) \<and>
        map_option cstring (nm_ApInstance (ms' ! n)) = map_option cstring (last_given (List.map nm_ApInstance before)) \<and>
        map_option cstring (nm_AeName (ms' ! n)) = map_option cstring (last_given (List.map nm_AeName before)) \<and>
        (\<exists>j. nm_address (ms' ! n) = fst (old j) \<and>
          map_option cstring (nm_AeInstance (ms' ! n)) =
            map_option cstring (case last_given (List.map nm_AeInstance before) of None \<Rightarrow> snd (old j) | Some s \<Rightarrow> Some s)) \<and>
        List.map cstring (pcSupportingDifs (ms' ! n)) = List.filter (\<lambda>d. d \<noteq> []) (List.map cstring (pcSupportingDifs (ms ! i)))))"
proof -
  let ?vs = "prvSerDesNeighborListEncodeCb ms nbr_zero"
  have a: "list_all2 (\<lambda>s w. dec s = Some w) ss (List.map sent_nbr ?vs)"
    using lib(3) by (simp add: list_all2_map2)
  obtain k ms' where k: "prvSerDesNeighborListDecodeCb szn dec mem old 1 10 ss [] = Done (True, k, ms')"
    "list_all2 (\<lambda>n m. \<exists>j. nbr_arrives (List.map sent_nbr ?vs ! n) (old j) m) (kept ss) ms'"
    using list_decoded [OF mem a, of "[]" 10 szn old 1] by auto
  obtain b0 b1 where "mem 0 (10 * PTR_SZ) = Some b0" "mem k (szl + length ms' * PTR_SZ) = Some b1"
    using memory_given [OF mem] by blast
  then have dec: "pxSerDesNeighborListDecode szn szl dec decs mem old b = Done (Some ms')"
    using lib(2) k(1) by (simp add: pxSerDesNeighborListDecode_def)
  have len: "length ms' = length (kept ss)" using list_all2_lengthD [OF k(2)] by simp
  have ls: "length ss = length ms" using list_all2_lengthD [OF a] list_encoded(1) [of ms] by simp
  have each: "kept ss ! n < length ms \<and> (\<exists>j. nbr_arrives (sent_nbr (?vs ! (kept ss ! n))) (old j) (ms' ! n))" if "n < length ms'" for n
  proof -
    have "n < length (kept ss)" using that len by simp
    then have "kept ss ! n < length ms" using kept_lt [OF nth_mem] ls by metis
    then show ?thesis using list_all2_nthD2 [OF k(2) that] by (simp add: list_encoded(1))
  qed
  have fits: "opt_fits (last_given (List.map g (take (Suc i) ms)))" if "\<forall>m \<in> set ms. opt_fits (g m)" for g and i
    using last_given_fits [of "List.map g (take (Suc i) ms)"] that by (auto dest: in_set_takeD)
  have all: "\<forall>m \<in> set ms. opt_fits (nm_ApName m)" "\<forall>m \<in> set ms. opt_fits (nm_ApInstance m)"
    "\<forall>m \<in> set ms. opt_fits (nm_AeName m)" "\<forall>m \<in> set ms. opt_fits (nm_AeInstance m)"
    using fit by (auto simp: nbr_fits_def)
  have one: "let i = kept ss ! n; before = take (Suc i) ms in i < length ms \<and>
        map_option cstring (nm_ApName (ms' ! n)) = map_option cstring (last_given (List.map nm_ApName before)) \<and>
        map_option cstring (nm_ApInstance (ms' ! n)) = map_option cstring (last_given (List.map nm_ApInstance before)) \<and>
        map_option cstring (nm_AeName (ms' ! n)) = map_option cstring (last_given (List.map nm_AeName before)) \<and>
        (\<exists>j. nm_address (ms' ! n) = fst (old j) \<and>
          map_option cstring (nm_AeInstance (ms' ! n)) =
            map_option cstring (case last_given (List.map nm_AeInstance before) of None \<Rightarrow> snd (old j) | Some s \<Rightarrow> Some s)) \<and>
        List.map cstring (pcSupportingDifs (ms' ! n)) = List.filter (\<lambda>d. d \<noteq> []) (List.map cstring (pcSupportingDifs (ms ! i)))"
    if n: "n < length ms'" for n
  proof -
    define i where "i = kept ss ! n"
    obtain j where i: "i < length ms" and j: "nbr_arrives (sent_nbr (?vs ! i)) (old j) (ms' ! n)"
      using each [OF n] unfolding i_def by blast
    have e: "nw_apname (?vs ! i) = fold (\<lambda>y z. field_over z y) (List.map nm_ApName (take (Suc i) ms)) (field_copy NAME_SZ None)"
      "nw_apinstance (?vs ! i) = fold (\<lambda>y z. field_over z y) (List.map nm_ApInstance (take (Suc i) ms)) (field_copy NAME_SZ None)"
      "nw_aename (?vs ! i) = fold (\<lambda>y z. field_over z y) (List.map nm_AeName (take (Suc i) ms)) (field_copy NAME_SZ None)"
      "nw_aeinstance (?vs ! i) = fold (\<lambda>y z. field_over z y) (List.map nm_AeInstance (take (Suc i) ms)) (field_copy NAME_SZ None)"
      "nw_difs (?vs ! i) = prvSerDesNeighborEncodeCb (ms ! i)"
      using list_encoded(2) [OF i, of nbr_zero] by (simp_all add: Let_def nbr_zero_def)
    have ad: "\<not> fst (nw_address (sent_nbr (?vs ! i)))" using address_not_sent [OF i] by simp
    have "map_option cstring (nm_AeInstance (ms' ! n)) =
        map_option cstring (case last_given (List.map nm_AeInstance (take (Suc i) ms)) of None \<Rightarrow> snd (old j) | Some s \<Rightarrow> Some s)"
      using j opt_fits_cstring [OF fits [OF all(4), of i]]
      by (cases "last_given (List.map nm_AeInstance (take (Suc i) ms))")
        (simp_all add: nbr_arrives_def sent_nbr_def opt_field_sent e carried_field opt_field_fst)
    then show ?thesis unfolding i_def [symmetric] Let_def
      using i j ad fits [OF all(1)] fits [OF all(2)] fits [OF all(3)]
      by (auto simp: nbr_arrives_def sent_nbr_def opt_field_sent e carried_field opt_fits_cstring
        prvSerDesNeighborEncodeCb_def filter_map o_def cstring_cstring)
  qed
  have "pxSerDesNeighborListEncode enc True ms = Inr b"
    using lib(1) by (simp add: pxSerDesNeighborListEncode_def ENROLLMENT_MSG_SIZE_def)
  then show ?thesis using dec len one by blast
qed

lemma neighbor_list_roundtrip_witness:
  "\<exists>ms'. pxSerDesNeighborListDecode 56 8
      (\<lambda>s. Some (sent_nbr (prvSerDesNeighborListEncodeCb [demo_nbr, demo_nbr\<lparr>nm_ApInstance := None\<rparr>] nbr_zero ! (if s = [1] then 0 else 1))))
      (\<lambda>_. Some [[1], [2]]) (\<lambda>i n. Some (replicate n 0)) (\<lambda>_. (99, Some [88, 0])) [3] = Done (Some ms') \<and> length ms' = 2 \<and>
    map_option cstring (nm_ApInstance (ms' ! 1)) = Some [49] \<and> map_option cstring (nm_AeInstance (ms' ! 1)) = Some [88]"
proof -
  let ?ms = "[demo_nbr, demo_nbr\<lparr>nm_ApInstance := None\<rparr>]"
  let ?dec = "\<lambda>s. Some (sent_nbr (prvSerDesNeighborListEncodeCb ?ms nbr_zero ! (if s = [1 :: u8] then 0 else 1)))"
  have f: "\<forall>m \<in> set ?ms. nbr_fits m" using demo_nbr_fits by simp
  have d: "list_all2 (\<lambda>s w. ?dec s = Some (sent_nbr w)) [[1], [2]] (prvSerDesNeighborListEncodeCb ?ms nbr_zero)"
    by (simp add: Let_def)
  have kp: "length (kept [[1], [2]]) = 2" "kept [[1], [2]] ! 1 = 1" by (simp_all add: kept_all)
  have g: "map_option cstring (last_given (List.map nm_ApInstance (take (Suc 1) ?ms))) = Some [49]"
    "last_given (List.map nm_AeInstance (take (Suc 1) ?ms)) = None"
    by (simp_all add: last_given_def demo_nbr_def cstring_def)
  from conjunct2 [OF neighbor_list_roundtrip [OF f demo_memory, of "\<lambda>_ _. Some [3]" "[3]" "\<lambda>_. Some [[1], [2]]", OF refl refl d,
        of 56 8 "\<lambda>_. (99, Some [88, 0])"]]
  show ?thesis
    apply (elim exE conjE)
    subgoal premises p for ms'
    proof -
      have l: "length ms' = 2" using p(2) kp(1) by simp
      note q = p(3) [rule_format, of 1, unfolded kp(2) Let_def]
      have "1 < length ms'" using l by simp
      note q2 = conjunct2 [OF conjunct2 [OF q [OF this]]]
      have "map_option cstring (nm_ApInstance (ms' ! 1)) = Some [49]" using conjunct1 [OF q2] unfolding g(1) .
      moreover have "map_option cstring (nm_AeInstance (ms' ! 1)) = map_option cstring (Some [88, 0])"
        using conjunct1 [OF conjunct2 [OF conjunct2 [OF q2]]] unfolding g(2) by simp
      ultimately show ?thesis using p(1) l by (intro exI [of _ ms']) (simp add: cstring_def)
    qed
    done
qed

end
