(* ===== verification/Mac.thy ===== *)
theory Mac
  imports Gpha
begin

text \<open>Hardware addresses as text and the broadcast address (\<^verbatim>\<open>Common/mac.c\<close>).  An address is the list of its
  bytes.\<close>

definition MAC2STR_MIN_BUFSZ :: nat where "MAC2STR_MIN_BUFSZ = 18"

text \<open>The conversion \<^verbatim>\<open>%02x\<close>.\<close>

definition hex_digit :: "u8 \<Rightarrow> u8" where
  "hex_digit d = (if d < 10 then 48 + d else 87 + d)"

definition hex2 :: "u8 \<Rightarrow> bytes" where
  "hex2 b = [hex_digit (b div 16), hex_digit (b mod 16)]"

fun joined :: "bytes list \<Rightarrow> bytes" where
  "joined [] = []"
| "joined [s] = s"
| "joined (s # ss) = s @ 58 # joined ss"

text \<open>\<open>p\<close> is the size of the buffer.\<close>

definition mac2str :: "bytes \<Rightarrow> nat \<Rightarrow> bytes outcome" where
  "mac2str m p = (if p < MAC2STR_MIN_BUFSZ then Crash else Done (take (p - 1) (joined (List.map hex2 m)) @ [0]))"

definition xIsBroadcastMac :: "bytes \<Rightarrow> bool" where
  "xIsBroadcastMac m = (take MAC_LEN m = replicate MAC_LEN 0xFF)"

section \<open>Different addresses have different texts\<close>

lemma hex_digit_inj: "a < 16 \<Longrightarrow> b < 16 \<Longrightarrow> hex_digit a = hex_digit b \<Longrightarrow> a = b"
  by (simp add: hex_digit_def word_unat_eq_iff word_less_nat_alt unat_word_ariths split: if_splits)

lemma hex2_inj: "hex2 a = hex2 b \<Longrightarrow> a = b"
proof -
  assume h: "hex2 a = hex2 b"
  have u: "unat x < 256" for x :: u8 using unsigned_less [of x, where ?'a = nat] by simp
  have l: "x div 16 < 16" "x mod 16 < 16" for x :: u8
    using u [of x] by (simp_all add: word_less_nat_alt unat_div_distrib unat_mod_distrib less_mult_imp_div_less)
  have "a div 16 = b div 16" "a mod 16 = b mod 16" using h hex_digit_inj l by (simp_all add: hex2_def)
  then show ?thesis by (metis word_mod_div_equality)
qed

lemma joined_inj:
  "length ms = length ns \<Longrightarrow> joined (List.map hex2 ms) = joined (List.map hex2 ns) \<Longrightarrow> ms = ns"
proof (induction ms ns rule: list_induct2)
  case (Cons x xs y ys)
  have two: "\<exists>a b. hex2 z = [a, b]" for z by (simp add: hex2_def)
  from two obtain a b where hx: "hex2 x = [a, b]" by blast
  from two obtain c d where hy: "hex2 y = [c, d]" by blast
  show ?case
  proof (cases xs)
    case Nil
    then show ?thesis using Cons hex2_inj by simp
  next
    case (Cons x2 xs2)
    then obtain y2 ys2 where ys: "ys = y2 # ys2" using Cons.hyps by (cases ys) auto
    have "hex2 x = hex2 y" "joined (List.map hex2 xs) = joined (List.map hex2 ys)"
      using Cons.prems hx hy Cons ys by simp_all
    then show ?thesis using Cons.IH hex2_inj by simp
  qed
qed simp

lemma joined_length: "length m = 6 \<Longrightarrow> length (joined (List.map hex2 m)) = 17"
  by (auto simp: numeral_eq_Suc length_Suc_conv hex2_def)

lemma mac_text_inj:
  assumes "length m = MAC_LEN" "length n = MAC_LEN" "MAC2STR_MIN_BUFSZ \<le> p" "mac2str m p = mac2str n p"
  shows "m = n"
proof -
  have "length m = 6" "length n = 6" using assms(1,2) by (simp_all add: MAC_LEN_def)
  note l = joined_length [OF this(1)] joined_length [OF this(2)]
  have "take (p - 1) (joined (List.map hex2 m)) = joined (List.map hex2 m)"
    "take (p - 1) (joined (List.map hex2 n)) = joined (List.map hex2 n)"
    using l assms(3) by (simp_all add: MAC2STR_MIN_BUFSZ_def)
  then show ?thesis using assms joined_inj by (simp add: mac2str_def)
qed

lemma broadcast_text: "mac2str (replicate MAC_LEN 0xFF) 18 = Done (ascii ''ff:ff:ff:ff:ff:ff'' @ [0])"
  "xIsBroadcastMac (replicate MAC_LEN 0xFF)"
  by code_simp+

end
