(* ===== verification/Release.thy ===== *)
theory Release
  imports Efcp Cdap Gpha
begin

text \<open>Giving memory back: names (\<^verbatim>\<open>rina_name.c\<close>), messages (\<^verbatim>\<open>CdapMessage.c\<close>, \<^verbatim>\<open>SerDesMessage.c\<close>), addresses
  (\<^verbatim>\<open>rina_gpha.c\<close>) and the container of EFCP (\<^verbatim>\<open>EFCP.c\<close>); the formatted error of \<^verbatim>\<open>error.c\<close> and the helpers of
  the pools of \<^verbatim>\<open>rsrc.c\<close>.  The heap is the set of the addresses of its blocks.\<close>

section \<open>Blocks\<close>

definition vRsMemFree :: "nat option \<Rightarrow> nat set \<Rightarrow> nat set outcome" where
  "vRsMemFree p H = (case p of None \<Rightarrow> Done H | Some a \<Rightarrow> if a \<in> H then Done (H - {a}) else Crash)"

text \<open>\<open>blk\<close> is the block of the name, \<^verbatim>\<open>pxFree\<close>, which stays in the name.\<close>

definition vNameFree :: "nat option \<Rightarrow> nat set \<Rightarrow> nat set outcome" where
  "vNameFree blk H = (case blk of None \<Rightarrow> Done H | Some a \<Rightarrow> vRsMemFree (Some a) H)"

section \<open>Messages\<close>

text \<open>\<open>dst\<close> and \<open>src\<close> are the blocks of the names of the message at the address \<open>msg\<close>.\<close>

definition vRibCdapMsgFree :: "nat option \<Rightarrow> nat option \<Rightarrow> nat \<Rightarrow> nat set \<times> rsrc_state \<Rightarrow> (nat set \<times> rsrc_state) outcome" where
  "vRibCdapMsgFree dst src msg = (\<lambda>(H, r).
    obind (vNameFree dst H) (\<lambda>H1. obind (vNameFree src H1) (\<lambda>H2.
    obind (run_crash (vRsrcFree (Some msg) r)) (\<lambda>r1. Done (H2, r1)))))"

definition vSerDesMessageFree :: "nat option \<Rightarrow> nat option \<Rightarrow> nat \<Rightarrow> nat set \<times> rsrc_state \<Rightarrow> (nat set \<times> rsrc_state) outcome" where
  "vSerDesMessageFree dst src msg = (\<lambda>(H, r).
    obind (vNameFree dst H) (\<lambda>H1. obind (vNameFree src H1) (\<lambda>H2.
    obind (run_crash (vRsrcFree (Some msg) r)) (\<lambda>r1. Done (H2, r1)))))"

text \<open>The names are given back once, and not a second time as long as one of them has a block.\<close>

lemma message_freed_once:
  assumes "vRibCdapMsgFree dst src msg (H, r) = Done (H1, r1)"
  shows "H1 = H - set_option dst - set_option src \<and> (dst \<noteq> None \<or> src \<noteq> None \<longrightarrow> vRibCdapMsgFree dst src msg (H1, r2) = Crash)"
  using assms
  by (cases "run_crash (vRsrcFree (Some msg) r)")
    (auto simp: vRibCdapMsgFree_def vNameFree_def vRsMemFree_def split: option.splits if_splits)

lemma same_free: "vSerDesMessageFree = vRibCdapMsgFree"
  by (simp add: fun_eq_iff vSerDesMessageFree_def vRibCdapMsgFree_def)

section \<open>Addresses\<close>

text \<open>A protocol address at an address of the heap, with the block of its bytes.\<close>

record addr_heap =
  gpas :: "nat \<Rightarrow> (gpa \<times> nat option) option"
  ghas :: "nat \<Rightarrow> gha option"
  blks :: "nat set"

definition vGPADestroy :: "nat option \<Rightarrow> addr_heap \<Rightarrow> addr_heap outcome" where
  "vGPADestroy p st =
    (case p of
       None \<Rightarrow> Done st
     | Some a \<Rightarrow>
         obind (or_crash (gpas st a)) (\<lambda>(g, blk).
           if \<not> xIsGPAOK (Some g) then Done st
           else obind (vRsMemFree blk (blks st)) (\<lambda>H. Done (st\<lparr>gpas := (gpas st)(a := None), blks := H\<rparr>))))"

definition vGHADestroy :: "nat option \<Rightarrow> addr_heap \<Rightarrow> addr_heap outcome" where
  "vGHADestroy p st =
    (case p of
       None \<Rightarrow> Done st
     | Some a \<Rightarrow>
         obind (or_crash (ghas st a)) (\<lambda>h.
           if \<not> xIsGHAOK (Some h) then Done st else Done (st\<lparr>ghas := (ghas st)(a := None)\<rparr>)))"

text \<open>A well-formed address is released with its bytes, and touching it again crashes; one that is not well formed is
  never released.\<close>

lemma destroyed:
  assumes "gpas st a = Some (g, Some b)" "b \<in> blks st"
  shows "if xIsGPAOK (Some g)
    then \<exists>st1. vGPADestroy (Some a) st = Done st1 \<and> gpas st1 a = None \<and> blks st1 = blks st - {b} \<and> vGPADestroy (Some a) st1 = Crash
    else vGPADestroy (Some a) st = Done st"
  using assms by (auto simp: vGPADestroy_def vRsMemFree_def or_crash_def)

lemma hardware_destroyed:
  assumes "ghas st a = Some h"
  shows "if xIsGHAOK (Some h) then \<exists>st1. vGHADestroy (Some a) st = Done st1 \<and> vGHADestroy (Some a) st1 = Crash
    else vGHADestroy (Some a) st = Done st"
  using assms by (auto simp: vGHADestroy_def or_crash_def)

section \<open>The container of EFCP\<close>

text \<open>\<open>imap\<close> tells whether the pointer to the map is set, \<open>cidm\<close> is the number manager.\<close>

definition xEfcpContainerDestroy ::
  "nat option \<Rightarrow> bool \<Rightarrow> nat option \<Rightarrow> nat set \<Rightarrow> 'a efcp_state_scheme \<Rightarrow> (bool \<times> nat set \<times> 'a efcp_state_scheme) outcome" where
  "xEfcpContainerDestroy c imap cidm H st =
    (case c of
       None \<Rightarrow> Done (False, H, st)
     | Some a \<Rightarrow>
         let st1 = (if imap then snd (xEfcpImapDestroy st) else st) in
         obind (if cidm \<noteq> None then vRsMemFree cidm H else Done H) (\<lambda>H1.
         obind (vRsMemFree (Some a) H1) (\<lambda>H2. Done (True, H2, st1))))"

text \<open>The container is a member of the data of the process, so that its address is not the one of a block.\<close>

lemma container_crashes: "a \<notin> H \<Longrightarrow> xEfcpContainerDestroy (Some a) imap cidm H st = Crash"
  by (auto simp: xEfcpContainerDestroy_def vRsMemFree_def Let_def split: option.split)

section \<open>Formatted errors\<close>

text \<open>\<open>txt\<close> is the text the format and the arguments give, \<open>None\<close> for no format; \<^verbatim>\<open>vsnprintf\<close> stores what fits and a
  zero, and leaves the rest.\<close>

definition prvErrorSetNew_v :: "err_info \<Rightarrow> bytes option \<Rightarrow> u32 \<Rightarrow> u32 \<Rightarrow> bytes option \<Rightarrow> err_info" where
  "prvErrorSetNew_v old file line code txt =
    (let e = prvErrorSetNew old file line code in
     case txt of
       Some t \<Rightarrow>
         (let s = take (MSG_SZ - 1) (cstring t) in
          e\<lparr>pcErrMsg := (s @ 0 # drop (length s + 1) (pcErrMsg e))[MSG_SZ - 1 := 0]\<rparr>)
     | None \<Rightarrow> e\<lparr>pcErrMsg := 0 # drop 1 (pcErrMsg e)\<rparr>)"

definition xErrorSetf ::
  "err_info \<Rightarrow> bytes option \<Rightarrow> u32 \<Rightarrow> u32 \<Rightarrow> bytes option \<Rightarrow> err_chain \<Rightarrow> u32 \<times> err_chain" where
  "xErrorSetf old file line code txt ch =
    (let ch1 = (if ch \<noteq> [] then vErrorClear ch else ch) in
     (code, prvErrorSetNew_v old file line code txt # ch1))"

lemma formatted_error:
  "snd (xErrorSetf old file line code (Some t) ch) = [prvErrorSetNew_v old file line code (Some t)] \<and>
   cstring (pcErrMsg (prvErrorSetNew_v old file line code (Some t))) = take (MSG_SZ - 1) (cstring t)"
proof -
  let ?s = "take (MSG_SZ - 1) (cstring t)"
  have s: "0 \<notin> set ?s" "length ?s \<le> MSG_SZ - 1" using cstring_no_nul [of t] by (auto dest: in_set_takeD)
  have "cstring ((?s @ 0 # q)[MSG_SZ - 1 := 0]) = ?s" for q :: bytes
  proof -
    have "\<exists>q'. (0 # q)[k := 0] = 0 # q'" for k by (cases k) auto
    then obtain q' where "(0 # q)[MSG_SZ - 1 - length ?s := 0] = 0 # q'" by blast
    then have "(?s @ 0 # q)[MSG_SZ - 1 := 0] = ?s @ 0 # q'" using s(2) by (simp only: list_update_append) (simp add: not_less)
    then show ?thesis using cstring_app [OF s(1)] by simp
  qed
  then show ?thesis by (simp add: xErrorSetf_def prvErrorSetNew_v_def vErrorClear_def Let_def)
qed

section \<open>Helpers of a pool\<close>

definition vRsrcSetAllocHelper :: "nat \<Rightarrow> (bytes \<Rightarrow> bytes) option \<Rightarrow> rsrc_state \<Rightarrow> rsrc_state run" where
  "vRsrcSetAllocHelper p f st =
    rbind (or_undef (pools st p)) (\<lambda>pl. Ret (st\<lparr>pools := (pools st)(p \<mapsto> pl\<lparr>pxAllocHelper := f\<rparr>)\<rparr>))"

definition vRsrcSetFreeHelper :: "nat \<Rightarrow> (bytes \<Rightarrow> bytes) option \<Rightarrow> rsrc_state \<Rightarrow> rsrc_state run" where
  "vRsrcSetFreeHelper p f st =
    rbind (or_undef (pools st p)) (\<lambda>pl. Ret (st\<lparr>pools := (pools st)(p \<mapsto> pl\<lparr>pxFreeHelper := f\<rparr>)\<rparr>))"

text \<open>What the two ready-made helpers do to a payload; \<open>None\<close> writes past its end.\<close>

definition vRsrcSetResToOnesHelper :: "rsrc_pool \<Rightarrow> bytes \<Rightarrow> bytes option" where
  "vRsrcSetResToOnesHelper pl p = mem_set p 0xFF (unat (uxSizeEach pl))"

definition vRsrcSetResToZerosHelper :: "rsrc_pool \<Rightarrow> bytes \<Rightarrow> bytes option" where
  "vRsrcSetResToZerosHelper pl p = mem_set p 0 (unat (uxSizeEach pl))"

text \<open>Helpers that keep the size of a payload keep the pools well formed, and the ready-made ones fit every
  resource of a well-formed pool.\<close>

lemma pool_changed:
  assumes "rsrc_ok st" "pools st p = Some pl" "helpers_ok pl'" "members pl' = members pl"
    "\<And>s. pool_ok s p pl' = (pool_ok s p pl \<and> helpers_ok pl')" "\<And>q ql. pool_ok (st\<lparr>pools := P\<rparr>) q ql = pool_ok st q ql"
    "P = (pools st)(p \<mapsto> pl')"
  shows "rsrc_ok (st\<lparr>pools := P\<rparr>)"
  unfolding rsrc_ok_def
proof (intro conjI allI impI)
  fix q ql
  assume "pools (st\<lparr>pools := P\<rparr>) q = Some ql"
  then show "pool_ok (st\<lparr>pools := P\<rparr>) q ql" using assms rsrc_okD(1) [OF assms(1)] by (auto split: if_splits)
next
  fix q q' ql ql'
  assume "q \<noteq> q'" "pools (st\<lparr>pools := P\<rparr>) q = Some ql" "pools (st\<lparr>pools := P\<rparr>) q' = Some ql'"
  then show "set (members ql) \<inter> set (members ql') = {}"
    using assms(4) rsrc_okD(2) [OF assms(1)] assms(2) unfolding assms(7)
    by (auto split: if_splits) (metis disjoint_iff)+
qed

lemma set_helper_ok:
  assumes "rsrc_ok st" "pools st p = Some pl" "\<And>b. length (helped f b) = length b"
  shows "\<exists>st1. vRsrcSetAllocHelper p f st = Ret st1 \<and> rsrc_ok st1" "\<exists>st1. vRsrcSetFreeHelper p f st = Ret st1 \<and> rsrc_ok st1"
proof -
  have h: "helpers_ok pl" using rsrc_okD(1) [OF assms(1,2)] by (simp add: pool_ok_def pool_core_def)
  have u: "pool_ok (st\<lparr>pools := P\<rparr>) q ql = pool_ok st q ql" for P q ql
    by (simp add: pool_ok_def pool_core_def rsrc_at_def cong: list.pred_cong)
  have k: "helpers_ok (pl\<lparr>pxAllocHelper := f\<rparr>)" "helpers_ok (pl\<lparr>pxFreeHelper := f\<rparr>)" using h assms(3) by (simp_all add: helpers_ok_def)
  have m: "members (pl\<lparr>pxAllocHelper := f\<rparr>) = members pl" "members (pl\<lparr>pxFreeHelper := f\<rparr>) = members pl" by (simp_all add: members_def)
  have o1: "pool_ok s p (pl\<lparr>pxAllocHelper := f\<rparr>) = (pool_ok s p pl \<and> helpers_ok (pl\<lparr>pxAllocHelper := f\<rparr>))"
    "pool_ok s p (pl\<lparr>pxFreeHelper := f\<rparr>) = (pool_ok s p pl \<and> helpers_ok (pl\<lparr>pxFreeHelper := f\<rparr>))" for s
    using h k by (auto simp: pool_ok_def pool_core_def var_ok_def m)
  show "\<exists>st1. vRsrcSetAllocHelper p f st = Ret st1 \<and> rsrc_ok st1"
    using pool_changed [OF assms(1,2) k(1) m(1) o1(1) u refl] assms(2) by (simp add: vRsrcSetAllocHelper_def)
  show "\<exists>st1. vRsrcSetFreeHelper p f st = Ret st1 \<and> rsrc_ok st1"
    using pool_changed [OF assms(1,2) k(2) m(2) o1(2) u refl] assms(2) by (simp add: vRsrcSetFreeHelper_def)
qed

lemma ready_made_fit:
  assumes "rsrc_ok st" "pools st p = Some pl" "a \<in> set (members pl)" "rsrcs st a = Some r"
  shows "\<exists>b. vRsrcSetResToOnesHelper pl (payload r) = Some b \<and> length b = length (payload r)"
    "\<exists>b. vRsrcSetResToZerosHelper pl (payload r) = Some b \<and> length b = length (payload r)"
proof -
  have "unat (uxSizeEach pl) \<le> length (payload r)"
    using rsrc_okD(1) [OF assms(1,2)] assms(3,4) by (auto simp: pool_ok_def pool_core_def members_def list_all_iff rsrc_at_def)
  then show "\<exists>b. vRsrcSetResToOnesHelper pl (payload r) = Some b \<and> length b = length (payload r)"
    "\<exists>b. vRsrcSetResToZerosHelper pl (payload r) = Some b \<and> length b = length (payload r)"
    by (simp_all add: vRsrcSetResToOnesHelper_def vRsrcSetResToZerosHelper_def mem_set_def)
qed

end
