(* ===== verification/Ipcp.thy ===== *)
theory Ipcp
  imports Normal Num_Mgr Rina_Name
begin

text \<open>The IPC manager (\<^verbatim>\<open>IPCP/IpcManager.c\<close>) and the task of the stack without its handlers: the
  operations of an IPC process (\<^verbatim>\<open>IPCP_instance.h\<close>), the events and their queue, and the timers
  (\<^verbatim>\<open>IPCP/IPCP.c\<close>, \<^verbatim>\<open>IPCP_events.h\<close>, \<^verbatim>\<open>rina_common_port.h\<close>).  The queue is the sequence of the events in
  it with the number of its free places, as the theory of the queues shows it to be.\<close>

section \<open>State\<close>

datatype ipcp_type = eShimWiFi | eNormal

record ipcp_inst =
  xId :: u16
  inst_type :: ipcp_type

record ipcp_row =
  pxIpcpInstance :: "nat option"
  row_active :: bool

text \<open>The events, with what they carry; a DU or an instance may be \<^verbatim>\<open>NULL\<close>.\<close>

datatype stack_event =
    eNoEvent | eNetworkDownEvent | eShimEnrolledEvent nat | eARPTimerEvent
  | eRinaTxEvent u32 "nat option" | eRinaRxEvent u32 "nat option" | eFATimerEvent
  | eFlowBindEvent nat | eFlowDeallocateEvent u32 | eStackRxEvent
  | eShimFlowAllocatedEvent u32 "nat option" | eStackFlowAllocateEvent
  | eStackAppRegistrationEvent | eShimAppRegisteredEvent | eSendMgmtEvent u32 "nat option"

text \<open>A time is its seconds and its nanoseconds.\<close>

type_synonym timespec = "nat \<times> nat"

record ipcp_timer =
  bActive :: bool
  bExpired :: bool
  xTimeOut :: timespec
  ulRemainingTimeUS :: u32
  ulReloadTimeUS :: u32

record task_state = normal_state +
  xIpcpTable :: "ipcp_row list"
  ipcps :: "nat \<Rightarrow> ipcp_inst option"
  pxPidm :: num_mgr
  pxIpcpIdm :: num_mgr
  ipcp_name :: rname
  dif_name :: rname
  xIPCPTaskInitialised :: bool
  xNetworkUp :: bool
  ev_queue :: "stack_event list"
  ev_places :: nat
  xARPTimer :: ipcp_timer
  xFATimer :: ipcp_timer

text \<open>The table of operations of an IPC process; \<^verbatim>\<open>NULL\<close> is \<open>None\<close>.\<close>

type_synonym 's op = "'s \<Rightarrow> (bool \<times> 's) outcome"

record 's ipcp_ops =
  op_start :: "'s op option"
  op_stop :: "'s op option"
  op_enable :: "'s op option"
  op_disable :: "'s op option"
  op_flowAllocateRequest :: "(rname \<Rightarrow> rname \<Rightarrow> u32 \<Rightarrow> 's op) option"
  op_flowAllocateResponse :: "(u32 \<Rightarrow> 's op) option"
  op_flowDeallocate :: "(u32 \<Rightarrow> 's op) option"
  op_applicationRegister :: "(rname \<Rightarrow> rname \<Rightarrow> 's op) option"
  op_applicationUnregister :: "(rname \<Rightarrow> 's op) option"
  op_duWrite :: "'s du_handler option"
  op_flowPrebind :: "(nat \<Rightarrow> 's op) option"
  op_flowBindingIpcp :: "(u32 \<Rightarrow> nat option \<Rightarrow> 's op) option"
  op_duEnqueue :: "'s du_handler option"
  op_mgmtDuWrite :: "'s du_handler option"
  op_ipcpName :: "('s \<Rightarrow> rname) option"
  op_difName :: "('s \<Rightarrow> rname) option"

section \<open>The manager\<close>

definition CFG_INSTANCES_IPCP_ENTRIES :: nat where "CFG_INSTANCES_IPCP_ENTRIES = 5"
definition MAX_PORT_ID :: u64 where "MAX_PORT_ID = (push_bit 8 2) * 4 - 1"
definition MAX_IPCP_ID :: u64 where "MAX_IPCP_ID = (push_bit 8 2) * 2 - 1"
definition IPCP_ID_WRONG :: u16 where "IPCP_ID_WRONG = - 1"

text \<open>\<open>oks\<close> are the outcomes of the two allocations of each number manager.\<close>

definition xIpcManagerInit :: "bool \<Rightarrow> bool \<Rightarrow> bool \<Rightarrow> bool \<Rightarrow> 'a task_state_scheme \<Rightarrow> bool \<times> 'a task_state_scheme" where
  "xIpcManagerInit ok1 ok2 ok3 ok4 st =
    (case pxNumMgrCreate ok1 ok2 MAX_PORT_ID of
       None \<Rightarrow> (False, st)
     | Some p \<Rightarrow>
         (case pxNumMgrCreate ok3 ok4 MAX_IPCP_ID of
            None \<Rightarrow> (False, st\<lparr>pxPidm := p\<rparr>)
          | Some i \<Rightarrow> (True, st\<lparr>pxPidm := p, pxIpcpIdm := i\<rparr>)))"

definition vIpcManagerAdd :: "nat \<Rightarrow> 'a task_state_scheme \<Rightarrow> 'a task_state_scheme" where
  "vIpcManagerAdd a st =
    (case find_idx (\<lambda>r. \<not> row_active r) (xIpcpTable st) of
       None \<Rightarrow> st
     | Some x \<Rightarrow> st\<lparr>xIpcpTable := (xIpcpTable st)[x := \<lparr>pxIpcpInstance = Some a, row_active = True\<rparr>]\<rparr>)"

text \<open>The loop over the rows, for a test of an instance.\<close>

fun find_instance :: "(ipcp_inst \<Rightarrow> bool) \<Rightarrow> (nat \<Rightarrow> ipcp_inst option) \<Rightarrow> ipcp_row list \<Rightarrow> nat option outcome" where
  "find_instance P ins [] = Done None"
| "find_instance P ins (r # rows) =
    (if row_active r
     then
       obind (or_crash (pxIpcpInstance r)) (\<lambda>a.
       obind (or_crash (ins a)) (\<lambda>i. if P i then Done (Some a) else find_instance P ins rows))
     else find_instance P ins rows)"

definition pxIpcManagerFindById :: "u16 \<Rightarrow> 'a task_state_scheme \<Rightarrow> nat option outcome" where
  "pxIpcManagerFindById n st = find_instance (\<lambda>i. xId i = n) (ipcps st) (xIpcpTable st)"

definition pxIpcManagerFindByType :: "ipcp_type \<Rightarrow> 'a task_state_scheme \<Rightarrow> nat option outcome" where
  "pxIpcManagerFindByType t st = find_instance (\<lambda>i. inst_type i = t) (ipcps st) (xIpcpTable st)"

text \<open>A search of the number manager that has no end is \<open>Blocked\<close>.  The id is cut down to 16 bits.\<close>

definition reserve :: "num_mgr \<Rightarrow> (u32 \<times> num_mgr) outcome" where
  "reserve im = (case ulNumMgrAllocate im of None \<Rightarrow> Blocked | Some r \<Rightarrow> Done r)"

definition unIpcManagerReserveIpcpId :: "'a task_state_scheme \<Rightarrow> (u16 \<times> 'a task_state_scheme) outcome" where
  "unIpcManagerReserveIpcpId st = obind (reserve (pxIpcpIdm st)) (\<lambda>(n, im). Done (ucast n, st\<lparr>pxIpcpIdm := im\<rparr>))"

definition vIpcManagerReleaseIpcpId :: "u16 \<Rightarrow> 'a task_state_scheme \<Rightarrow> 'a task_state_scheme" where
  "vIpcManagerReleaseIpcpId n st = st\<lparr>pxIpcpIdm := snd (xNumMgrRelease (pxIpcpIdm st) (ucast n))\<rparr>"

definition unIpcManagerReservePort :: "'a task_state_scheme \<Rightarrow> (u32 \<times> 'a task_state_scheme) outcome" where
  "unIpcManagerReservePort st = obind (reserve (pxPidm st)) (\<lambda>(n, im). Done (n, st\<lparr>pxPidm := im\<rparr>))"

definition vIpcManagerReleasePort :: "u32 \<Rightarrow> 'a task_state_scheme \<Rightarrow> 'a task_state_scheme" where
  "vIpcManagerReleasePort n st = st\<lparr>pxPidm := snd (xNumMgrRelease (pxPidm st) n)\<rparr>"

text \<open>The functions of the life cycle differ in the operation \<open>fn\<close> they call; \<open>ops\<close> are the tables of the two
  types of IPC processes, for the address of the instance.\<close>

fun run_all :: "('s ipcp_ops \<Rightarrow> 's op option) \<Rightarrow> (nat \<Rightarrow> ipcp_type \<Rightarrow> 's ipcp_ops) \<Rightarrow> (nat \<Rightarrow> ipcp_inst option) \<Rightarrow> ipcp_row list \<Rightarrow> 's op" where
  "run_all fn ops ins [] st = Done (True, st)"
| "run_all fn ops ins (r # rows) st =
    (if row_active r
     then
       obind (or_crash (pxIpcpInstance r)) (\<lambda>a.
       obind (or_crash (ins a)) (\<lambda>i.
         case fn (ops a (inst_type i)) of
           None \<Rightarrow> run_all fn ops ins rows st
         | Some f \<Rightarrow> obind (f st) (\<lambda>(ok, st1). if ok then run_all fn ops ins rows st1 else Done (False, st1))))
     else run_all fn ops ins rows st)"

definition xIpcManagerRun ::
  "('a task_state_scheme ipcp_ops \<Rightarrow> 'a task_state_scheme op option) \<Rightarrow>
   (nat \<Rightarrow> ipcp_type \<Rightarrow> 'a task_state_scheme ipcp_ops) \<Rightarrow> 'a task_state_scheme op" where
  "xIpcManagerRun fn ops st = run_all fn ops (ipcps st) (xIpcpTable st) st"

section \<open>The queue of events\<close>

definition EVENT_QUEUE_MAX :: nat where "EVENT_QUEUE_MAX = 255"

text \<open>Whether the caller is the task itself is \<open>me\<close>; \<open>mem\<close> tells whether there is memory for the item.  A
  send without it loses a place for good, and a time of zero is a wait without end.\<close>

definition xSendEventStructToIPCPTask :: "bool \<Rightarrow> bool \<Rightarrow> stack_event \<Rightarrow> u32 \<Rightarrow> 'a task_state_scheme op" where
  "xSendEventStructToIPCPTask me mem ev tmo st =
    (if \<not> xIPCPTaskInitialised st \<and> ev \<noteq> eNetworkDownEvent then Done (False, st)
     else
       (let t = (if me then 0 else tmo) in
        if ev_places st = 0 then if t = 0 then Blocked else Done (False, st)
        else
          (let st1 = st\<lparr>ev_places := ev_places st - 1\<rparr> in
           if \<not> mem then Done (False, st1) else Done (True, st1\<lparr>ev_queue := ev_queue st1 @ [ev]\<rparr>))))"

definition xSendEventToIPCPTask :: "bool \<Rightarrow> bool \<Rightarrow> stack_event \<Rightarrow> 'a task_state_scheme op" where
  "xSendEventToIPCPTask me mem ev st = xSendEventStructToIPCPTask me mem ev 0 st"

text \<open>What the task takes out, \<open>eNoEvent\<close> when nobody sends before the time is over.\<close>

definition receive_event :: "u32 \<Rightarrow> 'a task_state_scheme \<Rightarrow> (stack_event \<times> 'a task_state_scheme) outcome" where
  "receive_event tmo st =
    (case ev_queue st of
       [] \<Rightarrow> if tmo = 0 then Blocked else Done (eNoEvent, st)
     | e # es \<Rightarrow> Done (e, st\<lparr>ev_queue := es, ev_places := ev_places st + 1\<rparr>))"

section \<open>Timers\<close>

text \<open>The product is one of 32 bits; the seconds of \<open>now\<close> are left out.\<close>

definition prvIPCPTimerStart :: "timespec \<Rightarrow> u32 \<Rightarrow> ipcp_timer \<Rightarrow> ipcp_timer" where
  "prvIPCPTimerStart now us t =
    (let nsec = unat (us * 1000) + snd now in
     t\<lparr>xTimeOut := (nsec div 1000000000, nsec mod 1000000000), ulRemainingTimeUS := us, bExpired := (us = 0),
       bActive := True\<rparr>)"

text \<open>Time that is before the time-out is what counts as expired.\<close>

definition prvIPCPTimerCheck :: "timespec \<Rightarrow> ipcp_timer \<Rightarrow> bool \<times> ipcp_timer" where
  "prvIPCPTimerCheck now t =
    (if \<not> bActive t then (False, t)
     else
       (let t1 = (if bExpired t then t
                  else t\<lparr>bExpired := (if fst now = fst (xTimeOut t) then snd now < snd (xTimeOut t)
                                      else fst now < fst (xTimeOut t))\<rparr>) in
        if bExpired t1 then (True, prvIPCPTimerStart now (ulReloadTimeUS t1) t1) else (False, t1)))"

definition vIpcpSetFATimerExpiredState :: "bool \<Rightarrow> 'a task_state_scheme \<Rightarrow> 'a task_state_scheme" where
  "vIpcpSetFATimerExpiredState e st = st\<lparr>xFATimer := (xFATimer st)\<lparr>bActive := True, bExpired := e\<rparr>\<rparr>"

definition CFG_MAX_IPCP_TASK_SLEEP_TIME_US :: nat where "CFG_MAX_IPCP_TASK_SLEEP_TIME_US = 10000000"

definition prvCalculateSleepTimeUS :: "'a task_state_scheme \<Rightarrow> nat" where
  "prvCalculateSleepTimeUS st =
    (if bActive (xARPTimer st) \<and> unat (ulRemainingTimeUS (xARPTimer st)) < CFG_MAX_IPCP_TASK_SLEEP_TIME_US
     then unat (ulRemainingTimeUS (xARPTimer st)) else CFG_MAX_IPCP_TASK_SLEEP_TIME_US)"

definition prvCheckNetworkTimers :: "timespec \<Rightarrow> bool \<Rightarrow> 'a task_state_scheme \<Rightarrow> 'a task_state_scheme outcome" where
  "prvCheckNetworkTimers now mem st =
    (let (fired, t) = prvIPCPTimerCheck now (xARPTimer st); st1 = st\<lparr>xARPTimer := t\<rparr> in
     if fired then obind (xSendEventToIPCPTask True mem eARPTimerEvent st1) (\<lambda>(r, st2). Done st2) else Done st1)"

definition prvProcessNetworkDownEvent :: "'a task_state_scheme \<Rightarrow> 'a task_state_scheme" where
  "prvProcessNetworkDownEvent st = st\<lparr>xARPTimer := (xARPTimer st)\<lparr>bActive := False\<rparr>\<rparr>"

text \<open>C36. A timer started with a delay never fires: its time-out is at most five seconds after the beginning
  of the clock, because the seconds of the current time are left out, and a timer counts as expired
  while the clock is before its time-out.  So from the sixth second of 1970 on, a check finds every timer
  that is active and was started with a delay unexpired, and leaves it as it is.\<close>
theorem timers_never_fire:
  assumes "us \<noteq> 0" "snd now < 1000000000" "5 < fst later"
  shows "prvIPCPTimerCheck later (prvIPCPTimerStart now us t) = (False, prvIPCPTimerStart now us t)"
proof -
  let ?n = "unat (us * 1000) + snd now"
  have "unat (us * 1000) < 2 ^ 32" using unsigned_less [where ?w = "us * 1000"] by simp
  then have "?n < 6 * 1000000000" using assms(2) by simp
  then have "?n div 1000000000 < 6" by (simp add: div_less_iff_less_mult)
  then have "?n div 1000000000 < fst later" using assms(3) by linarith
  then show ?thesis using assms(1) by (simp add: prvIPCPTimerCheck_def prvIPCPTimerStart_def Let_def)
qed

definition idle_timer :: ipcp_timer where
  "idle_timer = \<lparr>bActive = False, bExpired = False, xTimeOut = (0, 0), ulRemainingTimeUS = 0, ulReloadTimeUS = 0\<rparr>"

lemma timers_never_fire_witness:
  "prvIPCPTimerCheck (1700000010, 0) (prvIPCPTimerStart (1700000000, 5) 1000000 idle_timer) =
    (False, prvIPCPTimerStart (1700000000, 5) 1000000 idle_timer)"
  by (rule timers_never_fire) simp_all

section \<open>Instances in the table\<close>

definition add_instances :: "nat list \<Rightarrow> 'a task_state_scheme \<Rightarrow> 'a task_state_scheme" where
  "add_instances as st = fold vIpcManagerAdd as st"

definition inst_rows :: "nat list \<Rightarrow> ipcp_row list" where
  "inst_rows as =
    List.map (\<lambda>a. \<lparr>pxIpcpInstance = Some a, row_active = True\<rparr>) (take CFG_INSTANCES_IPCP_ENTRIES as)
    @ replicate (CFG_INSTANCES_IPCP_ENTRIES - length as) \<lparr>pxIpcpInstance = None, row_active = False\<rparr>"

lemma find_active_end:
  "find_idx (\<lambda>r. \<not> row_active r) (List.map (\<lambda>a. \<lparr>pxIpcpInstance = Some a, row_active = True\<rparr>) xs @ ys) =
    map_option (\<lambda>i. length xs + i) (find_idx (\<lambda>r. \<not> row_active r) ys)"
  by (rule trans [OF find_idx_app_skip]) auto

lemma inst_rows_add:
  assumes "xIpcpTable st = inst_rows as"
  shows "xIpcpTable (vIpcManagerAdd a st) = inst_rows (as @ [a])"
proof (cases "length as < CFG_INSTANCES_IPCP_ENTRIES")
  case True
  then obtain k where k: "CFG_INSTANCES_IPCP_ENTRIES - length as = Suc k" by (cases "CFG_INSTANCES_IPCP_ENTRIES - length as") auto
  then have "CFG_INSTANCES_IPCP_ENTRIES - Suc (length as) = k" by simp
  then show ?thesis using assms True k
    by (simp add: vIpcManagerAdd_def inst_rows_def find_active_end list_update_append)
next
  case False
  then show ?thesis using assms by (simp add: vIpcManagerAdd_def inst_rows_def find_active_end [of _ "[]", simplified])
qed

lemma inst_rows_all:
  "xIpcpTable st = inst_rows [] \<Longrightarrow> xIpcpTable (add_instances as st) = inst_rows as \<and> ipcps (add_instances as st) = ipcps st"
proof (induction as rule: rev_induct)
  case (snoc a as)
  have "ipcps (vIpcManagerAdd a s) = ipcps s" for s :: "'a task_state_scheme"
    by (simp add: vIpcManagerAdd_def split: option.split)
  then show ?case using snoc inst_rows_add [of "add_instances as st" as a] by (simp add: add_instances_def)
qed (simp add: add_instances_def)

lemma find_in_rows:
  "\<forall>a \<in> set as. ins a \<noteq> None \<Longrightarrow>
   find_instance P ins (List.map (\<lambda>a. \<lparr>pxIpcpInstance = Some a, row_active = True\<rparr>) as @
      replicate n \<lparr>pxIpcpInstance = None, row_active = False\<rparr>) = Done (List.find (\<lambda>a. P (the (ins a))) as)"
proof (induction as)
  case Nil
  then show ?case by (induction n) simp_all
qed auto

text \<open>The manager finds, for an id or a type, the first IPC process with it among the first five that were
  added to it; those added after them are not kept, and nobody is told.\<close>
theorem manager_finds:
  assumes "xIpcpTable st = replicate CFG_INSTANCES_IPCP_ENTRIES \<lparr>pxIpcpInstance = None, row_active = False\<rparr>"
    and "\<forall>a \<in> set as. ipcps st a \<noteq> None"
  shows "pxIpcManagerFindById n (add_instances as st) =
      Done (List.find (\<lambda>a. xId (the (ipcps st a)) = n) (take 5 as)) \<and>
    pxIpcManagerFindByType t (add_instances as st) =
      Done (List.find (\<lambda>a. inst_type (the (ipcps st a)) = t) (take 5 as))"
proof -
  have "xIpcpTable st = inst_rows []" using assms(1) by (simp add: inst_rows_def)
  note r = inst_rows_all [OF this, of as]
  have "\<forall>a \<in> set (take 5 as). ipcps st a \<noteq> None" using assms(2) by (auto dest: in_set_takeD)
  note f = find_in_rows [OF this]
  show ?thesis using r f
    by (simp add: pxIpcManagerFindById_def pxIpcManagerFindByType_def inst_rows_def CFG_INSTANCES_IPCP_ENTRIES_def)
qed

definition task_name :: rname where
  "task_name = \<lparr>unPostLn = 0, pcProcessName = [105, 0], pcProcessInstance = [49, 0], pcEntityName = [0],
     pcEntityInstance = [0], pxFree = False\<rparr>"

definition task_demo :: "rsrc_state \<Rightarrow> nb_state \<Rightarrow> task_state" where
  "task_demo r nb = normal_state.extend (normal_demo r nb)
     (task_state.fields (replicate CFG_INSTANCES_IPCP_ENTRIES \<lparr>pxIpcpInstance = None, row_active = False\<rparr>)
        [90 \<mapsto> \<lparr>xId = 0, inst_type = eShimWiFi\<rparr>, 91 \<mapsto> \<lparr>xId = 1, inst_type = eNormal\<rparr>]
        (the (pxNumMgrCreate True True MAX_PORT_ID)) (the (pxNumMgrCreate True True MAX_IPCP_ID))
        task_name task_name True True [] EVENT_QUEUE_MAX idle_timer idle_timer)"

end
