(* ===== verification/Shim.thy ===== *)
theory Shim
  imports Ipcp Arp
begin

text \<open>The IPC process over Ethernet (\<^verbatim>\<open>ShimIPCP/ShimIPCP.c\<close>, \<^verbatim>\<open>ShimIPCP.h\<close>, \<^verbatim>\<open>ShimIPCP_instance.h\<close>).  Its
  state goes on top of that of the stack's task and of the normal IPC process, which share its network
  buffers and resources.  The mutex of the instance is taken and released by each function on every path,
  and is left out.  The network interface is a parameter: whether it took the frame it was given.\<close>

section \<open>State\<close>

datatype portid_state = eNULL | ePENDING | eALLOCATED

record shim_flow =
  pxDestHa :: "gha option"
  pxDestPa :: "gpa option"
  sf_port :: u32
  ePortIdState :: portid_state

text \<open>What a name holds: nothing yet, a block of its own, or one that was freed.\<close>

datatype name_mem = Unset | Held | Released

text \<open>\<open>sent_frames\<close> are the frames the network interface took.\<close>

record shim_state = task_state +
  xFlows :: "nat option list"
  sflows :: "nat \<Rightarrow> shim_flow option"
  xARP :: arp_cache
  xPhyDev :: bytes
  pxEthPool :: "nat option"
  xAppName :: "rname option"
  app_mem :: name_mem
  xDafName :: "rname option"
  daf_mem :: name_mem
  pxAppPa :: "gpa option"
  pxDafPa :: "gpa option"
  pxHa :: "gha option"
  sent_frames :: "bytes list"

text \<open>What one call finds outside of the stack: addresses for a new flow, for a new N-1 port, for new
  segments and a new buffer, whether the caller is the stack's task, memory for an event and for a hardware address, the heap behind the pool
  of headers, the memory of ARP and the interface.\<close>

record shim_env =
  e_flow :: "nat option"
  e_n1 :: "nat option"
  e_seg :: "nat option"
  e_seg2 :: "nat option"
  e_buf :: "nat option"
  e_me :: bool
  e_ev :: bool
  e_gha :: bool
  e_heap :: heap
  e_arp :: arp_mem
  e_net :: bool

definition MAX_SHIM_FLOWS :: nat where "MAX_SHIM_FLOWS = 256"
definition ETH_SZ :: nat where "ETH_SZ = 14"
definition MTU :: nat where "MTU = 1500"

section \<open>Flows\<close>

definition prvShimFindFlowByPortId :: "u32 \<Rightarrow> 'a shim_state_scheme \<Rightarrow> nat option outcome" where
  "prvShimFindFlowByPortId port st = (if unat port < length (xFlows st) then Done (xFlows st ! unat port) else Crash)"

fun gha_loop :: "gha option \<Rightarrow> (nat \<Rightarrow> shim_flow option) \<Rightarrow> nat option list \<Rightarrow> nat option outcome" where
  "gha_loop ha fl [] = Done None"
| "gha_loop ha fl (None # ps) = gha_loop ha fl ps"
| "gha_loop ha fl (Some a # ps) =
    obind (or_crash (fl a)) (\<lambda>f. if xGHACmp (pxDestHa f) ha then Done (Some a) else gha_loop ha fl ps)"

definition prvShimFindFlowByGHA :: "gha option \<Rightarrow> 'a shim_state_scheme \<Rightarrow> nat option outcome" where
  "prvShimFindFlowByGHA ha st = gha_loop ha (sflows st) (xFlows st)"

text \<open>The flow is freed and stays in the table.\<close>

definition prvShimFlowDestroy :: "nat \<Rightarrow> 'a shim_state_scheme \<Rightarrow> bool \<times> 'a shim_state_scheme" where
  "prvShimFlowDestroy a st = (True, st\<lparr>sflows := (sflows st)(a := None)\<rparr>)"

definition prvShimUnbindDestroyFlow :: "nat \<Rightarrow> 'a shim_state_scheme op" where
  "prvShimUnbindDestroyFlow a st =
    obind (or_crash (sflows st a)) (\<lambda>f.
      let (r, st1) = prvShimFlowDestroy a st in if r then Done (False, st1) else Done (True, st1))"

section \<open>Ethernet headers\<close>

definition eth_bytes :: "bytes \<Rightarrow> bytes \<Rightarrow> u16 \<Rightarrow> bytes" where
  "eth_bytes dst src t = take MAC_LEN dst @ take MAC_LEN src @ Arp.le16 t"

definition eth_of :: "bytes \<Rightarrow> eth_hdr" where
  "eth_of p = \<lparr>xDestinationAddress = take MAC_LEN p, xSourceAddress = take MAC_LEN (drop MAC_LEN p),
     usFrameType = Arp.le16_of (p ! 12) (p ! 13)\<rparr>"

text \<open>What \<^verbatim>\<open>pvNetBufPtr\<close> points at: the rest of the buffer.\<close>

definition seg_at :: "nb_state \<Rightarrow> nat \<Rightarrow> bytes outcome" where
  "seg_at nb a =
    obind (or_crash (cells nb a)) (\<lambda>c.
    obind (or_crash (pxBuf c)) (\<lambda>(b, off).
    obind (or_crash (bufs nb b)) (\<lambda>bs. Done (drop off bs))))"

definition seg_write :: "nb_state \<Rightarrow> nat \<Rightarrow> nat \<Rightarrow> bytes \<Rightarrow> nb_state outcome" where
  "seg_write nb a i s =
    obind (or_crash (cells nb a)) (\<lambda>c.
    obind (or_crash (pxBuf c)) (\<lambda>(b, off).
    obind (or_crash (bufs nb b)) (\<lambda>bs.
    obind (or_crash (mem_write bs (off + i) s)) (\<lambda>bs1. Done (nb\<lparr>bufs := (bufs nb)(b \<mapsto> bs1)\<rparr>)))))"

definition eth_at :: "nb_state \<Rightarrow> nat \<Rightarrow> eth_hdr outcome" where
  "eth_at nb a = obind (seg_at nb a) (\<lambda>p. if length p < ETH_SZ then Crash else Done (eth_of p))"

section \<open>Output\<close>

text \<open>The interface copies the bytes of all segments.\<close>

definition output_frame :: "bool \<Rightarrow> nat \<Rightarrow> 'a shim_state_scheme op" where
  "output_frame ok a st =
    obind (or_crash (unNetBufTotalSize (nbs st) a)) (\<lambda>n.
    obind (or_crash (unNetBufRead (nbs st) a 0 n)) (\<lambda>bs.
      Done (ok, if ok then st\<lparr>sent_frames := sent_frames st @ [bs]\<rparr> else st)))"

definition prvReturnEthernetFrame :: "shim_env \<Rightarrow> nat \<Rightarrow> 'a shim_state_scheme \<Rightarrow> 'a shim_state_scheme outcome" where
  "prvReturnEthernetFrame env a st =
    obind (or_crash (cells (nbs st) a)) (\<lambda>c.
      if \<not> nb_is NB_ETH_HDR c then Crash
      else
        obind (eth_at (nbs st) a) (\<lambda>h.
        obind (seg_write (nbs st) a 0 (xSourceAddress h @ xDestinationAddress h)) (\<lambda>nb.
        obind (output_frame (e_net env) a (st\<lparr>nbs := nb\<rparr>)) (\<lambda>(r, st1). Done st1))))"

definition free_all :: "nat \<Rightarrow> 'a shim_state_scheme \<Rightarrow> 'a shim_state_scheme outcome" where
  "free_all a st = obind (or_crash (vNetBufFreeAll (nbs st) a)) (\<lambda>nb. Done (st\<lparr>nbs := nb\<rparr>))"

section \<open>Received frames\<close>

text \<open>The reply of ARP takes the place of the request behind the header, if there is memory for it.\<close>

definition arp_answer :: "shim_env \<Rightarrow> nat \<Rightarrow> nat \<Rightarrow> bytes \<Rightarrow> nb_state \<Rightarrow> nb_state outcome" where
  "arp_answer env a x q nb =
    (case (e_buf env, e_seg2 env) of
       (Some b, Some y) \<Rightarrow>
         obind (or_crash (vNetBufFree nb x)) (\<lambda>nb1.
           let nb2 = put (nb1\<lparr>bufs := (bufs nb1)(b \<mapsto> q)\<rparr>) y
             \<lparr>pxNext = None, pxFirst = y, eType = NB_RINA_ARP, unSz = length q, pxBuf = Some (b, 0),
              pxBufStart = Some b, xFreed = False, freemethod = Some FreePool\<rparr> in
           or_crash (vNetBufAppend nb2 a y))
     | _ \<Rightarrow> Done nb)"

definition prvShimHandleARPFrame :: "shim_env \<Rightarrow> nat \<Rightarrow> 'a shim_state_scheme \<Rightarrow> (frame_result \<times> 'a shim_state_scheme) outcome" where
  "prvShimHandleARPFrame env a st =
    obind (or_crash (pxNetBufNext (nbs st) a)) (\<lambda>next.
    obind (or_crash next) (\<lambda>x.
      if unSz (cell (nbs st) x) < ARP_HDR_SZ then Done (eReleaseBuffer, st)
      else
        obind (eth_at (nbs st) a) (\<lambda>eth.
        obind (seg_at (nbs st) x) (\<lambda>p.
        obind (eARPProcessPacket (e_arp env) (xARP st) eth p) (\<lambda>r.
          let st1 = st\<lparr>xARP := arp_new_cache r\<rparr> in
          case arp_reply r of
            None \<Rightarrow> Done (arp_result r, st1)
          | Some q \<Rightarrow> obind (arp_answer env a x q (nbs st1)) (\<lambda>nb. Done (arp_result r, st1\<lparr>nbs := nb\<rparr>)))))))"

text \<open>Delivery to the flow at \<open>f\<close>: the header is freed and the rest announced to the task.\<close>

definition rina_deliver :: "shim_env \<Rightarrow> nat \<Rightarrow> nat \<Rightarrow> 'a shim_state_scheme \<Rightarrow> (frame_result \<times> 'a shim_state_scheme) outcome" where
  "rina_deliver env a f st =
    obind (or_crash (pxNetBufNext (nbs st) a)) (\<lambda>du.
    obind (or_crash (vNetBufFree (nbs st) a)) (\<lambda>nb.
    obind (or_crash (sflows st f)) (\<lambda>fl.
    obind (xSendEventStructToIPCPTask (e_me env) (e_ev env) (eRinaRxEvent (sf_port fl) du) 1000 (st\<lparr>nbs := nb\<rparr>)) (\<lambda>(r, st1).
      Done (eFrameConsumed, st1)))))"

text \<open>\<open>self\<close> is the address of the instance of the shim.\<close>

definition new_shim_flow ::
  "shim_env \<Rightarrow> nat \<Rightarrow> gha option \<Rightarrow> nat \<Rightarrow> 'a shim_state_scheme op" where
  "new_shim_flow env self ha f st =
    obind (unIpcManagerReservePort st) (\<lambda>(port, st1).
      if \<not> unat port < length (xFlows st1) then Crash
      else
        (let st2 = st1\<lparr>sflows := (sflows st1)(f \<mapsto> \<lparr>pxDestHa = ha, pxDestPa = None, sf_port = port, ePortIdState = eALLOCATED\<rparr>),
                       xFlows := (xFlows st1)[unat port := Some f]\<rparr> in
         obind (pxIpcManagerFindByType eNormal st2) (\<lambda>i.
         obind (or_crash i) (\<lambda>_. xNormalFlowBinding (e_n1 env) port (Some self) st2))))"

definition prvShimHandleRinaFrame ::
  "shim_env \<Rightarrow> nat \<Rightarrow> nat \<Rightarrow> 'a shim_state_scheme \<Rightarrow> (frame_result \<times> 'a shim_state_scheme) outcome" where
  "prvShimHandleRinaFrame env self a st =
    obind (eth_at (nbs st) a) (\<lambda>eth.
      let ha = (case pxCreateGHA (e_gha env) MAC_ADDR_802_3 (xSourceAddress eth) of Inl _ \<Rightarrow> None | Inr h \<Rightarrow> Some h) in
      obind (prvShimFindFlowByGHA ha st) (\<lambda>r.
        case r of
          Some f \<Rightarrow> rina_deliver env a f st
        | None \<Rightarrow>
            (case e_flow env of
               None \<Rightarrow> Done (eFrameConsumed, st)
             | Some f \<Rightarrow>
                 obind (new_shim_flow env self ha f st) (\<lambda>(ok, st1).
                   if \<not> ok then Done (eFrameConsumed, st1) else rina_deliver env a f st1))))"

text \<open>A frame is a type in the order of the network; the rest of the frame is cut off as a segment of type
  \<^verbatim>\<open>NB_RINA_PCI\<close>.\<close>

definition frame_done :: "shim_env \<Rightarrow> nat \<Rightarrow> frame_result \<times> 'a shim_state_scheme \<Rightarrow> 'a shim_state_scheme outcome" where
  "frame_done env a = (\<lambda>(r, st).
    case r of
      eFrameConsumed \<Rightarrow> Done st
    | eReturnEthernetFrame \<Rightarrow> obind (prvReturnEthernetFrame env a st) (free_all a)
    | _ \<Rightarrow> free_all a st)"

definition vShimHandleEthernetPacket :: "shim_env \<Rightarrow> nat \<Rightarrow> nat \<Rightarrow> 'a shim_state_scheme \<Rightarrow> 'a shim_state_scheme outcome" where
  "vShimHandleEthernetPacket env self a st =
    obind (or_crash (xNetBufSplit (e_seg env) a NB_RINA_PCI ETH_SZ (nbs st))) (\<lambda>r.
    obind
      (case r of
         Inl _ \<Rightarrow> Done (eReleaseBuffer, st)
       | Inr nb \<Rightarrow>
           (let st1 = st\<lparr>nbs := nb\<rparr> in
            obind (eth_at nb a) (\<lambda>h.
              let t = swap16 (usFrameType h) in
              if t = ETH_P_RINA_ARP then prvShimHandleARPFrame env a st1
              else if t = ETH_P_RINA then prvShimHandleRinaFrame env self a st1
              else Done (eReleaseBuffer, st1))))
      (frame_done env a))"

text \<open>What the drivers ask before they hand over a frame.\<close>

definition eConsiderFrameForProcessing :: "bytes \<Rightarrow> frame_result outcome" where
  "eConsiderFrameForProcessing p =
    (if length p < ETH_SZ then Crash
     else
       (let t = swap16 (usFrameType (eth_of p)) in
        Done (if t = ETH_P_RINA_ARP \<or> t = ETH_P_RINA then eProcessBuffer else eReleaseBuffer)))"

section \<open>Writing\<close>

text \<open>A DU that is refused is not freed.\<close>

definition xShimSDUWrite :: "shim_env \<Rightarrow> 'a shim_state_scheme du_handler" where
  "xShimSDUWrite env port du st =
    obind (or_crash du) (\<lambda>d.
    obind (or_crash (unNetBufTotalSize (nbs st) d)) (\<lambda>n.
      if MTU < n then Done (False, st)
      else
        obind (prvShimFindFlowByPortId port st) (\<lambda>r.
          case r of None \<Rightarrow> Done (False, st)
          | Some f \<Rightarrow>
              obind (or_crash (sflows st f)) (\<lambda>fl.
                if ePortIdState fl \<noteq> eALLOCATED then Done (False, st)
                else
                  (case pxCreateGHA (e_gha env) MAC_ADDR_802_3 (xPhyDev st) of
                     Inl _ \<Rightarrow> Done (False, st)
                   | Inr src \<Rightarrow>
                       (case pxDestHa fl of None \<Rightarrow> Done (False, st)
                        | Some dst \<Rightarrow>
                            obind (run_crash (pxRsrcAlloc (pxEthPool st) (Some ''xShimSDUWrite'') (e_heap env) (rs st))) (\<lambda>(hb, rs1).
                              let st1 = st\<lparr>rs := rs1\<rparr> in
                              case hb of None \<Rightarrow> Done (False, st1)
                              | Some b \<Rightarrow>
                                  obind (or_crash (pxNetBufNew (e_seg env) NB_ETH_HDR b ETH_SZ (Some FreePool) (lend b rs1 (nbs st1)))) (\<lambda>r.
                                   case r of
                                     Inl _ \<Rightarrow> Done (False, st1)
                                   | Inr (x, nb1) \<Rightarrow>
                                       obind (or_crash (vNetBufAppend nb1 x d)) (\<lambda>nb2.
                                       obind (seg_write nb2 x 0 (eth_bytes (xAddress dst) (xAddress src) (swap16 ETH_P_RINA))) (\<lambda>nb3.
                                       obind (output_frame (e_net env) x (st1\<lparr>nbs := nb3\<rparr>)) (\<lambda>(ok, st2).
                                       obind (free_all x st2) (\<lambda>st3. Done (ok, st3)))))))))))))"

section \<open>Life cycle\<close>

text \<open>\<open>net\<close> is the hardware address the interface gives when it comes up.\<close>

definition xShimStart :: "bytes option \<Rightarrow> bool \<Rightarrow> bool \<Rightarrow> bool \<Rightarrow> 'a shim_state_scheme op" where
  "xShimStart net ok1 ok2 ok3 st =
    (case net of None \<Rightarrow> Done (False, st)
     | Some mac \<Rightarrow>
         (let st1 = st\<lparr>xPhyDev := mac\<rparr> in
          case xARPInit ok1 ok2 ok3 of None \<Rightarrow> Done (False, st1) | Some c \<Rightarrow> Done (True, st1\<lparr>xARP := c\<rparr>)))"

definition xShimStop :: "'a shim_state_scheme op" where
  "xShimStop st = Done (True, st)"

definition xShimEnable :: "shim_env \<Rightarrow> nat \<Rightarrow> 'a shim_state_scheme op" where
  "xShimEnable env self st =
    (if e_net env
     then obind (xSendEventStructToIPCPTask (e_me env) (e_ev env) (eShimEnrolledEvent self) 50000 st) (\<lambda>(r, st1). Done (True, st1))
     else Done (False, st))"

definition xShimDisable :: "'a shim_state_scheme op" where
  "xShimDisable st = Done (True, st)"

section \<open>Allocating flows\<close>

definition xShimFlowDeallocate :: "u32 \<Rightarrow> 'a shim_state_scheme op" where
  "xShimFlowDeallocate port st =
    (if \<not> is_port_id_ok port then Crash
     else
       obind (prvShimFindFlowByPortId port st) (\<lambda>r.
         case r of None \<Rightarrow> Done (False, st) | Some f \<Rightarrow> prvShimUnbindDestroyFlow f st))"

text \<open>\<open>buf\<close> is the block on the stack for the name; \<open>a1\<close>, \<open>ok\<close> and \<open>a2\<close> serve \<^verbatim>\<open>pxNameToGPA\<close> and \<open>q\<close> the queue.
  The new flow is not put into the table.\<close>

definition xShimFlowAllocateRequest ::
  "shim_env \<Rightarrow> bytes \<Rightarrow> allocator \<Rightarrow> bool \<Rightarrow> allocator \<Rightarrow> bool \<Rightarrow> rname \<Rightarrow> rname \<Rightarrow> u32 \<Rightarrow> 'a shim_state_scheme op" where
  "xShimFlowAllocateRequest env buf a1 ok a2 q src dst port st =
    (if \<not> is_port_id_ok port then Crash
     else
       obind (or_crash (vNameToStringBuf src buf 64)) (\<lambda>_.
       obind (prvShimFindFlowByPortId port st) (\<lambda>r.
         case r of
           Some f \<Rightarrow> obind (or_crash (sflows st f)) (\<lambda>fl. Done (ePortIdState fl = ePENDING, st))
         | None \<Rightarrow>
             (case e_flow env of None \<Rightarrow> Done (False, st)
              | Some f \<Rightarrow>
                  (let fl = \<lparr>pxDestHa = None, pxDestPa = pxNameToGPA a1 ok a2 dst, sf_port = port, ePortIdState = ePENDING\<rparr>;
                       st1 = st\<lparr>sflows := (sflows st)(f \<mapsto> fl)\<rparr> in
                   if pxDestPa fl = None \<or> \<not> q
                   then obind (prvShimUnbindDestroyFlow f st1) (\<lambda>(r, st2). Done (False, st2))
                   else Done (True, st1))))))"

definition xShimFlowAllocateResponse :: "shim_env \<Rightarrow> u32 \<Rightarrow> 'a shim_state_scheme op" where
  "xShimFlowAllocateResponse env port st =
    (if \<not> is_port_id_ok port then Crash
     else
       obind (prvShimFindFlowByPortId port st) (\<lambda>r.
         case r of None \<Rightarrow> Done (False, st)
         | Some f \<Rightarrow>
             obind (or_crash (sflows st f)) (\<lambda>fl.
               if ePortIdState fl \<noteq> ePENDING then Done (False, st)
               else
                 (let st1 = st\<lparr>sflows := (sflows st)(f \<mapsto> fl\<lparr>ePortIdState := eALLOCATED, sf_port := port,
                        pxDestHa := pxARPLookupGHA (xARP st) (pxDestPa fl)\<rparr>)\<rparr> in
                  obind (xSendEventStructToIPCPTask (e_me env) (e_ev env) (eShimFlowAllocatedEvent port None) 250000 st1)
                    (\<lambda>(r, st2). Done (True, st2))))))"

section \<open>Applications\<close>

definition mem_free :: "name_mem \<Rightarrow> name_mem outcome" where
  "mem_free m = (case m of Unset \<Rightarrow> Done Unset | Held \<Rightarrow> Done Released | Released \<Rightarrow> Crash)"

definition gone_gpa :: gpa where "gone_gpa = \<lparr>pucAddress = None, uxLength = 0\<rparr>"

text \<open>The common failure frees the application's name twice.\<close>

definition register_err :: "'a shim_state_scheme op" where
  "register_err st =
    obind (mem_free (app_mem st)) (\<lambda>m.
    obind (mem_free m) (\<lambda>m2.
      Done (False, st\<lparr>app_mem := m2, pxAppPa := map_option (\<lambda>_. gone_gpa) (pxAppPa st),
        pxDafPa := map_option (\<lambda>_. gone_gpa) (pxDafPa st)\<rparr>)))"

definition register_undo :: "'a shim_state_scheme op" where
  "register_undo st =
    (let c1 = snd (xARPRemoveApplication (xARP st) (pxAppPa st)); c2 = snd (xARPRemoveApplication c1 (pxAppPa st)) in
     register_err (st\<lparr>xARP := c2\<rparr>))"

text \<open>\<open>al i\<close> and \<open>ok i\<close> are the memory of the i-th allocation.  Any handle but zero counts as success.
  A name that could not be copied has \<^verbatim>\<open>NULL\<close> for its memory, and what it held before is lost.\<close>

definition xShimApplicationRegister ::
  "shim_env \<Rightarrow> (nat \<Rightarrow> allocator) \<Rightarrow> (nat \<Rightarrow> bool) \<Rightarrow> rname \<Rightarrow> rname \<Rightarrow> 'a shim_state_scheme op" where
  "xShimApplicationRegister env al ok app daf st =
    (case xNameAssignDup (al 0) app of Inl _ \<Rightarrow> register_err (st\<lparr>app_mem := Unset\<rparr>)
     | Inr n1 \<Rightarrow>
         (let st1 = st\<lparr>xAppName := Some n1, app_mem := Held, pxAppPa := pxNameToGPA (al 1) (ok 1) (al 2) app\<rparr> in
          if pxAppPa st1 = None then register_err st1
          else
            (let st2 = st1\<lparr>pxDafPa := pxNameToGPA (al 3) (ok 3) (al 4) daf\<rparr> in
             if pxDafPa st2 = None then register_err st2
             else
               (case xNameAssignDup (al 5) daf of Inl _ \<Rightarrow> register_err (st2\<lparr>daf_mem := Unset\<rparr>)
                | Inr n2 \<Rightarrow>
                    (let st3 = st2\<lparr>xDafName := Some n2, daf_mem := Held\<rparr> in
                     case pxCreateGHA (e_gha env) MAC_ADDR_802_3 (xPhyDev st) of
                       Inl _ \<Rightarrow> register_err (st3\<lparr>pxHa := None\<rparr>)
                     | Inr ha \<Rightarrow>
                         (let st4 = st3\<lparr>pxHa := Some ha\<rparr>;
                              (h1, c1) = xARPAddApplication (e_arp env) (xARP st4) (the (pxAppPa st4)) ha;
                              st5 = st4\<lparr>xARP := c1\<rparr> in
                          if h1 = 0 then register_undo st5
                          else
                            (let (h2, c2) = xARPAddApplication (e_arp env) c1 (the (pxDafPa st5)) ha;
                                 st6 = st5\<lparr>xARP := c2\<rparr> in
                             if h2 = 0 then register_undo st6 else Done (True, st6))))))))"

definition xShimApplicationUnregister :: "allocator \<Rightarrow> bool \<Rightarrow> allocator \<Rightarrow> rname \<Rightarrow> 'a shim_state_scheme op" where
  "xShimApplicationUnregister a1 ok a2 nm st =
    (let c = snd (xARPRemoveApplication (xARP st) (pxNameToGPA a1 ok a2 nm)) in
     obind (mem_free (app_mem st)) (\<lambda>m1.
     obind (mem_free (daf_mem st)) (\<lambda>m2.
       Done (True, st\<lparr>xARP := c, app_mem := m1, daf_mem := m2\<rparr>))))"

section \<open>The instance\<close>

text \<open>The failure path frees the instance once for itself and once for its data, and the data never.
  \<open>nbp\<close>, \<open>hdr\<close> and \<open>mx\<close> are the outcomes for the pool of buffers, the pool of headers and the mutex.\<close>

definition pxShimWiFiCreate ::
  "nat option \<Rightarrow> bool \<Rightarrow> bool \<Rightarrow> nat option \<Rightarrow> bool \<Rightarrow> u16 \<Rightarrow> 'a shim_state_scheme \<Rightarrow> (nat option \<times> 'a shim_state_scheme) outcome" where
  "pxShimWiFiCreate inst data nbp hdr mx n st =
    (case inst of None \<Rightarrow> Done (None, st)
     | Some a \<Rightarrow>
         if \<not> data then Done (None, st)
         else if \<not> nbp \<or> hdr = None \<or> \<not> mx then Crash
         else Done (Some a, st\<lparr>ipcps := (ipcps st)(a \<mapsto> \<lparr>xId = n, inst_type = eShimWiFi\<rparr>), pxEthPool := hdr,
           xFlows := replicate MAX_SHIM_FLOWS None, app_mem := Unset, daf_mem := Unset, pxAppPa := None, pxDafPa := None,
           pxHa := None, xARP := []\<rparr>))"

end
