(* ===== verification/Cuts.thy ===== *)
theory Cuts
  imports Normal
begin

text \<open>Data units whose headers were cut off one after the other: the segments of the headers are freed and
  stay in the chain, the last segment is alive and holds the rest of the data.  One of one segment is the
  case in which nothing was cut off yet.  The last section is what becomes of any of them that the RMT receives.\<close>

definition tail_seg :: "nb_state \<Rightarrow> nb_type \<Rightarrow> nat list \<Rightarrow> nat \<Rightarrow> nat \<Rightarrow> nat \<Rightarrow> bytes \<Rightarrow> bool" where
  "tail_seg st t fs x b off d =
    (chain_ok st (fs @ [x]) \<and> (\<forall>f \<in> set fs. xFreed (cell st f) \<and> pxBufStart (cell st f) = None) \<and>
     (\<exists>bs. eType (cell st x) = t \<and> \<not> xFreed (cell st x) \<and> pxBuf (cell st x) = Some (b, off) \<and>
        pxBufStart (cell st x) = Some b \<and> unSz (cell st x) = length d \<and> bufs st b = Some bs \<and>
        off + length d \<le> length bs \<and> take (length d) (drop off bs) = d))"

lemma tail_parts:
  assumes "tail_seg st t fs x b off d"
  shows "chain_of st x = Some (fs @ [x])" "live st (fs @ [x]) = [x]" "cells st x = Some (cell st x)" "x \<notin> set fs"
    "unNetBufTotalSize st x = Some (length d)"
proof -
  have c: "chain_ok st (fs @ [x])" "\<forall>f \<in> set fs. xFreed (cell st f)" "\<not> xFreed (cell st x)" "unSz (cell st x) = length d"
    using assms by (auto simp: tail_seg_def)
  then have "live st fs = []" by (simp add: live_def)
  then show l: "live st (fs @ [x]) = [x]" using c(3) by (simp add: live_def)
  show "chain_of st x = Some (fs @ [x])" using chain_of_ok [OF c(1), of x] by simp
  then show "unNetBufTotalSize st x = Some (length d)" using l c(4) by (simp add: unNetBufTotalSize_def)
  show "cells st x = Some (cell st x)" using chain_cell [OF c(1), of x] by simp
  show "x \<notin> set fs" using c(1) by (simp add: chain_ok_def)
qed

lemma one_seg_tail: "one_seg st t x b off d = (tail_seg st t [] x b off d \<and> pxNext (cell st x) = None)"
  by (auto simp: one_seg_def tail_seg_def chain_ok_def cell_def)

text \<open>Reading the first bytes of the rest.\<close>

lemma tail_copy:
  assumes "tail_seg st t fs x b off d" "n \<le> length d"
  shows "copy_from st (cell st x) 0 n = Some (take n d)"
proof -
  obtain bs where "pxBuf (cell st x) = Some (b, off)" "bufs st b = Some bs" "off + length d \<le> length bs"
    "take (length d) (drop off bs) = d" using assms(1) by (auto simp: tail_seg_def)
  then show ?thesis using assms(2) take_prefix [of d "drop off bs" n] by (simp add: copy_from_def)
qed

lemma linked_last_next: "linked h p (xs @ [x]) \<Longrightarrow> h x = Some nb \<Longrightarrow> pxNext nb = None"
  by (induction xs arbitrary: p) auto

text \<open>Cutting off and freeing the first \<open>n\<close> bytes.\<close>

lemma cut_tail:
  assumes s: "tail_seg st t fs x b off d" and n: "n < length d" and y: "y \<notin> set (fs @ [x])"
  obtains st1 st2 where "xNetBufSplit (Some y) x t' n st = Some (Inr st1)" "bufs st1 = bufs st"
    "cells st1 x = Some ((cell st x)\<lparr>unSz := n, pxNext := Some y\<rparr>)" "pxNetBufNext st1 x = Some (Some y)"
    "vNetBufFree st1 x = Some st2" "bufs st2 = bufs st" "tail_seg st2 t' (fs @ [x]) y b (off + n) (drop n d)"
    "\<forall>z. z \<notin> set (fs @ [x, y]) \<longrightarrow> cells st2 z = cells st z"
proof -
  note p = tail_parts [OF s]
  obtain bs where c: "chain_ok st (fs @ [x])" "\<forall>f \<in> set fs. xFreed (cell st f) \<and> pxBufStart (cell st f) = None"
    "eType (cell st x) = t" "\<not> xFreed (cell st x)" "pxBuf (cell st x) = Some (b, off)"
    "pxBufStart (cell st x) = Some b" "unSz (cell st x) = length d" "bufs st b = Some bs" "off + length d \<le> length bs"
    "take (length d) (drop off bs) = d" using s by (auto simp: tail_seg_def)
  let ?h = "hd (fs @ [x])"
  define ny where "ny = (cell st x)\<lparr>eType := t', pxBuf := Some (b, off + n), unSz := length d - n, xFreed := False\<rparr>"
  define nx where "nx = (cell st x)\<lparr>unSz := n, pxNext := Some y\<rparr>"
  define st1 where "st1 = put (put st y ny) x nx"
  define nf where "nf = nx\<lparr>xFreed := True, unSz := 0, pxBuf := None\<rparr>"
  define st2 where "st2 = put (put st1 x nf) x (nf\<lparr>pxBufStart := None\<rparr>)"
  have yx: "y \<noteq> x" using y by auto
  have hd: "hd (fs @ [x, y]) = ?h" by (cases fs) auto
  have first: "pxFirst (cell st x) = ?h" using c(1) by (simp add: chain_ok_def)
  have sp: "xNetBufSplit (Some y) x t' n st = Some (Inr st1)"
    using p(1,2) c(5,7) n by (simp add: xNetBufSplit_def Let_def st1_def ny_def nx_def)
  have nx1: "cells st1 x = Some nx" "cell st1 x = nx" "cell st1 y = ny" using yx by (simp_all add: st1_def)
  have lk: "linked (cells st1) (Some ?h) (fs @ [x, y])"
    unfolding st1_def cells_put
    by (rule linked_insert [where nb = "cell st x" and q = "[]"]) (use c(1) y p(3) in \<open>auto simp: chain_ok_def nx_def ny_def\<close>)
  have out: "cell st1 f = cell st f" if "f \<in> set fs" for f
    using that p(4) y by (auto simp: st1_def)
  have wy: "walk (cells st1) (Some y) = Some [y]"
  proof -
    obtain q where "linked (cells st) q (fs @ [x])" using c(1) by (auto simp: chain_ok_def)
    then have "pxNext ny = None" using linked_last_next [of "cells st" q fs x "cell st x"] p(3) by (simp add: ny_def)
    then show ?thesis using nx1(3) yx by (simp add: walk.simps st1_def)
  qed
  have nxt: "pxNetBufNext st1 x = Some (Some y)"
    using nx1 wy c(4) by (simp add: pxNetBufNext_def nx_def live_def ny_def)
  have lf: "linked (cells (put st1 x nf)) (Some ?h) (fs @ [x, y])"
    unfolding cells_put by (rule linked_upd_same [OF lk nx1(1)]) (simp add: nf_def)
  have w: "walk (cells (put st1 x nf)) (Some ?h) = Some (fs @ [x, y])" by (rule walk_linked [OF lf])
  have fr: "vNetBufFree st1 x = Some st2"
  proof -
    have m: "mark_freed st1 x nx = put st1 x nf" by (simp add: mark_freed_def nf_def)
    have "List.filter (\<lambda>z. pxBufStart (cell (put st1 x nf) z) = pxBufStart (cell (put st1 x nf) x)) (fs @ [x, y]) = [x, y]"
      using out c(2,6) p(4) yx y by (auto simp: nf_def nx_def st1_def ny_def filter_empty_conv)
    then have "drop_ref (put st1 x nf) x (fs @ [x, y]) = Some st2"
      by (simp add: drop_ref_def Let_def st2_def)
    moreover have "pxFirst nx = ?h" using first by (simp add: nx_def)
    ultimately show ?thesis using nx1 m w yx by (simp add: vNetBufFree_def Let_def ny_def)
  qed
  have c2: "cell st2 y = ny" "cell st2 x = nf\<lparr>pxBufStart := None\<rparr>" "\<And>f. f \<in> set fs \<Longrightarrow> cell st2 f = cell st f" "bufs st2 = bufs st"
    using nx1 out yx p(4) y by (auto simp: st2_def st1_def)
  have "linked (cells st2) (Some ?h) (fs @ [x, y])"
    unfolding st2_def cells_put by (rule linked_upd_same [where nb = nf]) (use lf in simp_all)
  then have "chain_ok st2 ((fs @ [x]) @ [y])"
    using c(1) c2 y hd first unfolding chain_ok_def by (auto simp: nf_def nx_def ny_def)
  moreover have "take (length d - n) (drop (off + n) bs) = drop n d"
  proof -
    have "drop n (take (length d) (drop off bs)) = take (length d - n) (drop n (drop off bs))" by (simp add: drop_take)
    then show ?thesis unfolding c(10) by (simp add: add.commute)
  qed
  ultimately have "tail_seg st2 t' (fs @ [x]) y b (off + n) (drop n d)"
    using c c2 n unfolding tail_seg_def by (auto simp: ny_def nf_def nx_def)
  moreover have "\<forall>z. z \<notin> set (fs @ [x, y]) \<longrightarrow> cells st2 z = cells st z" by (auto simp: st2_def st1_def)
  moreover have "bufs st1 = bufs st" by (simp add: st1_def)
  ultimately show thesis using that sp nx1(1) nxt fr c2(4) by (simp add: nx_def)
qed

text \<open>Freeing the last live segment releases the whole chain.\<close>

lemma release_none:
  "\<forall>z \<in> set xs. pxBufStart (cell st z) = None \<Longrightarrow> distinct xs \<Longrightarrow>
   \<exists>st'. release_all st xs = Some st' \<and> (\<forall>z. cells st' z = (if z \<in> set xs then None else cells st z))"
proof (induction xs arbitrary: st)
  case (Cons a xs)
  let ?s = "st\<lparr>cells := (cells st)(a := None)\<rparr>"
  have "\<forall>z \<in> set xs. pxBufStart (cell ?s z) = None" using Cons.prems by (auto simp: cell_def)
  from Cons.IH [OF this] Cons.prems show ?case by auto
qed simp

lemma release_tail:
  "distinct xs \<Longrightarrow> x \<in> set xs \<Longrightarrow> \<forall>z \<in> set xs. z \<noteq> x \<longrightarrow> pxBufStart (cell st z) = None \<Longrightarrow>
   pxBufStart (cell st x) = Some b \<Longrightarrow> bufs st b \<noteq> None \<Longrightarrow>
   \<exists>st'. release_all st xs = Some st' \<and> (\<forall>z. cells st' z = (if z \<in> set xs then None else cells st z))"
proof (induction xs arbitrary: st)
  case (Cons y ys)
  show ?case
  proof (cases "y = x")
    case True
    have none: "\<forall>z \<in> set ys. pxBufStart (cell st z) = None" using Cons.prems(1,3) True by auto
    obtain st1 where c: "call_free st x = Some st1" "\<forall>z. z \<noteq> x \<longrightarrow> cells st1 z = cells st z"
    proof -
      have "\<exists>st1. call_free st x = Some st1 \<and> (\<forall>z. z \<noteq> x \<longrightarrow> cells st1 z = cells st z)"
        using Cons.prems(4,5) by (cases "freemethod (cell st x)"; cases "the (freemethod (cell st x))") (auto simp: call_free_def Let_def)
      then show thesis using that by blast
    qed
    let ?s = "st1\<lparr>cells := (cells st1)(x := None)\<rparr>"
    have "\<forall>z \<in> set ys. pxBufStart (cell ?s z) = None" using none c(2) Cons.prems(1) True by (auto simp: cell_def)
    from release_none [OF this] obtain st' where "release_all ?s ys = Some st'"
      "\<forall>z. cells st' z = (if z \<in> set ys then None else cells ?s z)" using Cons.prems(1) by auto
    then show ?thesis using c True Cons.prems(4) by auto
  next
    case False
    then have n: "pxBufStart (cell st y) = None" using Cons.prems(3) by auto
    let ?s = "st\<lparr>cells := (cells st)(y := None)\<rparr>"
    have e: "cell ?s z = cell st z" if "z \<noteq> y" for z using that by (simp add: cell_def)
    have "\<exists>st'. release_all ?s ys = Some st' \<and> (\<forall>z. cells st' z = (if z \<in> set ys then None else cells ?s z))"
    proof (rule Cons.IH)
      show "\<forall>z \<in> set ys. z \<noteq> x \<longrightarrow> pxBufStart (cell ?s z) = None" using Cons.prems(1,3) by (auto simp: cell_def)
      show "pxBufStart (cell ?s x) = Some b" using e [of x] False Cons.prems(4) by simp
    qed (use Cons.prems False in auto)
    then show ?thesis using n by auto
  qed
qed simp

lemma tail_free:
  assumes "tail_seg st t fs x b off d"
  shows "\<exists>st'. vNetBufFree st x = Some st' \<and> (\<forall>z. cells st' z = (if z \<in> set (fs @ [x]) then None else cells st z))"
proof -
  obtain bs where c: "chain_ok st (fs @ [x])" "\<forall>f \<in> set fs. xFreed (cell st f) \<and> pxBufStart (cell st f) = None"
    "pxBufStart (cell st x) = Some b" "bufs st b = Some bs" using assms by (auto simp: tail_seg_def)
  note p = tail_parts(3,4) [OF assms]
  let ?n = "(cell st x)\<lparr>xFreed := True, unSz := 0, pxBuf := None\<rparr>"
  define st1 where "st1 = mark_freed st x (cell st x)"
  have s1: "st1 = put st x ?n" by (simp add: st1_def mark_freed_def)
  have ok1: "chain_ok st1 (fs @ [x])" unfolding s1 by (rule chain_put [OF c(1)]) simp_all
  have cell1: "cell st1 z = (if z = x then ?n else cell st z)" for z by (simp add: s1)
  have w: "walk (cells st1) (Some (pxFirst (cell st x))) = Some (fs @ [x])"
    using c(1) ok1 by (auto simp: chain_ok_def intro: walk_linked)
  have "List.filter (\<lambda>z. pxBufStart (cell st1 z) = pxBufStart (cell st1 x)) fs = []"
    using c(2,3) p(2) by (auto simp: filter_empty_conv cell1)
  then have "drop_ref st1 x (fs @ [x]) = Some st1" by (simp add: drop_ref_def)
  moreover have "list_all (\<lambda>z. xFreed (cell st1 z)) (fs @ [x])" using c(2) by (auto simp: list_all_iff cell1)
  moreover have "\<exists>st'. release_all st1 (fs @ [x]) = Some st' \<and> (\<forall>z. cells st' z = (if z \<in> set (fs @ [x]) then None else cells st1 z))"
  proof (rule release_tail)
    show "distinct (fs @ [x])" using c(1) by (simp add: chain_ok_def)
    show "\<forall>z \<in> set (fs @ [x]). z \<noteq> x \<longrightarrow> pxBufStart (cell st1 z) = None" using c(2) by (auto simp: cell1)
    show "pxBufStart (cell st1 x) = Some b" "bufs st1 b \<noteq> None" using c(3,4) by (simp_all add: cell1) (simp add: s1)
  qed simp
  ultimately show ?thesis using p(1) w by (auto simp: vNetBufFree_def st1_def [symmetric] Let_def s1)
qed

text \<open>The state in which a PDU with a good header is dispatched.\<close>

definition cut_tail_off ::
  "'a rmt_state_scheme \<Rightarrow> nat \<Rightarrow> nat list \<Rightarrow> nat \<Rightarrow> nat \<Rightarrow> nat \<Rightarrow> nat \<Rightarrow> bytes \<Rightarrow> 'a rmt_state_scheme \<Rightarrow> bool" where
  "cut_tail_off st a fs x y b off d st' =
    (\<exists>nb. st' = (on_port a (stats_inc_rx (PCI_SZ + length d)) st)\<lparr>nbs := nb\<rparr> \<and> bufs nb = bufs (nbs st) \<and>
       tail_seg nb NB_RINA_DATA (fs @ [x]) y b (off + PCI_SZ) d)"

lemma receive_tail:
  assumes "is_port_id_ok port" "prvRmtPortFind port st = Some a"
    "tail_seg (nbs st) NB_RINA_PCI fs x b off (pci_bytes h @ d)" "d \<noteq> []" "y \<notin> set (fs @ [x])" "header_ok h"
  shows "\<exists>st'. cut_tail_off st a fs x y b off d st' \<and>
    xRmtReceive mgmt (Some y) x port st = rmt_dispatch mgmt h port (Some y) st'"
proof -
  have l: "PCI_SZ < length (pci_bytes h @ d)" using assms(4) by simp
  obtain st1 st2 where c: "xNetBufSplit (Some y) x NB_RINA_DATA PCI_SZ (nbs st) = Some (Inr st1)" "bufs st1 = bufs (nbs st)"
    "cells st1 x = Some ((cell (nbs st) x)\<lparr>unSz := PCI_SZ, pxNext := Some y\<rparr>)" "pxNetBufNext st1 x = Some (Some y)"
    "vNetBufFree st1 x = Some st2" "bufs st2 = bufs (nbs st)"
    "tail_seg st2 NB_RINA_DATA (fs @ [x]) y b (off + PCI_SZ) (drop PCI_SZ (pci_bytes h @ d))"
    using cut_tail [OF assms(3) l assms(5)] by blast
  have t: "eType (cell (nbs st) x) = NB_RINA_PCI" "\<not> xFreed (cell (nbs st) x)" using assms(3) by (auto simp: tail_seg_def)
  note p = tail_parts [OF assms(3)]
  have "copy_from st1 ((cell (nbs st) x)\<lparr>unSz := PCI_SZ, pxNext := Some y\<rparr>) 0 PCI_SZ = copy_from (nbs st) (cell (nbs st) x) 0 PCI_SZ"
    unfolding copy_from_def c(2) by simp
  then have g: "PCI_GET st1 x = Done h"
    using tail_copy [OF assms(3), of PCI_SZ] l c(3) t pci_of_header [of h "[]"] by (simp add: PCI_GET_def)
  have n: "nbs (on_port a f st) = nbs st" for f by (simp add: on_port_def)
  have "xRmtReceive mgmt (Some y) x port st = rmt_dispatch mgmt h port (Some y)
      ((on_port a (stats_inc_rx (PCI_SZ + length d)) st)\<lparr>nbs := st2\<rparr>)"
    using assms(1,2,6) p(3,5) c(1,4,5) g t by (simp add: xRmtReceive_def Let_def n header_ok_def xDuDecap_def nb_is_def)
  then show ?thesis using c(6,7) by (auto simp: cut_tail_off_def)
qed

section \<open>Every arrival\<close>

text \<open>Where a PDU that the RMT takes goes, from its header \<open>h\<close> and the addresses of the process.\<close>

definition pdu_goes ::
  "'a rmt_state_scheme du_handler \<Rightarrow> pci \<Rightarrow> u8 list \<Rightarrow> 'a rmt_state_scheme du_handler" where
  "pdu_goes mgmt h as port du st =
    (if xDestination h \<in> set as
     then
       if xType h = PDU_TYPE_MGMT then xRmtProcessMgmtPdu mgmt port du st
       else if xType h \<in> {PDU_TYPE_SACK_AND_FC, PDU_TYPE_SNACK_AND_FC} then Done (False, st)
       else xRmtProcessDtPdu port du st
     else if xDestination h = 0 then xRmtProcessMgmtPdu mgmt port du st
     else Done (False, st))"

lemma pci_of_none: "(pci_of w = None) = (length w < PCI_SZ)"
  by (simp add: pci_of_def)

lemma tail_type: "tail_seg st t fs x b off d \<Longrightarrow> eType (cell st x) = t \<and> \<not> xFreed (cell st x) \<and> unSz (cell st x) = length d"
  by (auto simp: tail_seg_def)

text \<open>The three ways of splitting the header off.\<close>

lemma split_refused:
  assumes "tail_seg st t fs x b off w" "length w < n \<or> n < length w \<and> new = None"
  shows "\<exists>e. xNetBufSplit new x t' n st = Some (Inl e)"
  using tail_parts(1,2) [OF assms(1)] tail_type [OF assms(1)] assms(2) by (auto simp: xNetBufSplit_def Let_def)

lemma split_exact:
  assumes "tail_seg st t fs x b off w" "length w = n"
  shows "xNetBufSplit new x t' n st = Some (Inr st)"
  using tail_parts(1,2) [OF assms(1)] tail_type [OF assms(1)] assms(2) by (simp add: xNetBufSplit_def Let_def)

lemma head_size:
  assumes "tail_seg st t fs x b off w" "length w = PCI_SZ"
  shows "pxNetBufNext st x = Some None"
proof -
  have c: "chain_ok st (fs @ [x])" using assms(1) by (simp add: tail_seg_def)
  then obtain q where "linked (cells st) q (fs @ [x])" by (auto simp: chain_ok_def)
  then have "pxNext (cell st x) = None" using linked_last_next [of "cells st" q fs x "cell st x"] tail_parts(3) [OF assms(1)] by simp
  then show ?thesis using tail_parts(3) [OF assms(1)] tail_type [OF assms(1)]
    by (simp add: pxNetBufNext_def walk.simps live_def)
qed

lemma head_read:
  assumes "tail_seg st t fs x b off w" "pci_of w = Some h"
  shows "PCI_GET st x = Done h"
proof -
  have l: "PCI_SZ \<le> length w" using assms(2) pci_of_none [of w] by (cases "length w < PCI_SZ") auto
  then show ?thesis
    using tail_copy [OF assms(1) l] tail_parts(3) [OF assms(1)] assms(2) pci_of_take [of PCI_SZ w] by (simp add: PCI_GET_def)
qed

text \<open>C7. What becomes of a DU that the RMT receives, whose data \<open>w\<close> lies in the last segment of its chain (the
  only one, or the one left behind freed headers, as the shim hands it on).  A DU from a port that is not bound is
  refused and not counted.  From a bound port it is counted with its bytes first.  Then, if it is not a PDU,
  an assertion fails; if it is shorter than a header, or there is no memory for the segment of its payload, it is
  refused as it is; if the header has an unknown type, or a wrong address or QoS id, it is refused, and not
  released.  Otherwise the header is cut off and freed, and the payload, intact, goes where the header says; without a
  payload the whole chain is released with the header, and nothing (\<^verbatim>\<open>NULL\<close>) goes there.  DUs with several
  live segments, which nothing on this path makes, are not covered.\<close>
theorem pdu_received:
  assumes "is_port_id_ok port" "tail_seg (nbs st) t fs x b off w" "\<forall>y. new = Some y \<longrightarrow> y \<notin> set (fs @ [x])"
  shows "case prvRmtPortFind port st of
      None \<Rightarrow> xRmtReceive mgmt new x port st = Done (False, st)
    | Some a \<Rightarrow>
        let c = on_port a (stats_inc_rx (length w)) st in
        if t \<noteq> NB_RINA_PCI then xRmtReceive mgmt new x port st = Crash
        else
          case pci_of w of
            None \<Rightarrow> xRmtReceive mgmt new x port st = Done (False, c)
          | Some h \<Rightarrow>
              if PCI_SZ < length w \<and> new = None then xRmtReceive mgmt new x port st = Done (False, c)
              else
                \<exists>nb. if \<not> header_ok h
                  then bufs nb = bufs (nbs st) \<and> cells nb x \<noteq> None \<and> \<not> xFreed (cell nb x) \<and>
                    xRmtReceive mgmt new x port st = Done (False, c\<lparr>nbs := nb\<rparr>)
                  else if length w = PCI_SZ
                  then (\<forall>z. cells nb z = (if z \<in> set (fs @ [x]) then None else cells (nbs st) z)) \<and>
                    xRmtReceive mgmt new x port st = pdu_goes mgmt h (xAddresses st) port None (c\<lparr>nbs := nb\<rparr>)
                  else bufs nb = bufs (nbs st) \<and>
                    tail_seg nb NB_RINA_DATA (fs @ [x]) (the new) b (off + PCI_SZ) (drop PCI_SZ w) \<and>
                    (\<forall>z. z \<notin> set (fs @ [x, the new]) \<longrightarrow> cells nb z = cells (nbs st) z) \<and>
                    xRmtReceive mgmt new x port st = pdu_goes mgmt h (xAddresses st) port new (c\<lparr>nbs := nb\<rparr>)"
proof (cases "prvRmtPortFind port st")
  case None
  then show ?thesis using assms(1) tail_parts(5) [OF assms(2)] by (simp add: xRmtReceive_def)
next
  case (Some a)
  define c where "c = on_port a (stats_inc_rx (length w)) st"
  note p = tail_parts(3,5) [OF assms(2)] and ty = tail_type [OF assms(2)]
  have n: "nbs c = nbs st" "c\<lparr>nbs := nbs st\<rparr> = c" by (simp_all add: c_def on_port_def)
  have ad: "xAddresses (c\<lparr>nbs := nb\<rparr>) = xAddresses st" for nb by (simp add: c_def on_port_def)
  let ?R = "xRmtReceive mgmt new x port st"
  have R: "?R = obind (xDuDecap new PCI_SZ x (nbs st)) (\<lambda>(ok, nb1).
      if \<not> ok then Done (False, c\<lparr>nbs := nb1\<rparr>)
      else
        obind (PCI_GET nb1 x) (\<lambda>p.
          if \<not> header_ok p then Done (False, c\<lparr>nbs := nb1\<rparr>)
          else
            obind (or_crash (pxNetBufNext nb1 x)) (\<lambda>nx.
            obind (or_crash (vNetBufFree nb1 x)) (\<lambda>nb2. rmt_dispatch mgmt p port nx (c\<lparr>nbs := nb2\<rparr>)))))"
  proof -
    have u: "c\<lparr>nbs := v, nbs := v'\<rparr> = c\<lparr>nbs := v'\<rparr>" for v v' by simp
    show ?thesis
      using assms(1) Some p(2) by (simp add: xRmtReceive_def Let_def c_def [symmetric] n(1) u header_ok_def cong: if_cong)
  qed
  have go: "rmt_dispatch mgmt h port du (c\<lparr>nbs := nb\<rparr>) = pdu_goes mgmt h (xAddresses st) port du (c\<lparr>nbs := nb\<rparr>)"
    if "header_ok h" for h du nb unfolding dispatch_table [OF that] ad pdu_goes_def by (rule refl)
  have wrong: "?R = Crash" if "t \<noteq> NB_RINA_PCI" using that p(1) ty unfolding R by (simp add: xDuDecap_def nb_is_def)
  have dec: "xDuDecap new PCI_SZ x (nbs st) = obind (or_crash (xNetBufSplit new x NB_RINA_DATA PCI_SZ (nbs st)))
      (\<lambda>r. case r of Inl e \<Rightarrow> Done (False, nbs st) | Inr st1 \<Rightarrow> Done (True, st1))" if "t = NB_RINA_PCI"
    using that p(1) ty by (simp add: xDuDecap_def nb_is_def)
  have refused: "?R = Done (False, c)" if "t = NB_RINA_PCI" "length w < PCI_SZ \<or> PCI_SZ < length w \<and> new = None"
    using split_refused [OF assms(2) that(2), of NB_RINA_DATA] n(2) unfolding R dec [OF that(1)] by auto
  have arrived: "\<exists>nb. if \<not> header_ok h
      then bufs nb = bufs (nbs st) \<and> cells nb x \<noteq> None \<and> \<not> xFreed (cell nb x) \<and> ?R = Done (False, c\<lparr>nbs := nb\<rparr>)
      else if length w = PCI_SZ
      then (\<forall>z. cells nb z = (if z \<in> set (fs @ [x]) then None else cells (nbs st) z)) \<and>
        ?R = pdu_goes mgmt h (xAddresses st) port None (c\<lparr>nbs := nb\<rparr>)
      else bufs nb = bufs (nbs st) \<and>
        tail_seg nb NB_RINA_DATA (fs @ [x]) (the new) b (off + PCI_SZ) (drop PCI_SZ w) \<and>
        (\<forall>z. z \<notin> set (fs @ [x, the new]) \<longrightarrow> cells nb z = cells (nbs st) z) \<and>
        ?R = pdu_goes mgmt h (xAddresses st) port new (c\<lparr>nbs := nb\<rparr>)"
    if t: "t = NB_RINA_PCI" and h: "pci_of w = Some h" and m: "\<not> (PCI_SZ < length w \<and> new = None)" for h
  proof (cases "length w = PCI_SZ")
    case True
    have g: "?R = (if \<not> header_ok h then Done (False, c)
        else obind (or_crash (vNetBufFree (nbs st) x)) (\<lambda>nb2. rmt_dispatch mgmt h port None (c\<lparr>nbs := nb2\<rparr>)))"
      using split_exact [OF assms(2) True] head_size [OF assms(2) True] head_read [OF assms(2) h] n(2)
      unfolding R dec [OF t] by simp
    obtain nb where nb: "vNetBufFree (nbs st) x = Some nb"
      "\<forall>z. cells nb z = (if z \<in> set (fs @ [x]) then None else cells (nbs st) z)" using tail_free [OF assms(2)] by blast
    show ?thesis
    proof (cases "header_ok h")
      case False
      then show ?thesis using g p(1) ty n(2) by (intro exI [of _ "nbs st"]) simp
    next
      case ok: True
      then show ?thesis using g nb True go by (intro exI [of _ nb]) simp
    qed
  next
    case False
    have l: "PCI_SZ < length w" using False h pci_of_none [of w] by (cases "length w < PCI_SZ") auto
    then obtain y where y: "new = Some y" "y \<notin> set (fs @ [x])" using m assms(3) by auto
    obtain st1 st2 where k: "xNetBufSplit (Some y) x NB_RINA_DATA PCI_SZ (nbs st) = Some (Inr st1)" "bufs st1 = bufs (nbs st)"
      "cells st1 x = Some ((cell (nbs st) x)\<lparr>unSz := PCI_SZ, pxNext := Some y\<rparr>)" "pxNetBufNext st1 x = Some (Some y)"
      "vNetBufFree st1 x = Some st2" "bufs st2 = bufs (nbs st)"
      "tail_seg st2 NB_RINA_DATA (fs @ [x]) y b (off + PCI_SZ) (drop PCI_SZ w)"
      "\<forall>z. z \<notin> set (fs @ [x, y]) \<longrightarrow> cells st2 z = cells (nbs st) z" using cut_tail [OF assms(2) l y(2)] by blast
    have "copy_from st1 ((cell (nbs st) x)\<lparr>unSz := PCI_SZ, pxNext := Some y\<rparr>) 0 PCI_SZ = copy_from (nbs st) (cell (nbs st) x) 0 PCI_SZ"
      unfolding copy_from_def k(2) by simp
    then have "PCI_GET st1 x = PCI_GET (nbs st) x" using k(3) p(1) by (simp add: PCI_GET_def)
    then have g: "?R = (if \<not> header_ok h then Done (False, c\<lparr>nbs := st1\<rparr>) else rmt_dispatch mgmt h port new (c\<lparr>nbs := st2\<rparr>))"
      using k(1,4,5) y(1) head_read [OF assms(2) h] unfolding R dec [OF t] by simp
    show ?thesis
    proof (cases "header_ok h")
      case bad: False
      have "\<not> xFreed (cell st1 x)" using k(3) ty by (simp add: cell_def)
      then show ?thesis using bad g k(2,3) by (intro exI [of _ st1]) simp
    next
      case ok: True
      then show ?thesis using g k(6-8) y(1) False go by (intro exI [of _ st2]) simp
    qed
  qed
  show ?thesis
  proof (cases "pci_of w")
    case None
    then show ?thesis using Some wrong refused pci_of_none [of w] by (simp add: Let_def c_def [symmetric])
  next
    case h: (Some h)
    note e = Some h option.case Let_def c_def [symmetric]
    consider "t \<noteq> NB_RINA_PCI" | "t = NB_RINA_PCI" "PCI_SZ < length w \<and> new = None"
      | "t = NB_RINA_PCI" "\<not> (PCI_SZ < length w \<and> new = None)" by blast
    then show ?thesis
    proof cases
      case 1
      then show ?thesis unfolding e using wrong by simp
    next
      case 2
      then show ?thesis unfolding e if_P [OF 2(2)] using refused by simp
    next
      case 3
      show ?thesis unfolding e if_not_P [OF 3(2)] using arrived [OF 3(1) h 3(2)] 3(1) by simp
    qed
  qed
qed

lemma pdu_received_witness:
  "(\<exists>nb st'. tail_seg nb NB_RINA_DATA [5] 6 9 14 [1, 2] \<and> nbs st' = nb \<and>
     xRmtReceive (\<lambda>_ _ s. Done (False, s)) (Some 6) 5 7
       (rmt_demo [] (du_seg NB_RINA_PCI (pci_bytes (mgmt_pci 16) @ [1, 2]))) = Done (False, st')) \<and>
   (\<exists>st'. xRmtReceive (\<lambda>_ _ s. Done (False, s)) (Some 6) 5 7 (rmt_demo [] (du_seg NB_RINA_PCI (pci_bytes (mgmt_pci 14)))) = Done (False, st') \<and>
     cells (nbs st') 5 = None) \<and>
   xRmtReceive (\<lambda>_ _ s. Done (False, s)) (Some 6) 5 7 (rmt_demo [] (du_seg NB_RINA_DATA [1, 2])) = Crash"
proof (intro conjI)
  have h: "header_ok (mgmt_pci n)" "xDestination (mgmt_pci n) = 0" for n
    by (simp_all add: header_ok_def mgmt_pci_def pdu_type_is_ok_def is_address_ok_def is_qos_id_ok_def
        ADDRESS_WRONG_def QOS_ID_WRONG_def)
  have a: "xAddresses (rmt_demo [] nb) = []" "nbs (rmt_demo [] nb) = nb" for nb by (simp_all add: rmt_demo_def)
  have s: "tail_seg (nbs (rmt_demo [] (du_seg t w))) t [] 5 9 0 w" for t w
    using du_seg_one [of t w] by (simp add: a(2) one_seg_tail)
  have y: "\<forall>y. Some 6 = Some y \<longrightarrow> y \<notin> set ([] @ [5 :: nat])" by simp
  note e = demo_port(1) option.case Let_def pci_of_header pci_of_header [where d = "[]", simplified] a(1)
    pdu_goes_def h(2) xRmtProcessMgmtPdu_def
  show "\<exists>nb st'. tail_seg nb NB_RINA_DATA [5] 6 9 14 [1, 2] \<and> nbs st' = nb \<and>
     xRmtReceive (\<lambda>_ _ s. Done (False, s)) (Some 6) 5 7
       (rmt_demo [] (du_seg NB_RINA_PCI (pci_bytes (mgmt_pci 16) @ [1, 2]))) = Done (False, st')"
    using pdu_received [OF demo_port(2) s [of NB_RINA_PCI "pci_bytes (mgmt_pci 16) @ [1, 2]"] y, of "\<lambda>_ _ s. Done (False, s)"] h(1) by (auto simp: e PCI_SZ_def)
  show "\<exists>st'. xRmtReceive (\<lambda>_ _ s. Done (False, s)) (Some 6) 5 7 (rmt_demo [] (du_seg NB_RINA_PCI (pci_bytes (mgmt_pci 14)))) = Done (False, st') \<and>
     cells (nbs st') 5 = None"
    using pdu_received [OF demo_port(2) s [of NB_RINA_PCI "pci_bytes (mgmt_pci 14)"] y, of "\<lambda>_ _ s. Done (False, s)"] h(1) by (auto simp: e)
  show "xRmtReceive (\<lambda>_ _ s. Done (False, s)) (Some 6) 5 7 (rmt_demo [] (du_seg NB_RINA_DATA [1, 2])) = Crash"
    using pdu_received [OF demo_port(2) s [of NB_RINA_DATA "[1, 2]"] y, of "\<lambda>_ _ s. Done (False, s)"] by (simp add: e)
qed

end
