(* ===== verification/Shim_Frames.thy ===== *)
theory Shim_Frames
  imports Shim Cuts
begin

text \<open>What goes over the wire: a DU written to the shim is put out as one Ethernet frame and all its memory is
  given back; a frame that comes in is announced to the task without its header, on the flow of the sender,
  which is made when there is none.  Together with the normal IPC process the bytes one process writes
  are those the management of its neighbour is given.\<close>

section \<open>Frames\<close>

lemma eth_bytes_length [simp]: "length d = MAC_LEN \<Longrightarrow> length s = MAC_LEN \<Longrightarrow> length (eth_bytes d s t) = ETH_SZ"
  by (simp add: eth_bytes_def MAC_LEN_def ETH_SZ_def)

lemma eth_of_bytes:
  assumes "length d = MAC_LEN" "length s = MAC_LEN"
  shows "eth_of (eth_bytes d s t @ r) = \<lparr>xDestinationAddress = d, xSourceAddress = s, usFrameType = t\<rparr>"
proof -
  have "(d @ s @ Arp.le16 t @ r) ! 12 = ucast t" "(d @ s @ Arp.le16 t @ r) ! 13 = ucast (drop_bit 8 t)"
    using assms by (simp_all add: nth_append Arp.le16_def MAC_LEN_def)
  then show ?thesis using assms by (simp add: eth_of_def eth_bytes_def le16_round)
qed

lemma swap16_swap16 [simp]: "swap16 (swap16 w) = w"
  by (rule bit_word_eqI) (auto simp: swap16_def bit_simps)

text \<open>A write to the beginning of the first segment.\<close>

lemma seg_write_front:
  assumes "cells nb x = Some c" "pxBuf c = Some (b, 0)" "bufs nb b = Some bs" "length s \<le> length bs"
  shows "seg_write nb x 0 s = Done (nb\<lparr>bufs := (bufs nb)(b \<mapsto> s @ drop (length s) bs)\<rparr>)"
  using assms by (simp add: seg_write_def mem_write_def)

section \<open>Appending\<close>

text \<open>Appending changes nothing but the links.\<close>

definition no_links :: "netbuf \<Rightarrow> netbuf" where
  "no_links c = c\<lparr>pxNext := None, pxFirst := 0\<rparr>"

lemma no_links_eq:
  "no_links c = no_links c' \<longleftrightarrow> eType c = eType c' \<and> unSz c = unSz c' \<and> pxBuf c = pxBuf c' \<and>
    pxBufStart c = pxBufStart c' \<and> xFreed c = xFreed c' \<and> freemethod c = freemethod c'"
  by (cases c; cases c') (auto simp: no_links_def)

lemma no_links_first: "no_links (c\<lparr>pxFirst := g\<rparr>) = no_links c" "no_links (c\<lparr>pxNext := n\<rparr>) = no_links c"
  by (simp_all add: no_links_eq)

lemma set_first_links:
  "bufs (foldl (set_first f) st ys) = bufs st \<and> no_links (cell (foldl (set_first f) st ys) z) = no_links (cell st z)"
proof (induction ys arbitrary: st)
  case (Cons y ys)
  have "no_links (cell (set_first f st y) z) = no_links (cell st z)" "bufs (set_first f st y) = bufs st"
    by (simp_all add: set_first_def no_links_first)
  then show ?case using Cons [of "set_first f st y"] by simp
qed simp

lemma append_links:
  assumes "vNetBufAppend st l r = Some st'"
  shows "bufs st' = bufs st \<and> no_links (cell st' z) = no_links (cell st z)"
proof -
  obtain lst nx f ys where st': "st' = foldl (set_first f) (put st lst ((cell st lst)\<lparr>pxNext := nx\<rparr>)) ys"
    using assms by (auto simp: vNetBufAppend_def Let_def split: option.splits if_splits)
  show ?thesis unfolding st' using set_first_links [of f "put st lst ((cell st lst)\<lparr>pxNext := nx\<rparr>)" ys z]
    by (simp add: no_links_first)
qed

text \<open>A new segment of its own buffer in front of a chain, and a write to that buffer.\<close>

definition front_seg :: "nat \<Rightarrow> nat \<Rightarrow> nat \<Rightarrow> nb_type \<Rightarrow> netbuf" where
  "front_seg x b n t = \<lparr>pxNext = None, pxFirst = x, eType = t, unSz = n, pxBuf = Some (b, 0), pxBufStart = Some b,
     xFreed = False, freemethod = Some FreePool\<rparr>"

lemma front_header:
  assumes "all_live st xs" "x \<notin> set xs" "\<forall>z \<in> set xs. pxBufStart (cell st z) \<noteq> Some b"
    "bufs st b = Some bs" "length s \<le> length bs"
  shows "\<exists>st2. vNetBufAppend (put st x (front_seg x b (length s) t)) x (hd xs) = Some st2 \<and>
    seg_write st2 x 0 s = Done (st2\<lparr>bufs := (bufs st)(b \<mapsto> s @ drop (length s) bs)\<rparr>) \<and>
    all_live (st2\<lparr>bufs := (bufs st)(b \<mapsto> s @ drop (length s) bs)\<rparr>) (x # xs) \<and>
    content (st2\<lparr>bufs := (bufs st)(b \<mapsto> s @ drop (length s) bs)\<rparr>) (x # xs) = s @ content st xs"
proof -
  define st1 where "st1 = put st x (front_seg x b (length s) t)"
  note d = all_live_def nb_ok_def
  have ok: "chain_ok st xs" "\<forall>z \<in> set xs. seg_ok st z" "\<forall>z \<in> set xs. \<not> xFreed (cell st z)"
    "\<forall>z \<in> set xs. freemethod (cell st z) = Some FreeNormal \<or> freemethod (cell st z) = Some FreePool"
    using assms(1) by (auto simp: d)
  have c1: "cell st1 z = cell st z" "z \<in> set xs \<Longrightarrow> cells st1 z = cells st z" if "z \<in> set xs" for z
    using that assms(2) by (auto simp: st1_def)
  have c1x: "cell st1 x = front_seg x b (length s) t" "bufs st1 = bufs st" by (simp_all add: st1_def)
  have l: "linked (cells st1) (Some (hd xs)) xs"
    using ok(1) linked_upd_out [OF assms(2)] by (simp add: st1_def chain_ok_def)
  have k1: "chain_ok st1 xs" using ok(1) l c1 by (simp add: chain_ok_def)
  have k2: "chain_ok st1 [x]" by (simp add: chain_ok_def st1_def front_seg_def)
  obtain st2 where st2: "vNetBufAppend st1 x (hd xs) = Some st2" "chain_ok st2 ([x] @ xs)"
    using append_content [OF k2 k1, of x] assms(2) ok(3) c1 c1x(1) by (auto simp: front_seg_def)
  let ?st3 = "st2\<lparr>bufs := (bufs st)(b \<mapsto> s @ drop (length s) bs)\<rparr>"
  have b2: "bufs st2 = bufs st" using append_links [OF st2(1)] c1x(2) by simp
  have lk: "no_links (cell ?st3 z) = no_links (cell st1 z)" for z
    using append_links [OF st2(1), of z] by (simp add: cell_def)
  have cx: "no_links (cell ?st3 x) = no_links (front_seg x b (length s) t)" using lk [of x] c1x(1) by simp
  have cz: "no_links (cell ?st3 z) = no_links (cell st z)" if "z \<in> set xs" for z
    using lk [of z] c1(1) [OF that] by simp
  note cx = cx [unfolded no_links_eq, simplified front_seg_def, simplified] and cz = cz [unfolded no_links_eq]
  have ch: "chain_ok ?st3 (x # xs)" using st2(2) by (simp add: chain_ok_def cell_def)
  have sx: "cells st2 x = Some (cell ?st3 x)" using chain_cell [OF ch, of x] by simp
  have w: "seg_write st2 x 0 s = Done ?st3"
    using seg_write_front [OF sx _ _ assms(5)] cx assms(4) b2 by (auto simp: front_seg_def)
  have other: "seg_ok ?st3 z \<and> seg_data ?st3 z = seg_data st z" if z: "z \<in> set xs" for z
  proof -
    obtain b' off bs' where o: "pxBuf (cell st z) = Some (b', off)" "pxBufStart (cell st z) = Some b'"
      "bufs st b' = Some bs'" "off + unSz (cell st z) \<le> length bs'" using ok(2,3) z by (auto simp: seg_ok_def)
    moreover have "b' \<noteq> b" using assms(3) z o(2) by auto
    ultimately show ?thesis using cz [OF z] by (auto simp: seg_ok_def seg_data_def)
  qed
  have front: "seg_ok ?st3 x" "seg_data ?st3 x = s" "\<not> xFreed (cell ?st3 x)" "freemethod (cell ?st3 x) = Some FreePool"
    using cx by (auto simp: seg_ok_def seg_data_def front_seg_def)
  have al: "\<not> xFreed (cell ?st3 z)" "freemethod (cell ?st3 z) = freemethod (cell st z)" if "z \<in> set xs" for z
    using cz [OF that] ok(3) that by auto
  have a: "all_live ?st3 (x # xs)" using ch front other al ok(4) by (simp add: d)
  have "live ?st3 (x # xs) = x # xs" "live st xs = xs" using front(3) al ok(3) by (simp_all add: live_def)
  then have "content ?st3 (x # xs) = s @ content st xs" using front(2) other by (simp add: content_def cong: map_cong)
  then show ?thesis using st2(1) w a st1_def by blast
qed

section \<open>Sending\<close>

text \<open>The flow of a port with the hardware address of its other end, and a header in the pool at \<open>b\<close>.\<close>

definition out_flow :: "u32 \<Rightarrow> bytes \<Rightarrow> 'a shim_state_scheme \<Rightarrow> bool" where
  "out_flow port dst st =
    (\<exists>f fl ha. prvShimFindFlowByPortId port st = Done (Some f) \<and> sflows st f = Some fl \<and> ePortIdState fl = eALLOCATED \<and>
       pxDestHa fl = Some ha \<and> xAddress ha = dst \<and> length dst = MAC_LEN \<and> length (xPhyDev st) = MAC_LEN)"

definition eth_header :: "shim_env \<Rightarrow> nat \<Rightarrow> rsrc_state \<Rightarrow> 'a shim_state_scheme \<Rightarrow> bool" where
  "eth_header env b rs1 st =
    (pxRsrcAlloc (pxEthPool st) (Some ''xShimSDUWrite'') (e_heap env) (rs st) = Ret (Some b, rs1) \<and>
     (\<exists>r. rsrcs rs1 (b - RSRC_HDR) = Some r \<and> ETH_SZ \<le> length (payload r)))"

definition rina_frame :: "bytes \<Rightarrow> bytes \<Rightarrow> bytes \<Rightarrow> bytes" where
  "rina_frame dst src w = eth_bytes dst src (swap16 ETH_P_RINA) @ w"

lemma all_live_size:
  assumes "all_live st xs" "a \<in> set xs"
  shows "unNetBufTotalSize st a = Some (length (content st xs))"
    "unNetBufRead st a 0 (length (content st xs)) = Some (content st xs)"
proof -
  have c: "chain_ok st xs" "\<forall>x \<in> set xs. seg_ok st x" using assms(1) by (auto simp: all_live_def nb_ok_def)
  show "unNetBufTotalSize st a = Some (length (content st xs))"
    using chain_of_ok [OF c(1) assms(2)] content_length [OF c(2)] by (simp add: unNetBufTotalSize_def)
  show "unNetBufRead st a 0 (length (content st xs)) = Some (content st xs)"
    using read_content [OF c assms(2)] by simp
qed

lemma all_live_lend:
  assumes "all_live nb xs" "\<forall>z \<in> set xs. pxBufStart (cell nb z) \<noteq> Some b"
  shows "all_live (lend b r nb) xs \<and> content (lend b r nb) xs = content nb xs"
proof -
  have c: "cell (lend b r nb) = cell nb" "cells (lend b r nb) = cells nb" by (simp_all add: lend_def cell_def fun_eq_iff)
  have k: "chain_ok (lend b r nb) xs = chain_ok nb xs" "live (lend b r nb) xs = live nb xs"
    by (simp_all add: chain_ok_def live_def c)
  have z: "seg_ok (lend b r nb) z \<and> seg_data (lend b r nb) z = seg_data nb z" if "z \<in> set xs" for z
  proof -
    have zz: "seg_ok nb z" "\<not> xFreed (cell nb z)" "pxBufStart (cell nb z) \<noteq> Some b"
      using assms that by (auto simp: all_live_def nb_ok_def)
    obtain b' off bs where "pxBuf (cell nb z) = Some (b', off)" "pxBufStart (cell nb z) = Some b'" "bufs nb b' = Some bs"
      "off + unSz (cell nb z) \<le> length bs" using zz(1,2) by (auto simp: seg_ok_def)
    then show ?thesis using zz(3) by (auto simp: seg_ok_def seg_data_def lend_def cell_def)
  qed
  have "live nb xs = xs" using assms(1) by (simp add: live_def all_live_def filter_id_conv)
  then have "content (lend b r nb) xs = content nb xs" using z by (simp add: content_def k cong: map_cong)
  then show ?thesis using assms(1) z k c by (simp add: all_live_def nb_ok_def)
qed

lemma shim_write:
  assumes "all_live (nbs st) xs" "length (content (nbs st) xs) \<le> MTU" "out_flow port dst st" "eth_header env b rs1 st"
    "e_gha env" "e_seg env = Some x" "x \<notin> set xs" "\<forall>z \<in> set xs. pxBufStart (cell (nbs st) z) \<noteq> Some b" "e_net env"
  shows "\<exists>nb. xShimSDUWrite env port (Some (hd xs)) st =
      Done (True, st\<lparr>rs := rs1, nbs := nb,
        sent_frames := sent_frames st @ [rina_frame dst (xPhyDev st) (content (nbs st) xs)]\<rparr>) \<and>
    (\<forall>z \<in> set (x # xs). cells nb z = None) \<and> bufs nb b = None"
proof -
  obtain f fl ha where fl: "prvShimFindFlowByPortId port st = Done (Some f)" "sflows st f = Some fl"
    "ePortIdState fl = eALLOCATED" "pxDestHa fl = Some ha" "xAddress ha = dst" "length dst = MAC_LEN"
    "length (xPhyDev st) = MAC_LEN" using assms(3) unfolding out_flow_def by blast
  obtain r where r: "pxRsrcAlloc (pxEthPool st) (Some ''xShimSDUWrite'') (e_heap env) (rs st) = Ret (Some b, rs1)"
    "rsrcs rs1 (b - RSRC_HDR) = Some r" "ETH_SZ \<le> length (payload r)" using assms(4) unfolding eth_header_def by blast
  let ?nb = "lend b rs1 (nbs st)" and ?s = "eth_bytes dst (xPhyDev st) (swap16 ETH_P_RINA)"
  have al: "all_live ?nb xs" "content ?nb xs = content (nbs st) xs" using all_live_lend [OF assms(1,8)] by simp_all
  have nf: "\<forall>z \<in> set xs. pxBufStart (cell ?nb z) \<noteq> Some b" using assms(8) by (simp add: lend_def cell_def)
  have bb: "bufs ?nb b = Some (payload r)" using r(2) by (simp add: lend_def)
  have sl: "length ?s = ETH_SZ" using fl by simp
  then have "length ?s \<le> length (payload r)" using r(3) by simp
  from front_header [OF al(1) assms(7) nf bb this, of NB_ETH_HDR] obtain st2 st3 where
    ap: "vNetBufAppend (put ?nb x (front_seg x b ETH_SZ NB_ETH_HDR)) x (hd xs) = Some st2"
    and sw: "seg_write st2 x 0 ?s = Done st3" and l3: "all_live st3 (x # xs)"
    and c3: "content st3 (x # xs) = ?s @ content ?nb xs" unfolding sl by blast
  have hd: "hd xs \<in> set xs" using assms(1) by (auto simp: all_live_def nb_ok_def chain_ok_def)
  note sz = all_live_size [OF assms(1) hd] and sz3 = all_live_size [OF l3, of x]
  have new: "pxNetBufNew (Some x) NB_ETH_HDR b ETH_SZ (Some FreePool) ?nb =
      Some (Inr (x, put ?nb x (front_seg x b ETH_SZ NB_ETH_HDR)))"
    by (simp add: pxNetBufNew_def front_seg_def ETH_SZ_def)
  have di: "distinct (x # xs)" "x \<in> set (x # xs)" using l3 by (simp_all add: all_live_def nb_ok_def chain_ok_def)
  from free_all_live [OF l3 di(1) refl di(2)] obtain nb where fr0: "free_each st3 (x # xs) = Some nb"
    "vNetBufFreeAll st3 x = free_each st3 (x # xs)"
    and fr1: "\<forall>z. cells nb z = (if z \<in> set (x # xs) then None else cells st3 z)"
    "\<forall>d. bufs nb d = (if \<exists>z \<in> set (x # xs). pxBufStart (cell st3 z) = Some d then None else bufs st3 d)" by blast
  have fr: "vNetBufFreeAll st3 x = Some nb"
    "\<forall>z. cells nb z = (if z \<in> set (x # xs) then None else cells st3 z)"
    "\<forall>d. bufs nb d = (if \<exists>z \<in> set (x # xs). pxBufStart (cell st3 z) = Some d then None else bufs st3 d)"
    using fr0 fr1 by simp_all
  have "cells st2 x = Some (cell st2 x)" "no_links (cell st2 x) = no_links (front_seg x b ETH_SZ NB_ETH_HDR)"
  proof -
    show "no_links (cell st2 x) = no_links (front_seg x b ETH_SZ NB_ETH_HDR)" using append_links [OF ap, of x] by simp
    show "cells st2 x = Some (cell st2 x)" using sw by (cases "cells st2 x") (simp_all add: seg_write_def cell_def)
  qed
  then have "pxBufStart (cell st3 x) = Some b"
    using sw by (auto simp: seg_write_def cell_def no_links_eq front_seg_def or_crash_def split: option.splits prod.splits)
  then have "bufs nb b = None" using fr(3) by auto
  moreover have "xShimSDUWrite env port (Some (hd xs)) st =
      Done (True, st\<lparr>rs := rs1, nbs := nb, sent_frames := sent_frames st @ [rina_frame dst (xPhyDev st) (content (nbs st) xs)]\<rparr>)"
    using sz assms(2,5,6,9) fl r(1) new ap sw sz3 fr(1) al(2) c3
    by (simp add: xShimSDUWrite_def Let_def pxCreateGHA_def run_crash_def output_frame_def free_all_def rina_frame_def)
  ultimately show ?thesis using fr(2) by auto
qed

section \<open>Receiving\<close>

text \<open>A frame as the driver of the interface hands it over: one segment of type \<^verbatim>\<open>NB_ETH_HDR\<close>.\<close>

definition frame_in :: "nb_state \<Rightarrow> nat \<Rightarrow> nat \<Rightarrow> nat \<Rightarrow> bytes \<Rightarrow> bool" where
  "frame_in nb a b off w = one_seg nb NB_ETH_HDR a b off w"

lemma cut_frame:
  assumes "frame_in (nbs st) a b off (eth_bytes dst src t @ w)" "length dst = MAC_LEN" "length src = MAC_LEN"
    "w \<noteq> []" "y \<noteq> a" "e_seg env = Some y"
  obtains st1 nb where "bufs st1 = bufs (nbs st)" "pxNetBufNext st1 a = Some (Some y)" "vNetBufFree st1 a = Some nb"
    "tail_seg nb NB_RINA_PCI [a] y b (off + ETH_SZ) w"
    "eth_at st1 a = Done \<lparr>xDestinationAddress = dst, xSourceAddress = src, usFrameType = t\<rparr>"
    "xNetBufSplit (e_seg env) a NB_RINA_PCI ETH_SZ (nbs st) = Some (Inr st1)"
proof -
  let ?h = "eth_bytes dst src t"
  have l: "length ?h = ETH_SZ" using assms(2,3) by simp
  have t: "tail_seg (nbs st) NB_ETH_HDR [] a b off (?h @ w)" using assms(1) by (simp add: frame_in_def one_seg_tail)
  have n: "ETH_SZ < length (?h @ w)" "y \<notin> set ([] @ [a])" using l assms(4,5) by simp_all
  from cut_tail [OF t n, of NB_RINA_PCI] obtain st1 nb where c: "xNetBufSplit (Some y) a NB_RINA_PCI ETH_SZ (nbs st) = Some (Inr st1)"
    "bufs st1 = bufs (nbs st)" "cells st1 a = Some ((cell (nbs st) a)\<lparr>unSz := ETH_SZ, pxNext := Some y\<rparr>)"
    "pxNetBufNext st1 a = Some (Some y)" "vNetBufFree st1 a = Some nb"
    "tail_seg nb NB_RINA_PCI ([] @ [a]) y b (off + ETH_SZ) (drop ETH_SZ (?h @ w))" by blast
  obtain bs where bs: "pxBuf (cell (nbs st) a) = Some (b, off)" "bufs (nbs st) b = Some bs" "off + length (?h @ w) \<le> length bs"
    "take (length (?h @ w)) (drop off bs) = ?h @ w" using t by (auto simp: tail_seg_def)
  obtain r where "drop off bs = ?h @ w @ r" using bs(4) by (metis append_assoc append_take_drop_id)
  then have "eth_at st1 a = Done \<lparr>xDestinationAddress = dst, xSourceAddress = src, usFrameType = t\<rparr>"
    using c(2,3) bs(1,2) l eth_of_bytes [OF assms(2,3)] by (simp add: eth_at_def seg_at_def)
  then show thesis using that c assms(6) l by simp
qed

text \<open>The frame is consumed: its header is freed and the rest announced at the port.\<close>

definition announced :: "'a shim_state_scheme \<Rightarrow> u32 \<Rightarrow> nat \<Rightarrow> 'a shim_state_scheme \<Rightarrow> bool" where
  "announced st port y st' =
    (ev_queue st' = ev_queue st @ [eRinaRxEvent port (Some y)] \<and> ev_places st' = ev_places st - 1)"

lemma deliver_announced:
  assumes "pxNetBufNext (nbs st) a = Some (Some y)" "vNetBufFree (nbs st) a = Some nb" "sflows st f = Some fl"
    "xIPCPTaskInitialised st" "0 < ev_places st" "e_ev env"
  shows "rina_deliver env a f st = Done (eFrameConsumed,
    st\<lparr>nbs := nb, ev_queue := ev_queue st @ [eRinaRxEvent (sf_port fl) (Some y)], ev_places := ev_places st - 1\<rparr>)"
  using assms by (simp add: rina_deliver_def xSendEventStructToIPCPTask_def Let_def)

definition mac_ha :: "bytes \<Rightarrow> gha option" where
  "mac_ha m = Some \<lparr>xType = MAC_ADDR_802_3, xAddress = m\<rparr>"

lemma source_ha:
  assumes "length src = MAC_LEN" "e_gha env"
  shows "(case pxCreateGHA (e_gha env) MAC_ADDR_802_3 src of Inl _ \<Rightarrow> None | Inr h \<Rightarrow> Some h) = mac_ha src"
  using assms by (simp add: pxCreateGHA_def mac_ha_def)

lemma frame_known:
  assumes "frame_in (nbs st) a b off (rina_frame dst src w)" "length dst = MAC_LEN" "length src = MAC_LEN"
    "w \<noteq> []" "y \<noteq> a" "e_seg env = Some y" "e_gha env" "prvShimFindFlowByGHA (mac_ha src) st = Done (Some f)"
    "sflows st f = Some fl" "xIPCPTaskInitialised st" "0 < ev_places st" "e_ev env"
  shows "\<exists>nb. vShimHandleEthernetPacket env self a st = Done (st\<lparr>nbs := nb,
      ev_queue := ev_queue st @ [eRinaRxEvent (sf_port fl) (Some y)], ev_places := ev_places st - 1\<rparr>) \<and>
    tail_seg nb NB_RINA_PCI [a] y b (off + ETH_SZ) w"
proof -
  obtain st1 nb where c: "bufs st1 = bufs (nbs st)" "pxNetBufNext st1 a = Some (Some y)" "vNetBufFree st1 a = Some nb"
    "tail_seg nb NB_RINA_PCI [a] y b (off + ETH_SZ) w"
    "eth_at st1 a = Done \<lparr>xDestinationAddress = dst, xSourceAddress = src, usFrameType = swap16 ETH_P_RINA\<rparr>"
    "xNetBufSplit (e_seg env) a NB_RINA_PCI ETH_SZ (nbs st) = Some (Inr st1)"
    using cut_frame [OF assms(1) [unfolded rina_frame_def] assms(2-6)] by blast
  let ?st = "st\<lparr>nbs := st1\<rparr>"
  have g: "prvShimFindFlowByGHA (mac_ha src) ?st = Done (Some f)" using assms(8) by (simp add: prvShimFindFlowByGHA_def)
  have d: "rina_deliver env a f ?st = Done (eFrameConsumed, st\<lparr>nbs := nb,
      ev_queue := ev_queue st @ [eRinaRxEvent (sf_port fl) (Some y)], ev_places := ev_places st - 1\<rparr>)"
    using deliver_announced [of ?st a y nb f fl env] c(2,3) assms(9-12) by simp
  have "ETH_P_RINA \<noteq> ETH_P_RINA_ARP" by (simp add: ETH_P_RINA_def ETH_P_RINA_ARP_def)
  then have "vShimHandleEthernetPacket env self a st = obind (prvShimHandleRinaFrame env self a ?st) (frame_done env a)"
    using c(5,6) by (simp add: vShimHandleEthernetPacket_def Let_def)
  also have "prvShimHandleRinaFrame env self a ?st = rina_deliver env a f ?st"
    using c(5) g source_ha [OF assms(3,7)] by (simp add: prvShimHandleRinaFrame_def Let_def)
  finally show ?thesis using d c(4) by (intro exI [of _ nb]) (simp add: frame_done_def)
qed

section \<open>From one management to the other\<close>

lemma on_port_shim [simp]:
  "xFlows (on_port a f st) = xFlows st" "sflows (on_port a f st) = sflows st" "xPhyDev (on_port a f st) = xPhyDev st"
  "pxEthPool (on_port a f st) = pxEthPool st" "rs (on_port a f st) = rs st" "nbs (on_port a f st) = nbs st"
  "sent_frames (on_port a f st) = sent_frames st" "ev_queue (on_port a f st) = ev_queue st"
  by (simp_all add: on_port_def)

lemma out_flow_cong:
  "xFlows st' = xFlows st \<Longrightarrow> sflows st' = sflows st \<Longrightarrow> xPhyDev st' = xPhyDev st \<Longrightarrow> out_flow p d st' = out_flow p d st"
  by (simp add: out_flow_def prvShimFindFlowByPortId_def)

lemma eth_header_cong:
  "pxEthPool st' = pxEthPool st \<Longrightarrow> rs st' = rs st \<Longrightarrow> eth_header env b r st' = eth_header env b r st"
  by (simp add: eth_header_def)

text \<open>A process whose management may write at \<open>port\<close>: the port is that of the shim at \<open>shim\<close> and is idle.\<close>

definition may_write :: "u32 \<Rightarrow> nat \<Rightarrow> nat \<Rightarrow> 'a shim_state_scheme \<Rightarrow> bool" where
  "may_write port shim a st =
    (is_port_id_ok port \<and> prvRmtPortFind port st = Some a \<and>
     (\<exists>pt. ports st a = Some pt \<and> unPort pt = port \<and> \<not> must_enqueue pt \<and> pxN1Ipcp pt = shim))"

text \<open>A header in the pool of PCIs at \<open>b\<close>.\<close>

definition pci_header :: "heap \<Rightarrow> nat \<Rightarrow> rsrc_state \<Rightarrow> 'a shim_state_scheme \<Rightarrow> bool" where
  "pci_header ha b rs1 st =
    (pxRsrcAlloc (xPciPool st) (Some ''Normal IPC Management PCI'') ha (rs st) = Ret (Some b, rs1) \<and>
     (\<exists>r. rsrcs rs1 (b - RSRC_HDR) = Some r \<and> PCI_SZ \<le> length (payload r)))"

lemma mgmt_to_frame:
  assumes "may_write port shim a st" "dw shim = Some (xShimSDUWrite env)"
    "one_seg (nbs st) NB_RINA_DATA du b0 off d" "freemethod (cell (nbs st) du) \<in> {Some FreeNormal, Some FreePool}"
    "PCI_SZ + length d \<le> MTU" "y \<noteq> du" "pci_header ha b rs1 st" "b \<noteq> b0"
    "out_flow port dst st" "eth_header env b1 rs2 (st\<lparr>rs := rs1\<rparr>)" "b1 \<noteq> b" "b1 \<noteq> b0"
    "e_gha env" "e_seg env = Some x" "x \<noteq> y" "x \<noteq> du" "e_net env"
  shows "\<exists>st'. xNormalMgmtDuWrite dw ha (Some y) port du st = Done (True, st') \<and>
    sent_frames st' = sent_frames st @ [rina_frame dst (xPhyDev st) (pci_bytes (mgmt_header (length d)) @ d)] \<and>
    (\<forall>z \<in> {x, y, du}. cells (nbs st') z = None)"
proof -
  obtain pt where pt: "is_port_id_ok port" "prvRmtPortFind port st = Some a" "ports st a = Some pt" "unPort pt = port"
    "\<not> must_enqueue pt" "dw (pxN1Ipcp pt) = Some (xShimSDUWrite env)" using assms(1,2) by (auto simp: may_write_def)
  obtain r where r: "pxRsrcAlloc (xPciPool st) (Some ''Normal IPC Management PCI'') ha (rs st) = Ret (Some b, rs1)"
    "rsrcs rs1 (b - RSRC_HDR) = Some r" "PCI_SZ \<le> length (payload r)" using assms(7) by (auto simp: pci_header_def)
  let ?w = "pci_bytes (mgmt_header (length d)) @ d"
  obtain nb hb where nb: "nb_ok nb [y, du]" "content nb [y, du] = ?w" "headed nb y du b hb b0 off d"
    "freemethod (cell nb y) = Some FreePool" "freemethod (cell nb du) = freemethod (cell (nbs st) du)"
    "xNormalMgmtDuWrite dw ha (Some y) port du st =
      obind (xShimSDUWrite env port (Some y) (on_port a (uxBusy_update (\<lambda>_. True)) (st\<lparr>rs := rs1, nbs := nb\<rparr>))) (\<lambda>(r, st1).
        Done (True, on_port a (stats_inc_tx (if r then 1 else 0)) (on_port a (uxBusy_update (\<lambda>_. False)) st1)))"
    using mgmt_write [where dw = dw and f = "xShimSDUWrite env", OF pt assms(3,6) r assms(8)] by blast
  let ?S = "on_port a (uxBusy_update (\<lambda>_. True)) (st\<lparr>rs := rs1, nbs := nb\<rparr>)"
  have h: "\<not> xFreed (cell nb y)" "\<not> xFreed (cell nb du)" "pxBufStart (cell nb y) = Some b" "pxBufStart (cell nb du) = Some b0"
    using nb(3) by (auto simp: headed_def cell_def)
  have al: "all_live (nbs ?S) [y, du]" using nb(1,4,5) h assms(4) by (auto simp: all_live_def)
  have "length (content (nbs ?S) [y, du]) \<le> MTU" using nb(2) assms(5) by simp
  moreover have "out_flow port dst ?S" using assms(9) by (simp add: out_flow_cong [of ?S st])
  moreover have "eth_header env b1 rs2 ?S" using assms(10) by (simp add: eth_header_cong [of ?S "st\<lparr>rs := rs1\<rparr>"])
  ultimately obtain nb2 where "xShimSDUWrite env port (Some y) ?S =
      Done (True, ?S\<lparr>rs := rs2, nbs := nb2, sent_frames := sent_frames st @ [rina_frame dst (xPhyDev st) ?w]\<rparr>)"
    "\<forall>z \<in> set [x, y, du]. cells nb2 z = None"
    using shim_write [OF al _ _ _ assms(13,14), of port dst b1 rs2] nb(2) assms(11,12,15-17) h by auto
  then show ?thesis using nb(6) by simp
qed

text \<open>A process that knows the sender: the flow at \<open>f\<close> has its hardware address and its port is bound at \<open>a\<close>.\<close>

definition knows :: "bytes \<Rightarrow> u32 \<Rightarrow> nat \<Rightarrow> 'a shim_state_scheme \<Rightarrow> bool" where
  "knows src port a st =
    (is_port_id_ok port \<and> prvRmtPortFind port st = Some a \<and>
     (\<exists>f fl. prvShimFindFlowByGHA (mac_ha src) st = Done (Some f) \<and> sflows st f = Some fl \<and> sf_port fl = port) \<and>
     xIPCPTaskInitialised st \<and> 0 < ev_places st)"

text \<open>What the management finds: the segment \<open>z\<close> holds just the data.\<close>

definition handed_over :: "'a shim_state_scheme \<Rightarrow> nat \<Rightarrow> bytes \<Rightarrow> bool" where
  "handed_over st z d =
    (\<not> xFreed (cell (nbs st) z) \<and> eType (cell (nbs st) z) = NB_RINA_DATA \<and>
     unNetBufTotalSize (nbs st) z = Some (length d) \<and> copy_from (nbs st) (cell (nbs st) z) 0 (length d) = Some d)"

lemma frame_to_mgmt:
  assumes "frame_in (nbs st) a b off (rina_frame dst src (pci_bytes (mgmt_header (length d)) @ d))"
    "length dst = MAC_LEN" "length src = MAC_LEN" "d \<noteq> []" "knows src port p st"
    "y \<noteq> a" "e_seg env = Some y" "e_gha env" "e_ev env" "z \<notin> {a, y}"
  shows "\<exists>st1 st2. vShimHandleEthernetPacket env self a st = Done st1 \<and>
    ev_queue st1 = ev_queue st @ [eRinaRxEvent port (Some y)] \<and>
    xNormalDuEnqueue rib (Some z) port y st1 = xRmtProcessMgmtPdu (xNormalMgmtDuPost rib) port (Some z) st2 \<and>
    handed_over st2 z d"
proof -
  obtain f fl where k: "is_port_id_ok port" "prvRmtPortFind port st = Some p"
    "prvShimFindFlowByGHA (mac_ha src) st = Done (Some f)" "sflows st f = Some fl" "sf_port fl = port"
    "xIPCPTaskInitialised st" "0 < ev_places st" using assms(5) by (auto simp: knows_def)
  let ?w = "pci_bytes (mgmt_header (length d)) @ d"
  have "?w \<noteq> []" using assms(4) by simp
  from frame_known [OF assms(1-3) this assms(6-8) k(3,4,6,7) assms(9)] obtain nb where nb:
    "vShimHandleEthernetPacket env self a st = Done (st\<lparr>nbs := nb,
      ev_queue := ev_queue st @ [eRinaRxEvent port (Some y)], ev_places := ev_places st - 1\<rparr>)"
    "tail_seg nb NB_RINA_PCI [a] y b (off + ETH_SZ) ?w" using k(5) by blast
  let ?st = "st\<lparr>nbs := nb, ev_queue := ev_queue st @ [eRinaRxEvent port (Some y)], ev_places := ev_places st - 1\<rparr>"
  have "prvRmtPortFind port ?st = Some p" using k(2) by (simp add: prvRmtPortFind_def port_no_def)
  moreover have "z \<notin> set ([a] @ [y])" using assms(10) by simp
  ultimately obtain st2 where st2: "cut_tail_off ?st p [a] y z b (off + ETH_SZ) d st2"
    "xRmtReceive (xNormalMgmtDuPost rib) (Some z) y port ?st = rmt_dispatch (xNormalMgmtDuPost rib) (mgmt_header (length d)) port (Some z) st2"
    using receive_tail [OF k(1), of ?st p "[a]" y b "off + ETH_SZ" "mgmt_header (length d)" d z "xNormalMgmtDuPost rib"]
      nb(2) assms(4) mgmt_header_ok(1) by auto
  obtain nb2 where t: "nbs st2 = nb2" "tail_seg nb2 NB_RINA_DATA ([a] @ [y]) z b (off + ETH_SZ + PCI_SZ) d"
    using st2(1) by (auto simp: cut_tail_off_def)
  have "handed_over st2 z d"
    using t(2) tail_parts(5) [OF t(2)] tail_copy [OF t(2), of "length d"] unfolding handed_over_def t(1) tail_seg_def by auto
  moreover have "xNormalDuEnqueue rib (Some z) port y ?st = xRmtProcessMgmtPdu (xNormalMgmtDuPost rib) port (Some z) st2"
    using st2(2) by (simp add: xNormalDuEnqueue_def rmt_dispatch_def mgmt_header_ok)
  ultimately show ?thesis using nb(1) by (intro exI [of _ ?st] exI [of _ st2]) simp
qed

text \<open>C5. Management data over Ethernet, from one process to the other.  Writing data to a port of the shim puts
  out one frame: the hardware address of the flow, that of the interface, the type of RINA in the order of
  the network, the management header and the data; the segments of the data and of both headers are all
  released.  A neighbour that is given this frame, and that knows the sender by a flow whose port is bound,
  announces it at that port, and when its task takes the announced DU from there, its management is given
  exactly the data.\<close>
theorem wire_roundtrip:
  fixes S :: "'a shim_state_scheme" and R :: "'b shim_state_scheme"
  assumes "may_write port shim a S" "dw shim = Some (xShimSDUWrite env)"
    "one_seg (nbs S) NB_RINA_DATA du b0 off d" "freemethod (cell (nbs S) du) \<in> {Some FreeNormal, Some FreePool}"
    "PCI_SZ + length d \<le> MTU" "d \<noteq> []" "y \<noteq> du" "pci_header ha b rs1 S" "b \<noteq> b0"
    "out_flow port dst S" "eth_header env b1 rs2 (S\<lparr>rs := rs1\<rparr>)" "b1 \<notin> {b, b0}"
    "e_gha env" "e_seg env = Some x" "x \<notin> {y, du}" "e_net env"
    and "knows (xPhyDev S) port' p R" "e_seg env' = Some y'" "e_gha env'" "e_ev env'" "y' \<noteq> a'" "z' \<notin> {a', y'}"
  shows "\<exists>S' fr. xNormalMgmtDuWrite dw ha (Some y) port du S = Done (True, S') \<and> sent_frames S' = sent_frames S @ [fr] \<and>
    (\<forall>z \<in> {x, y, du}. cells (nbs S') z = None) \<and>
    (frame_in (nbs R) a' b' off' fr \<longrightarrow>
      (\<exists>R1 R2. vShimHandleEthernetPacket env' self a' R = Done R1 \<and>
         ev_queue R1 = ev_queue R @ [eRinaRxEvent port' (Some y')] \<and>
         xNormalDuEnqueue rib (Some z') port' y' R1 = xRmtProcessMgmtPdu (xNormalMgmtDuPost rib) port' (Some z') R2 \<and>
         handed_over R2 z' d))"
proof -
  have l: "length dst = MAC_LEN" "length (xPhyDev S) = MAC_LEN" using assms(10) by (auto simp: out_flow_def)
  let ?fr = "rina_frame dst (xPhyDev S) (pci_bytes (mgmt_header (length d)) @ d)"
  have b: "b1 \<noteq> b" "b1 \<noteq> b0" "x \<noteq> y" "x \<noteq> du" using assms(12,15) by simp_all
  obtain S' where "xNormalMgmtDuWrite dw ha (Some y) port du S = Done (True, S')" "sent_frames S' = sent_frames S @ [?fr]"
    "\<forall>z \<in> {x, y, du}. cells (nbs S') z = None"
    using mgmt_to_frame [where dw = dw and env = env, OF assms(1-5,7-11) b(1,2) assms(13,14) b(3,4) assms(16)] by blast
  moreover have "frame_in (nbs R) a' b' off' ?fr \<longrightarrow>
      (\<exists>R1 R2. vShimHandleEthernetPacket env' self a' R = Done R1 \<and>
         ev_queue R1 = ev_queue R @ [eRinaRxEvent port' (Some y')] \<and>
         xNormalDuEnqueue rib (Some z') port' y' R1 = xRmtProcessMgmtPdu (xNormalMgmtDuPost rib) port' (Some z') R2 \<and>
         handed_over R2 z' d)"
    using frame_to_mgmt [OF _ l assms(6,17,21,18-20,22)] by blast
  ultimately show ?thesis by blast
qed

section \<open>An example\<close>

definition two_pools :: rsrc_state where
  "two_pools = (sample_state [])\<lparr>pools := [100 \<mapsto> (sample_pool [])\<lparr>pxFreelist := [500], uiNumFree := 1\<rparr>,
       101 \<mapsto> (sample_pool [])\<lparr>pxFreelist := [600], uiNumFree := 1\<rparr>],
     rsrcs := [500 \<mapsto> new_rsrc (replicate 16 0), 600 \<mapsto> new_rsrc (replicate 16 0)]\<rparr>"

lemma two_pools_alloc:
  "\<exists>rs1 rs2 r r2. pxRsrcAlloc (Some 100) (Some ''Normal IPC Management PCI'') (sample_heap 1000) two_pools = Ret (Some 532, rs1) \<and>
     rsrcs rs1 500 = Some r \<and> PCI_SZ \<le> length (payload r) \<and>
     pxRsrcAlloc (Some 101) (Some ''xShimSDUWrite'') (sample_heap 1000) rs1 = Ret (Some 632, rs2) \<and>
     rsrcs rs2 600 = Some r2 \<and> ETH_SZ \<le> length (payload r2)"
  by (simp add: pxRsrcAlloc_def pxRsrcVarAlloc_def two_pools_def sample_state_def sample_pool_def refused_def
      take_first_def new_rsrc_def RSRC_HDR_def PCI_SZ_def ETH_SZ_def Let_def mem_set_def helped_def)

text \<open>A shim at 90 with the interface \<open>me\<close> and one flow, of port 7, to \<open>other\<close>.\<close>

definition shim_demo :: "gha \<Rightarrow> gha \<Rightarrow> nb_state \<Rightarrow> shim_state" where
  "shim_demo me other nb = task_state.extend (add_instances [90, 91] (task_demo two_pools nb))
     (shim_state.fields ((replicate MAX_SHIM_FLOWS None)[7 := Some 40])
        [40 \<mapsto> \<lparr>pxDestHa = Some other, pxDestPa = None, sf_port = 7, ePortIdState = eALLOCATED\<rparr>]
        [] (xAddress me) (Some 101) None Unset None Unset None None None [])"

definition env_demo :: "nat \<Rightarrow> shim_env" where
  "env_demo n = \<lparr>e_flow = Some 41, e_n1 = Some 61, e_seg = Some n, e_seg2 = Some (n + 1), e_buf = Some 10, e_me = False, e_ev = True,
     e_gha = True, e_heap = sample_heap 1000, e_arp = ample_mem, e_net = True\<rparr>"

lemmas shim_demo_defs = shim_demo_def task_demo_def add_instances_def shim_state.defs task_state.defs normal_state.defs
  normal_demo_def vIpcManagerAdd_def

lemma shim_demo_nbs [simp]: "nbs (shim_demo me other nb) = nb"
  by (simp add: shim_demo_defs split: option.split)

lemma shim_demo_rs: "rs (shim_demo me other nb) = two_pools" "xPciPool (shim_demo me other nb) = Some 100"
  "pxEthPool (shim_demo me other nb) = Some 101"
  by (simp_all add: shim_demo_defs split: option.split)

lemma shim_demo_port: "prvRmtPortFind 7 (shim_demo me other nb) = Some 60" "ports (shim_demo me other nb) 60 = Some a_port"
  "unPort a_port = 7" "\<not> must_enqueue a_port" "pxN1Ipcp a_port = 90"
  by (simp_all add: prvRmtPortFind_def port_no_def shim_demo_defs a_port_def pxRmtN1PortCreate_def must_enqueue_def
      split: option.split)

lemma shim_demo_flow:
  "prvShimFindFlowByPortId 7 (shim_demo me other nb) = Done (Some 40)"
  "xFlows (shim_demo me other nb) = (replicate MAX_SHIM_FLOWS None)[7 := Some 40]"
  "sflows (shim_demo me other nb) = [40 \<mapsto> \<lparr>pxDestHa = Some other, pxDestPa = None, sf_port = 7, ePortIdState = eALLOCATED\<rparr>]"
  "xPhyDev (shim_demo me other nb) = xAddress me" "sent_frames (shim_demo me other nb) = []"
  by (simp_all add: shim_demo_defs prvShimFindFlowByPortId_def MAX_SHIM_FLOWS_def split: option.split)

lemma shim_demo_task: "xIPCPTaskInitialised (shim_demo me other nb)" "ev_queue (shim_demo me other nb) = []"
  "ev_places (shim_demo me other nb) = EVENT_QUEUE_MAX"
  by (simp_all add: shim_demo_defs split: option.split)

lemma gha_loop_skip: "gha_loop ha fl (replicate n None @ ps) = gha_loop ha fl ps"
  by (induction n) simp_all

lemma shim_demo_gha:
  assumes "xGHACmp (Some other) (Some ha)"
  shows "prvShimFindFlowByGHA (Some ha) (shim_demo me other nb) = Done (Some 40)"
proof -
  have "(replicate MAX_SHIM_FLOWS None)[7 := Some 40] = replicate 7 None @ Some 40 # replicate 248 (None :: nat option)"
    by (simp add: MAX_SHIM_FLOWS_def list_update_append numeral_eq_Suc)
  then show ?thesis using assms by (simp add: prvShimFindFlowByGHA_def shim_demo_flow gha_loop_skip)
qed

lemma shim_demo_ready:
  "may_write 7 90 60 (shim_demo mac_a mac_b nb)" "out_flow 7 (xAddress mac_b) (shim_demo mac_a mac_b nb)"
  "knows (xAddress mac_a) 7 60 (shim_demo mac_b mac_a nb)"
proof -
  show "may_write 7 90 60 (shim_demo mac_a mac_b nb)"
    by (simp add: may_write_def shim_demo_port is_port_id_ok_def PORT_ID_WRONG_def)
  show "out_flow 7 (xAddress mac_b) (shim_demo mac_a mac_b nb)"
    by (simp add: out_flow_def shim_demo_flow) (simp add: mac_a_def mac_b_def MAC_LEN_def)
  have "mac_ha (xAddress mac_a) = Some mac_a" "xGHACmp (Some mac_a) (Some mac_a)"
    by (simp_all add: mac_ha_def mac_a_def xGHACmp_def xIsGHAOK_def)
  then show "knows (xAddress mac_a) 7 60 (shim_demo mac_b mac_a nb)"
    by (simp add: knows_def shim_demo_port shim_demo_gha shim_demo_flow shim_demo_task EVENT_QUEUE_MAX_def
        is_port_id_ok_def PORT_ID_WRONG_def)
qed

lemma wire_roundtrip_witness:
  "\<exists>S' fr. xNormalMgmtDuWrite [90 \<mapsto> xShimSDUWrite (env_demo 6)] (sample_heap 1000) (Some 4) 7 5
      (shim_demo mac_a mac_b (du_seg NB_RINA_DATA [1, 2])) = Done (True, S') \<and> sent_frames S' = [fr] \<and>
    (\<exists>R1. vShimHandleEthernetPacket (env_demo 6) 90 5 (shim_demo mac_b mac_a (du_seg NB_ETH_HDR fr)) = Done R1 \<and>
      ev_queue R1 = [eRinaRxEvent 7 (Some 6)])"
proof -
  let ?S = "shim_demo mac_a mac_b (du_seg NB_RINA_DATA [1, 2])" and ?env = "env_demo 6"
  let ?R = "\<lambda>fr. shim_demo mac_b mac_a (du_seg NB_ETH_HDR fr)"
  obtain rs1 rs2 r r2 where p: "pxRsrcAlloc (Some 100) (Some ''Normal IPC Management PCI'') (sample_heap 1000) two_pools = Ret (Some 532, rs1)"
    "rsrcs rs1 500 = Some r" "PCI_SZ \<le> length (payload r)"
    "pxRsrcAlloc (Some 101) (Some ''xShimSDUWrite'') (sample_heap 1000) rs1 = Ret (Some 632, rs2)"
    "rsrcs rs2 600 = Some r2" "ETH_SZ \<le> length (payload r2)" using two_pools_alloc by blast
  have h: "pci_header (sample_heap 1000) 532 rs1 ?S" "eth_header ?env 632 rs2 (?S\<lparr>rs := rs1\<rparr>)"
    using p by (simp_all add: pci_header_def eth_header_def shim_demo_rs RSRC_HDR_def env_demo_def)
  have o: "one_seg (nbs ?S) NB_RINA_DATA 5 9 0 [1, 2]" "freemethod (cell (nbs ?S) 5) \<in> {Some FreeNormal, Some FreePool}"
    by (simp_all add: du_seg_one) (simp add: du_seg_def cell_def)
  have e: "e_gha ?env" "e_seg ?env = Some 6" "e_net ?env" "e_ev ?env" by (simp_all add: env_demo_def)
  have dw: "[90 \<mapsto> xShimSDUWrite ?env] 90 = Some (xShimSDUWrite ?env)" by simp
  have n: "PCI_SZ + length [1, 2 :: u8] \<le> MTU" "[1, 2 :: u8] \<noteq> []" "(4 :: nat) \<noteq> 5" "(532 :: nat) \<noteq> 9" "(632 :: nat) \<notin> {532, 9}"
    "(6 :: nat) \<notin> {4, 5}" "(6 :: nat) \<noteq> 5" "(7 :: nat) \<notin> {5, 6}" by (simp_all add: PCI_SZ_def MTU_def)
  note q = wire_roundtrip [where dw = "[90 \<mapsto> xShimSDUWrite ?env]" and env = ?env and env' = ?env and self = 90
      and rib = "\<lambda>_ _ s. Done (True, s)" and b' = 9 and off' = 0,
      OF shim_demo_ready(1) dw o n(1-3) h(1) n(4) shim_demo_ready(2) h(2) n(5) e(1,2) n(6) e(3) _ e(2,1,4) n(7,8)]
  have k: "knows (xPhyDev ?S) 7 60 (?R fr)" for fr using shim_demo_ready(3) by (simp add: shim_demo_flow)
  have "\<exists>S'. xNormalMgmtDuWrite [90 \<mapsto> xShimSDUWrite ?env] (sample_heap 1000) (Some 4) 7 5 ?S = Done (True, S') \<and>
      (\<exists>fr. sent_frames S' = [fr])"
    using q [OF k, of "[]"] unfolding shim_demo_flow(5) append_Nil by blast
  then obtain S' fr where S': "xNormalMgmtDuWrite [90 \<mapsto> xShimSDUWrite ?env] (sample_heap 1000) (Some 4) 7 5 ?S = Done (True, S')"
    "sent_frames S' = [fr]" by blast
  have f: "frame_in (nbs (?R fr)) 5 9 0 fr" using du_seg_one by (simp add: frame_in_def)
  show ?thesis using q [OF k, of fr] S' f by (auto simp: shim_demo_flow(5) shim_demo_task(2))
qed

end
