(* ===== verification/Shim_Flows.thy ===== *)
theory Shim_Flows
  imports Shim_Frames Normal_Steps
begin

text \<open>The flows and the names of the shim: a frame of a stranger opens a flow, a flow that is asked for is not
  kept, one that is given up leaves its row behind, and a registered application can be found by its
  neighbours.\<close>

section \<open>Strangers\<close>

lemma gha_loop_new:
  assumes "gha_loop ha fl ps = Done None" "fl f = None" "fl' f = Some g" "\<And>a. a \<noteq> f \<Longrightarrow> fl' a = fl a"
    "xGHACmp (pxDestHa g) ha" "i < length ps"
  shows "gha_loop ha fl' (ps[i := Some f]) = Done (Some f)"
  using assms
proof (induction ps arbitrary: i)
  case (Cons p ps)
  show ?case
  proof (cases i)
    case 0
    then show ?thesis using Cons.prems by simp
  next
    case (Suc k)
    then have "gha_loop ha fl ps = Done None"
      using Cons.prems(1) by (cases p) (auto simp: or_crash_def split: option.splits if_splits)
    then have "gha_loop ha fl' (ps[k := Some f]) = Done (Some f)" using Cons.IH Cons.prems(2-6) Suc by simp
    note r = this
    show ?thesis
    proof (cases p)
      case (Some a)
      then obtain x where x: "fl a = Some x" "\<not> xGHACmp (pxDestHa x) ha"
        using Cons.prems(1) by (auto simp: or_crash_def split: option.splits if_splits)
      then have "a \<noteq> f" using Cons.prems(2) by auto
      then show ?thesis using r x Suc Some Cons.prems(4) [of a] by simp
    qed (use r Suc in simp)
  qed
qed simp

lemma find_type_cong:
  "ipcps st' = ipcps st \<Longrightarrow> xIpcpTable st' = xIpcpTable st \<Longrightarrow> pxIpcManagerFindByType t st' = pxIpcManagerFindByType t st"
  by (simp add: pxIpcManagerFindByType_def)

lemma port_find_cong: "ports st' = ports st \<Longrightarrow> xPorts st' = xPorts st \<Longrightarrow> prvRmtPortFind k st' = prvRmtPortFind k st"
  unfolding prvRmtPortFind_def port_no_def by simp

lemma small_port_ok: "unat port < 256 \<Longrightarrow> is_port_id_ok port"
proof -
  have "unat (- 1 :: u32) = 4294967295" by (simp add: unsigned_minus_1_eq_mask mask_eq_exp_minus_1)
  then show "unat port < 256 \<Longrightarrow> is_port_id_ok port" by (auto simp: is_port_id_ok_def PORT_ID_WRONG_def)
qed

text \<open>The state after a flow was made for the sender \<open>src\<close>: the flow at \<open>f\<close> in the row of its port, which is
  bound to the shim at \<open>self\<close> by the N-1 port at \<open>p\<close>.\<close>

definition with_flow :: "bytes \<Rightarrow> u32 \<Rightarrow> nat \<Rightarrow> nat \<Rightarrow> nat \<Rightarrow> num_mgr \<Rightarrow> 'a shim_state_scheme \<Rightarrow> 'a shim_state_scheme" where
  "with_flow src port f p self im st = st\<lparr>pxPidm := im,
     sflows := (sflows st)(f \<mapsto> \<lparr>pxDestHa = mac_ha src, pxDestPa = None, sf_port = port, ePortIdState = eALLOCATED\<rparr>),
     xFlows := (xFlows st)[unat port := Some f],
     ports := (ports st)(p \<mapsto> pxRmtN1PortCreate port self), xPorts := second p (xPorts st)\<rparr>"

definition stranger :: "shim_env \<Rightarrow> bytes \<Rightarrow> u32 \<Rightarrow> nat \<Rightarrow> nat \<Rightarrow> num_mgr \<Rightarrow> 'a shim_state_scheme \<Rightarrow> bool" where
  "stranger env src port f p im st =
    (prvShimFindFlowByGHA (mac_ha src) st = Done None \<and> e_flow env = Some f \<and> sflows st f = None \<and>
     reserve (pxPidm st) = Done (port, im) \<and> unat port < length (xFlows st) \<and> length (xFlows st) = MAX_SHIM_FLOWS \<and>
     prvRmtPortFind port st = None \<and> e_n1 env = Some p \<and>
     (\<exists>i. pxIpcManagerFindByType eNormal st = Done (Some i)))"

lemma new_flow:
  assumes "stranger env src port f p im st"
  shows "new_shim_flow env self (mac_ha src) f st = Done (True, with_flow src port f p self im st)"
proof -
  note a = assms [unfolded stranger_def]
  let ?st1 = "st\<lparr>pxPidm := im\<rparr>"
  let ?st2 = "?st1\<lparr>sflows := (sflows st)(f \<mapsto> \<lparr>pxDestHa = mac_ha src, pxDestPa = None, sf_port = port, ePortIdState = eALLOCATED\<rparr>),
     xFlows := (xFlows st)[unat port := Some f]\<rparr>"
  have r: "unIpcManagerReservePort st = Done (port, ?st1)" using a by (simp add: unIpcManagerReservePort_def)
  obtain i where t: "pxIpcManagerFindByType eNormal ?st2 = Done (Some i)"
    using a find_type_cong [of ?st2 st eNormal] by auto
  have p: "prvRmtPortFind port ?st2 = None" using a port_find_cong [of ?st2 st port] by simp
  have k: "is_port_id_ok port" using a small_port_ok by (simp add: MAX_SHIM_FLOWS_def)
  have "xNormalFlowBinding (e_n1 env) port (Some self) ?st2 =
      Done (True, ?st2\<lparr>ports := (ports st)(p \<mapsto> pxRmtN1PortCreate port self), xPorts := second p (xPorts st)\<rparr>)"
    using a p k by (simp add: xNormalFlowBinding_def xRmtN1PortBind_def)
  then show ?thesis using a r t by (simp add: new_shim_flow_def with_flow_def)
qed

lemma frame_new:
  assumes "frame_in (nbs st) a b off (rina_frame dst src w)" "length dst = MAC_LEN" "length src = MAC_LEN"
    "w \<noteq> []" "y \<noteq> a" "e_seg env = Some y" "e_gha env" "stranger env src port f p im st"
    "xIPCPTaskInitialised st" "0 < ev_places st" "e_ev env"
  shows "\<exists>nb. vShimHandleEthernetPacket env self a st = Done ((with_flow src port f p self im st)\<lparr>nbs := nb,
      ev_queue := ev_queue st @ [eRinaRxEvent port (Some y)], ev_places := ev_places st - 1\<rparr>) \<and>
    tail_seg nb NB_RINA_PCI [a] y b (off + ETH_SZ) w"
proof -
  obtain st1 nb where c: "bufs st1 = bufs (nbs st)" "pxNetBufNext st1 a = Some (Some y)" "vNetBufFree st1 a = Some nb"
    "tail_seg nb NB_RINA_PCI [a] y b (off + ETH_SZ) w"
    "eth_at st1 a = Done \<lparr>xDestinationAddress = dst, xSourceAddress = src, usFrameType = swap16 ETH_P_RINA\<rparr>"
    "xNetBufSplit (e_seg env) a NB_RINA_PCI ETH_SZ (nbs st) = Some (Inr st1)"
    using cut_frame [OF assms(1) [unfolded rina_frame_def] assms(2-6)] by blast
  let ?st = "st\<lparr>nbs := st1\<rparr>"
  have s: "stranger env src port f p im ?st"
    using assms(8) find_type_cong [of ?st st eNormal] port_find_cong [of ?st st port]
    by (simp add: stranger_def prvShimFindFlowByGHA_def)
  let ?w = "with_flow src port f p self im ?st"
  have nb: "pxNetBufNext (nbs ?w) a = Some (Some y)" "vNetBufFree (nbs ?w) a = Some nb"
    "sflows ?w f = Some \<lparr>pxDestHa = mac_ha src, pxDestPa = None, sf_port = port, ePortIdState = eALLOCATED\<rparr>"
    "xIPCPTaskInitialised ?w" "0 < ev_places ?w"
    using c(2,3) assms(9,10) by (simp_all add: with_flow_def)
  have d: "rina_deliver env a f ?w = Done (eFrameConsumed, (with_flow src port f p self im st)\<lparr>nbs := nb,
      ev_queue := ev_queue st @ [eRinaRxEvent port (Some y)], ev_places := ev_places st - 1\<rparr>)"
    using deliver_announced [OF nb assms(11)] by (simp add: with_flow_def)
  have "ETH_P_RINA \<noteq> ETH_P_RINA_ARP" by (simp add: ETH_P_RINA_def ETH_P_RINA_ARP_def)
  then have "vShimHandleEthernetPacket env self a st = obind (prvShimHandleRinaFrame env self a ?st) (frame_done env a)"
    using c(5,6) by (simp add: vShimHandleEthernetPacket_def Let_def)
  also have "prvShimHandleRinaFrame env self a ?st = rina_deliver env a f ?w"
    using c(5) source_ha [OF assms(3,7)] new_flow [OF s, of self] s
    by (simp add: prvShimHandleRinaFrame_def Let_def stranger_def)
  finally show ?thesis using d c(4) by (intro exI [of _ nb]) (simp add: frame_done_def)
qed

text \<open>C18. The first frame of a neighbour the shim does not know.  It gets the next free port: a flow to its
  hardware address is put into the row of that port, the port is bound to the shim, the frame is
  announced there without its header, and from then on the neighbour is known, so that the next frame is
  announced at the same port and data written there goes back to it.\<close>
theorem stranger_gets_flow:
  assumes "frame_in (nbs st) a b off (rina_frame dst src w)" "length dst = MAC_LEN" "length src = MAC_LEN"
    "w \<noteq> []" "y \<noteq> a" "e_seg env = Some y" "e_gha env" "stranger env src port f p im st" "ports_ok st" "no_port st p"
    "xIPCPTaskInitialised st" "1 < ev_places st" "e_ev env" "length (xPhyDev st) = MAC_LEN"
  shows "\<exists>st'. vShimHandleEthernetPacket env self a st = Done st' \<and>
    ev_queue st' = ev_queue st @ [eRinaRxEvent port (Some y)] \<and> tail_seg (nbs st') NB_RINA_PCI [a] y b (off + ETH_SZ) w \<and>
    knows src port p st' \<and> out_flow port src st' \<and> may_write port self p st' \<and> ports_ok st'"
proof -
  have "0 < ev_places st" using assms(12) by simp
  from frame_new [OF assms(1-8,11) this assms(13)] obtain nb where
    v: "vShimHandleEthernetPacket env self a st = Done ((with_flow src port f p self im st)\<lparr>nbs := nb,
      ev_queue := ev_queue st @ [eRinaRxEvent port (Some y)], ev_places := ev_places st - 1\<rparr>)"
    and t: "tail_seg nb NB_RINA_PCI [a] y b (off + ETH_SZ) w" by blast
  let ?st = "(with_flow src port f p self im st)\<lparr>nbs := nb,
      ev_queue := ev_queue st @ [eRinaRxEvent port (Some y)], ev_places := ev_places st - 1\<rparr>"
  let ?fl = "\<lparr>pxDestHa = mac_ha src, pxDestPa = None, sf_port = port, ePortIdState = eALLOCATED\<rparr>"
  note s = assms(8) [unfolded stranger_def]
  have k: "is_port_id_ok port" using s small_port_ok by (simp add: MAX_SHIM_FLOWS_def)
  have fl: "sflows ?st f = Some ?fl" "xFlows ?st ! unat port = Some f" "unat port < length (xFlows ?st)"
    using s by (simp_all add: with_flow_def)
  have "xGHACmp (pxDestHa ?fl) (mac_ha src)" by (simp add: mac_ha_def xGHACmp_def xIsGHAOK_def)
  then have g: "prvShimFindFlowByGHA (mac_ha src) ?st = Done (Some f)"
    using gha_loop_new [of "mac_ha src" "sflows st" "xFlows st" f "sflows ?st" ?fl "unat port"] s
    by (simp add: prvShimFindFlowByGHA_def with_flow_def)
  let ?bound = "st\<lparr>ports := (ports st)(p \<mapsto> pxRmtN1PortCreate port self), xPorts := second p (xPorts st)\<rparr>"
  have bp: "bind_port self p port st = (True, ?bound)"
    using bind_port_cases [OF k, of p self st] s by (simp del: not_None_eq)
  have pf: "prvRmtPortFind port ?st = Some p"
    using bind_find [OF assms(9) k assms(10), of port self] bp s port_find_cong [of ?st ?bound port]
    by (simp add: with_flow_def)
  have po: "ports_ok ?st"
    using bind_ok [OF assms(9) k assms(10), of self] bp ports_ok_same [of ?st ?bound] by (simp add: with_flow_def)
  have "knows src port p ?st" using g fl(1) pf k assms(11,12) by (simp add: knows_def with_flow_def)
  moreover have "out_flow port src ?st" using fl assms(3,14)
    by (simp add: out_flow_def prvShimFindFlowByPortId_def mac_ha_def) (simp add: with_flow_def)
  moreover have "may_write port self p ?st" using pf k
    by (simp add: may_write_def) (simp add: with_flow_def pxRmtN1PortCreate_def must_enqueue_def)
  ultimately show ?thesis using v t po by (intro exI [of _ ?st]) (simp add: with_flow_def)
qed

lemma first_port: "\<exists>im. reserve (the (pxNumMgrCreate True True MAX_PORT_ID)) = Done (1, im)"
proof -
  have "\<not> xBitArrayGetBit (\<lparr>nbbits = 2048, units = replicate 65 0\<rparr>) 1"
    by (simp add: xBitArrayGetBit_def bit_of_def unit_of_def BITS_PER_UNIT_def)
  then show ?thesis
    by (simp add: pxNumMgrCreate_def xNumMgrInit_def MAX_PORT_ID_def UINT_MAX_def pxBitArrayAlloc_def BITS_PER_UNIT_def
        reserve_def ulNumMgrAllocate_def) (subst alloc_loop.simps, simp add: Let_def)
qed

definition mac_c :: bytes where "mac_c = [2, 0, 0, 0, 0, 9]"

lemma demo_stranger: "\<exists>im. stranger (env_demo 6) mac_c 1 41 61 im (shim_demo mac_b mac_a nb)"
proof -
  have "(replicate MAX_SHIM_FLOWS None)[7 := Some 40] = replicate 7 None @ Some 40 # replicate 248 (None :: nat option)"
    by (simp add: MAX_SHIM_FLOWS_def list_update_append numeral_eq_Suc)
  moreover have "\<not> xGHACmp (Some mac_a) (mac_ha mac_c)"
    by (simp add: mac_ha_def mac_a_def mac_c_def xGHACmp_def xIsGHAOK_def MAC_LEN_def)
  moreover have "gha_loop (mac_ha mac_c) fl (replicate 248 None) = Done None" for fl
    using gha_loop_skip [of _ _ 248 "[]"] by simp
  ultimately have "prvShimFindFlowByGHA (mac_ha mac_c) (shim_demo mac_b mac_a nb) = Done None"
    by (simp add: prvShimFindFlowByGHA_def shim_demo_flow gha_loop_skip)
  moreover have "pxPidm (shim_demo mac_b mac_a nb) = the (pxNumMgrCreate True True MAX_PORT_ID)"
    by (simp add: shim_demo_defs split: option.split)
  moreover have "prvRmtPortFind 1 (shim_demo mac_b mac_a nb) = None"
    by (simp add: prvRmtPortFind_def port_no_def shim_demo_defs a_port_def pxRmtN1PortCreate_def split: option.split)
  moreover have "pxIpcManagerFindByType eNormal (shim_demo mac_b mac_a nb) = Done (Some 91)"
    by (simp add: pxIpcManagerFindByType_def shim_demo_defs CFG_INSTANCES_IPCP_ENTRIES_def numeral_eq_Suc)
  ultimately show ?thesis using first_port
    by (auto simp: stranger_def env_demo_def shim_demo_flow MAX_SHIM_FLOWS_def)
qed

lemma stranger_gets_flow_witness:
  "\<exists>st'. vShimHandleEthernetPacket (env_demo 6) 90 5
      (shim_demo mac_b mac_a (du_seg NB_ETH_HDR (rina_frame (xAddress mac_b) mac_c [1, 2]))) = Done st' \<and>
    ev_queue st' = [eRinaRxEvent 1 (Some 6)] \<and> out_flow 1 mac_c st'"
proof -
  let ?fr = "rina_frame (xAddress mac_b) mac_c [1, 2]"
  let ?R = "shim_demo mac_b mac_a (du_seg NB_ETH_HDR ?fr)"
  obtain im where s: "stranger (env_demo 6) mac_c 1 41 61 im ?R" using demo_stranger by blast
  have f: "frame_in (nbs ?R) 5 9 0 ?fr" using du_seg_one by (simp add: frame_in_def)
  have l: "length (xAddress mac_b) = MAC_LEN" "length mac_c = MAC_LEN" "length (xPhyDev ?R) = MAC_LEN"
    by (simp_all add: shim_demo_flow) (simp_all add: mac_b_def mac_c_def MAC_LEN_def)
  have e: "e_gha (env_demo 6)" "e_seg (env_demo 6) = Some 6" "e_ev (env_demo 6)" by (simp_all add: env_demo_def)
  have p: "ports_ok ?R" "no_port ?R 61"
    by (simp_all add: ports_ok_def no_port_def port_no_def shim_demo_defs a_port_def pxRmtN1PortCreate_def is_port_id_ok_def
        PORT_ID_WRONG_def split: option.split)
  have "1 < ev_places ?R" by (simp add: shim_demo_task EVENT_QUEUE_MAX_def)
  with stranger_gets_flow [OF f l(1,2) _ _ e(2,1) s p shim_demo_task(1) _ e(3) l(3), of 90] show ?thesis
    by (auto simp: shim_demo_task(2))
qed

section \<open>Flows that are asked for and given up\<close>

text \<open>C34. A flow that is asked for is not kept: the request succeeds, but the new flow is not put into the table,
  so that for the shim there is no flow at the port.  The response to the request and the release of the
  flow fail, and every DU written to the port is refused, with the state, and so the DU, as it was.\<close>
theorem requested_flow_is_lost:
  assumes "xShimFlowAllocateRequest env buf a1 ok a2 q src dst port st = Done (True, st')"
    "prvShimFindFlowByPortId port st = Done None"
  shows "xFlows st' = xFlows st \<and> xShimFlowAllocateResponse env port st' = Done (False, st') \<and>
    xShimFlowDeallocate port st' = Done (False, st') \<and>
    (\<forall>d xs. chain_of (nbs st') d = Some xs \<longrightarrow> xShimSDUWrite env' port (Some d) st' = Done (False, st'))"
proof -
  have p: "is_port_id_ok port" "xFlows st' = xFlows st"
    using assms by (auto simp: xShimFlowAllocateRequest_def prvShimUnbindDestroyFlow_def prvShimFlowDestroy_def or_crash_def
        Let_def obind_Done split: if_splits option.splits)
  then have "prvShimFindFlowByPortId port st' = Done None"
    using assms(2) by (simp add: prvShimFindFlowByPortId_def split: if_splits)
  then show ?thesis using p
    by (auto simp: xShimFlowAllocateResponse_def xShimFlowDeallocate_def xShimSDUWrite_def unNetBufTotalSize_def)
qed

lemma zeros_names:
  "pxNameToGPA zeros True zeros task_name = Some \<lparr>pucAddress = Some [105, 47, 49, 47, 47, 0, 0], uxLength = 6\<rparr>"
  "vNameToStringBuf task_name (replicate 64 0) 64 \<noteq> None" "\<exists>n. xNameAssignDup zeros task_name = Inr n"
  "pxNameToGPA zeros True zeros (task_name\<lparr>pcProcessName := [106, 0]\<rparr>) =
    Some \<lparr>pucAddress = Some [106, 47, 49, 47, 47, 0, 0], uxLength = 6\<rparr>"
  "\<exists>n. xNameAssignDup zeros (task_name\<lparr>pcProcessName := [106, 0]\<rparr>) = Inr n"
proof -
  show "\<exists>n. xNameAssignDup zeros task_name = Inr n" by (rule exI, code_simp)
  show "\<exists>n. xNameAssignDup zeros (task_name\<lparr>pcProcessName := [106, 0]\<rparr>) = Inr n" by (rule exI, code_simp)
qed code_simp+

lemma requested_flow_is_lost_witness:
  "\<exists>st'. xShimFlowAllocateRequest (env_demo 6) (replicate 64 0) zeros True zeros True task_name task_name 3
      (shim_demo mac_a mac_b (du_seg NB_RINA_DATA [])) = Done (True, st') \<and> xShimFlowDeallocate 3 st' = Done (False, st')"
proof -
  let ?st = "shim_demo mac_a mac_b (du_seg NB_RINA_DATA [])"
  have f: "prvShimFindFlowByPortId 3 ?st = Done None"
    by (simp add: prvShimFindFlowByPortId_def shim_demo_flow MAX_SHIM_FLOWS_def)
  have "\<exists>st'. xShimFlowAllocateRequest (env_demo 6) (replicate 64 0) zeros True zeros True task_name task_name 3 ?st = Done (True, st')"
    using f zeros_names(1,2) by (auto simp: xShimFlowAllocateRequest_def is_port_id_ok_def PORT_ID_WRONG_def env_demo_def Let_def)
  then show ?thesis using requested_flow_is_lost [OF _ f] by blast
qed

text \<open>C33. A flow that is given up leaves its row behind.  The release reports failure although the flow is freed,
  and the row still leads to it: releasing it again, asking for a flow or answering at the port, writing a DU
  there, and looking for the sender of any frame that no flow before it matches, reads freed memory.\<close>
theorem released_flow_dangles:
  assumes "is_port_id_ok port" "prvShimFindFlowByPortId port st = Done (Some f)" "sflows st f = Some fl"
  shows "\<exists>st'. xShimFlowDeallocate port st = Done (False, st') \<and> xFlows st' = xFlows st \<and> sflows st' f = None \<and>
    xShimFlowDeallocate port st' = Crash \<and> xShimFlowAllocateResponse env port st' = Crash \<and>
    (\<forall>d n. unNetBufTotalSize (nbs st') d = Some n \<longrightarrow> n \<le> MTU \<longrightarrow> xShimSDUWrite env port (Some d) st' = Crash) \<and>
    (\<forall>ha. gha_loop ha (sflows st') (take (unat port) (xFlows st)) = Done None \<longrightarrow> prvShimFindFlowByGHA ha st' = Crash)"
proof -
  let ?st = "st\<lparr>sflows := (sflows st)(f := None)\<rparr>"
  have d: "xShimFlowDeallocate port st = Done (False, ?st)"
    using assms by (simp add: xShimFlowDeallocate_def prvShimUnbindDestroyFlow_def prvShimFlowDestroy_def)
  have p: "prvShimFindFlowByPortId port ?st = Done (Some f)" "unat port < length (xFlows st)" "xFlows st ! unat port = Some f"
    using assms(2) by (simp_all add: prvShimFindFlowByPortId_def split: if_splits)
  have app: "gha_loop ha fl (xs @ ys) = obind (gha_loop ha fl xs) (\<lambda>r. case r of None \<Rightarrow> gha_loop ha fl ys | Some a \<Rightarrow> Done (Some a))"
    for ha fl xs and ys :: "nat option list"
    by (induction ha fl xs rule: gha_loop.induct) (auto simp: or_crash_def split: option.splits)
  have "prvShimFindFlowByGHA ha ?st = Crash" if "gha_loop ha (sflows ?st) (take (unat port) (xFlows st)) = Done None" for ha
    using that id_take_nth_drop [OF p(2)] p(3) app [of ha "sflows ?st" "take (unat port) (xFlows st)" "Some f # drop (Suc (unat port)) (xFlows st)"]
    by (simp add: prvShimFindFlowByGHA_def)
  then show ?thesis using d p(1) assms(1)
    by (intro exI [of _ ?st]) (simp add: xShimFlowDeallocate_def xShimFlowAllocateResponse_def xShimSDUWrite_def
        prvShimUnbindDestroyFlow_def)
qed

lemma released_flow_dangles_witness:
  "\<exists>st'. xShimFlowDeallocate 7 (shim_demo mac_a mac_b (du_seg NB_RINA_DATA [])) = Done (False, st') \<and>
    xShimFlowDeallocate 7 st' = Crash"
proof -
  have k: "is_port_id_ok 7" by (simp add: is_port_id_ok_def PORT_ID_WRONG_def)
  have "sflows (shim_demo mac_a mac_b (du_seg NB_RINA_DATA [])) 40 = Some \<lparr>pxDestHa = Some mac_b, pxDestPa = None,
      sf_port = 7, ePortIdState = eALLOCATED\<rparr>" by (simp add: shim_demo_flow)
  from released_flow_dangles [OF k shim_demo_flow(1) this] show ?thesis by blast
qed

section \<open>Names\<close>

text \<open>A registered application can be found by its neighbours, until it is unregistered; the name of its DIF is
  still found then.\<close>

lemma register_resolves:
  fixes st :: "'a shim_state_scheme"
  assumes "xShimApplicationRegister env al ok app daf st = Done (True, st')"
    "pxNameToGPA (al 1) (ok 1) (al 2) app = Some pa" "gpa_ok pa" "pxNameToGPA (al 3) (ok 3) (al 4) daf = Some da" "gpa_ok da"
    "\<not> xGPACmp (Some da) (Some pa)" "\<not> xGPACmp (Some pa) (Some da)" "settled (xARP st)" "malloc_ok (mem_addr (e_arp env))"
    "pxARPLookupGHA (xARP st) (Some pa) = None" "pxARPLookupGHA (xARP st) (Some da) = None" "length (xPhyDev st) = MAC_LEN"
    "arp_insert (e_arp env) (xARP st) pa \<lparr>xType = MAC_ADDR_802_3, xAddress = xPhyDev st\<rparr> = Some c1"
    "arp_insert (e_arp env) c1 da \<lparr>xType = MAC_ADDR_802_3, xAddress = xPhyDev st\<rparr> = Some c2"
  shows "pxARPLookupGHA (xARP st') (Some pa) = mac_ha (xPhyDev st) \<and> pxARPLookupGHA (xARP st') (Some da) = mac_ha (xPhyDev st) \<and>
    (\<forall>k. gpa_ok k \<longrightarrow> \<not> xGPACmp (Some k) (Some pa) \<longrightarrow> \<not> xGPACmp (Some k) (Some da) \<longrightarrow>
       pxARPLookupGHA (xARP st') (Some k) = pxARPLookupGHA (xARP st) (Some k)) \<and>
    (pxNameToGPA a1 ok1 a2 app = Some pa \<longrightarrow>
      (\<exists>st''. xShimApplicationUnregister a1 ok1 a2 app st' = Done (True, st'') \<and>
         pxARPLookupGHA (xARP st'') (Some pa) = None \<and> pxARPLookupGHA (xARP st'') (Some da) = mac_ha (xPhyDev st)))"
proof -
  let ?ha = "\<lparr>xType = MAC_ADDR_802_3, xAddress = xPhyDev st\<rparr>"
  note t = arp_table [OF assms(9)]
  have h: "gha_ok ?ha" using assms(12) by (simp add: gha_ok_def)
  have i: "xARPCacheAdd (e_arp env) (xARP st) pa ?ha = (1, c1)" "xARPCacheAdd (e_arp env) c1 da ?ha = (1, c2)"
    using assms(13,14) by (auto simp: arp_insert_def split: prod.splits if_splits)
  have r: "xARP st' = c2" "app_mem st' = Held" "daf_mem st' = Held"
    using assms(1,2,4) i assms(12)
    by (auto simp: xShimApplicationRegister_def register_err_def Let_def pxCreateGHA_def xARPAddApplication_def
        obind_Done split: sum.splits if_splits)
  note l1 = keyed_table.insert_ok [OF t assms(8,3) h assms(13)] keyed_table.lookup_insert [OF t assms(8,3) h assms(13)]
    keyed_table.lookup_insert_other [OF t assms(8,3) h assms(13)]
  note l2 = keyed_table.insert_ok [OF t l1(1) assms(5) h assms(14)] keyed_table.lookup_insert [OF t l1(1) assms(5) h assms(14)]
    keyed_table.lookup_insert_other [OF t l1(1) assms(5) h assms(14)]
  have a: "pxARPCacheLookupGHA c2 (Some pa) = Some ?ha" "pxARPCacheLookupGHA c2 (Some da) = Some ?ha"
    using l1(2,3) l2(2,3) assms(3,5-7,10,11) by (simp_all add: pxARPLookupGHA_def)
  have o: "pxARPCacheLookupGHA c2 (Some k) = pxARPCacheLookupGHA (xARP st) (Some k)"
    if "gpa_ok k" "\<not> xGPACmp (Some k) (Some pa)" "\<not> xGPACmp (Some k) (Some da)" for k
    using l1(3) l2(3) that by simp
  have u: "pxARPCacheLookupGHA (snd (xARPCacheRemove c2 (Some pa))) (Some k) =
      (if xGPACmp (Some k) (Some pa) then None else pxARPCacheLookupGHA c2 (Some k))" if "gpa_ok k" for k
    using keyed_table.lookup_delete [OF t l2(1) assms(3) that] .
  have s: "xGPACmp (Some pa) (Some pa)" by (rule key_comparison.same_refl [OF keyed_table.axioms(1) [OF t] assms(3)])
  show ?thesis using a o u [OF assms(3)] u [OF assms(5)] s r assms(6)
    by (simp add: pxARPLookupGHA_def mac_ha_def xShimApplicationUnregister_def mem_free_def xARPRemoveApplication_def Let_def)
qed

section \<open>Frames that are too short\<close>

lemma one_seg_live:
  assumes "one_seg nb t a b off w" "freemethod (cell nb a) \<in> {Some FreeNormal, Some FreePool}"
  shows "all_live nb [a]" "chain_of nb a = Some [a]" "live nb [a] = [a]" "unSz (cell nb a) = length w"
    "pxNetBufNext nb a = Some None"
  using assms by (auto simp: one_seg_def all_live_def nb_ok_def chain_ok_def seg_ok_def cell_def chain_of_def walk.simps
      live_def pxNetBufNext_def)

lemma bare_eth:
  assumes "one_seg nb t' a b off (eth_bytes dst src t)" "length dst = MAC_LEN" "length src = MAC_LEN"
  shows "eth_at nb a = Done \<lparr>xDestinationAddress = dst, xSourceAddress = src, usFrameType = t\<rparr>"
proof -
  let ?h = "eth_bytes dst src t"
  obtain c bs where c: "cells nb a = Some c" "pxBuf c = Some (b, off)" "bufs nb b = Some bs" "off + length ?h \<le> length bs"
    "take (length ?h) (drop off bs) = ?h" using assms(1) by (auto simp: one_seg_def)
  obtain r where "drop off bs = ?h @ r" using c(5) by (metis append_take_drop_id)
  then show ?thesis using c eth_of_bytes [OF assms(2,3)] assms(2,3) by (simp add: eth_at_def seg_at_def)
qed

text \<open>Frames that end with their Ethernet header, or before.  One of less than 14 bytes is freed and changes
  nothing else.  One of ARP with nothing behind its header has the shim read through \<^verbatim>\<open>NULL\<close>.  One of RINA is
  announced to the task with \<^verbatim>\<open>NULL\<close> for its DU.\<close>
theorem short_frames:
  assumes "freemethod (cell (nbs st) a) \<in> {Some FreeNormal, Some FreePool}" "length dst = MAC_LEN" "length src = MAC_LEN"
  shows "(frame_in (nbs st) a b off w \<longrightarrow> length w < ETH_SZ \<longrightarrow>
      (\<exists>nb. vShimHandleEthernetPacket env self a st = Done (st\<lparr>nbs := nb\<rparr>) \<and> cells nb a = None \<and> bufs nb b = None)) \<and>
    (frame_in (nbs st) a b off (eth_bytes dst src (swap16 ETH_P_RINA_ARP)) \<longrightarrow>
      vShimHandleEthernetPacket env self a st = Crash) \<and>
    (frame_in (nbs st) a b off (eth_bytes dst src (swap16 ETH_P_RINA)) \<longrightarrow> e_gha env \<longrightarrow> e_ev env \<longrightarrow> knows src port p st \<longrightarrow>
      (\<exists>st'. vShimHandleEthernetPacket env self a st = Done st' \<and> ev_queue st' = ev_queue st @ [eRinaRxEvent port None]))"
proof (intro conjI impI)
  assume f: "frame_in (nbs st) a b off w" "length w < ETH_SZ"
  note o = one_seg_live [OF f(1) [unfolded frame_in_def] assms(1)]
  have di: "distinct [a]" "a \<in> set [a]" by simp_all
  from free_all_live [OF o(1) di(1) refl di(2)] obtain nb where fr: "free_each (nbs st) [a] = Some nb"
    "vNetBufFreeAll (nbs st) a = free_each (nbs st) [a]"
    "\<forall>z. cells nb z = (if z \<in> set [a] then None else cells (nbs st) z)"
    "\<forall>d. bufs nb d = (if \<exists>z \<in> set [a]. pxBufStart (cell (nbs st) z) = Some d then None else bufs (nbs st) d)" by blast
  have "pxBufStart (cell (nbs st) a) = Some b" using f(1) by (auto simp: frame_in_def one_seg_def cell_def)
  moreover have "xNetBufSplit (e_seg env) a NB_RINA_PCI ETH_SZ (nbs st) = Some (Inl ERR_NETBUF_SPLIT_FAIL)"
    using o f(2) by (simp add: xNetBufSplit_def)
  ultimately show "\<exists>nb. vShimHandleEthernetPacket env self a st = Done (st\<lparr>nbs := nb\<rparr>) \<and> cells nb a = None \<and> bufs nb b = None"
    using fr by (intro exI [of _ nb]) (simp add: vShimHandleEthernetPacket_def frame_done_def free_all_def)
next
  assume f: "frame_in (nbs st) a b off (eth_bytes dst src (swap16 ETH_P_RINA_ARP))"
  note o = one_seg_live [OF f [unfolded frame_in_def] assms(1)] and h = bare_eth [OF f [unfolded frame_in_def] assms(2,3)]
  have "xNetBufSplit (e_seg env) a NB_RINA_PCI ETH_SZ (nbs st) = Some (Inr (nbs st))"
    using o assms(2,3) by (simp add: xNetBufSplit_def)
  then show "vShimHandleEthernetPacket env self a st = Crash"
    using h o(5) by (simp add: vShimHandleEthernetPacket_def Let_def prvShimHandleARPFrame_def)
next
  assume f: "frame_in (nbs st) a b off (eth_bytes dst src (swap16 ETH_P_RINA))" and e: "e_gha env" "e_ev env"
    and k: "knows src port p st"
  note o = one_seg_live [OF f [unfolded frame_in_def] assms(1)] and h = bare_eth [OF f [unfolded frame_in_def] assms(2,3)]
  have sp: "xNetBufSplit (e_seg env) a NB_RINA_PCI ETH_SZ (nbs st) = Some (Inr (nbs st))"
    using o assms(2,3) by (simp add: xNetBufSplit_def)
  have di: "distinct [a]" "a \<in> set [a]" by simp_all
  from free_all_live [OF o(1) di(1) refl di(2)] obtain nb where fr: "vNetBufFree (nbs st) a = Some nb"
    by (cases "vNetBufFree (nbs st) a") auto
  obtain f fl where fl: "prvShimFindFlowByGHA (mac_ha src) st = Done (Some f)" "sflows st f = Some fl" "sf_port fl = port"
    "xIPCPTaskInitialised st" "0 < ev_places st" using k by (auto simp: knows_def)
  let ?st = "st\<lparr>nbs := nb, ev_queue := ev_queue st @ [eRinaRxEvent port None], ev_places := ev_places st - 1\<rparr>"
  have "rina_deliver env a f st = Done (eFrameConsumed, ?st)"
    using fr fl o(5) e(2) by (simp add: rina_deliver_def xSendEventStructToIPCPTask_def Let_def)
  moreover have "prvShimHandleRinaFrame env self a st = rina_deliver env a f st"
    using h fl(1) source_ha [OF assms(3) e(1)] by (simp add: prvShimHandleRinaFrame_def Let_def)
  moreover have "ETH_P_RINA \<noteq> ETH_P_RINA_ARP" by (simp add: ETH_P_RINA_def ETH_P_RINA_ARP_def)
  ultimately have "vShimHandleEthernetPacket env self a st = Done ?st"
    using sp h by (simp add: vShimHandleEthernetPacket_def Let_def frame_done_def)
  then show "\<exists>st'. vShimHandleEthernetPacket env self a st = Done st' \<and> ev_queue st' = ev_queue st @ [eRinaRxEvent port None]"
    by (intro exI [of _ ?st]) simp
qed

end
