(* ===== verification/Ipcp_Task.thy ===== *)
theory Ipcp_Task
  imports Shim_Flows
begin

text \<open>The task of the stack (\<^verbatim>\<open>IPCP/IPCP.c\<close>): the tables of operations of the two IPC processes
  (\<^verbatim>\<open>IPCP/normalIPCP.c\<close>, \<^verbatim>\<open>ShimIPCP/ShimIPCP.c\<close>), the handling of the events, one iteration of the loop,
  and the set-up of the stack.  What the RIB daemon does with a management PDU is a parameter.\<close>

section \<open>The tables of operations\<close>

text \<open>What the calls of one iteration find: the environment of the shim, the heap behind the pool of
  PCIs, addresses for a segment, a flow and an N-1 port, memory for names, the block on the stack for a
  name, and whether a queue can be set up.\<close>

record task_env =
  t_shim :: shim_env
  t_pci :: heap
  t_seg :: "nat option"
  t_flow :: "nat option"
  t_port :: "nat option"
  t_al :: "nat \<Rightarrow> allocator"
  t_ok :: "nat \<Rightarrow> bool"
  t_buf :: bytes
  t_queue :: bool
  t_mac :: "bytes option"

definition shim_ops :: "task_env \<Rightarrow> nat \<Rightarrow> 'a shim_state_scheme ipcp_ops" where
  "shim_ops e self =
    \<lparr>op_start = Some (xShimStart (t_mac e) (t_ok e 10) (t_ok e 11) (t_ok e 12)), op_stop = Some xShimStop,
     op_enable = Some (xShimEnable (t_shim e) self), op_disable = Some xShimDisable,
     op_flowAllocateRequest = Some (\<lambda>src dst port.
       xShimFlowAllocateRequest (t_shim e) (t_buf e) (t_al e 0) (t_ok e 0) (t_al e 1) (t_queue e) src dst port),
     op_flowAllocateResponse = Some (xShimFlowAllocateResponse (t_shim e)),
     op_flowDeallocate = Some xShimFlowDeallocate,
     op_applicationRegister = Some (xShimApplicationRegister (t_shim e) (t_al e) (t_ok e)),
     op_applicationUnregister = Some (xShimApplicationUnregister (t_al e 0) (t_ok e 0) (t_al e 1)),
     op_duWrite = Some (xShimSDUWrite (t_shim e)), op_flowPrebind = None, op_flowBindingIpcp = None,
     op_duEnqueue = None, op_mgmtDuWrite = None, op_ipcpName = None, op_difName = None\<rparr>"

text \<open>The \<^verbatim>\<open>duWrite\<close> operations the normal process may call: those of the shims.\<close>

definition below :: "task_env \<Rightarrow> 'a shim_state_scheme \<Rightarrow> nat \<Rightarrow> 'a shim_state_scheme du_handler option" where
  "below e st a =
    (case ipcps st a of
       None \<Rightarrow> None
     | Some i \<Rightarrow> (if inst_type i = eShimWiFi then op_duWrite (shim_ops e a) else None))"

definition normal_ops :: "task_env \<Rightarrow> 'a shim_state_scheme du_handler \<Rightarrow> 'a shim_state_scheme ipcp_ops" where
  "normal_ops e rib =
    \<lparr>op_start = None, op_stop = None, op_enable = None, op_disable = None,
     op_flowAllocateRequest = None, op_flowAllocateResponse = None, op_flowDeallocate = None,
     op_applicationRegister = None, op_applicationUnregister = None, op_duWrite = None,
     op_flowPrebind = Some (\<lambda>h st. obind (or_crash (handles st h)) (\<lambda>fh. Done (xNormalFlowPrebind (t_flow e) fh st))),
     op_flowBindingIpcp = Some (\<lambda>port i st. xNormalFlowBinding (t_port e) port i st),
     op_duEnqueue = Some (\<lambda>port du st. obind (or_crash du) (\<lambda>d. xNormalDuEnqueue rib (t_seg e) port d st)),
     op_mgmtDuWrite = Some (\<lambda>port du st.
       obind (or_crash du) (\<lambda>d. xNormalMgmtDuWrite (below e st) (t_pci e) (t_seg e) port d st)),
     op_ipcpName = Some ipcp_name, op_difName = Some dif_name\<rparr>"

definition stack_ops ::
  "task_env \<Rightarrow> 'a shim_state_scheme du_handler \<Rightarrow> nat \<Rightarrow> ipcp_type \<Rightarrow> 'a shim_state_scheme ipcp_ops" where
  "stack_ops e rib a t = (case t of eShimWiFi \<Rightarrow> shim_ops e a | eNormal \<Rightarrow> normal_ops e rib)"

section \<open>Events\<close>

definition vRINA_WakeUpFlowRequest :: "nat \<Rightarrow> u64 \<Rightarrow> 'a fa_state_scheme \<Rightarrow> 'a fa_state_scheme outcome" where
  "vRINA_WakeUpFlowRequest h b st =
    (if b = 0 then Crash
     else obind (or_crash (handles st h)) (\<lambda>fh.
       Done (st\<lparr>handles := (handles st)(h \<mapsto> fh\<lparr>nEventBits := nEventBits fh OR b\<rparr>)\<rparr>)))"

text \<open>The macro \<^verbatim>\<open>CALL_IPCP\<close>: the operation of the instance at \<open>a\<close> has to be there; what it returns is only
  logged.\<close>

definition call_op ::
  "(nat \<Rightarrow> ipcp_type \<Rightarrow> 'a task_state_scheme ipcp_ops) \<Rightarrow> nat \<Rightarrow> ('a task_state_scheme ipcp_ops \<Rightarrow> 'f option)
     \<Rightarrow> ('f \<Rightarrow> 'a task_state_scheme op) \<Rightarrow> 'a task_state_scheme \<Rightarrow> 'a task_state_scheme outcome" where
  "call_op ops a fn run st =
    obind (or_crash (ipcps st a)) (\<lambda>i.
    obind (or_crash (fn (ops a (inst_type i)))) (\<lambda>f.
    obind (run f st) (\<lambda>(r, st1). Done st1)))"

definition on_normal ::
  "(nat \<Rightarrow> 'a task_state_scheme \<Rightarrow> 'a task_state_scheme outcome) \<Rightarrow> 'a task_state_scheme \<Rightarrow> 'a task_state_scheme outcome" where
  "on_normal k st = obind (pxIpcManagerFindByType eNormal st) (\<lambda>i. obind (or_crash i) (\<lambda>a. k a st))"

fun handle_event ::
  "(nat \<Rightarrow> ipcp_type \<Rightarrow> 'a task_state_scheme ipcp_ops) \<Rightarrow> stack_event \<Rightarrow> 'a task_state_scheme \<Rightarrow> 'a task_state_scheme outcome" where
  "handle_event ops (eRinaRxEvent port du) st =
    on_normal (\<lambda>a. call_op ops a op_duEnqueue (\<lambda>f. f port du)) st"
| "handle_event ops eNetworkDownEvent st = Done (prvProcessNetworkDownEvent (st\<lparr>xNetworkUp := False\<rparr>))"
| "handle_event ops (eShimEnrolledEvent shim) st =
    on_normal (\<lambda>a st. call_op ops shim op_applicationRegister (\<lambda>f. f (ipcp_name st) (dif_name st)) st) st"
| "handle_event ops (eShimFlowAllocatedEvent port i) st =
    on_normal (\<lambda>a. call_op ops a op_flowBindingIpcp (\<lambda>f. f port i)) st"
| "handle_event ops eFATimerEvent st = Done (vIpcpSetFATimerExpiredState True st)"
| "handle_event ops (eFlowDeallocateEvent port) st = Done st"
| "handle_event ops (eFlowBindEvent h) st =
    on_normal (\<lambda>a st1.
      obind (call_op ops a op_flowPrebind (\<lambda>f. f h) st1) (vRINA_WakeUpFlowRequest h eFLOW_BOUND)) st"
| "handle_event ops (eSendMgmtEvent port du) st =
    on_normal (\<lambda>a. call_op ops a op_mgmtDuWrite (\<lambda>f. f port du)) st"
| "handle_event ops eNoEvent st = Done st"
| "handle_event ops eARPTimerEvent st = Done st"
| "handle_event ops (eRinaTxEvent port du) st = Done st"
| "handle_event ops eStackRxEvent st = Done st"
| "handle_event ops eStackFlowAllocateEvent st = Done st"
| "handle_event ops eStackAppRegistrationEvent st = Done st"
| "handle_event ops eShimAppRegisteredEvent st = Done st"

text \<open>One iteration of the loop at the time \<open>now\<close>; \<open>mem\<close> is the memory for the event of the ARP timer.\<close>

definition task_step ::
  "(nat \<Rightarrow> ipcp_type \<Rightarrow> 'a task_state_scheme ipcp_ops) \<Rightarrow> timespec \<Rightarrow> bool \<Rightarrow> 'a task_state_scheme \<Rightarrow> 'a task_state_scheme outcome" where
  "task_step ops now mem st =
    obind (prvCheckNetworkTimers now mem st) (\<lambda>st1.
    obind (receive_event (of_nat (prvCalculateSleepTimeUS st1)) st1) (\<lambda>(ev, st2). handle_event ops ev st2))"

text \<open>Before the loop the task is marked as ready and the IPC processes are enabled; the result is not looked at.\<close>

definition prvIPCPTask_start ::
  "(nat \<Rightarrow> ipcp_type \<Rightarrow> 'a task_state_scheme ipcp_ops) \<Rightarrow> 'a task_state_scheme \<Rightarrow> 'a task_state_scheme outcome" where
  "prvIPCPTask_start ops st =
    obind (xIpcManagerRun op_enable ops (st\<lparr>xIPCPTaskInitialised := True\<rparr>)) (\<lambda>(r, st1). Done st1)"

section \<open>Setting up the stack\<close>

definition normal_name :: rname where
  "normal_name = vNameAssignFromPartsStatic (ascii ''ue1.mobile.DIF'' @ [0]) (ascii ''1'' @ [0]) [0] [0]"

definition normal_dif :: rname where
  "normal_dif = vNameAssignFromPartsStatic (ascii ''mobile.DIF'' @ [0]) [0] [0] [0]"

text \<open>\<open>inst\<close> is the address of the instance, \<open>data\<close> whether there is memory for its data, \<open>pool\<close> the pool of PCIs,
  \<open>rib\<close> and \<open>enr\<close> the outcomes of \<^verbatim>\<open>xRibNormalInit\<close> and \<^verbatim>\<open>xEnrollmentInit\<close>, \<open>fa\<close> what \<^verbatim>\<open>xFlowAllocatorInit\<close>, which always
  succeeds, does to the pools, \<open>cidm\<close> and \<open>rmt\<close> the outcomes for the CEP ids and the RMT.  The failure path calls
  \<^verbatim>\<open>vRmtFini\<close>, which only asserts its pointer, and frees the instance and the data.\<close>

definition pxNormalCreate ::
  "nat option \<Rightarrow> bool \<Rightarrow> nat option \<Rightarrow> bool \<Rightarrow> bool \<Rightarrow> (rsrc_state \<Rightarrow> rsrc_state) \<Rightarrow> bool \<Rightarrow> bool \<Rightarrow> u16 \<Rightarrow> 'a task_state_scheme
     \<Rightarrow> nat option \<times> 'a task_state_scheme" where
  "pxNormalCreate inst data pool rib enr fa cidm rmt n st =
    (case inst of None \<Rightarrow> (None, st)
     | Some a \<Rightarrow>
         if \<not> data \<or> pool = None \<or> \<not> rib \<or> \<not> enr then (None, st)
         else
           (let (r1, st1) = xEfcpContainerInit cidm pool (st\<lparr>rs := fa (rs st)\<rparr>) in
            if \<not> r1 then (None, st1)
            else
              (let (r2, st2) = xRmtInit rmt st1 in
               if \<not> r2 then (None, st2)
               else (Some a, st2\<lparr>ipcp_name := normal_name, dif_name := normal_dif, xFlowsList := [],
                 ipcps := (ipcps st2)(a \<mapsto> \<lparr>xId = n, inst_type = eNormal\<rparr>)\<rparr>))))"

text \<open>\<open>th\<close> tells whether the thread could be made.\<close>

definition RINA_IPCPInit ::
  "(u16 \<Rightarrow> 'a shim_state_scheme \<Rightarrow> nat option \<times> 'a shim_state_scheme) \<Rightarrow>
   (u16 \<Rightarrow> 'a shim_state_scheme \<Rightarrow> (nat option \<times> 'a shim_state_scheme) outcome) \<Rightarrow>
   (nat \<Rightarrow> ipcp_type \<Rightarrow> 'a shim_state_scheme ipcp_ops) \<Rightarrow> bool \<Rightarrow> bool \<Rightarrow> 'a shim_state_scheme op" where
  "RINA_IPCPInit normal shim ops queue th st =
    obind (unIpcManagerReservePort st) (\<lambda>(n1, st1).
    obind (unIpcManagerReservePort st1) (\<lambda>(n2, st2).
      let (r1, st3) = normal (ucast n1) st2 in
      obind (or_crash r1) (\<lambda>a.
      obind (shim (ucast n2) st3) (\<lambda>(r2, st4).
      obind (or_crash r2) (\<lambda>b.
        let st5 = vIpcManagerAdd b (vIpcManagerAdd a st4) in
        if xIPCPTaskInitialised st5 \<or> \<not> queue then Crash
        else
          obind (xIpcManagerRun op_start ops (st5\<lparr>ev_queue := [], ev_places := EVENT_QUEUE_MAX\<rparr>)) (\<lambda>(r, st6).
            Done (th, st6)))))))"

section \<open>From the wire to the RIB\<close>

lemma quiet_step:
  assumes "\<not> bActive (xARPTimer st)" "ev_queue st = ev # evs"
  shows "task_step ops now mem st = handle_event ops ev (st\<lparr>ev_queue := evs, ev_places := ev_places st + 1\<rparr>)"
  using assms by (simp add: task_step_def prvCheckNetworkTimers_def prvIPCPTimerCheck_def receive_event_def Let_def)

lemma tail_to_mgmt:
  assumes "tail_seg (nbs st) NB_RINA_PCI fs y b off (pci_bytes (mgmt_header (length d)) @ d)" "d \<noteq> []"
    "is_port_id_ok port" "prvRmtPortFind port st = Some p" "z \<notin> set (fs @ [y])"
  shows "\<exists>st2. xNormalDuEnqueue rib (Some z) port y st = xRmtProcessMgmtPdu (xNormalMgmtDuPost rib) port (Some z) st2 \<and>
    handed_over st2 z d \<and> ev_queue st2 = ev_queue st"
proof -
  obtain st2 where st2: "cut_tail_off st p fs y z b off d st2"
    "xRmtReceive (xNormalMgmtDuPost rib) (Some z) y port st = rmt_dispatch (xNormalMgmtDuPost rib) (mgmt_header (length d)) port (Some z) st2"
    using receive_tail [OF assms(3,4,1,2,5) mgmt_header_ok(1), of "xNormalMgmtDuPost rib"] by blast
  obtain nb2 where t: "nbs st2 = nb2" "tail_seg nb2 NB_RINA_DATA (fs @ [y]) z b (off + PCI_SZ) d" "ev_queue st2 = ev_queue st"
    using st2(1) by (auto simp: cut_tail_off_def)
  have "handed_over st2 z d"
    using t(2) tail_parts(5) [OF t(2)] tail_copy [OF t(2), of "length d"] unfolding handed_over_def t(1) tail_seg_def by auto
  moreover have "xNormalDuEnqueue rib (Some z) port y st = xRmtProcessMgmtPdu (xNormalMgmtDuPost rib) port (Some z) st2"
    using st2(2) by (simp add: xNormalDuEnqueue_def rmt_dispatch_def mgmt_header_ok)
  ultimately show ?thesis using t(3) by blast
qed

definition task_env_demo :: task_env where
  "task_env_demo = \<lparr>t_shim = env_demo 6, t_pci = sample_heap 1000, t_seg = Some 7, t_flow = Some 70, t_port = Some 61,
     t_al = (\<lambda>_. zeros), t_ok = (\<lambda>_. True), t_buf = replicate 64 0, t_queue = True, t_mac = Some (xAddress mac_a)\<rparr>"

lemma normal_names:
  "pxNameToGPA zeros True zeros normal_name = Some \<lparr>pucAddress = Some (ascii ''ue1.mobile.DIF/1//'' @ [0, 0]), uxLength = 19\<rparr>"
  "pxNameToGPA zeros True zeros normal_dif = Some \<lparr>pucAddress = Some (ascii ''mobile.DIF///'' @ [0, 0]), uxLength = 14\<rparr>"
  "\<exists>n. xNameAssignDup zeros normal_name = Inr n" "\<exists>n. xNameAssignDup zeros normal_dif = Inr n"
proof -
  show "\<exists>n. xNameAssignDup zeros normal_name = Inr n" by (rule exI, code_simp)
  show "\<exists>n. xNameAssignDup zeros normal_dif = Inr n" by (rule exI, code_simp)
qed code_simp+

text \<open>C12. A management frame reaches the RIB daemon in one iteration of the task.  When nothing else waits and the
  ARP timer is not running, the frame a known neighbour sent is taken off the wire, and the next iteration
  of the task calls the RIB daemon once, for the port of the neighbour, with a DU that holds exactly the data.
  When the daemon succeeds the DU is freed, and when it fails it is not.\<close>
theorem frame_reaches_rib:
  assumes "frame_in (nbs st) a b off (rina_frame dst src (pci_bytes (mgmt_header (length d)) @ d))"
    "length dst = MAC_LEN" "length src = MAC_LEN" "d \<noteq> []" "knows src port p st" "y \<noteq> a" "z \<notin> {a, y}"
    "e_seg env = Some y" "e_gha env" "e_ev env" "t_seg e = Some z" "ev_queue st = []" "\<not> bActive (xARPTimer st)"
    "pxIpcManagerFindByType eNormal st = Done (Some i)" "ipcps st i = Some inst" "inst_type inst = eNormal"
  shows "\<exists>st1 st2. vShimHandleEthernetPacket env self a st = Done st1 \<and> handed_over st2 z d \<and> ev_queue st2 = [] \<and>
    task_step (stack_ops e rib) now mem st1 = obind (rib port (Some z) st2) (\<lambda>(err, st3).
      if err then Done st3 else obind (or_crash (vNetBufFree (nbs st3) z)) (\<lambda>nb. Done (st3\<lparr>nbs := nb\<rparr>)))"
proof -
  obtain f fl where k: "is_port_id_ok port" "prvRmtPortFind port st = Some p"
    "prvShimFindFlowByGHA (mac_ha src) st = Done (Some f)" "sflows st f = Some fl" "sf_port fl = port"
    "xIPCPTaskInitialised st" "0 < ev_places st" using assms(5) by (auto simp: knows_def)
  let ?w = "pci_bytes (mgmt_header (length d)) @ d"
  have "?w \<noteq> []" using assms(4) by simp
  from frame_known [OF assms(1-3) this assms(6,8,9) k(3,4,6,7) assms(10)] obtain nb where nb:
    "vShimHandleEthernetPacket env self a st = Done (st\<lparr>nbs := nb,
      ev_queue := ev_queue st @ [eRinaRxEvent port (Some y)], ev_places := ev_places st - 1\<rparr>)"
    "tail_seg nb NB_RINA_PCI [a] y b (off + ETH_SZ) ?w" using k(5) by blast
  let ?st1 = "st\<lparr>nbs := nb, ev_queue := ev_queue st @ [eRinaRxEvent port (Some y)], ev_places := ev_places st - 1\<rparr>"
  let ?st = "st\<lparr>nbs := nb, ev_queue := [], ev_places := ev_places st\<rparr>"
  have p: "prvRmtPortFind port ?st = Some p" using k(2) by (simp add: prvRmtPortFind_def port_no_def)
  have n: "tail_seg (nbs ?st) NB_RINA_PCI [a] y b (off + ETH_SZ) ?w" "z \<notin> set ([a] @ [y])" using nb(2) assms(7) by simp_all
  from tail_to_mgmt [OF n(1) assms(4) k(1) p n(2)] obtain st2 where st2:
    "xNormalDuEnqueue rib (Some z) port y ?st = xRmtProcessMgmtPdu (xNormalMgmtDuPost rib) port (Some z) st2"
    "handed_over st2 z d" "ev_queue st2 = []" by auto
  have "pxIpcManagerFindByType eNormal ?st = Done (Some i)" using find_type_cong [of ?st st eNormal] assms(14) by simp
  then have "task_step (stack_ops e rib) now mem ?st1 =
      obind (xRmtProcessMgmtPdu (xNormalMgmtDuPost rib) port (Some z) st2) (\<lambda>(r, st1). Done st1)"
    using quiet_step [of ?st1 "eRinaRxEvent port (Some y)" "[]"] assms(11-13,15,16) k(7) st2(1)
    by (simp add: on_normal_def call_op_def stack_ops_def normal_ops_def)
  also have "\<dots> = obind (rib port (Some z) st2) (\<lambda>(err, st3).
      if err then Done st3 else obind (or_crash (vNetBufFree (nbs st3) z)) (\<lambda>nb. Done (st3\<lparr>nbs := nb\<rparr>)))"
    using k(1) by (cases "rib port (Some z) st2")
      (auto simp: xRmtProcessMgmtPdu_def xNormalMgmtDuPost_def or_crash_def split: option.split)
  finally show ?thesis using nb(1) st2(2,3) by blast
qed

lemma shim_demo_normal: "pxIpcManagerFindByType eNormal (shim_demo me other nb) = Done (Some 91)"
    "ipcps (shim_demo me other nb) 91 = Some \<lparr>xId = 1, inst_type = eNormal\<rparr>" "\<not> bActive (xARPTimer (shim_demo me other nb))"
proof -
  show "pxIpcManagerFindByType eNormal (shim_demo me other nb) = Done (Some 91)"
    by (simp add: pxIpcManagerFindByType_def shim_demo_defs CFG_INSTANCES_IPCP_ENTRIES_def numeral_eq_Suc)
  show "ipcps (shim_demo me other nb) 91 = Some \<lparr>xId = 1, inst_type = eNormal\<rparr>" "\<not> bActive (xARPTimer (shim_demo me other nb))"
    by (simp_all add: shim_demo_defs idle_timer_def split: option.split)
qed

lemma frame_reaches_rib_witness:
  "\<exists>st1 st2. vShimHandleEthernetPacket (env_demo 6) 90 5 (shim_demo mac_b mac_a (du_seg NB_ETH_HDR
      (rina_frame (xAddress mac_b) (xAddress mac_a) (pci_bytes (mgmt_header 2) @ [1, 2])))) = Done st1 \<and>
    task_step (stack_ops task_env_demo (\<lambda>_ _ s. Done (True, s))) (0, 0) True st1 = Done st2 \<and> handed_over st2 7 [1, 2]"
proof -
  let ?fr = "rina_frame (xAddress mac_b) (xAddress mac_a) (pci_bytes (mgmt_header (length [1, 2 :: u8])) @ [1, 2])"
  let ?R = "shim_demo mac_b mac_a (du_seg NB_ETH_HDR ?fr)"
  have f: "frame_in (nbs ?R) 5 9 0 ?fr" using du_seg_one by (simp add: frame_in_def)
  have l: "length (xAddress mac_b) = MAC_LEN" "length (xAddress mac_a) = MAC_LEN" "[1, 2 :: u8] \<noteq> []"
    "(6 :: nat) \<noteq> 5" "(7 :: nat) \<notin> {5, 6}" by (simp_all add: mac_a_def mac_b_def MAC_LEN_def)
  have e: "e_gha (env_demo 6)" "e_seg (env_demo 6) = Some 6" "e_ev (env_demo 6)" "t_seg task_env_demo = Some 7"
    by (simp_all add: env_demo_def task_env_demo_def)
  have t: "inst_type \<lparr>xId = 1, inst_type = eNormal\<rparr> = eNormal" by simp
  from frame_reaches_rib [where rib = "\<lambda>_ _ s. Done (True, s)" and self = 90 and now = "(0, 0)" and mem = True, OF f l(1-3) shim_demo_ready(3) l(4,5)
      e(2,1,3,4) shim_demo_task(2) shim_demo_normal(3,1,2) t] show ?thesis
    by (auto simp: numeral_2_eq_2)
qed

section \<open>Starting\<close>

text \<open>The first two ports of a new manager; \<^verbatim>\<open>RINA_IPCPInit\<close> takes them for the ids of the IPC processes.\<close>

lemma first_ports:
  "\<exists>im im2. reserve (the (pxNumMgrCreate True True MAX_PORT_ID)) = Done (1, im) \<and> reserve im = Done (2, im2)"
proof -
  let ?ba = "\<lparr>nbbits = 2048, units = replicate 65 0\<rparr>"
  have "\<not> xBitArrayGetBit ?ba 1" "\<not> xBitArrayGetBit (vBitArraySetBit ?ba 1) 2"
    by (simp_all add: xBitArrayGetBit_def vBitArraySetBit_def bit_of_def unit_of_def BITS_PER_UNIT_def)
  then show ?thesis
    by (simp add: pxNumMgrCreate_def xNumMgrInit_def MAX_PORT_ID_def UINT_MAX_def pxBitArrayAlloc_def BITS_PER_UNIT_def
        reserve_def ulNumMgrAllocate_def)
      (subst alloc_loop.simps, simp add: Let_def, subst alloc_loop.simps, simp add: Let_def)
qed

text \<open>A state before the stack is set up, and an environment in which nothing is missing.\<close>

definition blank :: "'a shim_state_scheme \<Rightarrow> bool" where
  "blank st = (xIpcpTable st = inst_rows [] \<and> \<not> xIPCPTaskInitialised st \<and> \<not> bActive (xARPTimer st))"

definition plenty :: "task_env \<Rightarrow> bytes \<Rightarrow> bool" where
  "plenty e mac =
    (t_mac e = Some mac \<and> length mac = MAC_LEN \<and> t_ok e = (\<lambda>_. True) \<and> e_net (t_shim e) \<and> e_ev (t_shim e) \<and>
     e_gha (t_shim e) \<and> mem_plenty (e_arp (t_shim e)))"

definition set_up :: "task_env \<Rightarrow> 'a shim_state_scheme du_handler \<Rightarrow> (rsrc_state \<Rightarrow> rsrc_state) \<Rightarrow> nat \<Rightarrow> nat \<Rightarrow> nat \<Rightarrow> nat \<Rightarrow> 'a shim_state_scheme op" where
  "set_up e rib fa a b pool hdr st =
    obind (if fst (xIpcManagerInit True True True True st) then Done (snd (xIpcManagerInit True True True True st)) else Crash)
      (RINA_IPCPInit (pxNormalCreate (Some a) True (Some pool) True True fa True True)
         (pxShimWiFiCreate (Some b) True True (Some hdr) True) (stack_ops e rib) True True)"

lemma add_rows [simp]:
  "ipcps (vIpcManagerAdd x st) = ipcps st" "xIPCPTaskInitialised (vIpcManagerAdd x st) = xIPCPTaskInitialised st"
  "xARPTimer (vIpcManagerAdd x st) = xARPTimer st" "ipcp_name (vIpcManagerAdd x st) = ipcp_name st"
  "dif_name (vIpcManagerAdd x st) = dif_name st"
  by (simp_all add: vIpcManagerAdd_def split: option.split)

lemma set_up_result:
  assumes "blank st" "a \<noteq> b" "plenty e mac"
  shows "\<exists>st1. set_up e rib fa a b pool hdr st = Done (True, st1) \<and> xIpcpTable st1 = inst_rows [a, b] \<and>
    ipcps st1 a = Some \<lparr>xId = 1, inst_type = eNormal\<rparr> \<and> ipcps st1 b = Some \<lparr>xId = 2, inst_type = eShimWiFi\<rparr> \<and>
    ev_queue st1 = [] \<and> ev_places st1 = EVENT_QUEUE_MAX \<and> xPhyDev st1 = mac \<and> xARP st1 = replicate 4 empty_row \<and>
    xARPTimer st1 = xARPTimer st \<and> ipcp_name st1 = normal_name \<and> dif_name st1 = normal_dif"
proof -
  obtain im im2 where im: "reserve (the (pxNumMgrCreate True True MAX_PORT_ID)) = Done (1, im)" "reserve im = Done (2, im2)"
    using first_ports by blast
  have cr: "\<exists>p. pxNumMgrCreate True True MAX_PORT_ID = Some p" "\<exists>q. pxNumMgrCreate True True MAX_IPCP_ID = Some q"
    by (simp_all add: pxNumMgrCreate_def xNumMgrInit_def MAX_PORT_ID_def MAX_IPCP_ID_def UINT_MAX_def pxBitArrayAlloc_def)
  then obtain p q where pq: "pxNumMgrCreate True True MAX_PORT_ID = Some p" "pxNumMgrCreate True True MAX_IPCP_ID = Some q" by blast
  let ?s0 = "st\<lparr>pxPidm := p, pxIpcpIdm := q\<rparr>" and ?s2 = "st\<lparr>pxPidm := im2, pxIpcpIdm := q\<rparr>"
  have i0: "xIpcManagerInit True True True True st = (True, ?s0)" by (simp add: xIpcManagerInit_def pq)
  have r: "unIpcManagerReservePort ?s0 = Done (1, ?s0\<lparr>pxPidm := im\<rparr>)" "unIpcManagerReservePort (?s0\<lparr>pxPidm := im\<rparr>) = Done (2, ?s2)"
    using im pq by (simp_all add: unIpcManagerReservePort_def)
  obtain s3 where s3: "pxNormalCreate (Some a) True (Some pool) True True fa True True 1 ?s2 = (Some a, s3)"
    "ipcps s3 = (ipcps st)(a \<mapsto> \<lparr>xId = 1, inst_type = eNormal\<rparr>)" "xIpcpTable s3 = xIpcpTable st"
    "xIPCPTaskInitialised s3 = xIPCPTaskInitialised st" "xARPTimer s3 = xARPTimer st" "ipcp_name s3 = normal_name" "dif_name s3 = normal_dif"
    by (simp add: pxNormalCreate_def xEfcpContainerInit_def xEfcpImapCreate_def xRmtInit_def Let_def)
  obtain s4 where s4: "pxShimWiFiCreate (Some b) True True (Some hdr) True 2 s3 = Done (Some b, s4)"
    "ipcps s4 = (ipcps s3)(b \<mapsto> \<lparr>xId = 2, inst_type = eShimWiFi\<rparr>)" "xIpcpTable s4 = xIpcpTable st"
    "xIPCPTaskInitialised s4 = xIPCPTaskInitialised st" "xARPTimer s4 = xARPTimer st" "ipcp_name s4 = normal_name" "dif_name s4 = normal_dif"
    using s3 by (simp add: pxShimWiFiCreate_def)
  define s6 where "s6 = (vIpcManagerAdd b (vIpcManagerAdd a s4))\<lparr>ev_queue := [], ev_places := EVENT_QUEUE_MAX\<rparr>"
  have "xIpcpTable s4 = inst_rows []" using s4(3) assms(1) by (simp add: blank_def)
  from inst_rows_add [OF this] inst_rows_add [OF inst_rows_add [OF this]] have t6: "xIpcpTable s6 = inst_rows [a, b]"
    by (simp add: s6_def)
  have i6: "ipcps s6 a = Some \<lparr>xId = 1, inst_type = eNormal\<rparr>" "ipcps s6 b = Some \<lparr>xId = 2, inst_type = eShimWiFi\<rparr>"
    using assms(2) s3(2) s4(2) by (simp_all add: s6_def)
  let ?s7 = "s6\<lparr>xPhyDev := mac, xARP := replicate 4 empty_row\<rparr>"
  have "xIpcManagerRun op_start (stack_ops e rib) s6 = Done (True, ?s7)"
    using i6 t6 assms(3)
    by (simp add: xIpcManagerRun_def inst_rows_def CFG_INSTANCES_IPCP_ENTRIES_def numeral_eq_Suc stack_ops_def normal_ops_def
        shim_ops_def xShimStart_def xARPInit_def pxARPCacheCreate_def plenty_def Let_def)
  then have "set_up e rib fa a b pool hdr st = Done (True, ?s7)"
    using i0 r s3(1) s4(1,4) assms(1) by (simp add: set_up_def RINA_IPCPInit_def blank_def s6_def Let_def)
  then show ?thesis using t6 i6 s4 by (intro exI [of _ ?s7]) (simp add: s6_def)
qed

lemma dup_plenty:
  assumes "mem_plenty m" "gpa_ok pa" "cstring (addr pa) \<noteq> []"
  shows "\<exists>p. pxDupGPA (ok_gpa m) (mem_addr m) pa True 0 = Inr p"
proof -
  have l: "length (addr pa) = uxLength pa" "0 < uxLength pa" using assms(2) addr_length by (auto simp: wf_defs)
  have "addr pa ! 0 \<noteq> 0" using assms(3) l by (cases "addr pa") (auto simp: cstring_def split: if_splits)
  then have "dup_len (addr pa) 0 (uxLength pa) \<noteq> None" using l(2) by (auto simp flip: dup_len_all)
  then obtain n where n: "dup_len (addr pa) 0 (uxLength pa) = Some n" by blast
  obtain blk where blk: "mem_addr m (uxLength pa) = Some blk" using assms(1) by (auto simp: mem_plenty_def)
  then have "length (take n (addr pa)) \<le> length blk"
    using assms(1) dup_len_Some [OF n] l(1) by (auto simp: mem_plenty_def malloc_ok_def)
  then show ?thesis using n blk assms(1) gpa_ok_is_ok [OF assms(2)] by (simp add: pxDupGPA_def mem_plenty_def mem_write_def)
qed

lemma insert_free:
  assumes "mem_plenty m" "gpa_ok pa" "cstring (addr pa) \<noteq> []" "gha_ok ha" "find_idx (\<lambda>r. ucValid r = 0) c = Some i"
  shows "\<exists>p. arp_insert m c pa ha = Some (c[i := new_row p ha])"
proof -
  obtain p where "pxDupGPA (ok_gpa m) (mem_addr m) pa True 0 = Inr p" using dup_plenty [OF assms(1-3)] by blast
  then have "xARPCacheAdd m c pa ha = (1, c[i := new_row p ha])"
    using assms(1,4,5) by (simp add: xARPCacheAdd_def dup_gha mem_plenty_def new_row_def)
  then have "arp_insert m c pa ha = Some (c[i := new_row p ha])" by (simp add: arp_insert_def)
  then show ?thesis by blast
qed

lemma register_succeeds:
  assumes "xNameAssignDup (al 0) app = Inr n1" "xNameAssignDup (al 5) daf = Inr n2" "e_gha env" "length (xPhyDev st) = MAC_LEN"
    "pxNameToGPA (al 1) (ok 1) (al 2) app = Some pa" "pxNameToGPA (al 3) (ok 3) (al 4) daf = Some da"
    "arp_insert (e_arp env) (xARP st) pa \<lparr>xType = MAC_ADDR_802_3, xAddress = xPhyDev st\<rparr> = Some c1"
    "arp_insert (e_arp env) c1 da \<lparr>xType = MAC_ADDR_802_3, xAddress = xPhyDev st\<rparr> = Some c2"
  shows "\<exists>st'. xShimApplicationRegister env al ok app daf st = Done (True, st') \<and> ev_queue st' = ev_queue st"
proof -
  have "xARPCacheAdd (e_arp env) (xARP st) pa \<lparr>xType = MAC_ADDR_802_3, xAddress = xPhyDev st\<rparr> = (1, c1)"
    "xARPCacheAdd (e_arp env) c1 da \<lparr>xType = MAC_ADDR_802_3, xAddress = xPhyDev st\<rparr> = (1, c2)"
    using assms(7,8) by (auto simp: arp_insert_def split: prod.splits if_splits)
  then show ?thesis using assms(1-6) by (simp add: xShimApplicationRegister_def Let_def pxCreateGHA_def xARPAddApplication_def)
qed

text \<open>The names of the normal IPC process as protocol addresses.\<close>

definition names_fit :: "task_env \<Rightarrow> gpa \<Rightarrow> gpa \<Rightarrow> bool" where
  "names_fit e pa da =
    (pxNameToGPA (t_al e 1) (t_ok e 1) (t_al e 2) normal_name = Some pa \<and> gpa_ok pa \<and> cstring (addr pa) \<noteq> [] \<and>
     pxNameToGPA (t_al e 3) (t_ok e 3) (t_al e 4) normal_dif = Some da \<and> gpa_ok da \<and> cstring (addr da) \<noteq> [] \<and>
     cstring (addr pa) \<noteq> cstring (addr da) \<and>
     (\<exists>n1 n2. xNameAssignDup (t_al e 0) normal_name = Inr n1 \<and> xNameAssignDup (t_al e 5) normal_dif = Inr n2))"

text \<open>C15. From the set-up to being found.  When nothing is missing, setting up the stack makes the normal process with
  id 1 and the shim with id 2 and brings the interface up; the start of the task has the shim announce that it
  is enrolled; and the first iteration of the task registers the normal process with the shim, so that the
  name of the process and that of its DIF, and no other, resolve to the hardware address of the interface.\<close>
theorem startup_registers:
  assumes "blank st" "a \<noteq> b" "plenty e mac" "names_fit e pa da"
  shows "\<exists>st1 st2 st3. set_up e rib fa a b pool hdr st = Done (True, st1) \<and>
    pxIpcManagerFindById 1 st1 = Done (Some a) \<and> pxIpcManagerFindById 2 st1 = Done (Some b) \<and>
    prvIPCPTask_start (stack_ops e rib) st1 = Done st2 \<and> ev_queue st2 = [eShimEnrolledEvent b] \<and>
    task_step (stack_ops e rib) now mem st2 = Done st3 \<and> ev_queue st3 = [] \<and>
    pxARPLookupGHA (xARP st3) (Some pa) = mac_ha mac \<and> pxARPLookupGHA (xARP st3) (Some da) = mac_ha mac \<and>
    (\<forall>k. gpa_ok k \<longrightarrow> \<not> xGPACmp (Some k) (Some pa) \<longrightarrow> \<not> xGPACmp (Some k) (Some da) \<longrightarrow> pxARPLookupGHA (xARP st3) (Some k) = None)"
proof -
  obtain st1 where s1: "set_up e rib fa a b pool hdr st = Done (True, st1)" "xIpcpTable st1 = inst_rows [a, b]"
    "ipcps st1 a = Some \<lparr>xId = 1, inst_type = eNormal\<rparr>" "ipcps st1 b = Some \<lparr>xId = 2, inst_type = eShimWiFi\<rparr>"
    "ev_queue st1 = []" "ev_places st1 = EVENT_QUEUE_MAX" "xPhyDev st1 = mac" "xARP st1 = replicate 4 empty_row"
    "xARPTimer st1 = xARPTimer st" "ipcp_name st1 = normal_name" "dif_name st1 = normal_dif"
    using set_up_result [OF assms(1-3)] by blast
  note pl = assms(3) [unfolded plenty_def] and nf = assms(4) [unfolded names_fit_def]
  have rows: "inst_rows [a, b] = List.map (\<lambda>a. \<lparr>pxIpcpInstance = Some a, row_active = True\<rparr>) [a, b] @
      replicate 3 \<lparr>pxIpcpInstance = None, row_active = False\<rparr>"
    by (simp add: inst_rows_def CFG_INSTANCES_IPCP_ENTRIES_def)
  have "\<forall>x \<in> set [a, b]. ipcps st1 x \<noteq> None" using s1(3,4) by simp
  note fr = find_in_rows [OF this]
  have ids: "pxIpcManagerFindById 1 st1 = Done (Some a)" "pxIpcManagerFindById 2 st1 = Done (Some b)"
    using fr s1(2-4) by (simp_all add: pxIpcManagerFindById_def rows)
  let ?s2 = "st1\<lparr>xIPCPTaskInitialised := True, ev_queue := [eShimEnrolledEvent b], ev_places := EVENT_QUEUE_MAX - 1\<rparr>"
  have st2: "prvIPCPTask_start (stack_ops e rib) st1 = Done ?s2"
    using s1(2-6) pl
    by (simp add: prvIPCPTask_start_def xIpcManagerRun_def rows numeral_eq_Suc stack_ops_def normal_ops_def shim_ops_def
        xShimEnable_def xSendEventStructToIPCPTask_def EVENT_QUEUE_MAX_def Let_def)
  let ?s = "?s2\<lparr>ev_queue := [], ev_places := EVENT_QUEUE_MAX\<rparr>" and ?ha = "\<lparr>xType = MAC_ADDR_802_3, xAddress = mac\<rparr>"
  have fn: "pxIpcManagerFindByType eNormal ?s = Done (Some a)"
    using fr s1(2-4) by (simp add: pxIpcManagerFindByType_def rows)
  have h: "gha_ok ?ha" using pl by (simp add: gha_ok_def)
  have mp: "mem_plenty (e_arp (t_shim e))" "malloc_ok (mem_addr (e_arp (t_shim e)))" using pl by (simp_all add: mem_plenty_def)
  have four: "replicate 4 empty_row = [empty_row, empty_row, empty_row, empty_row]" by (simp add: numeral_eq_Suc)
  have fa: "gpa_ok pa" "cstring (addr pa) \<noteq> []" "gpa_ok da" "cstring (addr da) \<noteq> []" using nf by simp_all
  obtain p1 where i1: "arp_insert (e_arp (t_shim e)) (replicate 4 empty_row) pa ?ha = Some ((replicate 4 empty_row)[0 := new_row p1 ?ha])"
    using insert_free [OF mp(1) fa(1,2) h, of "replicate 4 empty_row" 0] by (auto simp: four)
  obtain p2 where i2: "arp_insert (e_arp (t_shim e)) ((replicate 4 empty_row)[0 := new_row p1 ?ha]) da ?ha =
      Some ((replicate 4 empty_row)[0 := new_row p1 ?ha, 1 := new_row p2 ?ha])"
    using insert_free [OF mp(1) fa(3,4) h, of "(replicate 4 empty_row)[0 := new_row p1 ?ha]" 1] by (auto simp: four new_row_def)
  have ph: "xPhyDev ?s = mac" "xARP ?s = replicate 4 empty_row" using s1(7,8) by simp_all
  obtain n1 n2 where n: "xNameAssignDup (t_al e 0) normal_name = Inr n1" "xNameAssignDup (t_al e 5) normal_dif = Inr n2" using nf by blast
  obtain st3 where st3: "xShimApplicationRegister (t_shim e) (t_al e) (t_ok e) normal_name normal_dif ?s = Done (True, st3)" "ev_queue st3 = []"
    using register_succeeds [of "t_al e" normal_name n1 normal_dif n2 "t_shim e" ?s "t_ok e" pa da] n nf pl i1 i2 ph by auto
  have se: "settled (replicate 4 empty_row)" by (auto simp: settled_def cache_ok_def)
  have c: "settled (xARP ?s)" "pxARPLookupGHA (xARP ?s) (Some k) = None" if "gpa_ok k" for k
    using lookup_None [OF se that] se unfolding ph by (auto simp: pxARPLookupGHA_def)
  have cmp: "\<not> xGPACmp (Some da) (Some pa)" "\<not> xGPACmp (Some pa) (Some da)" using nf fa by (auto simp: cmp_cstring)
  have l: "length (xPhyDev ?s) = MAC_LEN" using pl ph by simp
  have nm: "pxNameToGPA (t_al e 1) (t_ok e 1) (t_al e 2) normal_name = Some pa" "pxNameToGPA (t_al e 3) (t_ok e 3) (t_al e 4) normal_dif = Some da"
    using nf by simp_all
  note rr = register_resolves [OF st3(1) nm(1) fa(1) nm(2) fa(3) cmp c(1) [OF fa(1)] mp(2) c(2) [OF fa(1)] c(2) [OF fa(3)] l
      i1 [folded ph] i2 [folded ph]]
  have "task_step (stack_ops e rib) now mem ?s2 = Done st3"
    using quiet_step [of ?s2 "eShimEnrolledEvent b" "[]"] assms(1) s1(4,9-11) fn st3(1)
    by (simp add: blank_def on_normal_def call_op_def stack_ops_def shim_ops_def EVENT_QUEUE_MAX_def)
  then show ?thesis using s1(1) ids st2 st3(2) rr c ph
    by (intro exI [of _ st1] exI [of _ ?s2] exI [of _ st3]) (auto simp: mac_ha_def)
qed

lemma startup_registers_witness:
  "\<exists>st :: shim_state. ev_queue st = [] \<and> pxARPLookupGHA (xARP st) (Some \<lparr>pucAddress = Some (ascii ''ue1.mobile.DIF/1//'' @ [0, 0]), uxLength = 19\<rparr>) =
    Some mac_a"
proof -
  let ?st = "(shim_demo mac_b mac_b (du_seg NB_RINA_DATA []))\<lparr>xIpcpTable := inst_rows [], xIPCPTaskInitialised := False\<rparr>"
  let ?pa = "\<lparr>pucAddress = Some (ascii ''ue1.mobile.DIF/1//'' @ [0, 0]), uxLength = 19\<rparr>"
  let ?da = "\<lparr>pucAddress = Some (ascii ''mobile.DIF///'' @ [0, 0]), uxLength = 14\<rparr>"
  have b: "blank ?st" using shim_demo_normal(3) by (simp add: blank_def)
  have "mem_plenty ample_mem" by (simp add: mem_plenty_def ample_mem_def malloc_ok_def)
  then have p: "plenty task_env_demo (xAddress mac_a)"
    by (simp add: plenty_def task_env_demo_def env_demo_def) (simp add: mac_a_def MAC_LEN_def)
  have g: "gpa_ok ?pa" "gpa_ok ?da" "cstring (addr ?pa) \<noteq> []" "cstring (addr ?da) \<noteq> []" "cstring (addr ?pa) \<noteq> cstring (addr ?da)"
    by (simp_all add: gpa_ok_def addr_def ascii_def cstring_def)
  have f: "names_fit task_env_demo ?pa ?da" using normal_names g by (simp add: names_fit_def task_env_demo_def)
  have "(90 :: nat) \<noteq> 91" "mac_ha (xAddress mac_a) = Some mac_a" by (simp_all add: mac_ha_def mac_a_def)
  then show ?thesis using startup_registers [OF b _ p f, of 91 90 "\<lambda>_ _ s. Done (True, s)" id 100 101 "(0, 0)" True] by auto
qed

end
