(* ===== verification/Serdes_Flow.thy ===== *)
theory Serdes_Flow
  imports Serdes
begin

text \<open>Flows and their serialisation (\<^verbatim>\<open>FlowAllocator_defs.h\<close>, \<^verbatim>\<open>SerDes/SerDesFlow.c\<close>), with the encoder and the
  decoder of the library as parameters.  The printing of a decoded message is left out.\<close>

section \<open>Flows\<close>

datatype fa_flow_state =
  eFA_EMPTY | eFA_ALLOCATION_IN_PROGRESS | eFA_ALLOCATED | eFA_WAITING_2_MPL_BEFORE_TEARING_DOWN | eFA_DEALLOCATED

record flow_t =
  fl_source :: rname
  fl_dest :: rname
  fl_hops :: u32
  fl_state :: fa_flow_state
  fl_retries :: u32
  fl_src_addr :: u8
  fl_remote_addr :: u8
  fl_con_src :: u8
  fl_con_qos :: u8
  fl_con_dst :: u8
  fl_cur_con :: u32
  fl_qos_name :: bytes
  fl_qos_id :: u8
  fl_partial :: bool
  fl_order :: bool
  fl_a_timer :: u32
  fl_dtcp :: bool
  fl_policy :: bytes
  fl_policy_version :: bytes
  fl_src_port :: u32
  fl_dst_port :: u32

section \<open>The message structure\<close>

text \<open>A name: the process name is required, the rest is optional.\<close>

record name_wire =
  nw_ApName :: bytes
  nw_ApInst :: wire_str
  nw_AeName :: wire_str
  nw_AeInst :: wire_str

record flow_wire =
  fw_source :: name_wire
  fw_dest :: name_wire
  fw_src_port :: u64
  fw_dst_port :: "bool \<times> u64"
  fw_src_addr :: u64
  fw_dst_addr :: "bool \<times> u64"
  fw_connections :: nat
  fw_con_qos :: "bool \<times> u32"
  fw_con_src :: "bool \<times> u32"
  fw_con_dst :: "bool \<times> u32"
  fw_has_qos :: bool
  fw_qos_name :: wire_str
  fw_qos_id :: "bool \<times> u32"
  fw_partial :: "bool \<times> bool"
  fw_order :: "bool \<times> bool"
  fw_has_dtp :: bool
  fw_has_policy :: bool
  fw_policy :: wire_str
  fw_policy_version :: wire_str
  fw_a_timer :: "bool \<times> u32"
  fw_dtcp :: "bool \<times> bool"
  fw_hops :: "bool \<times> u32"

text \<open>What arrives: a field of an optional structure needs the flag of the structure as well, and a connection
  has to be counted.\<close>

definition sent_name :: "name_wire \<Rightarrow> name_wire" where
  "sent_name n = n\<lparr>nw_ApInst := sent_str (nw_ApInst n), nw_AeName := sent_str (nw_AeName n), nw_AeInst := sent_str (nw_AeInst n)\<rparr>"

definition sent_in_str :: "bool \<Rightarrow> wire_str \<Rightarrow> wire_str" where
  "sent_in_str h s = sent_str (h \<and> fst s, snd s)"

definition sent_in_num :: "bool \<Rightarrow> bool \<times> ('n :: zero) \<Rightarrow> bool \<times> 'n" where
  "sent_in_num h s = sent_num (h \<and> fst s, snd s)"

definition sent_in_flag :: "bool \<Rightarrow> bool \<times> bool \<Rightarrow> bool \<times> bool" where
  "sent_in_flag h s = (h \<and> fst s, h \<and> fst s \<and> snd s)"

definition sent_flow :: "flow_wire \<Rightarrow> flow_wire" where
  "sent_flow w = w
    \<lparr>fw_source := sent_name (fw_source w), fw_dest := sent_name (fw_dest w), fw_dst_port := sent_num (fw_dst_port w),
     fw_dst_addr := sent_num (fw_dst_addr w), fw_con_qos := sent_in_num (0 < fw_connections w) (fw_con_qos w),
     fw_con_src := sent_in_num (0 < fw_connections w) (fw_con_src w),
     fw_con_dst := sent_in_num (0 < fw_connections w) (fw_con_dst w),
     fw_qos_name := sent_in_str (fw_has_qos w) (fw_qos_name w), fw_qos_id := sent_in_num (fw_has_qos w) (fw_qos_id w),
     fw_partial := sent_in_flag (fw_has_qos w) (fw_partial w), fw_order := sent_in_flag (fw_has_qos w) (fw_order w),
     fw_has_policy := (fw_has_dtp w \<and> fw_has_policy w),
     fw_policy := sent_in_str (fw_has_dtp w \<and> fw_has_policy w) (fw_policy w),
     fw_policy_version := sent_in_str (fw_has_dtp w \<and> fw_has_policy w) (fw_policy_version w),
     fw_a_timer := sent_in_num (fw_has_dtp w) (fw_a_timer w), fw_dtcp := sent_in_flag (fw_has_dtp w) (fw_dtcp w),
     fw_hops := sent_num (fw_hops w)\<rparr>"

section \<open>Operations\<close>

text \<open>\<open>szw\<close> and \<open>szv\<close> are the sizes of the message structure and of \<^verbatim>\<open>serObjectValue_t\<close>.\<close>

definition xSerDesFlowInit :: "u64 \<Rightarrow> u64 \<Rightarrow> (nat \<Rightarrow> heap) \<Rightarrow> rsrc_state \<Rightarrow> (nat option \<times> rsrc_state) run" where
  "xSerDesFlowInit szw szv ha st = pxRsrcNewPool (Some ''Flow SerDes'') (szw + szv) 1 1 0 (ha 0) (ha 1) (ha 2) st"

text \<open>The strings of a name are copied without setting the flags of the optional ones.\<close>

definition wire_name :: "rname \<Rightarrow> name_wire" where
  "wire_name n =
    \<lparr>nw_ApName = strncpy (pcProcessName n) NAME_SZ, nw_ApInst = (False, strncpy (pcProcessInstance n) NAME_SZ),
     nw_AeName = (False, strncpy (pcEntityName n) NAME_SZ), nw_AeInst = (False, strncpy (pcEntityInstance n) NAME_SZ)\<rparr>"

text \<open>The three strings of QoS and policy are copied without a limit.\<close>

definition flow_fill :: "flow_t \<Rightarrow> flow_wire outcome" where
  "flow_fill f =
    obind (strcpy_at 0 (fl_qos_name f) (replicate NAME_SZ 0)) (\<lambda>q.
    obind (strcpy_at 0 (fl_policy f) (replicate NAME_SZ 0)) (\<lambda>p.
    obind (strcpy_at 0 (fl_policy_version f) (replicate NAME_SZ 0)) (\<lambda>v.
      Done \<lparr>fw_source = wire_name (fl_source f), fw_dest = wire_name (fl_dest f), fw_src_port = ucast (fl_src_port f),
        fw_dst_port = (False, 0), fw_src_addr = ucast (fl_src_addr f), fw_dst_addr = (False, 0), fw_connections = 1,
        fw_con_qos = (True, ucast (fl_con_qos f)), fw_con_src = (True, ucast (fl_con_src f)),
        fw_con_dst = (True, ucast (fl_con_dst f)), fw_has_qos = True, fw_qos_name = (True, q),
        fw_qos_id = (True, ucast (fl_qos_id f)), fw_partial = (True, fl_partial f), fw_order = (True, fl_order f),
        fw_has_dtp = True, fw_has_policy = False, fw_policy = (True, p), fw_policy_version = (True, v),
        fw_a_timer = (True, fl_a_timer f), fw_dtcp = (True, fl_dtcp f), fw_hops = (True, fl_hops f)\<rparr>)))"

text \<open>The buffer starts \<open>szv * szv\<close> bytes behind the value and not \<open>szv\<close>, in a resource of \<open>szw + szv\<close> bytes; the
  encoder, asked for at most \<open>szw\<close> bytes, writes there.\<close>

definition pxSerDesFlowEncode ::
  "nat \<Rightarrow> nat \<Rightarrow> (nat \<Rightarrow> flow_wire \<Rightarrow> bytes option) \<Rightarrow> bool \<Rightarrow> flow_t \<Rightarrow> bytes outcome" where
  "pxSerDesFlowEncode szw szv enc mem f =
    obind (flow_fill f) (\<lambda>w.
      if \<not> mem then Fail ERR_OOM
      else
        (case enc szw w of
           None \<Rightarrow> Fail ERR_SERDES_ENCODING_FAIL
         | Some b \<Rightarrow> if szw + szv < szv * szv + length b then Crash else Done b))"

text \<open>\<open>mem\<close> is what the memory for the flow holds; a failed request for it goes unnoticed.  What does not
  arrive keeps what was in that memory, and a failure of the names loses it.\<close>

definition prvSerdesMsgDecodeFlow ::
  "flow_t option \<Rightarrow> allocator \<Rightarrow> allocator \<Rightarrow> flow_wire \<Rightarrow> flow_t outcome" where
  "prvSerdesMsgDecodeFlow mem al1 al2 w =
    obind (or_crash mem) (\<lambda>m.
    let m1 = (if fst (fw_dst_addr w) then m\<lparr>fl_remote_addr := ucast (snd (fw_dst_addr w))\<rparr> else m) in
    obind (of_res (xNameAssignFromPartsDup al1 (Some (nw_ApName (fw_dest w))) (Some (snd (nw_ApInst (fw_dest w))))
            (Some (snd (nw_AeName (fw_dest w)))) (Some (snd (nw_AeInst (fw_dest w)))))) (\<lambda>dst.
    obind (of_res (xNameAssignFromPartsDup al2 (Some (nw_ApName (fw_source w))) (Some (snd (nw_ApInst (fw_source w))))
            (Some (snd (nw_AeName (fw_source w)))) (Some (snd (nw_AeInst (fw_source w)))))) (\<lambda>src.
      let m2 = m1\<lparr>fl_dest := dst, fl_source := src\<rparr>;
          m3 = (if fst (fw_dst_port w) then m2\<lparr>fl_dst_port := ucast (snd (fw_dst_port w))\<rparr> else m2);
          m4 = m3\<lparr>fl_src_addr := ucast (fw_src_addr w), fl_src_port := ucast (fw_src_port w)\<rparr>;
          m5 = (if fst (fw_con_dst w) then m4\<lparr>fl_con_dst := ucast (snd (fw_con_dst w))\<rparr> else m4);
          m6 = (if fst (fw_con_src w) then m5\<lparr>fl_con_src := ucast (snd (fw_con_src w))\<rparr> else m5);
          m7 = (if fst (fw_con_qos w) then m6\<lparr>fl_con_qos := ucast (snd (fw_con_qos w))\<rparr> else m6) in
      Done m7)))"

definition pxSerDesFlowDecode ::
  "(bytes \<Rightarrow> flow_wire option) \<Rightarrow> flow_t option \<Rightarrow> allocator \<Rightarrow> allocator \<Rightarrow> bytes \<Rightarrow> flow_t outcome" where
  "pxSerDesFlowDecode dec mem al1 al2 b =
    obind (of_opt ERR_SERDES_DECODING_FAIL (dec b)) (prvSerdesMsgDecodeFlow mem al1 al2)"

section \<open>The way of a flow\<close>

definition flow_fits :: "flow_t \<Rightarrow> bool" where
  "flow_fits f =
    (strlen (pcProcessName (fl_source f)) < NAME_SZ \<and> strlen (pcProcessName (fl_dest f)) < NAME_SZ \<and>
     strlen (fl_qos_name f) < NAME_SZ \<and> strlen (fl_policy f) < NAME_SZ \<and> strlen (fl_policy_version f) < NAME_SZ)"

lemma fill_fits:
  assumes "flow_fits f"
  shows "\<exists>q p v. flow_fill f = Done
    \<lparr>fw_source = wire_name (fl_source f), fw_dest = wire_name (fl_dest f), fw_src_port = ucast (fl_src_port f),
        fw_dst_port = (False, 0), fw_src_addr = ucast (fl_src_addr f), fw_dst_addr = (False, 0), fw_connections = 1,
        fw_con_qos = (True, ucast (fl_con_qos f)), fw_con_src = (True, ucast (fl_con_src f)),
        fw_con_dst = (True, ucast (fl_con_dst f)), fw_has_qos = True, fw_qos_name = (True, q),
        fw_qos_id = (True, ucast (fl_qos_id f)), fw_partial = (True, fl_partial f), fw_order = (True, fl_order f),
        fw_has_dtp = True, fw_has_policy = False, fw_policy = (True, p), fw_policy_version = (True, v),
        fw_a_timer = (True, fl_a_timer f), fw_dtcp = (True, fl_dtcp f), fw_hops = (True, fl_hops f)\<rparr>"
proof -
  have c: "\<exists>b. strcpy_at 0 s (replicate NAME_SZ 0) = Done b" if "strlen s < NAME_SZ" for s
    using that by (simp add: strcpy_at_def mem_write_def or_crash_def strlen_def)
  obtain q p v where "strcpy_at 0 (fl_qos_name f) (replicate NAME_SZ 0) = Done q"
    "strcpy_at 0 (fl_policy f) (replicate NAME_SZ 0) = Done p" "strcpy_at 0 (fl_policy_version f) (replicate NAME_SZ 0) = Done v"
    using c assms unfolding flow_fits_def by meson
  then show ?thesis by (simp add: flow_fill_def)
qed

lemma decoded_name:
  assumes "malloc_ok al" "\<forall>n. al n \<noteq> None" "strlen (pcProcessName n) < NAME_SZ"
  shows "\<exists>m. xNameAssignFromPartsDup al (Some (nw_ApName (sent_name (wire_name n)))) (Some (snd (nw_ApInst (sent_name (wire_name n)))))
      (Some (snd (nw_AeName (sent_name (wire_name n))))) (Some (snd (nw_AeInst (sent_name (wire_name n))))) = Inr m \<and>
    components m = [cstring (pcProcessName n), [], [], []]"
proof -
  let ?p = "strncpy (pcProcessName n) NAME_SZ" and ?z = "replicate NAME_SZ 0 :: bytes"
  have z: "cstring ?z = []" by (simp add: NAME_SZ_def cstring_def)
  obtain blk where "al (strlen ?p + strlen ?z + strlen ?z + strlen ?z + 5) = Some blk" using assms(2) by blast
  from dup_parts [OF assms(1) this] obtain rest where
    "xNameAssignFromPartsDup al (Some ?p) (Some ?z) (Some ?z) (Some ?z) =
      Inr (name_at 0 (cstring ?p @ 0 # [] @ 0 # [] @ 0 # [] @ 0 # rest) (length (cstring ?p) + 1) (length (cstring ?p) + 2)
        (length (cstring ?p) + 3) True)" unfolding z by auto
  moreover have "components (name_at 0 (cstring ?p @ 0 # [] @ 0 # [] @ 0 # [] @ 0 # rest) (length (cstring ?p) + 1)
      (length (cstring ?p) + 2) (length (cstring ?p) + 3) True) = [cstring ?p, [], [], []]"
    by (simp add: components_def name_at_def cstring_app cstring_no_nul numeral_2_eq_2 numeral_3_eq_3)
  ultimately show ?thesis using cstring_strncpy [OF assms(3)]
    by (simp add: wire_name_def sent_name_def sent_str_def)
qed

lemma up_down [simp]:
  "ucast (ucast (x :: u8) :: u32) = x" "ucast (ucast (x :: u8) :: u64) = x" "ucast (ucast (y :: u32) :: u64) = y"
  by (rule bit_word_eqI, simp add: bit_simps)+

lemma decode_encoded:
  assumes "flow_fits f" "flow_fill f = Done w" "dec b = Some (sent_flow w)"
    and "malloc_ok al1" "malloc_ok al2" "\<forall>n. al1 n \<noteq> None" "\<forall>n. al2 n \<noteq> None"
  shows "\<exists>f'. pxSerDesFlowDecode dec (Some junk) al1 al2 b = Done f' \<and>
      fl_src_addr f' = fl_src_addr f \<and> fl_src_port f' = fl_src_port f \<and>
      fl_con_src f' = fl_con_src f \<and> fl_con_qos f' = fl_con_qos f \<and> fl_con_dst f' = fl_con_dst f \<and>
      components (fl_source f') = [cstring (pcProcessName (fl_source f)), [], [], []] \<and>
      components (fl_dest f') = [cstring (pcProcessName (fl_dest f)), [], [], []] \<and>
      fl_remote_addr f' = fl_remote_addr junk \<and> fl_dst_port f' = fl_dst_port junk"
proof -
  obtain q p v where w: "w = \<lparr>fw_source = wire_name (fl_source f), fw_dest = wire_name (fl_dest f), fw_src_port = ucast (fl_src_port f),
        fw_dst_port = (False, 0), fw_src_addr = ucast (fl_src_addr f), fw_dst_addr = (False, 0), fw_connections = 1,
        fw_con_qos = (True, ucast (fl_con_qos f)), fw_con_src = (True, ucast (fl_con_src f)),
        fw_con_dst = (True, ucast (fl_con_dst f)), fw_has_qos = True, fw_qos_name = (True, q),
        fw_qos_id = (True, ucast (fl_qos_id f)), fw_partial = (True, fl_partial f), fw_order = (True, fl_order f),
        fw_has_dtp = True, fw_has_policy = False, fw_policy = (True, p), fw_policy_version = (True, v),
        fw_a_timer = (True, fl_a_timer f), fw_dtcp = (True, fl_dtcp f), fw_hops = (True, fl_hops f)\<rparr>"
    using fill_fits [OF assms(1)] assms(2) by auto
  have fit: "strlen (pcProcessName (fl_source f)) < NAME_SZ" "strlen (pcProcessName (fl_dest f)) < NAME_SZ"
    using assms(1) by (simp_all add: flow_fits_def)
  obtain dst where d: "xNameAssignFromPartsDup al1 (Some (nw_ApName (sent_name (wire_name (fl_dest f)))))
      (Some (snd (nw_ApInst (sent_name (wire_name (fl_dest f)))))) (Some (snd (nw_AeName (sent_name (wire_name (fl_dest f))))))
      (Some (snd (nw_AeInst (sent_name (wire_name (fl_dest f)))))) = Inr dst"
    "components dst = [cstring (pcProcessName (fl_dest f)), [], [], []]"
    using decoded_name [OF assms(4,6) fit(2)] by blast
  obtain src where s: "xNameAssignFromPartsDup al2 (Some (nw_ApName (sent_name (wire_name (fl_source f)))))
      (Some (snd (nw_ApInst (sent_name (wire_name (fl_source f)))))) (Some (snd (nw_AeName (sent_name (wire_name (fl_source f))))))
      (Some (snd (nw_AeInst (sent_name (wire_name (fl_source f)))))) = Inr src"
    "components src = [cstring (pcProcessName (fl_source f)), [], [], []]"
    using decoded_name [OF assms(5,7) fit(1)] by blast
  show ?thesis using assms(3) d s
    by (simp add: w pxSerDesFlowDecode_def of_opt_def prvSerdesMsgDecodeFlow_def sent_flow_def sent_num_def sent_in_num_def
        of_res_def Let_def)
qed

text \<open>C38. A flow that is encoded and decoded, by a library that decodes what it encoded.  Its source address and
  port, the three ids of its connection and the process names at both ends arrive; the instances and the
  entity names arrive empty, because the flags of these fields are not set, and the address and the port of
  the destination are whatever the memory for the decoded flow held before.  A message longer than what
  the misplaced start of the buffer leaves in the resource is written past its end.\<close>
theorem flow_roundtrip:
  assumes "flow_fits f" "flow_fill f = Done w" "enc szw w = Some b" "dec b = Some (sent_flow w)"
    and "malloc_ok al1" "malloc_ok al2" "\<forall>n. al1 n \<noteq> None" "\<forall>n. al2 n \<noteq> None"
  shows "pxSerDesFlowEncode szw szv enc True f = (if szv * szv + length b \<le> szw + szv then Done b else Crash) \<and>
    (\<exists>f'. pxSerDesFlowDecode dec (Some junk) al1 al2 b = Done f' \<and>
      fl_src_addr f' = fl_src_addr f \<and> fl_src_port f' = fl_src_port f \<and>
      fl_con_src f' = fl_con_src f \<and> fl_con_qos f' = fl_con_qos f \<and> fl_con_dst f' = fl_con_dst f \<and>
      components (fl_source f') = [cstring (pcProcessName (fl_source f)), [], [], []] \<and>
      components (fl_dest f') = [cstring (pcProcessName (fl_dest f)), [], [], []] \<and>
      fl_remote_addr f' = fl_remote_addr junk \<and> fl_dst_port f' = fl_dst_port junk)"
  using decode_encoded [of f w dec b al1 al2 junk] assms by (simp add: pxSerDesFlowEncode_def)

definition flow_demo :: flow_t where
  "flow_demo =
    \<lparr>fl_source = vNameAssignFromPartsStatic (ascii ''a'' @ [0]) (ascii ''1'' @ [0]) [0] [0],
     fl_dest = vNameAssignFromPartsStatic (ascii ''b'' @ [0]) (ascii ''1'' @ [0]) [0] [0], fl_hops = 4,
     fl_state = eFA_ALLOCATION_IN_PROGRESS, fl_retries = 1, fl_src_addr = 1, fl_remote_addr = 3, fl_con_src = 7, fl_con_qos = 3,
     fl_con_dst = 0, fl_cur_con = 0, fl_qos_name = ascii ''unreliable'' @ [0], fl_qos_id = 3, fl_partial = False, fl_order = True,
     fl_a_timer = 300, fl_dtcp = False, fl_policy = ascii ''default'' @ [0], fl_policy_version = ascii ''0'' @ [0],
     fl_src_port = 5, fl_dst_port = 9\<rparr>"

lemma flow_roundtrip_witness:
  "\<exists>dec f'. pxSerDesFlowDecode dec (Some (flow_demo\<lparr>fl_remote_addr := 77\<rparr>)) (\<lambda>n. Some (replicate n 1)) (\<lambda>n. Some (replicate n 1)) [1] = Done f' \<and>
    fl_src_port f' = 5 \<and> fl_con_src f' = 7 \<and> fl_remote_addr f' = 77 \<and> components (fl_dest f') = [ascii ''b'', [], [], []]"
proof -
  have f: "flow_fits flow_demo" by code_simp
  then obtain w where w: "flow_fill flow_demo = Done w" using fill_fits by blast
  have "malloc_ok (\<lambda>n. Some (replicate n 1))" "\<forall>n. Some (replicate n (1 :: 8 word)) \<noteq> None" by (simp_all add: malloc_ok_def)
  from flow_roundtrip [where enc = "\<lambda>_ _. Some [1]" and b = "[1]" and dec = "\<lambda>_. Some (sent_flow w)", OF f w refl refl this(1,1,2,2), of 600 16 "flow_demo\<lparr>fl_remote_addr := 77\<rparr>"]
  have "\<exists>f'. pxSerDesFlowDecode (\<lambda>_. Some (sent_flow w)) (Some (flow_demo\<lparr>fl_remote_addr := 77\<rparr>)) (\<lambda>n. Some (replicate n 1))
      (\<lambda>n. Some (replicate n 1)) [1] = Done f' \<and>
    fl_src_port f' = 5 \<and> fl_con_src f' = 7 \<and> fl_remote_addr f' = 77 \<and> components (fl_dest f') = [ascii ''b'', [], [], []]"
    by (auto simp: flow_demo_def vNameAssignFromPartsStatic_def cstring_def ascii_def)
  then show ?thesis by blast
qed

end
