(* ===== verification/Flow_Request.thy ===== *)
theory Flow_Request
  imports Serdes_Flow
begin

text \<open>The flow allocator's requests (\<^verbatim>\<open>FlowAllocator/FlowAllocator.c\<close>): what is done for a flow that an application
  asks for, and what the answer of the other side does.  Both work on the state of the normal IPC process
  with its RIB and its neighbours.\<close>

section \<open>Set-up\<close>

text \<open>The list of instances it empties is not used; the table is zero from the allocation of the process.  The
  pool for encoded flows may not be there.\<close>

definition xFlowAllocatorInit :: "u64 \<Rightarrow> u64 \<Rightarrow> (nat \<Rightarrow> heap) \<Rightarrow> 'a efcp_state_scheme \<Rightarrow> (bool \<times> nat option \<times> 'a efcp_state_scheme) outcome" where
  "xFlowAllocatorInit szw szv ha st =
    obind (run_crash (xSerDesFlowInit szw szv ha (rs st))) (\<lambda>(p, r1). Done (True, p, st\<lparr>rs := r1\<rparr>))"

section \<open>A new flow\<close>

definition CFG_QoS_CUBE_ID :: u8 where "CFG_QoS_CUBE_ID = 3"
definition CFG_QoS_CUBE_NAME :: bytes where "CFG_QoS_CUBE_NAME = ascii ''unreliable'' @ [0]"
definition CFG_QoS_CUBE_PARTIAL_DELIVERY :: bool where "CFG_QoS_CUBE_PARTIAL_DELIVERY = False"
definition CFG_QoS_CUBE_ORDERED_DELIVERY :: bool where "CFG_QoS_CUBE_ORDERED_DELIVERY = True"
definition CFG_DTP_INITIAL_A_TIMER :: u32 where "CFG_DTP_INITIAL_A_TIMER = 300"
definition CFG_DTP_POLICY_SET_NAME :: bytes where "CFG_DTP_POLICY_SET_NAME = ascii ''default'' @ [0]"
definition CFG_DTP_POLICY_SET_VERSION :: bytes where "CFG_DTP_POLICY_SET_VERSION = ascii ''0'' @ [0]"
definition CFG_REMOTE_ADDRESS_AP_NAME :: bytes where "CFG_REMOTE_ADDRESS_AP_NAME = ascii ''rs1.mobile.DIF'' @ [0]"

definition prvFlowAllocatorSelectQoSCube :: "flow_t \<Rightarrow> flow_t" where
  "prvFlowAllocatorSelectQoSCube f =
    f\<lparr>fl_qos_id := CFG_QoS_CUBE_ID, fl_qos_name := CFG_QoS_CUBE_NAME, fl_partial := CFG_QoS_CUBE_PARTIAL_DELIVERY,
      fl_order := CFG_QoS_CUBE_ORDERED_DELIVERY\<rparr>"

text \<open>\<open>mem\<close> is what the memory for the flow holds; what is not set keeps it.\<close>

definition prvFlowAllocatorNewFlow :: "flow_t option \<Rightarrow> allocator \<Rightarrow> allocator \<Rightarrow> flow_handle \<Rightarrow> flow_t option" where
  "prvFlowAllocatorNewFlow mem al1 al2 h =
    (case mem of
       None \<Rightarrow> None
     | Some m \<Rightarrow>
         (case xNameAssignDup al1 (xLocal h) of
            Inl _ \<Rightarrow> None
          | Inr src \<Rightarrow>
              (case xNameAssignDup al2 (xRemote h) of
                 Inl _ \<Rightarrow> None
               | Inr dst \<Rightarrow>
                   Some ((prvFlowAllocatorSelectQoSCube
                     (m\<lparr>fl_source := src, fl_dest := dst, fl_hops := 4, fl_retries := 1,
                        fl_state := eFA_ALLOCATION_IN_PROGRESS, fl_src_addr := CFG_LOCAL_ADDRESS, fl_cur_con := 0\<rparr>))
                     \<lparr>fl_a_timer := CFG_DTP_INITIAL_A_TIMER, fl_policy := CFG_DTP_POLICY_SET_NAME,
                      fl_policy_version := CFG_DTP_POLICY_SET_VERSION\<rparr>))))"

section \<open>The request\<close>

text \<open>What a request gets from outside: the memory of the flow, of the names, of the flow allocator instance and
  of the connection, the sizes for the encoder, the encoder, memory for its result, and the address of the
  object.\<close>

record fa_env =
  r_flow :: "flow_t option"
  r_al1 :: allocator
  r_al2 :: allocator
  r_fai :: "nat option"
  r_con :: bool
  r_efcp :: "nat option"
  r_dtp :: bool
  r_szw :: nat
  r_szv :: nat
  r_enc :: "nat \<Rightarrow> flow_wire \<Rightarrow> bytes option"
  r_mem :: bool
  r_obj :: "nat option"

text \<open>\<^verbatim>\<open>sprintf\<close> of a number.\<close>

fun digits :: "nat \<Rightarrow> bytes" where
  "digits n = (if n < 10 then [of_nat (48 + n)] else digits (n div 10) @ [of_nat (48 + n mod 10)])"

declare digits.simps [simp del]

text \<open>The port id, of 32 bits without a sign, is printed with \<^verbatim>\<open>%d\<close>, and so as a signed number.\<close>

definition signed_digits :: "int \<Rightarrow> bytes" where
  "signed_digits i = (if i < 0 then ascii ''-'' else []) @ digits (nat \<bar>i\<bar>)"

definition flowObj :: "u8 \<Rightarrow> u32 \<Rightarrow> bytes" where
  "flowObj addr port = ascii ''/fa/flows/key='' @ digits (unat addr) @ ascii ''-'' @ signed_digits (sint port) @ [0]"

definition FN_FLOW_DELETE :: nat where "FN_FLOW_DELETE = 6"

definition zero_obj :: rib_obj where
  "zero_obj =
    \<lparr>obj_ribd = False, pvOwner = None, pvPriv = None, ucObjName = None, ucObjClass = None, ulObjInst = 0, fnStart = None,
     fnStop = None, fnCreate = None, fnDelete = None, fnRead = None, fnWrite = None, fnStartReply = None,
     fnStopReply = None, fnCreateReply = None, fnDeleteReply = None, fnReadReply = None, fnWriteReply = None,
     fnInit = None\<rparr>"

text \<open>The callback \<^verbatim>\<open>fnFree\<close> of the object is left out: nothing calls it.\<close>

definition flow_object :: "bytes option \<Rightarrow> rib_obj" where
  "flow_object nm = zero_obj\<lparr>ucObjClass := Some (ascii ''Flow'' @ [0]), ucObjName := nm, fnDelete := Some FN_FLOW_DELETE\<rparr>"

text \<open>The name of the object is on the stack: when the function returns, what it pointed at is gone.\<close>

definition drop_name :: "nat \<Rightarrow> 'a enr_state_scheme \<Rightarrow> 'a enr_state_scheme" where
  "drop_name a st = st\<lparr>rib_objs := (rib_objs st)(a := map_option (ucObjName_update (\<lambda>_. None)) (rib_objs st a))\<rparr>"

text \<open>The encoded flow is not sent to anyone.  \<open>self\<close> is the flow allocator, the owner of the object.\<close>

definition flow_to_rib ::
  "'a enr_state_scheme rib_env \<Rightarrow> fa_env \<Rightarrow> nat option \<Rightarrow> flow_t \<Rightarrow> 'a enr_state_scheme \<Rightarrow> 'a enr_state_scheme outcome" where
  "flow_to_rib env e self f st =
    (case pxSerDesFlowEncode (r_szw e) (r_szv e) (r_enc e) (r_mem e) f of
       Crash \<Rightarrow> Crash
     | Blocked \<Rightarrow> Blocked
     | _ \<Rightarrow>
         obind (or_crash (r_obj e)) (\<lambda>a.
           let st1 = st\<lparr>rib_objs := (rib_objs st)(a \<mapsto> flow_object (Some (flowObj (fl_src_addr f) (fl_src_port f))))\<rparr> in
           obind (xRibObjectAdd env self a st1) (\<lambda>(err, st2). Done (drop_name a st2))))"

definition vFlowAllocatorFlowRequest ::
  "'a enr_state_scheme rib_env \<Rightarrow> fa_env \<Rightarrow> nat option \<Rightarrow> u32 \<Rightarrow> nat \<Rightarrow> 'a enr_state_scheme \<Rightarrow> 'a enr_state_scheme outcome" where
  "vFlowAllocatorFlowRequest env e self port h st =
    obind (or_crash (handles st h)) (\<lambda>fh.
      let fl = prvFlowAllocatorNewFlow (r_flow e) (r_al1 e) (r_al2 e) fh in
      case r_fai e of
        None \<Rightarrow> Done st
      | Some a \<Rightarrow>
          let st1 = prvAddFlowRequestEntry a
                (st\<lparr>fais := (fais st)(a \<mapsto> \<lparr>fai_port = port, eFaiState = eFAI_NONE, pxFlowAllocatorHandle = h\<rparr>)\<rparr>) in
          obind (pxEnrollmentFindNeighbor (Some CFG_REMOTE_ADDRESS_AP_NAME) st1) (\<lambda>r.
            case r of
              None \<Rightarrow> Done st1
            | Some n \<Rightarrow>
                obind (or_crash fl) (\<lambda>f.
                obind (or_crash (nbrs st1 n)) (\<lambda>nb.
                  let f1 = f\<lparr>fl_remote_addr := xNeighborAddress nb, fl_src_port := port\<rparr> in
                  obind (xNormalConnectionCreateRequest (r_con e) (r_efcp e) (r_dtp e) port CFG_LOCAL_ADDRESS
                           (fl_remote_addr f1) (fl_qos_id f1) st1) (\<lambda>(cep, st2).
                    let st3 = snd (xNormalUpdateCepIdFlow port cep st2);
                        f2 = f1\<lparr>fl_con_src := cep, fl_con_qos := fl_qos_id f1, fl_con_dst := 0\<rparr> in
                    flow_to_rib env e self f2 st3)))))"

section \<open>The answer\<close>

text \<open>\<open>val\<close> is the value of the message, \<open>res\<close> its result; \<open>mem\<close> is what the memory for the decoded flow holds.\<close>

definition xFlowAllocatorHandleCreateR ::
  "(bytes \<Rightarrow> flow_wire option) \<Rightarrow> flow_t option \<Rightarrow> allocator \<Rightarrow> allocator \<Rightarrow> bytes option \<Rightarrow> u32 \<Rightarrow> 'a normal_state_scheme
     \<Rightarrow> (bool \<times> 'a normal_state_scheme) outcome" where
  "xFlowAllocatorHandleCreateR dec mem al1 al2 val res st =
    obind (or_crash val) (\<lambda>v.
      if res \<noteq> 0 then Done (False, st)
      else
        (case pxSerDesFlowDecode dec mem al1 al2 v of
           Crash \<Rightarrow> Crash
         | Blocked \<Rightarrow> Blocked
         | Fail _ \<Rightarrow> Done (False, st)
         | Done f \<Rightarrow>
             obind (pxFAFindInstance (fl_dst_port f) st) (\<lambda>r.
               case r of
                 None \<Rightarrow> Done (False, st)
               | Some a \<Rightarrow>
                   obind (xNormalConnectionModify (fl_con_dst f) (fl_remote_addr f) (fl_src_addr f) st) (\<lambda>(ok1, st1).
                     if \<not> ok1 then Done (False, st1)
                     else
                       obind (xNormalConnectionUpdate (fl_dst_port f) (fl_con_src f) (fl_con_dst f) st1) (\<lambda>(ok2, st2).
                         if \<not> ok2 then Done (False, st2)
                         else
                           obind (or_crash (fais st2 a)) (\<lambda>i.
                           obind (or_crash (handles st2 (pxFlowAllocatorHandle i))) (\<lambda>h.
                             Done (True, st2\<lparr>fais := (fais st2)(a \<mapsto> i\<lparr>eFaiState := eFAI_ALLOCATED\<rparr>),
                               handles := (handles st2)(pxFlowAllocatorHandle i \<mapsto>
                                 h\<lparr>nEventBits := nEventBits h OR eFLOW_BOUND\<rparr>)\<rparr>))))))))"

text \<open>Deleting is not done: each of the three functions only logs.\<close>

definition xFlowAllocatorHandleDeleteR :: "'s \<Rightarrow> bool \<times> 's" where
  "xFlowAllocatorHandleDeleteR st = (False, st)"

definition xFlowAllocatorHandleDelete :: "'s \<Rightarrow> status \<times> 's" where
  "xFlowAllocatorHandleDelete st = (Some ERR_ERR, st)"

definition vFlowAllocatorDeallocate :: "u32 \<Rightarrow> 's \<Rightarrow> 's" where
  "vFlowAllocatorDeallocate port st = st"

section \<open>What becomes of a request\<close>

definition listed :: "nat \<Rightarrow> u32 \<Rightarrow> nat \<Rightarrow> 'a fa_state_scheme \<Rightarrow> 'a fa_state_scheme" where
  "listed a port h st = prvAddFlowRequestEntry a
     (st\<lparr>fais := (fais st)(a \<mapsto> \<lparr>fai_port = port, eFaiState = eFAI_NONE, pxFlowAllocatorHandle = h\<rparr>)\<rparr>)"

lemma add_entry_rest [simp]:
  "fais (prvAddFlowRequestEntry a st) = fais st" "handles (prvAddFlowRequestEntry a st) = handles st"
  "fa_state.more (prvAddFlowRequestEntry a st) = fa_state.more st"
  by (simp_all add: prvAddFlowRequestEntry_def split: option.split)

lemma listed_rest: "fa_state.more (listed a port h st) = fa_state.more st" "handles (listed a port h st) = handles st"
  by (simp_all add: listed_def)

lemma listed_enr [simp]:
  "nbrs (listed a port h st) = nbrs st" "xNeighborsTable (listed a port h st) = xNeighborsTable st" "pxRmt (listed a port h st) = pxRmt st"
  "xFlowsList (listed a port h st) = xFlowsList st" "flows (listed a port h st) = flows st"
  "pxRibObjects (listed a port h st) = pxRibObjects st" "rib_objs (listed a port h st) = rib_objs st"
  "enr_state.more (listed a port h st) = enr_state.more st" "nbs (listed a port h st) = nbs st"
  by (simp_all add: listed_def prvAddFlowRequestEntry_def split: option.split)

lemma request_listed:
  assumes "handles st h = Some fh" "r_fai e = Some a"
  shows "vFlowAllocatorFlowRequest env e self port h st =
    obind (pxEnrollmentFindNeighbor (Some CFG_REMOTE_ADDRESS_AP_NAME) st) (\<lambda>r.
      case r of
        None \<Rightarrow> Done (listed a port h st)
      | Some n \<Rightarrow>
          obind (or_crash (prvFlowAllocatorNewFlow (r_flow e) (r_al1 e) (r_al2 e) fh)) (\<lambda>f.
          obind (or_crash (nbrs st n)) (\<lambda>nb.
            obind (xNormalConnectionCreateRequest (r_con e) (r_efcp e) (r_dtp e) port CFG_LOCAL_ADDRESS
                     (xNeighborAddress nb) (fl_qos_id f) (listed a port h st)) (\<lambda>(cep, st2).
              flow_to_rib env e self
                (f\<lparr>fl_remote_addr := xNeighborAddress nb, fl_src_port := port, fl_con_src := cep, fl_con_qos := fl_qos_id f,
                   fl_con_dst := 0\<rparr>) (snd (xNormalUpdateCepIdFlow port cep st2))))))"
proof -
  have "pxEnrollmentFindNeighbor nm (listed a port h st) = pxEnrollmentFindNeighbor nm st" for nm
    by (simp add: pxEnrollmentFindNeighbor_def)
  then show ?thesis using assms
    by (simp add: vFlowAllocatorFlowRequest_def listed_def [symmetric] Let_def cong: option.case_cong)
qed

text \<open>C37. What becomes of a request for a flow.  When no neighbour has the configured name of the remote process,
  the request returns: the flow is listed as not allocated, nothing else changes, and nobody is told.  When
  there is such a neighbour the process crashes, if the address of the neighbour is the one that
  \<^verbatim>\<open>pxEnrollmentCreateNeighInfo\<close> gives every neighbour, or if the pointer of the connections to the RMT is not
  set, as it is after the set-up of the stack.\<close>
theorem flow_request_fate:
  assumes "handles st h = Some fh" "r_fai e = Some a" "is_port_id_ok port"
  shows "(pxEnrollmentFindNeighbor (Some CFG_REMOTE_ADDRESS_AP_NAME) st = Done None \<longrightarrow>
      vFlowAllocatorFlowRequest env e self port h st = Done (listed a port h st) \<and>
      fa_state.more (listed a port h st) = fa_state.more st \<and> handles (listed a port h st) = handles st) \<and>
    (\<forall>n nb. pxEnrollmentFindNeighbor (Some CFG_REMOTE_ADDRESS_AP_NAME) st = Done (Some n) \<longrightarrow> nbrs st n = Some nb \<longrightarrow>
      xNeighborAddress nb = ADDRESS_WRONG \<or> \<not> pxRmt st \<and> r_efcp e \<noteq> None \<longrightarrow>
      vFlowAllocatorFlowRequest env e self port h st = Crash)"
proof (intro conjI allI impI)
  fix n nb
  assume n: "pxEnrollmentFindNeighbor (Some CFG_REMOTE_ADDRESS_AP_NAME) st = Done (Some n)" "nbrs st n = Some nb"
    and c: "xNeighborAddress nb = ADDRESS_WRONG \<or> \<not> pxRmt st \<and> r_efcp e \<noteq> None"
  have "is_cep_id_ok 1" by (simp add: is_cep_id_ok_def CEP_ID_WRONG_def)
  then have "xNormalConnectionCreateRequest (r_con e) (r_efcp e) (r_dtp e) port CFG_LOCAL_ADDRESS
      (xNeighborAddress nb) q (listed a port h st) = Crash" for q
    using c assms(3) by (auto simp: xNormalConnectionCreateRequest_def xEfcpConnectionCreate_def pxDtpCreate_def
        is_candidate_connection_ok_def Let_def)
  then show "vFlowAllocatorFlowRequest env e self port h st = Crash"
    using n by (cases "prvFlowAllocatorNewFlow (r_flow e) (r_al1 e) (r_al2 e) fh")
      (simp_all add: request_listed [OF assms(1,2)] or_crash_def)
qed (simp_all add: request_listed [OF assms(1,2)] listed_rest)

definition fa_demo :: "u8 \<Rightarrow> enr_state" where
  "fa_demo addr = (one_neighbor (rib_demo [] []))
    \<lparr>handles := [11 \<mapsto> (idle_handle 5)\<lparr>xLocal := fl_source flow_demo, xRemote := fl_dest flow_demo\<rparr>],
     xFlowsList := [70], flows := [70 \<mapsto> \<lparr>nf_port = 5, xActive = None, nf_state = ePORT_STATE_PENDING\<rparr>],
     pxRibObjects := [Some 4, None],
     xNeighborsTable := [\<lparr>pxNeighborInfo = Some 9, row_valid = True\<rparr>],
     nbrs := [9 \<mapsto> \<lparr>eEnrollmentState = eENROLLMENT_NONE, pcApName = Some CFG_REMOTE_ADDRESS_AP_NAME, xN1Port = 1,
       xNeighborAddress = addr, pcToken = None\<rparr>]\<rparr>"

definition fa_env_demo :: fa_env where
  "fa_env_demo = \<lparr>r_flow = Some flow_demo, r_al1 = (\<lambda>n. Some (replicate n 0)), r_al2 = (\<lambda>n. Some (replicate n 0)), r_fai = Some 20,
     r_con = True, r_efcp = Some 31, r_dtp = True, r_szw = 600, r_szv = 16, r_enc = (\<lambda>_ _. Some [1]), r_mem = True,
     r_obj = Some 40\<rparr>"

lemma fa_demo_neighbor:
  "pxEnrollmentFindNeighbor (Some CFG_REMOTE_ADDRESS_AP_NAME) (fa_demo x) = Done (Some 9)"
  "xNeighborAddress (the (nbrs (fa_demo x) 9)) = x"
  by (simp_all add: pxEnrollmentFindNeighbor_def fa_demo_def same_string_def)

lemma flow_request_fate_witness:
  "vFlowAllocatorFlowRequest quiet_env fa_env_demo None 5 11 (fa_demo 255) = Crash \<and>
   vFlowAllocatorFlowRequest quiet_env fa_env_demo None 5 11 ((fa_demo 3)\<lparr>xNeighborsTable := []\<rparr>) =
     Done (listed 20 5 11 ((fa_demo 3)\<lparr>xNeighborsTable := []\<rparr>))"
proof -
  have h: "handles (fa_demo x) 11 = Some (the (handles (fa_demo x) 11))" "nbrs (fa_demo x) 9 = Some (the (nbrs (fa_demo x) 9))" for x
    by (simp_all add: fa_demo_def)
  then have h2: "handles ((fa_demo 3)\<lparr>xNeighborsTable := []\<rparr>) 11 = Some (the (handles (fa_demo 3) 11))" by simp
  have e: "r_fai fa_env_demo = Some 20" "is_port_id_ok 5" by (simp_all add: fa_env_demo_def is_port_id_ok_def PORT_ID_WRONG_def)
  have n: "pxEnrollmentFindNeighbor (Some CFG_REMOTE_ADDRESS_AP_NAME) ((fa_demo 3)\<lparr>xNeighborsTable := []\<rparr>) = Done None"
    by (simp add: pxEnrollmentFindNeighbor_def)
  have "xNeighborAddress (the (nbrs (fa_demo 255) 9)) = ADDRESS_WRONG" by (simp add: fa_demo_neighbor ADDRESS_WRONG_def)
  then show ?thesis
    using flow_request_fate [where env = quiet_env and self = None, OF h(1) e] fa_demo_neighbor(1) h(2)
      flow_request_fate [where env = quiet_env and self = None, OF h2 e] n by blast
qed

text \<open>The rows before the object's are searched first.\<close>

lemma obind_assoc: "obind (obind r f) g = obind r (\<lambda>x. obind (f x) g)"
  by (cases r) simp_all

lemma object_loop_app:
  "object_loop objs nm (xs @ ys) =
    obind (object_loop objs nm xs) (\<lambda>r. case r of None \<Rightarrow> object_loop objs nm ys | Some a \<Rightarrow> Done (Some a))"
proof (induction xs)
  case (Cons x xs)
  show ?case
  proof (cases x)
    case (Some a)
    then show ?thesis using Cons.IH
      by (cases "objs a") (simp_all add: or_crash_def obind_assoc if_distrib [of "\<lambda>r. obind r _"] cong: if_cong)
  qed (simp add: Cons.IH)
qed simp

lemma object_loop_upd:
  "Some a \<notin> set xs \<Longrightarrow> object_loop (objs(a := y)) nm xs = object_loop objs nm xs"
proof (induction xs)
  case (Cons x xs)
  then show ?case by (cases x) (simp_all cong: if_cong)
qed simp

lemma fits_new_flow:
  assumes "prvFlowAllocatorNewFlow mem al1 al2 fh = Some f"
    "strlen (pcProcessName (fl_source f)) < NAME_SZ" "strlen (pcProcessName (fl_dest f)) < NAME_SZ"
  shows "flow_fits (f\<lparr>fl_remote_addr := x, fl_src_port := port, fl_con_src := cep, fl_con_qos := q, fl_con_dst := 0\<rparr>)"
proof -
  have "strlen CFG_QoS_CUBE_NAME < NAME_SZ" "strlen CFG_DTP_POLICY_SET_NAME < NAME_SZ" "strlen CFG_DTP_POLICY_SET_VERSION < NAME_SZ"
    by code_simp+
  moreover have "fl_qos_name f = CFG_QoS_CUBE_NAME" "fl_policy f = CFG_DTP_POLICY_SET_NAME"
    "fl_policy_version f = CFG_DTP_POLICY_SET_VERSION"
    using assms(1) by (auto simp: prvFlowAllocatorNewFlow_def prvFlowAllocatorSelectQoSCube_def split: option.splits sum.splits)
  ultimately show ?thesis using assms(2,3) by (simp add: flow_fits_def)
qed

lemma encode_goes:
  assumes "flow_fits f" "\<forall>w b. enc szw w = Some b \<longrightarrow> szv * szv + length b \<le> szw + szv"
  shows "pxSerDesFlowEncode szw szv enc mem f \<notin> {Crash, Blocked}"
proof -
  obtain w where "flow_fill f = Done w" using fill_fits [OF assms(1)] by blast
  then show ?thesis using assms(2) by (auto simp: pxSerDesFlowEncode_def simp flip: not_less split: option.split)
qed

lemma object_added:
  assumes "pxSerDesFlowEncode (r_szw e) (r_szv e) (r_enc e) (r_mem e) f \<notin> {Crash, Blocked}" "r_obj e = Some p"
    "find_idx (\<lambda>r. r = None) (pxRibObjects st) = Some k"
  shows "flow_to_rib env e self f st = Done (st\<lparr>pxRibObjects := (pxRibObjects st)[k := Some p],
    rib_objs := (rib_objs st)(p \<mapsto> (flow_object None)\<lparr>pvOwner := self, obj_ribd := True\<rparr>)\<rparr>)"
proof -
  have "fnInit (flow_object nm) = None" for nm by (simp add: flow_object_def zero_obj_def)
  moreover have "(flow_object (Some s))\<lparr>pvOwner := self, obj_ribd := True, ucObjName := None\<rparr> =
      (flow_object None)\<lparr>pvOwner := self, obj_ribd := True\<rparr>" for s by (simp add: flow_object_def zero_obj_def)
  ultimately show ?thesis using assms
    by (auto simp: flow_to_rib_def xRibObjectAdd_def drop_name_def or_crash_def split: outcome.split)
qed

lemma connection_made:
  assumes "is_port_id_ok port" "dst \<noteq> ADDRESS_WRONG" "pxRmt st" "q \<noteq> QOS_ID_WRONG"
  shows "\<exists>st2. xNormalConnectionCreateRequest True (Some x) True port CFG_LOCAL_ADDRESS dst q st = Done (1, st2) \<and>
    efcp_state.more st2 = efcp_state.more st \<and> nbs st2 = nbs st"
proof -
  have "is_cep_id_ok 1" "CFG_LOCAL_ADDRESS \<noteq> ADDRESS_WRONG"
    by (simp_all add: is_cep_id_ok_def CEP_ID_WRONG_def CFG_LOCAL_ADDRESS_def ADDRESS_WRONG_def)
  then show ?thesis using assms
    by (simp add: xNormalConnectionCreateRequest_def xEfcpConnectionCreate_def pxDtpCreate_def xEfcpImapAdd_def
        is_candidate_connection_ok_def Let_def is_port_id_ok_def)
qed

text \<open>C31. A request that goes through, for a neighbour with an address and a RIB with a free row.  The flow of the
  port gets the connection 1 and is no more allocated than before; nothing is handed to the RIB's output or
  written to a buffer.  What is left is an object in the first free row of the RIB, whose name was on the stack of
  the request, so that looking for any object not found in the rows before it reads memory that is gone.\<close>
theorem flow_object_dangles:
  assumes "handles st h = Some fh" "r_fai e = Some a" "is_port_id_ok port" "r_con e" "r_efcp e = Some x" "r_dtp e"
    "pxEnrollmentFindNeighbor (Some CFG_REMOTE_ADDRESS_AP_NAME) st = Done (Some n)" "nbrs st n = Some nb"
    "xNeighborAddress nb \<noteq> ADDRESS_WRONG" "pxRmt st"
    "prvFlowAllocatorNewFlow (r_flow e) (r_al1 e) (r_al2 e) fh = Some f"
    "strlen (pcProcessName (fl_source f)) < NAME_SZ" "strlen (pcProcessName (fl_dest f)) < NAME_SZ"
    "\<forall>w b. r_enc e (r_szw e) w = Some b \<longrightarrow> r_szv e * r_szv e + length b \<le> r_szw e + r_szv e"
    "r_obj e = Some p" "find_idx (\<lambda>r. r = None) (pxRibObjects st) = Some k" "Some p \<notin> set (pxRibObjects st)"
  shows "\<exists>st'. vFlowAllocatorFlowRequest env e self port h st = Done st' \<and>
    xNormalIsFlowAllocated port st' = xNormalIsFlowAllocated port st \<and>
    (\<forall>q fl. prvNormalFindFlow port st = Some q \<longrightarrow> flows st q = Some fl \<longrightarrow> flows st' q = Some (fl\<lparr>xActive := Some 1\<rparr>)) \<and>
    nbs st' = nbs st \<and> enr_state.more st' = enr_state.more st \<and> pxRibObjects st' = (pxRibObjects st)[k := Some p] \<and>
    (\<forall>nm. object_loop (rib_objs st) nm (take k (pxRibObjects st)) = Done None \<longrightarrow> pxRibObjectFind nm st' = Crash)"
proof -
  have "fl_qos_id f = 3" using assms(11)
    by (auto simp: prvFlowAllocatorNewFlow_def prvFlowAllocatorSelectQoSCube_def CFG_QoS_CUBE_ID_def split: option.splits sum.splits)
  then have q: "fl_qos_id f \<noteq> QOS_ID_WRONG" by (simp add: QOS_ID_WRONG_def)
  have l: "pxRmt (listed a port h st)" using assms(10) by simp
  obtain st2 where c: "xNormalConnectionCreateRequest (r_con e) (r_efcp e) (r_dtp e) port CFG_LOCAL_ADDRESS
      (xNeighborAddress nb) (fl_qos_id f) (listed a port h st) = Done (1, st2)"
    "efcp_state.more st2 = efcp_state.more (listed a port h st)" "nbs st2 = nbs (listed a port h st)"
    using connection_made [OF assms(3,9) l q, of x] assms(4-6) by auto
  have m: "xFlowsList st2 = xFlowsList st" "flows st2 = flows st" "pxRibObjects st2 = pxRibObjects st" "rib_objs st2 = rib_objs st"
    "enr_state.more st2 = enr_state.more st"
  proof -
    let ?l = "listed a port h st"
    have "xFlowsList st2 = xFlowsList ?l" "flows st2 = flows ?l" "pxRibObjects st2 = pxRibObjects ?l" "rib_objs st2 = rib_objs ?l"
      "enr_state.more st2 = enr_state.more ?l" using c(2) by (cases ?l, cases st2, simp)+
    then show "xFlowsList st2 = xFlowsList st" "flows st2 = flows st" "pxRibObjects st2 = pxRibObjects st"
      "rib_objs st2 = rib_objs st" "enr_state.more st2 = enr_state.more st" by simp_all
  qed
  let ?s3 = "snd (xNormalUpdateCepIdFlow port 1 st2)"
    and ?f = "f\<lparr>fl_remote_addr := xNeighborAddress nb, fl_src_port := port, fl_con_src := 1, fl_con_qos := fl_qos_id f, fl_con_dst := 0\<rparr>"
  have s3: "pxRibObjects ?s3 = pxRibObjects st" "rib_objs ?s3 = rib_objs st" "nbs ?s3 = nbs st"
    "enr_state.more ?s3 = enr_state.more st" "xFlowsList ?s3 = xFlowsList st"
    using m c(3) by (simp_all add: xNormalUpdateCepIdFlow_def on_flow_def split: option.split)
  have f2: "prvNormalFindFlow port st2 = prvNormalFindFlow port st" using m by (simp add: prvNormalFindFlow_def flow_no_def)
  have fl: "flows ?s3 = (case prvNormalFindFlow port st of None \<Rightarrow> flows st
      | Some q \<Rightarrow> (flows st)(q := map_option (\<lambda>fl. fl\<lparr>xActive := Some 1\<rparr>) (flows st q)))"
    using m f2 by (simp add: xNormalUpdateCepIdFlow_def on_flow_def split: option.split)
  let ?st' = "?s3\<lparr>pxRibObjects := (pxRibObjects st)[k := Some p],
    rib_objs := (rib_objs st)(p \<mapsto> (flow_object None)\<lparr>pvOwner := self, obj_ribd := True\<rparr>)\<rparr>"
  have free: "find_idx (\<lambda>r. r = None) (pxRibObjects ?s3) = Some k" using assms(16) s3(1) by simp
  have enc: "pxSerDesFlowEncode (r_szw e) (r_szv e) (r_enc e) (r_mem e) ?f \<notin> {Crash, Blocked}"
    by (rule encode_goes [OF fits_new_flow [OF assms(11-13)]]) (rule assms(14))
  note oa = object_added [OF enc assms(15) free, of env self]
  have r: "vFlowAllocatorFlowRequest env e self port h st = Done ?st'"
    using assms(7,8,11) c(1) oa s3 by (simp add: request_listed [OF assms(1,2)] or_crash_def)
  have no: "flow_no ?st' = flow_no st" by (auto simp: flow_no_def fl fun_eq_iff option.map_comp comp_def split: option.split)
  have "xNormalIsFlowAllocated port ?st' = xNormalIsFlowAllocated port st"
  proof -
    have "prvNormalFindFlow port ?st' = prvNormalFindFlow port st"
      using no s3(5) by (simp add: prvNormalFindFlow_def)
    then show ?thesis by (auto simp: xNormalIsFlowAllocated_def fl option.map_comp comp_def split: option.split)
  qed
  moreover have "pxRibObjectFind nm ?st' = Crash" if "object_loop (rib_objs st) nm (take k (pxRibObjects st)) = Done None" for nm
  proof -
    have k: "k < length (pxRibObjects st)" using assms(16) by (rule find_idx_lt)
    have "Some p \<notin> set (take k (pxRibObjects st))" using assms(17) by (meson in_set_takeD)
    with that have t: "object_loop (rib_objs ?st') nm (take k (pxRibObjects st)) = Done None"
      by (simp add: object_loop_upd)
    show ?thesis using k t
      by (simp add: pxRibObjectFind_def upd_conv_take_nth_drop object_loop_app same_string_def flow_object_def zero_obj_def or_crash_def)
  qed
  ultimately show ?thesis using r s3 fl by (intro exI [of _ ?st']) simp
qed

lemma flow_object_dangles_witness:
  "\<exists>st'. vFlowAllocatorFlowRequest quiet_env fa_env_demo None 5 11 (fa_demo 3) = Done st' \<and>
    pxRibObjectFind (Some [65, 0]) st' = Crash"
proof -
  let ?st = "fa_demo 3" and ?z = "\<lambda>n. Some (replicate n (0 :: 8 word))"
  have h: "handles ?st 11 = Some (the (handles ?st 11))" "nbrs ?st 9 = Some (the (nbrs ?st 9))" by (simp_all add: fa_demo_def)
  have e: "r_fai fa_env_demo = Some 20" "is_port_id_ok 5" "r_con fa_env_demo" "r_efcp fa_env_demo = Some 31" "r_dtp fa_env_demo"
    by (simp_all add: fa_env_demo_def is_port_id_ok_def PORT_ID_WRONG_def)
  have a: "xNeighborAddress (the (nbrs ?st 9)) \<noteq> ADDRESS_WRONG" "pxRmt ?st"
    by (simp_all add: fa_demo_neighbor ADDRESS_WRONG_def) (simp add: fa_demo_def one_neighbor_def rib_demo_def rib_state.defs enr_state.defs)
  have "malloc_ok ?z" by (simp add: malloc_ok_def)
  then have z: "\<exists>d. xNameAssignDup ?z n = Inr d \<and> cstring (pcProcessName d) = cstring (pcProcessName n)" for n
    using name_copy_parts [of ?z n] by simp
  have n: "the (handles ?st 11) = (idle_handle 5)\<lparr>xLocal := fl_source flow_demo, xRemote := fl_dest flow_demo\<rparr>"
    by (simp add: fa_demo_def)
  obtain s d where sd: "xNameAssignDup ?z (fl_source flow_demo) = Inr s" "cstring (pcProcessName s) = cstring (pcProcessName (fl_source flow_demo))"
    "xNameAssignDup ?z (fl_dest flow_demo) = Inr d" "cstring (pcProcessName d) = cstring (pcProcessName (fl_dest flow_demo))"
    using z by meson
  then obtain f where f: "prvFlowAllocatorNewFlow (r_flow fa_env_demo) (r_al1 fa_env_demo) (r_al2 fa_env_demo) (the (handles ?st 11)) = Some f"
    "fl_source f = s" "fl_dest f = d"
    by (auto simp: prvFlowAllocatorNewFlow_def fa_env_demo_def n prvFlowAllocatorSelectQoSCube_def)
  have l: "strlen (pcProcessName (fl_source f)) < NAME_SZ" "strlen (pcProcessName (fl_dest f)) < NAME_SZ"
    using sd(2,4) f(2,3) by (simp_all add: strlen_def flow_demo_def vNameAssignFromPartsStatic_def cstring_def ascii_def NAME_SZ_def)
  have c: "\<forall>w b. r_enc fa_env_demo (r_szw fa_env_demo) w = Some b \<longrightarrow>
      r_szv fa_env_demo * r_szv fa_env_demo + length b \<le> r_szw fa_env_demo + r_szv fa_env_demo"
    by (auto simp: fa_env_demo_def)
  have r: "r_obj fa_env_demo = Some 40" "find_idx (\<lambda>r. r = None) (pxRibObjects ?st) = Some 1" "Some 40 \<notin> set (pxRibObjects ?st)"
    by (simp_all add: fa_env_demo_def fa_demo_def)
  have "object_loop (rib_objs ?st) (Some [65, 0]) (take 1 (pxRibObjects ?st)) = Done None"
    by (simp add: fa_demo_def one_neighbor_def rib_demo_def rib_state.defs enr_state.defs same_string_def xRibConnectObject_def cstring_def)
  then show ?thesis
    using flow_object_dangles [where env = quiet_env and self = None, OF h(1) e fa_demo_neighbor(1) h(2) a f(1) l c r] by blast
qed

section \<open>What the answer does\<close>

definition live_connection :: "'a efcp_state_scheme \<Rightarrow> u8 \<Rightarrow> bool" where
  "live_connection st cep =
    (\<exists>e ef c. fst (pxEfcpImapFind cep st) = Some e \<and> efcps st e = Some ef \<and> xState ef \<noteq> eEfcpDeallocated \<and> pxConnection ef = Some c)"

lemma imap_find_fst:
  "fst (pxEfcpImapFind k (snd (pxEfcpImapFind cep st))) = fst (pxEfcpImapFind k st)"
proof (cases "find_idx (\<lambda>r. xCepIdKey r = cep) (xEfcpImapTable st)")
  case (Some x)
  note x = find_idx_lt [OF Some] find_idx_holds [OF Some]
  let ?t = "xEfcpImapTable st" and ?u = "(xEfcpImapTable st)[x := (xEfcpImapTable st ! x)\<lparr>ucValid := 1\<rparr>]"
  have nth: "xCepIdKey (?u ! j) = xCepIdKey (?t ! j) \<and> xEfcpValue (?u ! j) = xEfcpValue (?t ! j)" for j
    using x(1) by (cases "j = x") simp_all
  have "List.map xCepIdKey ?u = List.map xCepIdKey ?t" by (rule nth_equalityI) (use nth in simp_all)
  then have "find_idx (\<lambda>r. xCepIdKey r = k) ?u = find_idx (\<lambda>r. xCepIdKey r = k) ?t"
    using find_idx_map [of "\<lambda>c. c = k" xCepIdKey ?u] find_idx_map [of "\<lambda>c. c = k" xCepIdKey ?t] by argo
  then show ?thesis using Some nth by (simp add: pxEfcpImapFind_def split: option.split)
qed (simp add: pxEfcpImapFind_def)

lemma on_instance_live:
  assumes "live_connection st cep"
  shows "\<exists>st1. on_instance cep f st = Done (True, st1) \<and> efcp_state.more st1 = efcp_state.more st \<and> fais st1 = fais st \<and>
    handles st1 = handles st \<and> xFlowRequestTable st1 = xFlowRequestTable st \<and> (\<forall>k. live_connection st k \<longrightarrow> live_connection st1 k)"
proof -
  define s1 where "s1 = snd (pxEfcpImapFind cep st)"
  obtain e ef c where e: "fst (pxEfcpImapFind cep st) = Some e" "efcps st e = Some ef" "xState ef \<noteq> eEfcpDeallocated" "pxConnection ef = Some c"
    using assms by (auto simp: live_connection_def)
  have s1: "efcps s1 = efcps st" "fais s1 = fais st" "handles s1 = handles st" "xFlowRequestTable s1 = xFlowRequestTable st"
    "efcp_state.more s1 = efcp_state.more st"
    by (simp_all add: s1_def pxEfcpImapFind_def split: option.split)
  have f: "pxEfcpImapFind cep st = (Some e, s1)" using e(1) by (metis prod.collapse s1_def)
  let ?st1 = "s1\<lparr>efcps := (efcps s1)(e \<mapsto> ef\<lparr>pxConnection := Some (f c)\<rparr>)\<rparr>"
  have "fst (pxEfcpImapFind k ?st1) = fst (pxEfcpImapFind k s1)" for k by (simp add: pxEfcpImapFind_def split: option.split)
  moreover have "fst (pxEfcpImapFind k s1) = fst (pxEfcpImapFind k st)" for k unfolding s1_def by (rule imap_find_fst)
  ultimately have "live_connection ?st1 k" if "live_connection st k" for k
    using that e s1(1) unfolding live_connection_def by (auto split: if_splits)
  moreover have "on_instance cep f st = Done (True, ?st1)"
    using f e s1(1) by (simp add: on_instance_def or_crash_def)
  ultimately show ?thesis using s1 by (intro exI [of _ ?st1]) simp
qed

text \<open>C23. The positive answer to a request.  When the decoded flow names a port whose flow is the first one listed, and two
  live connections, the instance of the flow and the flow become allocated, the application is woken up, and
  from then on data posted to the port is queued for it.  A negative answer changes nothing.\<close>
theorem answer_allocates:
  assumes "pxSerDesFlowDecode dec mem al1 al2 v = Done f" "port = fl_dst_port f" "is_port_id_ok port"
    "pxFAFindInstance port st = Done (Some a)" "fais st a = Some i" "handles st (pxFlowAllocatorHandle i) = Some h"
    "live_connection st (fl_con_dst f)" "live_connection st (fl_con_src f)" "is_cep_id_ok (fl_con_dst f)" "is_cep_id_ok (fl_con_src f)"
    "prvNormalFindFlow port st = Some q" "flows st q = Some fl"
  shows "(\<exists>st'. xFlowAllocatorHandleCreateR dec mem al1 al2 (Some v) 0 st = Done (True, st') \<and>
      xNormalIsFlowAllocated port st' \<and> fais st' a = Some (i\<lparr>eFaiState := eFAI_ALLOCATED\<rparr>) \<and>
      handles st' (pxFlowAllocatorHandle i) = Some (h\<lparr>nEventBits := nEventBits h OR eFLOW_BOUND\<rparr>) \<and>
      (\<forall>du. xFlowAllocatorDuPost port du st' = Done (True, st'\<lparr>handles := (handles st')(pxFlowAllocatorHandle i \<mapsto>
        post_packet du (h\<lparr>nEventBits := nEventBits h OR eFLOW_BOUND\<rparr>))\<rparr>))) \<and>
    (res \<noteq> 0 \<longrightarrow> xFlowAllocatorHandleCreateR dec mem al1 al2 (Some v) res st = Done (False, st))"
proof -
  obtain st1 where s1: "xNormalConnectionModify (fl_con_dst f) (fl_remote_addr f) (fl_src_addr f) st = Done (True, st1)"
    "efcp_state.more st1 = efcp_state.more st" "fais st1 = fais st" "handles st1 = handles st"
    "xFlowRequestTable st1 = xFlowRequestTable st" "live_connection st1 (fl_con_src f)"
    using on_instance_live [OF assms(7)] assms(8)
    unfolding xNormalConnectionModify_def xEfcpConnectionModify_def by meson
  obtain st2 where s2: "xEfcpConnectionUpdate (fl_con_src f) (fl_con_dst f) st1 = Done (True, st2)"
    "efcp_state.more st2 = efcp_state.more st1" "fais st2 = fais st1" "handles st2 = handles st1"
    "xFlowRequestTable st2 = xFlowRequestTable st1"
    using on_instance_live [OF s1(6)] assms(9,10) unfolding xEfcpConnectionUpdate_def by (metis (no_types, lifting))
  have m: "xFlowsList st2 = xFlowsList st" "flows st2 = flows st" using s1(2) s2(2) by (cases st, cases st1, cases st2, simp)+
  have q: "prvNormalFindFlow port st2 = Some q" using assms(11) m by (simp add: prvNormalFindFlow_def flow_no_def)
  let ?s3 = "st2\<lparr>flows := (flows st)(q \<mapsto> fl\<lparr>nf_state := ePORT_STATE_ALLOCATED\<rparr>)\<rparr>"
  have u: "xNormalConnectionUpdate port (fl_con_src f) (fl_con_dst f) st1 = Done (True, ?s3)"
    using s2(1) q m assms(12) by (simp add: xNormalConnectionUpdate_def on_flow_def)
  let ?st' = "?s3\<lparr>fais := (fais st)(a \<mapsto> i\<lparr>eFaiState := eFAI_ALLOCATED\<rparr>),
    handles := (handles st)(pxFlowAllocatorHandle i \<mapsto> h\<lparr>nEventBits := nEventBits h OR eFLOW_BOUND\<rparr>)\<rparr>"
  have r: "xFlowAllocatorHandleCreateR dec mem al1 al2 (Some v) 0 st = Done (True, ?st')"
    using assms(1,2,4-6) s1 s2 u by (simp add: xFlowAllocatorHandleCreateR_def or_crash_def)
  have "find_loop ?st' port rs = find_loop st port rs" for rs
    using s1 s2 assms(5) by (induction rs) (auto simp: or_crash_def split: option.splits)
  then have i: "pxFAFindInstance port ?st' = Done (Some a)"
    using assms(4) s1 s2 by (simp add: pxFAFindInstance_def)
  have "flow_no ?st' = flow_no st" using assms(12) m by (auto simp: flow_no_def fun_eq_iff)
  then have "xNormalIsFlowAllocated port ?st'"
    using assms(11) m by (simp add: xNormalIsFlowAllocated_def prvNormalFindFlow_def)
  moreover have "xFlowAllocatorDuPost port du ?st' = Done (True, ?st'\<lparr>handles := (handles ?st')(pxFlowAllocatorHandle i \<mapsto>
        post_packet du (h\<lparr>nEventBits := nEventBits h OR eFLOW_BOUND\<rparr>))\<rparr>)" for du
    using assms(3) i by (simp add: xFlowAllocatorDuPost_def or_crash_def)
  moreover have "res \<noteq> 0 \<longrightarrow> xFlowAllocatorHandleCreateR dec mem al1 al2 (Some v) res st = Done (False, st)"
    by (simp add: xFlowAllocatorHandleCreateR_def or_crash_def)
  ultimately show ?thesis using r by (intro conjI exI [of _ ?st']) simp_all
qed

definition answer_demo :: normal_state where
  "answer_demo = (normal_demo (sample_state []) (nbs efcp_demo))
    \<lparr>xFlowsList := [70], flows := [70 \<mapsto> \<lparr>nf_port = 5, xActive = Some 1, nf_state = ePORT_STATE_PENDING\<rparr>]\<rparr>"

lemma answer_allocates_witness:
  "\<exists>dec st'. xFlowAllocatorHandleCreateR dec (Some (flow_demo\<lparr>fl_dst_port := 5\<rparr>)) (\<lambda>n. Some (replicate n 1)) (\<lambda>n. Some (replicate n 1))
      (Some [1]) 0 answer_demo = Done (True, st') \<and> xNormalIsFlowAllocated 5 st' \<and> \<not> xNormalIsFlowAllocated 5 answer_demo"
proof -
  let ?al = "\<lambda>n. Some (replicate n (1 :: 8 word))" and ?f = "flow_demo\<lparr>fl_con_src := 1, fl_con_dst := 1\<rparr>"
    and ?mem = "flow_demo\<lparr>fl_dst_port := 5\<rparr>"
  have ff: "flow_fits ?f" by code_simp
  then obtain w where w: "flow_fill ?f = Done w" using fill_fits by blast
  have al: "malloc_ok ?al" "\<forall>n. ?al n \<noteq> None" by (simp_all add: malloc_ok_def)
  let ?dec = "\<lambda>_ :: bytes. Some (sent_flow w)"
  obtain f where d: "pxSerDesFlowDecode ?dec (Some ?mem) ?al ?al [1] = Done f" "fl_con_src f = 1" "fl_con_dst f = 1" "fl_dst_port f = 5"
    using decode_encoded [OF ff w refl al(1,1,2,2), of ?mem "[1]"] by auto
  have k: "is_port_id_ok 5" "is_cep_id_ok 1" by (simp_all add: is_port_id_ok_def PORT_ID_WRONG_def is_cep_id_ok_def CEP_ID_WRONG_def)
  have i: "pxFAFindInstance 5 answer_demo = Done (Some 1)" "fais answer_demo 1 = Some (the (fais two_flows 1))"
    "handles answer_demo (pxFlowAllocatorHandle (the (fais two_flows 1))) = Some (idle_handle 5)"
    by (simp_all add: answer_demo_def normal_demo_def efcp_demo_def pxFAFindInstance_def add_entries_def
        prvAddFlowRequestEntry_def two_flows_def fa_init_def CFG_FLOWS_REQUEST_def find_idx_replicate numeral_eq_Suc)
  have l: "live_connection answer_demo 1"
    by (simp add: live_connection_def pxEfcpImapFind_def answer_demo_def normal_demo_def efcp_demo_def)
  have q: "prvNormalFindFlow 5 answer_demo = Some 70" "flows answer_demo 70 = Some \<lparr>nf_port = 5, xActive = Some 1, nf_state = ePORT_STATE_PENDING\<rparr>"
    "\<not> xNormalIsFlowAllocated 5 answer_demo"
    by (simp_all add: prvNormalFindFlow_def flow_no_def xNormalIsFlowAllocated_def answer_demo_def normal_demo_def)
  show ?thesis
    using answer_allocates [where res = 0, OF d(1) d(4) [symmetric] k(1) i] d(2,3) l k(2) q by metis
qed

end
