(* ===== verification/Rs_Time.thy ===== *)
theory Rs_Time
  imports Ipcp "HOL-Library.Signed_Division"
begin

text \<open>Waiting and time-outs (\<^verbatim>\<open>Portability/posix/posix_rstime.c\<close>).  What the clock says is an argument, \<open>None\<close>
  when it cannot be read.\<close>

definition rstime_waitsec :: "timespec option \<Rightarrow> u32 \<Rightarrow> timespec option" where
  "rstime_waitsec clk n = map_option (\<lambda>t. (fst t + unat n, snd t)) clk"

definition rstime_waitnsec :: "timespec option \<Rightarrow> u64 \<Rightarrow> timespec option outcome" where
  "rstime_waitnsec clk n =
    (case clk of
       None \<Rightarrow> Done None
     | Some t \<Rightarrow>
         (let s = fst t + unat n div 1000000000; ns = snd t + unat n mod 1000000000;
              (s1, ns1) = (if 1000000000 \<le> ns then (s + 1, ns - 1000000000) else (s, ns)) in
          if ns1 \<le> 999999999 then Done (Some (s1, ns1)) else Crash))"

definition xRsTimeSetTimeOut :: "timespec option \<Rightarrow> timespec \<Rightarrow> bool \<times> timespec" where
  "xRsTimeSetTimeOut clk t = (case clk of None \<Rightarrow> (False, t) | Some c \<Rightarrow> (True, c))"

definition SEC_TO_NS :: "u64 \<Rightarrow> u64" where "SEC_TO_NS sec = sec * 1000000000"

text \<open>The seconds are signed in the code: a product above \<open>2 ^ 63\<close>, of more than 292 years, has no defined value there.
  The clock counts from the boot, or from 1970 where there is no such clock.\<close>

definition ns_of :: "timespec \<Rightarrow> u64" where "ns_of t = SEC_TO_NS (of_nat (fst t)) + of_nat (snd t)"

text \<open>The product with 1000 is one of 32 bits; the difference is taken as a signed number.\<close>

definition xRsTimeCheckTimeOut :: "timespec option \<Rightarrow> timespec \<Rightarrow> u32 \<Rightarrow> bool \<times> timespec \<times> u32" where
  "xRsTimeCheckTimeOut clk t us =
    (case clk of
       None \<Rightarrow> (False, t, us)
     | Some c \<Rightarrow>
         (let done = ns_of t + ucast (us * 1000); left = done - ns_of c in
          (True, c, if 0 <s left then ucast (left div 1000) else 0)))"

section \<open>Counting down\<close>

definition nanos :: "timespec \<Rightarrow> nat" where "nanos t = fst t * 1000000000 + snd t"

lemma ns_of_nat: "ns_of t = of_nat (nanos t)"
  by (simp add: ns_of_def SEC_TO_NS_def nanos_def)

lemma unat_us:
  fixes us :: u32
  assumes "unat us < 4294968"
  shows "unat (us * 1000) = unat us * 1000"
  using assms by (simp add: unat_word_ariths)

text \<open>What is left after \<open>d\<close> nanoseconds of \<open>k\<close>.\<close>

lemma signed_left:
  assumes "k < 2 ^ 32" "d < 2 ^ 62"
  shows "(if 0 <s (of_nat k - of_nat d :: u64) then ucast ((of_nat k - of_nat d :: u64) div 1000) else 0 :: u32) =
    of_nat ((k - d) div 1000)"
proof (cases "d < k")
  case True
  then have e: "of_nat k - of_nat d = (of_nat (k - d) :: u64)" by simp
  have b: "k - d < 2 ^ 32" using assms(1) by simp
  then have u: "unat (of_nat (k - d) :: u64) = k - d" by (simp add: unsigned_of_nat take_bit_nat_eq_self)
  have "sint (of_nat (k - d) :: u64) = int (k - d)"
    using b by (simp add: signed_of_nat signed_take_bit_int_eq_self)
  then have "0 <s (of_nat (k - d) :: u64)" using True by (simp add: word_sless_alt)
  moreover have "(of_nat (k - d) :: u64) div 1000 = of_nat ((k - d) div 1000)"
    using u b by (simp add: word_unat_eq_iff unat_div_distrib unsigned_of_nat take_bit_nat_eq_self)
  then have "ucast ((of_nat (k - d) :: u64) div 1000) = (of_nat ((k - d) div 1000) :: u32)"
    using b by (simp add: word_unat_eq_iff unsigned_ucast_eq unsigned_of_nat take_bit_nat_eq_self)
  ultimately show ?thesis unfolding e by simp
next
  case False
  then have e: "of_nat k - of_nat d = (- of_nat (d - k) :: u64)" by simp
  have "sint (- of_nat (d - k) :: u64) = - int (d - k)"
  proof -
    have "- of_nat (d - k) = (word_of_int (- int (d - k)) :: u64)" by simp
    moreover have "signed_take_bit 63 (- int (d - k)) = - int (d - k)"
      using assms(2) by (intro signed_take_bit_int_eq_self) simp_all
    ultimately show ?thesis by (simp only: signed_of_int) simp
  qed
  then show ?thesis using False unfolding e by (simp add: word_sless_alt)
qed

lemma wait_nanos:
  assumes "snd t < 1000000000"
  shows "\<exists>w. rstime_waitnsec (Some t) n = Done (Some w) \<and> nanos w = nanos t + unat n \<and> snd w < 1000000000"
proof -
  have "unat n mod 1000000000 < 1000000000" by simp
  then have "snd t + unat n mod 1000000000 < 2000000000" using assms by linarith
  moreover have "unat n = unat n div 1000000000 * 1000000000 + unat n mod 1000000000" by simp
  ultimately show ?thesis by (auto simp: rstime_waitnsec_def Let_def nanos_def)
qed

text \<open>C40. Deadlines and time-outs.  The deadline for a wait is the current time plus the wait, with its nanoseconds below a
  second.  A check of a time-out of less than 4294968 microseconds leaves what the time since the last
  check has not used up, in whole microseconds, and zero when it is over; it makes the time of the check
  the new start.  The microseconds are multiplied in 32 bits, so a time-out of 4294968 is over at once.\<close>
theorem timeouts_count_down:
  assumes "snd t < 1000000000" "nanos t \<le> nanos c" "nanos c < nanos t + 2 ^ 62" "unat us < 4294968"
  shows "(\<exists>w. rstime_waitnsec (Some t) n = Done (Some w) \<and> nanos w = nanos t + unat n \<and> snd w < 1000000000) \<and>
    xRsTimeCheckTimeOut (Some c) t us = (True, c, of_nat ((unat us * 1000 - (nanos c - nanos t)) div 1000)) \<and>
    xRsTimeCheckTimeOut (Some t) t 4294968 = (True, t, 0)"
proof -
  have u: "ucast (us * 1000) = (of_nat (unat us * 1000) :: u64)"
    using unat_us [OF assms(4)] by (metis of_nat_unat)
  have "ns_of t + ucast (us * 1000) - ns_of c = (of_nat (unat us * 1000) - of_nat (nanos c - nanos t) :: u64)"
    using assms(2) unfolding u ns_of_nat by (simp add: of_nat_diff)
  moreover have "unat us * 1000 < 2 ^ 32" "nanos c - nanos t < 2 ^ 62" using assms(3,4) by simp_all
  ultimately have "xRsTimeCheckTimeOut (Some c) t us = (True, c, of_nat ((unat us * 1000 - (nanos c - nanos t)) div 1000))"
    using signed_left [of "unat us * 1000" "nanos c - nanos t"]
    by (simp only: xRsTimeCheckTimeOut_def Let_def option.case)
  moreover have "xRsTimeCheckTimeOut (Some t) t 4294968 = (True, t, 0)"
    by (simp add: xRsTimeCheckTimeOut_def Let_def)
  ultimately show ?thesis using wait_nanos [OF assms(1)] by blast
qed

lemma timeouts_count_down_witness:
  "xRsTimeCheckTimeOut (Some (7, 300000)) (7, 100000) 250 = (True, (7, 300000), 50)"
proof -
  have "snd (7 :: nat, 100000 :: nat) < 1000000000" "nanos (7, 100000) \<le> nanos (7, 300000)"
    "nanos (7, 300000) < nanos (7, 100000) + 2 ^ 62" "unat (250 :: u32) < 4294968" by (simp_all add: nanos_def)
  from timeouts_count_down [OF this] show ?thesis by (simp add: nanos_def)
qed

end
