(* ===== verification/Rina_Api.thy ===== *)
theory Rina_Api
  imports Ipcp_Task Flow_Request Rs_Time
begin

text \<open>What an application calls (\<^verbatim>\<open>RINA_API/RINA_API.c\<close>): asking for a flow, writing to it, reading from it and
  closing it.  An application runs beside the task of the stack and the threads that read the network; the
  turns these have while it waits are an argument.\<close>

section \<open>State\<close>

text \<open>The RIB and the neighbours are beside the tables of the task and the shim.  \<open>to_enr\<close> is what the functions
  of the flow allocator see of the whole, and \<open>of_enr\<close> puts back what they leave.\<close>

record api_state = shim_state +
  rib_side :: "unit enr_state_ext rib_state_ext"
  api_ipcp :: "nat option"
  api_pool :: "nat option"

definition to_enr :: "'a api_state_scheme \<Rightarrow> enr_state" where
  "to_enr st = normal_state.extend (normal_state.truncate st) (rib_side st)"

definition of_enr :: "enr_state \<Rightarrow> 'a api_state_scheme \<Rightarrow> 'a api_state_scheme" where
  "of_enr e st = normal_state.extend (normal_state.truncate e) (normal_state.more (st\<lparr>rib_side := normal_state.more e\<rparr>))"

definition on_rib :: "(enr_state \<Rightarrow> enr_state outcome) \<Rightarrow> 'a api_state_scheme \<Rightarrow> 'a api_state_scheme outcome" where
  "on_rib f st = obind (f (to_enr st)) (\<lambda>e. Done (of_enr e st))"

text \<open>An operation that may wait: \<open>None\<close> when it does not come back.\<close>

definition wbind :: "'a outcome option \<Rightarrow> ('a \<Rightarrow> 'b outcome option) \<Rightarrow> 'b outcome option" where
  "wbind m f =
    (case m of
       None \<Rightarrow> None
     | Some Crash \<Rightarrow> Some Crash
     | Some Blocked \<Rightarrow> Some Blocked
     | Some (Fail e) \<Rightarrow> Some (Fail e)
     | Some (Done x) \<Rightarrow> f x)"

lemma wbind_simps [simp]:
  "wbind None f = None" "wbind (Some Crash) f = Some Crash" "wbind (Some Blocked) f = Some Blocked"
  "wbind (Some (Fail err)) f = Some (Fail err)" "wbind (Some (Done x)) f = f x"
  by (simp_all add: wbind_def)

lemma wbind_mono [partial_function_mono]:
  fixes B :: "('x \<Rightarrow> 'y option) \<Rightarrow> 'c outcome option"
  assumes "mono_option B" "\<And>y. mono_option (\<lambda>f. C y f)"
  shows "mono_option (\<lambda>f. wbind (B f) (\<lambda>y. C y f))"
proof (rule monotoneI)
  fix f g :: "'x \<Rightarrow> 'y option"
  assume fg: "option.le_fun f g"
  have b: "B f = None \<or> B f = B g" and c: "C y f = None \<or> C y f = C y g" for y
    using assms [unfolded monotone_def, rule_format] fg by (simp_all add: flat_ord_def)
  show "option_ord (wbind (B f) (\<lambda>y. C y f)) (wbind (B g) (\<lambda>y. C y g))"
  proof (cases "B f")
    case (Some r)
    with b have "B g = Some r" by simp
    then show ?thesis using Some c by (cases r) (auto simp: flat_ord_def)
  qed (simp add: flat_ord_def)
qed

section \<open>Waiting\<close>

text \<open>\<^verbatim>\<open>prvWaitForBit\<close> of an application.  Before each look at the bits the others have a turn, the
  \<open>k\<close>th of which is \<open>others k\<close>; it may be to do nothing.\<close>

partial_function (option) wait_bit ::
  "(nat \<Rightarrow> 'a fa_state_scheme \<Rightarrow> 'a fa_state_scheme outcome) \<Rightarrow> nat \<Rightarrow> nat \<Rightarrow> u64 \<Rightarrow> 'a fa_state_scheme
     \<Rightarrow> (nat \<times> 'a fa_state_scheme) outcome option" where
  "wait_bit others k h b st =
    wbind (Some (others k st)) (\<lambda>st1.
    wbind (Some (or_crash (handles st1 h))) (\<lambda>fh.
      (case prvWaitForBit b True (nEventBits fh) of
         None \<Rightarrow> wait_bit others (k + 1) h b st1
       | Some bits \<Rightarrow> Some (Done (k + 1, st1\<lparr>handles := (handles st1)(h \<mapsto> fh\<lparr>nEventBits := bits\<rparr>)\<rparr>)))))"

text \<open>What a call gets from outside: the turns of the others, what the clock says at each reading, memory and
  addresses, and what the flow allocator gets.\<close>

record api_env =
  a_others :: "nat \<Rightarrow> api_state \<Rightarrow> api_state outcome"
  a_clk :: "nat \<Rightarrow> timespec option"
  a_handle :: "nat option"
  a_cond :: bool
  a_mutex :: bool
  a_al :: "nat \<Rightarrow> allocator"
  a_ev :: "nat \<Rightarrow> bool"
  a_nb :: "nat option"
  a_fa :: fa_env
  a_rib :: "enr_state rib_env"
  a_self :: "nat option"

definition xRINA_bind :: "api_env \<Rightarrow> nat \<Rightarrow> nat option \<Rightarrow> api_state \<Rightarrow> (nat \<times> bool \<times> api_state) outcome option" where
  "xRINA_bind e k r st =
    (case r of
       None \<Rightarrow> Some (Done (k, False, st))
     | Some h \<Rightarrow>
         wbind (Some (xSendEventStructToIPCPTask False (a_ev e 0) (eFlowBindEvent h) 0 st)) (\<lambda>(ok, st1).
           if \<not> ok then Some (Done (k, False, st1))
           else wbind (wait_bit (a_others e) k h eFLOW_BOUND st1) (\<lambda>(k1, st2). Some (Done (k1, True, st2)))))"

section \<open>Asking for a flow\<close>

text \<open>What the application may say about the flow it wants (\<^verbatim>\<open>struct rinaFlowSpec_t\<close>).\<close>

record rina_flow_spec =
  max_sdu_gap :: u64
  avg_bandwidth :: u64
  max_delay :: u32
  max_loss :: u16
  max_jitter :: u32
  in_order_delivery :: u8
  msg_boundaries :: u8

definition CFG_FLOW_DEFAULT_RECEIVE_BLOCK_TIME :: u32 where "CFG_FLOW_DEFAULT_RECEIVE_BLOCK_TIME = 100"
definition CFG_FLOW_DEFAULT_SEND_BLOCK_TIME :: u32 where "CFG_FLOW_DEFAULT_SEND_BLOCK_TIME = 100"
definition CFG_MAX_SDU_SIZE :: nat where "CFG_MAX_SDU_SIZE = 1000"

definition asked_spec :: "rina_flow_spec option \<Rightarrow> flow_spec" where
  "asked_spec s =
    (case s of
       None \<Rightarrow>
         \<lparr>ulAverageBandwidth = 0, ulAverageSduBandwidth = 0, ulDelay = 0, ulJitter = 0, usLoss = 10000, ulMaxAllowableGap = 10,
          xOrderedDelivery = False, xPartialDelivery = True, ulUndetectedBitErrorRate = 0, xMsgBoundaries = False\<rparr>
     | Some f \<Rightarrow>
         \<lparr>ulAverageBandwidth = ucast (avg_bandwidth f), ulAverageSduBandwidth = 0, ulDelay = max_delay f,
          ulJitter = max_jitter f, usLoss = max_loss f, ulMaxAllowableGap = ucast (max_sdu_gap f),
          xOrderedDelivery = (in_order_delivery f \<noteq> 0), xPartialDelivery = True, ulUndetectedBitErrorRate = 0,
          xMsgBoundaries = (msg_boundaries f \<noteq> 0)\<rparr>)"

definition prvRINACreateFlowRequest ::
  "api_env \<Rightarrow> bytes \<Rightarrow> bytes \<Rightarrow> bytes \<Rightarrow> rina_flow_spec option \<Rightarrow> api_state \<Rightarrow> (nat option \<times> api_state) outcome" where
  "prvRINACreateFlowRequest e dif loc rem spec st =
    (case a_handle e of
       None \<Rightarrow> Done (None, st)
     | Some h \<Rightarrow>
         if \<not> a_cond e \<or> \<not> a_mutex e then Done (None, st)
         else
           (case xNameAssignFromString (a_al e 0) dif of
              Inl _ \<Rightarrow> Done (None, st)
            | Inr d \<Rightarrow>
                (case xNameAssignFromString (a_al e 1) loc of
                   Inl _ \<Rightarrow> Done (None, st)
                 | Inr l \<Rightarrow>
                     (case xNameAssignFromString (a_al e 2) rem of
                        Inl _ \<Rightarrow> Done (None, st)
                      | Inr r \<Rightarrow>
                          obind (unIpcManagerReservePort st) (\<lambda>(port, st1).
                            Done (Some h, st1\<lparr>handles := (handles st1)(h \<mapsto>
                              \<lparr>xSendBlockTime = CFG_FLOW_DEFAULT_SEND_BLOCK_TIME,
                               xReceiveBlockTime = CFG_FLOW_DEFAULT_RECEIVE_BLOCK_TIME, usTimeout = 0, h_port = port,
                               xLocal = l, xRemote = r, xDifName = d, xFspec = asked_spec spec, xListWaitingPackets = [],
                               nEventBits = 0\<rparr>)\<rparr>))))))"

definition RINA_flowStatus :: "u32 \<Rightarrow> 'a task_state_scheme \<Rightarrow> bool outcome" where
  "RINA_flowStatus port st =
    obind (pxIpcManagerFindByType eNormal st) (\<lambda>r. obind (or_crash r) (\<lambda>a. Done (xNormalIsFlowAllocated port st)))"

text \<open>That the flow is there already makes no difference: the result is set anew.\<close>

definition prvConnect :: "api_env \<Rightarrow> nat \<Rightarrow> nat option \<Rightarrow> api_state \<Rightarrow> (nat \<times> bool \<times> api_state) outcome option" where
  "prvConnect e k r st =
    wbind (Some (case r of None \<Rightarrow> Done False | Some h \<Rightarrow> obind (or_crash (handles st h)) (\<lambda>fh. RINA_flowStatus (h_port fh) st))) (\<lambda>_.
    wbind (xRINA_bind e k r st) (\<lambda>(k1, ok, st1).
      case r of
        None \<Rightarrow> Some (Done (k1, ok, st1))
      | Some h \<Rightarrow>
          if \<not> ok then Some (Done (k1, False, st1))
          else
            wbind (Some (or_crash (handles st1 h))) (\<lambda>fh.
            wbind (Some (on_rib (vFlowAllocatorFlowRequest (a_rib e) (a_fa e) (a_self e) (h_port fh) h) st1)) (\<lambda>st2.
            wbind (Some (or_crash (handles st2 h))) (\<lambda>fh2.
            wbind (Some (xSendEventToIPCPTask False (a_ev e 1) eFATimerEvent
                (st2\<lparr>handles := (handles st2)(h \<mapsto> fh2\<lparr>usTimeout := 1\<rparr>)\<rparr>))) (\<lambda>(sent, st3).
              Some (Done (k1, sent, st3))))))))"

text \<open>The loop of \<^verbatim>\<open>RINA_flow_alloc\<close>, from its second test on; \<open>j\<close> counts the readings of the clock, \<open>t\<close> is the start,
  \<open>us\<close> what is left.  What becomes of \<^verbatim>\<open>xResult\<close> in it is not used.\<close>

partial_function (option) alloc_wait ::
  "api_env \<Rightarrow> nat \<Rightarrow> nat \<Rightarrow> nat \<Rightarrow> timespec \<Rightarrow> u32 \<Rightarrow> api_state \<Rightarrow> api_state outcome option" where
  "alloc_wait e k j h t us st =
    wbind (Some (or_crash (handles st h))) (\<lambda>fh.
    wbind (Some (RINA_flowStatus (h_port fh) st)) (\<lambda>done.
      if done then Some (Done st)
      else
        (let (ok, t1, us1) = xRsTimeCheckTimeOut (a_clk e j) t us in
         if ok then Some (Done st)
         else if us1 = 0 then Some (Done st)
         else wbind (wait_bit (a_others e) k h eFLOW_BOUND st) (\<lambda>(k1, st1). alloc_wait e k1 (j + 1) h t1 us1 st1))))"

text \<open>\<open>junk\<close> is what the time-out holds when the clock cannot be read.\<close>

definition RINA_flow_alloc ::
  "api_env \<Rightarrow> timespec \<Rightarrow> bytes \<Rightarrow> bytes \<Rightarrow> bytes \<Rightarrow> rina_flow_spec option \<Rightarrow> api_state \<Rightarrow> (u32 \<times> api_state) outcome option" where
  "RINA_flow_alloc e junk dif loc rem spec st =
    wbind (Some (prvRINACreateFlowRequest e dif loc rem spec st)) (\<lambda>(r, st1).
    wbind (Some (or_crash (api_ipcp st1))) (\<lambda>_.
    wbind (prvConnect e 0 r st1) (\<lambda>(k, ok, st2).
    wbind (Some (or_crash r)) (\<lambda>h.
    wbind (Some (or_crash (handles st2 h))) (\<lambda>fh.
    wbind
      (if ok \<or> xReceiveBlockTime fh = 0 then Some (Done st2)
       else alloc_wait e k 1 h (snd (xRsTimeSetTimeOut (a_clk e 0) junk)) (xReceiveBlockTime fh) st2) (\<lambda>st3.
    wbind (Some (or_crash (handles st3 h))) (\<lambda>fh3. Some (Done (h_port fh3, st3)))))))))"

section \<open>Writing and closing\<close>

text \<open>\<open>buf\<close> is the application's buffer; \<open>- 1\<close> is the largest value of \<^verbatim>\<open>size_t\<close>.  The error of sending counts as
  success.\<close>

definition RINA_flow_write :: "api_env \<Rightarrow> u32 \<Rightarrow> nat \<Rightarrow> nat \<Rightarrow> api_state \<Rightarrow> (u64 \<times> api_state) outcome" where
  "RINA_flow_write e port buf len st =
    (if CFG_MAX_SDU_SIZE < len then Crash
     else
       (case a_clk e 0 of
          None \<Rightarrow> Done (0, st)
        | Some t \<Rightarrow>
            obind (or_crash (api_pool st)) (\<lambda>_.
            obind (or_crash (pxNetBufNew (a_nb e) NB_RINA_DATA buf len (Some FreeButDont) (nbs st))) (\<lambda>r.
              case r of
                Inl _ \<Rightarrow> Done (- 1, st)
              | Inr (d, nb) \<Rightarrow>
                  (let st1 = st\<lparr>nbs := nb\<rparr>; (ok, t1, us) = xRsTimeCheckTimeOut (a_clk e 1) t (250 * 1000) in
                   if \<not> ok then Done (0, st1)
                   else
                     obind (xSendEventStructToIPCPTask False (a_ev e 0) (eRinaTxEvent port (Some d)) us st1) (\<lambda>(sent, st2).
                       if \<not> sent then Done (of_nat len, st2)
                       else obind (or_crash (vNetBufFree (nbs st2) d)) (\<lambda>nb2. Done (- 1, st2\<lparr>nbs := nb2\<rparr>)))))))) "

definition RINA_close :: "api_env \<Rightarrow> u32 \<Rightarrow> api_state \<Rightarrow> (bool \<times> api_state) outcome" where
  "RINA_close e port st =
    (if \<not> is_port_id_ok port then Done (False, st)
     else xSendEventStructToIPCPTask False (a_ev e 0) (eFlowDeallocateEvent port) 0 st)"

section \<open>Reading\<close>

text \<open>The loop of \<^verbatim>\<open>RINA_flow_read\<close>, from its first wait on: whether there is a packet.  The time that is left is
  computed and not looked at.\<close>

partial_function (option) read_wait ::
  "api_env \<Rightarrow> nat \<Rightarrow> nat \<Rightarrow> nat \<Rightarrow> timespec \<Rightarrow> u32 \<Rightarrow> api_state \<Rightarrow> (bool \<times> api_state) outcome option" where
  "read_wait e k j h t us st =
    wbind (wait_bit (a_others e) k h eFLOW_RECEIVE st) (\<lambda>(k1, st1).
    wbind (Some (or_crash (handles st1 h))) (\<lambda>fh.
      if xListWaitingPackets fh \<noteq> [] then Some (Done (True, st1))
      else
        (let (ok, t1, us1) = xRsTimeCheckTimeOut (a_clk e j) t us in
         if \<not> ok then Some (Done (False, st1)) else read_wait e k1 (j + 1) h t1 us1 st1)))"

text \<open>A size as the \<^verbatim>\<open>int32_t\<close> it is kept in, and that as a \<^verbatim>\<open>size_t\<close> again.\<close>

definition room_of :: "u32 \<Rightarrow> nat" where "room_of n = unat (scast n :: u64)"

text \<open>The first packet goes into the application's memory, of which \<open>len\<close> bytes are there; the function does not
  look at the length.\<close>

definition take_packet :: "nat \<Rightarrow> nat \<Rightarrow> api_state \<Rightarrow> (u32 \<times> bytes \<times> api_state) outcome" where
  "take_packet len h st =
    obind (or_crash (handles st h)) (\<lambda>fh.
      case xListWaitingPackets fh of
        [] \<Rightarrow> Crash
      | d # ds \<Rightarrow>
          (let st1 = st\<lparr>handles := (handles st)(h \<mapsto> fh\<lparr>xListWaitingPackets := ds\<rparr>)\<rparr> in
           obind (or_crash (unNetBufTotalSize (nbs st1) d)) (\<lambda>n.
           obind (or_crash (unNetBufRead (nbs st1) d 0 (room_of (of_nat n)))) (\<lambda>bs.
             if len < length bs then Crash
             else obind (or_crash (vNetBufFree (nbs st1) d)) (\<lambda>nb. Done (of_nat n, bs, st1\<lparr>nbs := nb\<rparr>))))))"

definition RINA_flow_read :: "api_env \<Rightarrow> u32 \<Rightarrow> nat \<Rightarrow> api_state \<Rightarrow> (u32 \<times> bytes \<times> api_state) outcome option" where
  "RINA_flow_read e port len st =
    wbind (Some (RINA_flowStatus port st)) (\<lambda>ok.
      if \<not> ok then Some (Done (0, [], st))
      else
        wbind (Some (or_crash (api_ipcp st))) (\<lambda>_.
        wbind (Some (pxFAFindFlowHandle port st)) (\<lambda>r.
        wbind (Some (or_crash r)) (\<lambda>h.
        wbind (Some (or_crash (handles st h))) (\<lambda>fh.
          if xListWaitingPackets fh \<noteq> [] then Some (take_packet len h st)
          else if xReceiveBlockTime fh = 0 then Some (Done (- 1, [], st))
          else
            (case a_clk e 0 of
               None \<Rightarrow> Some (Done (- 1, [], st))
             | Some t \<Rightarrow>
                 wbind (read_wait e 0 1 h t (xReceiveBlockTime fh) st) (\<lambda>(some, st1).
                   if some then Some (take_packet len h st1) else Some (Done (0, [], st1))))))))) "

section \<open>Set-up\<close>

text \<open>\<open>pool\<close> is the pool of the application's buffers, \<open>im\<close> the memory for the numbers, \<open>init\<close> what
  \<^verbatim>\<open>RINA_IPCPInit\<close> does, whose result is not looked at.\<close>

definition RINA_Init ::
  "bool \<Rightarrow> bool \<Rightarrow> bool \<Rightarrow> bool \<Rightarrow> (api_state \<Rightarrow> (bool \<times> api_state) outcome) \<Rightarrow> nat option \<Rightarrow> api_state \<Rightarrow> api_state outcome" where
  "RINA_Init im1 im2 im3 im4 init pool st =
    (let (ok, st1) = xIpcManagerInit im1 im2 im3 im4 st in
     if \<not> ok then Crash
     else
       obind (init st1) (\<lambda>(_, st2).
       obind (pxIpcManagerFindByType eNormal st2) (\<lambda>r.
       obind (or_crash r) (\<lambda>a.
       obind (or_crash pool) (\<lambda>p. Done (st2\<lparr>api_ipcp := Some a, api_pool := Some p\<rparr>))))))"

section \<open>Reading the first packet\<close>

lemma status_done: "RINA_flowStatus port st = Done b \<Longrightarrow> b = xNormalIsFlowAllocated port st"
  by (cases "pxIpcManagerFindByType eNormal st") (auto simp: RINA_flowStatus_def or_crash_def split: option.splits)

lemma room_of_size: "n < 2 ^ 31 \<Longrightarrow> room_of (of_nat n) = n"
proof -
  assume n: "n < 2 ^ 31"
  then have "sint (of_nat n :: u32) = int n" by (simp add: signed_of_nat signed_take_bit_int_eq_self)
  then have "scast (of_nat n :: u32) = (of_nat n :: u64)" by (simp add: scast_eq)
  then show ?thesis using n by (simp add: room_of_def unsigned_of_nat take_bit_nat_eq_self)
qed

lemma tail_read:
  assumes "tail_seg st t fs x b off d"
  shows "unNetBufRead st x 0 (length d) = Some d"
  using tail_parts [OF assms] tail_copy [OF assms, of "length d"] assms
  by (auto simp: unNetBufRead_def tail_seg_def Let_def)

lemma take_first:
  assumes "handles st h = Some fh" "xListWaitingPackets fh = d # ds" "tail_seg (nbs st) t fs d b off w" "length w < 2 ^ 31"
  shows "if len < length w then take_packet len h st = Crash
    else \<exists>nb. take_packet len h st = Done (of_nat (length w), w,
        st\<lparr>handles := (handles st)(h \<mapsto> fh\<lparr>xListWaitingPackets := ds\<rparr>), nbs := nb\<rparr>) \<and>
      (\<forall>z. cells nb z = (if z \<in> set (fs @ [d]) then None else cells (nbs st) z))"
proof -
  obtain nb where nb: "vNetBufFree (nbs st) d = Some nb" "\<forall>z. cells nb z = (if z \<in> set (fs @ [d]) then None else cells (nbs st) z)"
    using tail_free [OF assms(3)] by blast
  then show ?thesis using assms(1,2) tail_parts(5) [OF assms(3)] tail_read [OF assms(3)] room_of_size [OF assms(4)]
    by (auto simp: take_packet_def or_crash_def)
qed

text \<open>A process with the allocated flow 5, whose handle is at address 11, and a data unit at address 5.\<close>

definition api_demo :: "flow_handle \<Rightarrow> bytes \<Rightarrow> api_state" where
  "api_demo fh w = (shim_state.extend (shim_demo mac_b mac_a (du_seg NB_RINA_DATA w))
      (api_state.fields (normal_state.more (one_neighbor (rib_demo [] []))) (Some 91) (Some 101)))
    \<lparr>xFlowsList := [70], flows := [70 \<mapsto> \<lparr>nf_port = 5, xActive = Some 1, nf_state = ePORT_STATE_ALLOCATED\<rparr>],
     handles := [11 \<mapsto> fh]\<rparr>"

definition api_env_demo :: api_env where
  "api_env_demo = \<lparr>a_others = (\<lambda>_ s. Done s), a_clk = (\<lambda>_. Some (0, 0)), a_handle = Some 15, a_cond = True, a_mutex = True,
     a_al = (\<lambda>_. zeros), a_ev = (\<lambda>_. True), a_nb = Some 13, a_fa = fa_env_demo, a_rib = quiet_env, a_self = None\<rparr>"

lemma api_demo_shim:
  "xFlowRequestTable (api_demo fh w) = xFlowRequestTable efcp_demo" "fais (api_demo fh w) = fais two_flows"
  "handles (api_demo fh w) = [11 \<mapsto> fh]" "nbs (api_demo fh w) = du_seg NB_RINA_DATA w" "api_ipcp (api_demo fh w) = Some 91"
  "api_pool (api_demo fh w) = Some 101" "xIPCPTaskInitialised (api_demo fh w)" "ev_queue (api_demo fh w) = []"
  "0 < ev_places (api_demo fh w)" "\<not> bActive (xARPTimer (api_demo fh w))" "xFlowsList (api_demo fh w) = [70]"
  "flows (api_demo fh w) = [70 \<mapsto> \<lparr>nf_port = 5, xActive = Some 1, nf_state = ePORT_STATE_ALLOCATED\<rparr>]"
  "rib_side (api_demo fh w) = normal_state.more (one_neighbor (rib_demo [] []))"
  "ipcps (api_demo fh w) 91 = Some \<lparr>xId = 1, inst_type = eNormal\<rparr>"
  using shim_demo_task shim_demo_normal
  by (simp_all add: api_demo_def shim_demo_defs api_state.defs idle_timer_def EVENT_QUEUE_MAX_def efcp_demo_def split: option.split)

lemma api_demo_normal: "pxIpcManagerFindByType eNormal (api_demo fh w) = Done (Some 91)"
proof -
  have "ipcps (api_demo fh w) = ipcps (shim_demo mac_b mac_a (du_seg NB_RINA_DATA w))"
    "xIpcpTable (api_demo fh w) = xIpcpTable (shim_demo mac_b mac_a (du_seg NB_RINA_DATA w))"
    by (simp_all add: api_demo_def shim_demo_defs api_state.defs split: option.split)
  then show ?thesis using shim_demo_normal(1) [of mac_b mac_a "du_seg NB_RINA_DATA w"] by (simp add: pxIpcManagerFindByType_def)
qed

lemma api_demo_ready:
  "RINA_flowStatus 5 (api_demo fh w) = Done True" "pxFAFindInstance 5 (api_demo fh w) = Done (Some 1)"
  "pxFAFindFlowHandle 5 (api_demo fh w) = Done (Some 11)" "fais (api_demo fh w) 1 = Some \<lparr>fai_port = 5, eFaiState = eFAI_ALLOCATED, pxFlowAllocatorHandle = 11\<rparr>"
  "tail_seg (nbs (api_demo fh w)) NB_RINA_DATA [] 5 9 0 w"
proof -
  show "RINA_flowStatus 5 (api_demo fh w) = Done True"
    by (simp add: RINA_flowStatus_def api_demo_normal or_crash_def xNormalIsFlowAllocated_def prvNormalFindFlow_def flow_no_def api_demo_shim)
  show i: "pxFAFindInstance 5 (api_demo fh w) = Done (Some 1)"
    by (simp add: pxFAFindInstance_def api_demo_shim efcp_demo_def add_entries_def prvAddFlowRequestEntry_def two_flows_def
        fa_init_def CFG_FLOWS_REQUEST_def find_idx_replicate numeral_eq_Suc)
  show f: "fais (api_demo fh w) 1 = Some \<lparr>fai_port = 5, eFaiState = eFAI_ALLOCATED, pxFlowAllocatorHandle = 11\<rparr>"
    by (simp add: api_demo_shim two_flows_def)
  show "pxFAFindFlowHandle 5 (api_demo fh w) = Done (Some 11)"
    using i f by (simp add: pxFAFindFlowHandle_def pxFAFindInstance_def)
  show "tail_seg (nbs (api_demo fh w)) NB_RINA_DATA [] 5 9 0 w"
    using du_seg_one [of NB_RINA_DATA w] by (simp add: api_demo_shim one_seg_tail)
qed

text \<open>Reading from an allocated flow at which packets wait.  The bytes of the first packet are stored, their number is the
  result, the segments of the packet are released and the rest of the packets wait as before.  The length the
  caller gives is not looked at: a packet longer than the caller's memory is written past its end.\<close>
theorem read_gets_first:
  assumes "RINA_flowStatus port st = Done True" "api_ipcp st = Some i" "pxFAFindFlowHandle port st = Done (Some h)"
    "handles st h = Some fh" "xListWaitingPackets fh = d # ds" "tail_seg (nbs st) t fs d b off w" "length w < 2 ^ 31"
  shows "if len < length w then RINA_flow_read e port len st = Some Crash
    else \<exists>nb. RINA_flow_read e port len st = Some (Done (of_nat (length w), w,
        st\<lparr>handles := (handles st)(h \<mapsto> fh\<lparr>xListWaitingPackets := ds\<rparr>), nbs := nb\<rparr>)) \<and>
      (\<forall>z. cells nb z = (if z \<in> set (fs @ [d]) then None else cells (nbs st) z))"
proof -
  have "RINA_flow_read e port len st = Some (take_packet len h st)"
    using assms(1-5) by (simp add: RINA_flow_read_def or_crash_def)
  then show ?thesis using take_first [OF assms(4-7), of len] by (auto split: if_splits)
qed

section \<open>Waiting for a packet\<close>

lemma all_bits [simp]: "(bits OR w) OR NOT w = (- 1 :: u64)" "bits OR (w OR NOT w) = (- 1 :: u64)"
  by (rule bit_word_eqI, auto simp: bit_simps)+

text \<open>What writes the event bits of a handle that is there: a packet or an answer that comes in, the task that wakes up
  the one who asks, and the end of a wait.  Taking a packet out of the list is one of the steps too.\<close>

inductive bits_step :: "api_state \<Rightarrow> api_state \<Rightarrow> bool" where
  bits_post: "xFlowAllocatorDuPost port d st = Done (ok, st') \<Longrightarrow> bits_step st st'"
| bits_answer: "xFlowAllocatorHandleCreateR dec mem al1 al2 val res st = Done (ok, st') \<Longrightarrow> bits_step st st'"
| bits_wake: "vRINA_WakeUpFlowRequest h b st = Done st' \<Longrightarrow> bits_step st st'"
| bits_wait: "wait_bit (\<lambda>_. Done) k h b st = Some (Done (k', st')) \<Longrightarrow> bits_step st st'"
| bits_take: "take_packet len h st = Done (n, bs, st') \<Longrightarrow> bits_step st st'"

definition all_set :: "nat \<Rightarrow> 'a fa_state_scheme \<Rightarrow> bool" where
  "all_set h st = (\<exists>fh. handles st h = Some fh \<and> nEventBits fh = - 1)"

lemma wait_all_set:
  assumes "oth k s = Done st" "all_set h st" "b \<noteq> 0"
  shows "wait_bit oth k h b s = Some (Done (k + 1, st))"
proof -
  obtain fh where f: "handles st h = Some fh" "nEventBits fh = - 1" using assms(2) by (auto simp: all_set_def)
  have "prvWaitForBit b True (- 1) = Some (- 1)" using assms(3) by (simp add: prvWaitForBit_def)
  then have "wait_bit oth k h b s = Some (Done (k + 1, st\<lparr>handles := (handles st)(h \<mapsto> fh\<lparr>nEventBits := - 1\<rparr>)\<rparr>))"
    using assms(1) f by (subst wait_bit.simps) (simp add: or_crash_def)
  moreover have "fh\<lparr>nEventBits := - 1\<rparr> = fh" using f(2) by (cases fh) simp
  moreover have "(handles st)(h \<mapsto> fh) = handles st" by (rule fun_upd_idem [where f = "handles st", OF f(1)])
  ultimately show ?thesis by (simp only:) simp
qed

lemma wait_idle_value:
  "wait_bit oth k h b st = Some y \<Longrightarrow> oth = (\<lambda>_. Done) \<Longrightarrow> y = Done (k', st') \<Longrightarrow>
   \<exists>fh bits. handles st h = Some fh \<and> prvWaitForBit b True (nEventBits fh) = Some bits \<and>
    st' = st\<lparr>handles := (handles st)(h \<mapsto> fh\<lparr>nEventBits := bits\<rparr>)\<rparr>"
proof (induction oth k h b st y rule: wait_bit.raw_induct [rotated, consumes 1])
  case (1 w oth k h b st y)
  show ?case
  proof (cases "handles st h")
    case None
    then show ?thesis using 1(2-4) by (simp add: or_crash_def)
  next
    case (Some fh)
    show ?thesis
    proof (cases "prvWaitForBit b True (nEventBits fh)")
      case None
      then show ?thesis using 1(1) [of oth "k + 1" h b st y] 1(2-4) Some by (simp add: or_crash_def)
    next
      case bits: (Some bits)
      then have "st\<lparr>handles := (handles st)(h \<mapsto> fh\<lparr>nEventBits := bits\<rparr>)\<rparr> = st'" using 1(2-4) Some by (simp add: or_crash_def)
      then show ?thesis using Some bits by blast
    qed
  qed
qed

lemmas wait_idle = wait_idle_value [OF _ refl refl]

text \<open>Where the bits of a handle are all set, each of the steps leaves them so.\<close>

lemma or_ones [simp]: "(- 1 :: u64) OR x = - 1"
  by (rule bit_word_eqI) (simp add: bit_simps)

lemma handle_there: "or_crash r = Done y \<longleftrightarrow> r = Some y"
  by (cases r) (simp_all add: or_crash_def)

lemma on_instance_all_set: "all_set h st \<Longrightarrow> lands (all_set h) (on_instance cep f st)"
  by (auto simp: on_instance_def pxEfcpImapFind_def xEfcpDestroy_def all_set_def lands_def obind_Done
      split: prod.splits option.splits if_splits)

lemma modify_all_set: "all_set h st \<Longrightarrow> lands (all_set h) (xNormalConnectionModify c a b st)"
  by (simp add: xNormalConnectionModify_def xEfcpConnectionModify_def on_instance_all_set)

lemma update_all_set: "all_set h st \<Longrightarrow> lands (all_set h) (xNormalConnectionUpdate port c d st)"
  unfolding xNormalConnectionUpdate_def xEfcpConnectionUpdate_def
  by (rule lands_bind [where Q = "all_set h"])
    (auto intro!: lands_rules on_instance_all_set simp: on_flow_def all_set_def split: option.split)

lemma answer_all_set:
  assumes "all_set h st"
  shows "lands (all_set h) (xFlowAllocatorHandleCreateR dec mem al1 al2 val res st)"
proof -
  have "lands (all_set h) (case pxSerDesFlowDecode dec mem al1 al2 v of
       Crash \<Rightarrow> Crash | Blocked \<Rightarrow> Blocked | Fail _ \<Rightarrow> Done (False, st)
     | Done f \<Rightarrow> g f)" if "\<And>f. lands (all_set h) (g f)" for v and g
    using that assms by (cases "pxSerDesFlowDecode dec mem al1 al2 v") simp_all
  note decoded = this
  show ?thesis unfolding xFlowAllocatorHandleCreateR_def
    by (intro lands_rules decoded lands_bind [OF modify_all_set] lands_bind [OF update_all_set])
      (use assms in \<open>auto simp: all_set_def handle_there\<close>)
qed

lemma bits_stay: "bits_step st st' \<Longrightarrow> all_set h st \<Longrightarrow> all_set h st'"
proof (induction rule: bits_step.induct)
  case (bits_post port d st ok st')
  have "lands (all_set h) (xFlowAllocatorDuPost port d st)" using bits_post.prems
    unfolding xFlowAllocatorDuPost_def by (intro lands_rules) (auto simp: all_set_def post_packet_def handle_there)
  then show ?case using bits_post.hyps by (simp add: lands_def)
next
  case (bits_answer dec mem al1 al2 val res st ok st')
  then show ?case using answer_all_set [of h st dec mem al1 al2 val res] by (simp add: lands_def)
next
  case (bits_wake h b st st')
  then show ?case
    by (auto simp: vRINA_WakeUpFlowRequest_def obind_Done all_set_def or_crash_def split: if_splits option.splits)
next
  case (bits_wait k g b st k' st')
  show ?case
  proof (cases "handles st g")
    case None
    then show ?thesis using bits_wait.hyps by (subst (asm) wait_bit.simps) (simp add: or_crash_def)
  next
    case (Some fh)
    show ?thesis
    proof (cases "g = h \<and> b \<noteq> 0")
      case True
      then show ?thesis using wait_all_set [of "\<lambda>_. Done" k st st h b] bits_wait by simp
    next
      case False
      then show ?thesis using bits_wait Some wait_idle [of k g b st] by (auto simp: all_set_def prvWaitForBit_def)
    qed
  qed
next
  case (bits_take len g st n bs st')
  then show ?case
    by (auto simp: take_packet_def obind_Done all_set_def Let_def or_crash_def split: if_splits option.splits list.splits)
qed

text \<open>C16. A packet that is posted while the application waits.  The reader gets exactly its bytes, if its memory holds
  them, and the segments of the packet are released; a packet that is longer than the memory (but below 2 ^ 31 bytes, as the
  length is kept signed) overruns it.  And all the event bits of the flow are set from then on, for good: the wait sets the
  bits it means to leave and leaves the one it means to clear, whatever is posted, answered, woken up, waited for
  or taken afterwards leaves all of them set, and every later wait on the flow ends at its first look and changes
  nothing.\<close>
theorem posted_is_read:
  assumes "RINA_flowStatus port st = Done True" "api_ipcp st = Some i" "pxFAFindFlowHandle port st = Done (Some h)"
    "handles st h = Some fh" "xListWaitingPackets fh = []" "xReceiveBlockTime fh \<noteq> 0" "a_clk e 0 = Some now"
    "a_others e 0 st = obind (xFlowAllocatorDuPost port d st) (\<lambda>(ok, st1). Done st1)" "is_port_id_ok port"
    "pxFAFindInstance port st = Done (Some a)" "fais st a = Some f" "eFaiState f = eFAI_ALLOCATED" "pxFlowAllocatorHandle f = h"
    "tail_seg (nbs st) t fs d b off w" "length w < 2 ^ 31"
  shows "if len < length w then RINA_flow_read e port len st = Some Crash
    else \<exists>nb st'. st' = st\<lparr>handles := (handles st)(h \<mapsto> fh\<lparr>nEventBits := - 1\<rparr>), nbs := nb\<rparr> \<and>
      RINA_flow_read e port len st = Some (Done (of_nat (length w), w, st')) \<and>
      (\<forall>z. cells nb z = (if z \<in> set (fs @ [d]) then None else cells (nbs st) z)) \<and>
      (\<forall>st2. bits_step\<^sup>*\<^sup>* st' st2 \<longrightarrow> all_set h st2 \<and>
        (\<forall>oth k s bit. oth k s = Done st2 \<and> bit \<noteq> 0 \<longrightarrow> wait_bit oth k h bit s = Some (Done (k + 1, st2))))"
proof -
  let ?p = "post_packet d fh"
  have wl: "xListWaitingPackets ?p = [d]" using assms(5) by (simp add: post_packet_def)
  have "xFlowAllocatorDuPost port d st = Done (True, st\<lparr>handles := (handles st)(h \<mapsto> ?p)\<rparr>)"
    using assms(4,9-13) by (simp add: xFlowAllocatorDuPost_def or_crash_def)
  then have o: "a_others e 0 st = Done (st\<lparr>handles := (handles st)(h \<mapsto> ?p)\<rparr>)" using assms(8) by simp
  define p2 where "p2 = ?p\<lparr>nEventBits := - 1\<rparr>"
  have p2: "xListWaitingPackets p2 = [d]" "p2\<lparr>xListWaitingPackets := []\<rparr> = fh\<lparr>nEventBits := - 1\<rparr>"
    using wl assms(5) by (simp add: p2_def, cases fh) (simp add: p2_def post_packet_def)
  let ?s = "st\<lparr>handles := (handles st)(h \<mapsto> p2)\<rparr>"
  have "(nEventBits fh OR eFLOW_RECEIVE) AND eFLOW_RECEIVE \<noteq> 0"
  proof
    assume "(nEventBits fh OR eFLOW_RECEIVE) AND eFLOW_RECEIVE = 0"
    then have "bit ((nEventBits fh OR eFLOW_RECEIVE) AND eFLOW_RECEIVE) 0 = bit (0 :: u64) 0" by simp
    then show False by (simp add: eFLOW_RECEIVE_def bit_simps)
  qed
  then have "prvWaitForBit eFLOW_RECEIVE True (nEventBits ?p) = Some (- 1)" by (simp add: prvWaitForBit_def post_packet_def del: or.assoc)
  then have "wait_bit (a_others e) 0 h eFLOW_RECEIVE st = Some (Done (1, ?s))"
    using o by (subst wait_bit.simps) (simp add: or_crash_def p2_def)
  then have "read_wait e 0 1 h now (xReceiveBlockTime fh) st = Some (Done (True, ?s))"
    using p2(1) by (subst read_wait.simps) (simp add: or_crash_def)
  then have r: "RINA_flow_read e port len st = Some (take_packet len h ?s)"
    using assms(1-7) by (simp add: RINA_flow_read_def or_crash_def)
  have later: "all_set h st2 \<and> (\<forall>oth k s bit. oth k s = Done st2 \<and> bit \<noteq> 0 \<longrightarrow> wait_bit oth k h bit s = Some (Done (k + 1, st2)))"
    if "bits_step\<^sup>*\<^sup>* s0 st2" "all_set h s0" for s0 st2
  proof -
    have "all_set h st2" using that by (induction rule: rtranclp_induct) (simp_all add: bits_stay)
    then show ?thesis using wait_all_set by blast
  qed
  have t: "handles ?s h = Some p2" "tail_seg (nbs ?s) t fs d b off w" using assms(14) by simp_all
  have "all_set h (st\<lparr>handles := (handles st)(h \<mapsto> fh\<lparr>nEventBits := - 1\<rparr>), nbs := nb\<rparr>)" for nb by (simp add: all_set_def)
  then show ?thesis using take_first [OF t(1) p2(1) t(2) assms(15), of len] later unfolding r p2(2) by (auto split: if_splits)
qed

lemma posted_is_read_witness:
  "\<exists>st'. RINA_flow_read (api_env_demo\<lparr>a_others := (\<lambda>_ st. obind (xFlowAllocatorDuPost 5 5 st) (\<lambda>(ok, st1). Done st1))\<rparr>) 5 1500
    (api_demo ((idle_handle 5)\<lparr>xReceiveBlockTime := 100\<rparr>) [1, 2]) = Some (Done (2, [1, 2], st')) \<and> all_set 11 st' \<and>
   RINA_flow_read (api_env_demo\<lparr>a_others := (\<lambda>_ st. obind (xFlowAllocatorDuPost 5 5 st) (\<lambda>(ok, st1). Done st1))\<rparr>) 5 1
    (api_demo ((idle_handle 5)\<lparr>xReceiveBlockTime := 100\<rparr>) [1, 2]) = Some Crash"
proof -
  let ?h = "(idle_handle 5)\<lparr>xReceiveBlockTime := 100\<rparr>"
    and ?e = "api_env_demo\<lparr>a_others := (\<lambda>_ st. obind (xFlowAllocatorDuPost 5 5 st) (\<lambda>(ok, st1). Done st1))\<rparr>"
  have h: "handles (api_demo ?h [1, 2]) 11 = Some ?h" "xListWaitingPackets ?h = []" "xReceiveBlockTime ?h \<noteq> 0"
    "a_clk ?e 0 = Some (0, 0)" "length [1, 2 :: u8] < 2 ^ 31" "is_port_id_ok 5"
    "a_others ?e 0 (api_demo ?h [1, 2]) = obind (xFlowAllocatorDuPost 5 5 (api_demo ?h [1, 2])) (\<lambda>(ok, st1). Done st1)"
    by (simp_all add: api_demo_shim api_env_demo_def is_port_id_ok_def PORT_ID_WRONG_def)
  note r = posted_is_read [OF api_demo_ready(1) api_demo_shim(5) api_demo_ready(3) h(1-4,7,6) api_demo_ready(2,4) _ _ api_demo_ready(5) h(5)]
  from r [of 1500] obtain st' where "RINA_flow_read ?e 5 1500 (api_demo ?h [1, 2]) = Some (Done (2, [1, 2], st'))"
    "\<forall>st2. bits_step\<^sup>*\<^sup>* st' st2 \<longrightarrow> all_set 11 st2" by (auto simp: numeral_2_eq_2)
  then show ?thesis using r [of 1] by (intro exI [of _ st']) auto
qed

definition none_waits :: "nat \<Rightarrow> 'a fa_state_scheme \<Rightarrow> bool" where
  "none_waits h st = (\<exists>fh. handles st h = Some fh \<and> xListWaitingPackets fh = [])"

lemma wait_none:
  "wait_bit oth k h b st = Some y \<Longrightarrow> \<forall>k st. none_waits h st \<longrightarrow> (\<exists>st1. oth k st = Done st1 \<and> none_waits h st1) \<Longrightarrow>
   none_waits h st \<Longrightarrow> \<exists>k1 st1. y = Done (k1, st1) \<and> none_waits h st1"
proof (induction oth k h b st y rule: wait_bit.raw_induct [rotated, consumes 1])
  case (1 w oth k h b st y)
  obtain st1 where o1: "oth k st = Done st1" "none_waits h st1" using 1(3,4) by blast
  then obtain fh where fh: "handles st1 h = Some fh" "xListWaitingPackets fh = []" by (auto simp: none_waits_def)
  show ?case
  proof (cases "prvWaitForBit b True (nEventBits fh)")
    case None
    then show ?thesis using 1(1) [of oth "k + 1" h b st1 y] 1(2,3) o1 fh by (simp add: or_crash_def)
  next
    case (Some bits)
    then show ?thesis using 1(2) o1 fh by (auto simp: or_crash_def none_waits_def)
  qed
qed

lemma read_wait_none:
  "read_wait e k j h t us st = Some y \<Longrightarrow>
   \<forall>k st. none_waits h st \<longrightarrow> (\<exists>st1. a_others e k st = Done st1 \<and> none_waits h st1) \<Longrightarrow> \<forall>j. a_clk e j \<noteq> None \<Longrightarrow> \<not> none_waits h st"
proof (induction e k j h t us st y rule: read_wait.raw_induct [rotated, consumes 1])
  case (1 r e k j h t us st y)
  show ?case
  proof
    assume n: "none_waits h st"
    show False
    proof (cases "wait_bit (a_others e) k h eFLOW_RECEIVE st")
      case (Some z)
      from wait_none [OF this 1(3) n] obtain k1 st1 where z: "z = Done (k1, st1)" "none_waits h st1" by blast
      then obtain fh where fh: "handles st1 h = Some fh" "xListWaitingPackets fh = []" by (auto simp: none_waits_def)
      obtain c where c: "a_clk e j = Some c" using 1(4) by blast
      obtain t1 us1 where x: "xRsTimeCheckTimeOut (a_clk e j) t us = (True, t1, us1)" using c by (simp add: xRsTimeCheckTimeOut_def Let_def)
      have "r e k1 (j + 1) h t1 us1 st1 = Some y" using 1(2) Some z fh x by (simp add: or_crash_def)
      from 1(1) [OF this 1(3,4)] z(2) show False by blast
    qed (use 1(2) in simp)
  qed
qed

text \<open>C29. Reading never times out.  When no packet waits or comes, the others go on and the clock can be read, the call
  does not come back, whatever the time that was set for receiving, other than zero.\<close>
theorem read_never_times_out:
  assumes "RINA_flowStatus port st = Done True" "api_ipcp st = Some i" "pxFAFindFlowHandle port st = Done (Some h)"
    "handles st h = Some fh" "xListWaitingPackets fh = []" "xReceiveBlockTime fh \<noteq> 0" "\<forall>j. a_clk e j \<noteq> None"
    "\<forall>k st. none_waits h st \<longrightarrow> (\<exists>st1. a_others e k st = Done st1 \<and> none_waits h st1)"
  shows "RINA_flow_read e port len st = None"
proof -
  obtain t where t: "a_clk e 0 = Some t" using assms(7) by blast
  have n: "none_waits h st" using assms(4,5) by (simp add: none_waits_def)
  have "read_wait e 0 1 h t (xReceiveBlockTime fh) st = None"
    using read_wait_none [OF _ assms(8,7)] n by (cases "read_wait e 0 1 h t (xReceiveBlockTime fh) st") blast+
  then show ?thesis using assms(1-6) t by (simp add: RINA_flow_read_def or_crash_def)
qed

lemma read_never_times_out_witness:
  "RINA_flow_read api_env_demo 5 1500 (api_demo ((idle_handle 5)\<lparr>xReceiveBlockTime := 1\<rparr>) []) = None"
proof -
  let ?h = "(idle_handle 5)\<lparr>xReceiveBlockTime := 1\<rparr>"
  have h: "handles (api_demo ?h []) 11 = Some ?h" "xListWaitingPackets ?h = []" "xReceiveBlockTime ?h \<noteq> 0"
    "\<forall>j. a_clk api_env_demo j \<noteq> None"
    "\<forall>k st. none_waits 11 st \<longrightarrow> (\<exists>st1. a_others api_env_demo k st = Done st1 \<and> none_waits 11 st1)"
    by (simp_all add: api_demo_shim api_env_demo_def)
  show ?thesis by (rule read_never_times_out [OF api_demo_ready(1) api_demo_shim(5) api_demo_ready(3) h])
qed

section \<open>Writing\<close>

lemma put_cells: "(put s a n)\<lparr>cells := c\<rparr> = s\<lparr>cells := c\<rparr>"
  by (simp add: put_def)

text \<open>A buffer made and freed at once leaves no trace.\<close>

lemma made_and_freed:
  assumes "pxNetBufNew (Some d) t buf len (Some FreeButDont) st = Some (Inr (d, nb))" "cells st d = None"
  shows "vNetBufFree nb d = Some st"
proof -
  let ?c = "\<lparr>pxNext = None, pxFirst = d, eType = t, unSz = len, pxBuf = Some (buf, 0), pxBufStart = Some buf,
    xFreed = False, freemethod = Some FreeButDont\<rparr>"
  have nb: "nb = put st d ?c" using assms(1) by (simp add: pxNetBufNew_def split: if_splits)
  have w: "walk (cells (mark_freed nb d ?c)) (Some d) = Some [d]"
    by (simp add: mark_freed_def walk.simps)
  have "st\<lparr>cells := (cells st)(d := None)\<rparr> = st" using assms(2) by (metis fun_upd_triv nb_state.surjective nb_state.update_convs(1))
  then show ?thesis using w by (simp add: vNetBufFree_def nb Let_def drop_ref_def mark_freed_def call_free_def put_cells)
qed

text \<open>C26. Writing never gets anything out.  A write of no bytes fails the assertion on the size of a buffer.  For any
  other size up to the largest: when the event queue has a place, the application is told that it failed; the
  event is in the queue, but the buffer it points at is freed already, and the task does nothing for the
  event anyway.  When the queue stays full, or there is no memory for the event, the application is told that all was
  written, and the buffer is lost; a full queue with no time left is waited for without a limit.\<close>
theorem write_lost:
  assumes "len \<le> CFG_MAX_SDU_SIZE" "a_clk e 0 = Some t" "xRsTimeCheckTimeOut (a_clk e 1) t (250 * 1000) = (True, t1, us)"
    "api_pool st = Some p" "a_nb e = Some d" "cells (nbs st) d = None" "xIPCPTaskInitialised st"
  shows "(len = 0 \<longrightarrow> RINA_flow_write e port buf len st = Crash) \<and>
    (0 < len \<and> ev_places st \<noteq> 0 \<and> a_ev e 0 \<longrightarrow>
      RINA_flow_write e port buf len st =
        Done (- 1, st\<lparr>ev_queue := ev_queue st @ [eRinaTxEvent port (Some d)], ev_places := ev_places st - 1\<rparr>)) \<and>
    (0 < len \<and> ev_places st = 0 \<and> us \<noteq> 0 \<longrightarrow>
      (\<exists>nb. RINA_flow_write e port buf len st = Done (of_nat len, st\<lparr>nbs := nb\<rparr>) \<and> cells nb d \<noteq> None)) \<and>
    (0 < len \<and> ev_places st = 0 \<and> us = 0 \<longrightarrow> RINA_flow_write e port buf len st = Blocked) \<and>
    (0 < len \<and> ev_places st \<noteq> 0 \<and> \<not> a_ev e 0 \<longrightarrow>
      (\<exists>nb. RINA_flow_write e port buf len st = Done (of_nat len, st\<lparr>nbs := nb, ev_places := ev_places st - 1\<rparr>) \<and>
        cells nb d \<noteq> None)) \<and>
    handle_event ops (eRinaTxEvent port (Some d)) s = Done s"
proof -
  have 0: "RINA_flow_write e port buf 0 st = Crash" using assms(2,4) by (simp add: RINA_flow_write_def pxNetBufNew_def or_crash_def)
  have w: "\<exists>nb. cells nb d \<noteq> None \<and> vNetBufFree nb d = Some (nbs st) \<and> RINA_flow_write e port buf len st =
    obind (xSendEventStructToIPCPTask False (a_ev e 0) (eRinaTxEvent port (Some d)) us (st\<lparr>nbs := nb\<rparr>)) (\<lambda>(sent, st2).
      if \<not> sent then Done (of_nat len, st2)
      else obind (or_crash (vNetBufFree (nbs st2) d)) (\<lambda>nb2. Done (- 1, st2\<lparr>nbs := nb2\<rparr>)))" if l: "0 < len"
  proof -
    obtain nb where nb: "pxNetBufNew (Some d) NB_RINA_DATA buf len (Some FreeButDont) (nbs st) = Some (Inr (d, nb))" "cells nb d \<noteq> None"
      using l by (simp add: pxNetBufNew_def)
    then show ?thesis using assms(1-5) made_and_freed [OF nb(1) assms(6)]
      by (intro exI [of _ nb]) (simp add: RINA_flow_write_def or_crash_def not_less [symmetric])
  qed
  have 1: "RINA_flow_write e port buf len st =
      Done (- 1, st\<lparr>ev_queue := ev_queue st @ [eRinaTxEvent port (Some d)], ev_places := ev_places st - 1\<rparr>)"
    if "0 < len" "ev_places st \<noteq> 0" "a_ev e 0"
    using w [OF that(1)] that(2,3) assms(7) by (auto simp: xSendEventStructToIPCPTask_def or_crash_def Let_def)
  have 2: "\<exists>nb. RINA_flow_write e port buf len st = Done (of_nat len, st\<lparr>nbs := nb\<rparr>) \<and> cells nb d \<noteq> None"
    if "0 < len" "ev_places st = 0" "us \<noteq> 0"
    using w [OF that(1)] that(2,3) assms(7) by (auto simp: xSendEventStructToIPCPTask_def Let_def)
  have 3: "RINA_flow_write e port buf len st = Blocked" if "0 < len" "ev_places st = 0" "us = 0"
    using w [OF that(1)] that(2,3) assms(7) by (auto simp: xSendEventStructToIPCPTask_def Let_def)
  have 4: "\<exists>nb. RINA_flow_write e port buf len st = Done (of_nat len, st\<lparr>nbs := nb, ev_places := ev_places st - 1\<rparr>) \<and>
      cells nb d \<noteq> None" if "0 < len" "ev_places st \<noteq> 0" "\<not> a_ev e 0"
    using w [OF that(1)] that(2,3) assms(7) by (auto simp: xSendEventStructToIPCPTask_def Let_def)
  show ?thesis using 0 1 2 3 4 by auto
qed

lemma write_lost_witness:
  "RINA_flow_write api_env_demo 5 9 0 (api_demo (idle_handle 5) [1, 2]) = Crash \<and>
   (\<exists>st'. RINA_flow_write api_env_demo 5 9 2 (api_demo (idle_handle 5) [1, 2]) = Done (- 1, st') \<and> ev_queue st' = [eRinaTxEvent 5 (Some 13)] \<and>
    (\<exists>nb. RINA_flow_write api_env_demo 5 9 2 ((api_demo (idle_handle 5) [1, 2])\<lparr>ev_places := 0\<rparr>) =
      Done (2, (api_demo (idle_handle 5) [1, 2])\<lparr>ev_places := 0, nbs := nb\<rparr>)))"
proof -
  let ?s = "api_demo (idle_handle 5) [1, 2]"
  have e0: "0 \<le> CFG_MAX_SDU_SIZE" by simp
  have e: "2 \<le> CFG_MAX_SDU_SIZE" "a_clk api_env_demo 0 = Some (0, 0)" "a_nb api_env_demo = Some 13" "a_ev api_env_demo 0"
    by (simp_all add: CFG_MAX_SDU_SIZE_def api_env_demo_def)
  have x: "xRsTimeCheckTimeOut (a_clk api_env_demo 1) (0, 0) (250 * 1000) = (True, (0, 0), 250000)"
  proof -
    have "(0 :: u64) <s 250000000" by code_simp
    then show ?thesis by (simp add: api_env_demo_def xRsTimeCheckTimeOut_def ns_of_def SEC_TO_NS_def)
  qed
  have s: "cells (nbs ?s) 13 = None" "cells (nbs (?s\<lparr>ev_places := 0\<rparr>)) 13 = None" "xIPCPTaskInitialised (?s\<lparr>ev_places := 0\<rparr>)"
    "api_pool (?s\<lparr>ev_places := 0\<rparr>) = Some 101" "ev_places ?s \<noteq> 0"
    using api_demo_shim(7,9) by (simp_all add: api_demo_shim du_seg_def)
  show ?thesis
    using write_lost [where ops = "\<lambda>_ _. undefined" and s = ?s, OF e0 e(2) x api_demo_shim(6) e(3) s(1) api_demo_shim(7), of 5 9]
      write_lost [where ops = "\<lambda>_ _. undefined" and s = ?s, OF e(1,2) x api_demo_shim(6) e(3) s(1) api_demo_shim(7), of 5 9]
      write_lost [where ops = "\<lambda>_ _. undefined" and s = ?s, OF e(1,2) x s(4) e(3) s(2,3), of 5 9] s(5) e(4) api_demo_shim(8) by auto
qed

section \<open>Asking\<close>

lemma request_form:
  assumes "prvRINACreateFlowRequest e dif loc rem spec st = Done (Some h, st1)"
  shows "\<exists>fh im. a_handle e = Some h \<and> st1 = st\<lparr>pxPidm := im, handles := (handles st)(h \<mapsto> fh)\<rparr> \<and>
    xReceiveBlockTime fh = 100 \<and> nEventBits fh = 0 \<and> xListWaitingPackets fh = []"
  using assms
  by (cases "reserve (pxPidm st)")
    (auto simp: prvRINACreateFlowRequest_def unIpcManagerReservePort_def CFG_FLOW_DEFAULT_RECEIVE_BLOCK_TIME_def
      split: option.splits sum.splits if_splits intro!: exI)

lemma request_handle:
  assumes "prvRINACreateFlowRequest e dif loc rem spec st = Done (Some h, st1)" "handles st1 h = Some fh"
  obtains im where "a_handle e = Some h" "st1 = st\<lparr>pxPidm := im, handles := (handles st)(h \<mapsto> fh)\<rparr>" "xReceiveBlockTime fh = 100"
    "nEventBits fh = 0"
proof -
  obtain fh' im where r: "a_handle e = Some h" "st1 = st\<lparr>pxPidm := im, handles := (handles st)(h \<mapsto> fh')\<rparr>"
    "xReceiveBlockTime fh' = 100" "nEventBits fh' = 0" using request_form [OF assms(1)] by blast
  have "fh' = fh" using assms(2) r(2) by simp
  then show thesis using that r by blast
qed

text \<open>The flow allocator sees the same flows, and what it lists is listed for all.\<close>

lemma listed_through: "of_enr (listed a port h (to_enr st)) st = listed a port h st"
  by (cases st) (simp add: to_enr_def of_enr_def normal_state.defs listed_def prvAddFlowRequestEntry_def split: option.split)

lemma to_enr_handles: "handles (to_enr st) = handles st"
  by (simp add: to_enr_def normal_state.defs)

lemma neighbors_more:
  fixes s t :: enr_state
  shows "normal_state.more s = normal_state.more t \<Longrightarrow> pxEnrollmentFindNeighbor nm s = pxEnrollmentFindNeighbor nm t"
  by (cases s, cases t) (simp add: pxEnrollmentFindNeighbor_def)

lemma neighbors_side: "rib_side s = rib_side st \<Longrightarrow> pxEnrollmentFindNeighbor nm (to_enr s) = pxEnrollmentFindNeighbor nm (to_enr st)"
  by (rule neighbors_more) (simp add: to_enr_def normal_state.defs)

lemma listed_task [simp]:
  "ev_queue (listed a port h st) = ev_queue st" "ev_places (listed a port h st) = ev_places st"
  "xIPCPTaskInitialised (listed a port h st) = xIPCPTaskInitialised st" "xIpcpTable (listed a port h st) = xIpcpTable st"
  "flows (listed a port h st) = flows st" "xFlowsList (listed a port h st) = xFlowsList st"
  "ipcps (listed a port h st) = ipcps st" "fais (listed a port h st) a = Some \<lparr>fai_port = port, eFaiState = eFAI_NONE, pxFlowAllocatorHandle = h\<rparr>"
  by (simp_all add: listed_def prvAddFlowRequestEntry_def split: option.split)

text \<open>The turn in which the task takes the request: the flow is made, and the one who asks is woken up.\<close>

lemma bind_turn:
  assumes "ev_queue st = [eFlowBindEvent h]" "\<not> bActive (xARPTimer st)" "pxIpcManagerFindByType eNormal st = Done (Some i)"
    "ipcps st i = Some inst" "inst_type inst = eNormal" "handles st h = Some fh" "t_flow te = Some q"
  shows "task_step (stack_ops te rib) now mem st = Done (st\<lparr>ev_queue := [], ev_places := ev_places st + 1,
    flows := (flows st)(q \<mapsto> \<lparr>nf_port = h_port fh, xActive = None, nf_state = ePORT_STATE_PENDING\<rparr>),
    xFlowsList := second q (xFlowsList st), handles := (handles st)(h \<mapsto> fh\<lparr>nEventBits := nEventBits fh OR eFLOW_BOUND\<rparr>)\<rparr>)"
proof -
  let ?s = "st\<lparr>ev_queue := [], ev_places := ev_places st + 1\<rparr>"
  have "pxIpcManagerFindByType eNormal ?s = Done (Some i)" using find_type_cong [of ?s st eNormal] assms(3) by simp
  moreover have "eFLOW_BOUND \<noteq> 0" by (simp add: eFLOW_BOUND_def)
  ultimately show ?thesis using quiet_step [OF assms(2,1), of "stack_ops te rib" now mem] assms(4-7)
    by (simp add: on_normal_def call_op_def stack_ops_def normal_ops_def or_crash_def xNormalFlowPrebind_def vRINA_WakeUpFlowRequest_def)
qed

lemma wait_bound:
  assumes "oth k st = Done (st1 :: api_state)" "handles st1 h = Some fh" "nEventBits fh = b OR w" "w \<noteq> 0"
  shows "wait_bit oth k h w st = Some (Done (k + 1, st1\<lparr>handles := (handles st1)(h \<mapsto> fh\<lparr>nEventBits := - 1\<rparr>)\<rparr>))"
proof -
  have "(b OR w) AND w = w" by (rule bit_word_eqI) (auto simp: bit_simps)
  then have "prvWaitForBit w True (nEventBits fh) = Some (- 1)" using assms(3,4) by (simp add: prvWaitForBit_def)
  then show ?thesis using assms(1,2) by (subst wait_bit.simps) (simp add: or_crash_def)
qed

text \<open>C21. Asking for a flow when all goes well on this side and the remote process is not known.  The task makes the flow,
  the flow allocator lists it, and the application gets its port.  But the flow is pending: nobody was asked, its
  state is not allocated, and a read of the port answers 0 bytes.\<close>
theorem alloc_pending:
  assumes "prvRINACreateFlowRequest e dif loc rem spec st = Done (Some h, st1)" "handles st1 h = Some fh"
    "api_ipcp st = Some i0" "pxIpcManagerFindByType eNormal st = Done (Some i)" "ipcps st i = Some inst" "inst_type inst = eNormal"
    "xIPCPTaskInitialised st" "ev_queue st = []" "0 < ev_places st" "a_ev e = (\<lambda>_. True)" "\<not> bActive (xARPTimer st)"
    "a_others e 0 = task_step (stack_ops te rib) now mem" "t_flow te = Some q" "r_fai (a_fa e) = Some a"
    "pxEnrollmentFindNeighbor (Some CFG_REMOTE_ADDRESS_AP_NAME) (to_enr st) = Done None"
    "prvNormalFindFlow (h_port fh) st = None" "q \<notin> set (xFlowsList st)"
  shows "\<exists>st'. RINA_flow_alloc e junk dif loc rem spec st = Some (Done (h_port fh, st')) \<and>
    flows st' = (flows st)(q \<mapsto> \<lparr>nf_port = h_port fh, xActive = None, nf_state = ePORT_STATE_PENDING\<rparr>) \<and>
    fais st' a = Some \<lparr>fai_port = h_port fh, eFaiState = eFAI_NONE, pxFlowAllocatorHandle = h\<rparr> \<and> ev_queue st' = [eFATimerEvent] \<and>
    (\<forall>e2 len. RINA_flow_read e2 (h_port fh) len st' = Some (Done (0, [], st')))"
proof -
  obtain im where f: "a_handle e = Some h" "st1 = st\<lparr>pxPidm := im, handles := (handles st)(h \<mapsto> fh)\<rparr>" "nEventBits fh = 0"
    by (rule request_handle [OF assms(1,2)])
  let ?port = "h_port fh"
  define fl where "fl = \<lparr>nf_port = ?port, xActive = None, nf_state = ePORT_STATE_PENDING\<rparr>"
  define s2 where "s2 = st1\<lparr>ev_places := ev_places st - 1, ev_queue := [eFlowBindEvent h]\<rparr>"
  define s3 where "s3 = s2\<lparr>ev_queue := [], ev_places := ev_places s2 + 1, flows := (flows st)(q \<mapsto> fl),
    xFlowsList := second q (xFlowsList st), handles := (handles s2)(h \<mapsto> fh\<lparr>nEventBits := nEventBits fh OR eFLOW_BOUND\<rparr>)\<rparr>"
  define fh4 where "fh4 = fh\<lparr>nEventBits := - 1\<rparr>"
  define s4 where "s4 = s3\<lparr>handles := (handles s3)(h \<mapsto> fh4)\<rparr>"
  define s5 where "s5 = listed a ?port h s4"
  define s6 where "s6 = s5\<lparr>handles := (handles s5)(h \<mapsto> fh4\<lparr>usTimeout := 1\<rparr>), ev_places := ev_places st - 1, ev_queue := [eFATimerEvent]\<rparr>"
  have n1: "pxIpcManagerFindByType eNormal st1 = Done (Some i)" using find_type_cong [of st1 st eNormal] assms(4) f(2) by simp
  have n2: "pxIpcManagerFindByType eNormal s2 = Done (Some i)" using find_type_cong [of s2 st eNormal] assms(4) f(2) by (simp add: s2_def)
  have turn: "a_others e 0 s2 = Done s3"
    using bind_turn [of s2 h i inst fh te q rib now mem] n2 assms(2,5,6,11-13) f(2) by (simp add: s2_def s3_def fl_def)
  have sent: "xSendEventStructToIPCPTask False (a_ev e 0) (eFlowBindEvent h) 0 st1 = Done (True, s2)"
    using assms(7-10) f(2) by (simp add: xSendEventStructToIPCPTask_def s2_def Let_def)
  have w: "wait_bit (a_others e) 0 h eFLOW_BOUND s2 = Some (Done (1, s4))"
    using wait_bound [of "a_others e" 0 s2 s3 h "fh\<lparr>nEventBits := nEventBits fh OR eFLOW_BOUND\<rparr>" "nEventBits fh" eFLOW_BOUND] turn
    by (simp add: s3_def s4_def fh4_def eFLOW_BOUND_def)
  have b: "xRINA_bind e 0 (Some h) st1 = Some (Done (1, True, s4))" using sent w by (simp add: xRINA_bind_def)
  have side: "rib_side s4 = rib_side st" by (simp add: s4_def s3_def s2_def f(2))
  have h4: "handles s4 h = Some fh4" by (simp add: s4_def)
  have nb: "pxEnrollmentFindNeighbor (Some CFG_REMOTE_ADDRESS_AP_NAME) (to_enr s4) = Done None"
    using neighbors_side [OF side] assms(15) by simp
  have "vFlowAllocatorFlowRequest (a_rib e) (a_fa e) (a_self e) ?port h (to_enr s4) = Done (listed a ?port h (to_enr s4))"
    using request_listed [of "to_enr s4" h fh4 "a_fa e" a] h4 nb assms(14) by (simp add: to_enr_handles)
  then have rb: "on_rib (vFlowAllocatorFlowRequest (a_rib e) (a_fa e) (a_self e) ?port h) s4 = Done s5"
    by (simp add: on_rib_def listed_through s5_def)
  have h5: "handles s5 h = Some fh4" using h4 by (simp add: s5_def listed_rest)
  have t: "xSendEventToIPCPTask False (a_ev e 1) eFATimerEvent (s5\<lparr>handles := (handles s5)(h \<mapsto> fh4\<lparr>usTimeout := 1\<rparr>)\<rparr>) = Done (True, s6)"
    using assms(7,9,10) by (simp add: xSendEventToIPCPTask_def xSendEventStructToIPCPTask_def s6_def s5_def s4_def s3_def s2_def f(2) Let_def)
  have "prvConnect e 0 (Some h) st1 = Some (Done (1, True, s6))"
    using b h4 h5 rb t assms(2) n1 by (simp add: prvConnect_def RINA_flowStatus_def or_crash_def fh4_def)
  moreover have "handles s6 h = Some (fh4\<lparr>usTimeout := 1\<rparr>)" by (simp add: s6_def)
  moreover have "api_ipcp st1 = Some i0" using assms(3) f(2) by simp
  ultimately have r: "RINA_flow_alloc e junk dif loc rem spec st = Some (Done (?port, s6))"
    using assms(1) by (simp add: RINA_flow_alloc_def or_crash_def fh4_def)
  have fs: "flows s6 = (flows st)(q \<mapsto> fl)" "xFlowsList s6 = second q (xFlowsList st)" "fais s6 a = Some \<lparr>fai_port = ?port, eFaiState = eFAI_NONE, pxFlowAllocatorHandle = h\<rparr>"
    "ipcps s6 = ipcps st" "xIpcpTable s6 = xIpcpTable st" "ev_queue s6 = [eFATimerEvent]"
    by (simp_all add: s6_def s5_def s4_def s3_def s2_def f(2))
  obtain x st' where p: "xNormalFlowPrebind (Some q) fh st = (x, st')" by fastforce
  note pf = prebind_finds [OF assms(16,17) p]
  have st': "flows st' = flows s6" "xFlowsList st' = xFlowsList s6" using p fs(1,2) by (auto simp: xNormalFlowPrebind_def fl_def)
  then have "prvNormalFindFlow ?port s6 = prvNormalFindFlow ?port st'" by (simp add: prvNormalFindFlow_def flow_no_def)
  then have "\<not> xNormalIsFlowAllocated ?port s6" using pf fs(1) by (simp add: xNormalIsFlowAllocated_def fl_def)
  moreover have "pxIpcManagerFindByType eNormal s6 = Done (Some i)" using find_type_cong [of s6 st eNormal] fs(4,5) assms(4) by simp
  ultimately have "RINA_flow_read e2 ?port len s6 = Some (Done (0, [], s6))" for e2 len
    by (simp add: RINA_flow_read_def RINA_flowStatus_def or_crash_def)
  then show ?thesis using r fs fl_def by blast
qed

text \<open>Two names and a DIF; no port is in use yet.\<close>

lemma demo_request:
  "\<exists>st1 fh. prvRINACreateFlowRequest (api_env_demo\<lparr>a_others := oth\<rparr>) (ascii ''dif/1//'' @ [0]) (ascii ''sensor/1//'' @ [0])
      (ascii ''sink/1//'' @ [0]) None (st\<lparr>pxPidm := the (pxNumMgrCreate True True MAX_PORT_ID)\<rparr>) = Done (Some 15, st1) \<and>
    handles st1 15 = Some fh \<and> h_port fh = 1"
proof -
  have "\<exists>n. xNameAssignFromString zeros (ascii ''dif/1//'' @ [0]) = Inr n"
    "\<exists>n. xNameAssignFromString zeros (ascii ''sensor/1//'' @ [0]) = Inr n" "\<exists>n. xNameAssignFromString zeros (ascii ''sink/1//'' @ [0]) = Inr n"
    by (rule exI, code_simp)+
  moreover obtain im where "reserve (the (pxNumMgrCreate True True MAX_PORT_ID)) = Done (1, im)" using first_ports by blast
  ultimately show ?thesis by (auto simp: prvRINACreateFlowRequest_def unIpcManagerReservePort_def api_env_demo_def)
qed

lemma alloc_pending_witness:
  "\<exists>e st st'. RINA_flow_alloc e (0, 0) (ascii ''dif/1//'' @ [0]) (ascii ''sensor/1//'' @ [0]) (ascii ''sink/1//'' @ [0]) None st =
    Some (Done (1, st')) \<and> ev_queue st = [] \<and> ev_queue st' = [eFATimerEvent] \<and>
    RINA_flow_read e 1 1500 st' = Some (Done (0, [], st'))"
proof -
  let ?te = "task_env_demo\<lparr>t_flow := Some 71\<rparr>" and ?st = "(api_demo (idle_handle 5) [])\<lparr>pxPidm := the (pxNumMgrCreate True True MAX_PORT_ID)\<rparr>"
  let ?e = "api_env_demo\<lparr>a_others := \<lambda>_. task_step (stack_ops ?te (\<lambda>_ _ s. Done (True, s))) (0, 0) True\<rparr>"
  obtain st1 fh where r: "prvRINACreateFlowRequest ?e (ascii ''dif/1//'' @ [0]) (ascii ''sensor/1//'' @ [0])
      (ascii ''sink/1//'' @ [0]) None ?st = Done (Some 15, st1)" "handles st1 15 = Some fh" "h_port fh = 1"
    using demo_request by blast
  have n: "pxIpcManagerFindByType eNormal ?st = Done (Some 91)"
    using find_type_cong [of ?st "api_demo (idle_handle 5) []"] api_demo_normal by simp
  have s: "api_ipcp ?st = Some 91" "ipcps ?st 91 = Some \<lparr>xId = 1, inst_type = eNormal\<rparr>" "xIPCPTaskInitialised ?st" "ev_queue ?st = []"
    "0 < ev_places ?st" "\<not> bActive (xARPTimer ?st)" using api_demo_shim by simp_all
  have f: "prvNormalFindFlow (h_port fh) ?st = None" "71 \<notin> set (xFlowsList ?st)"
    using r(3) by (simp_all add: prvNormalFindFlow_def flow_no_def api_demo_shim)
  have e: "a_ev ?e = (\<lambda>_. True)" "a_others ?e 0 = task_step (stack_ops ?te (\<lambda>_ _ s. Done (True, s))) (0, 0) True"
    "t_flow ?te = Some 71" "r_fai (a_fa ?e) = Some 20" by (simp_all add: api_env_demo_def fa_env_demo_def)
  have "pxEnrollmentFindNeighbor nm (one_neighbor (rib_demo [] [])) = Done None" for nm
    by (simp add: pxEnrollmentFindNeighbor_def one_neighbor_def rib_state.defs enr_state.defs rib_demo_def numeral_eq_Suc)
  moreover have "normal_state.more (to_enr ?st) = normal_state.more (one_neighbor (rib_demo [] []))"
    by (simp add: to_enr_def normal_state.defs api_demo_shim)
  ultimately have nb: "pxEnrollmentFindNeighbor (Some CFG_REMOTE_ADDRESS_AP_NAME) (to_enr ?st) = Done None"
    using neighbors_more by metis
  have i: "inst_type \<lparr>xId = 1, inst_type = eNormal\<rparr> = eNormal" by simp
  from alloc_pending [OF r(1,2) s(1) n s(2) i s(3-5) e(1) s(6) e(2-4) nb f, of "(0, 0)"] r(3) s(4)
  obtain st' where "RINA_flow_alloc ?e (0, 0) (ascii ''dif/1//'' @ [0]) (ascii ''sensor/1//'' @ [0]) (ascii ''sink/1//'' @ [0]) None ?st =
      Some (Done (1, st'))" "ev_queue st' = [eFATimerEvent]" "\<forall>e2 len. RINA_flow_read e2 1 len st' = Some (Done (0, [], st'))" by auto
  then show ?thesis using s(4) by blast
qed

text \<open>C39. Failures that an application does not see, with a clock that can be read.  When the request cannot be handed to
  the task, because the task does not run yet or there is no memory for the event, the application gets a port all
  the same, though no flow was made and nothing is in the queue; without the memory a place of the queue is used up.
  When the queue is full the call waits for a place, without a limit.  And when there is no memory for the request
  the call crashes instead of failing.\<close>
theorem alloc_failure_unseen:
  assumes "api_ipcp st = Some i0" "pxIpcManagerFindByType eNormal st = Done (Some i)"
  shows "(a_handle e = None \<longrightarrow> RINA_flow_alloc e junk dif loc rem spec st = Some Crash) \<and>
    (prvRINACreateFlowRequest e dif loc rem spec st = Done (Some h, st1) \<and> handles st1 h = Some fh \<and>
       a_clk e 0 = Some t \<and> a_clk e 1 \<noteq> None \<longrightarrow>
     (\<not> xIPCPTaskInitialised st \<longrightarrow> RINA_flow_alloc e junk dif loc rem spec st = Some (Done (h_port fh, st1))) \<and>
     (xIPCPTaskInitialised st \<and> ev_places st = 0 \<longrightarrow> RINA_flow_alloc e junk dif loc rem spec st = Some Blocked) \<and>
     (xIPCPTaskInitialised st \<and> ev_places st \<noteq> 0 \<and> \<not> a_ev e 0 \<longrightarrow>
       RINA_flow_alloc e junk dif loc rem spec st = Some (Done (h_port fh, st1\<lparr>ev_places := ev_places st - 1\<rparr>))) \<and>
     flows st1 = flows st \<and> xFlowsList st1 = xFlowsList st \<and> ev_queue st1 = ev_queue st)"
proof (intro conjI impI)
  assume "a_handle e = None"
  then show "RINA_flow_alloc e junk dif loc rem spec st = Some Crash" using assms
    by (simp add: RINA_flow_alloc_def prvRINACreateFlowRequest_def prvConnect_def xRINA_bind_def or_crash_def)
next
  assume a: "prvRINACreateFlowRequest e dif loc rem spec st = Done (Some h, st1) \<and> handles st1 h = Some fh \<and>
       a_clk e 0 = Some t \<and> a_clk e 1 \<noteq> None"
  then obtain im where f: "st1 = st\<lparr>pxPidm := im, handles := (handles st)(h \<mapsto> fh)\<rparr>" "xReceiveBlockTime fh = 100"
    by (metis request_handle)
  then have g: "flows st1 = flows st" "xFlowsList st1 = xFlowsList st" "ev_queue st1 = ev_queue st" "ev_places st1 = ev_places st"
    "xIPCPTaskInitialised st1 = xIPCPTaskInitialised st" "handles st1 h = Some fh" "api_ipcp st1 = Some i0" using a assms(1) by simp_all
  show "flows st1 = flows st" "xFlowsList st1 = xFlowsList st" "ev_queue st1 = ev_queue st" using g by simp_all
  have n: "pxIpcManagerFindByType eNormal (st1\<lparr>ev_places := x\<rparr>) = Done (Some i)" for x
    using find_type_cong [of "st1\<lparr>ev_places := x\<rparr>" st eNormal] assms(2) f(1) by simp
  have n1: "pxIpcManagerFindByType eNormal st1 = Done (Some i)" using n [of "ev_places st1"] by simp
  have w: "alloc_wait e 0 1 h s us (st1\<lparr>ev_places := x\<rparr>) = Some (Done (st1\<lparr>ev_places := x\<rparr>))" for s us x
    using a n g(6) by (subst alloc_wait.simps) (auto simp: RINA_flowStatus_def or_crash_def xRsTimeCheckTimeOut_def Let_def)
  have lost: "RINA_flow_alloc e junk dif loc rem spec st = Some (Done (h_port fh, st1\<lparr>ev_places := x\<rparr>))"
    if "xSendEventStructToIPCPTask False (a_ev e 0) (eFlowBindEvent h) 0 st1 = Done (False, st1\<lparr>ev_places := x\<rparr>)" for x
  proof -
    have "prvConnect e 0 (Some h) st1 = Some (Done (0, False, st1\<lparr>ev_places := x\<rparr>))"
      using that n1 g(6) by (simp add: prvConnect_def xRINA_bind_def RINA_flowStatus_def or_crash_def)
    then show ?thesis using a w g(6,7) f(2) by (simp add: RINA_flow_alloc_def or_crash_def)
  qed
  have full: "RINA_flow_alloc e junk dif loc rem spec st = Some Blocked"
    if "xIPCPTaskInitialised st" "ev_places st = 0"
    using that a n1 g
    by (simp add: RINA_flow_alloc_def or_crash_def prvConnect_def xRINA_bind_def RINA_flowStatus_def xSendEventStructToIPCPTask_def Let_def)
  have send: "xSendEventStructToIPCPTask False (a_ev e 0) (eFlowBindEvent h) 0 st1 =
      (if \<not> xIPCPTaskInitialised st then Done (False, st1\<lparr>ev_places := ev_places st1\<rparr>)
       else if ev_places st = 0 then Blocked
       else if \<not> a_ev e 0 then Done (False, st1\<lparr>ev_places := ev_places st - 1\<rparr>)
       else Done (True, st1\<lparr>ev_places := ev_places st - 1, ev_queue := ev_queue st @ [eFlowBindEvent h]\<rparr>))"
    using g by (simp add: xSendEventStructToIPCPTask_def Let_def)
  show "RINA_flow_alloc e junk dif loc rem spec st = Some (Done (h_port fh, st1))" if "\<not> xIPCPTaskInitialised st"
    using that send lost [of "ev_places st1"] by simp
  show "RINA_flow_alloc e junk dif loc rem spec st = Some Blocked" if "xIPCPTaskInitialised st \<and> ev_places st = 0"
    using that full by simp
  show "RINA_flow_alloc e junk dif loc rem spec st = Some (Done (h_port fh, st1\<lparr>ev_places := ev_places st - 1\<rparr>))"
    if "xIPCPTaskInitialised st \<and> ev_places st \<noteq> 0 \<and> \<not> a_ev e 0" using that send lost [of "ev_places st - 1"] by simp
qed

lemma alloc_failure_unseen_witness:
  "\<exists>st1 st2 st3. RINA_flow_alloc (api_env_demo\<lparr>a_handle := None\<rparr>) (0, 0) [0] [0] [0] None (api_demo (idle_handle 5) []) = Some Crash \<and>
    RINA_flow_alloc api_env_demo (0, 0) (ascii ''dif/1//'' @ [0]) (ascii ''sensor/1//'' @ [0]) (ascii ''sink/1//'' @ [0]) None
      ((api_demo (idle_handle 5) [])\<lparr>xIPCPTaskInitialised := False, pxPidm := the (pxNumMgrCreate True True MAX_PORT_ID)\<rparr>) =
      Some (Done (1, st1)) \<and>
    RINA_flow_alloc api_env_demo (0, 0) (ascii ''dif/1//'' @ [0]) (ascii ''sensor/1//'' @ [0]) (ascii ''sink/1//'' @ [0]) None
      ((api_demo (idle_handle 5) [])\<lparr>ev_places := 0, pxPidm := the (pxNumMgrCreate True True MAX_PORT_ID)\<rparr>) = Some Blocked \<and>
    RINA_flow_alloc (api_env_demo\<lparr>a_ev := (\<lambda>_. False)\<rparr>) (0, 0) (ascii ''dif/1//'' @ [0]) (ascii ''sensor/1//'' @ [0]) (ascii ''sink/1//'' @ [0]) None
      ((api_demo (idle_handle 5) [])\<lparr>ev_places := 3, pxPidm := the (pxNumMgrCreate True True MAX_PORT_ID)\<rparr>) =
      Some (Done (1, st2\<lparr>ev_places := 2\<rparr>))"
proof -
  let ?nm = "the (pxNumMgrCreate True True MAX_PORT_ID)"
  let ?s = "api_demo (idle_handle 5) []"
  let ?s1 = "?s\<lparr>xIPCPTaskInitialised := False, pxPidm := ?nm\<rparr>"
    and ?s2 = "?s\<lparr>ev_places := 0, pxPidm := ?nm\<rparr>" and ?s3 = "?s\<lparr>ev_places := 3, pxPidm := ?nm\<rparr>"
  let ?d = "ascii ''dif/1//'' @ [0]" and ?l = "ascii ''sensor/1//'' @ [0]" and ?r = "ascii ''sink/1//'' @ [0]"
  have n: "pxIpcManagerFindByType eNormal ?s1 = Done (Some 91)" "pxIpcManagerFindByType eNormal ?s2 = Done (Some 91)"
    "pxIpcManagerFindByType eNormal ?s3 = Done (Some 91)"
    "api_ipcp ?s1 = Some 91" "api_ipcp ?s2 = Some 91" "api_ipcp ?s3 = Some 91"
    "xIPCPTaskInitialised ?s2" "xIPCPTaskInitialised ?s3"
    using find_type_cong [of ?s1 ?s] find_type_cong [of ?s2 ?s] find_type_cong [of ?s3 ?s] api_demo_normal api_demo_shim(5,7)
    by simp_all
  have e: "api_env_demo\<lparr>a_others := a_others api_env_demo\<rparr> = api_env_demo" by simp
  have q: "\<exists>st1 fh. prvRINACreateFlowRequest api_env_demo ?d ?l ?r None (st\<lparr>pxPidm := ?nm\<rparr>) = Done (Some 15, st1) \<and>
      handles st1 15 = Some fh \<and> h_port fh = 1" for st
    using demo_request [of "a_others api_env_demo" st] e by auto
  have m: "prvRINACreateFlowRequest (api_env_demo\<lparr>a_ev := ev\<rparr>) = prvRINACreateFlowRequest api_env_demo" for ev
    by (simp add: prvRINACreateFlowRequest_def fun_eq_iff cong: option.case_cong sum.case_cong if_cong)
  obtain t1 f1 where 1: "prvRINACreateFlowRequest api_env_demo ?d ?l ?r None ?s1 = Done (Some 15, t1)" "handles t1 15 = Some f1" "h_port f1 = 1"
    using q [of "?s\<lparr>xIPCPTaskInitialised := False\<rparr>"] by auto
  obtain t2 f2 where 2: "prvRINACreateFlowRequest api_env_demo ?d ?l ?r None ?s2 = Done (Some 15, t2)" "handles t2 15 = Some f2" "h_port f2 = 1"
    using q [of "?s\<lparr>ev_places := 0\<rparr>"] by auto
  obtain t3 f3 where 3: "prvRINACreateFlowRequest api_env_demo ?d ?l ?r None ?s3 = Done (Some 15, t3)" "handles t3 15 = Some f3" "h_port f3 = 1"
    using q [of "?s\<lparr>ev_places := 3\<rparr>"] by auto
  have c: "a_clk api_env_demo 0 = Some (0, 0)" "a_clk api_env_demo 1 \<noteq> None" by (simp_all add: api_env_demo_def)
  have "RINA_flow_alloc api_env_demo (0, 0) ?d ?l ?r None ?s1 = Some (Done (1, t1))"
    using alloc_failure_unseen [OF n(4,1), of api_env_demo "(0, 0)" ?d ?l ?r None 15 t1 f1] 1 c by simp
  moreover have "RINA_flow_alloc api_env_demo (0, 0) ?d ?l ?r None ?s2 = Some Blocked"
    using alloc_failure_unseen [OF n(5,2), of api_env_demo "(0, 0)" ?d ?l ?r None 15 t2 f2] 2 c n(7) by simp
  moreover have "RINA_flow_alloc (api_env_demo\<lparr>a_ev := (\<lambda>_. False)\<rparr>) (0, 0) ?d ?l ?r None ?s3 = Some (Done (1, t3\<lparr>ev_places := 2\<rparr>))"
    using alloc_failure_unseen [OF n(6,3), of "api_env_demo\<lparr>a_ev := (\<lambda>_. False)\<rparr>" "(0, 0)" ?d ?l ?r None 15 t3 f3] 3 c n(8)
    by (simp add: m)
  moreover have "RINA_flow_alloc (api_env_demo\<lparr>a_handle := None\<rparr>) (0, 0) [0] [0] [0] None ?s = Some Crash"
    using alloc_failure_unseen [OF api_demo_shim(5) api_demo_normal, of "api_env_demo\<lparr>a_handle := None\<rparr>"] by simp
  ultimately show ?thesis by blast
qed

end
