(* ===== verification/Spec2Isabelle.thy ===== *)
theory Spec2Isabelle
  imports Num_Mgr Netbuf Arp Rs_List Rsrc Normal_Steps Enrollment Queue_Calls Serdes_Nbr Mac Release Rina_Api
begin

text \<open>RINASense is a network stack of the Recursive InterNetwork Architecture for small devices.  An
  application asks for flows by name; a \<^emph>\<open>normal\<close> IPC process keeps the flows, the connections and a
  resource information base (RIB) that it shares with its neighbours by CDAP messages; a \<^emph>\<open>shim\<close> IPC
  process below it puts the PDUs into Ethernet frames and finds hardware addresses by ARP.  One task runs
  the stack: it takes events out of a queue and calls the operations of the two processes.  This library
  models the code of \<^verbatim>\<open>src/components\<close> and proves what it does, and it says so where that is not what the
  code means to do.

  \<^bold>\<open>How the code is modelled.\<close>  Functions are HOL functions with the names of the source.  Machine integers are
  words of their width (\<open>u8\<close> to \<open>u64\<close>; the host is little-endian and of 64 bits).  State is a record that is
  passed along; the state of each layer extends that of the layer below: \<open>fa_state\<close>, \<open>efcp_state\<close>, \<open>rmt_state\<close>,
  \<open>normal_state\<close>, and from there \<open>rib_state\<close> and \<open>enr_state\<close> for the RIB and enrollment, \<open>task_state\<close> and
  \<open>shim_state\<close> for the task and the shim.  Objects live at addresses (partial maps from \<open>nat\<close>), so that
  sharing, dangling pointers and double frees are visible.  An operation returns an \<open>outcome\<close>: \<open>Done\<close> with
  its result, \<open>Crash\<close> for a failed assertion or an access to memory that is not there, \<open>Blocked\<close> for a wait
  without end; errors of the code are the left summand of a sum, or false.  What the code gets from
  outside (memory, the clock, the network interface, the encoder of protocol buffers, what other threads
  do while it waits) is an argument of the definitions.

  \<^bold>\<open>Foundations\<close> (\<^verbatim>\<open>Common\<close>). \<open>Prelude\<close> and
  \<open>Keyed_Table\<close> hold the vocabulary and the interfaces \<open>key_comparison\<close> and
  \<open>keyed_table\<close>. \<open>Rs_Error\<close>: error codes and the per-thread chain of errors
  (\<^verbatim>\<open>error.c\<close>). \<open>Bit_Array\<close> (\<^verbatim>\<open>bit_array.h\<close>, interface
  \<open>bit_store\<close>) and \<open>Num_Mgr\<close> (\<^verbatim>\<open>num_mgr.c\<close>): no number is given twice,
  and a search returns iff a number is free. \<open>Rina_Name\<close> (\<^verbatim>\<open>rina_name.c\<close>) and
  \<open>Gpha\<close> (\<^verbatim>\<open>rina_gpha.c\<close>): names and addresses, round trips of their strings;
  \<open>Mac\<close> (\<^verbatim>\<open>mac.c\<close>): the text of a hardware address. \<open>Rs_Time\<close>
  (\<^verbatim>\<open>posix_rstime.c\<close>): time-outs count down, within 32 bits of nanoseconds.
  \<open>Release\<close>: what gives names, messages, addresses and the container of EFCP back to the heap, and the
  helpers of a pool. \<open>Rs_List\<close> (\<^verbatim>\<open>list.c\<close> and the ring of
  \<^verbatim>\<open>iot_doubly_linked_list.h\<close>): the linked structure refines lists, and
  \<^verbatim>\<open>vRsListInsert\<close> puts an item at the second place. \<open>Rsrc\<close>
  (\<^verbatim>\<open>rsrc.c\<close>): resource pools, their invariant. \<open>Netbuf\<close>
  (\<^verbatim>\<open>netbuf.c\<close>): chains of segments over shared buffers; a buffer is freed once, with the last
  segment that uses it; splitting and reading. \<open>Array_List\<close> (\<^verbatim>\<open>arraylist.c\<close>,
  \<^verbatim>\<open>datapacker.c\<close>). \<open>Queues\<close> (\<^verbatim>\<open>queue.c\<close>,
  \<^verbatim>\<open>simple_queue.c\<close>, the semaphores): the operations are cut where another thread may run, their
  interleavings are a step relation; the queue is first in, first out. \<open>Queue_Calls\<close>: with nobody else in a call, each call
  is what it says of a bounded list, with its status and bytes.

  \<^bold>\<open>Data transfer.\<close>  \<open>Pci\<close> (\<^verbatim>\<open>pci.h\<close>, \<^verbatim>\<open>du.c\<close>): headers and data units.  \<open>Flow_Alloc\<close> (\<^verbatim>\<open>FlowAllocator.c\<close>): the table of
  flows and the packets that wait.  \<open>Efcp\<close> (\<^verbatim>\<open>EFCP.c\<close>, \<^verbatim>\<open>dtp.c\<close>): connections, sequence numbers, delivery;
  \<open>Frames\<close> says what EFCP leaves alone.  \<open>Rmt\<close> (\<^verbatim>\<open>Rmt.c\<close>): N-1 ports and dispatch.  \<open>Normal\<close> (\<^verbatim>\<open>normalIPCP.c\<close>): flows,
  management and user data; \<open>Normal_Steps\<close> closes the well-typed states under its operations in any order;
  \<open>Cuts\<close> follows a DU whose headers are cut off, and says what becomes of any such DU that the RMT receives.

  \<^bold>\<open>Management.\<close>  \<open>Cdap\<close> (\<^verbatim>\<open>CdapMessage.c\<close>), \<open>Rib\<close> (\<^verbatim>\<open>Ribd.c\<close>, \<^verbatim>\<open>Ribd_connections.c\<close>, \<^verbatim>\<open>Ribd_requests.c\<close>, \<^verbatim>\<open>Ribd_obj.c\<close>)
  and \<open>Rib_Tables\<close>: messages, the tables of connections, requests and objects, their refinement to maps, the
  life of a request.  \<open>Enrollment\<close> (\<^verbatim>\<open>Enrollment.c\<close>, \<^verbatim>\<open>Enrollment_Inbound.c\<close>, \<^verbatim>\<open>neighbor.c\<close>): neighbours and the
  thread that enrolls one.  \<open>Serdes\<close> and \<open>Serdes_Nbr\<close> (\<^verbatim>\<open>SerDesMessage.c\<close>, \<^verbatim>\<open>SerDesEnrollment.c\<close>, \<^verbatim>\<open>SerDesAData.c\<close>,
  \<^verbatim>\<open>SerDesNeighbor.c\<close>): the conversion to and from the structures of the protocol buffers.

  \<^bold>\<open>Below and around.\<close>  \<open>Arp_Cache\<close> (\<^verbatim>\<open>cache.c\<close>) and \<open>Arp\<close> (\<^verbatim>\<open>ARP826.c\<close>): the address cache as a keyed table, requests and
  replies on bytes.  \<open>Ipcp\<close> (\<^verbatim>\<open>IpcManager.c\<close>, timers and queue of \<^verbatim>\<open>IPCP.c\<close>), \<open>Shim\<close>, \<open>Shim_Frames\<close>, \<open>Shim_Flows\<close>
  (\<^verbatim>\<open>ShimIPCP.c\<close>) and \<open>Ipcp_Task\<close> (the task of \<^verbatim>\<open>IPCP.c\<close> and the set-up of the stack): data written on one host is
  what the management of its neighbour is given, a frame on the wire reaches the RIB daemon in one
  iteration of the task, and setting up the stack registers its names.

  \<^bold>\<open>The application's side.\<close>  \<open>Serdes_Flow\<close> (\<^verbatim>\<open>SerDesFlow.c\<close>) converts the messages about flows, \<open>Flow_Request\<close>
  (\<^verbatim>\<open>FlowAllocator.c\<close>) is what the flow allocator does for a request and for the answer of the other side.  \<open>Rina_Api\<close>
  (\<^verbatim>\<open>RINA_API.c\<close>) puts the two sides of the state together in \<open>api_state\<close>: the task and the shim, and beside them
  the RIB with the neighbours.  An application that waits gives the other threads a turn before each look at the
  event bits; so one theorem follows a request from the call through the event queue, the task, the normal
  process and the flow allocator back to the caller, and another a packet from the posting to the reader.

  \<^bold>\<open>Bounds and fuel.\<close>  Tables have the sizes of the configuration.  Loops that the source does not bound are
  \<open>partial_function (option)\<close>s, whose value \<open>None\<close> stands for not returning (for a chain also for touching memory
  that is gone): the search of the number manager, which is proved to end iff a number is free, the walks over
  chains of segments, which end on every chain that is well formed, and the waits of an application, which end
  when what they wait for happens and, for reading, are proved never to end otherwise.  No definition runs on
  fuel.  Where another thread has to act for a call to go on, and nothing in the model does, the outcome is
  \<open>Blocked\<close>.

  \<^bold>\<open>Simplified.\<close>  A network buffer does not carry the pool its segment came from, which only a build with
  \<^verbatim>\<open>CONFIG_NETBUF_USES_POOLS\<close> allocates from.  The names in a CDAP message to be encoded have all their parts; a part that
  is \<^verbatim>\<open>NULL\<close> is not modelled.  The seconds of a time are taken as a word of 64 bits; in the code their product is signed and
  has no defined value beyond 292 years.  The outcome of the set-up of the RIB, of enrollment and of the flow allocator
  is an argument of the set-up of the normal process.

  \<^bold>\<open>Not modelled.\<close>  \<^verbatim>\<open>CdapProto\<close> is nanopb with code generated from the protocol files: a third-party library whose
  encoder and decoder are parameters.  \<^verbatim>\<open>FreeRTOS-Plus-POSIX\<close> is vendored.  The drivers of \<^verbatim>\<open>NetworkInterface\<close> are
  system calls and device set-up, their effect is the parameter of the shim; the rest of \<^verbatim>\<open>Portability\<close> wraps
  memory, logging and threads of the platforms.  The printing and logging functions, the tests, the mocks, the
  applications and the functions compiled out by \<^verbatim>\<open>#if 0\<close> are left out.  Mutexes that a function takes and gives
  back on every path are left out where one call is one step; where a lock can stay taken, as in the RIB
  daemon and the queues, it is part of the state.\<close>

end
